(* ===== verification/Prelude.thy ===== *)
theory Prelude
  imports Main "HOL-Library.Word" "HOL-Library.AList" "HOL-Library.Monad_Syntax"
begin

text \<open>
  Shared vocabulary of the development: machine words, Go slices and maps, decimal numbers,
  and the generic contract "every operation keeps the invariant and does not panic".

  Conventions used by every other theory:
  \<^item> A Go run-time panic (index out of range, nil dereference) is \<open>None\<close> of an \<open>option\<close>;
    an \<open>error\<close> value returned by the code is \<open>Inl\<close> of a sum type, a good result \<open>Inr\<close>.
  \<^item> A byte slice is the list of its bytes; slice expressions are checked against its
    length (the code only slices buffers up to their length).
  \<^item> A Go map is an association list with distinct keys. Its order stands for the unspecified
    iteration order of Go, so a fact proved for all lists holds for all iteration orders.
  \<^item> Go's \<open>int\<close> is \<open>int\<close> or \<open>nat\<close>; \<open>uint8/16/32/64\<close> are words and wrap around.
\<close>

unbundle bit_operations_syntax

type_synonym byte = "8 word"
type_synonym u16 = "16 word"
type_synonym u32 = "32 word"
type_synonym bytes = "byte list"

named_theorems go_defs \<open>definitions of the Go slice primitives\<close>
named_theorems inv_defs \<open>state invariants of the components\<close>


section \<open>Slices\<close>

text \<open>\<open>xs[i]\<close>, \<open>xs[i] = v\<close>, \<open>xs[lo:hi]\<close> and \<open>copy(xs[lo:hi], src)\<close>.\<close>

definition idx :: "'a list \<Rightarrow> nat \<Rightarrow> 'a option" where
  [go_defs]: "idx xs i = (if i < length xs then Some (xs ! i) else None)"

definition put :: "'a list \<Rightarrow> nat \<Rightarrow> 'a \<Rightarrow> 'a list option" where
  [go_defs]: "put xs i v = (if i < length xs then Some (xs[i := v]) else None)"

definition slice :: "'a list \<Rightarrow> nat \<Rightarrow> nat \<Rightarrow> 'a list option" where
  [go_defs]: "slice xs lo hi =
     (if lo \<le> hi \<and> hi \<le> length xs then Some (take (hi - lo) (drop lo xs)) else None)"

definition copy_to :: "'a list \<Rightarrow> nat \<Rightarrow> nat \<Rightarrow> 'a list \<Rightarrow> 'a list option" where
  [go_defs]: "copy_to xs lo hi src =
     (if lo \<le> hi \<and> hi \<le> length xs
      then (let n = min (hi - lo) (length src)
            in Some (take lo xs @ take n src @ drop (lo + n) xs))
      else None)"

lemma idx_Some_iff: "idx xs i = Some v \<longleftrightarrow> i < length xs \<and> xs ! i = v"
  by (simp add: idx_def)

lemma put_Some_iff: "put xs i v = Some ys \<longleftrightarrow> i < length xs \<and> ys = xs[i := v]"
  by (auto simp add: put_def)

lemma slice_Some_iff:
  "slice xs lo hi = Some ys \<longleftrightarrow> lo \<le> hi \<and> hi \<le> length xs \<and> ys = take (hi - lo) (drop lo xs)"
  by (auto simp add: slice_def)

lemma length_copy_to: "copy_to xs lo hi src = Some ys \<Longrightarrow> length ys = length xs"
  by (auto simp add: copy_to_def Let_def split: if_splits)


section \<open>Big-endian words\<close>

definition be16 :: "byte \<Rightarrow> byte \<Rightarrow> u16" where
  "be16 a b = word_of_nat (unat a * 256 + unat b)"

definition hi8 :: "u16 \<Rightarrow> byte" where
  "hi8 w = word_of_nat (unat w div 256)"

definition lo8 :: "u16 \<Rightarrow> byte" where
  "lo8 w = word_of_nat (unat w mod 256)"

definition be32 :: "byte \<Rightarrow> byte \<Rightarrow> byte \<Rightarrow> byte \<Rightarrow> u32" where
  "be32 a b c d = word_of_nat (unat (be16 a b) * 65536 + unat (be16 c d))"

definition bytes16 :: "u16 \<Rightarrow> bytes" where
  "bytes16 w = [hi8 w, lo8 w]"

definition hi16 :: "u32 \<Rightarrow> u16" where
  "hi16 w = word_of_nat (unat w div 65536)"

definition lo16 :: "u32 \<Rightarrow> u16" where
  "lo16 w = word_of_nat (unat w mod 65536)"

definition bytes32 :: "u32 \<Rightarrow> bytes" where
  "bytes32 w = bytes16 (hi16 w) @ bytes16 (lo16 w)"

lemma unat_word_of_nat_small:
  "n < 2 ^ LENGTH('a) \<Longrightarrow> unat (word_of_nat n :: 'a::len word) = n"
  by (simp only: unat_of_nat mod_less)

lemma unat_byte_bound: "unat (b :: byte) < 256"
  using unsigned_less [of b] by simp

lemma unat_u16_bound: "unat (w :: u16) < 65536"
  using unsigned_less [of w] by simp

lemma unat_u32_bound: "unat (w :: u32) < 4294967296"
  using unsigned_less [of w] by simp

lemma unat_be16: "unat (be16 a b) = unat a * 256 + unat b"
  unfolding be16_def
  by (rule unat_word_of_nat_small)
    (use unat_byte_bound [of a] unat_byte_bound [of b] in simp)

lemma unat_hi8: "unat (hi8 w) = unat w div 256"
  unfolding hi8_def
  by (rule unat_word_of_nat_small)
    (use unat_u16_bound [of w] in \<open>simp add: div_less_iff_less_mult\<close>)

lemma unat_lo8: "unat (lo8 w) = unat w mod 256"
  unfolding lo8_def by (rule unat_word_of_nat_small) simp

lemma unat_hi16: "unat (hi16 w) = unat w div 65536"
  unfolding hi16_def
  by (rule unat_word_of_nat_small)
    (use unat_u32_bound [of w] in \<open>simp add: div_less_iff_less_mult\<close>)

lemma unat_lo16: "unat (lo16 w) = unat w mod 65536"
  unfolding lo16_def by (rule unat_word_of_nat_small) simp

lemma be16_hi_lo [simp]: "be16 (hi8 w) (lo8 w) = w"
  by (simp add: word_unat_eq_iff unat_be16 unat_hi8 unat_lo8)

lemma hi8_be16 [simp]: "hi8 (be16 a b) = a"
  using unat_byte_bound [of b] by (simp add: word_unat_eq_iff unat_be16 unat_hi8)

lemma lo8_be16 [simp]: "lo8 (be16 a b) = b"
  using unat_byte_bound [of b] by (simp add: word_unat_eq_iff unat_be16 unat_lo8)

lemma be16_inject: "be16 a b = be16 c d \<longleftrightarrow> a = c \<and> b = d"
  by (metis hi8_be16 lo8_be16)

lemma length_bytes16 [simp]: "length (bytes16 w) = 2"
  by (simp add: bytes16_def)

lemma length_bytes32 [simp]: "length (bytes32 w) = 4"
  by (simp add: bytes32_def)

lemma unat_be32: "unat (be32 a b c d) = unat (be16 a b) * 65536 + unat (be16 c d)"
  unfolding be32_def
  by (rule unat_word_of_nat_small)
    (use unat_u16_bound [of "be16 a b"] unat_u16_bound [of "be16 c d"] in simp)

lemma hi16_be32 [simp]: "hi16 (be32 a b c d) = be16 a b"
  using unat_u16_bound [of "be16 c d"] by (simp add: word_unat_eq_iff unat_be32 unat_hi16)

lemma lo16_be32 [simp]: "lo16 (be32 a b c d) = be16 c d"
  using unat_u16_bound [of "be16 c d"] by (simp add: word_unat_eq_iff unat_be32 unat_lo16)

lemma be32_inject:
  "be32 a b c d = be32 a' b' c' d' \<longleftrightarrow> a = a' \<and> b = b' \<and> c = c' \<and> d = d'"
  by (metis be16_inject hi16_be32 lo16_be32)

lemma be32_of_halves: "be32 (hi8 (hi16 w)) (lo8 (hi16 w)) (hi8 (lo16 w)) (lo8 (lo16 w)) = w"
  by (simp add: word_unat_eq_iff unat_be32 unat_hi16 unat_lo16)

lemma bytes32_be32: "bytes32 (be32 a b c d) = [a, b, c, d]"
  by (simp add: bytes32_def bytes16_def)

text \<open>\<open>binary.BigEndian.Uint16(p[i:])\<close>, \<open>Uint32(p[i:])\<close> and \<open>PutUint16(p[i:], w)\<close>.\<close>

definition be16_at :: "bytes \<Rightarrow> nat \<Rightarrow> u16 option" where
  [go_defs]: "be16_at p i = (do { a \<leftarrow> idx p i; b \<leftarrow> idx p (Suc i); Some (be16 a b) })"

definition be32_at :: "bytes \<Rightarrow> nat \<Rightarrow> u32 option" where
  [go_defs]: "be32_at p i =
     (do { a \<leftarrow> idx p i; b \<leftarrow> idx p (i + 1); c \<leftarrow> idx p (i + 2); d \<leftarrow> idx p (i + 3);
           Some (be32 a b c d) })"

definition put16_at :: "bytes \<Rightarrow> nat \<Rightarrow> u16 \<Rightarrow> bytes option" where
  [go_defs]: "put16_at p i w = (do { q \<leftarrow> put p i (hi8 w); put q (Suc i) (lo8 w) })"

lemma be16_at_eq: "Suc i < length p \<Longrightarrow> be16_at p i = Some (be16 (p ! i) (p ! Suc i))"
  by (simp add: be16_at_def idx_def)

lemma be16_at_None_iff: "be16_at p i = None \<longleftrightarrow> length p \<le> Suc i"
  by (auto simp: be16_at_def idx_def)

lemma put16_at_eq:
  "Suc i < length p \<Longrightarrow> put16_at p i w = Some (p[i := hi8 w, Suc i := lo8 w])"
  by (simp add: put16_at_def put_def)

lemma put16_at_Some_iff:
  "put16_at p i w = Some q \<longleftrightarrow> Suc i < length p \<and> q = p[i := hi8 w, Suc i := lo8 w]"
  by (auto simp: put16_at_def put_def split: if_splits)

lemma length_put16_at: "put16_at p i w = Some q \<Longrightarrow> length q = length p"
  by (auto simp: put16_at_Some_iff)


section \<open>Go maps\<close>

text \<open>\<open>m[k]\<close>, \<open>m[k] = v\<close> and \<open>delete(m, k)\<close> on an association list.\<close>

type_synonym ('k, 'v) gomap = "('k \<times> 'v) list"

definition mget :: "('k, 'v) gomap \<Rightarrow> 'k \<Rightarrow> 'v option" where
  "mget m k = map_of m k"

definition mset :: "'k \<Rightarrow> 'v \<Rightarrow> ('k, 'v) gomap \<Rightarrow> ('k, 'v) gomap" where
  "mset k v m = AList.update k v m"

definition mdel :: "'k \<Rightarrow> ('k, 'v) gomap \<Rightarrow> ('k, 'v) gomap" where
  "mdel k m = AList.delete k m"

definition mkeys :: "('k, 'v) gomap \<Rightarrow> 'k set" where
  "mkeys m = fst ` set m"

definition map_ok :: "('k, 'v) gomap \<Rightarrow> bool" where
  "map_ok m \<longleftrightarrow> distinct (map fst m)"

lemma mget_Nil [simp]: "mget [] k = None"
  by (simp add: mget_def)

lemma mget_mset [simp]: "mget (mset k v m) j = (if j = k then Some v else mget m j)"
  by (simp add: mget_def mset_def update_conv')

lemma mget_mdel [simp]: "mget (mdel k m) j = (if j = k then None else mget m j)"
  by (simp add: mget_def mdel_def delete_conv')

lemma mget_None_iff: "mget m k = None \<longleftrightarrow> k \<notin> mkeys m"
  by (simp add: mget_def mkeys_def map_of_eq_None_iff)

lemma mget_Some_in: "mget m k = Some v \<Longrightarrow> (k, v) \<in> set m"
  unfolding mget_def by (rule map_of_SomeD)

lemma mget_in_keys: "mget m k = Some v \<Longrightarrow> k \<in> mkeys m"
  by (metis mget_None_iff option.distinct(1))

lemma map_ok_in_iff: "map_ok m \<Longrightarrow> (k, v) \<in> set m \<longleftrightarrow> mget m k = Some v"
  by (simp add: map_ok_def mget_def)

lemma map_ok_Nil [simp]: "map_ok []"
  by (simp add: map_ok_def)

lemma map_ok_mset [simp]: "map_ok m \<Longrightarrow> map_ok (mset k v m)"
  by (simp add: map_ok_def mset_def distinct_update)

lemma map_ok_mdel [simp]: "map_ok m \<Longrightarrow> map_ok (mdel k m)"
  by (simp add: map_ok_def mdel_def distinct_delete)

lemma mkeys_Nil [simp]: "mkeys [] = {}"
  by (simp add: mkeys_def)

lemma mkeys_mset [simp]: "mkeys (mset k v m) = insert k (mkeys m)"
  by (auto simp: set_eq_iff simp flip: mget_None_iff)
    (metis mget_None_iff mget_mset option.distinct(1))+

lemma mkeys_mdel [simp]: "mkeys (mdel k m) = mkeys m - {k}"
proof -
  have "j \<notin> mkeys (mdel k m) \<longleftrightarrow> j \<notin> mkeys m - {k}" for j
    unfolding mget_None_iff [symmetric] by (auto simp flip: mget_None_iff)
  then show ?thesis by blast
qed

lemma finite_mkeys [simp]: "finite (mkeys m)"
  by (simp add: mkeys_def)

lemma length_eq_card_mkeys: "map_ok m \<Longrightarrow> length m = card (mkeys m)"
  unfolding map_ok_def mkeys_def by (metis distinct_card length_map list.set_map)

lemma length_mset:
  "map_ok m \<Longrightarrow> length (mset k v m) = (if k \<in> mkeys m then length m else Suc (length m))"
  by (simp add: length_eq_card_mkeys insert_absorb)

lemma length_mdel:
  "map_ok m \<Longrightarrow> length (mdel k m) = (if k \<in> mkeys m then length m - 1 else length m)"
  by (simp add: length_eq_card_mkeys)


section \<open>Doubly linked lists\<close>

text \<open>\<open>container/list\<close> with one element per value: \<open>MoveToBack\<close> and \<open>Remove\<close>.\<close>

definition move_to_back :: "'a \<Rightarrow> 'a list \<Rightarrow> 'a list" where
  "move_to_back x xs = remove1 x xs @ [x]"

lemma set_move_to_back [simp]: "x \<in> set xs \<Longrightarrow> distinct xs \<Longrightarrow> set (move_to_back x xs) = set xs"
  by (auto simp: move_to_back_def)

lemma distinct_move_to_back [simp]: "distinct xs \<Longrightarrow> distinct (move_to_back x xs)"
  by (simp add: move_to_back_def)

lemma length_move_to_back: "x \<in> set xs \<Longrightarrow> length (move_to_back x xs) = length xs"
  using length_pos_if_in_set [of x xs] by (simp add: move_to_back_def length_remove1)

lemma last_move_to_back [simp]: "last (move_to_back x xs) = x"
  by (simp add: move_to_back_def)


section \<open>Decimal numbers\<close>

text \<open>\<open>%d\<close> and \<open>strconv.Itoa\<close> on numbers that are not negative.\<close>

definition digit :: "nat \<Rightarrow> char" where
  "digit n = ''0123456789'' ! n"

fun dec :: "nat \<Rightarrow> string" where
  "dec n = (if n < 10 then [digit n] else dec (n div 10) @ [digit (n mod 10)])"

declare dec.simps [simp del]

definition is_digit :: "char \<Rightarrow> bool" where
  "is_digit c \<longleftrightarrow> c \<in> set ''0123456789''"

lemma digit_inject: "m < 10 \<Longrightarrow> n < 10 \<Longrightarrow> digit m = digit n \<longleftrightarrow> m = n"
  unfolding digit_def by (rule nth_eq_iff_index_eq) simp_all

lemma is_digit_digit: "n < 10 \<Longrightarrow> is_digit (digit n)"
  unfolding is_digit_def digit_def by (rule nth_mem) simp

lemma dec_nonempty [simp]: "dec n \<noteq> []"
  by (subst dec.simps) simp

lemma Nil_neq_dec [simp]: "[] \<noteq> dec n"
  by (metis dec_nonempty)

lemma dec_digits: "list_all is_digit (dec n)"
proof (induction n rule: dec.induct)
  case (1 n)
  then show ?case by (subst dec.simps) (auto simp: is_digit_digit)
qed

lemma dec_small: "n < 10 \<Longrightarrow> dec n = [digit n]"
  by (subst dec.simps) simp

lemma dec_large: "\<not> n < 10 \<Longrightarrow> dec n = dec (n div 10) @ [digit (n mod 10)]"
  by (subst dec.simps) simp

lemma dec_small_neq_large: "m < 10 \<Longrightarrow> \<not> n < 10 \<Longrightarrow> dec m \<noteq> dec n"
  using dec_nonempty [of "n div 10"] by (cases "dec (n div 10)") (auto simp: dec_small dec_large [of n])

lemma dec_inject: "dec m = dec n \<longleftrightarrow> m = n"
proof (induction m arbitrary: n rule: dec.induct)
  case (1 m)
  consider "m < 10" "n < 10" | "m < 10" "\<not> n < 10" | "\<not> m < 10" "n < 10"
    | "\<not> m < 10" "\<not> n < 10" by blast
  then show ?case
  proof cases
    case 1
    then show ?thesis by (simp add: dec_small digit_inject)
  next
    case 2
    then show ?thesis using dec_small_neq_large by blast
  next
    case 3
    then show ?thesis using dec_small_neq_large [of n m] by metis
  next
    case 4
    with "1.IH" have "dec m = dec n \<longleftrightarrow> m div 10 = n div 10 \<and> m mod 10 = n mod 10"
      by (simp add: dec_large [of m] dec_large [of n] digit_inject)
    then show ?thesis by (metis div_mult_mod_eq)
  qed
qed

text \<open>Splitting a string at the first character that is not a digit is unambiguous.\<close>

lemma digits_sep_inject:
  assumes "list_all is_digit xs" "list_all is_digit ys"
    and "\<not> is_digit c" "xs @ c # us = ys @ c # vs"
  shows "xs = ys \<and> us = vs"
  using assms
proof (induction xs arbitrary: ys)
  case Nil
  then show ?case by (cases ys) auto
next
  case (Cons x xs)
  then show ?case by (cases ys) auto
qed


definition show_int :: "int \<Rightarrow> string" where
  "show_int i = (if i < 0 then CHR ''-'' # dec (nat (- i)) else dec (nat i))"

lemma show_int_nonneg: "0 \<le> i \<Longrightarrow> show_int i = dec (nat i)"
  by (simp add: show_int_def)


section \<open>Errors and input streams\<close>

text \<open>\<open>v, err := f(); if err != nil { return err }\<close> followed by the rest of the function.\<close>

fun and_then :: "'e + 'a \<Rightarrow> ('a \<Rightarrow> 'e + 'b) \<Rightarrow> 'e + 'b" where
  "and_then (Inl e) f = Inl e"
| "and_then (Inr a) f = f a"

lemma and_then_Inr_iff: "and_then x f = Inr b \<longleftrightarrow> (\<exists>a. x = Inr a \<and> f a = Inr b)"
  by (cases x) auto

lemma and_then_Inl_iff: "and_then x f = Inl e \<longleftrightarrow> x = Inl e \<or> (\<exists>a. x = Inr a \<and> f a = Inl e)"
  by (cases x) auto

text \<open>\<open>io.ReadFull\<close> on a connection whose remaining input is a byte list.\<close>

datatype io_error = EOF | UnexpectedEOF

definition read_full :: "nat \<Rightarrow> bytes \<Rightarrow> io_error + bytes \<times> bytes" where
  "read_full n r =
     (if n \<le> length r then Inr (take n r, drop n r)
      else if r = [] then Inl EOF else Inl UnexpectedEOF)"

lemma read_full_append [simp]: "length x = n \<Longrightarrow> read_full n (x @ r) = Inr (x, r)"
  by (simp add: read_full_def)

lemma read_full_Inr_iff:
  "read_full n r = Inr (x, r') \<longleftrightarrow> r = x @ r' \<and> length x = n"
  by (auto simp: read_full_def split: if_splits)


section \<open>Operations that keep an invariant\<close>

text \<open>
  The contract every stateful component is held to: an operation applied in a good state does
  not panic and leaves a good state. Any sequence of operations then runs to its end.
\<close>

fun run_ops :: "('op \<Rightarrow> 's \<Rightarrow> 's option) \<Rightarrow> 'op list \<Rightarrow> 's \<Rightarrow> 's option" where
  "run_ops step [] s = Some s"
| "run_ops step (e # es) s = (do { t \<leftarrow> step e s; run_ops step es t })"

locale keeps_inv =
  fixes step :: "'op \<Rightarrow> 's \<Rightarrow> 's option"
    and inv :: "'s \<Rightarrow> bool"
  assumes step_keeps: "inv s \<Longrightarrow> step e s = Some t \<Longrightarrow> inv t"
begin

lemma run_keeps: "inv s \<Longrightarrow> run_ops step es s = Some t \<Longrightarrow> inv t"
proof (induction es arbitrary: s)
  case Nil
  then show ?case by simp
next
  case (Cons e es)
  then obtain u where "step e s = Some u" "run_ops step es u = Some t"
    by (auto simp: bind_eq_Some_conv)
  with Cons show ?case using step_keeps by blast
qed

end

locale safe_ops = keeps_inv +
  assumes step_runs: "inv s \<Longrightarrow> \<exists>t. step e s = Some t"
begin

lemma run_safe: "inv s \<Longrightarrow> \<exists>t. run_ops step es s = Some t \<and> inv t"
proof (induction es arbitrary: s)
  case Nil
  then show ?case by simp
next
  case (Cons e es)
  from Cons.prems obtain u where "step e s = Some u" "inv u"
    using step_runs step_keeps by blast
  with Cons.IH show ?case by simp
qed

end


section \<open>Encodings\<close>

text \<open>The contract of an encoder and its decoder on the well-formed values, and of a decoder that
  finds the end of its own record in a byte stream.\<close>

locale codec =
  fixes enc :: "'a \<Rightarrow> 'b" and dec :: "'b \<Rightarrow> 'a option" and ok :: "'a \<Rightarrow> bool"
  assumes dec_enc: "ok x \<Longrightarrow> dec (enc x) = Some x"
begin

lemma enc_inject: "ok x \<Longrightarrow> ok y \<Longrightarrow> enc x = enc y \<longleftrightarrow> x = y"
  by (metis dec_enc option.inject)

end

fun dec_many :: "('c list \<Rightarrow> ('a \<times> 'c list) option) \<Rightarrow> nat \<Rightarrow> 'c list \<Rightarrow> ('a list \<times> 'c list) option" where
  "dec_many dc 0 r = Some ([], r)"
| "dec_many dc (Suc n) r =
     (do { (x, r1) \<leftarrow> dc r; (xs, r2) \<leftarrow> dec_many dc n r1; Some (x # xs, r2) })"

locale stream_codec =
  fixes enc :: "'a \<Rightarrow> 'c list" and dc :: "'c list \<Rightarrow> ('a \<times> 'c list) option" and ok :: "'a \<Rightarrow> bool"
  assumes dec_append: "ok x \<Longrightarrow> dc (enc x @ r) = Some (x, r)"
begin

lemma dec_many_concat:
  "list_all ok xs \<Longrightarrow> dec_many dc (length xs) (concat (map enc xs) @ r) = Some (xs, r)"
  by (induction xs) (auto simp: dec_append)

lemma concat_inject:
  assumes "list_all ok xs" "list_all ok ys" "length xs = length ys"
    and "concat (map enc xs) @ r = concat (map enc ys) @ s"
  shows "xs = ys \<and> r = s"
proof -
  have "Some (xs, r) = dec_many dc (length ys) (concat (map enc ys) @ s)"
    using dec_many_concat [OF assms(1), of r] unfolding assms(3,4) by (rule sym)
  also have "\<dots> = Some (ys, s)" by (rule dec_many_concat [OF assms(2)])
  finally show ?thesis by blast
qed

end

sublocale stream_codec < whole: codec enc "\<lambda>b. map_option fst (dc b)" ok
proof unfold_locales
  show "map_option fst (dc (enc x)) = Some x" if "ok x" for x
    using dec_append [OF that, of "[]"] by (simp only: append_Nil2 option.map fst_conv)
qed

end
