(* ===== verification/GoNet.thy ===== *)
theory GoNet
  imports Prelude
begin

text \<open>
  The part of Go's standard library the program's own code rests on: \<open>strings\<close>,
  \<open>strconv.Atoi\<close> and \<open>net.IP\<close>. Strings are lists of bytes (\<open>char\<close>); case folding and
  white space are those of ASCII, which is what host names, port lists and protocol text use.
  A \<open>net.IP\<close> is its byte list, the nil address the empty list.
\<close>

section \<open>Package strings\<close>

definition has_prefix :: "string \<Rightarrow> string \<Rightarrow> bool" where
  "has_prefix s p \<longleftrightarrow> take (length p) s = p"

definition has_suffix :: "string \<Rightarrow> string \<Rightarrow> bool" where
  "has_suffix s p \<longleftrightarrow> length p \<le> length s \<and> drop (length s - length p) s = p"

definition trim_prefix :: "string \<Rightarrow> string \<Rightarrow> string" where
  "trim_prefix s p = (if has_prefix s p then drop (length p) s else s)"

definition trim_suffix :: "string \<Rightarrow> string \<Rightarrow> string" where
  "trim_suffix s p = (if has_suffix s p then take (length s - length p) s else s)"

text \<open>\<open>strings.Contains\<close>.\<close>

definition has_sub :: "string \<Rightarrow> string \<Rightarrow> bool" where
  "has_sub s t \<longleftrightarrow> list_ex (\<lambda>i. has_prefix (drop i s) t) [0..<Suc (length s)]"

definition is_space :: "char \<Rightarrow> bool" where
  "is_space c \<longleftrightarrow> c \<in> {CHR 0x09, CHR 0x0A, CHR 0x0B, CHR 0x0C, CHR 0x0D, CHR '' ''}"

definition trim_space :: "string \<Rightarrow> string" where
  "trim_space s = rev (dropWhile is_space (rev (dropWhile is_space s)))"

definition upper_chars :: string where
  "upper_chars = ''ABCDEFGHIJKLMNOPQRSTUVWXYZ''"

definition lower_chars :: string where
  "lower_chars = ''abcdefghijklmnopqrstuvwxyz''"

definition lower_char :: "char \<Rightarrow> char" where
  "lower_char c = (case map_of (zip upper_chars lower_chars) c of None \<Rightarrow> c | Some d \<Rightarrow> d)"

definition to_lower :: "string \<Rightarrow> string" where
  "to_lower s = map lower_char s"

definition upper_char :: "char \<Rightarrow> char" where
  "upper_char c = (case map_of (zip lower_chars upper_chars) c of None \<Rightarrow> c | Some d \<Rightarrow> d)"

definition to_upper :: "string \<Rightarrow> string" where
  "to_upper s = map upper_char s"

text \<open>\<open>strings.ReplaceAll\<close> of one byte by one byte.\<close>

definition replace_char :: "char \<Rightarrow> char \<Rightarrow> string \<Rightarrow> string" where
  "replace_char a b s = map (\<lambda>c. if c = a then b else c) s"

text \<open>\<open>strings.Split(s, sep)\<close> for a separator of one byte, and \<open>strings.Join\<close>.\<close>

fun split_on :: "char \<Rightarrow> string \<Rightarrow> string list" where
  "split_on c [] = [[]]"
| "split_on c (x # xs) =
     (if x = c then [] # split_on c xs
      else (case split_on c xs of [] \<Rightarrow> [[x]] | p # ps \<Rightarrow> (x # p) # ps))"

fun join_with :: "string \<Rightarrow> string list \<Rightarrow> string" where
  "join_with sep [] = []"
| "join_with sep [s] = s"
| "join_with sep (s # ss) = s @ sep @ join_with sep ss"

lemma split_on_nonempty [simp]: "split_on c s \<noteq> []"
  by (induction s) (auto split: list.splits)

lemma split_on_no_sep: "c \<notin> set s \<Longrightarrow> split_on c s = [s]"
  by (induction s) auto

lemma split_on_append: "c \<notin> set s \<Longrightarrow> split_on c (s @ c # t) = s # split_on c t"
  by (induction s) auto

lemma length_split_on: "length (split_on c s) = Suc (count_list s c)"
  by (induction s) (auto split: list.splits)


section \<open>strconv.Atoi\<close>

definition digit_val :: "char \<Rightarrow> nat" where
  "digit_val c = length (takeWhile (\<lambda>d. d \<noteq> c) ''0123456789'')"

definition digits_val :: "string \<Rightarrow> nat" where
  "digits_val s = foldl (\<lambda>v c. v * 10 + digit_val c) 0 s"

definition atoi :: "string \<Rightarrow> int option" where
  "atoi s =
     (let neg = has_prefix s ''-'';
          ds = (if neg \<or> has_prefix s ''+'' then drop 1 s else s);
          v = (if neg then - int (digits_val ds) else int (digits_val ds))
      in if ds \<noteq> [] \<and> list_all is_digit ds \<and> - (2 ^ 63) \<le> v \<and> v < 2 ^ 63 then Some v else None)"


section \<open>net.IP\<close>

type_synonym ip = bytes

definition ipv4 :: "byte \<Rightarrow> byte \<Rightarrow> byte \<Rightarrow> byte \<Rightarrow> ip" where
  "ipv4 a b c d = replicate 10 0 @ [255, 255, a, b, c, d]"

definition to4 :: "ip \<Rightarrow> ip" where
  "to4 x = (if length x = 4 then x
            else if length x = 16 \<and> take 12 x = replicate 10 0 @ [255, 255] then drop 12 x
            else [])"

definition to16 :: "ip \<Rightarrow> ip" where
  "to16 x = (if length x = 4 then replicate 10 0 @ [255, 255] @ x
             else if length x = 16 then x else [])"

definition ip_equal :: "ip \<Rightarrow> ip \<Rightarrow> bool" where
  "ip_equal x y \<longleftrightarrow>
     (if length x = length y then x = y
      else if length x = 4 \<and> length y = 16 then take 12 y = replicate 10 0 @ [255, 255] \<and> x = drop 12 y
      else if length x = 16 \<and> length y = 4 then take 12 x = replicate 10 0 @ [255, 255] \<and> drop 12 x = y
      else False)"

lemma length_ipv4 [simp]: "length (ipv4 a b c d) = 16"
  by (simp add: ipv4_def)

lemma to4_ipv4 [simp]: "to4 (ipv4 a b c d) = [a, b, c, d]"
  by (simp add: to4_def ipv4_def numeral_eq_Suc)

lemma to16_ipv4 [simp]: "to16 (ipv4 a b c d) = ipv4 a b c d"
  by (simp add: to16_def)

lemma to4_length: "to4 x = [] \<or> length (to4 x) = 4"
  by (auto simp: to4_def)

lemma to4_Nil [simp]: "to4 [] = []"
  by (simp add: to4_def)

lemma to4_four [simp]: "length x = 4 \<Longrightarrow> to4 x = x"
  by (simp add: to4_def)

lemma ipv4_inject: "ipv4 a b c d = ipv4 a' b' c' d' \<longleftrightarrow> a = a' \<and> b = b' \<and> c = c' \<and> d = d'"
  by (simp add: ipv4_def)

lemma length4_cases:
  assumes "length x = 4"
  obtains a b c d where "x = [a, b, c, d]"
  using assms by (auto simp: numeral_eq_Suc length_Suc_conv)

lemma to4_cases:
  assumes "to4 x \<noteq> []"
  obtains a b c d where "to4 x = [a, b, c, d]"
  using assms to4_length [of x] by (auto elim: length4_cases)

text \<open>\<open>binary.BigEndian.Uint32(ip.To4())\<close>; \<open>None\<close> when the address is not an IPv4 one.\<close>

definition ip_u32 :: "ip \<Rightarrow> u32 option" where
  "ip_u32 x = (case to4 x of [a, b, c, d] \<Rightarrow> Some (be32 a b c d) | _ \<Rightarrow> None)"

lemma ip_u32_ipv4 [simp]: "ip_u32 (ipv4 a b c d) = Some (be32 a b c d)"
  by (simp add: ip_u32_def)

lemma ip_u32_four [simp]: "ip_u32 [a, b, c, d] = Some (be32 a b c d)"
  by (simp add: ip_u32_def)

lemma ip_u32_None_iff: "ip_u32 x = None \<longleftrightarrow> to4 x = []"
proof (cases "to4 x = []")
  case True
  then show ?thesis by (simp add: ip_u32_def)
next
  case False
  then obtain a b c d where "to4 x = [a, b, c, d]" by (rule to4_cases)
  then show ?thesis by (simp add: ip_u32_def)
qed

text \<open>\<open>IP.String\<close>: dotted decimal for IPv4, the compressed form of RFC 5952 for IPv6.\<close>

definition dotted :: "bytes \<Rightarrow> string" where
  "dotted x = join_with ''.'' (map (\<lambda>b. dec (unat b)) x)"

fun hex_digits :: "nat \<Rightarrow> string" where
  "hex_digits n = (if n < 16 then [''0123456789abcdef'' ! n]
                   else hex_digits (n div 16) @ [''0123456789abcdef'' ! (n mod 16)])"

declare hex_digits.simps [simp del]

fun groups16 :: "bytes \<Rightarrow> nat list" where
  "groups16 (a # b # r) = unat (be16 a b) # groups16 r"
| "groups16 _ = []"

definition zero_run :: "nat list \<Rightarrow> nat" where
  "zero_run gs = length (takeWhile (\<lambda>g. g = 0) gs)"

definition longest_zero_run :: "nat list \<Rightarrow> nat \<times> nat" where
  "longest_zero_run gs =
     foldl (\<lambda>(s, l) i. (let r = zero_run (drop i gs) in if 2 \<le> r \<and> l < r then (i, r) else (s, l)))
       (255, 0) [0..<length gs]"

definition string6 :: "bytes \<Rightarrow> string" where
  "string6 x =
     (let gs = groups16 x; (s, l) = longest_zero_run gs; hs = map hex_digits gs
      in if l = 0 then join_with '':'' hs
         else join_with '':'' (take s hs) @ ''::'' @ join_with '':'' (drop (s + l) hs))"

definition hex2 :: "byte \<Rightarrow> string" where
  "hex2 b = [''0123456789abcdef'' ! (unat b div 16), ''0123456789abcdef'' ! (unat b mod 16)]"

text \<open>\<open>hex.EncodeToString\<close>.\<close>

definition hex_encode :: "bytes \<Rightarrow> string" where
  "hex_encode b = concat (map hex2 b)"

definition ip_string :: "ip \<Rightarrow> string" where
  "ip_string x =
     (if x = [] then ''<nil>''
      else if length x \<noteq> 4 \<and> length x \<noteq> 16 then ''?'' @ concat (map hex2 x)
      else if to4 x \<noteq> [] then dotted (to4 x)
      else string6 x)"

lemma ip_string_four: "ip_string [a, b, c, d] =
    dec (unat a) @ ''.'' @ dec (unat b) @ ''.'' @ dec (unat c) @ ''.'' @ dec (unat d)"
  by (simp add: ip_string_def dotted_def)

lemma ip_string_ipv4 [simp]: "ip_string (ipv4 a b c d) = ip_string [a, b, c, d]"
proof -
  have "ipv4 a b c d \<noteq> []" by (simp add: ipv4_def)
  then show ?thesis by (simp add: ip_string_def)
qed

lemma dot_not_digit [simp]: "\<not> is_digit (CHR ''.'')" "\<not> is_digit (CHR '':'')" "\<not> is_digit (CHR ''-'')"
  by (simp_all add: is_digit_def)

lemma dotted_inject:
  assumes "ip_string [a, b, c, d] @ CHR '':'' # s = ip_string [a', b', c', d'] @ CHR '':'' # t"
  shows "[a, b, c, d] = [a', b', c', d'] \<and> s = t"
proof -
  note ds = dec_digits [of "unat _"]
  have 1: "dec (unat a) @ CHR ''.'' # (dec (unat b) @ CHR ''.'' # (dec (unat c) @ CHR ''.'' # (dec (unat d) @ CHR '':'' # s)))
      = dec (unat a') @ CHR ''.'' # (dec (unat b') @ CHR ''.'' # (dec (unat c') @ CHR ''.'' # (dec (unat d') @ CHR '':'' # t)))"
    using assms by (simp add: ip_string_four)
  note 2 = digits_sep_inject [OF ds ds dot_not_digit(1) 1]
  note 3 = digits_sep_inject [OF ds ds dot_not_digit(1) conjunct2 [OF 2]]
  note 4 = digits_sep_inject [OF ds ds dot_not_digit(1) conjunct2 [OF 3]]
  note 5 = digits_sep_inject [OF ds ds dot_not_digit(2) conjunct2 [OF 4]]
  show ?thesis
    using 2 3 4 5 by (auto simp: dec_inject word_unat_eq_iff)
qed

text \<open>\<open>net.ParseIP\<close> on dotted decimal text: four fields of 1 to 3 digits, no leading zero,
  each at most 255. The result is the 16-byte form.\<close>

definition parse_octet :: "string \<Rightarrow> byte option" where
  "parse_octet s =
     (if s \<noteq> [] \<and> list_all is_digit s \<and> (length s = 1 \<or> hd s \<noteq> CHR ''0'') \<and> digits_val s \<le> 255
      then Some (word_of_nat (digits_val s)) else None)"

definition parse_ipv4 :: "string \<Rightarrow> ip option" where
  "parse_ipv4 s =
     (case map parse_octet (split_on (CHR ''.'') s) of
        [Some a, Some b, Some c, Some d] \<Rightarrow> Some (ipv4 a b c d)
      | _ \<Rightarrow> None)"

text \<open>The IPv6 side of \<open>net.ParseIP\<close>: up to eight groups of 1 to 4 hex digits, one \<open>::\<close>
  and an optional dotted tail. \<open>v6_loop out ell s\<close> returns the bytes, the place of the \<open>::\<close>
  and the text left over.\<close>

definition hex_chars :: string where
  "hex_chars = ''0123456789abcdef''"

definition is_hex :: "char \<Rightarrow> bool" where
  "is_hex c \<longleftrightarrow> lower_char c \<in> set hex_chars"

definition hex_val :: "char \<Rightarrow> nat" where
  "hex_val c = length (takeWhile (\<lambda>d. d \<noteq> lower_char c) hex_chars)"

definition hex_group :: "string \<Rightarrow> u16" where
  "hex_group s = word_of_nat (foldl (\<lambda>v c. v * 16 + hex_val c) 0 s)"

function v6_loop :: "bytes \<Rightarrow> nat option \<Rightarrow> string \<Rightarrow> (bytes \<times> nat option \<times> string) option" where
  "v6_loop out ell s =
     (let off = length (takeWhile is_hex s); s1 = drop off s;
          out1 = out @ bytes16 (hex_group (take off s)); s2 = drop 1 s1
      in if 16 \<le> length out then Some (out, ell, s)
         else if off = 0 \<or> 4 < off then None
         else if has_prefix s1 ''.'' then
           (if (ell = None \<and> length out \<noteq> 12) \<or> 16 < length out + 4 then None
            else (case parse_ipv4 s of None \<Rightarrow> None | Some x \<Rightarrow> Some (out @ to4 x, ell, [])))
         else if s1 = [] then Some (out1, ell, [])
         else if \<not> has_prefix s1 '':'' \<or> s2 = [] then None
         else if has_prefix s2 '':'' then
           (if ell \<noteq> None then None
            else if drop 1 s2 = [] then Some (out1, Some (length out1), [])
            else v6_loop out1 (Some (length out1)) (drop 1 s2))
         else v6_loop out1 ell s2)"
  by pat_completeness auto

termination
  by (relation "measure (\<lambda>(out, ell, s). length s)") (auto simp: neq_Nil_conv)

declare v6_loop.simps [simp del]

definition parse_ipv6 :: "string \<Rightarrow> ip option" where
  "parse_ipv6 s =
     (let lead = has_prefix s ''::'';
          r = (if lead then (if drop 2 s = [] then Some ([], Some 0, []) else v6_loop [] (Some 0) (drop 2 s))
               else v6_loop [] None s)
      in case r of
           None \<Rightarrow> None
         | Some (out, ell, left) \<Rightarrow>
             if left \<noteq> [] then None
             else if length out < 16 then
               (case ell of
                  None \<Rightarrow> None
                | Some e \<Rightarrow> Some (take e out @ replicate (16 - length out) 0 @ drop e out))
             else if ell \<noteq> None then None else Some out)"

definition parse_ip :: "string \<Rightarrow> ip" where
  "parse_ip s =
     (case find (\<lambda>c. c \<in> set ''.:%'') s of
        None \<Rightarrow> []
      | Some c \<Rightarrow>
          if c = CHR ''.'' then (case parse_ipv4 s of None \<Rightarrow> [] | Some x \<Rightarrow> x)
          else if c = CHR '':'' \<and> CHR ''%'' \<notin> set s then
            (case parse_ipv6 s of None \<Rightarrow> [] | Some x \<Rightarrow> x)
          else [])"

text \<open>\<open>net.SplitHostPort\<close> and \<open>net.JoinHostPort\<close>.\<close>

definition last_index :: "char \<Rightarrow> string \<Rightarrow> nat option" where
  "last_index c s = (if c \<in> set s then Some (length s - 1 - length (takeWhile (\<lambda>d. d \<noteq> c) (rev s))) else None)"

definition first_index :: "char \<Rightarrow> string \<Rightarrow> nat option" where
  "first_index c s = (if c \<in> set s then Some (length (takeWhile (\<lambda>d. d \<noteq> c) s)) else None)"

definition split_host_port :: "string \<Rightarrow> (string \<times> string) option" where
  "split_host_port s =
     (case last_index (CHR '':'') s of
        None \<Rightarrow> None
      | Some i \<Rightarrow>
          if has_prefix s ''['' then
            (case first_index (CHR '']'') s of
               None \<Rightarrow> None
             | Some e \<Rightarrow>
                 if e + 1 = length s \<or> e + 1 \<noteq> i then None
                 else if CHR ''['' \<in> set (drop 1 s) \<or> CHR '']'' \<in> set (drop (e + 1) s) then None
                 else Some (take (e - 1) (drop 1 s), drop (i + 1) s))
          else if CHR '':'' \<in> set (take i s) \<or> CHR ''['' \<in> set s \<or> CHR '']'' \<in> set s then None
          else Some (take i s, drop (i + 1) s))"

definition join_host_port :: "string \<Rightarrow> string \<Rightarrow> string" where
  "join_host_port h p =
     (if CHR '':'' \<in> set h then ''['' @ h @ '']:'' @ p else h @ '':'' @ p)"


text \<open>\<open>net.ParseCIDR\<close> on IPv4 text: the masked network address (4 bytes) and the prefix length.\<close>

definition mask_u32 :: "nat \<Rightarrow> u32 \<Rightarrow> u32" where
  "mask_u32 ones w = push_bit (32 - ones) (drop_bit (32 - ones) w)"

definition parse_cidr4 :: "string \<Rightarrow> (bytes \<times> nat) option" where
  "parse_cidr4 s =
     (case first_index (CHR ''/'') s of
        None \<Rightarrow> None
      | Some i \<Rightarrow>
          (case parse_ipv4 (take i s) of
             None \<Rightarrow> None
           | Some x \<Rightarrow>
               (let m = drop (i + 1) s
                in if m \<noteq> [] \<and> list_all is_digit m \<and> digits_val m \<le> 32
                   then (case ip_u32 x of
                           None \<Rightarrow> None
                         | Some w \<Rightarrow> Some (bytes32 (mask_u32 (digits_val m) w), digits_val m))
                   else None)))"

text \<open>\<open>net.ParseCIDR\<close> in full: the masked network address and the mask, both 4 bytes for IPv4 text and
  16 bytes for IPv6 text.\<close>

definition mask_byte :: "nat \<Rightarrow> byte" where
  "mask_byte k = (if 8 \<le> k then 255 else push_bit (8 - k) 255)"

definition cidr_mask :: "nat \<Rightarrow> nat \<Rightarrow> bytes" where
  "cidr_mask ones n = map (\<lambda>i. mask_byte (ones - 8 * i)) [0..<n]"

definition parse_cidr :: "string \<Rightarrow> (bytes \<times> bytes) option" where
  "parse_cidr s =
     (case first_index (CHR ''/'') s of
        None \<Rightarrow> None
      | Some i \<Rightarrow>
          (let a = take i s; m = drop (i + 1) s; x = parse_ip a;
               n = (if CHR '':'' \<in> set a then 16 else 4); y = (if n = 4 then to4 x else x);
               mask = cidr_mask (digits_val m) n
           in if x \<noteq> [] \<and> m \<noteq> [] \<and> list_all is_digit m \<and> digits_val m \<le> 8 * n
              then Some (map2 (AND) y mask, mask) else None))"

end
