(* ===== verification/Zctcpip.thy ===== *)
theory Zctcpip
  imports GoNet
begin

text \<open>
  Package \<open>internal/zctcpip\<close>: the Internet checksum and the accessors of IPv4, TCP, UDP and
  ICMP packets held in byte slices. Readers return \<open>None\<close> where the Go code panics (slice or
  index out of range); writers return the updated packet.
\<close>

section \<open>The checksum (tcpip.go)\<close>

fun sum_loop :: "u32 \<Rightarrow> bytes \<Rightarrow> u32" where
  "sum_loop s (a # b # r) = sum_loop (s + (push_bit 8 (ucast a) OR ucast b)) r"
| "sum_loop s _ = s"

definition Sum :: "bytes \<Rightarrow> u32" where
  "Sum b =
     (let n = length b
      in if odd n then sum_loop (push_bit 8 (ucast (b ! (n - 1)))) (take (n - 1) b)
         else sum_loop 0 b)"

definition Checksum :: "u32 \<Rightarrow> bytes \<Rightarrow> byte \<times> byte" where
  "Checksum s0 b =
     (let s1 = s0 + Sum b;
          s2 = drop_bit 16 s1 + (s1 AND 0xffff);
          s3 = s2 + drop_bit 16 s2;
          s4 = NOT s3
      in (ucast (drop_bit 8 s4), ucast s4))"

definition SetIPv4 :: "bytes \<Rightarrow> bytes option" where
  "SetIPv4 p = (do { b \<leftarrow> idx p 0; put p 0 ((b AND 0x0f) OR push_bit 4 4) })"


section \<open>IPv4 packets (ip.go)\<close>

definition ICMP :: byte where "ICMP = 0x01"
definition TCP :: byte where "TCP = 0x06"
definition UDP :: byte where "UDP = 0x11"

datatype ip_error = ErrInvalidLength | ErrInvalidIPVersion | ErrInvalidChecksum

definition TotalLen :: "bytes \<Rightarrow> u16 option" where
  "TotalLen p = be16_at p 2"

definition SetTotalLength :: "bytes \<Rightarrow> u16 \<Rightarrow> bytes option" where
  "SetTotalLength p l = put16_at p 2 l"

definition HeaderLen :: "bytes \<Rightarrow> u16 option" where
  "HeaderLen p = (do { b \<leftarrow> idx p 0; Some (ucast (b AND 0xf) * 4) })"

definition SetHeaderLen :: "bytes \<Rightarrow> u16 \<Rightarrow> bytes option" where
  "SetHeaderLen p l =
     (do { b \<leftarrow> idx p 0; q \<leftarrow> put p 0 (b AND 0xF0); put q 0 ((b AND 0xF0) OR ucast (l div 4)) })"

definition TypeOfService :: "bytes \<Rightarrow> byte option" where
  "TypeOfService p = idx p 1"

definition SetTypeOfService :: "bytes \<Rightarrow> byte \<Rightarrow> bytes option" where
  "SetTypeOfService p v = put p 1 v"

definition Identification :: "bytes \<Rightarrow> u16 option" where
  "Identification p = be16_at p 4"

definition SetIdentification :: "bytes \<Rightarrow> u16 \<Rightarrow> bytes option" where
  "SetIdentification p v = put16_at p 4 v"

definition IPFlags :: "bytes \<Rightarrow> byte option" where
  "IPFlags p = (do { b \<leftarrow> idx p 6; Some (drop_bit 5 b) })"

definition SetFlags :: "bytes \<Rightarrow> byte \<Rightarrow> bytes option" where
  "SetFlags p f =
     (do { b \<leftarrow> idx p 6; q \<leftarrow> put p 6 (b AND 0x1F); put q 6 ((b AND 0x1F) OR push_bit 5 f) })"

definition FragmentOffset :: "bytes \<Rightarrow> u16 option" where
  "FragmentOffset p = (do { a \<leftarrow> idx p 6; b \<leftarrow> idx p 7; Some (be16 (a AND 0x7) b * 8) })"

definition SetFragmentOffset :: "bytes \<Rightarrow> u32 \<Rightarrow> bytes option" where
  "SetFragmentOffset p off =
     (do { f \<leftarrow> IPFlags p; q \<leftarrow> put16_at p 6 (ucast (off div 8)); SetFlags q f })"

definition DataLen :: "bytes \<Rightarrow> u16 option" where
  "DataLen p = (do { t \<leftarrow> TotalLen p; h \<leftarrow> HeaderLen p; Some (t - h) })"

definition Payload :: "bytes \<Rightarrow> bytes option" where
  "Payload p = (do { h \<leftarrow> HeaderLen p; t \<leftarrow> TotalLen p; slice p (unat h) (unat t) })"

definition Protocol :: "bytes \<Rightarrow> byte option" where
  "Protocol p = idx p 9"

definition SetProtocol :: "bytes \<Rightarrow> byte \<Rightarrow> bytes option" where
  "SetProtocol p v = put p 9 v"

definition ip_at :: "bytes \<Rightarrow> nat \<Rightarrow> ip option" where
  "ip_at p i =
     (do { a \<leftarrow> idx p i; b \<leftarrow> idx p (i + 1); c \<leftarrow> idx p (i + 2); d \<leftarrow> idx p (i + 3);
           Some (ipv4 a b c d) })"

definition SourceIP :: "bytes \<Rightarrow> ip option" where
  "SourceIP p = ip_at p 12"

definition SetSourceIP :: "bytes \<Rightarrow> ip \<Rightarrow> bytes option" where
  "SetSourceIP p x = (if to4 x \<noteq> [] then copy_to p 12 16 (to4 x) else Some p)"

definition DestinationIP :: "bytes \<Rightarrow> ip option" where
  "DestinationIP p = ip_at p 16"

definition SetDestinationIP :: "bytes \<Rightarrow> ip \<Rightarrow> bytes option" where
  "SetDestinationIP p x = (if to4 x \<noteq> [] then copy_to p 16 20 (to4 x) else Some p)"

definition IPChecksum :: "bytes \<Rightarrow> u16 option" where
  "IPChecksum p = be16_at p 10"

definition SetChecksum_at :: "nat \<Rightarrow> bytes \<Rightarrow> byte \<times> byte \<Rightarrow> bytes option" where
  "SetChecksum_at i p c = (do { q \<leftarrow> put p i (fst c); put q (Suc i) (snd c) })"

definition IPv4_SetChecksum :: "bytes \<Rightarrow> byte \<times> byte \<Rightarrow> bytes option" where
  "IPv4_SetChecksum = SetChecksum_at 10"

definition TimeToLive :: "bytes \<Rightarrow> byte option" where
  "TimeToLive p = idx p 8"

definition SetTimeToLive :: "bytes \<Rightarrow> byte \<Rightarrow> bytes option" where
  "SetTimeToLive p v = put p 8 v"

definition DecTimeToLive :: "bytes \<Rightarrow> bytes option" where
  "DecTimeToLive p = (do { b \<leftarrow> idx p 8; put p 8 (b - 1) })"

definition IPv4_ResetChecksum :: "bytes \<Rightarrow> bytes option" where
  "IPv4_ResetChecksum p =
     (do { q \<leftarrow> IPv4_SetChecksum p (0, 0);
           h \<leftarrow> HeaderLen q;
           hdr \<leftarrow> slice q 0 (unat h);
           IPv4_SetChecksum q (Checksum 0 hdr) })"

definition PseudoSum :: "bytes \<Rightarrow> u32 option" where
  "PseudoSum p =
     (do { a \<leftarrow> slice p 12 20; pr \<leftarrow> Protocol p; d \<leftarrow> DataLen p;
           Some (Sum a + ucast pr + ucast d) })"

text \<open>\<open>uint16(len(p))\<close> truncates.\<close>

definition len16 :: "bytes \<Rightarrow> u16" where
  "len16 p = word_of_nat (length p)"

definition IPv4_Valid :: "bytes \<Rightarrow> bool option" where
  "IPv4_Valid p =
     (if \<not> 20 \<le> length p then Some False
      else do { t \<leftarrow> TotalLen p; h \<leftarrow> HeaderLen p; Some (h \<le> t \<and> t \<le> len16 p) })"

text \<open>\<open>Verify\<close> zeroes the checksum field, recomputes and restores it (\<open>defer copy\<close>). The
  result is the packet afterwards and the error.\<close>

definition IPv4_Verify :: "bytes \<Rightarrow> (bytes \<times> ip_error option) option" where
  "IPv4_Verify p =
     (if length p < 20 then Some (p, Some ErrInvalidLength)
      else do {
        c0 \<leftarrow> idx p 10; c1 \<leftarrow> idx p 11;
        b0 \<leftarrow> idx p 0;
        let headerLength = (ucast (b0 AND 0xF) * 4 :: u16);
        packetLength \<leftarrow> be16_at p 2;
        if drop_bit 4 b0 \<noteq> 4 then Some (p, Some ErrInvalidIPVersion)
        else if len16 p < packetLength \<or> packetLength < headerLength
        then Some (p, Some ErrInvalidLength)
        else do {
          q \<leftarrow> put p 10 0; q \<leftarrow> put q 11 0;
          hdr \<leftarrow> slice q 0 (unat headerLength);
          let answer = Checksum 0 hdr;
          r \<leftarrow> copy_to q 10 12 [c0, c1];
          if fst answer \<noteq> c0 \<or> snd answer \<noteq> c1 then Some (r, Some ErrInvalidChecksum)
          else Some (r, None)
        }
      })"


section \<open>TCP, UDP and ICMP (tcp.go, udp.go, icmp.go)\<close>

definition TCPFin :: u16 where "TCPFin = push_bit 0 1"
definition TCPSyn :: u16 where "TCPSyn = push_bit 1 1"
definition TCPRst :: u16 where "TCPRst = push_bit 2 1"
definition TCPAck :: u16 where "TCPAck = push_bit 4 1"
definition TCPNs :: u16 where "TCPNs = push_bit 8 1"

definition SourcePort :: "bytes \<Rightarrow> u16 option" where
  "SourcePort p = be16_at p 0"

definition SetSourcePort :: "bytes \<Rightarrow> u16 \<Rightarrow> bytes option" where
  "SetSourcePort p v = put16_at p 0 v"

definition DestinationPort :: "bytes \<Rightarrow> u16 option" where
  "DestinationPort p = be16_at p 2"

definition SetDestinationPort :: "bytes \<Rightarrow> u16 \<Rightarrow> bytes option" where
  "SetDestinationPort p v = put16_at p 2 v"

definition TCP_Flags :: "bytes \<Rightarrow> u16 option" where
  "TCP_Flags p = (do { b \<leftarrow> idx p 13; a \<leftarrow> idx p 12; Some (ucast (b OR (a AND 0x1))) })"

definition TCP_Checksum :: "bytes \<Rightarrow> u16 option" where
  "TCP_Checksum p = be16_at p 16"

definition TCP_SetChecksum :: "bytes \<Rightarrow> byte \<times> byte \<Rightarrow> bytes option" where
  "TCP_SetChecksum = SetChecksum_at 16"

definition TCP_ResetChecksum :: "bytes \<Rightarrow> u32 \<Rightarrow> bytes option" where
  "TCP_ResetChecksum p psum =
     (do { q \<leftarrow> TCP_SetChecksum p (0, 0); TCP_SetChecksum q (Checksum psum q) })"

definition TCP_Valid :: "bytes \<Rightarrow> bool" where
  "TCP_Valid p \<longleftrightarrow> 20 \<le> length p"

definition TCP_Verify :: "bytes \<Rightarrow> ip \<Rightarrow> ip \<Rightarrow> (bytes \<times> ip_error option) option" where
  "TCP_Verify p sourceAddress targetAddress =
     (do {
        c0 \<leftarrow> idx p 16; c1 \<leftarrow> idx p 17;
        q \<leftarrow> put p 16 0; q \<leftarrow> put q 17 0;
        let s = 0 + Sum sourceAddress + Sum targetAddress + ucast TCP + word_of_nat (length p);
        let check = Checksum s q;
        r \<leftarrow> put q 16 c0; r \<leftarrow> put r 17 c1;
        if c0 \<noteq> fst check \<or> c1 \<noteq> snd check then Some (r, Some ErrInvalidChecksum)
        else Some (r, None)
      })"

definition UDP_Length :: "bytes \<Rightarrow> u16 option" where
  "UDP_Length p = be16_at p 4"

definition UDP_SetLength :: "bytes \<Rightarrow> u16 \<Rightarrow> bytes option" where
  "UDP_SetLength p v = put16_at p 4 v"

definition UDP_SourcePort :: "bytes \<Rightarrow> u16 option" where
  "UDP_SourcePort p = be16_at p 0"

definition UDP_SetSourcePort :: "bytes \<Rightarrow> u16 \<Rightarrow> bytes option" where
  "UDP_SetSourcePort p v = put16_at p 0 v"

definition UDP_DestinationPort :: "bytes \<Rightarrow> u16 option" where
  "UDP_DestinationPort p = be16_at p 2"

definition UDP_SetDestinationPort :: "bytes \<Rightarrow> u16 \<Rightarrow> bytes option" where
  "UDP_SetDestinationPort p v = put16_at p 2 v"

definition UDP_Payload :: "bytes \<Rightarrow> bytes option" where
  "UDP_Payload p = (do { l \<leftarrow> UDP_Length p; slice p 8 (unat l) })"

definition UDP_Checksum :: "bytes \<Rightarrow> u16 option" where
  "UDP_Checksum p = be16_at p 6"

definition UDP_SetChecksum :: "bytes \<Rightarrow> byte \<times> byte \<Rightarrow> bytes option" where
  "UDP_SetChecksum = SetChecksum_at 6"

definition UDP_ResetChecksum :: "bytes \<Rightarrow> u32 \<Rightarrow> bytes option" where
  "UDP_ResetChecksum p psum =
     (do { q \<leftarrow> UDP_SetChecksum p (0, 0); UDP_SetChecksum q (Checksum psum q) })"

definition UDP_Valid :: "bytes \<Rightarrow> bool option" where
  "UDP_Valid p =
     (if \<not> 8 \<le> length p then Some False
      else do { l \<leftarrow> UDP_Length p; Some (l \<le> len16 p) })"

definition ICMP_Type :: "bytes \<Rightarrow> byte option" where
  "ICMP_Type p = idx p 0"

definition ICMP_SetType :: "bytes \<Rightarrow> byte \<Rightarrow> bytes option" where
  "ICMP_SetType p v = put p 0 v"

definition ICMP_Code :: "bytes \<Rightarrow> byte option" where
  "ICMP_Code p = idx p 1"

definition ICMP_Checksum :: "bytes \<Rightarrow> u16 option" where
  "ICMP_Checksum p = be16_at p 2"

definition ICMP_SetChecksum :: "bytes \<Rightarrow> byte \<times> byte \<Rightarrow> bytes option" where
  "ICMP_SetChecksum = SetChecksum_at 2"

definition ICMP_ResetChecksum :: "bytes \<Rightarrow> bytes option" where
  "ICMP_ResetChecksum p =
     (do { q \<leftarrow> ICMP_SetChecksum p (0, 0); ICMP_SetChecksum q (Checksum 0 q) })"


section \<open>Reference definitions\<close>

text \<open>The RFC 1071 sum of the 16-bit big-endian words of a buffer (an odd last byte is padded
  with zero), and its representative in ones' complement arithmetic: the residue modulo 65535,
  with 65535 for a nonzero multiple.\<close>

fun ref_sum :: "bytes \<Rightarrow> nat" where
  "ref_sum [] = 0"
| "ref_sum [a] = unat a * 256"
| "ref_sum (a # b # r) = (unat a * 256 + unat b) + ref_sum r"

definition oc_norm :: "nat \<Rightarrow> nat" where
  "oc_norm n = (if n = 0 then 0 else (n - 1) mod 65535 + 1)"


text \<open>A well-formed IPv4 header: version 4 and the length fields within the packet.\<close>

definition ip_header_ok :: "bytes \<Rightarrow> bool" where
  "ip_header_ok p \<longleftrightarrow> 20 \<le> length p \<and> unat (p ! 0) div 16 = 4
     \<and> unat (p ! 0) mod 16 * 4 \<le> unat (be16 (p ! 2) (p ! 3))
     \<and> unat (be16 (p ! 2) (p ! 3)) \<le> unat (len16 p)"

abbreviation header_len :: "bytes \<Rightarrow> nat" where
  "header_len p \<equiv> unat (p ! 0) mod 16 * 4"

section \<open>The checksum is the Internet checksum\<close>

lemma unat_or16: "unat (push_bit 8 (ucast (a::byte)) OR ucast (b::byte) :: u32) = unat a * 256 + unat b"
proof -
  have "push_bit 8 (ucast a) OR ucast b = (push_bit 8 (ucast a) + ucast b :: u32)"
    by (rule disjunctive_add [symmetric]) (auto simp: bit_simps dest: bit_imp_le_length)
  also have "unat \<dots> = unat a * 256 + unat b"
    using unat_byte_bound [of a] unat_byte_bound [of b]
    by (simp add: unat_word_ariths push_bit_eq_mult unsigned_ucast_eq take_bit_nat_eq_self)
  finally show ?thesis .
qed
lemma unat_drop_bit16: "unat (drop_bit n (w::'a::len word)) = unat w div 2 ^ n"
  by (simp only: unat_drop_bit_eq) (simp only: drop_bit_eq_div)
lemma unat_and_ffff: "unat ((w::u32) AND 0xffff) = unat w mod 65536"
proof -
  have "w AND 0xffff = take_bit 16 w" by (simp add: take_bit_eq_mask mask_eq_exp_minus_1)
  then have "unat (w AND 0xffff) = take_bit 16 (unat w)" by (simp only: unsigned_take_bit_eq)
  then show ?thesis by (simp add: take_bit_eq_mod)
qed
lemma unat_not: "unat (NOT (w::u32)) = 4294967295 - unat w"
proof -
  have "NOT w = - w - 1" by (simp add: not_eq_complement)
  then have "NOT w = (- 1) - w" by simp
  moreover have "w \<le> - 1" by (rule word_order.extremum)
  ultimately have "unat (NOT w) = unat (- 1 :: u32) - unat w" by (simp only: unat_sub)
  then show ?thesis by (simp add: unsigned_minus_1_eq_mask mask_eq_exp_minus_1)
qed

lemma fold16:
  assumes "S < 2 ^ 32"
  shows "(let s2 = S div 65536 + S mod 65536 in (s2 + s2 div 65536) mod 65536) = oc_norm S"
proof -
  define q r where "q = S div 65536" and "r = S mod 65536"
  have S: "S = q * 65536 + r" and r: "r < 65536" by (simp_all add: q_def r_def)
  have q: "q < 65536" using assms S r by simp
  show ?thesis
  proof (cases "q + r = 0")
    case True
    then show ?thesis using S by (simp add: oc_norm_def)
  next
    case False
    then have "S - 1 = (q + r - 1) + q * 65535" using S by simp
    then have n: "oc_norm S = (q + r - 1) mod 65535 + 1"
      using False S by (simp only: oc_norm_def mod_mult_self1) simp
    show ?thesis
    proof (cases "q + r < 65536")
      case True
      then show ?thesis using n False unfolding q_def [symmetric] r_def [symmetric] Let_def
        by (simp add: n)
    next
      case F: False
      have "(q + r) div 65536 = 1" using F q r by simp
      moreover have "(q + r - 1) mod 65535 = q + r - 1 - 65535" using F q r by (simp add: mod_if)
      moreover have "(q + r + 1) mod 65536 = q + r + 1 - 65536" using F q r by (simp add: mod_if)
      ultimately show ?thesis using n F unfolding q_def [symmetric] r_def [symmetric] Let_def by simp
    qed
  qed
qed

lemma ref_sum_snoc: "even (length b) \<Longrightarrow> ref_sum (b @ c) = ref_sum b + ref_sum c"
  by (induction b rule: ref_sum.induct) auto

lemma or16_of_nat:
  "push_bit 8 (ucast (a::byte)) OR ucast (b::byte) = (word_of_nat (unat a * 256 + unat b) :: u32)"
  using unat_byte_bound [of a] unat_byte_bound [of b]
  by (simp only: word_unat_eq_iff unat_or16 unat_of_nat) simp

lemma push8_of_nat: "push_bit 8 (ucast (a::byte)) = (word_of_nat (unat a * 256) :: u32)"
  using or16_of_nat [of a 0] by simp

lemma sum_loop_eq: "sum_loop s b = s + word_of_nat (ref_sum (take (2 * (length b div 2)) b))"
proof (induction s b rule: sum_loop.induct)
  case (1 s a b r)
  have "sum_loop s (a # b # r)
      = s + word_of_nat (unat a * 256 + unat b) + word_of_nat (ref_sum (take (2 * (length r div 2)) r))"
    using 1 by (simp only: sum_loop.simps or16_of_nat)
  then show ?case by (simp add: add.assoc)
qed simp_all

lemma Sum_eq: "Sum b = word_of_nat (ref_sum b)"
proof (cases "odd (length b)")
  case True
  then obtain c d where b: "b = c @ [d]" by (cases b rule: rev_cases) auto
  with True have c: "even (length c)" by simp
  then have "take (2 * (length c div 2)) c = c" by simp
  with True have "Sum b = push_bit 8 (ucast d) + word_of_nat (ref_sum c)"
    by (simp add: Sum_def b Let_def sum_loop_eq)
  then show ?thesis by (simp add: b ref_sum_snoc [OF c] push8_of_nat add.commute)
next
  case False
  then show ?thesis by (simp add: Sum_def Let_def sum_loop_eq)
qed

lemma unat_Sum: "unat (Sum b) = ref_sum b mod 2 ^ 32"
  by (simp only: Sum_eq unat_of_nat) simp

lemma ref_sum_bound: "ref_sum b \<le> 65535 * ((length b + 1) div 2)"
proof (induction b rule: ref_sum.induct)
  case (2 a)
  then show ?case using unat_byte_bound [of a] by simp
next
  case (3 a b r)
  then show ?case using unat_byte_bound [of a] unat_byte_bound [of b] by simp
qed simp

lemma be16_of_u32: "unat (be16 (ucast (drop_bit 8 w)) (ucast (w::u32))) = unat w mod 65536"
proof -
  have "unat (ucast (drop_bit 8 w) :: byte) = unat w div 256 mod 256"
    by (simp add: unsigned_ucast_eq unat_drop_bit16 take_bit_eq_mod)
  moreover have "unat (ucast w :: byte) = unat w mod 256"
    by (simp add: unsigned_ucast_eq take_bit_eq_mod)
  moreover have "(x div 256 mod 256) * 256 + x mod 256 = x mod 65536" for x :: nat
    using mod_mult2_eq [of x 256 256] by simp
  ultimately show ?thesis by (simp add: unat_be16)
qed

lemma compl_mod:
  assumes "(x :: nat) < 4294967296"
  shows "(4294967295 - x) mod 65536 = 65535 - x mod 65536"
proof -
  define q r where "q = x div 65536" and "r = x mod 65536"
  have x: "x = q * 65536 + r" and r: "r < 65536" by (simp_all add: q_def r_def)
  then have "q < 65536" using assms by simp
  then have "4294967295 - x = (65535 - r) + (65535 - q) * 65536" using x r by simp
  then have "(4294967295 - x) mod 65536 = (65535 - r) mod 65536" by (simp only: mod_mult_self1)
  then show ?thesis by (simp flip: r_def)
qed

lemma unat_Checksum:
  "unat (case_prod be16 (Checksum s b)) = 65535 - oc_norm ((unat s + ref_sum b) mod 2 ^ 32)"
proof -
  define S where "S = unat (s + Sum b)"
  have S: "S = (unat s + ref_sum b) mod 2 ^ 32"
    by (simp add: S_def unat_word_ariths unat_Sum mod_simps)
  have S': "S = (unat s + unat (Sum b)) mod 4294967296"
    by (simp add: S_def unat_word_ariths)
  define s2 where "s2 = drop_bit 16 (s + Sum b) + ((s + Sum b) AND 0xffff)"
  have bound: "S < 4294967296" unfolding S_def by (rule unat_u32_bound)
  have s2: "unat s2 = S div 65536 + S mod 65536"
    using bound by (simp add: s2_def unat_word_ariths unat_drop_bit16 unat_and_ffff flip: S')
  define s3 where "s3 = s2 + drop_bit 16 s2"
  have "S div 65536 < 65536" using bound by (simp add: div_less_iff_less_mult)
  moreover have "S mod 65536 < 65536" by simp
  ultimately have "unat s2 < 131072" using s2 by linarith
  moreover from this have "unat s2 div 65536 < 2" by (simp add: div_less_iff_less_mult)
  ultimately have "unat s2 + unat s2 div 65536 < 4294967296" by linarith
  then have s3: "unat s3 = unat s2 + unat s2 div 65536"
    by (simp add: s3_def unat_word_ariths unat_drop_bit16)
  have "unat (NOT s3) mod 65536 = 65535 - unat s3 mod 65536"
    using compl_mod [OF unat_u32_bound [of s3]] by (simp add: unat_not)
  also have "unat s3 mod 65536 = oc_norm S"
    using fold16 [of S] bound s2 s3 by (simp add: Let_def)
  finally show ?thesis
    by (simp add: Checksum_def Let_def be16_of_u32 S flip: s2_def s3_def)
qed


section \<open>Packets\<close>

text \<open>C32: For a buffer of at most 65535 bytes the two checksum bytes are the ones' complement of the
  ones' complement sum of the start value and the 16-bit big-endian words (RFC 1071): the 32-bit
  accumulator does not wrap and the two folding steps are enough.\<close>

theorem checksum_is_internet_checksum:
  assumes "length b \<le> 65535" and "unat s < 2147483648"
  shows "unat (case_prod be16 (Checksum s b)) = 65535 - oc_norm (unat s + ref_sum b)"
proof -
  have "ref_sum b \<le> 65535 * ((length b + 1) div 2)" by (rule ref_sum_bound)
  also have "\<dots> \<le> 65535 * 32768" using assms(1) by simp
  finally show ?thesis using assms(2) by (simp add: unat_Checksum)
qed

theorem checksum_is_internet_checksum_witness:
  "unat (case_prod be16 (Checksum 0 [69, 0, 0, 20])) = 65535 - oc_norm (0 + ref_sum [69, 0, 0, 20])
   \<and> oc_norm (0 + ref_sum [69, 0, 0, 20]) = 17684"
  using checksum_is_internet_checksum [of "[69, 0, 0, 20]" 0] by (simp add: oc_norm_def)

lemma unat_ihl: "unat (ucast ((b::byte) AND 0xf) * 4 :: u16) = unat b mod 16 * 4"
proof -
  have "b AND 0xf = take_bit 4 b" by (simp add: take_bit_eq_mask mask_eq_exp_minus_1)
  then have "unat (b AND 0xf) = unat b mod 16"
    by (simp only: unsigned_take_bit_eq) (simp add: take_bit_eq_mod)
  then show ?thesis by (simp add: unat_word_ariths unsigned_ucast_eq take_bit_nat_eq_self)
qed

lemma HeaderLen_eq: "p \<noteq> [] \<Longrightarrow> HeaderLen p = Some (ucast (p ! 0 AND 0xf) * 4)"
  by (simp add: HeaderLen_def idx_def)

lemma unat_len16: "length p < 65536 \<Longrightarrow> unat (len16 p) = length p"
  unfolding len16_def by (rule unat_word_of_nat_small) simp

lemma unat_len16_le: "unat (len16 p) \<le> length p"
  by (simp add: len16_def unat_of_nat)

lemma IPv4_Valid_iff:
  "IPv4_Valid p = Some True \<longleftrightarrow>
     20 \<le> length p \<and> unat (p ! 0) mod 16 * 4 \<le> unat (be16 (p ! 2) (p ! 3))
     \<and> unat (be16 (p ! 2) (p ! 3)) \<le> unat (len16 p)"
  by (auto simp: IPv4_Valid_def TotalLen_def be16_at_def idx_def HeaderLen_def word_le_nat_alt
      unat_ihl numeral_2_eq_2 numeral_3_eq_3 bind_eq_Some_conv)

text \<open>On a packet accepted by \<open>Valid\<close> the readers used by the packet pipeline (\<open>Payload\<close>,
  \<open>Protocol\<close>, \<open>SourceIP\<close>, \<open>DestinationIP\<close>, \<open>DataLen\<close>) do not panic, read the header fields,
  and the payload has exactly total length minus header length bytes.\<close>

theorem valid_packet_readers_total:
  assumes "IPv4_Valid p = Some True"
  shows "\<exists>d. Payload p = Some d \<and> Protocol p = Some (p ! 9)
           \<and> SourceIP p = Some (ipv4 (p ! 12) (p ! 13) (p ! 14) (p ! 15))
           \<and> DestinationIP p = Some (ipv4 (p ! 16) (p ! 17) (p ! 18) (p ! 19))
           \<and> length d = unat (be16 (p ! 2) (p ! 3)) - unat (p ! 0) mod 16 * 4
           \<and> DataLen p = Some (word_of_nat (length d))"
proof -
  let ?h = "unat (p ! 0) mod 16 * 4" and ?t = "unat (be16 (p ! 2) (p ! 3))"
  have len: "20 \<le> length p" and ht: "?h \<le> ?t" and tl: "?t \<le> length p"
    using assms unat_len16_le [of p] by (auto simp: IPv4_Valid_iff)
  from len have ne: "p \<noteq> []" by auto
  have H: "HeaderLen p = Some (ucast (p ! 0 AND 0xf) * 4)" using ne by (rule HeaderLen_eq)
  have T: "TotalLen p = Some (be16 (p ! 2) (p ! 3))"
    using len by (simp add: TotalLen_def be16_at_def idx_def numeral_2_eq_2 numeral_3_eq_3)
  have P: "Payload p = Some (take (?t - ?h) (drop ?h p))"
    using ht tl by (simp add: Payload_def H T unat_ihl slice_def)
  have "length (take (?t - ?h) (drop ?h p)) = ?t - ?h" using tl ht by simp
  moreover have "be16 (p ! 2) (p ! 3) - ucast (p ! 0 AND 0xf) * 4 = word_of_nat (?t - ?h)"
    using ht by (simp add: of_nat_diff flip: unat_ihl)
  ultimately show ?thesis
    using len P by (simp add: DataLen_def H T SourceIP_def DestinationIP_def ip_at_def Protocol_def idx_def)
qed

lemma list_split2:
  assumes "Suc i < length b"
  shows "b = take i b @ [b ! i, b ! Suc i] @ drop (Suc (Suc i)) b"
  using assms by (metis Cons_nth_drop_Suc Suc_lessD append_Cons append_Nil append_take_drop_id)

lemma list_update2:
  assumes "Suc i < length b"
  shows "b[i := x, Suc i := y] = take i b @ [x, y] @ drop (Suc (Suc i)) b"
proof -
  have "length (take i b) = i" using assms by simp
  then show ?thesis
    by (subst list_split2 [OF assms]) (simp add: list_update_append)
qed

lemma ref_sum_update2:
  assumes "even i" "Suc i < length b"
  shows "ref_sum (b[i := x, Suc i := y]) + (unat (b ! i) * 256 + unat (b ! Suc i))
       = ref_sum b + (unat x * 256 + unat y)"
proof -
  have e: "even (length (take i b))" using assms by simp
  have 1: "ref_sum (b[i := x, Suc i := y])
      = ref_sum (take i b) + (unat x * 256 + unat y + ref_sum (drop (Suc (Suc i)) b))"
    by (simp add: list_update2 [OF assms(2)] ref_sum_snoc [OF e])
  have 2: "ref_sum b
      = ref_sum (take i b) + (unat (b ! i) * 256 + unat (b ! Suc i) + ref_sum (drop (Suc (Suc i)) b))"
    by (subst list_split2 [OF assms(2)]) (simp add: ref_sum_snoc [OF e])
  show ?thesis unfolding 1 2 by simp
qed

lemma oc_norm_compl: "oc_norm (n + (65535 - oc_norm n)) = 65535"
proof (cases "n = 0")
  case False
  define r where "r = (n - 1) mod 65535"
  define q where "q = (n - 1) div 65535"
  have r: "r < 65535" and n: "n = q * 65535 + r + 1"
    using False by (simp_all add: r_def q_def)
  have "oc_norm n = r + 1" using False by (simp add: oc_norm_def r_def)
  then have "n + (65535 - oc_norm n) - 1 = 65534 + q * 65535" using n r by simp
  then have "(n + (65535 - oc_norm n) - 1) mod 65535 = 65534"
    by (simp only: mod_mult_self1) simp
  then show ?thesis using False by (simp add: oc_norm_def)
qed (simp add: oc_norm_def)

lemma oc_norm_add: "0 < n \<Longrightarrow> oc_norm (n + 65535 * k) = oc_norm n"
proof -
  assume "0 < n"
  then have "n + 65535 * k - 1 = (n - 1) + k * 65535" by simp
  then have "(n + 65535 * k - 1) mod 65535 = (n - 1) mod 65535" by (simp only: mod_mult_self1)
  then show ?thesis using \<open>0 < n\<close> by (simp add: oc_norm_def)
qed

lemma oc_norm_le: "oc_norm n \<le> 65535"
proof -
  have "Suc ((n - 1) mod 65535) \<le> 65535" by (rule Suc_leI) simp
  then show ?thesis by (simp add: oc_norm_def)
qed

lemma unat_byte_hi: "unat (drop_bit 4 (b::byte)) = unat b div 16"
  by (simp add: unat_drop_bit16)

lemma restore_pair:
  assumes "Suc i < length (p :: bytes)"
  shows "copy_to (p[i := x, Suc i := y]) i (Suc (Suc i)) [p ! i, p ! Suc i] = Some p"
  using assms list_split2 [OF assms]
  by (simp add: copy_to_def Let_def list_update2)

lemma IPv4_Verify_eq:
  assumes "20 \<le> length p"
  shows "IPv4_Verify p = Some (p,
      if unat (p ! 0) div 16 \<noteq> 4 then Some ErrInvalidIPVersion
      else if \<not> ip_header_ok p then Some ErrInvalidLength
      else if Checksum 0 (take (header_len p) (p[10 := 0, 11 := 0])) \<noteq> (p ! 10, p ! 11)
      then Some ErrInvalidChecksum else None)"
proof -
  have r: "copy_to (p[10 := 0, 11 := 0]) 10 12 [p ! 10, p ! 11] = Some p"
    using restore_pair [of 10 p 0 0] assms by (simp add: numeral_eq_Suc)
  have v: "drop_bit 4 (p ! 0) = 4 \<longleftrightarrow> unat (p ! 0) div 16 = 4"
    by (simp add: word_unat_eq_iff unat_byte_hi)
  have b: "be16_at p 2 = Some (be16 (p ! 2) (p ! 3))"
    using assms by (simp add: be16_at_def idx_def numeral_2_eq_2 numeral_3_eq_3)
  have s: "slice (p[10 := 0, 11 := 0]) 0 (header_len p)
      = Some (take (header_len p) (p[10 := 0, 11 := 0]))" if "ip_header_ok p"
    using that unat_len16_le [of p] by (auto simp: slice_def ip_header_ok_def)
  show ?thesis
    using assms
    by (cases "Checksum 0 (take (header_len p) (p[10 := 0, 11 := 0]))")
      (auto simp: IPv4_Verify_def idx_def put_def b r s v Let_def unat_ihl word_less_nat_alt
        ip_header_ok_def split del: if_split split: if_splits)
qed

text \<open>\<open>Verify\<close> never panics, whatever the packet, and leaves it as it was: the checksum bytes it
  zeroes are restored on every path that returns.\<close>

theorem ipv4_verify_restores:
  "\<exists>e. IPv4_Verify p = Some (p, e)"
proof (cases "20 \<le> length p")
  case True
  then show ?thesis by (simp add: IPv4_Verify_eq)
next
  case False
  then show ?thesis by (simp add: IPv4_Verify_def)
qed

lemma IPv4_ResetChecksum_eq:
  assumes "12 \<le> header_len p" "header_len p \<le> length p" 
  shows "IPv4_ResetChecksum p =
    (case Checksum 0 (take (header_len p) (p[10 := 0, 11 := 0])) of (a, b) \<Rightarrow> Some (p[10 := a, 11 := b]))"
proof -
  have ne: "p[10 := 0, 11 := 0] \<noteq> []" and l: "11 < length p" using assms by auto
  have H: "HeaderLen (p[10 := 0, 11 := 0]) = Some (ucast (p ! 0 AND 0xf) * 4)"
    using HeaderLen_eq [OF ne] by simp
  have S: "IPv4_SetChecksum q (a, b) = Some (q[10 := a, 11 := b])" if "11 < length q" for q a b
    using that by (simp add: IPv4_SetChecksum_def SetChecksum_at_def put_def)
  show ?thesis
    using l assms by (simp add: IPv4_ResetChecksum_def S H slice_def unat_ihl list_update_swap
        split: prod.split)
qed

lemma Checksum_fill:
  assumes "even i" "Suc i < length z" "z ! i = 0" "z ! Suc i = 0" "Checksum s z = (a, b)"
    and small: "unat s + ref_sum z + 65535 < 2 ^ 32"
  shows "Checksum s (z[i := a, Suc i := b]) = (0, 0)"
proof -
  let ?q = "z[i := a, Suc i := b]" and ?n = "unat s + ref_sum z"
  have u: "unat a * 256 + unat b = 65535 - oc_norm ?n"
    using unat_Checksum [of s z] small assms(5) by (simp add: unat_be16)
  have r: "ref_sum ?q = ref_sum z + (unat a * 256 + unat b)"
    using ref_sum_update2 [OF assms(1,2), of a b] assms(3,4) by simp
  then have n: "unat s + ref_sum ?q = ?n + (65535 - oc_norm ?n)" using u by simp
  then have "oc_norm (unat s + ref_sum ?q) = 65535" by (simp only: oc_norm_compl)
  moreover have "unat s + ref_sum ?q < 2 ^ 32" using n small by simp
  ultimately have "unat (case_prod be16 (Checksum s ?q)) = 0" using unat_Checksum [of s ?q] by simp
  then show ?thesis by (cases "Checksum s ?q") (auto simp: unat_be16 unat_eq_0)
qed

text \<open>After \<open>ResetChecksum\<close> on a well-formed header with the 20 mandatory bytes, \<open>Verify\<close> accepts
  the packet, a receiver's sum over the whole header is zero, and no byte but the two of the
  checksum field changed.\<close>

theorem ipv4_reset_checksum_verifies:
  assumes ok: "ip_header_ok p" and hl: "20 \<le> header_len p"
    and q: "IPv4_ResetChecksum p = Some q"
  shows "IPv4_Verify q = Some (q, None) \<and> Checksum 0 (take (header_len q) q) = (0, 0)
       \<and> length q = length p \<and> (\<forall>i. i \<noteq> 10 \<and> i \<noteq> 11 \<longrightarrow> q ! i = p ! i)"
proof -
  let ?z = "take (header_len p) (p[10 := 0, 11 := 0])"
  have hlp: "header_len p \<le> length p" and len: "20 \<le> length p"
    using ok unat_len16_le [of p] by (auto simp: ip_header_ok_def)
  obtain a b where c: "Checksum 0 ?z = (a, b)" by force
  then have qe: "q = p[10 := a, 11 := b]"
    using q IPv4_ResetChecksum_eq [of p] hl hlp by simp
  have nth: "q ! i = p ! i" if "i \<noteq> 10" "i \<noteq> 11" for i using that by (simp add: qe)
  have zq: "q[10 := 0, 11 := 0] = p[10 := 0, 11 := 0]" by (simp add: qe list_update_swap)
  have okq: "ip_header_ok q" using ok by (simp add: ip_header_ok_def len16_def nth) (simp add: qe)
  have hq: "header_len q = header_len p" by (simp add: nth)
  have "IPv4_Verify q = Some (q, None)"
    using okq len c by (subst IPv4_Verify_eq) (auto simp: qe zq [unfolded qe] ip_header_ok_def)
  moreover have "Checksum 0 (take (header_len q) q) = (0, 0)"
  proof -
    have lz: "length ?z \<le> 60" "Suc 10 < length ?z" using hl hlp by auto
    have "ref_sum ?z \<le> 65535 * ((length ?z + 1) div 2)" by (rule ref_sum_bound)
    also have "\<dots> \<le> 65535 * 30" using lz(1) by simp
    finally have small: "unat (0 :: u32) + ref_sum ?z + 65535 < 2 ^ 32" by simp
    have tq: "take (header_len q) q = ?z[10 := a, Suc 10 := b]"
      using hl hlp unfolding hq by (simp add: qe take_update_swap list_update_swap)
    have z: "?z ! 10 = 0" "?z ! Suc 10 = 0" using hl hlp by simp_all
    show ?thesis unfolding tq by (rule Checksum_fill [OF _ lz(2) z c small]) simp
  qed
  ultimately show ?thesis using nth by (simp add: qe)
qed
text \<open>\<open>TCPPacket.Flags\<close> never reports the NS flag (bit 8), and reports FIN exactly when the FIN bit
  or the NS bit of the header is set: byte 12's low bit lands on bit 0 instead of bit 8.\<close>

theorem tcp_flags_ns_reads_as_fin:
  assumes "14 \<le> length p"
  shows "\<exists>f. TCP_Flags p = Some f \<and> f AND TCPNs = 0
     \<and> (f AND TCPFin \<noteq> 0 \<longleftrightarrow> bit (p ! 13) 0 \<or> bit (p ! 12) 0)"
proof -
  let ?f = "ucast (p ! 13 OR (p ! 12 AND 0x1)) :: u16"
  have "TCP_Flags p = Some ?f" using assms by (simp add: TCP_Flags_def idx_def)
  moreover have "?f AND TCPNs = 0"
  proof -
    have "TCPNs = 2 ^ 8" by (simp add: TCPNs_def)
    moreover have "\<not> bit ?f 8" by (auto simp: bit_simps dest: bit_imp_le_length)
    ultimately show ?thesis by (metis and_exp_eq_0_iff_not_bit)
  qed
  moreover have "?f AND TCPFin \<noteq> 0 \<longleftrightarrow> bit ?f 0"
    by (auto simp: TCPFin_def and_one_eq bit_0 odd_iff_mod_2_eq_one)
  moreover have "bit ?f 0 \<longleftrightarrow> bit (p ! 13) 0 \<or> bit (p ! 12) 0"
    by (auto simp: bit_simps)
  ultimately show ?thesis by auto
qed

lemma unat_and7: "unat ((b::byte) AND 0x7) = unat b mod 8"
proof -
  have "b AND 0x7 = take_bit 3 b" by (simp add: take_bit_eq_mask mask_eq_exp_minus_1)
  then have "unat (b AND 0x7) = take_bit 3 (unat b)" by (simp only: unsigned_take_bit_eq)
  then show ?thesis by (simp add: take_bit_eq_mod)
qed

lemma flags_low_bits: "(((h::byte) AND 0x1F) OR push_bit 5 f) AND 0x7 = h AND 0x7"
proof -
  have m3: "(0x7::byte) = mask 3" and m5: "(0x1F::byte) = mask 5"
    by (simp_all add: mask_eq_exp_minus_1)
  show ?thesis unfolding m3 m5 by (rule bit_word_eqI) (auto simp: bit_simps)
qed

lemma drop_push_drop: "drop_bit 5 (push_bit 5 (drop_bit 5 (b::byte))) = drop_bit 5 b"
  by (rule bit_word_eqI) (auto simp: bit_simps dest: bit_imp_le_length)

lemma flags_high_bits: "drop_bit 5 (((h::byte) AND 0x1F) OR push_bit 5 (drop_bit 5 b)) = drop_bit 5 b"
proof -
  have m5: "(0x1F::byte) = mask 5" by (simp add: mask_eq_exp_minus_1)
  show ?thesis unfolding m5
    by (rule bit_word_eqI) (auto simp: bit_simps dest: bit_imp_le_length)
qed

lemma list_update_twice_apart: "i \<noteq> j \<Longrightarrow> xs[i := a, j := b, i := c] = xs[i := c, j := b]"
  by (metis list_update_overwrite list_update_swap)

text \<open>\<open>SetFragmentOffset\<close> keeps the flags, and \<open>FragmentOffset\<close> reads the offset back in units of 8
  modulo 2048 only: the reader masks three of the five high bits of the 13-bit field.\<close>

theorem fragment_offset_readback:
  assumes "SetFragmentOffset p off = Some q"
  shows "\<exists>v. FragmentOffset q = Some v \<and> unat v = unat off div 8 mod 2048 * 8
     \<and> IPFlags q = IPFlags p"
proof -
  define w where "w = (ucast (off div 8) :: u16)"
  have uw: "unat w = unat off div 8 mod 65536"
    by (simp add: w_def unsigned_ucast_eq take_bit_eq_mod unat_div)
  have l: "7 < length p"
    using assms by (auto simp: SetFragmentOffset_def IPFlags_def idx_def put16_at_Some_iff
        bind_eq_Some_conv split: if_splits)
  then have q: "q = p[6 := (hi8 w AND 0x1F) OR push_bit 5 (drop_bit 5 (p ! 6)), 7 := lo8 w]"
    using assms by (simp add: SetFragmentOffset_def IPFlags_def SetFlags_def idx_def put_def
        put16_at_eq list_update_twice_apart flip: w_def)
  have "unat (be16 (hi8 w AND 0x7) (lo8 w)) = unat w mod 2048"
  proof -
    have "unat w div 256 mod 8 * 256 + unat w mod 256 = unat w mod 2048"
      using mod_mult2_eq [of "unat w" 256 8] by simp
    then show ?thesis by (simp add: unat_be16 unat_and7 unat_hi8 unat_lo8)
  qed
  moreover have "unat w mod 2048 = unat off div 8 mod 2048"
    unfolding uw by (simp add: mod_mod_cancel)
  ultimately have "unat (be16 (hi8 w AND 0x7) (lo8 w) * 8) = unat off div 8 mod 2048 * 8"
  proof -
    assume a: "unat (be16 (hi8 w AND 0x7) (lo8 w)) = unat w mod 2048"
      and b: "unat w mod 2048 = unat off div 8 mod 2048"
    have "unat off div 8 mod 2048 * 8 < 65536"
    proof -
      have "unat off div 8 mod 2048 < 2048" by simp
      then show ?thesis by linarith
    qed
    with a b show ?thesis by (simp add: unat_word_ariths)
  qed
  then show ?thesis
    using l by (simp add: q FragmentOffset_def IPFlags_def idx_def flags_low_bits flags_high_bits drop_push_drop)
qed

lemma unat_Checksum_small:
  assumes "unat s + ref_sum b < 2 ^ 32"
  shows "unat (case_prod be16 (Checksum s b)) = 65535 - oc_norm (unat s + ref_sum b)"
  using assms by (simp add: unat_Checksum)

lemma Checksum_cong:
  assumes "oc_norm ((unat s + ref_sum b) mod 2 ^ 32) = oc_norm ((unat t + ref_sum b) mod 2 ^ 32)"
  shows "Checksum s b = Checksum t b"
proof -
  have "unat (case_prod be16 (Checksum s b)) = unat (case_prod be16 (Checksum t b))"
    using assms by (simp add: unat_Checksum)
  then have "case_prod be16 (Checksum s b) = case_prod be16 (Checksum t b)"
    by (simp only: word_unat_eq_iff)
  then show ?thesis
    by (cases "Checksum s b"; cases "Checksum t b") (simp add: be16_inject)
qed

lemma ref_sum_to16:
  assumes "length x = 4"
  shows "ref_sum (to16 x) = ref_sum x + 65535"
proof -
  let ?pre = "replicate 10 0 @ [255, 255] :: bytes"
  have 1: "to16 x = ?pre @ x" using assms by (simp add: to16_def)
  have "even (length ?pre)" by simp
  then have 2: "ref_sum (?pre @ x) = ref_sum ?pre + ref_sum x" by (rule ref_sum_snoc)
  have r: "replicate 10 (0::byte) = [0, 0, 0, 0, 0, 0, 0, 0, 0, 0]" by (simp add: numeral_eq_Suc)
  have 3: "ref_sum ?pre = 65535" unfolding r by simp
  show ?thesis unfolding 1 2 3 by (rule add.commute)
qed

lemma ref_sum_four_bound: "length x = 4 \<Longrightarrow> ref_sum x \<le> 131070"
  using ref_sum_bound [of x] by simp

text \<open>A TCP segment whose checksum was reset with the pseudo-header sum of two IPv4 addresses is
  accepted by \<open>Verify\<close> with each address in its 4-byte or its 16-byte form (the form the IP
  readers return).\<close>

lemma tcp_checksum_verifies_either_form:
  assumes "length src = 4" "length dst = 4" and p: "length p \<le> 65535"
    and psum: "psum = Sum src + Sum dst + ucast TCP + word_of_nat (length p)"
    and q: "TCP_ResetChecksum p psum = Some q"
    and forms: "s \<in> {src, to16 src}" "d \<in> {dst, to16 dst}"
  shows "TCP_Verify q s d = Some (q, None)"
proof -
  have l: "17 < length p"
    using q by (auto simp: TCP_ResetChecksum_def TCP_SetChecksum_def SetChecksum_at_def put_def
        split: if_splits)
  let ?z = "p[16 := 0, 17 := 0]"
  obtain a b where c: "Checksum psum ?z = (a, b)" by force
  have qe: "q = p[16 := a, 17 := b]"
    using q l c by (simp add: TCP_ResetChecksum_def TCP_SetChecksum_def SetChecksum_at_def put_def
        list_update_swap)
  define t where "t = 0 + Sum s + Sum d + ucast TCP + word_of_nat (length q)"
  define n where "n = ref_sum src + ref_sum dst + 6 + length p"
  have lz: "ref_sum ?z \<le> 65535 * 32768"
    using ref_sum_bound [of ?z] p by (simp add: mult_le_mono)
  have n: "n \<le> 400000" using ref_sum_four_bound [of src] ref_sum_four_bound [of dst] assms(1,2) p
    by (simp add: n_def)
  have T: "(ucast TCP :: u32) = word_of_nat 6" by (simp add: TCP_def)
  have ps: "psum = word_of_nat n" by (simp add: psum Sum_eq n_def T)
  obtain k where k: "t = word_of_nat (n + 65535 * k)" "k \<le> 2"
  proof -
    have "\<exists>i\<le>1. ref_sum s = ref_sum src + 65535 * i" "\<exists>j\<le>1. ref_sum d = ref_sum dst + 65535 * j"
      using forms ref_sum_to16 [of src] ref_sum_to16 [of dst] assms(1,2)
      by (auto intro: exI [of _ 0] exI [of _ 1])
    then obtain i j where ij: "i \<le> 1" "ref_sum s = ref_sum src + 65535 * i"
      "j \<le> 1" "ref_sum d = ref_sum dst + 65535 * j" by blast
    then have "t = word_of_nat (n + 65535 * (i + j))"
      by (simp add: t_def Sum_eq n_def T qe algebra_simps)
    with ij that [of "i + j"] show thesis by simp
  qed
  have ut: "unat t = n + 65535 * k" and up: "unat psum = n"
    using k n unfolding k(1) ps by (simp_all only: unat_of_nat) (simp_all)
  have "oc_norm (unat t + ref_sum ?z) = oc_norm (unat psum + ref_sum ?z)"
    using oc_norm_add [of "n + ref_sum ?z" k] by (simp add: ut up n_def algebra_simps)
  moreover have "unat t + ref_sum ?z < 2 ^ 32" "unat psum + ref_sum ?z < 2 ^ 32"
    using lz n k(2) by (simp_all add: ut up)
  ultimately have "Checksum t ?z = (a, b)"
    using Checksum_cong [of t ?z psum] c by simp
  then show ?thesis
    using l by (simp add: TCP_Verify_def qe idx_def put_def list_update_swap Let_def
        t_def [unfolded qe] del: add_0)
qed

theorem tcp_flags_ns_reads_as_fin_witness:
  "(14::nat) \<le> 20 \<and> (\<exists>f. TCP_Flags (replicate 12 0 @ [0x51, 0x10] @ replicate 6 0) = Some f
      \<and> f AND TCPFin \<noteq> 0)"
proof -
  have "(14::nat) \<le> length (replicate 12 0 @ [0x51, 0x10] @ replicate 6 0 :: bytes)" by simp
  from tcp_flags_ns_reads_as_fin [OF this]
  obtain f where "TCP_Flags (replicate 12 0 @ [0x51, 0x10] @ replicate 6 0) = Some f"
    "f AND TCPFin \<noteq> 0 \<longleftrightarrow> bit ((replicate 12 0 @ [0x51, 0x10] @ replicate 6 0 :: bytes) ! 13) 0
      \<or> bit ((replicate 12 0 @ [0x51, 0x10] @ replicate 6 0 :: bytes) ! 12) 0"
    by blast
  moreover have "bit ((replicate 12 0 @ [0x51, 0x10] @ replicate 6 0 :: bytes) ! 12) 0"
    by (simp add: nth_append)
  ultimately have "TCP_Flags (replicate 12 0 @ [0x51, 0x10] @ replicate 6 0) = Some f \<and> f AND TCPFin \<noteq> 0"
    by blast
  moreover have "(14::nat) \<le> 20" by simp
  ultimately show ?thesis by blast
qed

theorem fragment_offset_readback_witness:
  "\<exists>q. SetFragmentOffset (replicate 20 0) 16384 = Some q \<and> FragmentOffset q = Some 0"
proof -
  have "SetFragmentOffset (replicate 20 0) 16384 = Some (replicate 6 0 @ [8] @ replicate 13 0)"
    by code_simp
  from fragment_offset_readback [OF this] this show ?thesis by (auto simp: unat_eq_0)
qed

theorem ipv4_reset_checksum_verifies_witness:
  "\<exists>q. IPv4_ResetChecksum ([69, 0, 0, 20, 0, 1, 0, 0, 64, 6, 0, 0, 10, 0, 0, 1, 10, 0, 0, 2]) = Some q
     \<and> IPv4_Verify q = Some (q, None)"
proof -
  let ?p = "[69, 0, 0, 20, 0, 1, 0, 0, 64, 6, 0, 0, 10, 0, 0, 1, 10, 0, 0, 2] :: bytes"
  have ok: "ip_header_ok ?p" by code_simp
  have hl: "20 \<le> header_len ?p" by code_simp
  have "IPv4_ResetChecksum ?p \<noteq> None" by code_simp
  then obtain q where q: "IPv4_ResetChecksum ?p = Some q" by blast
  from ipv4_reset_checksum_verifies [OF ok hl q] q show ?thesis by blast
qed

theorem valid_packet_readers_total_witness:
  "IPv4_Valid [69, 0, 0, 20, 0, 1, 0, 0, 64, 6, 0, 0, 10, 0, 0, 1, 10, 0, 0, 2] = Some True
   \<and> (\<exists>d. Payload [69, 0, 0, 20, 0, 1, 0, 0, 64, 6, 0, 0, 10, 0, 0, 1, 10, 0, 0, 2] = Some d)"
proof -
  have v: "IPv4_Valid [69, 0, 0, 20, 0, 1, 0, 0, 64, 6, 0, 0, 10, 0, 0, 1, 10, 0, 0, 2] = Some True"
    by code_simp
  from valid_packet_readers_total [OF v] v show ?thesis by blast
qed

lemma tcp_checksum_verifies_either_form_example:
  "\<exists>q. TCP_ResetChecksum (replicate 20 1) (Sum [10, 0, 0, 1] + Sum [10, 0, 0, 2] + ucast TCP + 20) = Some q
     \<and> TCP_Verify q (to16 [10, 0, 0, 1]) [10, 0, 0, 2] = Some (q, None)"
proof -
  have "TCP_ResetChecksum (replicate 20 1)
      (Sum [10, 0, 0, 1] + Sum [10, 0, 0, 2] + ucast TCP + word_of_nat (length (replicate 20 (1::byte)))) \<noteq> None"
    by code_simp
  then obtain q where q: "TCP_ResetChecksum (replicate 20 1)
      (Sum [10, 0, 0, 1] + Sum [10, 0, 0, 2] + ucast TCP + word_of_nat (length (replicate 20 (1::byte)))) = Some q"
    by blast
  have "TCP_Verify q (to16 [10, 0, 0, 1]) [10, 0, 0, 2] = Some (q, None)"
    by (rule tcp_checksum_verifies_either_form [OF _ _ _ refl q]) simp_all
  with q show ?thesis by auto
qed

end
