(* ===== verification/Resource.thy ===== *)
theory Resource
  imports GoNet
begin

text \<open>
  Package \<open>client\<close>: the resource rules the VPN server issues, and the linear search for the
  first rule that matches. Both kinds of rule share their port, protocol and routing fields.
  The section on rule tables states the contract every lookup of the program is held to.
\<close>

record resource =
  PortMin :: int
  PortMax :: int
  ResProtocol :: string
  AppID :: string
  NodeGroupID :: string
  EnableTCPPrefL3 :: bool

record IPResource = resource +
  IPMin :: ip
  IPMax :: ip

record DomainResource = resource +
  AddrPretend :: bool

definition accepts :: "('r \<Rightarrow> bool) option \<Rightarrow> 'r \<Rightarrow> bool" where
  "accepts acc r \<longleftrightarrow> (case acc of None \<Rightarrow> True | Some f \<Rightarrow> f r)"

definition port_protocol_match :: "string \<Rightarrow> int \<Rightarrow> 'a resource_scheme \<Rightarrow> bool" where
  "port_protocol_match network port r \<longleftrightarrow>
     (ResProtocol r = network \<or> ResProtocol r = ''all'')
     \<and> (network = ''icmp'' \<or> PortMin r \<le> port \<and> port \<le> PortMax r)"

fun MatchDomainResourceWhere ::
  "DomainResource list \<Rightarrow> string \<Rightarrow> int \<Rightarrow> (DomainResource \<Rightarrow> bool) option \<Rightarrow> DomainResource option" where
  "MatchDomainResourceWhere [] network port acc = None"
| "MatchDomainResourceWhere (r # rs) network port acc =
     (let protocolMatches = (ResProtocol r = network \<or> ResProtocol r = ''all'');
          portMatches = (network = ''icmp'' \<or> PortMin r \<le> port \<and> port \<le> PortMax r)
      in if protocolMatches \<and> portMatches \<and> accepts acc r then Some r
         else MatchDomainResourceWhere rs network port acc)"

definition MatchDomainResource :: "DomainResource list \<Rightarrow> string \<Rightarrow> int \<Rightarrow> DomainResource option" where
  "MatchDomainResource rs network port = MatchDomainResourceWhere rs network port None"


section \<open>Rule tables\<close>

text \<open>
  What the routing code expects of a table of rules: a lookup returns the first rule, in the
  order the server listed them, that hits the query and is accepted by the optional filter.
\<close>

locale rule_table =
  fixes lookup :: "'t \<Rightarrow> 'q \<Rightarrow> ('r \<Rightarrow> bool) option \<Rightarrow> 'r option"
    and rules :: "'t \<Rightarrow> 'r list"
    and hits :: "'q \<Rightarrow> 'r \<Rightarrow> bool"
  assumes lookup_find: "lookup t q acc = find (\<lambda>r. hits q r \<and> accepts acc r) (rules t)"
begin

lemma lookup_sound: "lookup t q acc = Some r \<Longrightarrow> r \<in> set (rules t) \<and> hits q r \<and> accepts acc r"
  unfolding lookup_find by (auto simp: find_Some_iff)

lemma lookup_complete: "r \<in> set (rules t) \<Longrightarrow> hits q r \<Longrightarrow> accepts acc r \<Longrightarrow> lookup t q acc \<noteq> None"
  unfolding lookup_find by (auto simp: find_None_iff)

lemma lookup_None_iff: "lookup t q None = None \<longleftrightarrow> (\<forall>r \<in> set (rules t). \<not> hits q r)"
  unfolding lookup_find by (auto simp: find_None_iff accepts_def)

text \<open>The two-stage search of the dialers: first the filtered rules, then all of them.\<close>

lemma prefer_first:
  assumes "(case lookup t q (Some f) of Some r \<Rightarrow> Some r | None \<Rightarrow> lookup t q None) = Some r"
  shows "r \<in> set (rules t)" and "hits q r"
    and "f r \<or> (\<forall>s \<in> set (rules t). hits q s \<longrightarrow> \<not> f s)"
proof -
  show "r \<in> set (rules t)" "hits q r"
    using assms lookup_sound by (fastforce split: option.splits)+
  show "f r \<or> (\<forall>s \<in> set (rules t). hits q s \<longrightarrow> \<not> f s)"
  proof (cases "lookup t q (Some f)")
    case None
    then show ?thesis using lookup_complete [of _ t q "Some f"] by (auto simp: accepts_def)
  next
    case (Some s)
    with assms have "lookup t q (Some f) = Some r" by simp
    from lookup_sound [OF this] show ?thesis by (simp add: accepts_def)
  qed
qed

lemma prefer_None_iff:
  "(case lookup t q (Some f) of Some r \<Rightarrow> Some r | None \<Rightarrow> lookup t q None) = None
     \<longleftrightarrow> lookup t q None = None"
  using lookup_sound [of t q "Some f"] lookup_complete [of _ t q None]
  by (auto simp: accepts_def split: option.splits)

end

lemma MatchDomainResourceWhere_find:
  "MatchDomainResourceWhere rs network port acc =
     find (\<lambda>r. port_protocol_match network port r \<and> accepts acc r) rs"
  by (induction rs) (auto simp: port_protocol_match_def Let_def)

interpretation domain_rules: rule_table
  "\<lambda>rs (network, port) acc. MatchDomainResourceWhere rs network port acc"
  "\<lambda>rs. rs"
  "\<lambda>(network, port) r. port_protocol_match network port r"
  by unfold_locales (auto simp: MatchDomainResourceWhere_find)

end
