(* ===== verification/IPResourceIndex.thy ===== *)
theory IPResourceIndex
  imports Resource
begin

text \<open>
  Package \<open>internal/ipresource\<close>: the static interval tree over the IPv4 address ranges of the
  server's rules. Nodes are ordered by range start and carry the largest range end of their
  subtree; every node remembers the position of its rule in the server's list.
\<close>

record indexedResource =
  ires :: IPResource
  istart :: u32
  iend :: u32
  iorder :: nat

datatype node = Leaf | Node node indexedResource u32 node

fun maxEnd :: "node \<Rightarrow> u32" where
  "maxEnd Leaf = 0"
| "maxEnd (Node l r m rt) = m"

definition IPv4Uint32 :: "ip \<Rightarrow> u32 option" where
  "IPv4Uint32 x =
     (let y = to4 x in if y = [] then None else be32_at y 0)"

fun collect :: "nat \<Rightarrow> IPResource list \<Rightarrow> indexedResource list" where
  "collect order [] = []"
| "collect order (r # rs) =
     (case (IPv4Uint32 (IPMin r), IPv4Uint32 (IPMax r)) of
        (Some s, Some e) \<Rightarrow>
          if e < s then collect (Suc order) rs
          else \<lparr>ires = r, istart = s, iend = e, iorder = order\<rparr> # collect (Suc order) rs
      | _ \<Rightarrow> collect (Suc order) rs)"

fun build :: "indexedResource list \<Rightarrow> node" where
  "build rs =
     (if rs = [] then Leaf
      else let middle = length rs div 2;
               r = rs ! middle;
               l = build (take middle rs);
               rt = build (drop (middle + 1) rs);
               m0 = iend r;
               m1 = (if l \<noteq> Leaf \<and> m0 < maxEnd l then maxEnd l else m0);
               m2 = (if rt \<noteq> Leaf \<and> m1 < maxEnd rt then maxEnd rt else m1)
           in Node l r m2 rt)"

declare build.simps [simp del]

definition New :: "IPResource list \<Rightarrow> node" where
  "New rs = build (sort_key istart (collect 0 rs))"

fun node_match :: "node \<Rightarrow> u32 \<Rightarrow> string \<Rightarrow> int \<Rightarrow> bool \<Rightarrow> (IPResource \<Rightarrow> bool) option
    \<Rightarrow> indexedResource option \<Rightarrow> indexedResource option" where
  "node_match Leaf x protocol port preferLast acc best = best"
| "node_match (Node l r m rt) x protocol port preferLast acc best =
     (if m < x then best
      else
        let b1 = (if l \<noteq> Leaf \<and> maxEnd l \<ge> x
                  then node_match l x protocol port preferLast acc best else best);
            b2 = (if istart r \<le> x \<and> x \<le> iend r
                     \<and> (ResProtocol (ires r) = protocol \<or> ResProtocol (ires r) = ''all'')
                     \<and> (protocol = ''icmp'' \<or> PortMin (ires r) \<le> port \<and> port \<le> PortMax (ires r))
                     \<and> accepts acc (ires r)
                     \<and> (case b1 of None \<Rightarrow> True
                        | Some b \<Rightarrow> \<not> preferLast \<and> iorder r < iorder b \<or> preferLast \<and> iorder b < iorder r)
                  then Some r else b1)
        in if istart r \<le> x \<and> rt \<noteq> Leaf \<and> maxEnd rt \<ge> x
           then node_match rt x protocol port preferLast acc b2 else b2)"

definition index_match :: "node \<Rightarrow> ip \<Rightarrow> string \<Rightarrow> int \<Rightarrow> bool \<Rightarrow> (IPResource \<Rightarrow> bool) option
    \<Rightarrow> IPResource option" where
  "index_match t destination protocol port preferLast acc =
     (case IPv4Uint32 destination of
        None \<Rightarrow> None
      | Some x \<Rightarrow>
          if t = Leaf then None
          else map_option ires (node_match t x protocol port preferLast acc None))"

definition Match :: "node \<Rightarrow> ip \<Rightarrow> string \<Rightarrow> int \<Rightarrow> IPResource option" where
  "Match t d protocol port = index_match t d protocol port False None"

definition MatchLast :: "node \<Rightarrow> ip \<Rightarrow> string \<Rightarrow> int \<Rightarrow> IPResource option" where
  "MatchLast t d protocol port = index_match t d protocol port True None"

definition MatchWhere :: "node \<Rightarrow> ip \<Rightarrow> string \<Rightarrow> int \<Rightarrow> (IPResource \<Rightarrow> bool) \<Rightarrow> IPResource option" where
  "MatchWhere t d protocol port f = index_match t d protocol port False (Some f)"

definition MatchLastWhere :: "node \<Rightarrow> ip \<Rightarrow> string \<Rightarrow> int \<Rightarrow> (IPResource \<Rightarrow> bool) \<Rightarrow> IPResource option" where
  "MatchLastWhere t d protocol port f = index_match t d protocol port True (Some f)"


section \<open>The specification: a linear scan\<close>

definition range_hits :: "ip \<Rightarrow> IPResource \<Rightarrow> bool" where
  "range_hits d r \<longleftrightarrow>
     (case (ip_u32 (IPMin r), ip_u32 (IPMax r), ip_u32 d) of
        (Some s, Some e, Some x) \<Rightarrow> s \<le> x \<and> x \<le> e
      | _ \<Rightarrow> False)"

definition ip_hits :: "ip \<times> string \<times> int \<Rightarrow> IPResource \<Rightarrow> bool" where
  "ip_hits q r \<longleftrightarrow> (case q of (d, protocol, port) \<Rightarrow>
     range_hits d r \<and> port_protocol_match protocol port r)"

section \<open>The tree\<close>

fun inorder :: "node \<Rightarrow> indexedResource list" where
  "inorder Leaf = []"
| "inorder (Node l r m rt) = inorder l @ r # inorder rt"

fun tree_ok :: "node \<Rightarrow> bool" where
  "tree_ok Leaf \<longleftrightarrow> True"
| "tree_ok (Node l r m rt) \<longleftrightarrow> tree_ok l \<and> tree_ok rt
     \<and> (\<forall>y \<in> set (inorder (Node l r m rt)). iend y \<le> m)
     \<and> (\<forall>y \<in> set (inorder rt). istart r \<le> istart y)"

lemma IPv4Uint32_eq: "IPv4Uint32 x = ip_u32 x"
proof (cases "to4 x = []")
  case True
  then show ?thesis by (simp add: IPv4Uint32_def ip_u32_def)
next
  case False
  then obtain a b c d where "to4 x = [a, b, c, d]" by (rule to4_cases)
  then show ?thesis by (simp add: IPv4Uint32_def ip_u32_def be32_at_def idx_def)
qed

lemma inorder_build: "inorder (build rs) = rs"
proof (induction rs rule: build.induct)
  case (1 rs)
  show ?case
  proof (cases "rs = []")
    case True
    then show ?thesis by (simp add: build.simps)
  next
    case False
    then have "length rs div 2 < length rs" by simp
    with False 1 show ?thesis
      by (subst build.simps) (simp add: Let_def id_take_nth_drop [symmetric])
  qed
qed

lemma maxEnd_build_bound: "tree_ok t \<Longrightarrow> y \<in> set (inorder t) \<Longrightarrow> iend y \<le> maxEnd t"
  by (cases t) auto

definition node_end :: "node \<Rightarrow> indexedResource \<Rightarrow> node \<Rightarrow> u32" where
  "node_end l r rt =
     (let m1 = (if l \<noteq> Leaf \<and> iend r < maxEnd l then maxEnd l else iend r)
      in if rt \<noteq> Leaf \<and> m1 < maxEnd rt then maxEnd rt else m1)"

lemma node_end_bounds:
  "iend r \<le> node_end l r rt" "l \<noteq> Leaf \<Longrightarrow> maxEnd l \<le> node_end l r rt"
  "rt \<noteq> Leaf \<Longrightarrow> maxEnd rt \<le> node_end l r rt"
  by (auto simp: node_end_def Let_def)

lemma build_unfold:
  "rs \<noteq> [] \<Longrightarrow> build rs =
     (let m = length rs div 2; l = build (take m rs); rt = build (drop (Suc m) rs)
      in Node l (rs ! m) (node_end l (rs ! m) rt) rt)"
  by (subst build.simps) (simp add: node_end_def Let_def)

lemma build_ok: "sorted (map istart rs) \<Longrightarrow> tree_ok (build rs)"
proof (induction rs rule: build.induct)
  case (1 rs)
  show ?case
  proof (cases "rs = []")
    case True
    then show ?thesis by (simp add: build.simps)
  next
    case False
    define m where "m = length rs div 2"
    define l rt where "l = build (take m rs)" and "rt = build (drop (Suc m) rs)"
    have "m < length rs" using False by (simp add: m_def)
    then have split: "rs = take m rs @ rs ! m # drop (Suc m) rs" by (rule id_take_nth_drop)
    have sorted: "sorted (map istart (take m rs @ rs ! m # drop (Suc m) rs))"
      using "1.prems" split by simp
    then have okl: "tree_ok l" and okr: "tree_ok rt"
      using "1.IH" False by (simp_all add: l_def rt_def m_def sorted_append)
    have right: "\<forall>y \<in> set (inorder rt). istart (rs ! m) \<le> istart y"
      using sorted by (simp add: rt_def inorder_build sorted_append)
    have "iend y \<le> node_end l (rs ! m) rt" if "y \<in> set (inorder l) \<union> {rs ! m} \<union> set (inorder rt)" for y
      using that maxEnd_build_bound [OF okl, of y] maxEnd_build_bound [OF okr, of y]
        node_end_bounds [where l = l and r = "rs ! m" and rt = rt]
      by (cases "l = Leaf"; cases "rt = Leaf") (auto intro: order_trans)
    then have "tree_ok (Node l (rs ! m) (node_end l (rs ! m) rt) rt)"
      using okl okr right by auto
    then show ?thesis
      using build_unfold [OF False] by (simp add: Let_def l_def rt_def m_def)
  qed
qed


section \<open>The search\<close>

text \<open>The pruned descent visits every hit, and keeps the one with the least (or greatest) position.\<close>

definition idx_hit :: "u32 \<Rightarrow> string \<Rightarrow> int \<Rightarrow> (IPResource \<Rightarrow> bool) option \<Rightarrow> indexedResource \<Rightarrow> bool" where
  "idx_hit x protocol port acc r \<longleftrightarrow>
     istart r \<le> x \<and> x \<le> iend r \<and> port_protocol_match protocol port (ires r) \<and> accepts acc (ires r)"

definition pick :: "bool \<Rightarrow> indexedResource option \<Rightarrow> indexedResource \<Rightarrow> indexedResource option" where
  "pick pl best r =
     (case best of None \<Rightarrow> Some r
      | Some b \<Rightarrow> if \<not> pl \<and> iorder r < iorder b \<or> pl \<and> iorder b < iorder r then Some r else best)"

abbreviation best_hit where
  "best_hit x protocol port pl acc best rs \<equiv>
     foldl (pick pl) best (filter (idx_hit x protocol port acc) rs)"

lemma no_hits_end: "\<forall>y \<in> set rs. iend y \<le> m \<Longrightarrow> m < x \<Longrightarrow> filter (idx_hit x protocol port acc) rs = []"
  by (fastforce simp: idx_hit_def filter_empty_conv)

lemma no_hits_start:
  "\<forall>y \<in> set rs. s \<le> istart y \<Longrightarrow> x < s \<Longrightarrow> filter (idx_hit x protocol port acc) rs = []"
  by (fastforce simp: idx_hit_def filter_empty_conv)

lemma node_match_best_hit:
  "tree_ok t \<Longrightarrow> node_match t x protocol port pl acc best = best_hit x protocol port pl acc best (inorder t)"
proof (induction t arbitrary: best)
  case Leaf
  then show ?case by simp
next
  case (Node l r m rt)
  let ?F = "filter (idx_hit x protocol port acc)"
  have okl: "tree_ok l" and okr: "tree_ok rt" and ends: "\<forall>y \<in> set (inorder (Node l r m rt)). iend y \<le> m"
    and starts: "\<forall>y \<in> set (inorder rt). istart r \<le> istart y"
    using Node.prems by simp_all
  show ?case
  proof (cases "m < x")
    case True
    then have "?F (inorder (Node l r m rt)) = []" using ends by (rule no_hits_end [rotated])
    then show ?thesis using True by simp
  next
    case False
    define b1 where "b1 = best_hit x protocol port pl acc best (inorder l)"
    define b2 where "b2 = (if idx_hit x protocol port acc r then pick pl b1 r else b1)"
    have left: "(if l \<noteq> Leaf \<and> maxEnd l \<ge> x then node_match l x protocol port pl acc best else best) = b1"
    proof (cases "l \<noteq> Leaf \<and> maxEnd l \<ge> x")
      case True
      then show ?thesis using Node.IH(1) [OF okl] by (simp add: b1_def)
    next
      case F: False
      have "?F (inorder l) = []"
      proof (cases l)
        case N: (Node a b c d)
        with F have "maxEnd l < x" by auto
        moreover have "\<forall>y \<in> set (inorder l). iend y \<le> maxEnd l"
          using maxEnd_build_bound [OF okl] by blast
        ultimately show ?thesis by (rule no_hits_end [rotated])
      qed simp
      then show ?thesis unfolding if_not_P [OF F] by (simp add: b1_def)
    qed
    have mid: "(if istart r \<le> x \<and> x \<le> iend r
                     \<and> (ResProtocol (ires r) = protocol \<or> ResProtocol (ires r) = ''all'')
                     \<and> (protocol = ''icmp'' \<or> PortMin (ires r) \<le> port \<and> port \<le> PortMax (ires r))
                     \<and> accepts acc (ires r)
                     \<and> (case b1 of None \<Rightarrow> True
                        | Some b \<Rightarrow> \<not> pl \<and> iorder r < iorder b \<or> pl \<and> iorder b < iorder r)
                  then Some r else b1) = b2"
      by (cases b1) (auto simp: b2_def idx_hit_def pick_def port_protocol_match_def)
    have "best_hit x protocol port pl acc best (inorder (Node l r m rt))
        = best_hit x protocol port pl acc b2 (inorder rt)"
      by (simp add: b1_def b2_def)
    also have "\<dots> = (if istart r \<le> x \<and> rt \<noteq> Leaf \<and> maxEnd rt \<ge> x
           then node_match rt x protocol port pl acc b2 else b2)"
    proof (cases "istart r \<le> x \<and> rt \<noteq> Leaf \<and> maxEnd rt \<ge> x")
      case True
      then show ?thesis using Node.IH(2) [OF okr] by simp
    next
      case F: False
      have "?F (inorder rt) = []"
      proof (cases rt)
        case N: (Node a b c d)
        with F consider "x < istart r" | "maxEnd rt < x" by fastforce
        then show ?thesis
        proof cases
          case 1
          with starts show ?thesis by (rule no_hits_start)
        next
          case 2
          have "\<forall>y \<in> set (inorder rt). iend y \<le> maxEnd rt"
            using maxEnd_build_bound [OF okr] by blast
          then show ?thesis using 2 by (rule no_hits_end)
        qed
      qed simp
      then show ?thesis unfolding if_not_P [OF F] by simp
    qed
    finally show ?thesis
      unfolding node_match.simps if_not_P [OF False] Let_def left mid by (rule sym)
  qed
qed

lemma best_pick_None: "foldl (pick pl) best rs = None \<longleftrightarrow> best = None \<and> rs = []"
proof (induction rs arbitrary: best)
  case (Cons r rs)
  have "pick pl best r \<noteq> None" by (auto simp: pick_def split: option.splits)
  with Cons show ?case by simp
qed simp

definition no_worse :: "bool \<Rightarrow> indexedResource \<Rightarrow> indexedResource \<Rightarrow> bool" where
  "no_worse pl r y \<longleftrightarrow> (if pl then iorder y \<le> iorder r else iorder r \<le> iorder y)"

lemma best_pick_Some:
  "foldl (pick pl) best rs = Some r \<Longrightarrow>
     (r \<in> set rs \<or> best = Some r) \<and> (\<forall>y \<in> set rs \<union> set_option best. no_worse pl r y)"
proof (induction rs arbitrary: best)
  case Nil
  then show ?case by (simp add: no_worse_def)
next
  case (Cons z rs)
  from Cons.IH [of "pick pl best z"] Cons.prems
  have IH: "r \<in> set rs \<or> pick pl best z = Some r"
    "\<forall>y \<in> set rs \<union> set_option (pick pl best z). no_worse pl r y" by auto
  then show ?case
    by (cases best) (auto simp: pick_def no_worse_def split: if_splits)
qed

lemma collect_ge: "y \<in> set (collect k rs) \<Longrightarrow> k \<le> iorder y"
proof (induction rs arbitrary: k)
  case (Cons r rs)
  have "k \<le> iorder y" if "y \<in> set (collect (Suc k) rs)"
    using Cons.IH [OF that] by simp
  with Cons.prems show ?case by (auto split: option.splits if_splits)
qed simp

lemma collect_sorted: "sorted_wrt (\<lambda>x y. iorder x < iorder y) (collect k rs)"
proof (induction rs arbitrary: k)
  case (Cons r rs)
  have "k < iorder y" if "y \<in> set (collect (Suc k) rs)" for y
    using collect_ge [OF that] by simp
  then show ?case using Cons.IH [of "Suc k"] by (auto split: option.splits)
qed simp

lemma find_collect:
  assumes "ip_u32 d = Some x"
  shows "map_option ires (find (idx_hit x protocol port acc) (collect k rs))
       = find (\<lambda>r. ip_hits (d, protocol, port) r \<and> accepts acc r) rs"
proof (induction rs arbitrary: k)
  case (Cons r rs)
  show ?case
    using Cons.IH [of "Suc k"] assms
    by (auto simp: IPv4Uint32_eq ip_hits_def range_hits_def idx_hit_def split: option.splits)
qed simp

lemma find_rev_collect:
  assumes "ip_u32 d = Some x"
  shows "map_option ires (find (idx_hit x protocol port acc) (rev (collect k rs)))
       = find (\<lambda>r. ip_hits (d, protocol, port) r \<and> accepts acc r) (rev rs)"
proof -
  have app: "find P (xs @ ys) = (case find P xs of None \<Rightarrow> find P ys | Some z \<Rightarrow> Some z)"
    for P and xs ys :: "'z list" by (induction xs) auto
  show ?thesis
  proof (induction rs arbitrary: k)
    case (Cons r rs)
    let ?P = "idx_hit x protocol port acc"
    have "map_option ires (find ?P (rev (collect k (r # rs))))
        = (case map_option ires (find ?P (rev (collect (Suc k) rs))) of
             None \<Rightarrow> map_option ires (find ?P (collect k [r])) | Some z \<Rightarrow> Some z)"
      by (auto simp: app split: option.splits)
    also have "map_option ires (find ?P (collect k [r]))
        = find (\<lambda>r. ip_hits (d, protocol, port) r \<and> accepts acc r) [r]"
      using find_collect [OF assms] by blast
    finally show ?case unfolding Cons.IH by (simp add: app)
  qed simp
qed

lemma find_extreme:
  assumes "sorted_wrt (\<lambda>x y. iorder x < iorder y) xs"
    and "r \<in> set xs" "P r" "\<forall>y \<in> set xs. P y \<longrightarrow> no_worse pl r y"
  shows "find P (if pl then rev xs else xs) = Some r"
  using assms
proof (induction xs)
  case (Cons z xs)
  have app: "find P (us @ vs) = (case find P us of None \<Rightarrow> find P vs | Some w \<Rightarrow> Some w)"
    for us vs :: "indexedResource list" by (induction us) auto
  show ?case
  proof (cases "r = z")
    case True
    with Cons.prems have "\<not> P y" if "pl" "y \<in> set xs" for y
      using that by (fastforce simp: no_worse_def)
    then have "find P (rev xs) = None" if "pl" using that by (auto simp: find_None_iff)
    then show ?thesis using True Cons.prems by (simp add: app)
  next
    case False
    then have IH: "find P (if pl then rev xs else xs) = Some r" using Cons by auto
    moreover have "\<not> P z" if "\<not> pl"
      using that False Cons.prems by (fastforce simp: no_worse_def)
    ultimately show ?thesis by (auto simp: app split: if_splits)
  qed
qed simp

lemma index_match_find:
  "index_match (New rs) d protocol port pl acc
     = find (\<lambda>r. ip_hits (d, protocol, port) r \<and> accepts acc r) (if pl then rev rs else rs)"
proof (cases "ip_u32 d")
  case None
  then have "\<not> ip_hits (d, protocol, port) r" for r
    by (auto simp: ip_hits_def range_hits_def split: option.splits)
  then show ?thesis using None
    by (simp add: index_match_def IPv4Uint32_eq find_None_iff [THEN iffD2] del: find_None_iff)
next
  case (Some x)
  let ?P = "idx_hit x protocol port acc" and ?xs = "collect 0 rs"
  have "sorted (map istart (sort_key istart ?xs))" by simp
  then have ok: "tree_ok (New rs)" unfolding New_def by (rule build_ok)
  have "node_match (New rs) x protocol port pl acc None
      = foldl (pick pl) None (filter ?P (sort_key istart ?xs))" (is "_ = ?b")
    using node_match_best_hit [OF ok] by (simp add: New_def inorder_build)
  also have "?b = find ?P (if pl then rev ?xs else ?xs)"
  proof (cases ?b)
    case None
    then have "filter ?P (sort_key istart ?xs) = []" by (simp add: best_pick_None)
    then have "\<forall>y \<in> set ?xs. \<not> ?P y" by (simp add: filter_empty_conv)
    then show ?thesis using None by (auto simp: find_None_iff [THEN iffD2])
  next
    case (Some r)
    then have "r \<in> set ?xs" "?P r" "\<forall>y \<in> set ?xs. ?P y \<longrightarrow> no_worse pl r y"
      using best_pick_Some [OF Some] by auto
    then show ?thesis using Some find_extreme [OF collect_sorted] by simp
  qed
  finally have "map_option ires (node_match (New rs) x protocol port pl acc None)
      = find (\<lambda>r. ip_hits (d, protocol, port) r \<and> accepts acc r) (if pl then rev rs else rs)"
    using find_collect [OF Some] find_rev_collect [OF Some] by simp
  then show ?thesis
    by (cases "New rs") (auto simp: index_match_def IPv4Uint32_eq Some)
qed

interpretation ip_rules: rule_table
  "\<lambda>rs (d, protocol, port) acc. index_match (New rs) d protocol port False acc"
  "\<lambda>rs. rs" ip_hits
  by unfold_locales (auto simp: index_match_find)

interpretation ip_rules_last: rule_table
  "\<lambda>rs (d, protocol, port) acc. index_match (New rs) d protocol port True acc"
  rev ip_hits
  by unfold_locales (auto simp: index_match_find)

text \<open>C4: A lookup in the interval tree built from the server's rules, with any filter, returns the
  same rule as a linear scan of the list: the first hit in the order the server listed them, or
  the last hit for the \<open>MatchLast\<close> variants.\<close>

theorem index_match_is_linear_scan:
  "Match (New rs) d protocol port = find (ip_hits (d, protocol, port)) rs
   \<and> MatchLast (New rs) d protocol port = find (ip_hits (d, protocol, port)) (rev rs)
   \<and> MatchWhere (New rs) d protocol port f = find (\<lambda>r. ip_hits (d, protocol, port) r \<and> f r) rs
   \<and> MatchLastWhere (New rs) d protocol port f
       = find (\<lambda>r. ip_hits (d, protocol, port) r \<and> f r) (rev rs)"
  by (simp add: Match_def MatchLast_def MatchWhere_def MatchLastWhere_def index_match_find
      accepts_def)

end
