(* ===== verification/IPPool.thy ===== *)
theory IPPool
  imports GoNet
begin

text \<open>
  Package \<open>internal/ippool\<close>: the fake-IP pool that names domains by addresses of a private
  range. Entries are never changed after they are made, so the two maps hold them by value. The
  operations run under the pool's lock; each is one atomic step.
\<close>

record 'r entry =
  ipUint :: u32
  edomain :: string
  eresource :: 'r

record 'r IPPool =
  domainToIP :: "(string, 'r entry) gomap"
  ipToDomain :: "(u32, 'r entry) gomap"
  minIP :: u32
  maxIP :: u32
  currentIP :: u32

definition NewIPPool :: "string \<Rightarrow> 'r IPPool option" where
  "NewIPPool cidr =
     (case parse_cidr4 cidr of
        None \<Rightarrow> None
      | Some (net, ones) \<Rightarrow>
          (case be32_at net 0 of
             None \<Rightarrow> None
           | Some mn \<Rightarrow>
               (let numIPs = push_bit (32 - ones) 1
                in Some \<lparr>domainToIP = [], ipToDomain = [], minIP = mn, maxIP = mn + numIPs - 1,
                         currentIP = mn + 2\<rparr>)))"

text \<open>\<open>Inl ()\<close> is the error "only IPv4 is supported".\<close>

definition SetIPDomain :: "'r IPPool \<Rightarrow> ip \<Rightarrow> string \<Rightarrow> 'r \<Rightarrow> unit + 'r IPPool" where
  "SetIPDomain p x d res =
     (case ip_u32 x of
        None \<Rightarrow> Inl ()
      | Some u \<Rightarrow>
          (let e = \<lparr>ipUint = u, edomain = d, eresource = res\<rparr>
           in Inr (p\<lparr>domainToIP := mset d e (domainToIP p), ipToDomain := mset u e (ipToDomain p)\<rparr>)))"

definition uint32ToIP :: "u32 \<Rightarrow> ip" where
  "uint32ToIP n = bytes32 n"

text \<open>\<open>None\<close> is the panic "Fake IP range exhausted".\<close>

definition GenerateIP :: "'r IPPool \<Rightarrow> string \<Rightarrow> 'r \<Rightarrow> (ip \<times> 'r IPPool) option" where
  "GenerateIP p d res =
     (case mget (domainToIP p) d of
        Some e \<Rightarrow> Some (uint32ToIP (ipUint e), p)
      | None \<Rightarrow>
          if maxIP p < currentIP p then None
          else
            let newIP = currentIP p;
                e = \<lparr>ipUint = newIP, edomain = d, eresource = res\<rparr>
            in Some (uint32ToIP newIP,
                 p\<lparr>domainToIP := mset d e (domainToIP p), ipToDomain := mset newIP e (ipToDomain p),
                   currentIP := currentIP p + 1\<rparr>))"

definition GetDomain :: "'r IPPool \<Rightarrow> ip \<Rightarrow> (string \<times> 'r) option" where
  "GetDomain p x =
     (case ip_u32 x of
        None \<Rightarrow> None
      | Some u \<Rightarrow>
          (case mget (ipToDomain p) u of
             Some e \<Rightarrow> Some (edomain e, eresource e)
           | None \<Rightarrow> None))"

definition Snapshot :: "'r IPPool \<Rightarrow> (string, string) gomap" where
  "Snapshot p = map (\<lambda>(d, e). (d, ip_string (uint32ToIP (ipUint e)))) (domainToIP p)"

definition Clear :: "'r IPPool \<Rightarrow> 'r IPPool" where
  "Clear p = p\<lparr>domainToIP := [], ipToDomain := [], currentIP := minIP p + 2\<rparr>"


section \<open>The invariant\<close>

text \<open>The operations as one step function; a failed \<open>SetIPDomain\<close> leaves the pool as it was.\<close>

datatype 'r pool_op = OpSet ip string 'r | OpGenerate string 'r | OpClear

fun pool_step :: "'r pool_op \<Rightarrow> 'r IPPool \<Rightarrow> 'r IPPool option" where
  "pool_step (OpSet x d r) p = Some (case SetIPDomain p x d r of Inl _ \<Rightarrow> p | Inr q \<Rightarrow> q)"
| "pool_step (OpGenerate d r) p = map_option snd (GenerateIP p d r)"
| "pool_step OpClear p = Some (Clear p)"

text \<open>The two maps agree on which domains and addresses are known.\<close>

definition entries_ok :: "(string, 'r entry) gomap \<Rightarrow> (u32, 'r entry) gomap \<Rightarrow> bool" where
  "entries_ok dm im \<longleftrightarrow> map_ok dm \<and> map_ok im
     \<and> (\<forall>d e. mget dm d = Some e \<longrightarrow> edomain e = d \<and> mget im (ipUint e) \<noteq> None)
     \<and> (\<forall>u e. mget im u = Some e \<longrightarrow> ipUint e = u \<and> mget dm (edomain e) \<noteq> None)"

definition pool_inv :: "'r IPPool \<Rightarrow> bool" where
  [inv_defs]: "pool_inv p \<longleftrightarrow> entries_ok (domainToIP p) (ipToDomain p)
     \<and> minIP p + 2 \<le> currentIP p \<and> unat (minIP p) + 2 \<le> unat (maxIP p) \<and> maxIP p < - 1
     \<and> unat (currentIP p) \<le> Suc (unat (maxIP p))"

text \<open>The addresses handed out so far.\<close>

definition pool_issued :: "'r IPPool \<Rightarrow> u32 \<Rightarrow> bool" where
  "pool_issued p u \<longleftrightarrow> minIP p + 2 \<le> u \<and> u < currentIP p"

text \<open>No address in the issued part of the range names two domains, and an issued address keeps
  naming a domain. This is the part that needs \<open>SetIPDomain\<close> to stay out of the range.\<close>

definition pool_exclusive :: "'r IPPool \<Rightarrow> bool" where
  [inv_defs]: "pool_exclusive p \<longleftrightarrow> pool_inv p
     \<and> (\<forall>d e. mget (domainToIP p) d = Some e \<longrightarrow> minIP p \<le> ipUint e \<longrightarrow> ipUint e \<le> maxIP p \<longrightarrow>
          pool_issued p (ipUint e) \<and> mget (ipToDomain p) (ipUint e) = Some e)
     \<and> (\<forall>u. pool_issued p u \<longrightarrow> mget (ipToDomain p) u \<noteq> None)"

fun outside_range :: "u32 \<Rightarrow> u32 \<Rightarrow> 'r pool_op \<Rightarrow> bool" where
  "outside_range lo hi (OpSet x d r) \<longleftrightarrow> (case ip_u32 x of None \<Rightarrow> True | Some u \<Rightarrow> u < lo \<or> hi < u)"
| "outside_range lo hi (OpGenerate d r) \<longleftrightarrow> True"
| "outside_range lo hi OpClear \<longleftrightarrow> False"

lemma ip_u32_uint32ToIP [simp]: "ip_u32 (uint32ToIP u) = Some u"
  using be32_of_halves [of u] by (simp add: uint32ToIP_def bytes32_def bytes16_def)

lemma uint32ToIP_inject: "uint32ToIP u = uint32ToIP v \<longleftrightarrow> u = v"
  by (metis ip_u32_uint32ToIP option.inject)

lemma entries_ok_insert:
  "entries_ok dm im \<Longrightarrow> ipUint e = u \<Longrightarrow> edomain e = d \<Longrightarrow> entries_ok (mset d e dm) (mset u e im)"
  by (auto simp: entries_ok_def split: if_splits)

lemma u32_next_le:
  assumes "m < (- 1 :: u32)" "unat c \<le> Suc (unat m)" "\<not> m < c"
  shows "unat (c + 1) = Suc (unat c)" and "unat (c + 1) \<le> Suc (unat m)"
proof -
  have "unat m < unat (- 1 :: u32)" using assms(1) by (simp add: word_less_nat_alt)
  then have "unat m < 4294967295" by (simp add: unsigned_minus_1_eq_mask mask_eq_exp_minus_1)
  moreover have "unat c \<le> unat m" using assms(3) by (simp add: not_less word_le_nat_alt)
  ultimately show "unat (c + 1) = Suc (unat c)" by (simp add: unat_word_ariths)
  then show "unat (c + 1) \<le> Suc (unat m)" using \<open>unat c \<le> unat m\<close> by simp
qed

lemma GenerateIP_inv:
  assumes inv: "pool_inv p" and g: "GenerateIP p d r = Some (x, q)"
  shows "pool_inv q"
proof (cases "mget (domainToIP p) d")
  case (Some e)
  with g inv show ?thesis by (auto simp: GenerateIP_def)
next
  case None
  with g have free: "\<not> maxIP p < currentIP p"
    and q: "q = p\<lparr>domainToIP := mset d \<lparr>ipUint = currentIP p, edomain = d, eresource = r\<rparr> (domainToIP p),
      ipToDomain := mset (currentIP p) \<lparr>ipUint = currentIP p, edomain = d, eresource = r\<rparr> (ipToDomain p),
      currentIP := currentIP p + 1\<rparr>"
    by (auto simp: GenerateIP_def Let_def split: if_splits)
  have "maxIP p < - 1" "unat (currentIP p) \<le> Suc (unat (maxIP p))" "minIP p + 2 \<le> currentIP p"
    using inv by (simp_all add: pool_inv_def)
  note succ = u32_next_le [OF this(1,2) free]
  have "minIP p + 2 \<le> currentIP p + 1"
    using succ(1) \<open>minIP p + 2 \<le> currentIP p\<close> by (simp add: word_le_nat_alt)
  with inv succ show ?thesis unfolding q pool_inv_def by (simp add: entries_ok_insert)
qed

lemma SetIPDomain_inv: "pool_inv p \<Longrightarrow> SetIPDomain p x d r = Inr q \<Longrightarrow> pool_inv q"
  by (auto simp: SetIPDomain_def pool_inv_def Let_def entries_ok_insert split: option.splits)

lemma Clear_inv: "pool_inv p \<Longrightarrow> pool_inv (Clear p)"
  by (auto simp: Clear_def pool_inv_def entries_ok_def unat_word_ariths)

interpretation pool: keeps_inv pool_step pool_inv
proof
  fix s :: "'a IPPool" and e t
  assume "pool_inv s" "pool_step e s = Some t"
  then show "pool_inv t"
    by (cases e) (auto simp: Clear_inv dest: GenerateIP_inv SetIPDomain_inv split: sum.splits)
qed


section \<open>Fake addresses are exclusive\<close>

lemma GenerateIP_cases:
  assumes "GenerateIP p d r = Some (x, q)"
  obtains (known) e where "mget (domainToIP p) d = Some e" "x = uint32ToIP (ipUint e)" "q = p"
  | (fresh) e where "mget (domainToIP p) d = None" "currentIP p \<le> maxIP p"
      "e = \<lparr>ipUint = currentIP p, edomain = d, eresource = r\<rparr>" "x = uint32ToIP (currentIP p)"
      "q = p\<lparr>domainToIP := mset d e (domainToIP p), ipToDomain := mset (currentIP p) e (ipToDomain p),
             currentIP := currentIP p + 1\<rparr>"
  using assms by (auto simp: GenerateIP_def Let_def not_less split: option.splits if_splits)

lemma pool_issued_next:
  assumes "pool_inv p" "currentIP p \<le> maxIP p"
  shows "u < currentIP p + 1 \<longleftrightarrow> u < currentIP p \<or> u = currentIP p"
proof -
  have "unat (currentIP p + 1) = Suc (unat (currentIP p))"
    using assms u32_next_le(1) [of "maxIP p" "currentIP p"] by (simp add: pool_inv_def)
  then show ?thesis by (auto simp: word_less_nat_alt word_unat_eq_iff less_Suc_eq)
qed

lemma pool_issued_range:
  assumes "pool_inv p" "pool_issued p u"
  shows "minIP p \<le> u" and "u \<le> maxIP p" and "u \<noteq> currentIP p"
proof -
  have "unat (minIP p + 2) = unat (minIP p) + 2"
  proof -
    have "unat (maxIP p) < 4294967296" by (rule unat_u32_bound)
    then show ?thesis using assms(1) by (simp add: pool_inv_def unat_word_ariths)
  qed
  then show "minIP p \<le> u" "u \<le> maxIP p" "u \<noteq> currentIP p"
    using assms by (auto simp: pool_inv_def pool_issued_def word_le_nat_alt word_less_nat_alt)
qed

text \<open>One step outside the range keeps exclusiveness, and every issued address keeps its entry.\<close>

definition pool_extends :: "'r IPPool \<Rightarrow> 'r IPPool \<Rightarrow> bool" where
  "pool_extends p q \<longleftrightarrow> minIP q = minIP p \<and> maxIP q = maxIP p
     \<and> (\<forall>u. pool_issued p u \<longrightarrow> pool_issued q u \<and> mget (ipToDomain q) u = mget (ipToDomain p) u)"

lemma pool_extends_refl: "pool_extends p p"
  by (simp add: pool_extends_def)

lemma pool_extends_trans: "pool_extends p q \<Longrightarrow> pool_extends q t \<Longrightarrow> pool_extends p t"
  by (auto simp: pool_extends_def)

lemma SetIPDomain_exclusive:
  assumes ex: "pool_exclusive p" and out: "ip_u32 x = Some u" "u < minIP p \<or> maxIP p < u"
    and q: "SetIPDomain p x d r = Inr q"
  shows "pool_exclusive q \<and> pool_extends p q"
proof -
  let ?e = "\<lparr>ipUint = u, edomain = d, eresource = r\<rparr>"
  have q': "q = p\<lparr>domainToIP := mset d ?e (domainToIP p), ipToDomain := mset u ?e (ipToDomain p)\<rparr>"
    using q out by (simp add: SetIPDomain_def Let_def)
  have inv: "pool_inv p" using ex by (simp add: pool_exclusive_def)
  then have "pool_inv q" using q by (rule SetIPDomain_inv)
  moreover have nu: "\<not> pool_issued p u" using pool_issued_range [OF inv, of u] out by auto
  moreover have iss: "pool_issued q v \<longleftrightarrow> pool_issued p v" for v by (simp add: pool_issued_def q')
  ultimately show ?thesis using ex out
    by (auto simp: pool_exclusive_def pool_extends_def q' pool_issued_def split: if_splits)
qed

lemma GenerateIP_exclusive:
  assumes ex: "pool_exclusive p" and g: "GenerateIP p d r = Some (x, q)"
  shows "pool_exclusive q \<and> pool_extends p q"
  using g
proof (cases rule: GenerateIP_cases)
  case known
  then show ?thesis using ex by (simp add: pool_extends_refl)
next
  case (fresh e)
  have inv: "pool_inv p" using ex by (simp add: pool_exclusive_def)
  have invq: "pool_inv q" by (rule GenerateIP_inv [OF inv g])
  have c: "minIP p + 2 \<le> currentIP p" using inv by (simp add: pool_inv_def)
  have iss: "pool_issued q v \<longleftrightarrow> pool_issued p v \<or> v = currentIP p" for v
    using pool_issued_next [OF inv fresh(2), of v] c by (auto simp: pool_issued_def fresh(5))
  have ne: "v \<noteq> currentIP p" if "pool_issued p v" for v
    using pool_issued_range(3) [OF inv that] .
  show ?thesis
    using ex invq iss ne unfolding pool_exclusive_def pool_extends_def fresh(5)
    by (auto simp: fresh(3) split: if_splits)
qed

lemma pool_step_exclusive:
  assumes "pool_exclusive p" "outside_range (minIP p) (maxIP p) e" "pool_step e p = Some q"
  shows "pool_exclusive q \<and> pool_extends p q"
proof (cases e)
  case (OpSet x d r)
  show ?thesis
  proof (cases "ip_u32 x")
    case None
    then have "q = p" using assms(3) OpSet by (simp add: SetIPDomain_def)
    then show ?thesis using assms(1) pool_extends_refl by simp
  next
    case (Some u)
    then obtain q' where "SetIPDomain p x d r = Inr q'" by (simp add: SetIPDomain_def Let_def)
    with Some assms OpSet SetIPDomain_exclusive [OF assms(1) Some] show ?thesis by simp
  qed
next
  case (OpGenerate d r)
  then show ?thesis using assms GenerateIP_exclusive [OF assms(1)] by auto
next
  case OpClear
  then show ?thesis using assms by simp
qed

lemma pool_run_exclusive:
  assumes "pool_exclusive p" "\<forall>e \<in> set es. outside_range (minIP p) (maxIP p) e"
    and "run_ops pool_step es p = Some q"
  shows "pool_exclusive q \<and> pool_extends p q"
  using assms
proof (induction es arbitrary: p)
  case Nil
  then show ?case by (simp add: pool_extends_refl)
next
  case (Cons e es)
  then obtain t where t: "pool_step e p = Some t" "run_ops pool_step es t = Some q"
    by (auto simp: bind_eq_Some_conv)
  have s: "pool_exclusive t" "pool_extends p t"
    using pool_step_exclusive [OF Cons.prems(1) _ t(1)] Cons.prems(2) by simp_all
  then have "minIP t = minIP p" "maxIP t = maxIP p" by (simp_all add: pool_extends_def)
  then have "pool_exclusive q \<and> pool_extends t q"
    using Cons.IH [OF s(1) _ t(2)] Cons.prems(2) by simp
  then show ?case using pool_extends_trans [OF s(2)] by blast
qed

lemma GenerateIP_names:
  assumes "pool_exclusive p" "GenerateIP p d r = Some (x, q)"
    and "ip_u32 x = Some u" "minIP p \<le> u" "u \<le> maxIP p"
  shows "pool_issued q u \<and> (\<exists>res. GetDomain q x = Some (d, res))"
  using assms(2)
proof (cases rule: GenerateIP_cases)
  case (known e)
  then have "pool_issued q u" "mget (ipToDomain q) u = Some e"
    using assms by (auto simp: pool_exclusive_def)
  moreover have "edomain e = d" using known assms(1)
    by (auto simp: pool_exclusive_def pool_inv_def entries_ok_def)
  ultimately show ?thesis using assms(3) by (simp add: GetDomain_def)
next
  case (fresh e)
  have inv: "pool_inv p" using assms(1) by (simp add: pool_exclusive_def)
  have "u = currentIP p" using assms(3) fresh by simp
  moreover have "minIP p + 2 \<le> currentIP p" using inv by (simp add: pool_inv_def)
  ultimately have "pool_issued q u"
    using pool_issued_next [OF inv fresh(2), of u] by (auto simp: pool_issued_def fresh(5))
  then show ?thesis using fresh assms(3) \<open>u = currentIP p\<close> by (simp add: GetDomain_def)
qed

lemma be32_at_bytes32 [simp]: "be32_at (bytes32 w) 0 = Some w"
  by (simp add: bytes32_def bytes16_def be32_at_def idx_def be32_of_halves)

lemma default_parts:
  "parse_ipv4 ''198.18.0.0'' = Some (ipv4 198 18 0 0)"
  "first_index (CHR ''/'') ''198.18.0.0/16'' = Some 10"
  "digits_val ''16'' = 16"
  "is_digit (CHR ''1'')" "is_digit (CHR ''6'')"
  by code_simp+

lemma default_base: "be32 198 18 0 0 = 3323068416"
  by (simp add: word_unat_eq_iff unat_be32 unat_be16)

lemma default_cidr: "parse_cidr4 ''198.18.0.0/16'' = Some (bytes32 3323068416, 16)"
proof -
  have "mask_u32 16 3323068416 = 3323068416" by (simp add: mask_u32_def)
  moreover have "take 10 ''198.18.0.0/16'' = ''198.18.0.0''" "drop 11 ''198.18.0.0/16'' = ''16''"
    by simp_all
  moreover note default_parts default_base
  ultimately show ?thesis
    unfolding parse_cidr4_def Let_def by simp
qed

lemma NewIPPool_default:
  "NewIPPool ''198.18.0.0/16'' = Some \<lparr>domainToIP = [], ipToDomain = [], minIP = 3323068416,
     maxIP = 3323133951, currentIP = 3323068418\<rparr>"
  by (simp add: NewIPPool_def default_cidr Let_def)

lemma NewIPPool_default_exclusive:
  "NewIPPool ''198.18.0.0/16'' = Some p \<Longrightarrow> pool_exclusive p"
  by (auto simp: NewIPPool_default pool_exclusive_def pool_inv_def entries_ok_def pool_issued_def)

text \<open>A concrete pool, before and after its first domain.\<close>

definition sample_pool :: "unit IPPool" where
  "sample_pool = \<lparr>domainToIP = [], ipToDomain = [], minIP = 3323068416, maxIP = 3323133951,
     currentIP = 3323068418\<rparr>"

definition sample_entry :: "unit entry" where
  "sample_entry = \<lparr>ipUint = 3323068418, edomain = ''a'', eresource = ()\<rparr>"

definition sample_pool1 :: "unit IPPool" where
  "sample_pool1 = \<lparr>domainToIP = [(''a'', sample_entry)], ipToDomain = [(3323068418, sample_entry)],
     minIP = 3323068416, maxIP = 3323133951, currentIP = 3323068419\<rparr>"

lemma sample_pool_exclusive: "pool_exclusive sample_pool"
  by (rule NewIPPool_default_exclusive) (simp add: NewIPPool_default sample_pool_def)

lemma sample_pool_first:
  "GenerateIP sample_pool ''a'' () = Some (uint32ToIP 3323068418, sample_pool1)"
  by (simp add: GenerateIP_def sample_pool_def sample_pool1_def sample_entry_def mset_def Let_def)

lemma sample_pool_range:
  "minIP sample_pool \<le> 3323068418" "3323068418 \<le> maxIP sample_pool"
  by (simp_all add: sample_pool_def)

text \<open>A fake address keeps naming the domain it was generated for, through any later operations
  that generate addresses or bind addresses outside the pool's range.\<close>

lemma fake_ip_is_stable:
  assumes "pool_exclusive p" and "GenerateIP p d r = Some (x, q)"
    and "ip_u32 x = Some u" "minIP p \<le> u" "u \<le> maxIP p"
    and "\<forall>e \<in> set es. outside_range (minIP p) (maxIP p) e"
    and "run_ops pool_step es q = Some t"
  shows "GetDomain t x = GetDomain q x \<and> (\<exists>res. GetDomain t x = Some (d, res))"
proof -
  have q: "pool_exclusive q" "pool_extends p q" using GenerateIP_exclusive [OF assms(1,2)] by auto
  then have "minIP q = minIP p" "maxIP q = maxIP p" by (simp_all add: pool_extends_def)
  then have "pool_extends q t" using pool_run_exclusive [OF q(1) _ assms(7)] assms(6) by simp
  moreover have "pool_issued q u" "\<exists>res. GetDomain q x = Some (d, res)"
    using GenerateIP_names [OF assms(1-5)] by auto
  ultimately show ?thesis using assms(3) by (simp add: GetDomain_def pool_extends_def)
qed

lemma fake_ip_is_stable_example:
  "\<exists>t. run_ops pool_step [OpSet (ipv4 10 0 0 1) ''a'' ()] sample_pool1 = Some t
     \<and> GetDomain t (uint32ToIP 3323068418) = Some (''a'', ())"
proof -
  let ?es = "[OpSet (ipv4 10 0 0 1) ''a'' ()]"
  have "\<forall>e \<in> set ?es. outside_range (minIP sample_pool) (maxIP sample_pool) e"
    by (simp add: sample_pool_def word_less_nat_alt unat_be32 unat_be16)
  moreover obtain t where "run_ops pool_step ?es sample_pool1 = Some t"
    by (simp add: SetIPDomain_def)
  ultimately show ?thesis
    using fake_ip_is_stable [OF sample_pool_exclusive sample_pool_first ip_u32_uint32ToIP
        sample_pool_range] by fastforce
qed

text \<open>Two different domains never share a fake address, however many operations outside the
  range lie between the two requests.\<close>

theorem fake_ips_are_distinct:
  assumes "pool_exclusive p" and "GenerateIP p d1 r1 = Some (x1, q)"
    and "ip_u32 x1 = Some u1" "minIP p \<le> u1" "u1 \<le> maxIP p"
    and "\<forall>e \<in> set es. outside_range (minIP p) (maxIP p) e"
    and "run_ops pool_step es q = Some t"
    and "GenerateIP t d2 r2 = Some (x2, z)" and "d1 \<noteq> d2"
  shows "x1 \<noteq> x2"
proof
  assume eq: "x1 = x2"
  have q: "pool_exclusive q" "pool_extends p q" using GenerateIP_exclusive [OF assms(1,2)] by auto
  then have m: "minIP q = minIP p" "maxIP q = maxIP p" by (simp_all add: pool_extends_def)
  then have t: "pool_exclusive t" "pool_extends q t"
    using pool_run_exclusive [OF q(1) _ assms(7)] assms(6) by simp_all
  then have mt: "minIP t = minIP p" "maxIP t = maxIP p" using m by (simp_all add: pool_extends_def)
  have z: "pool_extends t z" using GenerateIP_exclusive [OF t(1) assms(8)] by simp
  have n1: "pool_issued q u1" "\<exists>res. GetDomain q x1 = Some (d1, res)"
    using GenerateIP_names [OF assms(1-5)] by auto
  have n2: "\<exists>res. GetDomain z x2 = Some (d2, res)"
    using GenerateIP_names [OF t(1) assms(8)] assms(3-5) mt eq by auto
  have "GetDomain z x1 = GetDomain q x1"
    using n1(1) t(2) z assms(3) by (simp add: GetDomain_def pool_extends_def)
  with n1(2) n2 eq assms(9) show False by auto
qed

theorem fake_ips_are_distinct_witness:
  "\<exists>x z. GenerateIP sample_pool1 ''b'' () = Some (x, z) \<and> uint32ToIP 3323068418 \<noteq> x"
proof -
  obtain x z where g: "GenerateIP sample_pool1 ''b'' () = Some (x, z)"
    by (simp add: GenerateIP_def sample_pool1_def mget_def Let_def)
  have "uint32ToIP 3323068418 \<noteq> x"
    by (rule fake_ips_are_distinct [OF sample_pool_exclusive sample_pool_first ip_u32_uint32ToIP
        sample_pool_range _ _ g, of "[]"]) simp_all
  with g show ?thesis by blast
qed

lemma generate_run_iff:
  assumes "pool_inv p" "distinct ds" "\<forall>d \<in> set ds. mget (domainToIP p) d = None"
  shows "run_ops pool_step (map (\<lambda>d. OpGenerate d r) ds) p \<noteq> None
     \<longleftrightarrow> unat (currentIP p) + length ds \<le> Suc (unat (maxIP p))"
  using assms
proof (induction ds arbitrary: p)
  case Nil
  then show ?case by (simp add: pool_inv_def)
next
  case (Cons d ds)
  have none: "mget (domainToIP p) d = None" using Cons.prems by simp
  show ?case
  proof (cases "maxIP p < currentIP p")
    case True
    then have "GenerateIP p d r = None" using none by (simp add: GenerateIP_def)
    then show ?thesis using True by (simp add: word_less_nat_alt)
  next
    case False
    then obtain x q where g: "GenerateIP p d r = Some (x, q)"
      and q: "domainToIP q = mset d \<lparr>ipUint = currentIP p, edomain = d, eresource = r\<rparr> (domainToIP p)"
        "currentIP q = currentIP p + 1" "maxIP q = maxIP p"
      using none by (simp add: GenerateIP_def Let_def)
    have "unat (currentIP p + 1) = Suc (unat (currentIP p))"
      using Cons.prems(1) u32_next_le(1) [of "maxIP p" "currentIP p"] False
      by (simp add: pool_inv_def)
    moreover have "\<forall>e \<in> set ds. mget (domainToIP q) e = None" using Cons.prems q by auto
    ultimately show ?thesis
      using Cons.IH [OF GenerateIP_inv [OF Cons.prems(1) g]] Cons.prems g q by simp
  qed
qed

text \<open>The default pool \<open>198.18.0.0/16\<close> serves 65534 distinct domains, and the next request
  for a new domain panics.\<close>

theorem default_pool_capacity:
  assumes "NewIPPool ''198.18.0.0/16'' = Some p" and "distinct ds"
  shows "run_ops pool_step (map (\<lambda>d. OpGenerate d r) ds) p \<noteq> None \<longleftrightarrow> length ds \<le> 65534"
proof -
  have p: "p = \<lparr>domainToIP = [], ipToDomain = [], minIP = 3323068416,
      maxIP = 3323133951, currentIP = 3323068418\<rparr>"
    using assms(1) unfolding NewIPPool_default by (rule option.inject [THEN iffD1, symmetric])
  have "pool_inv p" using NewIPPool_default_exclusive [OF assms(1)] by (simp only: pool_exclusive_def)
  moreover have "\<forall>d \<in> set ds. mget (domainToIP p) d = None"
    unfolding p by (simp only: IPPool.simps mget_Nil) blast
  ultimately have iff: "run_ops pool_step (map (\<lambda>d. OpGenerate d r) ds) p \<noteq> None
      \<longleftrightarrow> unat (currentIP p) + length ds \<le> Suc (unat (maxIP p))"
    by (rule generate_run_iff [OF _ assms(2)])
  have "unat (currentIP p) = 3323068418" "unat (maxIP p) = 3323133951"
    unfolding p by simp_all
  then show ?thesis unfolding iff by linarith
qed

theorem default_pool_capacity_witness:
  "run_ops pool_step (map (\<lambda>d. OpGenerate d ()) [''a'', ''b'']) sample_pool \<noteq> None"
proof -
  have "NewIPPool ''198.18.0.0/16'' = Some sample_pool"
    by (simp only: NewIPPool_default sample_pool_def)
  from default_pool_capacity [OF this, of "[''a'', ''b'']" "()"] show ?thesis by simp
qed

end
