(* ===== verification/PacketMeta.thy ===== *)
theory PacketMeta
  imports Zctcpip
begin

text \<open>
  The flow of a packet in the aTrust L3 tunnel: \<open>packetMeta\<close> of
  \<open>client/atrust/l3tunnelconn.go\<close> with its wire form and its conntrack key, and
  \<open>buildPacketMeta\<close> of \<open>l3tunnelpacket.go\<close>. The outer \<open>option\<close> is a Go panic.
\<close>

record packetMeta =
  atype :: int
  mproto :: int
  srcIP :: ip
  dstIP :: ip
  srcPort :: u16
  dstPort :: u16
  mkey :: string

definition no_meta :: packetMeta where
  "no_meta = \<lparr>atype = 0, mproto = 0, srcIP = [], dstIP = [], srcPort = 0, dstPort = 0, mkey = []\<rparr>"

datatype meta_error = InvalidIPv4Addr | MetaTooShort | MetaIPv4TooShort | MetaIPv6TooShort
  | PayloadTooShort | MetaLengthZero | MetaOverflow | UnsupportedProtocol byte

definition encodeMeta :: "packetMeta \<Rightarrow> meta_error + bytes" where
  "encodeMeta m =
     (let src = to4 (srcIP m); dst = to4 (dstIP m)
      in if atype m = 4 \<and> (src = [] \<or> dst = []) then Inl InvalidIPv4Addr
         else Inr ([word_of_int (atype m), word_of_int (mproto m)]
           @ (if atype m = 4 then src @ dst else to16 (srcIP m) @ to16 (dstIP m))
           @ bytes16 (srcPort m) @ bytes16 (dstPort m)))"

definition decodeMeta :: "bytes \<Rightarrow> (meta_error + packetMeta) option" where
  "decodeMeta b =
     (if length b < 2 then Some (Inl MetaTooShort)
      else do {
        a \<leftarrow> idx b 0;
        pr \<leftarrow> idx b 1;
        let m = no_meta\<lparr>atype := uint a, mproto := uint pr\<rparr>;
        if uint a = 4 then
          if length b < 2 + 8 + 4 then Some (Inl MetaIPv4TooShort)
          else do {
            src \<leftarrow> ip_at b 2;
            dst \<leftarrow> ip_at b 6;
            sp \<leftarrow> be16_at b 10;
            dp \<leftarrow> be16_at b 12;
            Some (Inr (m\<lparr>srcIP := src, dstIP := dst, srcPort := sp, dstPort := dp\<rparr>))
          }
        else
          if length b < 2 + 32 + 4 then Some (Inl MetaIPv6TooShort)
          else do {
            src \<leftarrow> slice b 2 18;
            dst \<leftarrow> slice b 18 34;
            sp \<leftarrow> be16_at b 34;
            dp \<leftarrow> be16_at b 36;
            Some (Inr (m\<lparr>srcIP := src, dstIP := dst, srcPort := sp, dstPort := dp\<rparr>))
          }
      })"

definition parseDataMeta :: "bytes \<Rightarrow> ((nat \<times> meta_error) + packetMeta \<times> nat) option" where
  "parseDataMeta p =
     (if length p < 1 then Some (Inl (0, PayloadTooShort))
      else do {
        l \<leftarrow> idx p 0;
        let metaLen = unat l;
        if metaLen = 0 then Some (Inl (0, MetaLengthZero))
        else if length p < 1 + metaLen then Some (Inl (metaLen, MetaOverflow))
        else do {
          b \<leftarrow> slice p 1 (1 + metaLen);
          r \<leftarrow> decodeMeta b;
          Some (case r of Inl e \<Rightarrow> Inl (metaLen, e) | Inr m \<Rightarrow> Inr (m, metaLen))
        }
      })"

definition protoName :: "int \<Rightarrow> string" where
  "protoName p =
     (if p = 6 then ''tcp'' else if p = 17 then ''udp'' else if p = 1 then ''icmp''
      else if p = 58 then ''icmp6'' else ''ip'')"

definition authIPType :: "int \<Rightarrow> int" where
  "authIPType a = (if a = 6 then 0x86DD else 0x0800)"

definition connTrackKey :: "packetMeta \<Rightarrow> string" where
  "connTrackKey m =
     show_int (atype m) @ '':'' @ show_int (mproto m) @ '':'' @ ip_string (srcIP m) @ '':''
       @ dec (unat (srcPort m)) @ ''-'' @ ip_string (dstIP m) @ '':'' @ dec (unat (dstPort m))"

definition buildPacketMeta :: "bytes \<Rightarrow> (meta_error + packetMeta) option" where
  "buildPacketMeta p =
     do {
       pr \<leftarrow> Protocol p;
       if pr = ICMP then do {
         src \<leftarrow> SourceIP p;
         dst \<leftarrow> DestinationIP p;
         Some (Inr \<lparr>atype = 4, mproto = uint pr, srcIP = src, dstIP = dst, srcPort = 0,
           dstPort = 0, mkey = []\<rparr>)
       }
       else do {
         ports \<leftarrow>
           (if pr = TCP then do {
              t \<leftarrow> Payload p;
              sp \<leftarrow> SourcePort t;
              dp \<leftarrow> DestinationPort t;
              Some (Some (sp, dp))
            }
            else if pr = UDP then do {
              u \<leftarrow> Payload p;
              sp \<leftarrow> UDP_SourcePort u;
              dp \<leftarrow> UDP_DestinationPort u;
              Some (Some (sp, dp))
            }
            else Some None);
         (case ports of
            None \<Rightarrow> Some (Inl (UnsupportedProtocol pr))
          | Some (sp, dp) \<Rightarrow> do {
              src \<leftarrow> SourceIP p;
              dst \<leftarrow> DestinationIP p;
              Some (Inr \<lparr>atype = 4, mproto = uint pr, srcIP = src, dstIP = dst, srcPort = sp,
                dstPort = dp, mkey = []\<rparr>)
            })
       }
     }"

definition formatMeta :: "packetMeta \<Rightarrow> string" where
  "formatMeta m =
     ''atype='' @ show_int (atype m) @ '' proto='' @ protoName (mproto m) @ '' ''
       @ ip_string (srcIP m) @ '':'' @ dec (unat (srcPort m)) @ '' -> ''
       @ ip_string (dstIP m) @ '':'' @ dec (unat (dstPort m))"

section \<open>The wire form\<close>

lemma to16_of_to4: "to4 x = [a, b, c, d] \<Longrightarrow> to16 x = ipv4 a b c d"
  by (auto simp: to4_def to16_def ipv4_def split: if_splits)
    (metis append.assoc append_take_drop_id append_Cons append_Nil)

lemma length_to16: "length x = 4 \<or> length x = 16 \<Longrightarrow> length (to16 x) = 16"
  by (auto simp: to16_def)

definition meta_sized :: "packetMeta \<Rightarrow> bool" where
  "meta_sized m \<longleftrightarrow> 0 \<le> atype m \<and> atype m < 256 \<and> 0 \<le> mproto m \<and> mproto m < 256
     \<and> length (srcIP m) \<in> {4, 16} \<and> length (dstIP m) \<in> {4, 16}"

definition meta_normal :: "packetMeta \<Rightarrow> packetMeta" where
  "meta_normal m = m\<lparr>srcIP := to16 (srcIP m), dstIP := to16 (dstIP m), mkey := []\<rparr>"

lemma uint_byte_of_int: "0 \<le> i \<Longrightarrow> i < 256 \<Longrightarrow> uint (word_of_int i :: byte) = i"
  by (simp add: unsigned_of_int take_bit_eq_mod)

lemma slice_append: "slice (xs @ ys @ zs) (length xs) (length xs + length ys) = Some ys"
  by (simp add: slice_def)

lemma decode_encode_v4:
  assumes "encodeMeta m = Inr b" "meta_sized m" "atype m = 4"
  shows "decodeMeta b = Some (Inr (meta_normal m)) \<and> length b = 14"
proof -
  from assms obtain a1 b1 c1 d1 where s: "to4 (srcIP m) = [a1, b1, c1, d1]"
    by (auto simp: encodeMeta_def Let_def split: if_splits elim: to4_cases)
  from assms obtain a2 b2 c2 d2 where d: "to4 (dstIP m) = [a2, b2, c2, d2]"
    by (auto simp: encodeMeta_def Let_def split: if_splits elim: to4_cases)
  have b: "b = [4, word_of_int (mproto m), a1, b1, c1, d1, a2, b2, c2, d2, hi8 (srcPort m),
      lo8 (srcPort m), hi8 (dstPort m), lo8 (dstPort m)]"
    using assms(1,3) by (simp add: encodeMeta_def s d bytes16_def)
  have p: "uint (word_of_int (mproto m) :: byte) = mproto m"
    using assms(2) by (simp add: meta_sized_def uint_byte_of_int)
  show ?thesis
    using p assms(3) to16_of_to4 [OF s] to16_of_to4 [OF d]
    by (simp add: decodeMeta_def b idx_def ip_at_def be16_at_def meta_normal_def no_meta_def)
qed

lemma decode_encode_v6:
  assumes "encodeMeta m = Inr b" "meta_sized m" "atype m \<noteq> 4"
  shows "decodeMeta b = Some (Inr (meta_normal m)) \<and> length b = 38"
proof -
  let ?s = "to16 (srcIP m)" and ?d = "to16 (dstIP m)"
  have l: "length ?s = 16" "length ?d = 16" using assms(2) by (simp_all add: meta_sized_def length_to16)
  define hd2 where "hd2 = [word_of_int (atype m), word_of_int (mproto m) :: byte]"
  have b: "b = hd2 @ ?s @ ?d @ [hi8 (srcPort m), lo8 (srcPort m), hi8 (dstPort m), lo8 (dstPort m)]"
    using assms(1,3) by (simp add: encodeMeta_def bytes16_def hd2_def)
  have len: "length hd2 = 2" by (simp add: hd2_def)
  have u: "uint (word_of_int (mproto m) :: byte) = mproto m" "uint (word_of_int (atype m) :: byte) = atype m"
    using assms(2) by (simp_all add: meta_sized_def uint_byte_of_int)
  have "slice b 2 18 = Some ?s" using slice_append [of hd2 ?s] l len by (simp add: b)
  moreover have "slice b 18 34 = Some ?d"
    using slice_append [of "hd2 @ ?s" ?d] l len by (simp add: b)
  moreover have "be16_at b 34 = Some (srcPort m)" "be16_at b 36 = Some (dstPort m)"
    using l len by (simp_all add: b be16_at_def idx_def nth_append)
  moreover have "idx b 0 = Some (word_of_int (atype m))" "idx b 1 = Some (word_of_int (mproto m))"
    by (simp_all add: b idx_def hd2_def)
  ultimately show ?thesis
    using u assms(3) l len
    by (simp add: decodeMeta_def meta_normal_def no_meta_def b)
qed

lemma decode_encode:
  "encodeMeta m = Inr b \<Longrightarrow> meta_sized m \<Longrightarrow> decodeMeta b = Some (Inr (meta_normal m)) \<and> length b \<in> {14, 38}"
  using decode_encode_v4 decode_encode_v6 by (cases "atype m = 4") auto

lemma decodeMeta_total: "decodeMeta b \<noteq> None"
  by (auto simp: decodeMeta_def go_defs ip_at_def Let_def)

lemma parseDataMeta_total: "parseDataMeta p \<noteq> None"
  using decodeMeta_total
  by (simp add: parseDataMeta_def go_defs Let_def Option.bind_eq_None_conv del: not_None_eq)

section \<open>Flow keys\<close>

lemma to4_equal_iff:
  assumes "to4 x \<noteq> []" "to4 y \<noteq> []"
  shows "ip_equal x y \<longleftrightarrow> to4 x = to4 y"
  using assms by (auto simp: ip_equal_def to4_def split: if_splits)
    (metis append_take_drop_id)+

definition flow_v4 :: "packetMeta \<Rightarrow> bool" where
  "flow_v4 m \<longleftrightarrow> 0 \<le> atype m \<and> 0 \<le> mproto m \<and> to4 (srcIP m) \<noteq> [] \<and> to4 (dstIP m) \<noteq> []"

definition same_flow :: "packetMeta \<Rightarrow> packetMeta \<Rightarrow> bool" where
  "same_flow m n \<longleftrightarrow> atype m = atype n \<and> mproto m = mproto n \<and> ip_equal (srcIP m) (srcIP n)
     \<and> srcPort m = srcPort n \<and> ip_equal (dstIP m) (dstIP n) \<and> dstPort m = dstPort n"

lemma ip_string_to4: "to4 x \<noteq> [] \<Longrightarrow> ip_string x = ip_string (to4 x)"
  by (auto simp: ip_string_def to4_def split: if_splits)

lemma connTrackKey_inject:
  assumes "flow_v4 m" "flow_v4 n"
  shows "connTrackKey m = connTrackKey n \<longleftrightarrow> same_flow m n"
proof -
  obtain a1 b1 c1 d1 where s1: "to4 (srcIP m) = [a1, b1, c1, d1]"
    using assms(1) by (auto simp: flow_v4_def elim: to4_cases)
  obtain a2 b2 c2 d2 where s2: "to4 (dstIP m) = [a2, b2, c2, d2]"
    using assms(1) by (auto simp: flow_v4_def elim: to4_cases)
  obtain a3 b3 c3 d3 where s3: "to4 (srcIP n) = [a3, b3, c3, d3]"
    using assms(2) by (auto simp: flow_v4_def elim: to4_cases)
  obtain a4 b4 c4 d4 where s4: "to4 (dstIP n) = [a4, b4, c4, d4]"
    using assms(2) by (auto simp: flow_v4_def elim: to4_cases)
  have str: "ip_string (srcIP m) = ip_string [a1, b1, c1, d1]" "ip_string (dstIP m) = ip_string [a2, b2, c2, d2]"
    "ip_string (srcIP n) = ip_string [a3, b3, c3, d3]" "ip_string (dstIP n) = ip_string [a4, b4, c4, d4]"
    using ip_string_to4 s1 s2 s3 s4 by (metis list.distinct(1))+
  have eq: "ip_equal (srcIP m) (srcIP n) \<longleftrightarrow> [a1, b1, c1, d1] = [a3, b3, c3, d3]"
    "ip_equal (dstIP m) (dstIP n) \<longleftrightarrow> [a2, b2, c2, d2] = [a4, b4, c4, d4]"
    using to4_equal_iff s1 s2 s3 s4 by (metis list.distinct(1))+
  have sh: "show_int (atype m) = dec (nat (atype m))" "show_int (mproto m) = dec (nat (mproto m))"
    "show_int (atype n) = dec (nat (atype n))" "show_int (mproto n) = dec (nat (mproto n))"
    using assms by (simp_all add: flow_v4_def show_int_nonneg)
  show ?thesis
  proof
    assume k: "connTrackKey m = connTrackKey n"
    note ds = dec_digits
    have e1: "dec (nat (atype m)) @ CHR '':'' # (dec (nat (mproto m)) @ CHR '':'' # (ip_string [a1, b1, c1, d1] @ CHR '':'' #
        (dec (unat (srcPort m)) @ CHR ''-'' # (ip_string [a2, b2, c2, d2] @ CHR '':'' # dec (unat (dstPort m))))))
      = dec (nat (atype n)) @ CHR '':'' # (dec (nat (mproto n)) @ CHR '':'' # (ip_string [a3, b3, c3, d3] @ CHR '':'' #
        (dec (unat (srcPort n)) @ CHR ''-'' # (ip_string [a4, b4, c4, d4] @ CHR '':'' # dec (unat (dstPort n))))))"
      using k by (simp add: connTrackKey_def str sh)
    note 1 = digits_sep_inject [OF ds ds dot_not_digit(2) e1]
    note 2 = digits_sep_inject [OF ds ds dot_not_digit(2) conjunct2 [OF 1]]
    note 3 = dotted_inject [OF conjunct2 [OF 2]]
    note 4 = digits_sep_inject [OF ds ds dot_not_digit(3) conjunct2 [OF 3]]
    note 5 = dotted_inject [OF conjunct2 [OF 4]]
    have "nat (atype m) = nat (atype n)" "nat (mproto m) = nat (mproto n)"
      "unat (srcPort m) = unat (srcPort n)" "unat (dstPort m) = unat (dstPort n)"
      using 1 2 4 5 by (simp_all add: dec_inject)
    then show "same_flow m n"
      using 3 5 assms by (simp add: same_flow_def eq flow_v4_def word_unat_eq_iff eq_nat_nat_iff)
  next
    assume "same_flow m n"
    then show "connTrackKey m = connTrackKey n"
      by (simp add: same_flow_def connTrackKey_def str eq)
  qed
qed

section \<open>The flow of a packet\<close>

lemma Payload_of_valid:
  assumes "IPv4_Valid p = Some True"
  shows "\<exists>d. Payload p = Some d" "Protocol p = Some (p ! 9)"
    "SourceIP p = Some (ipv4 (p ! 12) (p ! 13) (p ! 14) (p ! 15))"
    "DestinationIP p = Some (ipv4 (p ! 16) (p ! 17) (p ! 18) (p ! 19))"
proof -
  have l: "20 \<le> length p" "unat (p ! 0) mod 16 * 4 \<le> unat (be16 (p ! 2) (p ! 3))"
    "unat (be16 (p ! 2) (p ! 3)) \<le> length p"
    using assms unat_len16_le [of p] by (auto simp: IPv4_Valid_iff)
  moreover from l(1) have "p \<noteq> []" by auto
  ultimately show "\<exists>d. Payload p = Some d"
    by (simp add: Payload_def HeaderLen_def TotalLen_def idx_def be16_at_eq slice_def unat_ihl
        numeral_2_eq_2 numeral_3_eq_3)
  show "Protocol p = Some (p ! 9)" using l by (simp add: Protocol_def idx_def)
  show "SourceIP p = Some (ipv4 (p ! 12) (p ! 13) (p ! 14) (p ! 15))"
    "DestinationIP p = Some (ipv4 (p ! 16) (p ! 17) (p ! 18) (p ! 19))"
    using l by (simp_all add: SourceIP_def DestinationIP_def ip_at_def idx_def)
qed

definition l4_payload :: "bytes \<Rightarrow> bytes" where
  "l4_payload p = (case Payload p of Some d \<Rightarrow> d | None \<Rightarrow> [])"

definition ref_meta :: "bytes \<Rightarrow> packetMeta" where
  "ref_meta p = \<lparr>atype = 4, mproto = uint (p ! 9),
     srcIP = ipv4 (p ! 12) (p ! 13) (p ! 14) (p ! 15),
     dstIP = ipv4 (p ! 16) (p ! 17) (p ! 18) (p ! 19),
     srcPort = (if p ! 9 = ICMP then 0 else be16 (l4_payload p ! 0) (l4_payload p ! 1)),
     dstPort = (if p ! 9 = ICMP then 0 else be16 (l4_payload p ! 2) (l4_payload p ! 3)),
     mkey = []\<rparr>"

lemma buildPacketMeta_of_valid:
  assumes "IPv4_Valid p = Some True"
  shows "buildPacketMeta p =
    (if p ! 9 = ICMP then Some (Inr (ref_meta p))
     else if p ! 9 = TCP \<or> p ! 9 = UDP then
       (if length (l4_payload p) < 4 then None else Some (Inr (ref_meta p)))
     else Some (Inl (UnsupportedProtocol (p ! 9))))"
proof -
  obtain d where d: "Payload p = Some d" using Payload_of_valid(1) [OF assms] by blast
  then have l4: "l4_payload p = d" by (simp add: l4_payload_def)
  have neq: "ICMP \<noteq> TCP" "ICMP \<noteq> UDP" "TCP \<noteq> UDP" by (simp_all add: ICMP_def TCP_def UDP_def)
  have ports: "be16_at d 0 = (if length d < 2 then None else Some (be16 (d ! 0) (d ! 1)))"
    "be16_at d 2 = (if length d < 4 then None else Some (be16 (d ! 2) (d ! 3)))"
    by (auto simp: be16_at_def idx_def numeral_3_eq_3)
  show ?thesis
    using neq
    by (auto simp: buildPacketMeta_def Payload_of_valid [OF assms] d l4 ref_meta_def ports
        SourcePort_def DestinationPort_def UDP_SourcePort_def UDP_DestinationPort_def)
qed

section \<open>Properties\<close>

definition meta_dec :: "meta_error + bytes \<Rightarrow> packetMeta option" where
  "meta_dec e = (case e of Inl _ \<Rightarrow> None
     | Inr b \<Rightarrow> (case decodeMeta b of Some (Inr m) \<Rightarrow> Some m | _ \<Rightarrow> None))"

definition meta_ok :: "packetMeta \<Rightarrow> bool" where
  "meta_ok m \<longleftrightarrow> meta_sized m \<and> meta_normal m = m \<and> (\<exists>b. encodeMeta m = Inr b)"

interpretation meta_codec: codec encodeMeta meta_dec meta_ok
  by unfold_locales (auto simp: meta_dec_def meta_ok_def decode_encode)

text \<open>Decoding an encoded meta, also behind its length byte and before other data, gives back
  the meta with both addresses in the 16-byte form; the wire form takes 14 or 38 bytes.\<close>

lemma meta_roundtrip:
  assumes "encodeMeta m = Inr b" and "meta_sized m"
  shows "decodeMeta b = Some (Inr (meta_normal m))
    \<and> parseDataMeta (word_of_nat (length b) # b @ rest) = Some (Inr (meta_normal m, length b))
    \<and> length b = (if atype m = 4 then 14 else 38)"
proof -
  have d: "decodeMeta b = Some (Inr (meta_normal m))" "length b = (if atype m = 4 then 14 else 38)"
    using decode_encode_v4 [OF assms] decode_encode_v6 [OF assms] by auto
  have "unat (word_of_nat (length b) :: byte) = length b"
    by (rule unat_word_of_nat_small) (simp add: d)
  moreover have "slice (word_of_nat (length b) # b @ rest) 1 (1 + length b) = Some b"
    by (simp add: slice_def)
  moreover have "length b \<noteq> 0" using d by simp
  ultimately have "parseDataMeta (word_of_nat (length b) # b @ rest) = Some (Inr (meta_normal m, length b))"
    using d(1) by (simp add: parseDataMeta_def idx_def)
  with d show ?thesis by simp
qed

definition sample_meta :: packetMeta where
  "sample_meta = \<lparr>atype = 4, mproto = 6, srcIP = ipv4 10 0 0 1, dstIP = [10, 0, 0, 2],
     srcPort = 1234, dstPort = 80, mkey = []\<rparr>"

lemma meta_roundtrip_example:
  "\<exists>b. encodeMeta sample_meta = Inr b \<and> decodeMeta b = Some (Inr (meta_normal sample_meta))"
proof -
  obtain b where b: "encodeMeta sample_meta = Inr b"
    by (simp add: encodeMeta_def sample_meta_def)
  moreover have "meta_sized sample_meta" by (simp add: meta_sized_def sample_meta_def)
  ultimately show ?thesis using meta_roundtrip [of sample_meta b] by blast
qed

text \<open>Two IPv4 flows have the same conntrack key exactly when protocol, both addresses and both
  ports agree, so packets of different flows never share a conntrack.\<close>

lemma conntrack_keys_identify_flows:
  assumes "flow_v4 m" and "flow_v4 n"
  shows "connTrackKey m = connTrackKey n \<longleftrightarrow> same_flow m n"
  by (rule connTrackKey_inject [OF assms])

lemma conntrack_keys_identify_flows_example:
  "connTrackKey sample_meta \<noteq> connTrackKey (sample_meta\<lparr>dstPort := 81\<rparr>)"
  using conntrack_keys_identify_flows [of sample_meta "sample_meta\<lparr>dstPort := 81\<rparr>"]
  by (simp add: flow_v4_def sample_meta_def same_flow_def)

text \<open>On a packet accepted by \<open>Valid\<close>, \<open>buildPacketMeta\<close> reads the addresses, the protocol and
  the ports of the packet; it panics exactly on a TCP or UDP packet whose payload has fewer than
  four bytes.\<close>

theorem packet_meta_of_valid_packet:
  assumes "IPv4_Valid p = Some True"
  shows "buildPacketMeta p =
    (if p ! 9 = ICMP then Some (Inr (ref_meta p))
     else if p ! 9 = TCP \<or> p ! 9 = UDP then
       (if length (l4_payload p) < 4 then None else Some (Inr (ref_meta p)))
     else Some (Inl (UnsupportedProtocol (p ! 9))))"
  by (rule buildPacketMeta_of_valid [OF assms])

theorem packet_meta_of_valid_packet_witness:
  "buildPacketMeta [69, 0, 0, 20, 0, 1, 0, 0, 64, 6, 0, 0, 10, 0, 0, 1, 10, 0, 0, 2] = None"
proof -
  let ?p = "[69, 0, 0, 20, 0, 1, 0, 0, 64, 6, 0, 0, 10, 0, 0, 1, 10, 0, 0, 2] :: bytes"
  have "IPv4_Valid ?p = Some True" by code_simp
  moreover have "?p ! 9 = TCP" "?p ! 9 \<noteq> ICMP" "length (l4_payload ?p) < 4" by code_simp+
  ultimately show ?thesis using packet_meta_of_valid_packet [of ?p] by simp
qed

end
