(* ===== verification/L3Frames.thy ===== *)
theory L3Frames
  imports PacketMeta
begin

text \<open>
  The frames of the aTrust L3 tunnel (\<open>client/atrust/l3tunnelconn.go\<close>) and the handshake that
  reports the virtual address (\<open>ip.go\<close>). A connection is the list of the bytes it still has to
  deliver; a short read is EOF. The JSON decoder of \<open>encoding/json\<close> is an argument: it maps the
  payload to the code and the message of the response, \<open>None\<close> when the text does not parse.
  \<open>embedded\<close> says whether the process runs inside a host application; otherwise an invalid
  session ends the process (\<open>ProcessExit\<close>).
\<close>

definition l3Version :: byte where "l3Version = 0x05"
definition cmdAuthReq :: byte where "cmdAuthReq = 0x13"
definition cmdAuthResp :: byte where "cmdAuthResp = 0x93"
definition cmdDataReq :: byte where "cmdDataReq = 0x14"
definition cmdDataResp :: byte where "cmdDataResp = 0x94"
definition cmdHeartbeatReq :: byte where "cmdHeartbeatReq = 0x15"
definition cmdHeartbeatResp :: byte where "cmdHeartbeatResp = 0x95"
definition cmdSecondVipResp :: byte where "cmdSecondVipResp = 0x96"

lemmas cmd_defs = l3Version_def cmdAuthReq_def cmdAuthResp_def cmdDataReq_def cmdDataResp_def
  cmdHeartbeatReq_def cmdHeartbeatResp_def cmdSecondVipResp_def


section \<open>Data payloads\<close>

definition getDataPayload :: "string \<Rightarrow> bytes \<Rightarrow> bytes" where
  "getDataPayload token packet =
     [l3Version, cmdDataReq, word_of_nat (length token)] @ map of_char token
       @ [0x00, 0x00, 0x01] @ bytes16 (word_of_nat (length packet)) @ packet"

datatype payload_error = PayloadShort | TokenOverflow | PacketLengthOverflow | PacketDataOverflow

fun parse_packets :: "nat \<Rightarrow> bytes \<Rightarrow> nat \<Rightarrow> (payload_error + bytes list) option" where
  "parse_packets 0 p i = Some (Inr [])"
| "parse_packets (Suc n) p i =
     (if length p < i + 2 then Some (Inl PacketLengthOverflow)
      else do {
        l \<leftarrow> be16_at p i;
        let plen = unat l;
        if length p < i + 2 + plen then Some (Inl PacketDataOverflow)
        else do {
          pkt \<leftarrow> slice p (i + 2) (i + 2 + plen);
          r \<leftarrow> parse_packets n p (i + 2 + plen);
          Some (and_then r (\<lambda>pkts. Inr (pkt # pkts)))
        }
      })"

definition parseDataPayload :: "bytes \<Rightarrow> (payload_error + bytes list) option" where
  "parseDataPayload p =
     (if length p < 4 then Some (Inl PayloadShort)
      else do {
        t \<leftarrow> idx p 0;
        let i = 1 + unat t;
        if length p < i + 3 then Some (Inl TokenOverflow)
        else do {
          c \<leftarrow> idx p (i + 2);
          parse_packets (unat c) p (i + 3)
        }
      })"


section \<open>The packet stream of the server\<close>

datatype split_error = InvalidIPv4Length nat nat | UnexpectedIPVersion byte

text \<open>The length of the packet at the head of the stream; \<open>Inr None\<close> when more bytes are needed
  to know it.\<close>

definition head_packet_len :: "bytes \<Rightarrow> split_error + nat option" where
  "head_packet_len s =
     (let v = drop_bit 4 (s ! 0)
      in if v = 4 then
           if length s < 4 then Inr None
           else
             let headerLen = unat (s ! 0 AND 0x0f) * 4; packetLen = unat (be16 (s ! 2) (s ! 3))
             in if headerLen < 20 \<or> packetLen < headerLen
                then Inl (InvalidIPv4Length packetLen headerLen) else Inr (Some packetLen)
         else if v = 6 then
           if length s < 6 then Inr None else Inr (Some (40 + unat (be16 (s ! 4) (s ! 5))))
         else Inl (UnexpectedIPVersion v))"

lemma head_packet_len_pos: "head_packet_len s = Inr (Some n) \<Longrightarrow> 20 \<le> n"
  by (auto simp: head_packet_len_def Let_def split: if_splits)

function splitIncomingIPPackets :: "bytes \<Rightarrow> split_error + bytes list \<times> bytes" where
  "splitIncomingIPPackets s =
     (if s = [] then Inr ([], [])
      else (case head_packet_len s of
              Inl e \<Rightarrow> Inl e
            | Inr None \<Rightarrow> Inr ([], s)
            | Inr (Some n) \<Rightarrow>
                if length s < n then Inr ([], s)
                else and_then (splitIncomingIPPackets (drop n s)) (\<lambda>(ps, r). Inr (take n s # ps, r))))"
  by pat_completeness auto

termination
  by (relation "measure length") (auto dest: head_packet_len_pos)

declare splitIncomingIPPackets.simps [simp del]


section \<open>Frames\<close>

record frame =
  cmd :: byte
  status :: byte
  fpayload :: bytes

datatype frame_error = FrameIO io_error | UnexpectedVersion byte | UnexpectedCommand byte

definition frame_io :: "io_error + 'a \<Rightarrow> frame_error + 'a" where
  "frame_io r = (case r of Inl e \<Rightarrow> Inl (FrameIO e) | Inr a \<Rightarrow> Inr a)"

definition readDataRespPayload :: "bytes \<Rightarrow> frame_error + bytes \<times> bytes" where
  "readDataRespPayload r =
     and_then (frame_io (read_full 2 r)) (\<lambda>(l, r).
       frame_io (read_full (unat (be16 (l ! 0) (l ! 1))) r))"

definition readFrame :: "bytes \<Rightarrow> frame_error + frame \<times> bytes" where
  "readFrame r =
     and_then (frame_io (read_full 2 r)) (\<lambda>(hdr, r).
       if hdr ! 0 \<noteq> l3Version then Inl (UnexpectedVersion (hdr ! 0))
       else if hdr ! 1 = cmdAuthResp \<or> hdr ! 1 = cmdSecondVipResp then
         and_then (frame_io (read_full 3 r)) (\<lambda>(sl, r).
           and_then (frame_io (read_full (unat (be16 (sl ! 1) (sl ! 2))) r)) (\<lambda>(payload, r).
             Inr (\<lparr>cmd = hdr ! 1, status = sl ! 0, fpayload = payload\<rparr>, r)))
       else if hdr ! 1 = cmdDataResp \<or> hdr ! 1 = cmdHeartbeatResp then
         and_then (readDataRespPayload r) (\<lambda>(payload, r).
           Inr (\<lparr>cmd = hdr ! 1, status = 0, fpayload = payload\<rparr>, r))
       else Inl (UnexpectedCommand (hdr ! 1)))"

text \<open>\<open>sendAuthRequest\<close>'s framing of the request text, and the heartbeat frame.\<close>

definition auth_frame :: "bytes \<Rightarrow> bytes" where
  "auth_frame req = [l3Version, cmdAuthReq] @ bytes16 (word_of_nat (length req)) @ req"

definition heartbeat_frame :: bytes where
  "heartbeat_frame = [l3Version, cmdHeartbeatReq, 0x00, 0x00]"

section \<open>The tunnel handshake\<close>

definition wrapAuthReqData :: "bytes \<Rightarrow> byte \<Rightarrow> bytes" where
  "wrapAuthReqData payload addrType =
     [l3Version, 0x01, 0xD0] @ [0x53, 0x00] @ bytes16 (word_of_nat (length payload)) @ payload
       @ [0x05, 0x04, 0x00, addrType, 0x00, 0x00, 0x00, 0x00, 0x00, 0x00]"

datatype tunnel_error = TunnelIO io_error | WriteFailed | NoSID string
  | UnexpectedMethod byte byte | UnexpectedAuthVersion byte | BadResponseText
  | SessionInvalid int string | ProcessExit | AuthFailed int string | AuthStatus byte
  | VIPHeaderLength nat | VIPVersion byte | VIPStatus byte | VIPAddressType byte
  | NonIPv4VIP | VIPResponseLength nat | UnexpectedVIPResponse

definition tunnel_io :: "io_error + 'a \<Rightarrow> tunnel_error + 'a" where
  "tunnel_io r = (case r of Inl e \<Rightarrow> Inl (TunnelIO e) | Inr a \<Rightarrow> Inr a)"

definition parseInitialVIPHeader :: "bytes \<Rightarrow> tunnel_error + nat" where
  "parseInitialVIPHeader h =
     (if length h \<noteq> 4 then Inl (VIPHeaderLength (length h))
      else if h ! 0 \<noteq> l3Version then Inl (VIPVersion (h ! 0))
      else if h ! 1 \<noteq> 0 then Inl (VIPStatus (h ! 1))
      else if h ! 3 = 1 then Inr 6
      else if h ! 3 = 4 then Inr 18
      else if h ! 3 = 5 then Inr 22
      else Inl (VIPAddressType (h ! 3)))"

definition parseVirtualIPData :: "bytes \<Rightarrow> ip list" where
  "parseVirtualIPData d =
     (if length d = 6 then [ipv4 (d ! 0) (d ! 1) (d ! 2) (d ! 3)]
      else if length d = 18 then [take 16 d]
      else if length d = 22 then [ipv4 (d ! 0) (d ! 1) (d ! 2) (d ! 3), take 16 (drop 4 d)]
      else [])"

definition session_invalid_code :: "int \<Rightarrow> bool" where
  "session_invalid_code c \<longleftrightarrow> c = 10000004 \<or> c = 75500002"

text \<open>\<open>handleSessionInvalid\<close>: in an embedded process the error is returned, otherwise the process
  ends.\<close>

definition handleSessionInvalid :: "bool \<Rightarrow> int \<Rightarrow> string \<Rightarrow> tunnel_error" where
  "handleSessionInvalid embedded code msg = (if embedded then SessionInvalid code msg else ProcessExit)"

text \<open>The method selection and the header and body of the authentication response, shared by both
  readers: the status, the body and the rest of the input.\<close>

definition read_auth_response :: "bytes \<Rightarrow> tunnel_error + byte \<times> bytes \<times> bytes" where
  "read_auth_response r =
     and_then (tunnel_io (read_full 2 r)) (\<lambda>(method, r).
       if method ! 0 \<noteq> l3Version \<or> method ! 1 \<noteq> 0xD0 then Inl (UnexpectedMethod (method ! 0) (method ! 1))
       else and_then (tunnel_io (read_full 4 r)) (\<lambda>(hdr, r).
         if hdr ! 0 \<noteq> 0x53 then Inl (UnexpectedAuthVersion (hdr ! 0))
         else and_then (tunnel_io (read_full (unat (be16 (hdr ! 2) (hdr ! 3))) r)) (\<lambda>(payload, r).
           Inr (hdr ! 1, payload, r))))"

text \<open>The code of an authentication response.\<close>

definition check_auth_code :: "bool \<Rightarrow> (int \<times> string) option \<Rightarrow> tunnel_error + unit" where
  "check_auth_code embedded resp =
     (case resp of
        None \<Rightarrow> Inl BadResponseText
      | Some (code, msg) \<Rightarrow>
          if session_invalid_code code then Inl (handleSessionInvalid embedded code msg)
          else if code \<noteq> 0 then Inl (AuthFailed code msg)
          else Inr ())"

definition parseIPAuthResponse :: "(bytes \<Rightarrow> (int \<times> string) option) \<Rightarrow> bool \<Rightarrow> bytes \<Rightarrow> tunnel_error + unit" where
  "parseIPAuthResponse json embedded d = check_auth_code embedded (json d)"

text \<open>\<open>authTunnel\<close>: what it wrote, and the addresses it reported with the rest of the input.\<close>

definition authTunnel ::
  "(bytes \<Rightarrow> (int \<times> string) option) \<Rightarrow> (string \<Rightarrow> bytes) \<Rightarrow> bool \<Rightarrow> string + string \<Rightarrow> bool
     \<Rightarrow> bytes \<Rightarrow> bytes \<times> (tunnel_error + ip list \<times> bytes)" where
  "authTunnel json marshal embedded sid write_ok input =
     (case sid of
        Inl e \<Rightarrow> ([], Inl (NoSID e))
      | Inr s \<Rightarrow>
          (if \<not> write_ok then ([], Inl WriteFailed)
           else (wrapAuthReqData (marshal s) 1,
             and_then (read_auth_response input) (\<lambda>(st, payload, r).
               and_then (if payload = [] then Inr () else check_auth_code embedded (json payload)) (\<lambda>_.
                 if st \<noteq> 0 then Inl (AuthStatus st)
                 else and_then (tunnel_io (read_full 4 r)) (\<lambda>(vh, r).
                   and_then (parseInitialVIPHeader vh) (\<lambda>n.
                     and_then (tunnel_io (read_full n r)) (\<lambda>(vd, r).
                       Inr (parseVirtualIPData vd, r)))))))))"

definition parseIPv4VIPResponse :: "bytes \<Rightarrow> tunnel_error + ip" where
  "parseIPv4VIPResponse d =
     (if length d \<noteq> 6 then Inl (VIPResponseLength (length d))
      else if d ! 1 \<noteq> 0x01 then Inl UnexpectedVIPResponse
      else Inr (ipv4 (d ! 2) (d ! 3) (d ! 4) (d ! 5)))"

definition readIPTunnelResponses ::
  "(bytes \<Rightarrow> (int \<times> string) option) \<Rightarrow> bool \<Rightarrow> bytes \<Rightarrow> tunnel_error + ip \<times> bytes" where
  "readIPTunnelResponses json embedded input =
     and_then (read_auth_response input) (\<lambda>(st, payload, r).
       if st \<noteq> 0 then Inl (AuthStatus st)
       else and_then (parseIPAuthResponse json embedded payload) (\<lambda>_.
         and_then (tunnel_io (read_full 4 r)) (\<lambda>(vh, r).
           and_then (parseInitialVIPHeader vh) (\<lambda>n.
             if n \<noteq> 6 then Inl NonIPv4VIP
             else and_then (tunnel_io (read_full n r)) (\<lambda>(vd, r).
               Inr (ipv4 (vd ! 0) (vd ! 1) (vd ! 2) (vd ! 3), r))))))"

text \<open>\<open>extractVIPs\<close> on the decoded notification: the outer pair of address texts is used unless both
  are empty, then the pair in \<open>data\<close>.\<close>

definition extractVIPs :: "(bytes \<Rightarrow> ((string \<times> string) \<times> (string \<times> string)) option) \<Rightarrow> bytes \<Rightarrow> ip list" where
  "extractVIPs json payload =
     (case json payload of
        None \<Rightarrow> []
      | Some (outer, data) \<Rightarrow>
          (let (vip, vip6) = (if outer = ([], []) then data else outer);
               x = parse_ip vip; y = parse_ip vip6
           in (if x \<noteq> [] \<and> to4 x \<noteq> [] then [to4 x] else [])
              @ (if y \<noteq> [] \<and> to4 y = [] then [to16 y] else [])))"

fun firstNonEmpty :: "string list \<Rightarrow> string" where
  "firstNonEmpty [] = []"
| "firstNonEmpty (v # vs) = (if v \<noteq> [] then v else firstNonEmpty vs)"

definition langFromEnv :: "(string \<Rightarrow> string) \<Rightarrow> string" where
  "langFromEnv getenv =
     (let lang = firstNonEmpty (map getenv [''ZJU_CONNECT_LANG'', ''LC_ALL'', ''LC_MESSAGES'', ''LANG''])
      in if lang = [] then ''en-US''
         else
           let lang = replace_char (CHR ''_'') (CHR ''-'') (split_on (CHR ''.'') lang ! 0)
           in if length lang = 2 then to_lower lang @ ''-'' @ to_upper (to_lower lang)
              else (case split_on (CHR ''-'') lang of
                      [a, b] \<Rightarrow> to_lower a @ ''-'' @ to_upper b
                    | _ \<Rightarrow> lang))"

section \<open>Parsers of untrusted bytes\<close>

lemma slice_Some: "lo \<le> hi \<Longrightarrow> hi \<le> length xs \<Longrightarrow> slice xs lo hi = Some (take (hi - lo) (drop lo xs))"
  by (simp add: slice_def)

lemma parse_packets_total: "\<exists>r. parse_packets n p i = Some r"
proof (induction n arbitrary: i)
  case 0
  then show ?case by simp
next
  case (Suc n)
  show ?case
  proof (cases "length p < i + 2")
    case True
    then show ?thesis by simp
  next
    case False
    then have b: "be16_at p i = Some (be16 (p ! i) (p ! Suc i))" by (simp add: be16_at_eq)
    obtain r where "parse_packets n p (i + 2 + unat (be16 (p ! i) (p ! Suc i))) = Some r"
      using Suc.IH by blast
    then show ?thesis using False by (simp add: b slice_Some Let_def)
  qed
qed

lemma parseDataPayload_total: "\<exists>r. parseDataPayload p = Some r"
  using parse_packets_total by (auto simp: parseDataPayload_def idx_def)

lemma parse_packets_one:
  assumes "length packet \<le> 65535"
  shows "parse_packets 1 (pre @ bytes16 (word_of_nat (length packet)) @ packet) (length pre)
    = Some (Inr [packet])"
proof -
  let ?p = "pre @ bytes16 (word_of_nat (length packet)) @ packet"
  have "be16_at ?p (length pre) = Some (word_of_nat (length packet))"
    by (simp add: be16_at_eq bytes16_def nth_append)
  moreover have "unat (word_of_nat (length packet) :: u16) = length packet"
    by (rule unat_word_of_nat_small) (use assms in simp)
  ultimately show ?thesis
    by (simp add: slice_def bytes16_def)
qed

lemma data_payload_parse:
  assumes "length token \<le> 255" and "length packet \<le> 65535"
  shows "parseDataPayload (drop 2 (getDataPayload token packet)) = Some (Inr [packet])"
proof -
  let ?t = "map of_char token :: bytes" and ?n = "word_of_nat (length token) :: byte"
  let ?pre = "?n # ?t @ [0, 0, 1]"
  have n: "unat ?n = length token" by (rule unat_word_of_nat_small) (use assms in simp)
  have p: "drop 2 (getDataPayload token packet) = ?pre @ bytes16 (word_of_nat (length packet)) @ packet"
    by (simp add: getDataPayload_def)
  have "idx (?pre @ bytes16 (word_of_nat (length packet)) @ packet) (3 + length token) = Some 1"
    by (simp add: idx_def nth_append nth_Cons' )
  then show ?thesis
    using parse_packets_one [OF assms(2), of ?pre] n
    unfolding p by (simp add: parseDataPayload_def idx_def numeral_3_eq_3)
qed

section \<open>Splitting the packet stream\<close>

lemma head_packet_len_append:
  "s \<noteq> [] \<Longrightarrow> head_packet_len s \<noteq> Inr None \<Longrightarrow> head_packet_len (s @ t) = head_packet_len s"
  by (auto simp: head_packet_len_def Let_def nth_append split: if_splits)

lemma and_then_Inr [simp]: "and_then x Inr = x"
  by (cases x) auto

lemma and_then_assoc: "and_then (and_then x f) g = and_then x (\<lambda>a. and_then (f a) g)"
  by (cases x) auto

lemma split_append:
  "splitIncomingIPPackets (s @ t) =
     and_then (splitIncomingIPPackets s) (\<lambda>(ps, r).
       and_then (splitIncomingIPPackets (r @ t)) (\<lambda>(qs, r'). Inr (ps @ qs, r')))"
proof (induction s rule: splitIncomingIPPackets.induct)
  case (1 s)
  show ?case
  proof (cases "s = []")
    case True
    then show ?thesis by (simp add: splitIncomingIPPackets.simps [of "[]"])
  next
    case ne: False
    show ?thesis
    proof (cases "head_packet_len s")
      case (Inl e)
      then show ?thesis
        using ne head_packet_len_append [OF ne, of t]
        by (simp add: splitIncomingIPPackets.simps [of s] splitIncomingIPPackets.simps [of "s @ t"])
    next
      case (Inr opt)
      show ?thesis
      proof (cases "\<exists>n. opt = Some n \<and> n \<le> length s")
        case True
        then obtain n where n: "opt = Some n" "n \<le> length s" by blast
        then have h: "head_packet_len (s @ t) = Inr (Some n)"
          using Inr head_packet_len_append [OF ne, of t] by simp
        have "splitIncomingIPPackets (s @ t)
            = and_then (splitIncomingIPPackets (drop n s @ t)) (\<lambda>(ps, r). Inr (take n s # ps, r))"
          using n h ne by (subst splitIncomingIPPackets.simps) simp
        moreover have "splitIncomingIPPackets s
            = and_then (splitIncomingIPPackets (drop n s)) (\<lambda>(ps, r). Inr (take n s # ps, r))"
          using n Inr ne by (subst splitIncomingIPPackets.simps) simp
        moreover note "1" [OF ne Inr n(1)]
        ultimately show ?thesis
          using n(2) by (cases "splitIncomingIPPackets (drop n s)") (auto simp: and_then_assoc split_def)
      next
        case False
        then have "splitIncomingIPPackets s = Inr ([], s)"
          using Inr ne by (subst splitIncomingIPPackets.simps) (auto split: option.splits)
        then show ?thesis by simp
      qed
    qed
  qed
qed

text \<open>The stream handling of \<open>readLoop\<close>: every data frame's payload is appended to what was left.\<close>

fun feed_chunks :: "bytes \<Rightarrow> bytes list \<Rightarrow> split_error + bytes list \<times> bytes" where
  "feed_chunks st [] = Inr ([], st)"
| "feed_chunks st (c # cs) =
     and_then (splitIncomingIPPackets (st @ c)) (\<lambda>(ps, r).
       and_then (feed_chunks r cs) (\<lambda>(qs, r'). Inr (ps @ qs, r')))"

lemma split_rest: "splitIncomingIPPackets s = Inr (ps, r) \<Longrightarrow> splitIncomingIPPackets r = Inr ([], r)"
proof (induction s arbitrary: ps rule: splitIncomingIPPackets.induct)
  case (1 s)
  show ?case
  proof (cases "\<exists>n. s \<noteq> [] \<and> head_packet_len s = Inr (Some n) \<and> n \<le> length s")
    case True
    then obtain n where n: "s \<noteq> []" "head_packet_len s = Inr (Some n)" "n \<le> length s" by blast
    then obtain qs where "splitIncomingIPPackets (drop n s) = Inr (qs, r)"
      using "1.prems" by (subst (asm) splitIncomingIPPackets.simps) (auto simp: and_then_Inr_iff)
    then show ?thesis using "1.IH" [OF n(1,2) refl] n by simp
  next
    case False
    then have "r = s" using "1.prems"
      by (subst (asm) splitIncomingIPPackets.simps) (auto split: if_splits sum.splits option.splits)
    moreover have "splitIncomingIPPackets s = Inr ([], s)" using "1.prems" False
      by (subst splitIncomingIPPackets.simps, subst (asm) splitIncomingIPPackets.simps)
        (auto split: if_splits sum.splits option.splits)
    ultimately show ?thesis by simp
  qed
qed

lemma feed_chunks_split:
  "splitIncomingIPPackets st = Inr ([], st) \<Longrightarrow> feed_chunks st cs = splitIncomingIPPackets (st @ concat cs)"
proof (induction cs arbitrary: st)
  case Nil
  then show ?case by simp
next
  case (Cons c cs)
  show ?case
  proof (cases "splitIncomingIPPackets (st @ c)")
    case (Inl e)
    then show ?thesis using split_append [of "st @ c" "concat cs"] by simp
  next
    case (Inr pr)
    obtain ps r where pr: "pr = (ps, r)" by fastforce
    have "feed_chunks r cs = splitIncomingIPPackets (r @ concat cs)"
      using Cons.IH split_rest Inr pr by simp
    then show ?thesis using split_append [of "st @ c" "concat cs"] Inr pr by simp
  qed
qed

definition packet_ok :: "bytes \<Rightarrow> bool" where
  "packet_ok p \<longleftrightarrow> p \<noteq> [] \<and> head_packet_len p = Inr (Some (length p))"

lemma split_packet_append:
  "packet_ok p \<Longrightarrow> splitIncomingIPPackets (p @ s)
     = and_then (splitIncomingIPPackets s) (\<lambda>(ps, r). Inr (p # ps, r))"
  using head_packet_len_append [of p s]
  by (subst splitIncomingIPPackets.simps) (simp add: packet_ok_def)

lemma split_packets: "list_all packet_ok ps \<Longrightarrow> splitIncomingIPPackets (concat ps) = Inr (ps, [])"
  by (induction ps) (auto simp: split_packet_append splitIncomingIPPackets.simps [of "[]"])

lemma head_packet_len_take:
  "head_packet_len s = Inr (Some n) \<Longrightarrow> n \<le> length s \<Longrightarrow> head_packet_len (take n s) = Inr (Some n)"
  using head_packet_len_pos [of s n]
  by (auto simp: head_packet_len_def Let_def split: if_splits)

lemma split_partition:
  "splitIncomingIPPackets s = Inr (ps, r) \<Longrightarrow> s = concat ps @ r \<and> list_all packet_ok ps"
proof (induction s arbitrary: ps rule: splitIncomingIPPackets.induct)
  case (1 s)
  show ?case
  proof (cases "\<exists>n. s \<noteq> [] \<and> head_packet_len s = Inr (Some n) \<and> n \<le> length s")
    case True
    then obtain n where n: "s \<noteq> []" "head_packet_len s = Inr (Some n)" "n \<le> length s" by blast
    then obtain qs where q: "splitIncomingIPPackets (drop n s) = Inr (qs, r)" "ps = take n s # qs"
      using "1.prems" by (subst (asm) splitIncomingIPPackets.simps) (auto simp: and_then_Inr_iff)
    then have "drop n s = concat qs @ r \<and> list_all packet_ok qs" using "1.IH" [OF n(1,2) refl] n by simp
    moreover have "packet_ok (take n s)"
      using n head_packet_len_take head_packet_len_pos [OF n(2)] by (simp add: packet_ok_def)
    ultimately show ?thesis using q(2) by simp (metis append_take_drop_id)
  next
    case False
    then show ?thesis using "1.prems"
      by (subst (asm) splitIncomingIPPackets.simps) (auto split: if_splits sum.splits option.splits)
  qed
qed

section \<open>Frames of the server\<close>

text \<open>The wire form of the frames the server sends.\<close>

definition has_status :: "byte \<Rightarrow> bool" where
  "has_status c \<longleftrightarrow> c = cmdAuthResp \<or> c = cmdSecondVipResp"

definition server_frame :: "frame \<Rightarrow> bytes" where
  "server_frame f = [l3Version, cmd f] @ (if has_status (cmd f) then [status f] else [])
     @ bytes16 (word_of_nat (length (fpayload f))) @ fpayload f"

definition frame_ok :: "frame \<Rightarrow> bool" where
  "frame_ok f \<longleftrightarrow> length (fpayload f) < 65536
     \<and> (has_status (cmd f) \<or> (cmd f = cmdDataResp \<or> cmd f = cmdHeartbeatResp) \<and> status f = 0)"

lemma frame_io_Inr_iff [simp]: "frame_io x = Inr a \<longleftrightarrow> x = Inr a"
  by (cases x) (auto simp: frame_io_def)

lemma be16_bytes16:
  "length p < 65536 \<Longrightarrow> unat (word_of_nat (length p) :: u16) = length p"
  by (rule unat_word_of_nat_small) simp

lemma two_bytes:
  assumes "length l = 2"
  shows "l = bytes16 (be16 (l ! 0) (l ! 1))"
  using assms by (auto simp: bytes16_def numeral_2_eq_2 length_Suc_conv)

lemma word_of_length: "length p = unat (w :: u16) \<Longrightarrow> word_of_nat (length p) = w"
  by simp

lemma readDataRespPayload_iff:
  "readDataRespPayload r = Inr (p, r') \<longleftrightarrow>
     length p < 65536 \<and> r = bytes16 (word_of_nat (length p)) @ p @ r'"
proof
  assume "readDataRespPayload r = Inr (p, r')"
  then obtain l where l: "r = l @ p @ r'" "length l = 2" "length p = unat (be16 (l ! 0) (l ! 1))"
    by (auto simp: readDataRespPayload_def and_then_Inr_iff read_full_Inr_iff)
  then show "length p < 65536 \<and> r = bytes16 (word_of_nat (length p)) @ p @ r'"
    using two_bytes [OF l(2)] word_of_length [OF l(3)] unat_u16_bound [of "be16 (l ! 0) (l ! 1)"] by simp
next
  assume "length p < 65536 \<and> r = bytes16 (word_of_nat (length p)) @ p @ r'"
  then show "readDataRespPayload r = Inr (p, r')"
    by (simp add: readDataRespPayload_def frame_io_def be16_bytes16)
      (simp add: bytes16_def be16_bytes16)
qed

lemma readFrame_server:
  assumes "frame_ok f"
  shows "readFrame (server_frame f @ r) = Inr (f, r)"
proof -
  have d: "readDataRespPayload (bytes16 (word_of_nat (length (fpayload f))) @ fpayload f @ r) = Inr (fpayload f, r)"
    using assms by (simp add: readDataRespPayload_iff frame_ok_def)
  have u: "unat (word_of_nat (length (fpayload f)) :: u16) = length (fpayload f)"
    using assms by (simp add: be16_bytes16 frame_ok_def)
  have fr: "read_full 2 (server_frame f @ r)
      = Inr ([l3Version, cmd f], drop 2 (server_frame f @ r))"
    by (simp add: server_frame_def read_full_def)
  show ?thesis
  proof (cases "has_status (cmd f)")
    case True
    then have "read_full 3 (drop 2 (server_frame f @ r))
      = Inr (status f # bytes16 (word_of_nat (length (fpayload f))), fpayload f @ r)"
      by (simp add: server_frame_def read_full_def bytes16_def)
    then show ?thesis using True fr u
      by (auto simp: readFrame_def frame_io_def has_status_def bytes16_def)
  next
    case False
    then have "drop 2 (server_frame f @ r)
      = bytes16 (word_of_nat (length (fpayload f))) @ fpayload f @ r" by (simp add: server_frame_def)
    moreover have "cmd f = cmdDataResp \<or> cmd f = cmdHeartbeatResp" "status f = 0"
      using False assms by (auto simp: frame_ok_def)
    ultimately show ?thesis using False fr d
      by (auto simp: readFrame_def frame_io_def has_status_def)
  qed
qed

lemma three_bytes:
  assumes "length l = 3"
  shows "l = l ! 0 # bytes16 (be16 (l ! 1) (l ! 2))"
  using assms by (auto simp: bytes16_def numeral_3_eq_3 numeral_2_eq_2 length_Suc_conv)

lemma readFrame_server_frame:
  assumes "readFrame r = Inr (f, r')"
  shows "frame_ok f \<and> r = server_frame f @ r'"
proof -
  obtain hdr t where hdr: "r = hdr @ t" "length hdr = 2" "hdr ! 0 = l3Version"
    and rest: "(if hdr ! 1 = cmdAuthResp \<or> hdr ! 1 = cmdSecondVipResp then
         and_then (frame_io (read_full 3 t)) (\<lambda>(sl, r).
           and_then (frame_io (read_full (unat (be16 (sl ! 1) (sl ! 2))) r)) (\<lambda>(payload, r).
             Inr (\<lparr>cmd = hdr ! 1, status = sl ! 0, fpayload = payload\<rparr>, r)))
       else if hdr ! 1 = cmdDataResp \<or> hdr ! 1 = cmdHeartbeatResp then
         and_then (readDataRespPayload t) (\<lambda>(payload, r).
           Inr (\<lparr>cmd = hdr ! 1, status = 0, fpayload = payload\<rparr>, r))
       else Inl (UnexpectedCommand (hdr ! 1))) = Inr (f, r')"
    using assms by (auto simp: readFrame_def and_then_Inr_iff read_full_Inr_iff split: if_splits)
  have h: "hdr = [l3Version, hdr ! 1]"
    using hdr(2,3) by (auto simp: numeral_2_eq_2 length_Suc_conv)
  show ?thesis
  proof (cases "has_status (hdr ! 1)")
    case True
    then obtain sl where "t = sl @ fpayload f @ r'" "length sl = 3" "cmd f = hdr ! 1"
      "status f = sl ! 0" "length (fpayload f) = unat (be16 (sl ! 1) (sl ! 2))"
      using rest by (auto simp: has_status_def and_then_Inr_iff read_full_Inr_iff)
    then show ?thesis
      using hdr h True three_bytes [of sl] word_of_length [of "fpayload f" "be16 (sl ! 1) (sl ! 2)"]
        unat_u16_bound [of "be16 (sl ! 1) (sl ! 2)"]
      by (simp add: frame_ok_def server_frame_def)
  next
    case False
    then have "cmd f = hdr ! 1" "status f = 0" "readDataRespPayload t = Inr (fpayload f, r')"
      "hdr ! 1 = cmdDataResp \<or> hdr ! 1 = cmdHeartbeatResp"
      using rest by (auto simp: has_status_def and_then_Inr_iff split: if_splits)
    then show ?thesis
      using hdr h False by (simp add: frame_ok_def server_frame_def readDataRespPayload_iff)
  qed
qed

lemma readFrame_iff: "readFrame r = Inr (f, r') \<longleftrightarrow> frame_ok f \<and> r = server_frame f @ r'"
  using readFrame_server readFrame_server_frame by blast

definition frame_dec :: "bytes \<Rightarrow> (frame \<times> bytes) option" where
  "frame_dec r = (case readFrame r of Inl _ \<Rightarrow> None | Inr x \<Rightarrow> Some x)"

interpretation frames: stream_codec server_frame frame_dec frame_ok
  by unfold_locales (simp add: frame_dec_def readFrame_server)

definition packet_dec :: "bytes \<Rightarrow> (bytes \<times> bytes) option" where
  "packet_dec s = (case splitIncomingIPPackets s of
     Inr (p # ps, r) \<Rightarrow> Some (p, concat ps @ r) | _ \<Rightarrow> None)"


section \<open>The handshake\<close>

lemma tunnel_io_Inr_iff [simp]: "tunnel_io x = Inr a \<longleftrightarrow> x = Inr a"
  by (cases x) (auto simp: tunnel_io_def)

lemma four_bytes: "length l = 4 \<Longrightarrow> l = [l ! 0, l ! 1, l ! 2, l ! 3]"
  by (elim length4_cases) simp

lemma read_auth_response_iff:
  "read_auth_response r = Inr (st, p, r') \<longleftrightarrow>
     length p < 65536
     \<and> r = [l3Version, 0xD0, 0x53, st] @ bytes16 (word_of_nat (length p)) @ p @ r'"
proof
  assume "read_auth_response r = Inr (st, p, r')"
  then obtain m h where m: "r = m @ h @ p @ r'" "length m = 2" "m ! 0 = l3Version" "m ! 1 = 0xD0"
    "length h = 4" "h ! 0 = 0x53" "h ! 1 = st" "length p = unat (be16 (h ! 2) (h ! 3))"
    by (auto simp: read_auth_response_def and_then_Inr_iff read_full_Inr_iff split: if_splits)
  have "m = [l3Version, 0xD0]" using m(2,3,4) by (auto simp: numeral_2_eq_2 length_Suc_conv)
  moreover have "h = [0x53, st] @ bytes16 (be16 (h ! 2) (h ! 3))"
    using four_bytes [OF m(5)] m(6,7) by (simp add: bytes16_def)
  ultimately show "length p < 65536
     \<and> r = [l3Version, 0xD0, 0x53, st] @ bytes16 (word_of_nat (length p)) @ p @ r'"
    using m(1,8) word_of_length [OF m(8)] unat_u16_bound [of "be16 (h ! 2) (h ! 3)"] by simp
next
  assume a: "length p < 65536
     \<and> r = [l3Version, 0xD0, 0x53, st] @ bytes16 (word_of_nat (length p)) @ p @ r'"
  then show "read_auth_response r = Inr (st, p, r')"
    by (simp add: read_auth_response_def read_full_def tunnel_io_def bytes16_def be16_bytes16)
qed

lemma parseInitialVIPHeader_6: "parseInitialVIPHeader h = Inr 6 \<longleftrightarrow> (\<exists>x. h = [l3Version, 0, x, 1])"
proof
  assume "parseInitialVIPHeader h = Inr 6"
  then have "length h = 4" "h ! 0 = l3Version" "h ! 1 = 0" "h ! 3 = 1"
    by (auto simp: parseInitialVIPHeader_def split: if_splits)
  then show "\<exists>x. h = [l3Version, 0, x, 1]" using four_bytes [of h] by metis
qed (auto simp: parseInitialVIPHeader_def)

lemma check_auth_code_ok: "check_auth_code emb resp = Inr u \<longleftrightarrow> (\<exists>msg. resp = Some (0, msg))"
  by (auto simp: check_auth_code_def session_invalid_code_def split: option.splits)

lemma readIPTunnelResponses_iff:
  "readIPTunnelResponses json emb r = Inr (x, r') \<longleftrightarrow>
     (\<exists>p msg v a b c d e f. length p < 65536 \<and> json p = Some (0, msg) \<and> x = ipv4 a b c d
        \<and> r = [l3Version, 0xD0, 0x53, 0] @ bytes16 (word_of_nat (length p)) @ p
            @ [l3Version, 0, v, 1, a, b, c, d, e, f] @ r')"
proof
  assume "readIPTunnelResponses json emb r = Inr (x, r')"
  then obtain p s vh vd msg where "read_auth_response r = Inr (0, p, s)" "json p = Some (0, msg)"
    "s = vh @ vd @ r'" "length vd = 6" "parseInitialVIPHeader vh = Inr 6"
    "x = ipv4 (vd ! 0) (vd ! 1) (vd ! 2) (vd ! 3)"
    by (auto simp: readIPTunnelResponses_def and_then_Inr_iff read_full_Inr_iff parseIPAuthResponse_def
        check_auth_code_ok split: if_splits)
  moreover have "vd = [vd ! 0, vd ! 1, vd ! 2, vd ! 3, vd ! 4, vd ! 5]"
    using \<open>length vd = 6\<close> by (auto simp: eval_nat_numeral length_Suc_conv)
  ultimately show "\<exists>p msg v a b c d e f. length p < 65536 \<and> json p = Some (0, msg) \<and> x = ipv4 a b c d
        \<and> r = [l3Version, 0xD0, 0x53, 0] @ bytes16 (word_of_nat (length p)) @ p
            @ [l3Version, 0, v, 1, a, b, c, d, e, f] @ r'"
    unfolding read_auth_response_iff parseInitialVIPHeader_6 by (metis append_Cons append_Nil append_assoc)
next
  assume "\<exists>p msg v a b c d e f. length p < 65536 \<and> json p = Some (0, msg) \<and> x = ipv4 a b c d
        \<and> r = [l3Version, 0xD0, 0x53, 0] @ bytes16 (word_of_nat (length p)) @ p
            @ [l3Version, 0, v, 1, a, b, c, d, e, f] @ r'"
  then obtain p msg v a b c d e f where *: "length p < 65536" "json p = Some (0, msg)" "x = ipv4 a b c d"
    "r = [l3Version, 0xD0, 0x53, 0] @ bytes16 (word_of_nat (length p)) @ p
            @ [l3Version, 0, v, 1, a, b, c, d, e, f] @ r'" by blast
  then have "read_auth_response r = Inr (0, p, [l3Version, 0, v, 1, a, b, c, d, e, f] @ r')"
    unfolding read_auth_response_iff by simp
  moreover have "parseInitialVIPHeader [l3Version, 0, v, 1] = Inr 6"
    by (simp add: parseInitialVIPHeader_6)
  ultimately show "readIPTunnelResponses json emb r = Inr (x, r')"
    using *(2,3) by (simp add: readIPTunnelResponses_def parseIPAuthResponse_def check_auth_code_def
        session_invalid_code_def read_full_def tunnel_io_def)
qed

section \<open>Properties\<close>


definition sample_packet :: bytes where
  "sample_packet = [69, 0, 0, 21, 0, 1, 0, 0, 64, 1, 0, 0, 10, 0, 0, 1, 10, 0, 0, 2, 8]"


text \<open>On any stream that splits without error, the packets and the bytes kept back are the
  stream, cut at the packets' own length fields; the bytes kept back hold no complete packet.\<close>

theorem split_cuts_at_length_fields:
  assumes "splitIncomingIPPackets s = Inr (ps, r)"
  shows "s = concat ps @ r \<and> list_all packet_ok ps \<and> splitIncomingIPPackets r = Inr ([], r)"
  using split_partition [OF assms] split_rest [OF assms] by blast

theorem split_cuts_at_length_fields_witness:
  "\<exists>ps r. splitIncomingIPPackets (sample_packet @ [69, 0]) = Inr (ps, r)
     \<and> sample_packet @ [69, 0] = concat ps @ r"
proof -
  have "splitIncomingIPPackets (sample_packet @ [69, 0]) = Inr ([sample_packet], [69, 0])" by code_simp
  from split_cuts_at_length_fields [OF this] this show ?thesis by blast
qed

text \<open>\<open>readFrame\<close> accepts exactly the wire form of a server frame, returns that frame and leaves
  the rest of the input untouched, so a sequence of frames is read back frame by frame.\<close>

theorem read_frame_exact:
  "(readFrame r = Inr (f, r') \<longleftrightarrow> frame_ok f \<and> r = server_frame f @ r')
   \<and> (list_all frame_ok fs \<longrightarrow> dec_many frame_dec (length fs) (concat (map server_frame fs) @ r) = Some (fs, r))"
  using readFrame_iff frames.dec_many_concat by blast

theorem read_frame_exact_witness:
  "readFrame [0x05, 0x93, 0x84, 0, 1, 7, 5] = Inr (\<lparr>cmd = 0x93, status = 0x84, fpayload = [7]\<rparr>, [5])"
  using read_frame_exact [of "[0x05, 0x93, 0x84, 0, 1, 7, 5]" "\<lparr>cmd = 0x93, status = 0x84, fpayload = [7]\<rparr>"
      "[5]" "[]"]
  by (simp add: frame_ok_def server_frame_def has_status_def cmd_defs bytes16_def hi8_def lo8_def)

text \<open>A data request built by \<open>getDataPayload\<close> carries exactly the packet: the payload parser
  reads back the one packet it was built from, for every token and packet that fit their length
  fields.\<close>

theorem data_payload_roundtrip:
  assumes "length token \<le> 255" and "length packet \<le> 65535"
  shows "parseDataPayload (drop 2 (getDataPayload token packet)) = Some (Inr [packet])"
  by (rule data_payload_parse [OF assms])

theorem data_payload_roundtrip_witness:
  "parseDataPayload (drop 2 (getDataPayload ''tok'' [1, 2, 3])) = Some (Inr [[1, 2, 3]])"
  by (rule data_payload_roundtrip) simp_all

text \<open>The parsers of bytes that arrive from the network never panic, whatever the bytes are.\<close>

theorem untrusted_parsers_total:
  "parseDataPayload p \<noteq> None \<and> parseDataMeta p \<noteq> None \<and> decodeMeta p \<noteq> None"
  using parseDataPayload_total [of p] parseDataMeta_total [of p] decodeMeta_total [of p] by simp

lemma authTunnel_of_read:
  assumes "readIPTunnelResponses json emb r = Inr (x, r')"
  shows "authTunnel json marshal emb (Inr sid) True r = (wrapAuthReqData (marshal sid) 1, Inr ([x], r'))"
proof -
  obtain p vh vd where *: "read_auth_response r = Inr (0, p, vh @ vd @ r')" "length vd = 6"
    "length vh = 4" "check_auth_code emb (json p) = Inr ()" "parseInitialVIPHeader vh = Inr 6"
    "x = ipv4 (vd ! 0) (vd ! 1) (vd ! 2) (vd ! 3)"
    using assms
    by (auto simp: readIPTunnelResponses_def and_then_Inr_iff read_full_Inr_iff parseIPAuthResponse_def
        split: if_splits)
  then have "read_full 4 (vh @ vd @ r') = Inr (vh, vd @ r')" "read_full 6 (vd @ r') = Inr (vd, r')"
    by simp_all
  then show ?thesis
    using * by (simp add: authTunnel_def tunnel_io_def parseVirtualIPData_def)
qed

text \<open>The address request succeeds on exactly one kind of reply: the chosen method, an
  authentication response with status 0 and code 0, and an IPv4 address block, whose first four
  bytes are the address; the tunnel handshake then reports the same address.\<close>

lemma handshake_reads_virtual_ip:
  "(readIPTunnelResponses json emb r = Inr (x, r') \<longleftrightarrow>
     (\<exists>p msg v a b c d e f. length p < 65536 \<and> json p = Some (0, msg) \<and> x = ipv4 a b c d
        \<and> r = [l3Version, 0xD0, 0x53, 0] @ bytes16 (word_of_nat (length p)) @ p
            @ [l3Version, 0, v, 1, a, b, c, d, e, f] @ r'))
   \<and> (readIPTunnelResponses json emb r = Inr (x, r')
      \<longrightarrow> authTunnel json marshal emb (Inr sid) True r
            = (wrapAuthReqData (marshal sid) 1, Inr ([x], r')))"
proof
  show "readIPTunnelResponses json emb r = Inr (x, r') \<longleftrightarrow>
     (\<exists>p msg v a b c d e f. length p < 65536 \<and> json p = Some (0, msg) \<and> x = ipv4 a b c d
        \<and> r = [l3Version, 0xD0, 0x53, 0] @ bytes16 (word_of_nat (length p)) @ p
            @ [l3Version, 0, v, 1, a, b, c, d, e, f] @ r')"
    by (rule readIPTunnelResponses_iff)
  show "readIPTunnelResponses json emb r = Inr (x, r')
      \<longrightarrow> authTunnel json marshal emb (Inr sid) True r
            = (wrapAuthReqData (marshal sid) 1, Inr ([x], r'))"
    using authTunnel_of_read by blast
qed

lemma handshake_reads_virtual_ip_example:
  "\<exists>x. readIPTunnelResponses (\<lambda>_. Some (0, [])) True
     [5, 0xD0, 0x53, 0, 0, 1, 7, 5, 0, 0, 1, 10, 1, 2, 3, 0, 0] = Inr (x, []) \<and> x = ipv4 10 1 2 3"
proof -
  have "bytes16 (word_of_nat (length [7 :: byte])) = [0, 1]" by (simp add: bytes16_def hi8_def lo8_def)
  then show ?thesis
    using handshake_reads_virtual_ip [of "\<lambda>_. Some (0, [])" True
        "[5, 0xD0, 0x53, 0, 0, 1, 7, 5, 0, 0, 1, 10, 1, 2, 3, 0, 0]" "ipv4 10 1 2 3" "[]"]
    by (auto simp: l3Version_def intro!: exI [of _ "[7 :: byte]"])
qed

end
