(* ===== verification/Conntrack.thy ===== *)
theory Conntrack
  imports L3Frames
begin

text \<open>
  The connection tracker of the aTrust L3 tunnel (\<open>client/atrust/l3tunnelconntrack.go\<close>).

  Conntracks are shared by pointer: the two indexes, the LRU list and callers that hold one across
  calls. The manager therefore carries a store from references to conntracks; \<open>fresh\<close> is the next
  unused reference. \<open>authClosed\<close> says whether \<open>authCh\<close> is closed, \<open>inLru\<close> whether \<open>lruElement\<close> is
  set. Every method takes the lock for its whole body, so it is one step; the clock reading
  \<open>m.now()\<close> is an argument. Times are nanoseconds; a zero \<open>time.Time\<close> is \<open>None\<close>. \<open>None\<close> as a result
  is a panic.
\<close>

datatype l3_error = ErrNetClosed | ErrConntrackEvicted | ErrPendingPacketCacheFull
  | ErrAuthTimeout | ErrEOF | ErrUnexpectedEOF | ErrResourceNotFound | ErrShortBuffer | ErrText string

definition seconds :: "int \<Rightarrow> int" where
  "seconds n = n * 1000000000"

definition defaultConntrackMaxEntries :: int where "defaultConntrackMaxEntries = 16384"
definition defaultPendingPacketLimit :: nat where "defaultPendingPacketLimit = 1024"
definition tcpOutboundSynTTL :: int where "tcpOutboundSynTTL = seconds 60"
definition tcpInboundSynTTL :: int where "tcpInboundSynTTL = seconds 120"
definition tcpSynAckTTL :: int where "tcpSynAckTTL = seconds 60"
definition tcpResetTTL :: int where "tcpResetTTL = seconds 90"
definition tcpInboundFirstClosedTTL :: int where "tcpInboundFirstClosedTTL = seconds 120"
definition tcpOutboundFirstClosedTTL :: int where "tcpOutboundFirstClosedTTL = seconds 30"
definition tcpEstablishedTTL :: int where "tcpEstablishedTTL = seconds 21600"
definition udpConntrackTTL :: int where "udpConntrackTTL = seconds 120"
definition icmpConntrackTTL :: int where "icmpConntrackTTL = seconds 30"
definition defaultConntrackTTL :: int where "defaultConntrackTTL = seconds 60"
definition defaultAuthMaxAttempts :: nat where "defaultAuthMaxAttempts = 3"

lemmas ttl_defs = tcpOutboundSynTTL_def tcpInboundSynTTL_def tcpSynAckTTL_def tcpResetTTL_def
  tcpInboundFirstClosedTTL_def tcpOutboundFirstClosedTTL_def tcpEstablishedTTL_def
  udpConntrackTTL_def icmpConntrackTTL_def defaultConntrackTTL_def seconds_def

text \<open>The TCP states; 6 and 8 are not used by the code.\<close>

datatype tcp_state = StReset | StInboundSyn | StOutboundSyn | StSynAck | StEstablished
  | StInboundFin | StInboundFirstClosed | StOutboundFin | StOutboundFirstClosed

record conntrack =
  ckey :: string
  authID :: "64 word"
  connectToken :: string
  appID :: string
  nodeGroupID :: string
  authClosed :: bool
  authErr :: "l3_error option"
  authStarted :: bool
  authTimeouts :: nat
  authMeta :: packetMeta
  authDeadline :: "int option"
  authRetryAt :: "int option"
  pending :: "bytes list"
  lastSeen :: int
  expiresAt :: int
  tcpState :: tcp_state
  tcpSeq :: u32
  tcpTTL :: int
  inLru :: bool

definition new_conntrack :: "string \<Rightarrow> 64 word \<Rightarrow> string \<Rightarrow> string \<Rightarrow> int \<Rightarrow> conntrack" where
  "new_conntrack k i a g now =
     \<lparr>ckey = k, authID = i, connectToken = [], appID = a, nodeGroupID = g, authClosed = False,
      authErr = None, authStarted = False, authTimeouts = 0, authMeta = no_meta,
      authDeadline = None, authRetryAt = None, pending = [], lastSeen = now,
      expiresAt = now + defaultConntrackTTL, tcpState = StReset, tcpSeq = 0, tcpTTL = 0,
      inLru = False\<rparr>"

record conntrackMgr =
  nextAuthID :: "64 word"
  byKey :: "(string, nat) gomap"
  byID :: "(64 word, nat) gomap"
  lru :: "nat list"
  mttl :: int
  maxEntries :: int
  mclosed :: bool
  store :: "nat \<Rightarrow> conntrack"
  fresh :: nat

definition newConntrackMgr :: conntrackMgr where
  "newConntrackMgr =
     \<lparr>nextAuthID = 0, byKey = [], byID = [], lru = [], mttl = 0,
      maxEntries = defaultConntrackMaxEntries, mclosed = False,
      store = (\<lambda>_. new_conntrack [] 0 [] [] 0), fresh = 0\<rparr>"

definition ct_update :: "nat \<Rightarrow> (conntrack \<Rightarrow> conntrack) \<Rightarrow> conntrackMgr \<Rightarrow> conntrackMgr" where
  "ct_update r f m = m\<lparr>store := (store m)(r := f (store m r))\<rparr>"

text \<open>\<open>m.lru.MoveToBack(ct.lruElement)\<close> panics on a nil element.\<close>

definition lru_touch :: "nat \<Rightarrow> conntrackMgr \<Rightarrow> conntrackMgr option" where
  "lru_touch r m = (if inLru (store m r) then Some (m\<lparr>lru := move_to_back r (lru m)\<rparr>) else None)"


section \<open>Removal\<close>

definition removeIndexesLocked :: "nat \<Rightarrow> conntrackMgr \<Rightarrow> conntrackMgr" where
  "removeIndexesLocked r m =
     (let ct = store m r;
          m = (if mget (byKey m) (ckey ct) = Some r then m\<lparr>byKey := mdel (ckey ct) (byKey m)\<rparr> else m);
          m = (if mget (byID m) (authID ct) = Some r then m\<lparr>byID := mdel (authID ct) (byID m)\<rparr> else m)
      in if inLru ct
         then ct_update r (\<lambda>c. c\<lparr>inLru := False\<rparr>) (m\<lparr>lru := remove1 r (lru m)\<rparr>)
         else m)"

definition removeLocked :: "nat \<Rightarrow> l3_error \<Rightarrow> conntrackMgr \<Rightarrow> conntrackMgr" where
  "removeLocked r err m =
     ct_update r
       (\<lambda>c. if authClosed c then c\<lparr>pending := []\<rparr>
            else c\<lparr>pending := [], authErr := Some err, authClosed := True\<rparr>)
       (removeIndexesLocked r m)"

text \<open>The loops over the LRU list read the next element before they remove the current one, so
  they visit the elements the list had at the start.\<close>

definition ct_expiry :: "conntrackMgr \<Rightarrow> nat \<Rightarrow> int" where
  "ct_expiry m r = (if 0 < mttl m then lastSeen (store m r) + mttl m else expiresAt (store m r))"

definition removeExpiredLocked :: "int \<Rightarrow> conntrackMgr \<Rightarrow> conntrackMgr" where
  "removeExpiredLocked now m =
     fold (\<lambda>r m. if now < ct_expiry m r then m else removeLocked r ErrConntrackEvicted m) (lru m) m"

definition removeOldestLocked :: "conntrackMgr \<Rightarrow> conntrackMgr" where
  "removeOldestLocked m = (case lru m of [] \<Rightarrow> m | r # _ \<Rightarrow> removeLocked r ErrConntrackEvicted m)"

definition ct_remove :: "string \<Rightarrow> conntrackMgr \<Rightarrow> conntrackMgr" where
  "ct_remove k m =
     (case mget (byKey m) k of Some r \<Rightarrow> removeLocked r ErrConntrackEvicted m | None \<Rightarrow> m)"

definition removeExpired :: "int \<Rightarrow> conntrackMgr \<Rightarrow> conntrackMgr" where
  "removeExpired now m = removeExpiredLocked now m"

text \<open>\<open>close\<close> ranges over \<open>byKey\<close> and deletes the key it stands at, so it reaches every entry.\<close>

definition ct_close :: "conntrackMgr \<Rightarrow> conntrackMgr" where
  "ct_close m = fold (\<lambda>r m. removeLocked r ErrNetClosed m) (map snd (byKey m)) (m\<lparr>mclosed := True\<rparr>)"


section \<open>Lookup and creation\<close>

definition getByKey :: "conntrackMgr \<Rightarrow> string \<Rightarrow> nat option" where
  "getByKey m k = mget (byKey m) k"

definition getByID :: "conntrackMgr \<Rightarrow> 64 word \<Rightarrow> nat option" where
  "getByID m i = mget (byID m) i"

record authIP =
  aAtype :: int
  aProtocol :: int
  DestAddr :: string
  DestPort :: u16
  SrcAddr :: string
  SrcPort :: u16

definition getByAuthResponseIP :: "conntrackMgr \<Rightarrow> authIP \<Rightarrow> nat option" where
  "getByAuthResponseIP m a =
     find (\<lambda>r. let mt = authMeta (store m r)
               in authIPType (atype mt) = aAtype a \<and> srcPort mt = SrcPort a \<and> dstPort mt = DestPort a
                  \<and> ip_equal (srcIP mt) (parse_ip (SrcAddr a)) \<and> ip_equal (dstIP mt) (parse_ip (DestAddr a)))
       (map snd (byKey m))"

text \<open>On a closed manager the new conntrack is not entered anywhere and reports \<open>net.ErrClosed\<close>.\<close>

definition getOrCreate ::
  "int \<Rightarrow> string \<Rightarrow> string \<Rightarrow> string \<Rightarrow> conntrackMgr \<Rightarrow> (nat \<times> conntrackMgr) option" where
  "getOrCreate now k app grp m =
     (let m = removeExpiredLocked now m
      in case mget (byKey m) k of
           Some r \<Rightarrow> do {
             m \<leftarrow> lru_touch r (ct_update r (\<lambda>c. c\<lparr>lastSeen := now\<rparr>) m);
             Some (r, m)
           }
         | None \<Rightarrow>
             let i = nextAuthID m + 1; r = fresh m; ct = new_conntrack k i app grp now;
                 m = m\<lparr>nextAuthID := i, fresh := Suc r\<rparr>
             in if mclosed m then
                  Some (r, m\<lparr>store := (store m)(r := ct\<lparr>authErr := Some ErrNetClosed, authClosed := True\<rparr>)\<rparr>)
                else
                  let m = (if maxEntries m \<le> int (length (byKey m)) then removeOldestLocked m else m)
                  in Some (r, m\<lparr>lru := lru m @ [r], byKey := mset k r (byKey m), byID := mset i r (byID m),
                       store := (store m)(r := ct\<lparr>inLru := True\<rparr>)\<rparr>))"

section \<open>The TCP state machine\<close>

text \<open>The direction is 1 for a packet from the server, 0 for one to it.\<close>

definition observeTCPFin :: "u16 \<Rightarrow> int \<Rightarrow> conntrack \<Rightarrow> conntrack" where
  "observeTCPFin flags direction ct =
     (if flags AND TCPFin = 0 then ct
      else if direction = 1 then ct\<lparr>tcpState := StInboundFin\<rparr>
      else ct\<lparr>tcpState := StOutboundFin\<rparr>)"

definition tcp_transition :: "u16 \<Rightarrow> u32 \<Rightarrow> u32 \<Rightarrow> int \<Rightarrow> conntrack \<Rightarrow> conntrack" where
  "tcp_transition flags sequence acknowledgment direction ct =
     (case tcpState ct of
        StReset \<Rightarrow>
          if flags AND TCPSyn = 0 then ct
          else if direction = 1
          then ct\<lparr>tcpSeq := sequence, tcpState := StInboundSyn, tcpTTL := tcpInboundSynTTL\<rparr>
          else ct\<lparr>tcpSeq := sequence, tcpState := StOutboundSyn, tcpTTL := tcpOutboundSynTTL\<rparr>
      | StInboundSyn \<Rightarrow>
          if direction \<noteq> 0 \<or> flags AND TCPSyn = 0 then ct
          else if flags AND TCPAck \<noteq> 0 \<and> acknowledgment = tcpSeq ct + 1
          then ct\<lparr>tcpState := StEstablished, tcpTTL := tcpEstablishedTTL\<rparr>
          else ct\<lparr>tcpState := StSynAck, tcpSeq := sequence, tcpTTL := tcpSynAckTTL\<rparr>
      | StOutboundSyn \<Rightarrow>
          if direction = 1 \<and> flags AND (TCPSyn OR TCPAck) = TCPSyn OR TCPAck
             \<and> acknowledgment = tcpSeq ct + 1
          then ct\<lparr>tcpState := StSynAck, tcpSeq := sequence, tcpTTL := tcpSynAckTTL\<rparr>
          else ct
      | StSynAck \<Rightarrow>
          if direction = 0 \<and> flags AND TCPAck \<noteq> 0 \<and> acknowledgment = tcpSeq ct + 1
          then ct\<lparr>tcpState := StEstablished, tcpTTL := tcpEstablishedTTL\<rparr>
          else observeTCPFin flags direction ct
      | StEstablished \<Rightarrow> observeTCPFin flags direction ct
      | StInboundFin \<Rightarrow>
          if direction = 0 \<and> flags AND TCPFin \<noteq> 0
          then ct\<lparr>tcpState := StInboundFirstClosed, tcpTTL := tcpInboundFirstClosedTTL\<rparr> else ct
      | StOutboundFin \<Rightarrow>
          if direction = 1 \<and> flags AND TCPFin \<noteq> 0
          then ct\<lparr>tcpState := StOutboundFirstClosed, tcpTTL := tcpOutboundFirstClosedTTL\<rparr> else ct
      | _ \<Rightarrow> ct)"

definition observeTCP :: "bytes \<Rightarrow> int \<Rightarrow> conntrack \<Rightarrow> conntrack option" where
  "observeTCP packet direction ct =
     do {
       flags \<leftarrow> TCP_Flags packet;
       if flags AND TCPRst \<noteq> 0 then Some (ct\<lparr>tcpState := StReset, tcpTTL := tcpResetTTL\<rparr>)
       else do {
         let ct = (if tcpTTL ct = 0 then ct\<lparr>tcpTTL := defaultConntrackTTL\<rparr> else ct);
         sequence \<leftarrow> be32_at packet 4;
         acknowledgment \<leftarrow> be32_at packet 8;
         Some (tcp_transition flags sequence acknowledgment direction ct)
       }
     }"

definition observe_conntrack :: "int \<Rightarrow> bytes \<Rightarrow> bool \<Rightarrow> conntrack \<Rightarrow> conntrack option" where
  "observe_conntrack now packet incoming ct =
     do {
       v \<leftarrow> IPv4_Valid packet;
       if \<not> v then Some (ct\<lparr>expiresAt := now + defaultConntrackTTL\<rparr>)
       else do {
         pr \<leftarrow> Protocol packet;
         let ct = ct\<lparr>authMeta := (authMeta ct)\<lparr>mproto := uint pr\<rparr>\<rparr>;
         if pr = TCP then do {
           t \<leftarrow> Payload packet;
           if \<not> TCP_Valid t then Some (ct\<lparr>expiresAt := now + defaultConntrackTTL\<rparr>)
           else do {
             ct \<leftarrow> observeTCP t (if incoming then 1 else 0) ct;
             Some (ct\<lparr>expiresAt := now + tcpTTL ct\<rparr>)
           }
         }
         else if pr = UDP then Some (ct\<lparr>expiresAt := now + udpConntrackTTL\<rparr>)
         else if pr = ICMP then Some (ct\<lparr>expiresAt := now + icmpConntrackTTL\<rparr>)
         else Some (ct\<lparr>expiresAt := now + defaultConntrackTTL\<rparr>)
       }
     }"

text \<open>The result says whether the key is tracked.\<close>

definition observePacket ::
  "int \<Rightarrow> string \<Rightarrow> bytes \<Rightarrow> bool \<Rightarrow> conntrackMgr \<Rightarrow> (bool \<times> conntrackMgr) option" where
  "observePacket now k packet incoming m =
     (case mget (byKey m) k of
        None \<Rightarrow> Some (False, m)
      | Some r \<Rightarrow> do {
          m \<leftarrow> lru_touch r (ct_update r (\<lambda>c. c\<lparr>lastSeen := now\<rparr>) m);
          ct \<leftarrow> observe_conntrack now packet incoming (store m r);
          Some (True, ct_update r (\<lambda>_. ct) m)
        })"


section \<open>Authentication of a conntrack\<close>

definition completeAuth ::
  "64 word \<Rightarrow> string \<Rightarrow> l3_error option \<Rightarrow> conntrackMgr \<Rightarrow> (nat option \<times> bytes list) \<times> conntrackMgr" where
  "completeAuth i token err m =
     (case mget (byID m) i of
        None \<Rightarrow> ((None, []), m)
      | Some r \<Rightarrow>
          if authClosed (store m r) then ((None, []), m)
          else
            let packets = pending (store m r);
                m = ct_update r (\<lambda>c. c\<lparr>pending := [],
                      connectToken := (if token \<noteq> [] then token else connectToken c),
                      authErr := err, authClosed := True\<rparr>) m
            in if err \<noteq> None then ((Some r, []), removeIndexesLocked r m)
               else ((Some r, packets), m))"

definition markAuth :: "64 word \<Rightarrow> string \<Rightarrow> l3_error option \<Rightarrow> conntrackMgr \<Rightarrow> conntrackMgr" where
  "markAuth i token err m = snd (completeAuth i token err m)"

definition cachePacket ::
  "nat \<Rightarrow> packetMeta \<Rightarrow> bytes \<Rightarrow> conntrackMgr \<Rightarrow> (bool \<times> l3_error option) \<times> conntrackMgr" where
  "cachePacket r mt packet m =
     (let ct = store m r
      in if mget (byKey m) (ckey ct) \<noteq> Some r then
           (if authClosed ct then ((False, authErr ct), m) else ((False, Some ErrConntrackEvicted), m))
         else if authClosed ct then ((False, authErr ct), m)
         else if defaultPendingPacketLimit \<le> length (pending ct)
         then ((False, Some ErrPendingPacketCacheFull), m)
         else ((True, None), ct_update r (\<lambda>c. c\<lparr>authMeta := mt, pending := pending c @ [packet]\<rparr>) m))"

text \<open>\<open>None\<close> when the conntrack is not authenticated yet, otherwise the token and the error.\<close>

definition authResult :: "nat \<Rightarrow> conntrackMgr \<Rightarrow> (string \<times> l3_error option) option" where
  "authResult r m =
     (if authClosed (store m r) then Some (connectToken (store m r), authErr (store m r)) else None)"

definition before_opt :: "int \<Rightarrow> int option \<Rightarrow> bool" where
  "before_opt now t = (case t of None \<Rightarrow> False | Some d \<Rightarrow> now < d)"

definition auth_due :: "int \<Rightarrow> conntrack \<Rightarrow> bool" where
  "auth_due now ct \<longleftrightarrow> \<not> (authStarted ct \<or> pending ct = [] \<or> before_opt now (authRetryAt ct))"

text \<open>The loop of \<open>nextAuthBatch\<close> over the elements still to visit, with the jobs collected so far;
  the flag says that more conntracks are waiting.\<close>

fun auth_batch ::
  "int \<Rightarrow> int \<Rightarrow> nat list \<Rightarrow> (nat \<times> packetMeta) list \<Rightarrow> conntrackMgr
     \<Rightarrow> ((nat \<times> packetMeta) list \<times> bool) \<times> conntrackMgr" where
  "auth_batch now limit [] jobs m = ((jobs, False), m)"
| "auth_batch now limit (r # rs) jobs m =
     (if \<not> auth_due now (store m r) then auth_batch now limit rs jobs m
      else if limit \<le> int (length jobs) then ((jobs, True), m)
      else auth_batch now limit rs (jobs @ [(r, authMeta (store m r))])
             (ct_update r (\<lambda>c. c\<lparr>authStarted := True\<rparr>) m))"

definition nextAuthBatch ::
  "int \<Rightarrow> int \<Rightarrow> conntrackMgr \<Rightarrow> ((nat \<times> packetMeta) list \<times> bool) \<times> conntrackMgr" where
  "nextAuthBatch now limit m = auth_batch now limit (lru m) [] m"

definition markAuthSent :: "64 word \<Rightarrow> int \<Rightarrow> conntrackMgr \<Rightarrow> conntrackMgr" where
  "markAuthSent i deadline m =
     (case mget (byID m) i of
        None \<Rightarrow> m
      | Some r \<Rightarrow>
          if authClosed (store m r) then m
          else ct_update r (\<lambda>c. c\<lparr>authDeadline := Some deadline\<rparr>) m)"

definition auth_expired :: "int \<Rightarrow> conntrack \<Rightarrow> bool" where
  "auth_expired now ct \<longleftrightarrow> authDeadline ct \<noteq> None \<and> \<not> before_opt now (authDeadline ct)"

definition expire_one :: "int \<Rightarrow> l3_error \<Rightarrow> nat \<Rightarrow> nat \<times> conntrackMgr \<Rightarrow> nat \<times> conntrackMgr" where
  "expire_one now err r = (\<lambda>(expired, m).
     if auth_expired now (store m r) then
       let m = ct_update r (\<lambda>c. c\<lparr>authTimeouts := authTimeouts c + 1\<rparr>) m
       in if authTimeouts (store m r) < defaultAuthMaxAttempts
          then (expired, ct_update r (\<lambda>c. c\<lparr>authStarted := False, authDeadline := None,
                  authRetryAt := Some now\<rparr>) m)
          else (expired + 1, removeLocked r err m)
     else (expired, m))"

definition expireAuth :: "int \<Rightarrow> l3_error \<Rightarrow> conntrackMgr \<Rightarrow> nat \<times> conntrackMgr" where
  "expireAuth now err m = fold (expire_one now err) (lru m) (0, m)"

definition retryAuth :: "int \<Rightarrow> 64 word \<Rightarrow> int \<Rightarrow> conntrackMgr \<Rightarrow> bool \<times> conntrackMgr" where
  "retryAuth now i delay m =
     (case mget (byID m) i of
        None \<Rightarrow> (False, m)
      | Some r \<Rightarrow>
          if authClosed (store m r) then (False, m)
          else (True, ct_update r (\<lambda>c. c\<lparr>authStarted := False, authDeadline := None,
                  authRetryAt := Some (now + delay)\<rparr>) m))"

section \<open>The invariant\<close>

definition indexes_ok :: "conntrackMgr \<Rightarrow> bool" where
  [inv_defs]: "indexes_ok m \<longleftrightarrow>
     map_ok (byKey m) \<and> map_ok (byID m) \<and> distinct (lru m)
     \<and> (\<forall>k r. mget (byKey m) k = Some r \<longrightarrow> ckey (store m r) = k \<and> r \<in> set (lru m))
     \<and> (\<forall>r. r \<in> set (lru m) \<longrightarrow> r < fresh m \<and> mget (byKey m) (ckey (store m r)) = Some r)
     \<and> (\<forall>r. inLru (store m r) \<longleftrightarrow> r \<in> set (lru m))
     \<and> (\<forall>i r. mget (byID m) i = Some r \<longrightarrow> authID (store m r) = i \<and> r \<in> set (lru m))"

definition conntrack_ok :: "conntrack \<Rightarrow> bool" where
  [inv_defs]: "conntrack_ok c \<longleftrightarrow> length (pending c) \<le> defaultPendingPacketLimit
     \<and> (authClosed c \<longrightarrow> pending c = []) \<and> (inLru c \<and> authClosed c \<longrightarrow> authErr c = None)"

definition ct_inv :: "conntrackMgr \<Rightarrow> bool" where
  "ct_inv m \<longleftrightarrow> indexes_ok m \<and> (\<forall>r. conntrack_ok (store m r))
     \<and> int (length (byKey m)) \<le> max 1 (maxEntries m) \<and> (mclosed m \<longrightarrow> lru m = [])"

lemma new_mgr_inv: "ct_inv newConntrackMgr"
  by (simp add: ct_inv_def inv_defs newConntrackMgr_def new_conntrack_def
      defaultConntrackMaxEntries_def)

lemma update_sel [simp]:
  "byKey (ct_update r f m) = byKey m" "byID (ct_update r f m) = byID m" "lru (ct_update r f m) = lru m"
  "fresh (ct_update r f m) = fresh m" "nextAuthID (ct_update r f m) = nextAuthID m"
  "maxEntries (ct_update r f m) = maxEntries m" "mclosed (ct_update r f m) = mclosed m"
  "mttl (ct_update r f m) = mttl m"
  "store (ct_update r f m) = (store m)(r := f (store m r))"
  by (simp_all add: ct_update_def)

lemma indexes_update:
  assumes "indexes_ok m" "ckey (f (store m r)) = ckey (store m r)"
    "authID (f (store m r)) = authID (store m r)" "inLru (f (store m r)) = inLru (store m r)"
  shows "indexes_ok (ct_update r f m)"
  using assms by (simp add: indexes_ok_def)

lemma ct_update_inv:
  assumes "ct_inv m" "ckey (f (store m r)) = ckey (store m r)"
    "authID (f (store m r)) = authID (store m r)" "inLru (f (store m r)) = inLru (store m r)"
    "conntrack_ok (f (store m r))"
  shows "ct_inv (ct_update r f m)"
  using assms indexes_update [of m f r] by (simp add: ct_inv_def)

lemma lru_touch_inv:
  assumes "ct_inv m" "lru_touch r m = Some m'"
  shows "ct_inv m'"
proof -
  have "r \<in> set (lru m)" "distinct (lru m)" "m' = m\<lparr>lru := move_to_back r (lru m)\<rparr>"
    using assms by (auto simp: ct_inv_def indexes_ok_def lru_touch_def split: if_splits)
  then show ?thesis using assms(1) by (auto simp: ct_inv_def indexes_ok_def)
qed

lemma byKey_in_lru: "ct_inv m \<Longrightarrow> mget (byKey m) k = Some r \<Longrightarrow> r \<in> set (lru m) \<and> inLru (store m r) \<and> ckey (store m r) = k"
  by (simp add: ct_inv_def indexes_ok_def)

lemma lru_touch_runs: "ct_inv m \<Longrightarrow> mget (byKey m) k = Some r \<Longrightarrow> \<exists>m'. lru_touch r m = Some m'"
  using byKey_in_lru by (simp add: lru_touch_def)

text \<open>Removing a conntrack from the indexes.\<close>

lemma removeIndexes_out:
  assumes "indexes_ok m" "r \<notin> set (lru m)"
  shows "removeIndexesLocked r m = m"
proof -
  have "mget (byKey m) (ckey (store m r)) \<noteq> Some r" "mget (byID m) (authID (store m r)) \<noteq> Some r"
    "\<not> inLru (store m r)"
    using assms by (auto simp: indexes_ok_def)
  then show ?thesis by (simp add: removeIndexesLocked_def Let_def)
qed

lemma removeIndexes_in:
  assumes "indexes_ok m" "r \<in> set (lru m)"
  defines "m' \<equiv> removeIndexesLocked r m"
  shows "byKey m' = mdel (ckey (store m r)) (byKey m)" "lru m' = remove1 r (lru m)"
    "store m' = (store m)(r := (store m r)\<lparr>inLru := False\<rparr>)"
    "mget (byID m') i = (if mget (byID m) i = Some r then None else mget (byID m) i)"
    "map_ok (byID m')"
    "fresh m' = fresh m" "nextAuthID m' = nextAuthID m" "mclosed m' = mclosed m"
    "maxEntries m' = maxEntries m" "mttl m' = mttl m"
proof -
  have k: "mget (byKey m) (ckey (store m r)) = Some r" and l: "inLru (store m r)" "map_ok (byID m)"
    and i: "mget (byID m) j = Some r \<Longrightarrow> authID (store m r) = j" for j
    using assms(1,2) by (simp_all add: indexes_ok_def)
  show "byKey m' = mdel (ckey (store m r)) (byKey m)" "lru m' = remove1 r (lru m)"
    "store m' = (store m)(r := (store m r)\<lparr>inLru := False\<rparr>)"
    "fresh m' = fresh m" "nextAuthID m' = nextAuthID m" "mclosed m' = mclosed m"
    "maxEntries m' = maxEntries m" "mttl m' = mttl m" "map_ok (byID m')"
    using k l by (simp_all add: m'_def removeIndexesLocked_def Let_def)
  show "mget (byID m') i = (if mget (byID m) i = Some r then None else mget (byID m) i)"
  proof (cases "mget (byID m) (authID (store m r)) = Some r")
    case True
    then show ?thesis using k l i [of i]
      by (cases "i = authID (store m r)") (auto simp: m'_def removeIndexesLocked_def Let_def)
  next
    case False
    then have "mget (byID m) i \<noteq> Some r" using i [of i] by blast
    then show ?thesis using k l False by (simp add: m'_def removeIndexesLocked_def Let_def)
  qed
qed

lemma removeIndexes_indexes:
  assumes "indexes_ok m"
  shows "indexes_ok (removeIndexesLocked r m)"
proof (cases "r \<in> set (lru m)")
  case False
  then show ?thesis using removeIndexes_out assms by simp
next
  case True
  note s = removeIndexes_in [OF assms True]
  have k: "mget (byKey m) (ckey (store m r)) = Some r" using assms True by (simp add: indexes_ok_def)
  have d: "distinct (lru m)" using assms by (simp add: indexes_ok_def)
  have 1: "mget (byKey m) j = Some q \<Longrightarrow> ckey (store m q) = j \<and> q \<in> set (lru m)" for j q
    using assms by (simp add: indexes_ok_def)
  have 2: "q \<in> set (lru m) \<Longrightarrow> q < fresh m \<and> mget (byKey m) (ckey (store m q)) = Some q" for q
    using assms by (simp add: indexes_ok_def)
  have 3: "inLru (store m q) \<longleftrightarrow> q \<in> set (lru m)" for q using assms by (simp add: indexes_ok_def)
  have 4: "mget (byID m) i = Some q \<Longrightarrow> authID (store m q) = i \<and> q \<in> set (lru m)" for i q
    using assms by (simp add: indexes_ok_def)
  show ?thesis unfolding indexes_ok_def s
  proof (intro conjI allI impI)
    show "map_ok (byID (removeIndexesLocked r m))" by (rule s(5))
    show "map_ok (mdel (ckey (store m r)) (byKey m))" using assms by (simp add: indexes_ok_def)
    show "distinct (remove1 r (lru m))" using d by simp
  next
    fix j q assume "mget (mdel (ckey (store m r)) (byKey m)) j = Some q"
    then have q: "mget (byKey m) j = Some q" "j \<noteq> ckey (store m r)" by (simp_all split: if_splits)
    then have "q \<noteq> r" using 1 [OF q(1)] by blast
    then show "ckey (((store m)(r := (store m r)\<lparr>inLru := False\<rparr>)) q) = j" "q \<in> set (remove1 r (lru m))"
      using 1 [OF q(1)] d by simp_all
  next
    fix q assume "q \<in> set (remove1 r (lru m))"
    then have q: "q \<in> set (lru m)" "q \<noteq> r" using d by simp_all
    then have "ckey (store m q) \<noteq> ckey (store m r)" using 2 [OF q(1)] k by auto
    then show "q < fresh m"
      "mget (mdel (ckey (store m r)) (byKey m)) (ckey (((store m)(r := (store m r)\<lparr>inLru := False\<rparr>)) q)) = Some q"
      using 2 [OF q(1)] q by simp_all
  next
    fix q show "inLru (((store m)(r := (store m r)\<lparr>inLru := False\<rparr>)) q) = (q \<in> set (remove1 r (lru m)))"
      using 3 [of q] d by simp
  next
    fix i q assume "(if mget (byID m) i = Some r then None else mget (byID m) i) = Some q"
    then have q: "mget (byID m) i = Some q" "q \<noteq> r" by (simp_all split: if_splits)
    then show "authID (((store m)(r := (store m r)\<lparr>inLru := False\<rparr>)) q) = i" "q \<in> set (remove1 r (lru m))"
      using 4 [OF q(1)] d by simp_all
  qed
qed

lemma removeIndexes_length: "indexes_ok m \<Longrightarrow> length (byKey (removeIndexesLocked r m)) \<le> length (byKey m)"
  using removeIndexes_out [of m r] removeIndexes_in(1) [of m r] length_mdel [of "byKey m"]
  by (cases "r \<in> set (lru m)") (auto simp: indexes_ok_def)

lemma removeIndexes_store:
  "indexes_ok m \<Longrightarrow> store (removeIndexesLocked r m) = (store m)(r := (store m r)\<lparr>inLru := False\<rparr>)"
  using removeIndexes_out [of m r] removeIndexes_in(3) [of m r]
  by (cases "r \<in> set (lru m)") (auto simp: indexes_ok_def fun_eq_iff)

lemma removeIndexes_rest:
  "indexes_ok m \<Longrightarrow> lru (removeIndexesLocked r m) = remove1 r (lru m)"
  "indexes_ok m \<Longrightarrow> maxEntries (removeIndexesLocked r m) = maxEntries m"
  "indexes_ok m \<Longrightarrow> mclosed (removeIndexesLocked r m) = mclosed m"
  "indexes_ok m \<Longrightarrow> mttl (removeIndexesLocked r m) = mttl m"
  "indexes_ok m \<Longrightarrow> fresh (removeIndexesLocked r m) = fresh m"
  using removeIndexes_out [of m r] removeIndexes_in [of m r]
  by (cases "r \<in> set (lru m)"; simp add: remove1_idem)+

lemma removeIndexes_inv:
  assumes "indexes_ok m" "\<forall>q. q \<noteq> r \<longrightarrow> conntrack_ok (store m q)"
    "conntrack_ok ((store m r)\<lparr>inLru := False\<rparr>)"
    "int (length (byKey m)) \<le> max 1 (maxEntries m)" "mclosed m \<longrightarrow> lru m = []"
  shows "ct_inv (removeIndexesLocked r m)"
  using assms removeIndexes_indexes [OF assms(1), of r] removeIndexes_length [OF assms(1), of r]
  by (auto simp: ct_inv_def removeIndexes_store removeIndexes_rest)

lemma removeLocked_inv:
  assumes "ct_inv m"
  shows "ct_inv (removeLocked r err m)"
proof -
  have i: "ct_inv (removeIndexesLocked r m)"
    using assms by (intro removeIndexes_inv) (auto simp: ct_inv_def conntrack_ok_def)
  have s: "indexes_ok m" using assms by (simp add: ct_inv_def)
  show ?thesis unfolding removeLocked_def
    using i assms by (intro ct_update_inv) (auto simp: removeIndexes_store [OF s] conntrack_ok_def ct_inv_def)
qed

lemma removeLocked_sel:
  assumes "ct_inv m"
  shows "lru (removeLocked r err m) = remove1 r (lru m)" "mclosed (removeLocked r err m) = mclosed m"
    "maxEntries (removeLocked r err m) = maxEntries m" "fresh (removeLocked r err m) = fresh m"
    "mttl (removeLocked r err m) = mttl m"
  using assms by (auto simp: removeLocked_def ct_inv_def removeIndexes_rest)

lemma removeExpiredLocked_inv: "ct_inv m \<Longrightarrow> ct_inv (removeExpiredLocked now m)"
  unfolding removeExpiredLocked_def
  by (rule fold_invariant [where Q = "\<lambda>_. True"]) (auto simp: removeLocked_inv)

lemma ct_close_inv:
  assumes "ct_inv m"
  shows "ct_inv (ct_close m) \<and> lru (ct_close m) = []"
proof -
  text \<open>The flag is set first, so the invariant proper holds again only at the end.\<close>
  have comm: "(removeLocked r e m)\<lparr>mclosed := b\<rparr> = removeLocked r e (m\<lparr>mclosed := b\<rparr>)" for r e m b
    by (simp add: removeLocked_def removeIndexesLocked_def ct_update_def Let_def)
  have lru: "ct_inv (m\<lparr>mclosed := False\<rparr>) \<Longrightarrow>
      set (lru (fold (\<lambda>r m. removeLocked r ErrNetClosed m) rs m)) = set (lru m) - set rs
      \<and> ct_inv ((fold (\<lambda>r m. removeLocked r ErrNetClosed m) rs m)\<lparr>mclosed := False\<rparr>)" for rs m
  proof (induction rs arbitrary: m)
    case Nil
    then show ?case by simp
  next
    case (Cons r rs)
    let ?m = "removeLocked r ErrNetClosed m"
    have i: "ct_inv (?m\<lparr>mclosed := False\<rparr>)" using Cons.prems removeLocked_inv by (simp add: comm)
    have "lru (?m\<lparr>mclosed := False\<rparr>) = remove1 r (lru m)"
      using removeLocked_sel(1) [OF Cons.prems] by (simp add: comm)
    then have "set (lru ?m) = set (lru m) - {r}"
      using Cons.prems by (simp add: ct_inv_def indexes_ok_def)
    then show ?case using Cons.IH [OF i] by auto
  qed
  have start: "ct_inv ((m\<lparr>mclosed := True\<rparr>)\<lparr>mclosed := False\<rparr>)" using assms by (simp add: ct_inv_def indexes_ok_def)
  have "set (lru m) \<subseteq> set (map snd (byKey m))"
  proof
    fix r assume "r \<in> set (lru m)"
    then have "mget (byKey m) (ckey (store m r)) = Some r" using assms by (simp add: ct_inv_def indexes_ok_def)
    from mget_Some_in [OF this] show "r \<in> set (map snd (byKey m))" by force
  qed
  then have "set (lru (ct_close m)) = {}"
    using lru [OF start, of "map snd (byKey m)"] unfolding ct_close_def by simp
  then have e: "lru (ct_close m) = []" by simp
  moreover have "ct_inv ((ct_close m)\<lparr>mclosed := False\<rparr>)"
    using lru [OF start, of "map snd (byKey m)"] by (simp add: ct_close_def)
  ultimately show ?thesis by (simp add: ct_inv_def indexes_ok_def)
qed

lemma length_byKey_le_lru: "ct_inv m \<Longrightarrow> lru m = [] \<Longrightarrow> byKey m = []"
proof (rule ccontr)
  assume i: "ct_inv m" "lru m = []" "byKey m \<noteq> []"
  then obtain k r where "(k, r) \<in> set (byKey m)" by (metis list.set_intros(1) neq_Nil_conv surj_pair)
  then have "mget (byKey m) k = Some r" using i(1) by (simp add: map_ok_in_iff ct_inv_def indexes_ok_def)
  then show False using i by (simp add: ct_inv_def indexes_ok_def)
qed

lemma removeLocked_byKey:
  assumes "ct_inv m" "r \<in> set (lru m)"
  shows "byKey (removeLocked r err m) = mdel (ckey (store m r)) (byKey m)"
  using assms by (simp add: removeLocked_def removeIndexes_in ct_inv_def)

lemma removeOldestLocked_inv: "ct_inv m \<Longrightarrow> ct_inv (removeOldestLocked m)"
  by (simp add: removeOldestLocked_def removeLocked_inv split: list.splits)

lemma removeOldestLocked_sel:
  assumes "ct_inv m"
  shows "maxEntries (removeOldestLocked m) = maxEntries m" "fresh (removeOldestLocked m) = fresh m"
    "mclosed (removeOldestLocked m) = mclosed m" "lru (removeOldestLocked m) = tl (lru m)"
    "mget (byKey m) k = None \<Longrightarrow> mget (byKey (removeOldestLocked m)) k = None"
  using assms removeLocked_byKey [OF assms]
  by (simp_all add: removeOldestLocked_def removeLocked_sel split: list.splits)

lemma removeOldestLocked_length:
  assumes "ct_inv m"
  shows "length (byKey (removeOldestLocked m)) = length (byKey m) - 1"
proof (cases "lru m")
  case Nil
  then show ?thesis using length_byKey_le_lru [OF assms] by (simp add: removeOldestLocked_def)
next
  case (Cons r rs)
  then have "mget (byKey m) (ckey (store m r)) = Some r" "map_ok (byKey m)"
    using assms by (auto simp: ct_inv_def indexes_ok_def)
  then show ?thesis using Cons removeLocked_byKey [OF assms, of r] mget_in_keys [of "byKey m"]
    by (simp add: removeOldestLocked_def length_mdel)
qed

text \<open>Entering a new conntrack.\<close>

definition ct_insert :: "string \<Rightarrow> conntrack \<Rightarrow> conntrackMgr \<Rightarrow> conntrackMgr" where
  "ct_insert k ct m =
     (let r = fresh m; i = authID ct
      in m\<lparr>nextAuthID := i, fresh := Suc r, lru := lru m @ [r], byKey := mset k r (byKey m),
           byID := mset i r (byID m), store := (store m)(r := ct\<lparr>inLru := True\<rparr>)\<rparr>)"

lemma fresh_not_in_lru: "indexes_ok m \<Longrightarrow> fresh m \<notin> set (lru m)"
  by (auto simp: indexes_ok_def)

lemma ct_insert_indexes:
  assumes "indexes_ok m" "mget (byKey m) k = None" "ckey ct = k"
  shows "indexes_ok (ct_insert k ct m)"
proof -
  let ?r = "fresh m"
  have n: "?r \<notin> set (lru m)" using fresh_not_in_lru assms(1) by blast
  have 1: "mget (byKey m) j = Some q \<Longrightarrow> ckey (store m q) = j \<and> q \<in> set (lru m)" for j q
    using assms(1) by (simp add: indexes_ok_def)
  have 2: "q \<in> set (lru m) \<Longrightarrow> q < ?r \<and> mget (byKey m) (ckey (store m q)) = Some q" for q
    using assms(1) by (simp add: indexes_ok_def)
  have 3: "inLru (store m q) \<longleftrightarrow> q \<in> set (lru m)" for q using assms(1) by (simp add: indexes_ok_def)
  have 4: "mget (byID m) i = Some q \<Longrightarrow> authID (store m q) = i \<and> q \<in> set (lru m)" for i q
    using assms(1) by (simp add: indexes_ok_def)
  have sel: "byKey (ct_insert k ct m) = mset k ?r (byKey m)" "byID (ct_insert k ct m) = mset (authID ct) ?r (byID m)"
    "lru (ct_insert k ct m) = lru m @ [?r]" "fresh (ct_insert k ct m) = Suc ?r"
    "store (ct_insert k ct m) = (store m)(?r := ct\<lparr>inLru := True\<rparr>)"
    by (simp_all add: ct_insert_def Let_def)
  have k: "q \<in> set (lru m) \<Longrightarrow> ckey (store m q) \<noteq> k" for q using 2 [of q] assms(2) by auto
  show ?thesis unfolding indexes_ok_def sel
  proof (intro conjI allI impI)
    show "map_ok (mset k ?r (byKey m))" "map_ok (mset (authID ct) ?r (byID m))"
      using assms(1) by (simp_all add: indexes_ok_def)
    show "distinct (lru m @ [?r])" using assms(1) n by (simp add: indexes_ok_def)
  next
    fix j q assume "mget (mset k ?r (byKey m)) j = Some q"
    then have c: "j = k \<and> q = ?r \<or> mget (byKey m) j = Some q" by (simp split: if_splits)
    then show "ckey (((store m)(?r := ct\<lparr>inLru := True\<rparr>)) q) = j" "q \<in> set (lru m @ [?r])"
      using 1 [of j q] n assms(3) by (cases "q = ?r"; auto)+
  next
    fix q assume "q \<in> set (lru m @ [?r])"
    then have c: "q = ?r \<or> q \<in> set (lru m) \<and> q \<noteq> ?r" using n by auto
    then show "q < Suc ?r" using 2 [of q] by auto
    show "mget (mset k ?r (byKey m)) (ckey (((store m)(?r := ct\<lparr>inLru := True\<rparr>)) q)) = Some q"
      using c 2 [of q] k [of q] assms(3) by auto
  next
    fix q show "inLru (((store m)(?r := ct\<lparr>inLru := True\<rparr>)) q) = (q \<in> set (lru m @ [?r]))"
      using 3 [of q] by simp
  next
    fix i q assume "mget (mset (authID ct) ?r (byID m)) i = Some q"
    then have c: "i = authID ct \<and> q = ?r \<or> mget (byID m) i = Some q" by (simp split: if_splits)
    then show "authID (((store m)(?r := ct\<lparr>inLru := True\<rparr>)) q) = i" "q \<in> set (lru m @ [?r])"
      using 4 [of i q] n by (cases "q = ?r"; auto)+
  qed
qed

lemma ct_insert_inv:
  assumes "ct_inv m" "mget (byKey m) k = None" "ckey ct = k" "conntrack_ok (ct\<lparr>inLru := True\<rparr>)"
    "\<not> mclosed m" "int (length (byKey m)) < max 1 (maxEntries m)"
  shows "ct_inv (ct_insert k ct m)"
proof -
  have "indexes_ok (ct_insert k ct m)"
    using assms ct_insert_indexes [of m k ct] by (simp add: ct_inv_def)
  moreover have "length (mset k (fresh m) (byKey m)) = Suc (length (byKey m))"
    using assms(1,2) by (simp add: length_mset ct_inv_def indexes_ok_def mget_None_iff)
  ultimately show ?thesis using assms by (simp add: ct_inv_def ct_insert_def Let_def)
qed

lemma getOrCreate_miss:
  assumes "mget (byKey (removeExpiredLocked now m)) k = None" "\<not> mclosed (removeExpiredLocked now m)"
  defines "x \<equiv> removeExpiredLocked now m"
  defines "y \<equiv> (if maxEntries x \<le> int (length (byKey x)) then removeOldestLocked x else x)"
  assumes "ct_inv m"
  shows "getOrCreate now k app grp m = Some (fresh x, ct_insert k (new_conntrack k (nextAuthID x + 1) app grp now) y)"
proof -
  have x: "ct_inv x" unfolding x_def using assms(5) by (rule removeExpiredLocked_inv)
  have upd: "removeOldestLocked (x\<lparr>nextAuthID := i, fresh := n\<rparr>) = (removeOldestLocked x)\<lparr>nextAuthID := i, fresh := n\<rparr>" for i n
    by (simp add: removeOldestLocked_def removeLocked_def removeIndexesLocked_def ct_update_def Let_def
        split: list.splits)
  have f: "fresh y = fresh x" using removeOldestLocked_sel(2) [OF x] by (simp add: y_def)
  show ?thesis
    using assms(1,2) f unfolding x_def [symmetric]
    by (simp add: getOrCreate_def Let_def x_def [symmetric] ct_insert_def y_def upd new_conntrack_def)
qed

lemma getOrCreate_runs:
  assumes "ct_inv m"
  shows "\<exists>r m'. getOrCreate now k app grp m = Some (r, m') \<and> ct_inv m'"
proof -
  define x where "x = removeExpiredLocked now m"
  have x: "ct_inv x" unfolding x_def using assms by (rule removeExpiredLocked_inv)
  show ?thesis
  proof (cases "mget (byKey x) k")
    case (Some r)
    let ?u = "ct_update r (\<lambda>c. c\<lparr>lastSeen := now\<rparr>) x"
    have u: "ct_inv ?u" using x by (intro ct_update_inv) (auto simp: ct_inv_def conntrack_ok_def)
    then obtain m' where "lru_touch r ?u = Some m'" using lru_touch_runs [of ?u k r] Some by auto
    then show ?thesis using lru_touch_inv [OF u] Some
      by (simp add: getOrCreate_def Let_def x_def [symmetric])
  next
    case None
    show ?thesis
    proof (cases "mclosed x")
      case True
      have "fresh x \<notin> set (lru x)" using x fresh_not_in_lru by (simp add: ct_inv_def)
      then have "ct_inv (x\<lparr>nextAuthID := i, fresh := Suc (fresh x),
          store := (store x)(fresh x := (new_conntrack k i app grp now)\<lparr>authErr := Some ErrNetClosed,
            authClosed := True\<rparr>)\<rparr>)" for i
        using x by (auto simp: ct_inv_def indexes_ok_def conntrack_ok_def new_conntrack_def less_Suc_eq)
      then show ?thesis using None True
        by (simp add: getOrCreate_def Let_def x_def [symmetric])
    next
      case False
      define y where "y = (if maxEntries x \<le> int (length (byKey x)) then removeOldestLocked x else x)"
      have "ct_inv y" using x removeOldestLocked_inv by (simp add: y_def)
      moreover have "mget (byKey y) k = None" "\<not> mclosed y"
        using None False removeOldestLocked_sel [OF x] by (simp_all add: y_def)
      moreover have "int (length (byKey y)) < max 1 (maxEntries y)"
        using removeOldestLocked_length [OF x] removeOldestLocked_sel(1) [OF x] x
        by (auto simp: y_def ct_inv_def)
      ultimately have "ct_inv (ct_insert k (new_conntrack k (nextAuthID x + 1) app grp now) y)"
        by (intro ct_insert_inv) (auto simp: new_conntrack_def conntrack_ok_def)
      then show ?thesis
        using getOrCreate_miss [of now m k app grp, folded x_def y_def, OF None False assms]
        unfolding y_def by blast
    qed
  qed
qed

section \<open>Observing packets\<close>

lemma IPv4_Valid_total: "\<exists>v. IPv4_Valid p = Some v"
  by (auto simp: IPv4_Valid_def TotalLen_def be16_at_def idx_def HeaderLen_def)

lemma observeTCP_runs:
  assumes "TCP_Valid t"
  shows "\<exists>ct'. observeTCP t d ct = Some ct'"
proof -
  have "20 \<le> length t" using assms by (simp add: TCP_Valid_def)
  then show ?thesis by (simp add: observeTCP_def TCP_Flags_def be32_at_def idx_def)
qed

definition ct_frame_eq :: "conntrack \<Rightarrow> conntrack \<Rightarrow> bool" where
  "ct_frame_eq c c' \<longleftrightarrow> ckey c' = ckey c \<and> authID c' = authID c \<and> inLru c' = inLru c
     \<and> pending c' = pending c \<and> authClosed c' = authClosed c \<and> authErr c' = authErr c
     \<and> connectToken c' = connectToken c"

lemma ct_frame_ok: "ct_frame_eq c c' \<Longrightarrow> conntrack_ok c \<Longrightarrow> conntrack_ok c'"
  by (simp add: ct_frame_eq_def conntrack_ok_def)

lemma tcp_transition_frame: "ct_frame_eq ct (tcp_transition f s a d ct)"
  by (simp add: ct_frame_eq_def tcp_transition_def observeTCPFin_def split: tcp_state.split)

lemma observeTCP_frame: "observeTCP t d ct = Some ct' \<Longrightarrow> ct_frame_eq ct ct'"
proof -
  assume "observeTCP t d ct = Some ct'"
  then obtain f s a where
    "ct' = ct\<lparr>tcpState := StReset, tcpTTL := tcpResetTTL\<rparr>
     \<or> ct' = tcp_transition f s a d (if tcpTTL ct = 0 then ct\<lparr>tcpTTL := defaultConntrackTTL\<rparr> else ct)"
    by (auto simp: observeTCP_def bind_eq_Some_conv split: if_splits)
  then show ?thesis
    using tcp_transition_frame [of "ct\<lparr>tcpTTL := defaultConntrackTTL\<rparr>" f s a d]
      tcp_transition_frame [of ct f s a d]
    by (auto simp: ct_frame_eq_def split: if_splits)
qed

lemma observe_conntrack_runs:
  "\<exists>ct'. observe_conntrack now p inc ct = Some ct' \<and> ct_frame_eq ct ct'"
proof -
  obtain v where v: "IPv4_Valid p = Some v" using IPv4_Valid_total by blast
  show ?thesis
  proof (cases v)
    case False
    then show ?thesis using v by (simp add: observe_conntrack_def ct_frame_eq_def)
  next
    case True
    then have "IPv4_Valid p = Some True" using v by simp
    then obtain d where d: "Payload p = Some d" "Protocol p = Some (p ! 9)"
      using Payload_of_valid by blast
    let ?c = "ct\<lparr>authMeta := (authMeta ct)\<lparr>mproto := uint (p ! 9)\<rparr>\<rparr>"
    show ?thesis
    proof (cases "p ! 9 = TCP \<and> TCP_Valid d")
      case tcp: True
      then obtain c' where "observeTCP d (if inc then 1 else 0) ?c = Some c'"
        using observeTCP_runs by blast
      moreover from this have "ct_frame_eq ?c c'" by (rule observeTCP_frame)
      ultimately show ?thesis using tcp True v d by (simp add: observe_conntrack_def ct_frame_eq_def)
    next
      case False
      then show ?thesis using True v d by (auto simp: observe_conntrack_def ct_frame_eq_def Let_def)
    qed
  qed
qed

lemma observePacket_runs:
  assumes "ct_inv m"
  shows "\<exists>b m'. observePacket now k p inc m = Some (b, m') \<and> ct_inv m'"
proof (cases "mget (byKey m) k")
  case None
  then show ?thesis using assms by (auto simp: observePacket_def)
next
  case (Some r)
  let ?u = "ct_update r (\<lambda>c. c\<lparr>lastSeen := now\<rparr>) m"
  have u: "ct_inv ?u" using assms by (intro ct_update_inv) (auto simp: ct_inv_def conntrack_ok_def)
  then obtain m1 where t: "lru_touch r ?u = Some m1" using lru_touch_runs [of ?u k r] Some by auto
  have m1: "ct_inv m1" by (rule lru_touch_inv [OF u t])
  obtain c' where c: "observe_conntrack now p inc (store m1 r) = Some c'" "ct_frame_eq (store m1 r) c'"
    using observe_conntrack_runs by blast
  have "ct_inv (ct_update r (\<lambda>_. c') m1)"
    using m1 c(2) ct_frame_ok [OF c(2)]
    by (intro ct_update_inv) (auto simp: ct_inv_def ct_frame_eq_def)
  then show ?thesis using Some t c(1) by (auto simp: observePacket_def)
qed

section \<open>Authentication keeps the invariant\<close>

lemma completeAuth_inv:
  assumes "ct_inv m"
  shows "ct_inv (snd (completeAuth i token err m))"
proof (cases "mget (byID m) i")
  case None
  then show ?thesis using assms by (simp add: completeAuth_def)
next
  case (Some r)
  let ?f = "\<lambda>c. c\<lparr>pending := [], connectToken := (if token \<noteq> [] then token else connectToken c),
    authErr := err, authClosed := True\<rparr>"
  let ?m = "ct_update r ?f m"
  show ?thesis
  proof (cases "authClosed (store m r)")
    case True
    then show ?thesis using Some assms by (simp add: completeAuth_def)
  next
    case waiting: False
    show ?thesis
    proof (cases err)
      case None
      then have "ct_inv ?m" using assms by (intro ct_update_inv) (auto simp: ct_inv_def conntrack_ok_def)
      then show ?thesis using Some waiting None by (simp add: completeAuth_def Let_def)
    next
      case (Some e)
      have "indexes_ok ?m" using assms by (intro indexes_update) (auto simp: ct_inv_def)
      then have "ct_inv (removeIndexesLocked r ?m)"
        using assms by (intro removeIndexes_inv) (auto simp: ct_inv_def conntrack_ok_def)
      then show ?thesis using Some \<open>mget (byID m) i = Some r\<close> waiting by (simp add: completeAuth_def Let_def)
    qed
  qed
qed

lemma ct_inv_conntrack: "ct_inv m \<Longrightarrow> conntrack_ok (store m r)"
  by (simp add: ct_inv_def)

lemma cachePacket_inv: "ct_inv m \<Longrightarrow> ct_inv (snd (cachePacket r mt p m))"
  using ct_inv_conntrack [of m r]
  by (auto intro!: ct_update_inv simp: cachePacket_def Let_def conntrack_ok_def)

lemma auth_batch_inv: "ct_inv m \<Longrightarrow> ct_inv (snd (auth_batch now limit rs jobs m))"
proof (induction rs arbitrary: jobs m)
  case (Cons r rs)
  then have "ct_inv (ct_update r (\<lambda>c. c\<lparr>authStarted := True\<rparr>) m)"
    by (intro ct_update_inv) (auto simp: ct_inv_def conntrack_ok_def)
  then show ?case using Cons by simp
qed simp

lemma markAuthSent_inv: "ct_inv m \<Longrightarrow> ct_inv (markAuthSent i d m)"
  using ct_inv_conntrack [of m]
  by (auto intro!: ct_update_inv simp: markAuthSent_def conntrack_ok_def split: option.split)

lemma retryAuth_inv: "ct_inv m \<Longrightarrow> ct_inv (snd (retryAuth now i d m))"
  using ct_inv_conntrack [of m]
  by (auto intro!: ct_update_inv simp: retryAuth_def conntrack_ok_def split: option.split)

lemma expire_one_inv: "ct_inv (snd s) \<Longrightarrow> ct_inv (snd (expire_one now err r s))"
proof -
  assume i: "ct_inv (snd s)"
  define m where "m = ct_update r (\<lambda>c. c\<lparr>authTimeouts := authTimeouts c + 1\<rparr>) (snd s)"
  have m: "ct_inv m" unfolding m_def using i ct_inv_conntrack [OF i, of r]
    by (intro ct_update_inv) (simp_all add: conntrack_ok_def)
  have n: "ct_inv (ct_update r (\<lambda>c. c\<lparr>authStarted := False, authDeadline := None, authRetryAt := Some now\<rparr>) m)"
    using m ct_inv_conntrack [OF m, of r] by (intro ct_update_inv) (simp_all add: conntrack_ok_def)
  obtain x y where s: "s = (x, y)" by fastforce
  show ?thesis
    using i m n removeLocked_inv [OF m, of r err] by (simp add: expire_one_def Let_def s m_def)
qed

lemma expireAuth_inv: "ct_inv m \<Longrightarrow> ct_inv (snd (expireAuth now err m))"
  unfolding expireAuth_def
  by (rule fold_invariant [where Q = "\<lambda>_. True" and P = "\<lambda>s. ct_inv (snd s)"])
    (auto simp: expire_one_inv)

lemma ct_remove_inv: "ct_inv m \<Longrightarrow> ct_inv (ct_remove k m)"
  by (simp add: ct_remove_def removeLocked_inv split: option.split)

section \<open>The manager as a whole\<close>

datatype ct_op = CtGetOrCreate int string string string | CtObserve int string bytes bool
  | CtComplete "64 word" string "l3_error option" | CtCache nat packetMeta bytes | CtBatch int int
  | CtSent "64 word" int | CtExpire int l3_error | CtRetry int "64 word" int
  | CtRemove string | CtRemoveExpired int | CtClose

fun ct_step :: "ct_op \<Rightarrow> conntrackMgr \<Rightarrow> conntrackMgr option" where
  "ct_step (CtGetOrCreate now k a g) m = map_option snd (getOrCreate now k a g m)"
| "ct_step (CtObserve now k p inc) m = map_option snd (observePacket now k p inc m)"
| "ct_step (CtComplete i t e) m = Some (snd (completeAuth i t e m))"
| "ct_step (CtCache r mt p) m = Some (snd (cachePacket r mt p m))"
| "ct_step (CtBatch now l) m = Some (snd (nextAuthBatch now l m))"
| "ct_step (CtSent i d) m = Some (markAuthSent i d m)"
| "ct_step (CtExpire now e) m = Some (snd (expireAuth now e m))"
| "ct_step (CtRetry now i d) m = Some (snd (retryAuth now i d m))"
| "ct_step (CtRemove k) m = Some (ct_remove k m)"
| "ct_step (CtRemoveExpired now) m = Some (removeExpired now m)"
| "ct_step CtClose m = Some (ct_close m)"

lemma ct_step_safe: "ct_inv m \<Longrightarrow> \<exists>m'. ct_step e m = Some m' \<and> ct_inv m'"
proof (cases e)
  case (CtGetOrCreate now k a g)
  then show "ct_inv m \<Longrightarrow> ?thesis" using getOrCreate_runs [of m now k a g] by auto
next
  case (CtObserve now k p inc)
  then show "ct_inv m \<Longrightarrow> ?thesis" using observePacket_runs [of m now k p inc] by auto
qed (simp_all add: completeAuth_inv cachePacket_inv nextAuthBatch_def auth_batch_inv markAuthSent_inv
    expireAuth_inv retryAuth_inv ct_remove_inv removeExpired_def removeExpiredLocked_inv ct_close_inv)

interpretation ct: safe_ops ct_step ct_inv
proof unfold_locales
  show "ct_inv t" if "ct_inv m" "ct_step e m = Some t" for m e t
    using ct_step_safe [OF that(1), of e] that(2) by auto
  show "\<exists>t. ct_step e m = Some t" if "ct_inv m" for m e
    using ct_step_safe [OF that, of e] by auto
qed

section \<open>Bound of the table\<close>

lemma fold_maxEntries:
  "(\<And>r m. ct_inv m \<Longrightarrow> ct_inv (f r m) \<and> maxEntries (f r m) = maxEntries m) \<Longrightarrow> ct_inv m
   \<Longrightarrow> maxEntries (fold f rs m) = maxEntries m"
  by (induction rs arbitrary: m) auto

lemma removeExpiredLocked_max: "ct_inv m \<Longrightarrow> maxEntries (removeExpiredLocked now m) = maxEntries m"
  unfolding removeExpiredLocked_def
  by (rule fold_maxEntries) (auto simp: removeLocked_inv removeLocked_sel)

lemma auth_batch_max: "maxEntries (snd (auth_batch now l rs jobs m)) = maxEntries m"
  by (induction rs arbitrary: jobs m) auto

lemma removeLocked_max [simp]: "maxEntries (removeLocked r e m) = maxEntries m"
  by (simp add: removeLocked_def removeIndexesLocked_def Let_def)

lemma expireAuth_max: "maxEntries (snd (expireAuth now e m)) = maxEntries m"
proof -
  have one: "maxEntries (snd (expire_one now e r s)) = maxEntries (snd s)" for r s
    by (simp add: expire_one_def split_def Let_def)
  have "maxEntries (snd (fold (expire_one now e) rs s)) = maxEntries (snd s)" for rs s
    by (induction rs arbitrary: s) (auto simp: one)
  then show ?thesis by (simp add: expireAuth_def)
qed

lemma ct_close_max: "maxEntries (ct_close m) = maxEntries m"
proof -
  have "maxEntries (fold (\<lambda>r m. removeLocked r ErrNetClosed m) rs n) = maxEntries n" for rs n
    by (induction rs arbitrary: n) auto
  then show ?thesis by (simp add: ct_close_def)
qed

lemma ct_step_max:
  assumes "ct_inv m" "ct_step e m = Some m'"
  shows "maxEntries m' = maxEntries m"
proof (cases e)
  case (CtGetOrCreate now k a g)
  then show ?thesis
    using assms removeExpiredLocked_max [OF assms(1), of now]
      removeOldestLocked_sel(1) [OF removeExpiredLocked_inv [OF assms(1)], of now]
    by (auto simp: getOrCreate_def Let_def lru_touch_def removeOldestLocked_def bind_eq_Some_conv
        split: option.splits if_splits list.splits)
next
  case (CtObserve now k p inc)
  then show ?thesis
    using assms by (auto simp: observePacket_def lru_touch_def bind_eq_Some_conv split: option.splits if_splits)
next
  case (CtComplete i t e)
  then show ?thesis
    using assms by (auto simp: completeAuth_def Let_def removeIndexesLocked_def split: option.splits if_splits)
next
  case (CtExpire now e)
  then show ?thesis using assms expireAuth_max by auto
next
  case CtClose
  then show ?thesis using assms ct_close_max by auto
next
  case (CtRemoveExpired now)
  then show ?thesis using assms removeExpiredLocked_max by (auto simp: removeExpired_def)
qed (use assms in \<open>auto simp: cachePacket_def nextAuthBatch_def auth_batch_max markAuthSent_def
    retryAuth_def ct_remove_def Let_def split: option.splits if_splits\<close>)

definition mgr_inv :: "conntrackMgr \<Rightarrow> bool" where
  "mgr_inv m \<longleftrightarrow> ct_inv m \<and> maxEntries m = defaultConntrackMaxEntries"

interpretation mgr: safe_ops ct_step mgr_inv
proof unfold_locales
  show "mgr_inv t" if "mgr_inv m" "ct_step e m = Some t" for m e t
    using that ct.step_keeps ct_step_max by (auto simp: mgr_inv_def)
  show "\<exists>t. ct_step e m = Some t" if "mgr_inv m" for m e
    using that ct.step_runs by (auto simp: mgr_inv_def)
qed

section \<open>The TCP state machine as a relation\<close>

text \<open>\<open>tcp_edge flags incoming acks s t\<close>: the transitions the tracker is meant to make on a segment
  without RST. \<open>acks\<close> says that the segment acknowledges the recorded sequence number.\<close>

inductive tcp_edge :: "u16 \<Rightarrow> bool \<Rightarrow> bool \<Rightarrow> tcp_state \<Rightarrow> tcp_state \<Rightarrow> bool" where
  reset: "fl AND TCPRst \<noteq> 0 \<Longrightarrow> tcp_edge fl inc ack s StReset"
| server_opens: "fl AND TCPSyn \<noteq> 0 \<Longrightarrow> tcp_edge fl True ack StReset StInboundSyn"
| client_opens: "fl AND TCPSyn \<noteq> 0 \<Longrightarrow> tcp_edge fl False ack StReset StOutboundSyn"
| client_accepts: "fl AND TCPSyn \<noteq> 0 \<Longrightarrow> fl AND TCPAck \<noteq> 0 \<Longrightarrow> tcp_edge fl False True StInboundSyn StEstablished"
| client_syn: "fl AND TCPSyn \<noteq> 0 \<Longrightarrow> tcp_edge fl False ack StInboundSyn StSynAck"
| server_accepts: "fl AND TCPSyn \<noteq> 0 \<Longrightarrow> fl AND TCPAck \<noteq> 0 \<Longrightarrow> tcp_edge fl True True StOutboundSyn StSynAck"
| client_confirms: "fl AND TCPAck \<noteq> 0 \<Longrightarrow> tcp_edge fl False True StSynAck StEstablished"
| server_fin: "fl AND TCPFin \<noteq> 0 \<Longrightarrow> s = StSynAck \<or> s = StEstablished \<Longrightarrow> tcp_edge fl True ack s StInboundFin"
| client_fin: "fl AND TCPFin \<noteq> 0 \<Longrightarrow> s = StSynAck \<or> s = StEstablished \<Longrightarrow> tcp_edge fl False ack s StOutboundFin"
| client_closes: "fl AND TCPFin \<noteq> 0 \<Longrightarrow> tcp_edge fl False ack StInboundFin StInboundFirstClosed"
| server_closes: "fl AND TCPFin \<noteq> 0 \<Longrightarrow> tcp_edge fl True ack StOutboundFin StOutboundFirstClosed"

inductive_cases to_established: "tcp_edge fl inc ack s StEstablished"
inductive_cases to_first_closed: "tcp_edge fl inc ack s StInboundFirstClosed"

lemma or_flags:
  assumes "fl AND (TCPSyn OR TCPAck) = TCPSyn OR TCPAck"
  shows "fl AND TCPSyn \<noteq> 0" "fl AND TCPAck \<noteq> 0"
proof -
  have "fl AND TCPSyn = (fl AND (TCPSyn OR TCPAck)) AND TCPSyn" by (simp add: and.assoc bit.conj_disj_distrib2)
  then show "fl AND TCPSyn \<noteq> 0" using assms by (simp add: TCPSyn_def TCPAck_def)
  have "fl AND TCPAck = (fl AND (TCPSyn OR TCPAck)) AND TCPAck" by (simp add: and.assoc bit.conj_disj_distrib2)
  then show "fl AND TCPAck \<noteq> 0" using assms by (simp add: TCPSyn_def TCPAck_def)
qed

lemma tcp_transition_edge:
  assumes "d = (if inc then 1 else 0)" "tcpState (tcp_transition fl s a d ct) \<noteq> tcpState ct"
  shows "tcp_edge fl inc (a = tcpSeq ct + 1) (tcpState ct) (tcpState (tcp_transition fl s a d ct))"
proof (cases "tcpState ct")
  case StReset
  then show ?thesis using assms by (auto simp: tcp_transition_def intro: tcp_edge.intros split: if_splits)
next
  case StInboundSyn
  then show ?thesis using assms
    by (auto simp: tcp_transition_def intro: client_accepts client_syn split: if_splits)
next
  case StOutboundSyn
  then show ?thesis using assms or_flags [of fl]
    by (auto simp: tcp_transition_def intro: server_accepts split: if_splits)
next
  case StSynAck
  then show ?thesis using assms
    by (auto simp: tcp_transition_def observeTCPFin_def intro: client_confirms server_fin client_fin
        split: if_splits)
next
  case StEstablished
  then show ?thesis using assms
    by (auto simp: tcp_transition_def observeTCPFin_def intro: server_fin client_fin split: if_splits)
next
  case StInboundFin
  then show ?thesis using assms by (auto simp: tcp_transition_def intro: client_closes split: if_splits)
next
  case StOutboundFin
  then show ?thesis using assms by (auto simp: tcp_transition_def intro: server_closes split: if_splits)
qed (use assms in \<open>simp_all add: tcp_transition_def\<close>)

section \<open>Properties\<close>


lemma removeExpiredLocked_none:
  assumes "\<forall>r \<in> set (lru m). now < ct_expiry m r"
  shows "removeExpiredLocked now m = m"
proof -
  have "\<forall>r \<in> set rs. now < ct_expiry m r \<Longrightarrow>
    fold (\<lambda>r m. if now < ct_expiry m r then m else removeLocked r ErrConntrackEvicted m) rs m = m" for rs
    by (induction rs) auto
  then show ?thesis using assms by (simp add: removeExpiredLocked_def)
qed

lemma evict_oldest:
  assumes inv: "ct_inv m" and old: "lru m = r # rest"
  shows "store (removeOldestLocked m) r = (store m r)\<lparr>inLru := False, pending := [],
      authErr := (if authClosed (store m r) then authErr (store m r) else Some ErrConntrackEvicted),
      authClosed := True\<rparr>"
    "byKey (removeOldestLocked m) = mdel (ckey (store m r)) (byKey m)"
proof -
  have "indexes_ok m" "r \<in> set (lru m)" using inv old by (auto simp: ct_inv_def)
  note s = removeIndexes_in [OF this]
  show "byKey (removeOldestLocked m) = mdel (ckey (store m r)) (byKey m)"
    using old by (simp add: removeOldestLocked_def removeLocked_def s)
  show "store (removeOldestLocked m) r = (store m r)\<lparr>inLru := False, pending := [],
      authErr := (if authClosed (store m r) then authErr (store m r) else Some ErrConntrackEvicted),
      authClosed := True\<rparr>"
    using old by (simp add: removeOldestLocked_def removeLocked_def s)
qed

text \<open>When the table is full and nothing has expired, a new flow evicts exactly the least
  recently used conntrack: it leaves the index, senders waiting on it get the eviction error, all
  other flows keep their conntracks, and the new flow is the most recent one.\<close>

lemma full_table_evicts_least_recent:
  assumes "ct_inv m" and "\<not> mclosed m" and "mget (byKey m) k = None"
    and "\<forall>r \<in> set (lru m). now < ct_expiry m r"
    and "maxEntries m \<le> int (length (byKey m))" and "lru m = old # rest"
  shows "\<exists>r m'. getOrCreate now k app grp m = Some (r, m') \<and> lru m' = rest @ [r]
     \<and> (\<forall>j. mget (byKey m') j = (if j = k then Some r else if j = ckey (store m old) then None
          else mget (byKey m) j))
     \<and> authResult old m' = Some (connectToken (store m old),
          if authClosed (store m old) then authErr (store m old) else Some ErrConntrackEvicted)"
proof -
  let ?y = "removeOldestLocked m" and ?r = "fresh m"
  let ?m = "ct_insert k (new_conntrack k (nextAuthID m + 1) app grp now) ?y"
  have x: "removeExpiredLocked now m = m" using removeExpiredLocked_none assms(4) by blast
  then have "getOrCreate now k app grp m = Some (?r, ?m)"
    using getOrCreate_miss [of now m k app grp] assms by simp
  moreover have f: "fresh ?y = ?r" "lru ?y = rest"
    using removeOldestLocked_sel(2,4) [OF assms(1)] assms(6) by simp_all
  moreover have "old \<noteq> ?r" using assms(1,6) fresh_not_in_lru [of m] by (auto simp: ct_inv_def)
  ultimately show ?thesis
    using evict_oldest [OF assms(1,6)] by (simp add: ct_insert_def Let_def authResult_def)
qed


definition sample_segment :: bytes where
  "sample_segment = [0, 80, 4, 210, 0, 0, 0, 9, 0, 0, 0, 8, 0x50, 0x12, 0, 0, 0, 0, 0, 0]"

lemma sample_segment_fields:
  "TCP_Flags sample_segment = Some 0x12" "be32_at sample_segment 4 = Some 9"
  "be32_at sample_segment 8 = Some 8"
  by (simp_all add: sample_segment_def TCP_Flags_def be32_at_def idx_def be32_def be16_def)


text \<open>A flow is counted as established, with the six hour lifetime, only on a segment from the
  client with ACK that acknowledges the recorded sequence number in a half-open state.\<close>

theorem established_needs_client_ack:
  assumes "observeTCP t (if inc then 1 else 0) ct = Some ct'"
    and "tcpState ct' = StEstablished" and "tcpState ct \<noteq> StEstablished"
  shows "\<not> inc \<and> (\<exists>fl. TCP_Flags t = Some fl \<and> fl AND TCPAck \<noteq> 0)
     \<and> be32_at t 8 = Some (tcpSeq ct + 1) \<and> tcpState ct \<in> {StInboundSyn, StSynAck}
     \<and> tcpTTL ct' = tcpEstablishedTTL"
proof -
  obtain fl where fl: "TCP_Flags t = Some fl" "fl AND TCPRst = 0"
    using assms by (auto simp: observeTCP_def bind_eq_Some_conv split: if_splits)
  define c where "c = (if tcpTTL ct = 0 then ct\<lparr>tcpTTL := defaultConntrackTTL\<rparr> else ct)"
  obtain s ack where a: "be32_at t 8 = Some ack" "ct' = tcp_transition fl s ack (if inc then 1 else 0) c"
    using assms fl by (auto simp: observeTCP_def bind_eq_Some_conv Let_def c_def)
  have c: "tcpState c = tcpState ct" "tcpSeq c = tcpSeq ct" by (simp_all add: c_def)
  then have "tcp_edge fl inc (ack = tcpSeq ct + 1) (tcpState ct) StEstablished"
    using tcp_transition_edge [OF refl, where inc = inc and fl = fl and s = s and a = ack and ct = c] assms(2,3) unfolding a(2) by metis
  then have e: "\<not> inc" "ack = tcpSeq ct + 1" "fl AND TCPAck \<noteq> 0" "tcpState ct \<in> {StInboundSyn, StSynAck}"
    by (auto elim: to_established)
  then have "tcpState c = StInboundSyn \<or> tcpState c = StSynAck" by (simp add: c)
  then have "tcpTTL ct' = tcpEstablishedTTL"
    using assms(2) e(1) unfolding a(2)
    by (elim disjE) (simp_all add: tcp_transition_def observeTCPFin_def split: if_splits)
  with e fl a(1) show ?thesis by blast
qed

theorem established_needs_client_ack_witness:
  "\<exists>ct'. observeTCP sample_segment 0 ((new_conntrack [] 1 [] [] 0)\<lparr>tcpState := StSynAck, tcpSeq := 7\<rparr>)
       = Some ct' \<and> tcpTTL ct' = seconds 21600"
proof -
  let ?c = "(new_conntrack [] 1 [] [] 0)\<lparr>tcpState := StSynAck, tcpSeq := 7\<rparr>"
  obtain ct' where o: "observeTCP sample_segment (if False then 1 else 0) ?c = Some ct'"
    "tcpState ct' = StEstablished"
    by (simp add: observeTCP_def sample_segment_fields tcp_transition_def TCPRst_def TCPAck_def)
  show ?thesis using established_needs_client_ack [OF o] o(1) by (simp add: tcpEstablishedTTL_def)
qed

definition small_mgr :: conntrackMgr where
  "small_mgr = newConntrackMgr\<lparr>maxEntries := 1\<rparr>"

definition small_mgr1 :: conntrackMgr where
  "small_mgr1 = ct_insert ''a'' (new_conntrack ''a'' 1 [] [] 0) small_mgr"

lemma small_mgr1_inv: "ct_inv small_mgr1"
proof -
  have "ct_inv small_mgr" using new_mgr_inv
    by (simp add: small_mgr_def ct_inv_def indexes_ok_def newConntrackMgr_def)
  then show ?thesis unfolding small_mgr1_def
    by (rule ct_insert_inv)
      (simp_all add: small_mgr_def newConntrackMgr_def new_conntrack_def conntrack_ok_def)
qed

lemma small_mgr1_sel:
  "lru small_mgr1 = [0]" "mget (byKey small_mgr1) ''b'' = None" "\<not> mclosed small_mgr1"
  "maxEntries small_mgr1 = 1" "length (byKey small_mgr1) = 1"
  "ct_expiry small_mgr1 0 = 60000000000" "ckey (store small_mgr1 0) = ''a''"
  "mget (byKey small_mgr1) ''a'' = Some 0" "connectToken (store small_mgr1 0) = []"
  "authClosed (store small_mgr1 0) = False"
  by (simp_all add: small_mgr1_def small_mgr_def newConntrackMgr_def ct_insert_def Let_def
      ct_expiry_def new_conntrack_def defaultConntrackTTL_def seconds_def mset_def mget_def)

lemma full_table_evicts_least_recent_example:
  "\<exists>r m'. getOrCreate 1 ''b'' [] [] small_mgr1 = Some (r, m') \<and> mget (byKey m') ''a'' = None
     \<and> mget (byKey m') ''b'' = Some r \<and> authResult 0 m' = Some ([], Some ErrConntrackEvicted)"
proof -
  have "\<forall>r \<in> set (lru small_mgr1). 1 < ct_expiry small_mgr1 r" by (simp add: small_mgr1_sel)
  then show ?thesis
    using full_table_evicts_least_recent [OF small_mgr1_inv small_mgr1_sel(3,2), of 1 0 "[]" "[]" "[]"]
    by (auto simp: small_mgr1_sel)
qed

text \<open>Caching several packets in a row.\<close>

definition cache_all :: "nat \<Rightarrow> packetMeta \<Rightarrow> bytes list \<Rightarrow> conntrackMgr \<Rightarrow> conntrackMgr" where
  "cache_all r mt ps m = fold (\<lambda>p m. snd (cachePacket r mt p m)) ps m"

lemma cache_all_pending:
  assumes "mget (byKey m) (ckey (store m r)) = Some r" "\<not> authClosed (store m r)"
    "length (pending (store m r)) + length ps \<le> defaultPendingPacketLimit"
  shows "pending (store (cache_all r mt ps m) r) = pending (store m r) @ ps
    \<and> byKey (cache_all r mt ps m) = byKey m \<and> byID (cache_all r mt ps m) = byID m
    \<and> \<not> authClosed (store (cache_all r mt ps m) r) \<and> ckey (store (cache_all r mt ps m) r) = ckey (store m r)"
  using assms
proof (induction ps arbitrary: m)
  case Nil
  then show ?case by (simp add: cache_all_def)
next
  case (Cons p ps)
  let ?m = "snd (cachePacket r mt p m)"
  have m: "?m = ct_update r (\<lambda>c. c\<lparr>authMeta := mt, pending := pending c @ [p]\<rparr>) m"
    using Cons.prems by (simp add: cachePacket_def Let_def)
  have "cache_all r mt (p # ps) m = cache_all r mt ps ?m" by (simp add: cache_all_def)
  then show ?case using Cons.IH [of ?m] Cons.prems by (simp add: m)
qed

text \<open>Packets sent before the authentication is answered are kept in order and handed out, all
  and once, when it succeeds; a failed authentication hands out none and removes the conntrack.\<close>

lemma pending_packets_flushed_in_order:
  fixes mt :: packetMeta
  assumes "ct_inv m" and "mget (byKey m) k = Some r" and "mget (byID m) i = Some r"
    and "\<not> authClosed (store m r)" and "pending (store m r) = []" and "length ps \<le> 1024"
  defines "m' \<equiv> cache_all r mt ps m"
  shows "fst (completeAuth i token None m') = (Some r, ps)
    \<and> fst (completeAuth i token None (snd (completeAuth i token None m'))) = (None, [])
    \<and> fst (completeAuth i token (Some e) m') = (Some r, [])
    \<and> mget (byKey (snd (completeAuth i token (Some e) m'))) k = None"
proof -
  have k: "ckey (store m r) = k" using byKey_in_lru [OF assms(1,2)] by simp
  then have p: "pending (store m' r) = ps" "byKey m' = byKey m" "byID m' = byID m"
    "\<not> authClosed (store m' r)" "ckey (store m' r) = k"
    using cache_all_pending [of m r ps mt] assms(2,4,5,6)
    by (simp_all add: m'_def defaultPendingPacketLimit_def)
  then show ?thesis
    using assms(2,3) by (simp add: completeAuth_def Let_def removeIndexesLocked_def)
qed

lemma pending_packets_flushed_in_order_example:
  "fst (completeAuth 1 ''t'' None (cache_all 0 no_meta [[1], [2]] small_mgr1)) = (Some 0, [[1], [2]])"
proof -
  have "mget (byID small_mgr1) 1 = Some 0" "pending (store small_mgr1 0) = []"
    by (simp_all add: small_mgr1_def small_mgr_def newConntrackMgr_def ct_insert_def Let_def
        new_conntrack_def)
  then show ?thesis
    using pending_packets_flushed_in_order [OF small_mgr1_inv small_mgr1_sel(8), of 1 "[[1], [2]]"]
    by (simp add: small_mgr1_sel)
qed

definition late_answer :: "ct_op list" where
  "late_answer =
     [CtGetOrCreate 0 ''a'' [] [], CtCache 0 no_meta [1], CtBatch 0 64, CtSent 1 5,
      CtExpire 5 ErrAuthTimeout, CtBatch 5 64, CtSent 1 10,
      CtExpire 10 ErrAuthTimeout, CtBatch 10 64, CtSent 1 15, CtComplete 1 ''token'' None]"

text \<open>A conntrack that is authenticated after two timeouts is still removed when the deadline of
  its last request passes, because the deadline is not cleared by the answer.\<close>

theorem deadline_outlives_authentication:
  "\<exists>m m'. run_ops ct_step late_answer newConntrackMgr = Some m
     \<and> getByKey m ''a'' = Some 0 \<and> authResult 0 m = Some (''token'', None)
     \<and> run_ops ct_step (late_answer @ [CtExpire 15 ErrAuthTimeout]) newConntrackMgr = Some m'
     \<and> getByKey m' ''a'' = None"
proof -
  have 1: "map_option (\<lambda>m. (getByKey m ''a'', authResult 0 m)) (run_ops ct_step late_answer newConntrackMgr)
      = Some (Some 0, Some (''token'', None))" by code_simp
  have 2: "map_option (\<lambda>m. getByKey m ''a'') (run_ops ct_step (late_answer @ [CtExpire 15 ErrAuthTimeout]) newConntrackMgr)
      = Some None" by code_simp
  show ?thesis using 1 2 by auto
qed

end
