(* ===== verification/L3Conn.thy ===== *)
theory L3Conn
  imports Conntrack
begin

text \<open>
  One connection of the aTrust L3 tunnel (\<open>client/atrust/l3tunnelconn.go\<close>): sending packets
  behind the per-flow authentication, the handler of every server frame, the authentication loop
  and the heartbeat.

  The state holds the conntrack manager the connection was given, its incoming queue (a channel of
  128 packets), the frames written so far (\<open>sent\<close>) and the counters of the heartbeat. The outcome of
  the \<open>n\<close>-th write on the transport is \<open>werr n\<close>; writing on a closed connection fails. \<open>None\<close> as a
  result is a panic, or the end of the process by \<open>log.Fatalf\<close>. What is not in the repository is in
  \<open>l3env\<close>: the JSON decoders and the text of an authentication request (JSON and HMAC).
\<close>

record authResponseIP =
  rCode :: int
  rMessage :: string
  rConntrackHash :: "64 word"
  rConnectToken :: string
  rIP :: authIP

record l3env =
  jsonAuth :: "bytes \<Rightarrow> authResponseIP option"
  jsonVIP :: "bytes \<Rightarrow> ((string \<times> string) \<times> (string \<times> string)) option"
  authRequest :: "conntrack \<Rightarrow> packetMeta \<Rightarrow> l3_error + bytes"
  embedded :: bool

record l3conn =
  incoming :: "bytes list"
  cclosed :: bool
  mgr :: conntrackMgr
  hbMisses :: int
  hbMissLimit :: int
  hbHasWrite :: bool
  authWake :: bool
  dataStream :: bytes
  sent :: "bytes list"
  werr :: "nat \<Rightarrow> l3_error option"
  writes :: nat
  vipReports :: "ip list list"

definition new_l3conn :: "conntrackMgr \<Rightarrow> (nat \<Rightarrow> l3_error option) \<Rightarrow> l3conn" where
  "new_l3conn m w =
     \<lparr>incoming = [], cclosed = False, mgr = m, hbMisses = 0, hbMissLimit = 3, hbHasWrite = False,
      authWake = False, dataStream = [], sent = [], werr = w, writes = 0, vipReports = []\<rparr>"

definition l3_close :: "l3conn \<Rightarrow> l3conn" where
  "l3_close c = c\<lparr>cclosed := True\<rparr>"

definition writeFrame :: "bytes \<Rightarrow> l3conn \<Rightarrow> l3_error option \<times> l3conn" where
  "writeFrame d c =
     (if cclosed c then (Some ErrNetClosed, c)
      else (case werr c (writes c) of
              Some e \<Rightarrow> (Some e, c\<lparr>writes := Suc (writes c)\<rparr>)
            | None \<Rightarrow> (None, c\<lparr>writes := Suc (writes c), sent := sent c @ [d], hbHasWrite := True\<rparr>)))"


section \<open>Sending\<close>

definition notifyAuth :: "l3conn \<Rightarrow> l3conn" where
  "notifyAuth c = c\<lparr>authWake := True\<rparr>"

definition writeAuthenticatedPacket :: "string \<Rightarrow> bytes \<Rightarrow> l3conn \<Rightarrow> l3_error option \<times> l3conn" where
  "writeAuthenticatedPacket token pkt c =
     (if 255 < length token then (Some (ErrText ''l3-tunnel connect token too long''), c)
      else writeFrame (getDataPayload token pkt) c)"

definition WritePacket ::
  "int \<Rightarrow> packetMeta \<Rightarrow> string \<Rightarrow> string \<Rightarrow> bytes \<Rightarrow> l3conn \<Rightarrow> (l3_error option \<times> l3conn) option" where
  "WritePacket now mt app grp pkt c =
     do {
       (r, m) \<leftarrow> getOrCreate now (mkey mt) app grp (mgr c);
       (_, m) \<leftarrow> observePacket now (mkey mt) pkt False m;
       let c = c\<lparr>mgr := m\<rparr>;
       Some (case authResult r m of
          Some (token, Some e) \<Rightarrow> (Some e, c)
        | Some (token, None) \<Rightarrow> writeAuthenticatedPacket token pkt c
        | None \<Rightarrow>
            (let ((_, err), m) = cachePacket r mt pkt m; c = c\<lparr>mgr := m\<rparr>
             in if err = Some ErrPendingPacketCacheFull then (None, c)
                else if err \<noteq> None then (err, c)
                else (None, notifyAuth c)))
     }"

definition ReadPacket :: "l3conn \<Rightarrow> (l3_error + bytes) option \<times> l3conn" where
  "ReadPacket c =
     (case incoming c of
        p # ps \<Rightarrow> (Some (Inr p), c\<lparr>incoming := ps\<rparr>)
      | [] \<Rightarrow> (if cclosed c then (Some (Inl ErrEOF), c) else (None, c)))"


section \<open>The authentication loop\<close>

definition sendAuthRequest :: "l3env \<Rightarrow> nat \<Rightarrow> packetMeta \<Rightarrow> l3conn \<Rightarrow> l3_error option \<times> l3conn" where
  "sendAuthRequest env r mt c =
     (case authRequest env (store (mgr c) r) mt of
        Inl e \<Rightarrow> (Some e, c)
      | Inr req \<Rightarrow> writeFrame (auth_frame req) c)"

definition defaultAuthTimeout :: int where "defaultAuthTimeout = seconds 5"
definition defaultAuthRetryWait :: int where "defaultAuthRetryWait = seconds 10"
definition defaultAuthBatchSize :: int where "defaultAuthBatchSize = 64"

text \<open>The requests of one batch; \<open>False\<close> when a request could not be sent and the connection was
  closed.\<close>

fun send_jobs :: "l3env \<Rightarrow> int \<Rightarrow> (nat \<times> packetMeta) list \<Rightarrow> l3conn \<Rightarrow> bool \<times> l3conn" where
  "send_jobs env now [] c = (True, c)"
| "send_jobs env now ((r, mt) # jobs) c =
     (case sendAuthRequest env r mt c of
        (Some e, c) \<Rightarrow> (False, l3_close (c\<lparr>mgr := markAuth (authID (store (mgr c) r)) [] (Some e) (mgr c)\<rparr>))
      | (None, c) \<Rightarrow>
          send_jobs env now jobs
            (c\<lparr>mgr := markAuthSent (authID (store (mgr c) r)) (now + defaultAuthTimeout) (mgr c)\<rparr>))"

text \<open>The loop of \<open>dispatchPendingAuth\<close>; a round that leaves conntracks waiting starts 64 of them, so
  as many rounds as there are conntracks are enough.\<close>

fun dispatch_rounds :: "nat \<Rightarrow> l3env \<Rightarrow> int \<Rightarrow> l3conn \<Rightarrow> (bool \<times> l3conn) option" where
  "dispatch_rounds 0 env now c = None"
| "dispatch_rounds (Suc n) env now c =
     (let ((jobs, more), m) = nextAuthBatch now defaultAuthBatchSize (mgr c);
          (good, c) = send_jobs env now jobs (c\<lparr>mgr := m\<rparr>)
      in if \<not> good then Some (False, c)
         else if \<not> more then Some (True, c)
         else dispatch_rounds n env now c)"

definition dispatchPendingAuth :: "l3env \<Rightarrow> int \<Rightarrow> l3conn \<Rightarrow> (bool \<times> l3conn) option" where
  "dispatchPendingAuth env now c = dispatch_rounds (Suc (length (lru (mgr c)))) env now c"

text \<open>One event of \<open>authLoop\<close>: the wake-up and the scan tick.\<close>

definition auth_woken :: "l3env \<Rightarrow> int \<Rightarrow> l3conn \<Rightarrow> (bool \<times> l3conn) option" where
  "auth_woken env now c =
     (if authWake c then dispatchPendingAuth env now (c\<lparr>authWake := False\<rparr>) else Some (True, c))"

definition auth_tick :: "l3env \<Rightarrow> int \<Rightarrow> l3conn \<Rightarrow> (bool \<times> l3conn) option" where
  "auth_tick env now c =
     dispatchPendingAuth env now (c\<lparr>mgr := snd (expireAuth now ErrAuthTimeout (mgr c))\<rparr>)"

fun flush_packets :: "string \<Rightarrow> bytes list \<Rightarrow> l3conn \<Rightarrow> l3conn" where
  "flush_packets token [] c = c"
| "flush_packets token (p # ps) c =
     (case writeAuthenticatedPacket token p c of
        (Some _, c) \<Rightarrow> l3_close c
      | (None, c) \<Rightarrow> flush_packets token ps c)"

definition completeAuthentication :: "64 word \<Rightarrow> string \<Rightarrow> l3_error option \<Rightarrow> l3conn \<Rightarrow> l3conn" where
  "completeAuthentication i token err c =
     (case getByID (mgr c) i of
        None \<Rightarrow> c
      | Some _ \<Rightarrow>
          (let ((_, packets), m) = completeAuth i token err (mgr c); c = c\<lparr>mgr := m\<rparr>
           in if err \<noteq> None then c else flush_packets token packets c))"

definition markAuthErrorFromPayload :: "l3env \<Rightarrow> bytes \<Rightarrow> l3_error \<Rightarrow> l3conn \<Rightarrow> l3conn" where
  "markAuthErrorFromPayload env payload err c =
     (case jsonAuth env payload of
        Some resp \<Rightarrow>
          if rConntrackHash resp \<noteq> 0 then completeAuthentication (rConntrackHash resp) [] (Some err) c else c
      | None \<Rightarrow> c)"

definition scheduleAuthRetry :: "int \<Rightarrow> 64 word \<Rightarrow> int \<Rightarrow> l3conn \<Rightarrow> l3conn" where
  "scheduleAuthRetry now i delay c =
     (let (ok, m) = retryAuth now i delay (mgr c); c = c\<lparr>mgr := m\<rparr>
      in if ok then notifyAuth c else c)"

definition isRetryableAuthResponse :: "byte \<Rightarrow> bool" where
  "isRetryableAuthResponse st \<longleftrightarrow> 0x85 \<le> st \<and> st \<le> 0x87"

definition handleAuthResp :: "l3env \<Rightarrow> int \<Rightarrow> byte \<Rightarrow> bytes \<Rightarrow> l3conn \<Rightarrow> l3conn option" where
  "handleAuthResp env now st payload c =
     (case jsonAuth env payload of
        None \<Rightarrow> Some (markAuthErrorFromPayload env payload (ErrText ''invalid json'') c)
      | Some resp \<Rightarrow>
          if session_invalid_code (rCode resp) then
            (if embedded env
             then Some (markAuthErrorFromPayload env payload (ErrText ''aTrust session is invalid'') c)
             else None)
          else
            (case (case getByID (mgr c) (rConntrackHash resp) of
                     Some r \<Rightarrow> Some r
                   | None \<Rightarrow> getByAuthResponseIP (mgr c) (rIP resp)) of
               None \<Rightarrow> Some (markAuthErrorFromPayload env payload (ErrText ''missing conntrack hash'') c)
             | Some r \<Rightarrow>
                 (let i = authID (store (mgr c) r)
                  in if st \<noteq> 0 then
                       if st = 0x84 then Some (scheduleAuthRetry now i 0 c)
                       else if isRetryableAuthResponse st
                       then Some (scheduleAuthRetry now i defaultAuthRetryWait c)
                       else Some (completeAuthentication i [] (Some (ErrText (''auth status ''
                              @ dec (unat st) @ '': '' @ rMessage resp))) c)
                     else Some (completeAuthentication i (rConnectToken resp) None c))))"

definition handleSecondVipResp :: "l3env \<Rightarrow> byte \<Rightarrow> bytes \<Rightarrow> l3conn \<Rightarrow> l3conn" where
  "handleSecondVipResp env st payload c =
     (if st \<noteq> 0 then c
      else
        (let ips = extractVIPs (jsonVIP env) payload
         in if ips = [] then c else c\<lparr>vipReports := vipReports c @ [ips]\<rparr>))"

section \<open>Receiving\<close>

definition refreshIncomingConntrack :: "int \<Rightarrow> bytes \<Rightarrow> l3conn \<Rightarrow> l3conn option" where
  "refreshIncomingConntrack now packet c =
     do {
       v \<leftarrow> IPv4_Valid packet;
       if \<not> v then Some c
       else do {
         r \<leftarrow> buildPacketMeta packet;
         (case r of
            Inl _ \<Rightarrow> Some c
          | Inr mt \<Rightarrow> do {
              let mt = mt\<lparr>srcIP := dstIP mt, dstIP := srcIP mt, srcPort := dstPort mt, dstPort := srcPort mt\<rparr>;
              (_, m) \<leftarrow> observePacket now (connTrackKey mt) packet True (mgr c);
              Some (c\<lparr>mgr := m\<rparr>)
            })
       }
     }"

text \<open>\<open>incoming\<close> is a channel of 128 packets; a packet that finds it full is dropped.\<close>

definition deliverIncoming :: "bytes \<Rightarrow> l3conn \<Rightarrow> bool \<times> l3conn" where
  "deliverIncoming packet c =
     (if cclosed c then (False, c)
      else if length (incoming c) < 128 then (True, c\<lparr>incoming := incoming c @ [packet]\<rparr>)
      else (True, c))"

fun deliver_packets :: "int \<Rightarrow> bytes list \<Rightarrow> l3conn \<Rightarrow> (bool \<times> l3conn) option" where
  "deliver_packets now [] c = Some (True, c)"
| "deliver_packets now (p # ps) c =
     do {
       c \<leftarrow> refreshIncomingConntrack now p c;
       let (go, c) = deliverIncoming p c;
       if go then deliver_packets now ps c else Some (False, c)
     }"

text \<open>The body of \<open>readLoop\<close> on one frame; the flag says whether the loop goes on.\<close>

definition handle_frame :: "l3env \<Rightarrow> int \<Rightarrow> frame \<Rightarrow> l3conn \<Rightarrow> (bool \<times> l3conn) option" where
  "handle_frame env now fr c =
     (if cmd fr = cmdDataResp then
        (case splitIncomingIPPackets (dataStream c @ fpayload fr) of
           Inl _ \<Rightarrow> Some (False, l3_close (c\<lparr>dataStream := dataStream c @ fpayload fr\<rparr>))
         | Inr (packets, remaining) \<Rightarrow> deliver_packets now packets (c\<lparr>dataStream := remaining\<rparr>))
      else if cmd fr = cmdAuthResp then
        map_option (Pair True) (handleAuthResp env now (status fr) (fpayload fr) c)
      else if cmd fr = cmdSecondVipResp then
        Some (True, handleSecondVipResp env (status fr) (fpayload fr) c)
      else if cmd fr = cmdHeartbeatResp then Some (True, c\<lparr>hbHasWrite := False, hbMisses := 0\<rparr>)
      else Some (True, c))"

text \<open>\<open>readLoop\<close> over the input that is left: it ends, with the connection closed, at the first frame
  that cannot be read. Every frame takes at least two bytes, so the input's length bounds the rounds.\<close>

fun read_rounds :: "nat \<Rightarrow> l3env \<Rightarrow> int \<Rightarrow> bytes \<Rightarrow> l3conn \<Rightarrow> l3conn option" where
  "read_rounds 0 env now input c = None"
| "read_rounds (Suc n) env now input c =
     (case readFrame input of
        Inl _ \<Rightarrow> Some (l3_close c)
      | Inr (fr, rest) \<Rightarrow> do {
          (go, c) \<leftarrow> handle_frame env now fr c;
          if go then read_rounds n env now rest c else Some c
        })"

definition readLoop :: "l3env \<Rightarrow> int \<Rightarrow> bytes \<Rightarrow> l3conn \<Rightarrow> l3conn option" where
  "readLoop env now input c = read_rounds (Suc (length input)) env now input c"


section \<open>The heartbeat\<close>

definition sendHeartbeat :: "l3conn \<Rightarrow> bool \<times> l3conn" where
  "sendHeartbeat c =
     (case writeFrame heartbeat_frame c of
        (Some _, c) \<Rightarrow> (False, l3_close c)
      | (None, c) \<Rightarrow> (True, c))"

text \<open>One tick of \<open>heartbeatLoop\<close>.\<close>

definition heartbeat_tick :: "int \<Rightarrow> l3conn \<Rightarrow> bool \<times> l3conn" where
  "heartbeat_tick now c =
     (let c = c\<lparr>mgr := removeExpired now (mgr c)\<rparr>; wrote = hbHasWrite c; c = c\<lparr>hbHasWrite := False\<rparr>;
          limit = (if hbMissLimit c \<le> 0 then 3 else hbMissLimit c)
      in if wrote then (True, c\<lparr>hbMisses := 0\<rparr>)
         else if limit \<le> hbMisses c then (False, l3_close c)
         else sendHeartbeat (c\<lparr>hbMisses := hbMisses c + 1\<rparr>))"


section \<open>The connection as a step function\<close>

datatype l3_event = EvWrite int packetMeta string string bytes | EvRead
  | EvFrame int frame | EvAuthWake int | EvAuthTick int | EvHeartbeat int | EvClose

fun l3_step :: "l3env \<Rightarrow> l3_event \<Rightarrow> l3conn \<Rightarrow> l3conn option" where
  "l3_step env (EvWrite now mt a g p) c = map_option snd (WritePacket now mt a g p c)"
| "l3_step env EvRead c = Some (snd (ReadPacket c))"
| "l3_step env (EvFrame now fr) c = map_option snd (handle_frame env now fr c)"
| "l3_step env (EvAuthWake now) c = map_option snd (auth_woken env now c)"
| "l3_step env (EvAuthTick now) c = map_option snd (auth_tick env now c)"
| "l3_step env (EvHeartbeat now) c = Some (snd (heartbeat_tick now c))"
| "l3_step env EvClose c = Some (l3_close c)"

section \<open>The invariant of a connection\<close>

definition hb_inv :: "l3conn \<Rightarrow> bool" where
  "hb_inv c \<longleftrightarrow> cclosed c \<or> hbMisses c \<le> 1 \<and> (hbMisses c = 1 \<longrightarrow> hbHasWrite c)"

definition l3_inv :: "l3conn \<Rightarrow> bool" where
  "l3_inv c \<longleftrightarrow> ct_inv (mgr c) \<and> hb_inv c"

lemma hb_inv_mgr [simp]: "hb_inv (c\<lparr>mgr := m\<rparr>) = hb_inv c"
  by (simp add: hb_inv_def)

lemma l3_inv_mgr: "l3_inv c \<Longrightarrow> ct_inv m \<Longrightarrow> l3_inv (c\<lparr>mgr := m\<rparr>)"
  by (simp add: l3_inv_def)

lemma l3_inv_close: "l3_inv c \<Longrightarrow> l3_inv (l3_close c)"
  by (simp add: l3_inv_def l3_close_def hb_inv_def)

lemma l3_inv_wake: "l3_inv c \<Longrightarrow> l3_inv (c\<lparr>authWake := b\<rparr>)"
  by (simp add: l3_inv_def hb_inv_def)

lemma l3_inv_other:
  "l3_inv c \<Longrightarrow> l3_inv (c\<lparr>incoming := q\<rparr>)" "l3_inv c \<Longrightarrow> l3_inv (c\<lparr>dataStream := d\<rparr>)"
  "l3_inv c \<Longrightarrow> l3_inv (c\<lparr>vipReports := v\<rparr>)"
  by (simp_all add: l3_inv_def hb_inv_def)

lemma writeFrame_inv: "l3_inv c \<Longrightarrow> l3_inv (snd (writeFrame d c))"
  by (auto simp: l3_inv_def writeFrame_def hb_inv_def split: option.split)

lemma writeFrame_mgr [simp]: "mgr (snd (writeFrame d c)) = mgr c"
  by (simp add: writeFrame_def split: option.split)

lemma writeAuthenticated_inv: "l3_inv c \<Longrightarrow> l3_inv (snd (writeAuthenticatedPacket t p c))"
  by (simp add: writeAuthenticatedPacket_def writeFrame_inv)

lemma WritePacket_runs:
  assumes "l3_inv c"
  shows "\<exists>e c'. WritePacket now mt a g p c = Some (e, c') \<and> l3_inv c'"
proof -
  obtain r m where 1: "getOrCreate now (mkey mt) a g (mgr c) = Some (r, m)" "ct_inv m"
    using getOrCreate_runs assms by (metis l3_inv_def)
  obtain b m' where 2: "observePacket now (mkey mt) p False m = Some (b, m')" "ct_inv m'"
    using observePacket_runs [OF 1(2)] by blast
  let ?c = "c\<lparr>mgr := m'\<rparr>"
  have c: "l3_inv ?c" using assms 2(2) by (rule l3_inv_mgr)
  obtain res m'' where 3: "cachePacket r mt p m' = (res, m'')" by fastforce
  then have "ct_inv m''" using cachePacket_inv [OF 2(2), of r mt p] by simp
  then have "l3_inv (c\<lparr>mgr := m''\<rparr>)" using assms by (intro l3_inv_mgr)
  then have n: "l3_inv (notifyAuth (c\<lparr>mgr := m''\<rparr>))" "l3_inv (c\<lparr>mgr := m''\<rparr>)"
    using l3_inv_wake by (simp_all add: notifyAuth_def)
  show ?thesis
  proof (cases "authResult r m'")
    case None
    obtain x err where "res = (x, err)" by fastforce
    then show ?thesis
      using n by (cases "err = Some ErrPendingPacketCacheFull"; cases err)
        (simp_all add: WritePacket_def 1 2 3 None Let_def)
  next
    case (Some te)
    obtain token err where te: "te = (token, err)" by fastforce
    show ?thesis
    proof (cases err)
      case None
      obtain e c' where "writeAuthenticatedPacket token p ?c = (e, c')" by fastforce
      moreover from this have "l3_inv c'" using writeAuthenticated_inv [OF c, of token p] by simp
      ultimately show ?thesis using Some te None by (simp add: WritePacket_def 1 2 Let_def)
    next
      case err: (Some e)
      then show ?thesis using Some te c by (simp add: WritePacket_def 1 2 Let_def)
    qed
  qed
qed

lemma send_jobs_inv: "l3_inv c \<Longrightarrow> l3_inv (snd (send_jobs env now jobs c))"
proof (induction jobs arbitrary: c)
  case (Cons j jobs)
  obtain r mt where j: "j = (r, mt)" by fastforce
  have s: "l3_inv (snd (sendAuthRequest env r mt c))"
    using Cons.prems writeFrame_inv by (simp add: sendAuthRequest_def split: sum.split)
  obtain e c' where e: "sendAuthRequest env r mt c = (e, c')" by fastforce
  have c': "l3_inv c'" using s e by simp
  show ?case
  proof (cases e)
    case None
    have "l3_inv (c'\<lparr>mgr := markAuthSent (authID (store (mgr c') r)) (now + defaultAuthTimeout) (mgr c')\<rparr>)"
      using c' markAuthSent_inv by (intro l3_inv_mgr) (auto simp: l3_inv_def)
    then show ?thesis using Cons.IH e None j by simp
  next
    case (Some x)
    have "l3_inv (c'\<lparr>mgr := markAuth (authID (store (mgr c') r)) [] (Some x) (mgr c')\<rparr>)"
      using c' completeAuth_inv by (intro l3_inv_mgr) (auto simp: l3_inv_def markAuth_def)
    then show ?thesis using e Some j l3_inv_close by simp
  qed
qed simp

lemma dispatch_rounds_inv:
  "l3_inv c \<Longrightarrow> dispatch_rounds n env now c = Some (b, c') \<Longrightarrow> l3_inv c'"
proof (induction n arbitrary: c)
  case (Suc n)
  obtain jobs more m where b: "nextAuthBatch now defaultAuthBatchSize (mgr c) = ((jobs, more), m)"
    by (metis surj_pair)
  have "ct_inv m" using auth_batch_inv [of "mgr c"] b Suc.prems(1) by (metis l3_inv_def nextAuthBatch_def snd_conv)
  then have "l3_inv (snd (send_jobs env now jobs (c\<lparr>mgr := m\<rparr>)))"
    using Suc.prems(1) by (intro send_jobs_inv l3_inv_mgr)
  then show ?case
    using Suc b by (auto simp: Let_def split: prod.splits if_splits)
qed simp

lemma flush_packets_inv: "l3_inv c \<Longrightarrow> l3_inv (flush_packets t ps c)"
proof (induction ps arbitrary: c)
  case (Cons p ps)
  obtain e c' where "writeAuthenticatedPacket t p c = (e, c')" by fastforce
  moreover from this have "l3_inv c'" using writeAuthenticated_inv [OF Cons.prems, of t p] by simp
  ultimately show ?case using Cons.IH l3_inv_close by (simp split: option.split)
qed simp

lemma completeAuthentication_inv:
  assumes "l3_inv c"
  shows "l3_inv (completeAuthentication i t e c)"
proof -
  obtain x ps m where m: "completeAuth i t e (mgr c) = ((x, ps), m)" by (metis surj_pair)
  then have "ct_inv m" using completeAuth_inv [of "mgr c" i t e] assms by (simp add: l3_inv_def)
  then have "l3_inv (c\<lparr>mgr := m\<rparr>)" using assms by (intro l3_inv_mgr)
  then show ?thesis using assms m flush_packets_inv
    by (simp add: completeAuthentication_def Let_def split: option.split)
qed

lemma markAuthError_inv: "l3_inv c \<Longrightarrow> l3_inv (markAuthErrorFromPayload env p e c)"
  by (simp add: markAuthErrorFromPayload_def completeAuthentication_inv split: option.split)

lemma scheduleAuthRetry_inv:
  assumes "l3_inv c"
  shows "l3_inv (scheduleAuthRetry now i d c)"
proof -
  obtain ok m where m: "retryAuth now i d (mgr c) = (ok, m)" by fastforce
  then have "ct_inv m" using retryAuth_inv [of "mgr c" now i d] assms by (simp add: l3_inv_def)
  then have "l3_inv (c\<lparr>mgr := m\<rparr>)" using assms by (intro l3_inv_mgr)
  then show ?thesis using m l3_inv_wake by (simp add: scheduleAuthRetry_def notifyAuth_def Let_def)
qed

lemma handleAuthResp_inv: "l3_inv c \<Longrightarrow> handleAuthResp env now st p c = Some c' \<Longrightarrow> l3_inv c'"
  using markAuthError_inv scheduleAuthRetry_inv completeAuthentication_inv
  by (auto simp: handleAuthResp_def Let_def split: option.splits if_splits)

lemma handleSecondVip_inv: "l3_inv c \<Longrightarrow> l3_inv (handleSecondVipResp env st p c)"
  by (simp add: handleSecondVipResp_def Let_def l3_inv_other)

lemma refresh_inv:
  assumes "l3_inv c" "refreshIncomingConntrack now p c = Some c'"
  shows "l3_inv c'"
proof -
  have "c' = c \<or> (\<exists>k b m. observePacket now k p True (mgr c) = Some (b, m) \<and> c' = c\<lparr>mgr := m\<rparr>)"
  proof (cases "buildPacketMeta p")
    case None
    then show ?thesis using assms(2)
      by (auto simp: refreshIncomingConntrack_def bind_eq_Some_conv split: if_splits)
  next
    case (Some r)
    then show ?thesis using assms(2)
      by (cases r) (auto simp: refreshIncomingConntrack_def bind_eq_Some_conv Let_def split: if_splits)
  qed
  then show ?thesis
    using assms(1) observePacket_runs l3_inv_mgr by (metis l3_inv_def option.inject prod.inject)
qed

lemma deliver_packets_inv: "l3_inv c \<Longrightarrow> deliver_packets now ps c = Some (b, c') \<Longrightarrow> l3_inv c'"
proof (induction ps arbitrary: c)
  case (Cons p ps)
  then obtain c1 where c1: "refreshIncomingConntrack now p c = Some c1"
    by (auto simp: bind_eq_Some_conv)
  then have "l3_inv c1" using refresh_inv Cons.prems(1) by blast
  then have "l3_inv (snd (deliverIncoming p c1))" by (simp add: deliverIncoming_def l3_inv_other)
  then show ?case using Cons c1 by (auto split: prod.splits if_splits)
qed simp

lemma handle_frame_inv:
  assumes "l3_inv c" "handle_frame env now fr c = Some (b, c')"
  shows "l3_inv c'"
proof -
  have hb: "l3_inv (c\<lparr>hbHasWrite := False, hbMisses := 0\<rparr>)"
    using assms(1) by (simp add: l3_inv_def hb_inv_def)
  consider "cmd fr = cmdDataResp" | "cmd fr \<noteq> cmdDataResp" "cmd fr = cmdAuthResp"
    | "cmd fr \<noteq> cmdDataResp" "cmd fr \<noteq> cmdAuthResp" by blast
  then show ?thesis
  proof cases
    case 1
    show ?thesis
    proof (cases "splitIncomingIPPackets (dataStream c @ fpayload fr)")
      case (Inl e)
      then have "c' = l3_close (c\<lparr>dataStream := dataStream c @ fpayload fr\<rparr>)"
        using assms(2) 1 by (simp add: handle_frame_def)
      then show ?thesis using assms(1) l3_inv_other(2) l3_inv_close by simp
    next
      case (Inr x)
      then show ?thesis using assms 1 deliver_packets_inv [OF l3_inv_other(2)]
        by (cases x) (simp add: handle_frame_def)
    qed
  next
    case 2
    then show ?thesis using assms handleAuthResp_inv by (auto simp: handle_frame_def)
  next
    case 3
    then show ?thesis using assms hb handleSecondVip_inv
      by (auto simp: handle_frame_def split: if_splits)
  qed
qed

lemma heartbeat_tick_inv:
  assumes "l3_inv c"
  shows "l3_inv (snd (heartbeat_tick now c))"
proof -
  let ?c = "c\<lparr>mgr := removeExpired now (mgr c)\<rparr>"
  have m: "ct_inv (removeExpired now (mgr c))"
    using assms removeExpiredLocked_inv by (simp add: l3_inv_def removeExpired_def)
  show ?thesis
    using assms m
    by (auto simp: heartbeat_tick_def Let_def l3_inv_def hb_inv_def l3_close_def sendHeartbeat_def
        writeFrame_def split: option.splits)
qed

declare dispatch_rounds.simps [simp del]

lemma l3_step_inv: "l3_inv c \<Longrightarrow> l3_step env e c = Some c' \<Longrightarrow> l3_inv c'"
proof (cases e)
  case (EvWrite now mt a g p)
  then show "l3_inv c \<Longrightarrow> l3_step env e c = Some c' \<Longrightarrow> ?thesis"
    using WritePacket_runs [of c now mt a g p] by auto
next
  case (EvAuthWake now)
  then show "l3_inv c \<Longrightarrow> l3_step env e c = Some c' \<Longrightarrow> ?thesis"
    using dispatch_rounds_inv [OF l3_inv_wake]
    by (auto simp: auth_woken_def dispatchPendingAuth_def split: if_splits)
next
  case (EvAuthTick now)
  moreover have "l3_inv c \<Longrightarrow> l3_inv (c\<lparr>mgr := snd (expireAuth now ErrAuthTimeout (mgr c))\<rparr>)"
    using expireAuth_inv by (intro l3_inv_mgr) (auto simp: l3_inv_def)
  ultimately show "l3_inv c \<Longrightarrow> l3_step env e c = Some c' \<Longrightarrow> ?thesis"
    using dispatch_rounds_inv by (auto simp: auth_tick_def dispatchPendingAuth_def)
qed (auto simp: handle_frame_inv heartbeat_tick_inv l3_inv_close ReadPacket_def l3_inv_other
    split: list.splits if_splits)

interpretation l3: keeps_inv "l3_step env" l3_inv for env
  by unfold_locales (rule l3_step_inv)

section \<open>The dispatch loop ends\<close>

definition due_count :: "int \<Rightarrow> conntrackMgr \<Rightarrow> nat" where
  "due_count now m = card {r \<in> set (lru m). auth_due now (store m r)}"

lemma due_count_start:
  assumes "r \<in> set (lru m)" "auth_due now (store m r)"
  shows "Suc (due_count now (ct_update r (\<lambda>c. c\<lparr>authStarted := True\<rparr>) m)) = due_count now m"
proof -
  let ?D = "{q \<in> set (lru m). auth_due now (store m q)}"
  have "{q \<in> set (lru m). auth_due now (store (ct_update r (\<lambda>c. c\<lparr>authStarted := True\<rparr>) m) q)} = ?D - {r}"
    by (auto simp: auth_due_def)
  moreover have "r \<in> ?D" "finite ?D" using assms by simp_all
  moreover from this have "card ?D = Suc (card (?D - {r}))" by (intro card.remove)
  ultimately show ?thesis by (simp only: due_count_def update_sel)
qed

lemma auth_batch_count:
  assumes "set rs \<subseteq> set (lru m)" "int (length jobs) \<le> limit"
    "auth_batch now limit rs jobs m = ((jobs', mo), m')"
  shows "due_count now m' + length jobs' = due_count now m + length jobs
    \<and> lru m' = lru m \<and> (mo \<longrightarrow> int (length jobs') = limit)"
  using assms
proof (induction rs arbitrary: jobs m)
  case (Cons r rs)
  show ?case
  proof (cases "auth_due now (store m r) \<and> int (length jobs) < limit")
    case True
    then have "due_count now m' + length jobs'
        = due_count now (ct_update r (\<lambda>c. c\<lparr>authStarted := True\<rparr>) m) + Suc (length jobs)
        \<and> lru m' = lru m \<and> (mo \<longrightarrow> int (length jobs') = limit)"
      using Cons.IH [of "ct_update r (\<lambda>c. c\<lparr>authStarted := True\<rparr>) m" "jobs @ [(r, authMeta (store m r))]"]
        Cons.prems by simp
    moreover have "r \<in> set (lru m)" using Cons.prems by simp
    ultimately show ?thesis using due_count_start [of r m now] True by simp
  next
    case False
    then show ?thesis using Cons by (auto split: if_splits)
  qed
qed simp

lemma markAuthSent_due:
  "lru (markAuthSent i d m) = lru m \<and> auth_due now (store (markAuthSent i d m) r) = auth_due now (store m r)"
  by (simp add: markAuthSent_def auth_due_def split: option.split)

lemma send_jobs_due:
  "send_jobs env now jobs c = (True, c') \<Longrightarrow>
     lru (mgr c') = lru (mgr c) \<and> (\<forall>r. auth_due now (store (mgr c') r) = auth_due now (store (mgr c) r))"
proof (induction jobs arbitrary: c)
  case (Cons j jobs)
  obtain r mt where j: "j = (r, mt)" by fastforce
  obtain e c1 where e: "sendAuthRequest env r mt c = (e, c1)" by fastforce
  have "mgr (snd (sendAuthRequest env r mt c)) = mgr c"
    by (simp add: sendAuthRequest_def split: sum.split)
  then have "mgr c1 = mgr c" by (simp add: e)
  then show ?case
    using Cons.IH [of "c1\<lparr>mgr := markAuthSent (authID (store (mgr c1) r)) (now + defaultAuthTimeout) (mgr c1)\<rparr>"]
      Cons.prems markAuthSent_due j e by (cases e) simp_all
qed simp

lemma dispatch_rounds_end:
  "due_count now (mgr c) < n \<Longrightarrow> \<exists>b c'. dispatch_rounds n env now c = Some (b, c')"
proof (induction n arbitrary: c)
  case (Suc n)
  obtain jobs mo m where b: "nextAuthBatch now defaultAuthBatchSize (mgr c) = ((jobs, mo), m)"
    by (metis surj_pair)
  obtain good c1 where s: "send_jobs env now jobs (c\<lparr>mgr := m\<rparr>) = (good, c1)" by fastforce
  show ?case
  proof (cases "good \<and> mo")
    case True
    have "due_count now m + 64 \<le> due_count now (mgr c)" "lru m = lru (mgr c)"
      using auth_batch_count [of "lru (mgr c)" "mgr c" "[]" defaultAuthBatchSize now jobs mo m] b True
      by (auto simp: nextAuthBatch_def defaultAuthBatchSize_def)
    moreover have "due_count now (mgr c1) = due_count now m"
      using send_jobs_due [of env now jobs "c\<lparr>mgr := m\<rparr>" c1] s True by (simp add: due_count_def)
    ultimately have "due_count now (mgr c1) < n" using Suc.prems by simp
    then show ?thesis using Suc.IH b s True by (simp add: dispatch_rounds.simps)
  next
    case False
    then show ?thesis using b s by (auto simp: dispatch_rounds.simps)
  qed
qed simp

lemma dispatchPendingAuth_runs: "\<exists>b c'. dispatchPendingAuth env now c = Some (b, c')"
proof -
  have "due_count now (mgr c) \<le> card (set (lru (mgr c)))"
    unfolding due_count_def by (rule card_mono) auto
  also have "\<dots> \<le> length (lru (mgr c))" by (rule card_length)
  finally show ?thesis unfolding dispatchPendingAuth_def by (intro dispatch_rounds_end) simp
qed

section \<open>Where a connection can stop\<close>

definition short_segment :: "bytes \<Rightarrow> bool" where
  "short_segment p \<longleftrightarrow> IPv4_Valid p = Some True \<and> (p ! 9 = TCP \<or> p ! 9 = UDP) \<and> length (l4_payload p) < 4"

lemma refresh_None_iff:
  assumes "ct_inv (mgr c)"
  shows "refreshIncomingConntrack now p c = None \<longleftrightarrow> short_segment p"
proof -
  obtain v where v: "IPv4_Valid p = Some v" using IPv4_Valid_total by blast
  have obs: "observePacket now k p True (mgr c) \<noteq> None" for k
    using observePacket_runs [OF assms, of now k p True] by auto
  have icmp: "ICMP \<noteq> TCP" "ICMP \<noteq> UDP" by (simp_all add: ICMP_def TCP_def UDP_def)
  show ?thesis
  proof (cases v)
    case False
    then show ?thesis using v by (simp add: refreshIncomingConntrack_def short_segment_def)
  next
    case True
    then have "IPv4_Valid p = Some True" using v by simp
    note b = buildPacketMeta_of_valid [OF this]
    show ?thesis using obs icmp True v
      by (auto simp: refreshIncomingConntrack_def b short_segment_def Let_def Option.bind_eq_None_conv
          simp del: not_None_eq split: if_splits prod.split)
  qed
qed

lemma deliver_packets_None:
  "l3_inv c \<Longrightarrow> deliver_packets now ps c = None \<Longrightarrow> \<exists>p \<in> set ps. short_segment p"
proof (induction ps arbitrary: c)
  case (Cons p ps)
  show ?case
  proof (cases "refreshIncomingConntrack now p c")
    case None
    then show ?thesis using refresh_None_iff [of c now p] Cons.prems by (simp add: l3_inv_def)
  next
    case (Some c1)
    then have "l3_inv c1" using refresh_inv Cons.prems(1) by blast
    then have "l3_inv (snd (deliverIncoming p c1))" by (simp add: deliverIncoming_def l3_inv_other)
    then show ?thesis using Cons Some by (auto split: prod.splits if_splits)
  qed
qed simp

lemma l3_step_None:
  assumes "l3_inv c" "l3_step env e c = None"
  shows "\<exists>now fr. e = EvFrame now fr
    \<and> ((cmd fr = cmdAuthResp \<and> \<not> embedded env
          \<and> (\<exists>resp. jsonAuth env (fpayload fr) = Some resp \<and> session_invalid_code (rCode resp)))
       \<or> (cmd fr = cmdDataResp
          \<and> (\<exists>ps r. splitIncomingIPPackets (dataStream c @ fpayload fr) = Inr (ps, r)
                \<and> (\<exists>p \<in> set ps. short_segment p))))"
proof (cases e)
  case (EvWrite now mt a g p)
  then show ?thesis using assms WritePacket_runs [OF assms(1), of now mt a g p] by auto
next
  case (EvAuthWake now)
  then show ?thesis
    using assms(2) dispatchPendingAuth_runs [of env now "c\<lparr>authWake := False\<rparr>"]
    by (auto simp: auth_woken_def split: if_splits)
next
  case (EvAuthTick now)
  then show ?thesis
    using assms(2) dispatchPendingAuth_runs [of env now "c\<lparr>mgr := snd (expireAuth now ErrAuthTimeout (mgr c))\<rparr>"]
    by (auto simp: auth_tick_def)
next
  case (EvFrame now fr)
  then have n: "handle_frame env now fr c = None" using assms(2) by simp
  consider "cmd fr = cmdDataResp" | "cmd fr \<noteq> cmdDataResp" "cmd fr = cmdAuthResp"
    | "cmd fr \<noteq> cmdDataResp" "cmd fr \<noteq> cmdAuthResp" by blast
  then show ?thesis
  proof cases
    case 1
    then obtain ps r where s: "splitIncomingIPPackets (dataStream c @ fpayload fr) = Inr (ps, r)"
      "deliver_packets now ps (c\<lparr>dataStream := r\<rparr>) = None"
      using n by (auto simp: handle_frame_def split: sum.splits)
    then have "\<exists>p \<in> set ps. short_segment p"
      using deliver_packets_None [OF l3_inv_other(2) [OF assms(1)]] by blast
    then show ?thesis using EvFrame 1 s(1) by blast
  next
    case 2
    then show ?thesis using n EvFrame
      by (auto simp: handle_frame_def handleAuthResp_def Let_def split: option.splits if_splits)
  next
    case 3
    then show ?thesis using n by (simp add: handle_frame_def split: if_splits)
  qed
qed (use assms in simp_all)

section \<open>Sending on a tracked flow\<close>

lemma getOrCreate_hit:
  assumes "ct_inv m" "\<forall>q \<in> set (lru m). now < ct_expiry m q" "mget (byKey m) k = Some r"
  shows "getOrCreate now k a g m
    = Some (r, (ct_update r (\<lambda>c. c\<lparr>lastSeen := now\<rparr>) m)\<lparr>lru := move_to_back r (lru m)\<rparr>)"
  using byKey_in_lru [OF assms(1,3)] removeExpiredLocked_none [OF assms(2)] assms(3)
  by (simp add: getOrCreate_def Let_def lru_touch_def)

lemma observePacket_hit:
  assumes "ct_inv m" "mget (byKey m) k = Some r"
  shows "\<exists>m'. observePacket now k p inc m = Some (True, m') \<and> ct_frame_eq (store m r) (store m' r)
    \<and> byKey m' = byKey m"
proof -
  have "inLru (store m r)" using byKey_in_lru [OF assms] by simp
  then have t: "lru_touch r (ct_update r (\<lambda>c. c\<lparr>lastSeen := now\<rparr>) m)
      = Some ((ct_update r (\<lambda>c. c\<lparr>lastSeen := now\<rparr>) m)\<lparr>lru := move_to_back r (lru m)\<rparr>)"
    by (simp add: lru_touch_def)
  obtain c' where "observe_conntrack now p inc ((store m r)\<lparr>lastSeen := now\<rparr>) = Some c'"
    "ct_frame_eq ((store m r)\<lparr>lastSeen := now\<rparr>) c'"
    using observe_conntrack_runs by blast
  then show ?thesis using assms(2) t by (simp add: observePacket_def ct_frame_eq_def)
qed

lemma WritePacket_authenticated:
  assumes "ct_inv (mgr c)" "\<forall>q \<in> set (lru (mgr c)). now < ct_expiry (mgr c) q"
    "mget (byKey (mgr c)) (mkey mt) = Some r" "authClosed (store (mgr c) r)"
    "connectToken (store (mgr c) r) = tok" "length tok \<le> 255" "\<not> cclosed c" "werr c (writes c) = None"
  shows "\<exists>c'. WritePacket now mt a g p c = Some (None, c') \<and> sent c' = sent c @ [getDataPayload tok p]"
proof -
  let ?m = "(ct_update r (\<lambda>c. c\<lparr>lastSeen := now\<rparr>) (mgr c))\<lparr>lru := move_to_back r (lru (mgr c))\<rparr>"
  have g: "getOrCreate now (mkey mt) a g (mgr c) = Some (r, ?m)" using assms getOrCreate_hit by blast
  then have "ct_inv ?m" using getOrCreate_runs [OF assms(1), of now "mkey mt" a g] by auto
  then obtain m' where o: "observePacket now (mkey mt) p False ?m = Some (True, m')"
    "ct_frame_eq (store ?m r) (store m' r)"
    using observePacket_hit [of ?m "mkey mt" r now p False] assms(3) by auto
  have "authErr (store (mgr c) r) = None"
    using assms(1,4) byKey_in_lru [OF assms(1,3)] ct_inv_conntrack [OF assms(1), of r]
    by (simp add: conntrack_ok_def)
  then have "authResult r m' = Some (tok, None)"
    using o(2) assms(4,5) by (simp add: authResult_def ct_frame_eq_def)
  then show ?thesis
    using assms(6-8) by (simp add: WritePacket_def g o(1) writeAuthenticatedPacket_def writeFrame_def)
qed

lemma flush_packets_sent:
  assumes "\<not> cclosed c" "\<forall>n. werr c n = None" "length tok \<le> 255"
  shows "sent (flush_packets tok ps c) = sent c @ map (getDataPayload tok) ps
    \<and> mgr (flush_packets tok ps c) = mgr c \<and> \<not> cclosed (flush_packets tok ps c)
    \<and> werr (flush_packets tok ps c) = werr c"
  using assms
  by (induction ps arbitrary: c) (auto simp: writeAuthenticatedPacket_def writeFrame_def)

lemma completeAuthentication_sent:
  assumes "l3_inv c" "\<not> cclosed c" "\<forall>n. werr c n = None" "length tok \<le> 255" "tok \<noteq> []"
    "mget (byID (mgr c)) i = Some r" "\<not> authClosed (store (mgr c) r)"
  defines "c' \<equiv> completeAuthentication i tok None c"
  shows "sent c' = sent c @ map (getDataPayload tok) (pending (store (mgr c) r))"
    "lru (mgr c') = lru (mgr c)" "byKey (mgr c') = byKey (mgr c)" "mttl (mgr c') = mttl (mgr c)"
    "authClosed (store (mgr c') r)" "connectToken (store (mgr c') r) = tok"
    "ct_expiry (mgr c') q = ct_expiry (mgr c) q" "\<not> cclosed c'" "werr c' = werr c"
  using assms(2-7) flush_packets_sent [of "c\<lparr>mgr := m\<rparr>" tok for m]
  by (simp_all add: c'_def completeAuthentication_def getByID_def completeAuth_def Let_def ct_expiry_def)

section \<open>Properties\<close>


definition waiting_conn :: l3conn where
  "waiting_conn = (new_l3conn (snd (cachePacket 0 no_meta [1] small_mgr1)) (\<lambda>_. None))"


text \<open>While its writes succeed an open connection never counts more than one missed heartbeat,
  so a tick never gives the connection up, however long the server stays silent.\<close>

lemma heartbeat_limit_unreachable:
  assumes "run_ops (l3_step env) es (new_l3conn newConntrackMgr w) = Some c" and "\<not> cclosed c"
  shows "hbMisses c \<le> 1 \<and> (werr c (writes c) = None \<longrightarrow>
     fst (heartbeat_tick now c) \<and> \<not> cclosed (snd (heartbeat_tick now c)))"
proof -
  have "l3_inv (new_l3conn newConntrackMgr w)"
    by (simp add: l3_inv_def new_l3conn_def new_mgr_inv hb_inv_def)
  then have "l3_inv c" using l3.run_keeps assms(1) by blast
  then have h: "hbMisses c \<le> 1" "hbMisses c = 1 \<longrightarrow> hbHasWrite c"
    using assms(2) by (simp_all add: l3_inv_def hb_inv_def)
  then show ?thesis using assms(2)
    by (auto simp: heartbeat_tick_def Let_def sendHeartbeat_def writeFrame_def)
qed

lemma heartbeat_limit_unreachable_example:
  "fst (heartbeat_tick 5 (new_l3conn newConntrackMgr (\<lambda>_. None)))"
  using heartbeat_limit_unreachable [of undefined "[]" "\<lambda>_. None" "new_l3conn newConntrackMgr (\<lambda>_. None)" 5]
  by (simp add: new_l3conn_def)


definition short_packet :: bytes where
  "short_packet = [69, 0, 0, 20, 0, 1, 0, 0, 64, 6, 0, 0, 10, 0, 0, 1, 10, 0, 0, 2]"


lemma auth_due_started: "auth_due now (store (ct_update r (\<lambda>c. c\<lparr>authStarted := True\<rparr>) m) q) \<Longrightarrow> auth_due now (store m q)"
  by (auto simp: auth_due_def split: if_splits)

lemma auth_batch_keeps_undue:
  "auth_batch now limit rs jobs m = (x, m') \<Longrightarrow> \<not> auth_due now (store m r) \<Longrightarrow> \<not> auth_due now (store m' r)"
proof (induction rs arbitrary: jobs m)
  case (Cons q rs)
  show ?case
  proof (cases "auth_due now (store m q) \<and> int (length jobs) < limit")
    case True
    let ?m = "ct_update q (\<lambda>c. c\<lparr>authStarted := True\<rparr>) m"
    have "auth_batch now limit rs (jobs @ [(q, authMeta (store m q))]) ?m = (x, m')" using Cons.prems(1) True by simp
    moreover have "\<not> auth_due now (store ?m r)" using Cons.prems(2) auth_due_started [of now q m r] by blast
    ultimately show ?thesis using Cons.IH by blast
  next
    case False
    then show ?thesis using Cons by (auto split: if_splits)
  qed
qed simp

lemma auth_batch_drains:
  "auth_batch now limit rs jobs m = ((jobs', False), m') \<Longrightarrow> r \<in> set rs \<Longrightarrow> \<not> auth_due now (store m' r)"
proof (induction rs arbitrary: jobs m)
  case (Cons q rs)
  show ?case
  proof (cases "auth_due now (store m q)")
    case False
    then have b: "auth_batch now limit rs jobs m = ((jobs', False), m')" using Cons.prems(1) by simp
    then show ?thesis using Cons.IH [OF b] Cons.prems(2) auth_batch_keeps_undue [OF b False] by auto
  next
    case True
    let ?m = "ct_update q (\<lambda>c. c\<lparr>authStarted := True\<rparr>) m"
    have b: "auth_batch now limit rs (jobs @ [(q, authMeta (store m q))]) ?m = ((jobs', False), m')"
      using Cons.prems(1) True by (simp split: if_splits)
    have "\<not> auth_due now (store ?m q)" by (simp add: auth_due_def)
    then show ?thesis using Cons.IH [OF b] Cons.prems(2) auth_batch_keeps_undue [OF b] by auto
  qed
qed simp

lemma dispatch_rounds_drains:
  "dispatch_rounds n env now c = Some (True, c') \<Longrightarrow> r \<in> set (lru (mgr c')) \<Longrightarrow> \<not> auth_due now (store (mgr c') r)"
proof (induction n arbitrary: c)
  case (Suc n)
  obtain jobs mo m where b: "nextAuthBatch now defaultAuthBatchSize (mgr c) = ((jobs, mo), m)"
    by (metis surj_pair)
  obtain good c1 where s: "send_jobs env now jobs (c\<lparr>mgr := m\<rparr>) = (good, c1)" by fastforce
  have g: "good" using Suc.prems(1) b s by (auto simp: dispatch_rounds.simps split: if_splits)
  show ?case
  proof (cases mo)
    case True
    then have "dispatch_rounds n env now c1 = Some (True, c')" using Suc.prems(1) b s g by (simp add: dispatch_rounds.simps)
    then show ?thesis using Suc.IH Suc.prems(2) by blast
  next
    case False
    then have c': "c' = c1" using Suc.prems(1) b s g by (simp add: dispatch_rounds.simps)
    have d: "lru (mgr c1) = lru m" "auth_due now (store (mgr c1) r) = auth_due now (store m r)"
      using send_jobs_due [of env now jobs "c\<lparr>mgr := m\<rparr>" c1] s g by simp_all
    have ab: "auth_batch now defaultAuthBatchSize (lru (mgr c)) [] (mgr c) = ((jobs, False), m)"
      using b False by (simp add: nextAuthBatch_def)
    have "lru m = lru (mgr c)"
      using auth_batch_count [OF _ _ ab] by (simp add: defaultAuthBatchSize_def)
    then show ?thesis using auth_batch_drains [OF ab] Suc.prems(2) c' d by simp
  qed
qed (simp add: dispatch_rounds.simps)

lemma send_jobs_failed: "send_jobs env now jobs c = (False, c') \<Longrightarrow> cclosed c'"
  by (induction jobs arbitrary: c) (auto simp: l3_close_def split: prod.splits option.splits)


lemma dispatch_rounds_failed: "dispatch_rounds n env now c = Some (False, c') \<Longrightarrow> cclosed c'"
  by (induction n arbitrary: c) (auto simp: dispatch_rounds.simps dest: send_jobs_failed split: prod.splits if_splits)



end
