(* ===== verification/L3Tunnel.thy ===== *)
theory L3Tunnel
  imports L3Conn IPResourceIndex
begin

text \<open>
  The aTrust L3 tunnel: one connection per node group (\<open>client/atrust/l3tunnel.go\<close>), the routing
  of packets from the network stack onto them (\<open>l3tunnelpacket.go\<close>) and the reader and writer
  the stack uses (\<open>l3conn.go\<close>).

  The connection table is shared by many goroutines. Each critical section under \<open>connsMu\<close> is one
  atomic step; the running \<open>connectWithRetry\<close> goroutines are the list \<open>workers\<close> with the place
  each has reached. Connections, connect calls and conntrack managers are references.
\<close>

section \<open>The connection table\<close>

record connectCall =
  cdone :: bool
  cconn :: "nat option"
  cerr :: "l3_error option"

text \<open>Where a \<open>connectWithRetry\<close> goroutine stands: about to try, waiting for the retry timer, or
  holding a new connection it has not handed in yet.\<close>

datatype wplace = WTry | WWait | WGot nat

record tunnel =
  conns :: "(string, nat) gomap"
  connecting :: "(string, nat) gomap"
  conntrackMgrs :: "(string, nat) gomap"
  calls :: "nat \<Rightarrow> connectCall"
  workers :: "(string \<times> nat \<times> wplace) list"
  addrOf :: "nat \<Rightarrow> string"
  connsClosed :: "nat set"
  mgrsClosed :: "nat set"
  forwarding :: "nat list"
  tclosed :: bool
  tcleared :: bool
  freshCall :: nat
  freshConn :: nat
  freshMgr :: nat

definition NewL3Tunnel :: tunnel where
  "NewL3Tunnel =
     \<lparr>conns = [], connecting = [], conntrackMgrs = [], calls = (\<lambda>_. \<lparr>cdone = False, cconn = None, cerr = None\<rparr>),
      workers = [], addrOf = (\<lambda>_. []), connsClosed = {}, mgrsClosed = {}, forwarding = [],
      tclosed = False, tcleared = False, freshCall = 0, freshConn = 0, freshMgr = 0\<rparr>"

definition spawn_call :: "string \<Rightarrow> wplace \<Rightarrow> tunnel \<Rightarrow> nat \<times> tunnel" where
  "spawn_call g w t =
     (let c = freshCall t
      in (c, t\<lparr>connecting := mset g c (connecting t), freshCall := Suc c,
               calls := (calls t)(c := \<lparr>cdone = False, cconn = None, cerr = None\<rparr>),
               workers := workers t @ [(g, c, w)]\<rparr>))"

text \<open>\<open>getConn\<close> up to the wait: the connection (\<open>Inl\<close>), or the call to wait for (\<open>Inr\<close>).\<close>

definition getConn :: "string \<Rightarrow> tunnel \<Rightarrow> (nat + nat) \<times> tunnel" where
  "getConn g t =
     (case mget (conns t) g of
        Some r \<Rightarrow> (Inl r, t)
      | None \<Rightarrow>
          (case mget (connecting t) g of
             Some c \<Rightarrow> (Inr c, t)
           | None \<Rightarrow> (let (c, t) = spawn_call g WTry t in (Inr c, t))))"

text \<open>\<open>waitConnectCall\<close>: \<open>None\<close> while neither the call nor the tunnel is done; when both are, Go
  picks either branch, which the flag stands for.\<close>

definition waitConnectCall :: "bool \<Rightarrow> nat \<Rightarrow> tunnel \<Rightarrow> (nat option \<times> l3_error option) option" where
  "waitConnectCall first c t =
     (if cdone (calls t c) \<and> (first \<or> \<not> tclosed t) then Some (cconn (calls t c), cerr (calls t c))
      else if tclosed t then Some (None, Some ErrNetClosed)
      else None)"

definition startReconnect :: "string \<Rightarrow> tunnel \<Rightarrow> tunnel" where
  "startReconnect g t =
     (if tclosed t then t
      else if mget (conns t) g \<noteq> None \<or> mget (connecting t) g \<noteq> None then t
      else snd (spawn_call g WWait t))"

definition getConntrackMgr :: "string \<Rightarrow> tunnel \<Rightarrow> (l3_error + nat) \<times> tunnel" where
  "getConntrackMgr g t =
     (if tclosed t then (Inl ErrNetClosed, t)
      else (case mget (conntrackMgrs t) g of
              Some m \<Rightarrow> (Inr m, t)
            | None \<Rightarrow> (Inr (freshMgr t), t\<lparr>conntrackMgrs := mset g (freshMgr t) (conntrackMgrs t),
                freshMgr := Suc (freshMgr t)\<rparr>)))"

text \<open>The node a group is reached through: its best node, else the one of the major group. A missing
  map entry reads as the empty string.\<close>

definition node_addr :: "(string, string) gomap \<Rightarrow> string \<Rightarrow> string \<Rightarrow> string" where
  "node_addr best major g =
     (let a = (case mget best g of None \<Rightarrow> [] | Some a \<Rightarrow> a)
      in if a = [] then (case mget best major of None \<Rightarrow> [] | Some a \<Rightarrow> a) else a)"

text \<open>\<open>connectConn\<close> with the outcome of the dial and handshake: \<open>dial addr m\<close> is \<open>None\<close> on success.\<close>

definition connectConn ::
  "(string, string) gomap \<Rightarrow> string \<Rightarrow> (string \<Rightarrow> nat \<Rightarrow> l3_error option) \<Rightarrow> string \<Rightarrow> tunnel
     \<Rightarrow> (l3_error + nat) \<times> tunnel" where
  "connectConn best major dial g t =
     (let a = node_addr best major g
      in if a = [] then (Inl (ErrText (''no available node for group '' @ g)), t)
         else (case getConntrackMgr g t of
                 (Inl e, t) \<Rightarrow> (Inl e, t)
               | (Inr m, t) \<Rightarrow>
                   (case dial a m of
                      Some e \<Rightarrow> (Inl e, t)
                    | None \<Rightarrow> (Inr (freshConn t), t\<lparr>addrOf := (addrOf t)(freshConn t := a),
                        freshConn := Suc (freshConn t)\<rparr>))))"

definition close_conn :: "nat \<Rightarrow> tunnel \<Rightarrow> tunnel" where
  "close_conn r t = t\<lparr>connsClosed := insert r (connsClosed t)\<rparr>"

definition finishConnect :: "string \<Rightarrow> nat \<Rightarrow> nat option \<Rightarrow> l3_error option \<Rightarrow> tunnel \<Rightarrow> tunnel" where
  "finishConnect g c conn err t =
     (if mget (connecting t) g \<noteq> Some c then (case conn of Some r \<Rightarrow> close_conn r t | None \<Rightarrow> t)
      else
        let t = t\<lparr>connecting := mdel g (connecting t)\<rparr>;
            err = (if err = None \<and> tclosed t then Some ErrNetClosed else err);
            t = (if err = None then (case conn of Some r \<Rightarrow> t\<lparr>conns := mset g r (conns t)\<rparr> | None \<Rightarrow> t) else t);
            t = t\<lparr>calls := (calls t)(c := \<lparr>cdone = True, cconn = conn, cerr = err\<rparr>)\<rparr>
        in (case conn of
              Some r \<Rightarrow> if err \<noteq> None then close_conn r t else t\<lparr>forwarding := forwarding t @ [r]\<rparr>
            | None \<Rightarrow> t))"

definition evictConn :: "string \<Rightarrow> nat \<Rightarrow> tunnel \<Rightarrow> tunnel" where
  "evictConn g r t =
     (if mget (conns t) g = Some r then close_conn r (t\<lparr>conns := mdel g (conns t)\<rparr>) else t)"

definition stale :: "(string, string) gomap \<Rightarrow> string \<Rightarrow> tunnel \<Rightarrow> string \<times> nat \<Rightarrow> bool" where
  "stale best major t = (\<lambda>(g, r). node_addr best major g \<noteq> [] \<and> addrOf t r \<noteq> node_addr best major g)"

definition evictStaleConns :: "(string, string) gomap \<Rightarrow> string \<Rightarrow> tunnel \<Rightarrow> tunnel" where
  "evictStaleConns best major t =
     (let out = filter (stale best major t) (conns t)
      in t\<lparr>conns := filter (\<lambda>x. \<not> stale best major t x) (conns t),
           connsClosed := connsClosed t \<union> snd ` set out\<rparr>)"

text \<open>\<open>Close\<close> closes \<open>closeCh\<close> first and then, under the lock, takes the connections and managers
  out of the table and closes them.\<close>

definition close_signal :: "tunnel \<Rightarrow> tunnel" where
  "close_signal t = t\<lparr>tclosed := True\<rparr>"

definition close_table :: "tunnel \<Rightarrow> tunnel" where
  "close_table t =
     t\<lparr>tcleared := True, conns := [], conntrackMgrs := [],
       connsClosed := connsClosed t \<union> snd ` set (conns t),
       mgrsClosed := mgrsClosed t \<union> snd ` set (conntrackMgrs t)\<rparr>"

text \<open>The end of \<open>forwardFromConn\<close> when the connection cannot be read any more.\<close>

definition forward_failed :: "string \<Rightarrow> nat \<Rightarrow> tunnel \<Rightarrow> tunnel" where
  "forward_failed g r t = startReconnect g (evictConn g r t)"

text \<open>The steps of a \<open>connectWithRetry\<close> goroutine; \<open>x\<close> and \<open>y\<close> are the goroutines before and after
  it in the list.\<close>

definition set_worker ::
  "(string \<times> nat \<times> wplace) list \<Rightarrow> (string \<times> nat \<times> wplace) list \<Rightarrow> (string \<times> nat \<times> wplace) list \<Rightarrow> tunnel \<Rightarrow> tunnel" where
  "set_worker x w y t = t\<lparr>workers := x @ w @ y\<rparr>"

inductive tunnel_step :: "tunnel \<Rightarrow> tunnel \<Rightarrow> bool" where
  get_conn: "tunnel_step t (snd (getConn g t))"
| reconnect: "tunnel_step t (startReconnect g t)"
| evict: "tunnel_step t (evictConn g r t)"
| evict_stale: "tunnel_step t (evictStaleConns best major t)"
| forward_end: "tunnel_step t (forward_failed g r t)"
| conn_fails: "tunnel_step t (close_conn r t)"
| signal: "tunnel_step t (close_signal t)"
| clear: "tclosed t \<Longrightarrow> tunnel_step t (close_table t)"
| attempt_fails:
    "workers t = x @ (g, c, WTry) # y \<Longrightarrow> connectConn best major dial g t = (Inl e, t')
     \<Longrightarrow> tunnel_step t (set_worker x [(g, c, WWait)] y t')"
| attempt_succeeds:
    "workers t = x @ (g, c, WTry) # y \<Longrightarrow> connectConn best major dial g t = (Inr r, t')
     \<Longrightarrow> tunnel_step t (set_worker x [(g, c, WGot r)] y t')"
| timer: "workers t = x @ (g, c, WWait) # y \<Longrightarrow> tunnel_step t (set_worker x [(g, c, WTry)] y t)"
| give_up:
    "workers t = x @ (g, c, WWait) # y \<Longrightarrow> tclosed t
     \<Longrightarrow> tunnel_step t (finishConnect g c None (Some ErrNetClosed) (set_worker x [] y t))"
| hand_in:
    "workers t = x @ (g, c, WGot r) # y
     \<Longrightarrow> tunnel_step t (finishConnect g c (Some r) None (set_worker x [] y t))"

inductive tunnel_reachable :: "tunnel \<Rightarrow> bool" where
  start: "tunnel_reachable NewL3Tunnel"
| step: "tunnel_reachable t \<Longrightarrow> tunnel_step t t' \<Longrightarrow> tunnel_reachable t'"

section \<open>The invariant of the table\<close>

definition registry_ok :: "tunnel \<Rightarrow> bool" where
  [inv_defs]: "registry_ok t \<longleftrightarrow>
     map_ok (conns t) \<and> map_ok (connecting t)
     \<and> distinct (map fst (workers t)) \<and> distinct (map (fst \<circ> snd) (workers t))
     \<and> (\<forall>g c. mget (connecting t) g = Some c \<longleftrightarrow> (\<exists>w. (g, c, w) \<in> set (workers t)))
     \<and> (\<forall>g c w. (g, c, w) \<in> set (workers t) \<longrightarrow> c < freshCall t \<and> \<not> cdone (calls t c))
     \<and> (\<forall>g. mget (conns t) g \<noteq> None \<longrightarrow> mget (connecting t) g = None)"

definition held :: "tunnel \<Rightarrow> nat \<Rightarrow> bool" where
  "held t r \<longleftrightarrow> (\<exists>g. mget (conns t) g = Some r) \<or> r \<in> connsClosed t
     \<or> (\<exists>g c. (g, c, WGot r) \<in> set (workers t))"

definition tunnel_inv :: "tunnel \<Rightarrow> bool" where
  "tunnel_inv t \<longleftrightarrow> registry_ok t \<and> (\<forall>r < freshConn t. held t r)
     \<and> (tcleared t \<longrightarrow> tclosed t \<and> conns t = [] \<and> conntrackMgrs t = [])"

lemma heldI:
  "mget (conns t) g = Some r \<Longrightarrow> held t r" "r \<in> connsClosed t \<Longrightarrow> held t r"
  "(g, c, WGot r) \<in> set (workers t) \<Longrightarrow> held t r"
  by (auto simp: held_def)

lemma heldE:
  assumes "held t r"
  obtains (conn) g where "mget (conns t) g = Some r" | (closed) "r \<in> connsClosed t"
    | (worker) g c where "(g, c, WGot r) \<in> set (workers t)"
  using assms by (auto simp: held_def)

lemma registry_worker:
  "registry_ok t \<Longrightarrow> (g, c, w) \<in> set (workers t)
   \<Longrightarrow> mget (connecting t) g = Some c \<and> c < freshCall t \<and> \<not> cdone (calls t c)"
  unfolding registry_ok_def by blast

lemma registry_free: "registry_ok t \<Longrightarrow> mget (conns t) g = Some r \<Longrightarrow> mget (connecting t) g = None"
  unfolding registry_ok_def by blast

lemma tunnel_inv_new: "tunnel_inv NewL3Tunnel"
  by (simp add: tunnel_inv_def registry_ok_def NewL3Tunnel_def)

lemma spawn_call_inv:
  assumes "tunnel_inv t" "mget (conns t) g = None" "mget (connecting t) g = None"
  shows "tunnel_inv (snd (spawn_call g w t))"
proof -
  have r: "registry_ok t" using assms(1) by (simp add: tunnel_inv_def)
  have ng: "(g, c, v) \<notin> set (workers t)" for c v using registry_worker [OF r] assms(3) by fastforce
  have "registry_ok (snd (spawn_call g w t))"
    unfolding registry_ok_def
  proof (intro conjI allI impI)
    show "map_ok (conns (snd (spawn_call g w t)))" "map_ok (connecting (snd (spawn_call g w t)))"
      using r by (simp_all add: spawn_call_def Let_def registry_ok_def)
    show "distinct (map fst (workers (snd (spawn_call g w t))))"
      using r ng by (auto simp: spawn_call_def Let_def registry_ok_def)
    have "freshCall t \<notin> (fst \<circ> snd) ` set (workers t)" using registry_worker [OF r] by force
    then show "distinct (map (fst \<circ> snd) (workers (snd (spawn_call g w t))))"
      using r by (simp add: spawn_call_def Let_def registry_ok_def)
    show "mget (connecting (snd (spawn_call g w t))) h = Some c
        \<longleftrightarrow> (\<exists>v. (h, c, v) \<in> set (workers (snd (spawn_call g w t))))" for h c
      using r ng by (auto simp: spawn_call_def Let_def registry_ok_def)
    fix h c v assume "(h, c, v) \<in> set (workers (snd (spawn_call g w t)))"
    then have "(h, c, v) = (g, freshCall t, w) \<or> (h, c, v) \<in> set (workers t)"
      by (auto simp: spawn_call_def Let_def)
    then have "(h, c, v) = (g, freshCall t, w) \<or> c < freshCall t \<and> \<not> cdone (calls t c)"
      using registry_worker [OF r] by blast
    then show "c < freshCall (snd (spawn_call g w t))" "\<not> cdone (calls (snd (spawn_call g w t)) c)"
      by (auto simp: spawn_call_def Let_def)
  next
    fix h assume "mget (conns (snd (spawn_call g w t))) h \<noteq> None"
    then show "mget (connecting (snd (spawn_call g w t))) h = None"
      using r assms(2) by (cases "h = g") (simp_all add: spawn_call_def Let_def registry_ok_def)
  qed
  then show ?thesis using assms(1) by (auto simp: tunnel_inv_def held_def spawn_call_def Let_def)
qed

lemma getConn_inv: "tunnel_inv t \<Longrightarrow> tunnel_inv (snd (getConn g t))"
  using spawn_call_inv [of t g WTry]
  by (simp add: getConn_def split_def Let_def split: option.split)

lemma startReconnect_inv: "tunnel_inv t \<Longrightarrow> tunnel_inv (startReconnect g t)"
  using spawn_call_inv [of t g WWait] by (simp add: startReconnect_def)

lemma close_conn_inv: "tunnel_inv t \<Longrightarrow> tunnel_inv (close_conn r t)"
  by (auto simp: tunnel_inv_def registry_ok_def held_def close_conn_def)

lemma evictConn_inv:
  assumes "tunnel_inv t"
  shows "tunnel_inv (evictConn g r t)"
proof (cases "mget (conns t) g = Some r")
  case True
  have "held (evictConn g r t) q" if "q < freshConn t" for q
  proof -
    have "held t q" using assms that by (simp add: tunnel_inv_def)
    then show ?thesis
    proof (cases rule: heldE)
      case (conn h)
      then show ?thesis using True heldI(1) [of "evictConn g r t" h q] heldI(2) [of q "evictConn g r t"]
        by (cases "h = g") (simp_all add: evictConn_def close_conn_def)
    next
      case closed
      then show ?thesis using True by (intro heldI(2)) (simp add: evictConn_def close_conn_def)
    next
      case (worker h c)
      then show ?thesis using True by (intro heldI(3)) (simp add: evictConn_def close_conn_def)
    qed
  qed
  moreover have "registry_ok (evictConn g r t)"
    using assms True by (auto simp: tunnel_inv_def registry_ok_def evictConn_def close_conn_def)
  ultimately show ?thesis using assms True
    by (auto simp: tunnel_inv_def evictConn_def close_conn_def mdel_def)
next
  case False
  then show ?thesis using assms by (simp add: evictConn_def)
qed

lemma mget_filter:
  "map_ok m \<Longrightarrow> mget (filter P m) k = (case mget m k of Some v \<Rightarrow> if P (k, v) then Some v else None | None \<Rightarrow> None)"
proof (induction m)
  case (Cons x m)
  obtain j v where x: "x = (j, v)" by fastforce
  have "map_ok m" "j \<notin> mkeys m" using Cons.prems by (simp_all add: map_ok_def mkeys_def x)
  then show ?case using Cons.IH mget_None_iff [of m j]
    by (auto simp: x mget_def)
qed simp

lemma map_ok_filter: "map_ok m \<Longrightarrow> map_ok (filter P m)"
  by (induction m) (auto simp: map_ok_def)

lemma evictStaleConns_inv:
  assumes "tunnel_inv t"
  shows "tunnel_inv (evictStaleConns best major t)"
proof -
  let ?t = "evictStaleConns best major t"
  have ok: "map_ok (conns t)" using assms by (simp add: tunnel_inv_def registry_ok_def)
  note f = mget_filter [OF ok]
  have "registry_ok ?t"
    using assms map_ok_filter [OF ok]
    by (auto simp: tunnel_inv_def registry_ok_def evictStaleConns_def Let_def f split: option.splits)
  moreover have "held ?t q" if "q < freshConn t" for q
  proof -
    have "held t q" using assms that by (simp add: tunnel_inv_def)
    then show ?thesis
    proof (cases rule: heldE)
      case (conn g)
      show ?thesis
      proof (cases "stale best major t (g, q)")
        case True
        then have "q \<in> snd ` set (filter (stale best major t) (conns t))"
          using mget_Some_in [OF conn] by force
        then show ?thesis by (intro heldI(2)) (simp add: evictStaleConns_def Let_def)
      next
        case False
        then show ?thesis using conn by (intro heldI(1) [of _ g]) (simp add: evictStaleConns_def Let_def f)
      qed
    next
      case closed
      then show ?thesis by (intro heldI(2)) (simp add: evictStaleConns_def Let_def)
    next
      case (worker g c)
      then show ?thesis by (intro heldI(3)) (simp add: evictStaleConns_def Let_def)
    qed
  qed
  ultimately show ?thesis using assms
    by (auto simp: tunnel_inv_def evictStaleConns_def Let_def)
qed

lemma close_signal_inv: "tunnel_inv t \<Longrightarrow> tunnel_inv (close_signal t)"
  by (auto simp: tunnel_inv_def registry_ok_def held_def close_signal_def)

lemma close_table_inv:
  assumes "tunnel_inv t" "tclosed t"
  shows "tunnel_inv (close_table t)"
proof -
  have "held (close_table t) q" if "q < freshConn t" for q
  proof -
    have "held t q" using assms that by (simp add: tunnel_inv_def)
    then show ?thesis
    proof (cases rule: heldE)
      case (conn g)
      then have "q \<in> snd ` set (conns t)" using mget_Some_in [OF conn] by force
      then show ?thesis by (intro heldI(2)) (simp add: close_table_def)
    next
      case closed
      then show ?thesis by (intro heldI(2)) (simp add: close_table_def)
    next
      case (worker g c)
      then show ?thesis by (intro heldI(3)) (simp add: close_table_def)
    qed
  qed
  then show ?thesis using assms
    by (auto simp: tunnel_inv_def registry_ok_def close_table_def)
qed


text \<open>The steps of a connecting goroutine.\<close>

lemma workers_split_registry:
  assumes "registry_ok t" "workers t = x @ (g, c, w) # y"
  shows "registry_ok (set_worker x [(g, c, v)] y t)"
proof -
  have m: "(h, d, u) \<in> set (x @ (g, c, v) # y) \<Longrightarrow> \<exists>u'. (h, d, u') \<in> set (workers t)" for h d u
    using assms(2) by auto
  have n: "(h, d, u) \<in> set (workers t) \<Longrightarrow> \<exists>u'. (h, d, u') \<in> set (x @ (g, c, v) # y)" for h d u
    using assms(2) by auto
  show ?thesis
    unfolding registry_ok_def
  proof (intro conjI allI impI)
    show "distinct (map fst (workers (set_worker x [(g, c, v)] y t)))"
      "distinct (map (fst \<circ> snd) (workers (set_worker x [(g, c, v)] y t)))"
      using assms by (simp_all add: registry_ok_def set_worker_def)
    show "mget (connecting (set_worker x [(g, c, v)] y t)) h = Some d
        \<longleftrightarrow> (\<exists>u. (h, d, u) \<in> set (workers (set_worker x [(g, c, v)] y t)))" for h d
      using assms(1) m [of h d] n [of h d] by (simp add: registry_ok_def set_worker_def) blast
    fix h d u assume "(h, d, u) \<in> set (workers (set_worker x [(g, c, v)] y t))"
    then obtain u' where "(h, d, u') \<in> set (workers t)" using m [of h d u] by (auto simp: set_worker_def)
    then show "d < freshCall (set_worker x [(g, c, v)] y t)" "\<not> cdone (calls (set_worker x [(g, c, v)] y t) d)"
      using registry_worker [OF assms(1)] by (simp_all add: set_worker_def)
  qed (use assms(1) in \<open>simp_all add: registry_ok_def set_worker_def\<close>)
qed

lemma move_worker_inv:
  assumes "tunnel_inv t" "workers t = x @ (g, c, w) # y" "\<forall>r. w \<noteq> WGot r"
  shows "tunnel_inv (set_worker x [(g, c, v)] y t)"
proof -
  have "held (set_worker x [(g, c, v)] y t) r" if "r < freshConn t" for r
  proof -
    have "held t r" using assms(1) that by (simp add: tunnel_inv_def)
    then show ?thesis
    proof (cases rule: heldE)
      case (conn h)
      then show ?thesis by (intro heldI(1) [of _ h]) (simp add: set_worker_def)
    next
      case closed
      then show ?thesis by (intro heldI(2)) (simp add: set_worker_def)
    next
      case (worker h d)
      then show ?thesis using assms(2,3) by (intro heldI(3) [of h d]) (auto simp: set_worker_def)
    qed
  qed
  then show ?thesis
    using assms(1) workers_split_registry [OF _ assms(2), of v]
    by (simp add: tunnel_inv_def) (simp add: set_worker_def)
qed

lemma connectConn_frame:
  assumes "connectConn best major dial g t = (res, t')"
  shows "conns t' = conns t" "connecting t' = connecting t" "workers t' = workers t" "calls t' = calls t"
    "freshCall t' = freshCall t" "connsClosed t' = connsClosed t" "tclosed t' = tclosed t"
    "tcleared t' = tcleared t" "res = Inl e \<Longrightarrow> freshConn t' = freshConn t"
    "res = Inr r \<Longrightarrow> r = freshConn t \<and> freshConn t' = Suc r"
    "tclosed t \<Longrightarrow> conntrackMgrs t' = conntrackMgrs t"
  using assms
  by (auto simp: connectConn_def getConntrackMgr_def Let_def split: if_splits option.splits)

lemma connectConn_registry:
  "connectConn best major dial g t = (res, t') \<Longrightarrow> registry_ok t \<Longrightarrow> registry_ok t'"
  by (simp add: registry_ok_def connectConn_frame)

lemma attempt_fails_inv:
  assumes "tunnel_inv t" "workers t = x @ (g, c, WTry) # y" "connectConn best major dial g t = (Inl e, t')"
  shows "tunnel_inv (set_worker x [(g, c, WWait)] y t')"
proof -
  note f = connectConn_frame [OF assms(3)]
  have "tunnel_inv t'"
    using assms(1) connectConn_registry [OF assms(3)] f by (auto simp: tunnel_inv_def held_def)
  then show ?thesis using move_worker_inv assms(2) f(3) by simp
qed

lemma attempt_succeeds_inv:
  assumes "tunnel_inv t" "workers t = x @ (g, c, WTry) # y" "connectConn best major dial g t = (Inr r, t')"
  shows "tunnel_inv (set_worker x [(g, c, WGot r)] y t')"
proof -
  note f = connectConn_frame [OF assms(3)]
  let ?s = "t'\<lparr>freshConn := freshConn t\<rparr>"
  have "registry_ok ?s" using connectConn_registry [OF assms(3)] assms(1)
    by (simp add: tunnel_inv_def registry_ok_def)
  then have "tunnel_inv ?s" using assms(1) f by (auto simp: tunnel_inv_def held_def)
  then have i: "tunnel_inv (set_worker x [(g, c, WGot r)] y ?s)"
    using move_worker_inv [of ?s x g c WTry y "WGot r"] assms(2) f(3) by simp
  have h: "held (set_worker x [(g, c, WGot r)] y t') q" if "q < freshConn t'" for q
  proof (cases "q = r")
    case True
    then show ?thesis by (intro heldI(3) [of g c]) (simp add: set_worker_def)
  next
    case False
    then have "q < freshConn t" using that f(10) [of r] by simp
    then have "held (set_worker x [(g, c, WGot r)] y ?s) q" using i by (simp add: tunnel_inv_def set_worker_def)
    then show ?thesis by (simp add: held_def set_worker_def)
  qed
  have "registry_ok (set_worker x [(g, c, WGot r)] y t')"
    using i by (simp add: tunnel_inv_def registry_ok_def set_worker_def)
  then show ?thesis using h i by (simp add: tunnel_inv_def set_worker_def)
qed


lemma drop_worker_registry:
  assumes "registry_ok t" "workers t = x @ (g, c, w) # y"
  shows "registry_ok (t\<lparr>workers := x @ y, connecting := mdel g (connecting t), calls := (calls t)(c := z)\<rparr>)"
proof -
  have d: "distinct (map fst (workers t))" "distinct (map (fst \<circ> snd) (workers t))"
    using assms(1) by (simp_all add: registry_ok_def)
  have o: "(h, d, u) \<in> set (x @ y) \<longleftrightarrow> (h, d, u) \<in> set (workers t) \<and> h \<noteq> g" for h d u
    using d(1) assms(2) by (force simp: image_iff)
  have n: "(h, d, u) \<in> set (x @ y) \<Longrightarrow> d \<noteq> c" for h d u
    using d(2) assms(2) by (force simp: image_iff)
  have k: "mget (connecting t) h = Some e \<longleftrightarrow> (\<exists>u. (h, e, u) \<in> set (workers t))" for h e
    using assms(1) by (simp add: registry_ok_def)
  show ?thesis
    unfolding registry_ok_def
  proof (intro conjI allI impI)
    fix h e
    show "mget (connecting (t\<lparr>workers := x @ y, connecting := mdel g (connecting t), calls := (calls t)(c := z)\<rparr>)) h
        = Some e \<longleftrightarrow> (\<exists>u. (h, e, u) \<in> set (workers (t\<lparr>workers := x @ y, connecting := mdel g (connecting t),
        calls := (calls t)(c := z)\<rparr>)))"
      using k [of h e] o [of h e] by (cases "h = g") auto
  next
    fix h e u
    assume "(h, e, u) \<in> set (workers (t\<lparr>workers := x @ y, connecting := mdel g (connecting t),
        calls := (calls t)(c := z)\<rparr>))"
    then have m: "(h, e, u) \<in> set (x @ y)" by simp
    then have "(h, e, u) \<in> set (workers t)" using o by blast
    from registry_worker [OF assms(1) this] n [OF m]
    show "e < freshCall (t\<lparr>workers := x @ y, connecting := mdel g (connecting t), calls := (calls t)(c := z)\<rparr>)"
      "\<not> cdone (calls (t\<lparr>workers := x @ y, connecting := mdel g (connecting t), calls := (calls t)(c := z)\<rparr>) e)"
      by simp_all
  qed (use assms in \<open>auto simp: registry_ok_def\<close>)
qed

lemma finish_failed:
  assumes "registry_ok t" "workers t = x @ (g, c, w) # y"
  shows "finishConnect g c None (Some e) (set_worker x [] y t)
    = t\<lparr>workers := x @ y, connecting := mdel g (connecting t),
        calls := (calls t)(c := \<lparr>cdone = True, cconn = None, cerr = Some e\<rparr>)\<rparr>"
proof -
  have "mget (connecting t) g = Some c" using registry_worker [OF assms(1), of g c w] assms(2) by simp
  then show ?thesis by (simp add: finishConnect_def set_worker_def Let_def)
qed

lemma finish_connected:
  assumes "registry_ok t" "workers t = x @ (g, c, w) # y"
  shows "finishConnect g c (Some r) None (set_worker x [] y t)
    = (if tclosed t then close_conn r (t\<lparr>workers := x @ y, connecting := mdel g (connecting t),
          calls := (calls t)(c := \<lparr>cdone = True, cconn = Some r, cerr = Some ErrNetClosed\<rparr>)\<rparr>)
       else t\<lparr>workers := x @ y, connecting := mdel g (connecting t),
          calls := (calls t)(c := \<lparr>cdone = True, cconn = Some r, cerr = None\<rparr>),
          conns := mset g r (conns t), forwarding := forwarding t @ [r]\<rparr>)"
proof -
  have "mget (connecting t) g = Some c" using registry_worker [OF assms(1), of g c w] assms(2) by simp
  then show ?thesis by (simp add: finishConnect_def set_worker_def Let_def)
qed

lemma held_drop_worker:
  assumes "held t q" "workers t = x @ (g, c, w) # y" "w = WGot q \<Longrightarrow> held u q"
    and "\<And>h. mget (conns t) h = Some q \<Longrightarrow> mget (conns u) h = Some q" "connsClosed t \<subseteq> connsClosed u"
    and "workers u = x @ y"
  shows "held u q"
  using assms(1)
proof (cases rule: heldE)
  case (conn h)
  then show ?thesis using assms(4) heldI(1) by blast
next
  case closed
  then show ?thesis using assms(5) heldI(2) by blast
next
  case (worker h d)
  then have "(h, d, WGot q) = (g, c, w) \<or> (h, d, WGot q) \<in> set (workers u)" using assms(2,6) by auto
  then show ?thesis using assms(3) heldI(3) by auto
qed

lemma give_up_inv:
  assumes "tunnel_inv t" "workers t = x @ (g, c, WWait) # y"
  shows "tunnel_inv (finishConnect g c None (Some e) (set_worker x [] y t))"
proof -
  have r: "registry_ok t" using assms(1) by (simp add: tunnel_inv_def)
  let ?u = "t\<lparr>workers := x @ y, connecting := mdel g (connecting t),
        calls := (calls t)(c := \<lparr>cdone = True, cconn = None, cerr = Some e\<rparr>)\<rparr>"
  have "held ?u q" if "q < freshConn t" for q
  proof (rule held_drop_worker [OF _ assms(2)])
    show "held t q" using assms(1) that by (simp add: tunnel_inv_def)
  qed simp_all
  then have "tunnel_inv ?u"
    using assms(1) drop_worker_registry [OF r assms(2)] by (simp add: tunnel_inv_def)
  then show ?thesis by (simp add: finish_failed [OF r assms(2)])
qed

lemma hand_in_registry:
  "registry_ok t \<Longrightarrow> mget (connecting t) g = None \<Longrightarrow> m = mset g r (conns t)
   \<Longrightarrow> registry_ok (t\<lparr>conns := m, forwarding := f\<rparr>)"
  unfolding registry_ok_def by simp

lemma hand_in_inv:
  assumes "tunnel_inv t" "workers t = x @ (g, c, WGot r) # y"
  shows "tunnel_inv (finishConnect g c (Some r) None (set_worker x [] y t))"
proof -
  have reg: "registry_ok t" using assms(1) by (simp add: tunnel_inv_def)
  note fin = finish_connected [OF reg assms(2), of r]
  have con: "mget (connecting t) g = Some c" using registry_worker [OF reg, of g c "WGot r"] assms(2) by simp
  then have nc: "mget (conns t) g = None" using registry_free [OF reg, of g] by (cases "mget (conns t) g") auto
  show ?thesis
  proof (cases "tclosed t")
    case True
    let ?u = "close_conn r (t\<lparr>workers := x @ y, connecting := mdel g (connecting t),
          calls := (calls t)(c := \<lparr>cdone = True, cconn = Some r, cerr = Some ErrNetClosed\<rparr>)\<rparr>)"
    have "held ?u q" if "q < freshConn t" for q
    proof (rule held_drop_worker [OF _ assms(2)])
      show "held ?u q" if "WGot r = WGot q" using that by (intro heldI(2)) (simp add: close_conn_def)
    qed (use assms(1) that in \<open>auto simp: tunnel_inv_def close_conn_def\<close>)
    moreover have "registry_ok ?u"
      using drop_worker_registry [OF reg assms(2)] by (simp add: registry_ok_def close_conn_def)
    ultimately have "tunnel_inv ?u" using assms(1) by (simp add: tunnel_inv_def) (simp add: close_conn_def)
    then show ?thesis using True by (simp add: fin)
  next
    case False
    let ?v = "t\<lparr>workers := x @ y, connecting := mdel g (connecting t),
          calls := (calls t)(c := \<lparr>cdone = True, cconn = Some r, cerr = None\<rparr>)\<rparr>"
    let ?u = "?v\<lparr>conns := mset g r (conns t), forwarding := forwarding t @ [r]\<rparr>"
    have "held ?u q" if "q < freshConn t" for q
    proof (rule held_drop_worker [OF _ assms(2)])
      show "held ?u q" if "WGot r = WGot q" using that by (intro heldI(1) [of _ g]) simp
    qed (use assms(1) that nc in \<open>auto simp: tunnel_inv_def\<close>)
    moreover have "registry_ok ?u"
      by (rule hand_in_registry [OF drop_worker_registry [OF reg assms(2)]]) simp_all
    ultimately have "tunnel_inv ?u" using assms(1) False by (auto simp: tunnel_inv_def)
    then show ?thesis using False by (simp add: fin)
  qed
qed

lemma forward_failed_inv: "tunnel_inv t \<Longrightarrow> tunnel_inv (forward_failed g r t)"
  by (simp add: forward_failed_def startReconnect_inv evictConn_inv)

lemma tunnel_step_inv: "tunnel_step t t' \<Longrightarrow> tunnel_inv t \<Longrightarrow> tunnel_inv t'"
proof (induction rule: tunnel_step.induct)
  case (timer t x g c y)
  then show ?case using move_worker_inv by blast
qed (auto intro: getConn_inv startReconnect_inv evictConn_inv evictStaleConns_inv forward_failed_inv
    close_conn_inv close_signal_inv close_table_inv attempt_fails_inv attempt_succeeds_inv
    give_up_inv hand_in_inv)

lemma reachable_inv: "tunnel_reachable t \<Longrightarrow> tunnel_inv t"
  by (induction rule: tunnel_reachable.induct) (auto intro: tunnel_inv_new tunnel_step_inv)

section \<open>What the table guarantees\<close>

definition sample_tunnel :: tunnel where
  "sample_tunnel =
     finishConnect ''A'' 0 (Some 0) None (set_worker [] [] []
       (snd (connectConn [(''A'', ''n1:441'')] ''A'' (\<lambda>_ _. None) ''A'' (snd (getConn ''A'' NewL3Tunnel)))))"

lemma sample_reachable: "tunnel_reachable sample_tunnel"
proof -
  let ?t1 = "snd (getConn ''A'' NewL3Tunnel)"
  let ?t2 = "snd (connectConn [(''A'', ''n1:441'')] ''A'' (\<lambda>_ _. None) ''A'' ?t1)"
  have w: "workers ?t1 = [] @ (''A'', 0, WTry) # []"
    by (simp add: getConn_def spawn_call_def NewL3Tunnel_def Let_def)
  have c: "connectConn [(''A'', ''n1:441'')] ''A'' (\<lambda>_ _. None) ''A'' ?t1 = (Inr 0, ?t2)"
    by (simp add: connectConn_def node_addr_def getConntrackMgr_def getConn_def spawn_call_def
      NewL3Tunnel_def Let_def mget_def)
  have "tunnel_reachable ?t1" by (rule tunnel_reachable.step [OF tunnel_reachable.start tunnel_step.get_conn])
  then have "tunnel_reachable (set_worker [] [(''A'', 0, WGot 0)] [] ?t2)"
    by (rule tunnel_reachable.step) (rule tunnel_step.attempt_succeeds [OF w c])
  then have "tunnel_reachable (finishConnect ''A'' 0 (Some 0) None
      (set_worker [] [] [] (set_worker [] [(''A'', 0, WGot 0)] [] ?t2)))"
    by (rule tunnel_reachable.step) (rule tunnel_step.hand_in, simp add: set_worker_def)
  then show ?thesis by (simp add: sample_tunnel_def set_worker_def)
qed

lemma sample_conns: "conns sample_tunnel = [(''A'', 0)] \<and> workers sample_tunnel = []"
  by (simp add: sample_tunnel_def finishConnect_def set_worker_def connectConn_def node_addr_def
      getConntrackMgr_def getConn_def spawn_call_def NewL3Tunnel_def Let_def mget_def mset_def mdel_def)

text \<open>
  C6: in every reachable state of the tunnel at most one goroutine connects to a node group, it is
  the one the group's connect call names and its call is still open, and no group has both a
  connection and a goroutine connecting; every connection ever made is in the table, closed, or still
  in the hands of its goroutine; and after Close has emptied the table no connection enters it again.
\<close>

theorem one_connection_per_group:
  assumes "tunnel_reachable t"
  shows "distinct (map fst (workers t))
    \<and> (\<forall>g c. mget (connecting t) g = Some c \<longleftrightarrow> (\<exists>w. (g, c, w) \<in> set (workers t)))
    \<and> (\<forall>g c w. (g, c, w) \<in> set (workers t) \<longrightarrow> mget (conns t) g = None \<and> \<not> cdone (calls t c))
    \<and> (\<forall>r < freshConn t. (\<exists>g. mget (conns t) g = Some r) \<or> r \<in> connsClosed t
        \<or> (\<exists>g c. (g, c, WGot r) \<in> set (workers t)))
    \<and> (tcleared t \<longrightarrow> conns t = [] \<and> conntrackMgrs t = [])"
proof -
  have i: "tunnel_inv t" using reachable_inv [OF assms] .
  then have r: "registry_ok t" by (simp add: tunnel_inv_def)
  have "mget (conns t) g = None" if "(g, c, w) \<in> set (workers t)" for g c w
    using registry_worker [OF r that] registry_free [OF r, of g] by (cases "mget (conns t) g") auto
  then show ?thesis using i r registry_worker [OF r] unfolding tunnel_inv_def registry_ok_def held_def by blast
qed

theorem one_connection_per_group_witness:
  "tunnel_reachable sample_tunnel \<and> distinct (map fst (workers sample_tunnel))
    \<and> conns sample_tunnel = [(''A'', 0)]"
  using one_connection_per_group [OF sample_reachable] sample_reachable sample_conns by blast

lemma connectConn_closed: "tclosed t \<Longrightarrow> \<exists>e. fst (connectConn best major dial g t) = Inl e"
  by (simp add: connectConn_def getConntrackMgr_def Let_def)

lemma connectConn_closed_state: "tclosed t \<Longrightarrow> connectConn best major dial g t = (Inl e, u) \<Longrightarrow> u = t"
  by (auto simp: connectConn_def getConntrackMgr_def Let_def split: if_splits)

lemma drain_try:
  assumes "tclosed t" "workers t = (g, c, WTry) # y"
  shows "tunnel_step t (t\<lparr>workers := (g, c, WWait) # y\<rparr>)"
proof -
  have "connectConn [] g (\<lambda>_ _. None) g t = (Inl (ErrText (''no available node for group '' @ g)), t)"
    by (simp add: connectConn_def node_addr_def)
  from tunnel_step.attempt_fails [OF _ this, of "[]" c y] assms(2)
  show ?thesis by (simp add: set_worker_def)
qed

lemma drain_wait:
  assumes "tclosed t" "registry_ok t" "workers t = (g, c, WWait) # y"
  shows "tunnel_step t (t\<lparr>workers := y, connecting := mdel g (connecting t),
      calls := (calls t)(c := \<lparr>cdone = True, cconn = None, cerr = Some ErrNetClosed\<rparr>)\<rparr>)"
  using tunnel_step.give_up [of t "[]" g c y] finish_failed [OF assms(2), of "[]" g c WWait y] assms
  by simp

lemma drain_got:
  assumes "tclosed t" "registry_ok t" "workers t = (g, c, WGot r) # y"
  shows "tunnel_step t (close_conn r (t\<lparr>workers := y, connecting := mdel g (connecting t),
      calls := (calls t)(c := \<lparr>cdone = True, cconn = Some r, cerr = Some ErrNetClosed\<rparr>)\<rparr>))"
  using tunnel_step.hand_in [of t "[]" g c r y] finish_connected [OF assms(2), of "[]" g c "WGot r" y r] assms
  by simp

text \<open>One goroutine leaves: its call ends with the closed error and nothing else is touched.\<close>

lemma drain_one:
  assumes "tclosed t" "tunnel_inv t" "workers t = (g, c, w) # y"
  shows "\<exists>u. tunnel_step\<^sup>*\<^sup>* t u \<and> tclosed u \<and> tunnel_inv u \<and> workers u = y \<and> conns u = conns t
    \<and> freshConn u = freshConn t \<and> cdone (calls u c) \<and> cerr (calls u c) = Some ErrNetClosed
    \<and> (\<forall>d. d \<noteq> c \<longrightarrow> calls u d = calls t d)"
proof (cases w)
  case WTry
  let ?s = "t\<lparr>workers := (g, c, WWait) # y\<rparr>"
  have s: "tunnel_step t ?s" using drain_try [of t g c y] assms WTry by simp
  have i: "tunnel_inv ?s" by (rule tunnel_step_inv [OF s assms(2)])
  have "tunnel_step ?s (?s\<lparr>workers := y, connecting := mdel g (connecting ?s),
      calls := (calls ?s)(c := \<lparr>cdone = True, cconn = None, cerr = Some ErrNetClosed\<rparr>)\<rparr>)" (is "tunnel_step _ ?u")
    using drain_wait [of ?s g c y] i assms(1) by (simp add: tunnel_inv_def)
  moreover from this have "tunnel_inv ?u" using i by (rule tunnel_step_inv)
  ultimately show ?thesis
    using s assms by (intro exI [of _ ?u]) (auto intro: converse_rtranclp_into_rtranclp)
next
  case WWait
  have "tunnel_step t (t\<lparr>workers := y, connecting := mdel g (connecting t),
      calls := (calls t)(c := \<lparr>cdone = True, cconn = None, cerr = Some ErrNetClosed\<rparr>)\<rparr>)" (is "tunnel_step _ ?u")
    using drain_wait [of t g c y] assms WWait by (simp add: tunnel_inv_def)
  moreover from this have "tunnel_inv ?u" using assms(2) by (rule tunnel_step_inv)
  ultimately show ?thesis using assms by (intro exI [of _ ?u]) auto
next
  case (WGot r)
  have "tunnel_step t (close_conn r (t\<lparr>workers := y, connecting := mdel g (connecting t),
      calls := (calls t)(c := \<lparr>cdone = True, cconn = Some r, cerr = Some ErrNetClosed\<rparr>)\<rparr>))" (is "tunnel_step _ ?u")
    using drain_got [of t g c r y] assms WGot by (simp add: tunnel_inv_def)
  moreover from this have "tunnel_inv ?u" using assms(2) by (rule tunnel_step_inv)
  ultimately show ?thesis using assms by (intro exI [of _ ?u]) (auto simp: close_conn_def)
qed

lemma drain_all:
  "tclosed t \<Longrightarrow> tunnel_inv t \<Longrightarrow> \<exists>u. tunnel_step\<^sup>*\<^sup>* t u \<and> tclosed u \<and> tunnel_inv u \<and> workers u = []
    \<and> conns u = conns t \<and> freshConn u = freshConn t
    \<and> (\<forall>d. cdone (calls t d) \<and> cerr (calls t d) = Some ErrNetClosed \<or> d \<in> fst ` snd ` set (workers t)
        \<longrightarrow> cdone (calls u d) \<and> cerr (calls u d) = Some ErrNetClosed)"
proof (induction "length (workers t)" arbitrary: t)
  case 0
  then show ?case by (intro exI [of _ t]) simp
next
  case (Suc n)
  then obtain g c w y where w: "workers t = (g, c, w) # y" by (cases "workers t") auto
  obtain s where s: "tunnel_step\<^sup>*\<^sup>* t s" "tclosed s" "tunnel_inv s" "workers s = y" "conns s = conns t"
    "freshConn s = freshConn t" "cdone (calls s c)" "cerr (calls s c) = Some ErrNetClosed"
    "\<forall>d. d \<noteq> c \<longrightarrow> calls s d = calls t d"
    using drain_one [OF Suc.prems w] by blast
  have "n = length (workers s)" using Suc.hyps(2) s(4) w by simp
  from Suc.hyps(1) [OF this s(2,3)] obtain u where u: "tunnel_step\<^sup>*\<^sup>* s u" "tclosed u" "tunnel_inv u"
    "workers u = []" "conns u = conns s" "freshConn u = freshConn s"
    "\<forall>d. cdone (calls s d) \<and> cerr (calls s d) = Some ErrNetClosed \<or> d \<in> fst ` snd ` set (workers s)
        \<longrightarrow> cdone (calls u d) \<and> cerr (calls u d) = Some ErrNetClosed"
    by blast
  have "cdone (calls u d) \<and> cerr (calls u d) = Some ErrNetClosed"
    if "cdone (calls t d) \<and> cerr (calls t d) = Some ErrNetClosed \<or> d \<in> fst ` snd ` set (workers t)" for d
  proof (cases "d = c")
    case True
    then show ?thesis using u(7) s(7,8) by simp
  next
    case False
    then have "cdone (calls s d) \<and> cerr (calls s d) = Some ErrNetClosed \<or> d \<in> fst ` snd ` set (workers s)"
      using that s(4,9) w by auto
    then show ?thesis using u(7) by blast
  qed
  then show ?case using s u by (intro exI [of _ u]) (auto intro: rtranclp_trans)
qed



section \<open>Packets from the network stack\<close>

definition isClosedConnErr :: "l3_error option \<Rightarrow> bool" where
  "isClosedConnErr e =
     (case e of
        None \<Rightarrow> False
      | Some ErrNetClosed \<Rightarrow> True
      | Some ErrEOF \<Rightarrow> True
      | Some ErrUnexpectedEOF \<Rightarrow> True
      | Some (ErrText s) \<Rightarrow> has_sub s ''use of closed network connection''
      | Some _ \<Rightarrow> False)"

definition isAuthTimeoutErr :: "l3_error option \<Rightarrow> bool" where
  "isAuthTimeoutErr e \<longleftrightarrow> e = Some ErrAuthTimeout"

text \<open>The error texts of \<open>buildPacketMeta\<close>; the other constructors belong to \<open>encodeMeta\<close>
  and \<open>decodeMeta\<close>, which this path does not call.\<close>

fun meta_error_text :: "meta_error \<Rightarrow> l3_error" where
  "meta_error_text (UnsupportedProtocol pr) = ErrText (''unsupported protocol '' @ dec (unat pr))"
| "meta_error_text _ = ErrText []"

text \<open>
  Between two steps of \<open>writePacket\<close> other goroutines run, so what \<open>getConn\<close> answers after its
  wait and what \<open>WritePacket\<close> of the connection answers come from the environment: \<open>get i\<close> and
  \<open>put i\<close> for the first (\<open>0\<close>) and second (\<open>1\<close>) try.
\<close>

record write_env =
  getAns :: "nat \<Rightarrow> string \<Rightarrow> tunnel \<Rightarrow> (l3_error + nat) \<times> tunnel"
  putAns :: "nat \<Rightarrow> nat \<Rightarrow> packetMeta \<Rightarrow> l3_error option"

text \<open>The body of the retry loop: \<open>Inl\<close> is its early return, \<open>Inr\<close> the connection and error the
  loop leaves with.\<close>

definition retry_write ::
  "write_env \<Rightarrow> packetMeta \<Rightarrow> string \<Rightarrow> nat \<Rightarrow> l3_error option \<Rightarrow> tunnel
     \<Rightarrow> (l3_error + nat \<times> l3_error option) \<times> tunnel" where
  "retry_write env mt grp r err t =
     (let t = evictConn grp r t; t = startReconnect grp t; (a, t) = getAns env 1 grp t
      in (case a of
            Inl e \<Rightarrow> if isClosedConnErr (Some e) then (Inr (r, Some e), t) else (Inl e, t)
          | Inr r' \<Rightarrow> (Inr (r', putAns env 1 r' mt), t)))"

definition finish_write :: "string \<Rightarrow> nat \<Rightarrow> l3_error option \<Rightarrow> tunnel \<Rightarrow> l3_error option \<times> tunnel" where
  "finish_write grp r err t =
     (if isAuthTimeoutErr err then (None, t)
      else if isClosedConnErr err then (None, startReconnect grp (evictConn grp r t))
      else (err, t))"

definition writePacket ::
  "write_env \<Rightarrow> bytes \<Rightarrow> string \<Rightarrow> string \<Rightarrow> tunnel \<Rightarrow> (l3_error option \<times> tunnel) option" where
  "writePacket env p app grp t =
     do {
       b \<leftarrow> buildPacketMeta p;
       Some (case b of
          Inl e \<Rightarrow> (Some (meta_error_text e), t)
        | Inr mt \<Rightarrow>
            (let mt = mt\<lparr>mkey := connTrackKey mt\<rparr>; (a, t) = getAns env 0 grp t
             in (case a of
                   Inl e \<Rightarrow> (if isClosedConnErr (Some e) then None else Some e, t)
                 | Inr r \<Rightarrow>
                     (let err = putAns env 0 r mt
                      in if isClosedConnErr err
                         then (case retry_write env mt grp r err t of
                                 (Inl e, t) \<Rightarrow> (Some e, t)
                               | (Inr (r', err'), t) \<Rightarrow> finish_write grp r' err' t)
                         else finish_write grp r err t))))
     }"

definition matchL3IPResource :: "node \<Rightarrow> ip \<Rightarrow> string \<Rightarrow> int \<Rightarrow> IPResource option" where
  "matchL3IPResource index destination protocol port =
     MatchWhere index destination protocol port (\<lambda>r. protocol \<noteq> ''tcp'' \<or> EnableTCPPrefL3 r)"

text \<open>The protocol's name and port, \<open>None\<close> for a protocol the tunnel does not carry.\<close>

definition packet_service :: "bytes \<Rightarrow> (string \<times> int) option option" where
  "packet_service p =
     do {
       pr \<leftarrow> Protocol p;
       if pr = TCP then do { d \<leftarrow> Payload p; q \<leftarrow> DestinationPort d; Some (Some (''tcp'', uint q)) }
       else if pr = UDP then do { d \<leftarrow> Payload p; q \<leftarrow> UDP_DestinationPort d; Some (Some (''udp'', uint q)) }
       else if pr = ICMP then Some (Some (''icmp'', -1))
       else Some None
     }"

definition processIPV4 ::
  "node \<Rightarrow> write_env \<Rightarrow> bytes \<Rightarrow> tunnel \<Rightarrow> (l3_error option \<times> tunnel) option" where
  "processIPV4 index env p t =
     do {
       sv \<leftarrow> packet_service p;
       (case sv of
          None \<Rightarrow> Some (Some ErrResourceNotFound, t)
        | Some (protocol, port) \<Rightarrow> do {
            dst \<leftarrow> DestinationIP p;
            (case matchL3IPResource index dst protocol port of
               Some r \<Rightarrow> writePacket env p (AppID r) (NodeGroupID r) t
             | None \<Rightarrow> Some (Some ErrResourceNotFound, t))
          })
     }"

text \<open>
  The reader and writer of the network stack. Go's \<open>select\<close> picks any of the ready branches of
  \<open>Read\<close>: the list holds the outcome of each, with the queue it leaves.
\<close>

definition stack_read ::
  "nat \<Rightarrow> bytes list \<Rightarrow> bool \<Rightarrow> tunnel \<Rightarrow> ((l3_error + bytes) \<times> bytes list) list" where
  "stack_read n dataChan closed t =
     (case dataChan of
        [] \<Rightarrow> []
      | d # ds \<Rightarrow> [(if n < length d then Inl ErrShortBuffer else Inr d, ds)])
     @ (if closed then [(Inl ErrNetClosed, dataChan)] else [])
     @ (if tclosed t then [(Inl ErrEOF, dataChan)] else [])"

definition stack_write ::
  "node \<Rightarrow> write_env \<Rightarrow> bool \<Rightarrow> bytes \<Rightarrow> tunnel \<Rightarrow> ((nat \<times> l3_error option) \<times> tunnel) option" where
  "stack_write index env closed p t =
     (if closed \<or> tclosed t then Some ((0, Some ErrNetClosed), t)
      else map_option (\<lambda>(e, t). ((length p, e), t)) (processIPV4 index env p t))"


section \<open>What the stack sees\<close>

lemma evictConn_gone: "mget (conns (evictConn g r t)) g \<noteq> Some r"
  by (simp add: evictConn_def close_conn_def)

lemma startReconnect_conns [simp]: "conns (startReconnect g t) = conns t"
  by (simp add: startReconnect_def spawn_call_def Let_def)

lemma startReconnect_progress:
  "tclosed (startReconnect g t) \<or> mget (conns (startReconnect g t)) g \<noteq> None
   \<or> mget (connecting (startReconnect g t)) g \<noteq> None"
  by (simp add: startReconnect_def spawn_call_def Let_def)

lemma has_sub_short: "length s < length u \<Longrightarrow> \<not> has_sub s u"
  by (auto simp: has_sub_def has_prefix_def list_ex_iff dest: arg_cong [of _ _ length])

lemma length_dec_byte: "length (dec (unat (b :: byte))) \<le> 3"
  using unat_byte_bound [of b] by (simp add: dec.simps)

lemma meta_error_open: "\<not> isClosedConnErr (Some (meta_error_text e))"
proof (cases e)
  case (UnsupportedProtocol b)
  have "length (''unsupported protocol '' @ dec (unat b)) < length ''use of closed network connection''"
    using length_dec_byte [of b] by simp
  from has_sub_short [OF this] show ?thesis using UnsupportedProtocol by (simp add: isClosedConnErr_def)
qed (simp_all add: isClosedConnErr_def has_sub_short)

lemma finish_write_error:
  "finish_write grp r err t = (Some e, t') \<Longrightarrow> \<not> isClosedConnErr (Some e)"
  by (auto simp: finish_write_def split: if_splits)

lemma retry_write_error:
  "retry_write env mt grp r err t = (Inl e, t') \<Longrightarrow> \<not> isClosedConnErr (Some e)"
  by (auto simp: retry_write_def Let_def split: sum.splits prod.splits if_splits)

lemma writePacket_error:
  assumes "writePacket env p app grp t = Some (Some e, t')"
  shows "\<not> isClosedConnErr (Some e)"
proof (cases "buildPacketMeta p")
  case None
  then show ?thesis using assms by (simp add: writePacket_def)
next
  case (Some b)
  show ?thesis
  proof (cases b)
    case (Inl me)
    then show ?thesis using assms Some meta_error_open by (auto simp: writePacket_def)
  next
    case (Inr mt)
    obtain a u where g: "getAns env 0 grp t = (a, u)" by fastforce
    let ?mt = "mt\<lparr>mkey := connTrackKey mt\<rparr>"
    note d = assms [unfolded writePacket_def Some, simplified, unfolded Inr g, simplified]
    show ?thesis
    proof (cases a)
      case (Inl ge)
      then show ?thesis using d by (auto simp: Let_def split: if_splits)
    next
      case (Inr r)
      obtain x v where rt: "retry_write env ?mt grp r (putAns env 0 r ?mt) u = (x, v)" by fastforce
      show ?thesis
        using d retry_write_error [of env ?mt grp r "putAns env 0 r ?mt" u] finish_write_error [of grp] Inr rt
        by (cases x) (auto simp: Let_def split: if_splits prod.splits)
    qed
  qed
qed

text \<open>
  A connection lost while packets flow never becomes an error of the network stack (which would
  end the program): whatever the connections answer, no error that processing a packet returns is a
  closed-connection error.
\<close>

lemma stack_never_sees_closed_connection:
  assumes "\<not> tclosed t" "stack_write index env False p t = Some ((n, Some e), t')"
  shows "n = length p \<and> \<not> isClosedConnErr (Some e)"
proof -
  have "processIPV4 index env p t = Some (Some e, t')" "n = length p"
    using assms by (auto simp: stack_write_def)
  then show ?thesis
    using writePacket_error [of env p _ _ t e t']
    by (auto simp: processIPV4_def isClosedConnErr_def Option.bind_eq_Some_conv split: option.splits prod.splits)
qed

definition tcp_packet :: bytes where
  "tcp_packet = [69, 0, 0, 40, 0, 1, 0, 0, 64, 6, 0, 0, 10, 0, 0, 1, 10, 0, 0, 2,
     4, 210, 0, 80, 0, 0, 0, 0, 0, 0, 0, 0, 80, 2, 0, 0, 0, 0, 0, 0]"

definition web_rule :: IPResource where
  "web_rule = \<lparr>PortMin = 80, PortMax = 80, ResProtocol = ''tcp'', AppID = ''app'', NodeGroupID = ''A'',
     EnableTCPPrefL3 = True, IPMin = [10, 0, 0, 2], IPMax = [10, 0, 0, 2]\<rparr>"

definition dead_env :: write_env where
  "dead_env = \<lparr>getAns = (\<lambda>i g t. (Inr i, t)), putAns = (\<lambda>i r mt. Some ErrNetClosed)\<rparr>"

definition failing_env :: write_env where
  "failing_env = \<lparr>getAns = (\<lambda>i g t. (Inr i, t)),
     putAns = (\<lambda>i r mt. if i = 0 then Some ErrNetClosed else Some ErrConntrackEvicted)\<rparr>"

lemma web_rule_hit: "ip_hits (ipv4 10 0 0 2, ''tcp'', 80) web_rule"
  by (simp add: ip_hits_def range_hits_def ip_u32_def to4_def ipv4_def web_rule_def port_protocol_match_def be32_def)

lemma sample_routed:
  "matchL3IPResource (New [web_rule]) (ipv4 10 0 0 2) ''tcp'' 80 = Some web_rule"
  using web_rule_hit
  by (simp add: matchL3IPResource_def MatchWhere_def index_match_find accepts_def) (simp add: web_rule_def)

lemma sample_service: "packet_service tcp_packet = Some (Some (''tcp'', 80))" by code_simp

lemma sample_destination: "DestinationIP tcp_packet = Some (ipv4 10 0 0 2)" by code_simp

lemma sample_packet_meta: "\<exists>mt. buildPacketMeta tcp_packet = Some (Inr mt)"
proof -
  have "(case buildPacketMeta tcp_packet of Some (Inr mt) \<Rightarrow> True | _ \<Rightarrow> False)" by code_simp
  then show ?thesis by (auto split: option.splits sum.splits)
qed

lemma stack_write_failing:
  "\<exists>t'. stack_write (New [web_rule]) failing_env False tcp_packet NewL3Tunnel
     = Some ((length tcp_packet, Some ErrConntrackEvicted), t')"
proof -
  obtain mt where mt: "buildPacketMeta tcp_packet = Some (Inr mt)" using sample_packet_meta by blast
  show ?thesis
    by (simp add: stack_write_def processIPV4_def sample_service sample_destination sample_routed
        writePacket_def mt Let_def failing_env_def retry_write_def finish_write_def isClosedConnErr_def
        isAuthTimeoutErr_def NewL3Tunnel_def)
qed

lemma stack_never_sees_closed_connection_example:
  "\<exists>t'. stack_write (New [web_rule]) failing_env False tcp_packet NewL3Tunnel
     = Some ((length tcp_packet, Some ErrConntrackEvicted), t')
   \<and> \<not> isClosedConnErr (Some ErrConntrackEvicted)"
proof -
  have o: "\<not> tclosed NewL3Tunnel" by (simp add: NewL3Tunnel_def)
  obtain t' where t': "stack_write (New [web_rule]) failing_env False tcp_packet NewL3Tunnel
     = Some ((length tcp_packet, Some ErrConntrackEvicted), t')" using stack_write_failing by blast
  show ?thesis using stack_never_sees_closed_connection [OF o t'] t' by blast
qed

text \<open>
  When the connection of a group is dead and the retry meets a dead connection as well, the packet
  is dropped without an error, the dead connection is out of the table, and unless the tunnel is closed
  the group has another connection or a goroutine connecting.
\<close>

lemma dead_connection_is_replaced:
  assumes "buildPacketMeta p = Some (Inr mt)" "m = mt\<lparr>mkey := connTrackKey mt\<rparr>"
    and "getAns env 0 grp t = (Inr r, u)" "isClosedConnErr (putAns env 0 r m)"
    and "getAns env 1 grp (startReconnect grp (evictConn grp r u)) = (Inr q, v)"
    and "isClosedConnErr (putAns env 1 q m)"
  shows "\<exists>w. writePacket env p app grp t = Some (None, w) \<and> mget (conns w) grp \<noteq> Some q
    \<and> (tclosed w \<or> mget (conns w) grp \<noteq> None \<or> mget (connecting w) grp \<noteq> None)"
proof -
  have "\<not> isAuthTimeoutErr (putAns env 1 q m)"
    using assms(6) by (auto simp: isAuthTimeoutErr_def isClosedConnErr_def)
  then have "writePacket env p app grp t = Some (None, startReconnect grp (evictConn grp q v))"
    using assms by (simp add: writePacket_def Let_def retry_write_def finish_write_def)
  then show ?thesis
    using evictConn_gone [of grp q v] startReconnect_progress [of grp "evictConn grp q v"] by simp
qed

lemma dead_connection_is_replaced_example:
  "\<exists>w. writePacket dead_env tcp_packet ''app'' ''A'' sample_tunnel = Some (None, w)
    \<and> mget (conns w) ''A'' \<noteq> Some 1"
proof -
  obtain mt where mt: "buildPacketMeta tcp_packet = Some (Inr mt)" using sample_packet_meta by blast
  show ?thesis
    using dead_connection_is_replaced [OF mt refl, of dead_env "''A''" sample_tunnel 0 sample_tunnel 1
        "startReconnect ''A'' (evictConn ''A'' 0 sample_tunnel)" "''app''"]
    by (auto simp: dead_env_def isClosedConnErr_def)
qed

text \<open>
  A packet the tunnel can read is sent by the first rule, in the order the server listed them, that
  covers its destination, protocol and port, where TCP counts only rules that allow it on the layer-3
  tunnel; a packet no rule covers, or of another protocol, is refused.
\<close>

lemma packet_routed_by_first_rule:
  assumes "IPv4_Valid p = Some True" "\<not> short_segment p"
  shows "processIPV4 (New rs) env p t =
    (let dst = ipv4 (p ! 16) (p ! 17) (p ! 18) (p ! 19);
         port = (if p ! 9 = ICMP then -1 else uint (be16 (l4_payload p ! 2) (l4_payload p ! 3)));
         route = (\<lambda>pr f. case find (\<lambda>r. ip_hits (dst, pr, port) r \<and> f r) rs of
             Some r \<Rightarrow> writePacket env p (AppID r) (NodeGroupID r) t
           | None \<Rightarrow> Some (Some ErrResourceNotFound, t))
     in if p ! 9 = TCP then route ''tcp'' EnableTCPPrefL3
        else if p ! 9 = UDP then route ''udp'' (\<lambda>_. True)
        else if p ! 9 = ICMP then route ''icmp'' (\<lambda>_. True)
        else Some (Some ErrResourceNotFound, t))"
proof -
  obtain d where d: "Payload p = Some d" using Payload_of_valid(1) [OF assms(1)] by blast
  note v = Payload_of_valid(2-) [OF assms(1)]
  have l: "l4_payload p = d" by (simp add: l4_payload_def d)
  have ports: "be16_at d 2 = Some (be16 (d ! 2) (d ! 3))" if "p ! 9 = TCP \<or> p ! 9 = UDP"
    using assms that be16_at_eq [of 2 d] by (simp add: short_segment_def l numeral_3_eq_3)
  have neq: "TCP \<noteq> UDP" "TCP \<noteq> ICMP" "UDP \<noteq> ICMP" by (simp_all add: TCP_def UDP_def ICMP_def)
  note m = matchL3IPResource_def MatchWhere_def index_match_find accepts_def
  show ?thesis
    using ports neq
    by (simp add: processIPV4_def packet_service_def v d l DestinationPort_def UDP_DestinationPort_def
        m Let_def split: option.split)
qed

lemma packet_routed_by_first_rule_example:
  "processIPV4 (New [web_rule]) dead_env tcp_packet NewL3Tunnel
     = writePacket dead_env tcp_packet ''app'' ''A'' NewL3Tunnel"
proof -
  have v: "IPv4_Valid tcp_packet = Some True" by code_simp
  have s: "\<not> short_segment tcp_packet" by code_simp
  have k: "tcp_packet ! 9 = TCP" "TCP \<noteq> ICMP" by code_simp+
  have f: "ipv4 (tcp_packet ! 16) (tcp_packet ! 17) (tcp_packet ! 18) (tcp_packet ! 19) = ipv4 10 0 0 2"
    "uint (be16 (l4_payload tcp_packet ! 2) (l4_payload tcp_packet ! 3)) = 80" by code_simp+
  show ?thesis
    by (simp add: packet_routed_by_first_rule [OF v s] k f web_rule_hit Let_def) (simp add: web_rule_def)
qed

text \<open>What the stack reads: packets in the order they were queued, whole or not at all.\<close>

lemma stack_read_whole:
  "(Inr d, q) \<in> set (stack_read n dc closed t) \<Longrightarrow> dc = d # q \<and> length d \<le> n"
  by (auto simp: stack_read_def split: list.splits if_splits)

lemma stack_read_blocks: "stack_read n dc closed t = [] \<longleftrightarrow> dc = [] \<and> \<not> closed \<and> \<not> tclosed t"
  by (auto simp: stack_read_def split: list.splits)

end
