(* ===== verification/AtrustParse.thy ===== *)
theory AtrustParse
  imports IPResourceIndex
begin

text \<open>
  The resource document of the aTrust server (\<open>client/atrust/parse.go\<close>): which applications,
  addresses, domains, DNS servers and node groups it names, and the calls that build the routed
  address set. JSON decoding and the netaddr set are library code: the model starts from the decoded
  document and records the calls on the set's builder.
\<close>

section \<open>The server's resource document\<close>

text \<open>The decoded JSON. \<open>AddrPretend\<close> is \<open>None\<close> when the JSON value is not a boolean, \<open>rIP\<close> when
  the list is absent.\<close>

record resourceAddress =
  rProtocol :: string
  rPort :: string
  rHost :: string
  rIP :: "string list option"

record resourceApp =
  appID :: string
  appGroup :: string
  AccessModel :: string
  appPrefL3 :: bool
  appPretend :: "bool option"
  AddressList :: "resourceAddress list"

record nodeAddress =
  naAddress :: string
  naType :: string

record ClientResource =
  AppInfo :: "resourceApp list list"
  MajorNodeGroupID :: string
  NodeGroupList :: "(string \<times> nodeAddress list) list"
  DNSOption :: "string \<times> string"
  DNSOptionV2 :: "string \<times> string"

record NodeGroup =
  WAN :: "string list"
  LAN :: "string list"

text \<open>The calls made on the builder of the address set, in order. The set itself is the netaddr
  package's.\<close>

datatype set_call = AddPrefix string | AddRange ip ip | AddIP ip | RemoveIP ip

record resource_table =
  ipResources :: "IPResource list"
  domainResources :: "(string, DomainResource list) gomap"
  dnsResource :: "(string, ip list) gomap"
  setCalls :: "set_call list"

definition resourceAddrPretend :: "bool option \<Rightarrow> bool" where
  "resourceAddrPretend v = (case v of Some b \<Rightarrow> b | None \<Rightarrow> True)"

definition normalizePolicyDomain :: "string \<Rightarrow> string" where
  "normalizePolicyDomain d =
     (let d = trim_space d
      in if has_prefix d ''*.'' then drop 1 d
         else if CHR ''*'' \<in> set d then []
         else d)"

definition parse_ports :: "string \<Rightarrow> (int \<times> int) option" where
  "parse_ports s =
     (if CHR ''-'' \<in> set s
      then (case split_on (CHR ''-'') s of
              [a, b] \<Rightarrow> (case (atoi a, atoi b) of (Some x, Some y) \<Rightarrow> Some (x, y) | _ \<Rightarrow> None)
            | _ \<Rightarrow> None)
      else map_option (\<lambda>x. (x, x)) (atoi s))"

text \<open>What a host text stands for: a range of addresses and the call that adds it to the set, an IPv6
  address (skipped), or a domain.\<close>

datatype host_kind = HostRange ip ip set_call | HostSkipped | HostDomain

definition classify_host :: "string \<Rightarrow> host_kind" where
  "classify_host h =
     (let x = parse_ip h
      in if x = [] then
           (case parse_cidr h of
              Some (net, msk) \<Rightarrow>
                (let ip4 = to4 net
                 in if ip4 \<noteq> []
                    then HostRange (to16 ip4) (to16 (map2 (\<lambda>a m. a OR NOT m) ip4 msk)) (AddPrefix h)
                    else HostSkipped)
            | None \<Rightarrow>
                (case split_on (CHR ''-'') h of
                   [a, b] \<Rightarrow>
                     (let lo = parse_ip a; hi = parse_ip b
                      in if lo \<noteq> [] \<and> hi \<noteq> []
                         then (if to4 lo \<noteq> [] then HostRange lo hi (AddRange lo hi) else HostSkipped)
                         else HostDomain)
                 | _ \<Rightarrow> HostDomain))
         else if to4 x \<noteq> [] then HostRange x x (AddIP x)
         else HostSkipped)"

definition ip_rule :: "resourceApp \<Rightarrow> string \<Rightarrow> int \<times> int \<Rightarrow> ip \<Rightarrow> ip \<Rightarrow> IPResource" where
  "ip_rule app proto ports lo hi =
     \<lparr>PortMin = fst ports, PortMax = snd ports, ResProtocol = proto, AppID = appID app,
      NodeGroupID = appGroup app, EnableTCPPrefL3 = appPrefL3 app, IPMin = lo, IPMax = hi\<rparr>"

definition domain_rule :: "resourceApp \<Rightarrow> string \<Rightarrow> int \<times> int \<Rightarrow> DomainResource" where
  "domain_rule app proto ports =
     \<lparr>PortMin = fst ports, PortMax = snd ports, ResProtocol = proto, AppID = appID app,
      NodeGroupID = appGroup app, EnableTCPPrefL3 = appPrefL3 app,
      AddrPretend = resourceAddrPretend (appPretend app)\<rparr>"

definition mget_list :: "('k, 'a list) gomap \<Rightarrow> 'k \<Rightarrow> 'a list" where
  "mget_list m k = (case mget m k of None \<Rightarrow> [] | Some xs \<Rightarrow> xs)"

text \<open>The addresses a domain rule pins to its domain.\<close>

fun add_dns_rules ::
  "resourceApp \<Rightarrow> string \<Rightarrow> int \<times> int \<Rightarrow> string \<Rightarrow> string list \<Rightarrow> resource_table \<Rightarrow> resource_table" where
  "add_dns_rules app proto ports host [] t = t"
| "add_dns_rules app proto ports host (s # ss) t =
     add_dns_rules app proto ports host ss
       (let x = parse_ip s
        in if to4 x \<noteq> []
           then t\<lparr>setCalls := setCalls t @ [AddIP x],
                  dnsResource := mset host (mget_list (dnsResource t) host @ [x]) (dnsResource t),
                  ipResources := ipResources t @ [ip_rule app proto ports x x]\<rparr>
           else t)"

text \<open>One address of an application. \<open>None\<close>: \<open>netaddr.MustParseIPPrefix\<close>, which \<open>prefix_ok\<close> stands
  for, panics on the text.\<close>

definition parse_address ::
  "(string \<Rightarrow> bool) \<Rightarrow> resourceApp \<Rightarrow> resourceAddress \<Rightarrow> resource_table \<Rightarrow> resource_table option" where
  "parse_address prefix_ok app a t =
     (if rProtocol a \<notin> {''tcp'', ''udp'', ''all''} then Some t
      else (case parse_ports (rPort a) of
              None \<Rightarrow> Some t
            | Some ports \<Rightarrow>
                (case classify_host (rHost a) of
                   HostSkipped \<Rightarrow> Some t
                 | HostRange lo hi call \<Rightarrow>
                     if (case call of AddPrefix p \<Rightarrow> \<not> prefix_ok p | _ \<Rightarrow> False) then None
                     else Some (t\<lparr>setCalls := setCalls t @ [call],
                                  ipResources := ipResources t @ [ip_rule app (rProtocol a) ports lo hi]\<rparr>)
                 | HostDomain \<Rightarrow>
                     (let d = normalizePolicyDomain (rHost a)
                      in if d = [] then Some t
                         else
                           let t = t\<lparr>domainResources :=
                             mset d (mget_list (domainResources t) d @ [domain_rule app (rProtocol a) ports])
                               (domainResources t)\<rparr>
                           in Some (case rIP a of
                                      None \<Rightarrow> t
                                    | Some ss \<Rightarrow> add_dns_rules app (rProtocol a) ports (rHost a) ss t)))))"

fun parse_addresses ::
  "(string \<Rightarrow> bool) \<Rightarrow> resourceApp \<Rightarrow> resourceAddress list \<Rightarrow> resource_table \<Rightarrow> resource_table option" where
  "parse_addresses prefix_ok app [] t = Some t"
| "parse_addresses prefix_ok app (a # as) t =
     do { t \<leftarrow> parse_address prefix_ok app a t; parse_addresses prefix_ok app as t }"

fun parse_apps :: "(string \<Rightarrow> bool) \<Rightarrow> resourceApp list \<Rightarrow> resource_table \<Rightarrow> resource_table option" where
  "parse_apps prefix_ok [] t = Some t"
| "parse_apps prefix_ok (app # apps) t =
     do {
       t \<leftarrow> (if AccessModel app \<noteq> ''L3VPN'' then Some t
             else parse_addresses prefix_ok app (AddressList app) t);
       parse_apps prefix_ok apps t
     }"

definition parse_dns :: "string \<times> string \<Rightarrow> string \<times> string \<Rightarrow> string list" where
  "parse_dns v1 v2 =
     (let v = (if fst v1 = [] then v2 else v1) in filter (\<lambda>s. s \<noteq> []) [fst v, snd v])"

definition node_address :: "string \<Rightarrow> string \<Rightarrow> string" where
  "node_address server a =
     (let a = (if a = ''{{sdpcHost}}'' then server else a)
      in if CHR '':'' \<in> set a then a else a @ '':441'')"

fun parse_node_addresses :: "string \<Rightarrow> nodeAddress list \<Rightarrow> NodeGroup \<times> set_call list \<Rightarrow> NodeGroup \<times> set_call list" where
  "parse_node_addresses server [] (g, calls) = (g, calls)"
| "parse_node_addresses server (n # ns) (g, calls) =
     (let a = node_address server (naAddress n);
          g = (if to_lower (naType n) = ''wan'' then g\<lparr>WAN := WAN g @ [a]\<rparr>
               else if to_lower (naType n) = ''lan'' then g\<lparr>LAN := LAN g @ [a]\<rparr>
               else g);
          calls = (case split_host_port a of
             None \<Rightarrow> calls
           | Some (host, _) \<Rightarrow>
               (let x = parse_ip host in if to4 x \<noteq> [] then calls @ [RemoveIP x] else calls))
      in parse_node_addresses server ns (g, calls))"

fun parse_node_groups ::
  "string \<Rightarrow> (string \<times> nodeAddress list) list \<Rightarrow> (string, NodeGroup) gomap \<times> set_call list
     \<Rightarrow> (string, NodeGroup) gomap \<times> set_call list" where
  "parse_node_groups server [] (m, calls) = (m, calls)"
| "parse_node_groups server ((i, ns) # gs) (m, calls) =
     (let (g, calls) = parse_node_addresses server ns (\<lparr>WAN = [], LAN = []\<rparr>, calls)
      in parse_node_groups server gs (mset i g m, calls))"

record policy =
  table :: resource_table
  dnsServers :: "string list"
  majorGroup :: string
  nodeGroups :: "(string, NodeGroup) gomap"
  ipIndex :: node

definition parseResource :: "(string \<Rightarrow> bool) \<Rightarrow> string \<Rightarrow> ClientResource \<Rightarrow> policy option" where
  "parseResource prefix_ok server r =
     do {
       t \<leftarrow> parse_apps prefix_ok (concat (AppInfo r))
              \<lparr>ipResources = [], domainResources = [], dnsResource = [], setCalls = []\<rparr>;
       let (groups, calls) = parse_node_groups server (NodeGroupList r) ([], setCalls t);
       Some \<lparr>table = t\<lparr>setCalls := calls\<rparr>, dnsServers = parse_dns (DNSOption r) (DNSOptionV2 r),
             majorGroup = MajorNodeGroupID r, nodeGroups = groups, ipIndex = New (ipResources t)\<rparr>
     }"


section \<open>A CIDR rule covers its network exactly\<close>

unbundle bit_operations_syntax

lemma bit_concat_nat:
  assumes "(B :: nat) < 2 ^ m"
  shows "bit (A * 2 ^ m + B) n = (if n < m then bit B n else bit A (n - m))"
proof (cases "n < m")
  case True
  have "take_bit m (A * 2 ^ m + B) = take_bit m B" by (simp add: take_bit_eq_mod)
  then have "bit (take_bit m (A * 2 ^ m + B)) n = bit (take_bit m B) n" by simp
  then show ?thesis using True by (simp add: bit_take_bit_iff)
next
  case False
  then have "(2 :: nat) ^ n = 2 ^ m * 2 ^ (n - m)" by (simp flip: power_add)
  then have "(A * 2 ^ m + B) div 2 ^ n = A div 2 ^ (n - m)" using assms by (simp add: div_mult2_eq)
  then show ?thesis using False by (simp add: bit_iff_odd)
qed

lemma bit_unat: "bit (w :: 'a :: len word) n \<longleftrightarrow> bit (unat w) n"
  by (auto simp: bit_unsigned_iff dest: bit_imp_le_length)

lemma bit_be16: "bit (be16 a b) n = (if n < 8 then bit b n else bit a (n - 8))"
  using bit_concat_nat [of "unat b" 8 "unat a" n] unat_byte_bound [of b]
  by (simp add: bit_unat unat_be16)

lemma bit_be32: "bit (be32 a b c d) n = (if n < 16 then bit (be16 c d) n else bit (be16 a b) (n - 16))"
  using bit_concat_nat [of "unat (be16 c d)" 16 "unat (be16 a b)" n] unat_u16_bound [of "be16 c d"]
  by (simp add: bit_unat unat_be32)

lemma be32_and: "be32 (a AND a') (b AND b') (c AND c') (d AND d') = be32 a b c d AND be32 a' b' c' d'"
  by (rule bit_word_eqI) (auto simp: bit_be32 bit_be16 bit_and_iff)

lemma be32_or_not: "be32 (a OR NOT a') (b OR NOT b') (c OR NOT c') (d OR NOT d') = be32 a b c d OR NOT (be32 a' b' c' d')"
  by (rule bit_word_eqI) (auto simp: bit_be32 bit_be16 bit_or_iff bit_not_iff)

lemma prefix_range_iff:
  fixes N X :: u32
  assumes "N AND NOT (mask k) = N"
  shows "N \<le> X \<and> X \<le> N OR mask k \<longleftrightarrow> X AND NOT (mask k) = N"
proof
  assume "X AND NOT (mask k) = N"
  moreover have "X OR mask k = (X AND NOT (mask k)) OR mask k"
    by (rule bit_word_eqI) (auto simp: bit_simps)
  ultimately show "N \<le> X \<and> X \<le> N OR mask k" by (metis word_and_le2 le_word_or2 or.commute)
next
  assume a: "N \<le> X \<and> X \<le> N OR mask k"
  have mono: "drop_bit k U \<le> drop_bit k V" if "U \<le> V" for U V :: u32
    using that by (simp add: word_le_nat_alt unat_drop_bit_eq) (simp add: drop_bit_eq_div div_le_mono)
  have "drop_bit k (N OR mask k) = drop_bit k N" by (rule bit_word_eqI) (auto simp: bit_simps)
  then have "drop_bit k X = drop_bit k N" using a mono [of N X] mono [of X "N OR mask k"] by simp
  moreover have "U AND NOT (mask k) = push_bit k (drop_bit k U)" for U :: u32
    by (rule bit_word_eqI) (auto simp: bit_simps)
  ultimately show "X AND NOT (mask k) = N" using assms by metis
qed

lemma bit_mask_byte: "bit (mask_byte k) n \<longleftrightarrow> n < 8 \<and> 8 \<le> n + k"
proof -
  have e: "(255 :: byte) = mask 8" by (simp add: mask_eq_exp_minus_1)
  show ?thesis unfolding mask_byte_def e by (auto simp: bit_simps)
qed

lemma mask_word: "n \<le> 32 \<Longrightarrow> be32 (mask_byte n) (mask_byte (n - 8)) (mask_byte (n - 16)) (mask_byte (n - 24))
    = NOT (mask (32 - n))"
  by (rule bit_word_eqI) (auto simp: bit_be32 bit_be16 bit_mask_byte bit_simps)

lemma to4_to16: "length x = 4 \<Longrightarrow> to4 (to16 x) = x"
  by (auto simp: to4_def to16_def split: if_splits)

lemma range_hits_bytes:
  assumes "length lo = 4" "length hi = 4" "length x = 4"
  shows "range_hits x (ip_rule app proto ports (to16 lo) (to16 hi)) \<longleftrightarrow>
    be32 (lo ! 0) (lo ! 1) (lo ! 2) (lo ! 3) \<le> be32 (x ! 0) (x ! 1) (x ! 2) (x ! 3)
    \<and> be32 (x ! 0) (x ! 1) (x ! 2) (x ! 3) \<le> be32 (hi ! 0) (hi ! 1) (hi ! 2) (hi ! 3)"
proof -
  have "to4 x = x" using assms(3) by (simp add: to4_def)
  then show ?thesis using assms
    by (elim length4_cases) (simp add: range_hits_def ip_u32_def ip_rule_def to4_to16)
qed

lemma network_range_iff:
  assumes "length y = 4" "length x = 4" "ones \<le> 32" "msk = cidr_mask ones 4"
  shows "range_hits x (ip_rule app proto ports (to16 (map2 (AND) y msk))
      (to16 (map2 (\<lambda>a m. a OR NOT m) (map2 (AND) y msk) msk))) \<longleftrightarrow> map2 (AND) x msk = map2 (AND) y msk"
proof -
  obtain a b c d where y: "y = [a, b, c, d]" using assms(1) by (rule length4_cases)
  obtain a' b' c' d' where x: "x = [a', b', c', d']" using assms(2) by (rule length4_cases)
  let ?M = "be32 (mask_byte ones) (mask_byte (ones - 8)) (mask_byte (ones - 16)) (mask_byte (ones - 24))"
  have m: "msk = [mask_byte ones, mask_byte (ones - 8), mask_byte (ones - 16), mask_byte (ones - 24)]"
    using assms(4) by (simp add: cidr_mask_def upt_rec)
  have M: "?M = NOT (mask (32 - ones))" using mask_word [OF assms(3)] .
  let ?N = "be32 a b c d AND ?M"
  have N: "?N AND NOT (mask (32 - ones)) = ?N" unfolding M by (simp add: and.assoc)
  have n: "?N OR NOT ?M = ?N OR mask (32 - ones)" unfolding M by simp
  have "map2 (AND) x msk = map2 (AND) y msk \<longleftrightarrow> be32 a' b' c' d' AND ?M = ?N"
    unfolding x y m by (simp add: be32_inject be32_and [symmetric])
  then show ?thesis
    using prefix_range_iff [OF N, of "be32 a' b' c' d'"]
    by (simp add: range_hits_bytes assms(2) y m x be32_and be32_or_not n M [symmetric])
qed

lemma parse_ip4_text:
  assumes "parse_ip s \<noteq> []" "CHR '':'' \<notin> set s"
  shows "length (to4 (parse_ip s)) = 4"
proof -
  have "\<exists>x. parse_ipv4 s = Some x \<and> parse_ip s = x"
  proof (cases "find (\<lambda>c. c \<in> set ''.:%'') s")
    case None
    then show ?thesis using assms(1) by (simp add: parse_ip_def)
  next
    case (Some c)
    then have "c \<in> set s" by (metis find_Some_iff nth_mem)
    then have "c \<noteq> CHR '':''" using assms(2) by auto
    then show ?thesis using assms(1) Some by (auto simp: parse_ip_def split: if_splits option.splits)
  qed
  then obtain x where x: "parse_ipv4 s = Some x" "parse_ip s = x" by blast
  from x(1) have "length (to4 x) = 4" by (auto simp: parse_ipv4_def split: list.splits option.splits)
  then show ?thesis by (simp add: x(2))
qed

lemma parse_cidr4_form:
  assumes "parse_cidr h = Some (net, msk)" "CHR '':'' \<notin> set h"
  obtains y ones where "length y = 4" "ones \<le> 32" "msk = cidr_mask ones 4" "net = map2 (AND) y msk"
proof -
  obtain i where i: "first_index (CHR ''/'') h = Some i"
    using assms(1) by (auto simp: parse_cidr_def split: option.splits)
  have c: "CHR '':'' \<notin> set (take i h)" using assms(2) by (auto dest: in_set_takeD)
  have "parse_ip (take i h) \<noteq> []" "digits_val (drop (i + 1) h) \<le> 32"
    "msk = cidr_mask (digits_val (drop (i + 1) h)) 4" "net = map2 (AND) (to4 (parse_ip (take i h))) msk"
    using assms(1) i c by (auto simp: parse_cidr_def Let_def split: if_splits)
  then show ?thesis using that parse_ip4_text [OF _ c] by blast
qed

text \<open>
  The rule built from an IPv4 network in CIDR notation covers exactly the addresses of the network:
  those whose masked bits are the network's.
\<close>

lemma cidr_rule_covers_network:
  assumes "parse_cidr h = Some (net, msk)" "CHR '':'' \<notin> set h" "parse_ip h = []" "length x = 4"
  shows "\<exists>lo hi. classify_host h = HostRange lo hi (AddPrefix h)
    \<and> (range_hits x (ip_rule app proto ports lo hi) \<longleftrightarrow> map2 (AND) x msk = net)"
proof -
  obtain y ones where y: "length y = 4" "ones \<le> 32" "msk = cidr_mask ones 4" "net = map2 (AND) y msk"
    using parse_cidr4_form [OF assms(1,2)] .
  have "length net = 4" using y by (simp add: cidr_mask_def)
  then have "to4 net = net" "net \<noteq> []" by auto
  then show ?thesis
    using network_range_iff [OF y(1) assms(4) y(2,3)] assms(1,3) y(4) by (simp add: classify_host_def Let_def)
qed

definition sample_app :: resourceApp where
  "sample_app = \<lparr>appID = ''a'', appGroup = ''g'', AccessModel = ''L3VPN'', appPrefL3 = False,
     appPretend = None, AddressList = [\<lparr>rProtocol = ''tcp'', rPort = ''80-90'', rHost = ''10.13.0.0/16'', rIP = None\<rparr>,
       \<lparr>rProtocol = ''all'', rPort = ''443'', rHost = ''*.a.cn'', rIP = Some [''10.1.2.3'']\<rparr>]\<rparr>"

lemma cidr_rule_covers_network_example:
  "\<exists>lo hi. classify_host ''10.13.0.0/16'' = HostRange lo hi (AddPrefix ''10.13.0.0/16'')
    \<and> range_hits [10, 13, 255, 7] (ip_rule sample_app ''tcp'' (80, 90) lo hi)"
proof -
  have c: "parse_cidr ''10.13.0.0/16'' = Some ([10, 13, 0, 0], [255, 255, 0, 0])" by code_simp
  have i: "parse_ip ''10.13.0.0/16'' = []" by code_simp
  have m: "map2 (AND) [10, 13, 255, 7] [255, 255, 0, 0 :: byte] = [10, 13, 0, 0]" by code_simp
  show ?thesis
    using cidr_rule_covers_network [OF c _ i, of "[10, 13, 255, 7]" sample_app "''tcp''" "(80, 90)"] m by simp
qed


section \<open>What the parsed policy guarantees\<close>

definition from_app :: "resourceApp list \<Rightarrow> 'a resource_scheme \<Rightarrow> bool" where
  "from_app apps q \<longleftrightarrow> (\<exists>app \<in> set apps. AccessModel app = ''L3VPN'' \<and> AppID q = appID app
     \<and> NodeGroupID q = appGroup app \<and> EnableTCPPrefL3 q = appPrefL3 app)
     \<and> ResProtocol q \<in> {''tcp'', ''udp'', ''all''}"

definition table_ok :: "resourceApp list \<Rightarrow> resource_table \<Rightarrow> bool" where
  "table_ok apps t \<longleftrightarrow>
     (\<forall>q \<in> set (ipResources t). from_app apps q \<and> to4 (IPMin q) \<noteq> [])
     \<and> (\<forall>d rs. mget (domainResources t) d = Some rs \<longrightarrow> d \<noteq> [] \<and> rs \<noteq> [] \<and> (\<forall>q \<in> set rs. from_app apps q))
     \<and> (\<forall>c \<in> set (setCalls t). \<forall>x. c \<noteq> RemoveIP x)"

lemma table_ok_add_ip:
  "table_ok apps t \<Longrightarrow> from_app apps q \<Longrightarrow> to4 (IPMin q) \<noteq> [] \<Longrightarrow> \<forall>x. c \<noteq> RemoveIP x
   \<Longrightarrow> table_ok apps (t\<lparr>setCalls := setCalls t @ [c], ipResources := ipResources t @ [q]\<rparr>)"
  by (auto simp: table_ok_def)

lemma table_ok_add_dns:
  "table_ok apps t \<Longrightarrow> from_app apps q \<Longrightarrow> to4 (IPMin q) \<noteq> []
   \<Longrightarrow> table_ok apps (t\<lparr>setCalls := setCalls t @ [AddIP x], dnsResource := m,
        ipResources := ipResources t @ [q]\<rparr>)"
  by (auto simp: table_ok_def)

lemma table_ok_add_domain:
  assumes "table_ok apps t" "from_app apps q" "d \<noteq> []"
  shows "table_ok apps (t\<lparr>domainResources := mset d (mget_list (domainResources t) d @ [q]) (domainResources t)\<rparr>)"
proof -
  have "\<forall>r \<in> set (mget_list (domainResources t) d). from_app apps r"
    using assms(1) unfolding table_ok_def mget_list_def
    by (cases "mget (domainResources t) d") auto
  then show ?thesis using assms by (auto simp: table_ok_def split: if_splits)
qed

lemma add_dns_rules_ok:
  "table_ok apps t \<Longrightarrow> (\<And>x. from_app apps (ip_rule app proto ports x x))
   \<Longrightarrow> table_ok apps (add_dns_rules app proto ports host ss t)"
proof (induction ss arbitrary: t)
  case (Cons s ss)
  show ?case
    using Cons.prems by (auto simp: Let_def ip_rule_def intro!: Cons.IH table_ok_add_dns)
qed simp

lemma to4_to16_to4: "to4 x \<noteq> [] \<Longrightarrow> to4 (to16 (to4 x)) = to4 x"
  using to4_length [of x] by (simp add: to4_to16)

lemma classify_host_range:
  "classify_host h = HostRange lo hi c \<Longrightarrow> to4 lo \<noteq> [] \<and> (\<forall>x. c \<noteq> RemoveIP x)"
  by (auto simp: classify_host_def Let_def to4_to16_to4 split: if_splits option.splits prod.splits list.splits)

lemma parse_address_ok:
  assumes "table_ok apps t" "app \<in> set apps" "AccessModel app = ''L3VPN''" "parse_address ok app a t = Some u"
  shows "table_ok apps u"
proof (cases "rProtocol a \<in> {''tcp'', ''udp'', ''all''} \<and> parse_ports (rPort a) \<noteq> None")
  case False
  then show ?thesis using assms by (auto simp: parse_address_def split: option.splits)
next
  case True
  then obtain ports where p: "parse_ports (rPort a) = Some ports" by blast
  have ip: "from_app apps (ip_rule app (rProtocol a) ports lo hi)" for lo hi
    using True assms(2,3) by (auto simp: from_app_def ip_rule_def)
  have dom: "from_app apps (domain_rule app (rProtocol a) ports)"
    using True assms(2,3) by (auto simp: from_app_def domain_rule_def)
  show ?thesis
  proof (cases "classify_host (rHost a)")
    case (HostRange lo hi c)
    note r = classify_host_range [OF this]
    have "u = t\<lparr>setCalls := setCalls t @ [c], ipResources := ipResources t @ [ip_rule app (rProtocol a) ports lo hi]\<rparr>"
      using assms(4) True p HostRange by (simp add: parse_address_def split: if_splits)
    then show ?thesis using table_ok_add_ip [OF assms(1) ip _ conjunct2 [OF r], of lo hi] r
      by (simp add: ip_rule_def)
  next
    case HostSkipped
    then show ?thesis using assms True p by (auto simp: parse_address_def)
  next
    case HostDomain
    let ?d = "normalizePolicyDomain (rHost a)"
    have "table_ok apps (t\<lparr>domainResources := mset ?d (mget_list (domainResources t) ?d
        @ [domain_rule app (rProtocol a) ports]) (domainResources t)\<rparr>)" if "?d \<noteq> []"
      by (rule table_ok_add_domain [OF assms(1) dom that])
    then show ?thesis using assms(1,4) True p HostDomain add_dns_rules_ok [OF _ ip]
      by (auto simp: parse_address_def Let_def split: if_splits option.splits)
  qed
qed

lemma parse_addresses_ok:
  "table_ok apps t \<Longrightarrow> app \<in> set apps \<Longrightarrow> AccessModel app = ''L3VPN''
   \<Longrightarrow> parse_addresses ok app as t = Some u \<Longrightarrow> table_ok apps u"
  by (induction as arbitrary: t) (auto simp: Option.bind_eq_Some_conv dest: parse_address_ok)

lemma parse_apps_ok:
  "table_ok all t \<Longrightarrow> set apps \<subseteq> set all \<Longrightarrow> parse_apps ok apps t = Some u \<Longrightarrow> table_ok all u"
proof (induction apps arbitrary: t)
  case (Cons app apps)
  then obtain v where v: "(if AccessModel app \<noteq> ''L3VPN'' then Some t
      else parse_addresses ok app (AddressList app) t) = Some v" "parse_apps ok apps v = Some u"
    by (auto simp: Option.bind_eq_Some_conv)
  have "table_ok all v" using v(1) Cons.prems parse_addresses_ok [of all t app ok "AddressList app" v]
    by (auto split: if_splits)
  then show ?case using Cons v(2) by simp
qed simp

definition node_ips :: "string \<Rightarrow> nodeAddress list \<Rightarrow> ip list" where
  "node_ips server ns =
     concat (map (\<lambda>n. case split_host_port (node_address server (naAddress n)) of
         None \<Rightarrow> []
       | Some (host, _) \<Rightarrow> if to4 (parse_ip host) \<noteq> [] then [parse_ip host] else []) ns)"

lemma parse_node_addresses_calls:
  "snd (parse_node_addresses server ns (g, cs)) = cs @ map RemoveIP (node_ips server ns)"
proof (induction ns arbitrary: g cs)
  case (Cons n ns)
  show ?case
    by (simp add: Let_def Cons.IH node_ips_def split: option.split)
qed (simp add: node_ips_def)

lemma parse_node_groups_calls:
  "snd (parse_node_groups server gs (m, cs)) = cs @ map RemoveIP (concat (map (\<lambda>(i, ns). node_ips server ns) gs))"
proof (induction gs arbitrary: m cs)
  case (Cons x gs)
  obtain i ns where x: "x = (i, ns)" by fastforce
  obtain g ds where g: "parse_node_addresses server ns (\<lparr>WAN = [], LAN = []\<rparr>, cs) = (g, ds)" by fastforce
  then have "ds = cs @ map RemoveIP (node_ips server ns)"
    using parse_node_addresses_calls [of server ns "\<lparr>WAN = [], LAN = []\<rparr>" cs] by simp
  then show ?case by (simp add: x g Cons.IH)
qed simp

text \<open>
  Every rule of a parsed policy comes from an application of the layer-3 VPN kind and carries its
  id and node group and a known protocol, address rules start at an IPv4 address, no domain has an
  empty name or an empty rule list; and the addresses of the VPN nodes are removed from the routed set
  after everything has been added to it, so no rule routes a node through its own tunnel.
\<close>

lemma parsed_policy_wellformed:
  assumes "parseResource ok server r = Some p"
  shows "(\<forall>q \<in> set (ipResources (table p)). from_app (concat (AppInfo r)) q \<and> to4 (IPMin q) \<noteq> [])
    \<and> (\<forall>d rs. mget (domainResources (table p)) d = Some rs \<longrightarrow>
         d \<noteq> [] \<and> rs \<noteq> [] \<and> (\<forall>q \<in> set rs. from_app (concat (AppInfo r)) q))
    \<and> (\<exists>adds. (\<forall>c \<in> set adds. \<forall>x. c \<noteq> RemoveIP x)
         \<and> setCalls (table p) = adds @ map RemoveIP (concat (map (\<lambda>(i, ns). node_ips server ns) (NodeGroupList r))))
    \<and> ipIndex p = New (ipResources (table p))"
proof -
  let ?t0 = "\<lparr>ipResources = [], domainResources = [], dnsResource = [], setCalls = []\<rparr>"
  obtain t where t: "parse_apps ok (concat (AppInfo r)) ?t0 = Some t"
    using assms by (auto simp: parseResource_def Option.bind_eq_Some_conv)
  obtain m cs where m: "parse_node_groups server (NodeGroupList r) ([], setCalls t) = (m, cs)" by fastforce
  have cs: "cs = setCalls t @ map RemoveIP (concat (map (\<lambda>(i, ns). node_ips server ns) (NodeGroupList r)))"
    using parse_node_groups_calls [of server "NodeGroupList r" "[]" "setCalls t"] m by simp
  have ok: "table_ok (concat (AppInfo r)) t"
    by (rule parse_apps_ok [OF _ subset_refl t]) (simp add: table_ok_def)
  have p: "table p = t\<lparr>setCalls := cs\<rparr>" "ipIndex p = New (ipResources t)"
    using assms t m by (auto simp: parseResource_def Let_def)
  show ?thesis using ok unfolding p cs table_ok_def by simp
qed

definition sample_resource :: ClientResource where
  "sample_resource = \<lparr>AppInfo = [[sample_app]], MajorNodeGroupID = ''g'',
     NodeGroupList = [(''g'', [\<lparr>naAddress = ''{{sdpcHost}}'', naType = ''WAN''\<rparr>])],
     DNSOption = ([], []), DNSOptionV2 = (''10.0.0.53'', [])\<rparr>"

lemma parsed_policy_wellformed_example:
  "\<exists>p. parseResource (\<lambda>_. True) ''1.2.3.4'' sample_resource = Some p
    \<and> (\<exists>adds. setCalls (table p) = adds @ map RemoveIP [ipv4 1 2 3 4])
    \<and> ipIndex p = New (ipResources (table p))"
proof -
  let ?t0 = "\<lparr>ipResources = [], domainResources = [], dnsResource = [], setCalls = []\<rparr>"
  have "(case parse_apps (\<lambda>_. True) (concat (AppInfo sample_resource)) ?t0 of None \<Rightarrow> False | Some _ \<Rightarrow> True)"
    by code_simp
  then have "parseResource (\<lambda>_. True) ''1.2.3.4'' sample_resource \<noteq> None"
    by (auto simp: parseResource_def split: option.splits prod.splits)
  then obtain p where p: "parseResource (\<lambda>_. True) ''1.2.3.4'' sample_resource = Some p" by blast
  have n: "concat (map (\<lambda>(i, ns). node_ips ''1.2.3.4'' ns) (NodeGroupList sample_resource)) = [ipv4 1 2 3 4]"
    by code_simp
  show ?thesis using parsed_policy_wellformed [OF p, unfolded n] p by blast
qed

lemma parse_address_total:
  assumes "\<And>h. parse_cidr h \<noteq> None \<Longrightarrow> ok h"
  shows "parse_address ok app a t \<noteq> None"
proof (cases "classify_host (rHost a)")
  case (HostRange lo hi c)
  then have "c = AddPrefix p \<Longrightarrow> parse_cidr p \<noteq> None" for p
    by (auto simp: classify_host_def Let_def split: if_splits option.splits prod.splits list.splits)
  then show ?thesis using assms HostRange
    by (auto simp: parse_address_def split: option.splits set_call.splits)
qed (auto simp: parse_address_def Let_def split: option.splits)

lemma parse_addresses_total:
  assumes "\<And>h. parse_cidr h \<noteq> None \<Longrightarrow> ok h"
  shows "\<exists>u. parse_addresses ok app as t = Some u"
proof (induction as arbitrary: t)
  case (Cons a as)
  obtain v where "parse_address ok app a t = Some v" using parse_address_total [of ok app a t] assms by blast
  then show ?case using Cons by simp
qed simp

lemma parse_apps_total:
  assumes "\<And>h. parse_cidr h \<noteq> None \<Longrightarrow> ok h"
  shows "\<exists>u. parse_apps ok apps t = Some u"
proof (induction apps arbitrary: t)
  case (Cons ap apps)
  obtain v where "(if AccessModel ap \<noteq> ''L3VPN'' then Some t
      else parse_addresses ok ap (AddressList ap) t) = Some v"
    using parse_addresses_total [of ok ap "AddressList ap" t] assms
    by (cases "AccessModel ap = ''L3VPN''") auto
  then show ?case using Cons by simp
qed simp

text \<open>The parser never panics, provided the netaddr package accepts the CIDR texts that
  \<open>net.ParseCIDR\<close> accepts.\<close>

lemma parseResource_total:
  "(\<And>h. parse_cidr h \<noteq> None \<Longrightarrow> ok h) \<Longrightarrow> parseResource ok server r \<noteq> None"
  using parse_apps_total [of ok "concat (AppInfo r)"
      "\<lparr>ipResources = [], domainResources = [], dnsResource = [], setCalls = []\<rparr>"]
  by (auto simp: parseResource_def split: prod.splits)

end
