(* ===== verification/TcpTunnel.thy ===== *)
theory TcpTunnel
  imports L3Frames IPResourceIndex
begin

text \<open>
  The aTrust TCP tunnel (\<open>client/atrust/tcptunnel.go\<close>): the choice of rule and node for a
  destination, the handshake with the node, and the framed data stream of a tunnelled connection.
  The TLS connection is the bytes still to come and its answers to writes; JSON, HMAC, SHA-256 and the
  TLS dial are parameters.
\<close>

section \<open>Errors and the connection\<close>

datatype tcp_error =
    TIO io_error
  | TShortWrite
  | TAuth tunnel_error
  | TNotResource
  | TText string
  | THello byte byte
  | TAuthHeader byte byte
  | TVersion byte
  | TAddressType byte
  | TStatus byte
  | TFrame bytes

fun tcp_io :: "io_error + 'a \<Rightarrow> tcp_error + 'a" where
  "tcp_io (Inl e) = Inl (TIO e)"
| "tcp_io (Inr x) = Inr x"

text \<open>The tunnelled connection: what is still to come from the server, what the TLS connection has
  taken and its answer to the \<open>n\<close>-th write, and the fields of the Go struct.\<close>

record tcpTunnelConn =
  received :: bytes
  sent :: bytes
  writes :: nat
  accept :: "nat \<Rightarrow> bytes \<Rightarrow> nat \<times> tcp_error option"
  readBuf :: bytes
  reuse :: bool
  raw :: bool
  closeWriteDone :: bool
  closeWriteErr :: "tcp_error option"

definition conn_write :: "bytes \<Rightarrow> tcpTunnelConn \<Rightarrow> (nat \<times> tcp_error option) \<times> tcpTunnelConn" where
  "conn_write b c =
     (let (n, e) = accept c (writes c) b
      in ((n, e), c\<lparr>sent := sent c @ take n b, writes := Suc (writes c)\<rparr>))"

definition writeTCPTunnelHandshakeMessage :: "bytes \<Rightarrow> tcpTunnelConn \<Rightarrow> tcp_error option \<times> tcpTunnelConn" where
  "writeTCPTunnelHandshakeMessage d c =
     (let ((n, e), c) = conn_write d c
      in (if e \<noteq> None then e else if n \<noteq> length d then Some TShortWrite else None, c))"

definition writeTCPTunnelInitialMessages :: "bytes \<Rightarrow> bytes \<Rightarrow> tcpTunnelConn \<Rightarrow> tcp_error option \<times> tcpTunnelConn" where
  "writeTCPTunnelInitialMessages initMsg destMsg c = writeTCPTunnelHandshakeMessage (initMsg @ destMsg) c"


section \<open>Reading and writing the data stream\<close>

definition tcp_frame :: "bytes \<Rightarrow> bytes" where
  "tcp_frame chunk = [0x01, 0x00] @ bytes16 (word_of_nat (length chunk)) @ chunk"

definition close_frame :: bytes where
  "close_frame = [0x01, 0x01, 0x00, 0x00]"

text \<open>The write loop, from the bytes already written; it stops at the first frame that fails.\<close>

function write_frames :: "nat \<Rightarrow> bytes \<Rightarrow> tcpTunnelConn \<Rightarrow> (nat \<times> tcp_error option) \<times> tcpTunnelConn" where
  "write_frames written b c =
     (if length b \<le> written then ((written, None), c)
      else
        let chunkSize = min (length b - written) 0xFFFF;
            (e, c) = writeTCPTunnelHandshakeMessage (tcp_frame (take chunkSize (drop written b))) c
        in if e \<noteq> None then ((written, e), c) else write_frames (written + chunkSize) b c)"
  by pat_completeness auto

termination
  by (relation "measure (\<lambda>(written, b, c). length b - written)") auto

declare write_frames.simps [simp del]

definition Write :: "bytes \<Rightarrow> tcpTunnelConn \<Rightarrow> (nat \<times> tcp_error option) \<times> tcpTunnelConn" where
  "Write b c =
     (if b = [] then ((0, None), c)
      else if raw c then conn_write b c
      else write_frames 0 b c)"

text \<open>The read loop for a buffer of \<open>n\<close> bytes: empty frames are skipped; a frame longer than the
  buffer leaves its tail in \<open>readBuf\<close>.\<close>

fun read_frames :: "nat \<Rightarrow> bytes \<Rightarrow> (tcp_error + bytes) \<times> bytes \<times> bytes" where
  "read_frames n (t # k # h # l # r) =
     (if t = 0x01 \<and> k = 0x00 then
        (let len = unat (be16 h l)
         in if len = 0 then read_frames n r
            else (case read_full len r of
                    Inl e \<Rightarrow> (Inl (TIO e), [], [])
                  | Inr (p, r) \<Rightarrow> (Inr (take n p), drop n p, r)))
      else if t = 0x01 \<and> k = 0x01 then (Inl (TIO EOF), [], r)
      else (Inl (TFrame [t, k, h, l]), [], r))"
| "read_frames n [] = (Inl (TIO EOF), [], [])"
| "read_frames n r = (Inl (TIO UnexpectedEOF), [], [])"

text \<open>\<open>Read\<close> with a buffer of \<open>n\<close> bytes. In raw mode the buffered reader delivers as many bytes as it
  has at hand, at least one: \<open>avail\<close> of them.\<close>

definition Read :: "nat \<Rightarrow> nat \<Rightarrow> tcpTunnelConn \<Rightarrow> (tcp_error + bytes) \<times> tcpTunnelConn" where
  "Read avail n c =
     (if n = 0 then (Inr [], c)
      else if raw c then
        (if received c = [] then (Inl (TIO EOF), c)
         else let k = min n (max 1 avail) in (Inr (take k (received c)), c\<lparr>received := drop k (received c)\<rparr>))
      else if readBuf c \<noteq> [] then (Inr (take n (readBuf c)), c\<lparr>readBuf := drop n (readBuf c)\<rparr>)
      else (let (res, buf, r) = read_frames n (received c) in (res, c\<lparr>readBuf := buf, received := r\<rparr>)))"

definition CloseWrite :: "(tcpTunnelConn \<Rightarrow> tcp_error option \<times> tcpTunnelConn) \<Rightarrow> tcpTunnelConn
    \<Rightarrow> tcp_error option \<times> tcpTunnelConn" where
  "CloseWrite tls_close_write c =
     (if closeWriteDone c then (closeWriteErr c, c)
      else
        let c = c\<lparr>closeWriteDone := True\<rparr>;
            (e, c) = (if reuse c then writeTCPTunnelHandshakeMessage close_frame c else tls_close_write c)
        in (e, c\<lparr>closeWriteErr := e\<rparr>))"

definition Close ::
  "(tcpTunnelConn \<Rightarrow> tcp_error option \<times> tcpTunnelConn) \<Rightarrow> (tcpTunnelConn \<Rightarrow> tcp_error option)
     \<Rightarrow> tcpTunnelConn \<Rightarrow> tcp_error option \<times> tcpTunnelConn" where
  "Close tls_close_write tls_close c =
     (let (we, c) = CloseWrite tls_close_write c; ce = tls_close c
      in (if we \<noteq> None then we else ce, c))"


section \<open>The handshake\<close>

definition tcpTunnelHandshakeTimeout :: int where
  "tcpTunnelHandshakeTimeout = 18000000000"

definition tcpTunnelHandshakeDeadline :: "int option \<Rightarrow> int \<Rightarrow> int" where
  "tcpTunnelHandshakeDeadline ctxDeadline now =
     (let deadline = now + tcpTunnelHandshakeTimeout
      in case ctxDeadline of Some d \<Rightarrow> if d < deadline then d else deadline | None \<Rightarrow> deadline)"

definition readTCPProtocolResponse :: "bytes \<Rightarrow> io_error + bytes \<times> bytes" where
  "readTCPProtocolResponse r =
     and_then (read_full 2 r) (\<lambda>(h, r). read_full (unat (be16 (h ! 0) (h ! 1))) r)"

definition encodeTCPTunnelAuthLength :: "nat \<Rightarrow> tcp_error + bytes" where
  "encodeTCPTunnelAuthLength n =
     (if 0xFFFF < n then Inl (TText (''tcp tunnel auth request too large: '' @ dec n @ '' bytes''))
      else Inr (bytes16 (word_of_nat n)))"

text \<open>A host text is a list of characters; on the wire it is the list of their codes.\<close>

definition ascii_bytes :: "string \<Rightarrow> bytes" where
  "ascii_bytes s = map (\<lambda>c. word_of_nat (of_char c)) s"

definition encodeTCPTunnelDestination :: "string \<Rightarrow> int \<Rightarrow> bool \<Rightarrow> bytes" where
  "encodeTCPTunnelDestination host port zeroRTT =
     [0x05, 0x01, if zeroRTT then 1 else 0]
     @ (let x = parse_ip host
        in if x \<noteq> [] then (if to4 x \<noteq> [] then 0x01 # to4 x else 0x04 # to16 x)
           else [0x03, word_of_nat (length host)] @ ascii_bytes host)
     @ bytes16 (word_of_int port)"

definition parseTCPTunnelAuthResponse ::
  "(bytes \<Rightarrow> (int \<times> string) option) \<Rightarrow> bool \<Rightarrow> bytes \<Rightarrow> tcp_error + unit" where
  "parseTCPTunnelAuthResponse json embedded d =
     (case json d of
        None \<Rightarrow> Inl (TAuth BadResponseText)
      | Some (code, msg) \<Rightarrow>
          if code \<noteq> 0 then
            (if code = 10000004 \<or> code = 75500002 then Inl (TAuth (handleSessionInvalid embedded code msg))
             else Inl (TAuth (AuthFailed code msg)))
          else Inr ())"

definition readSOCKS5ConnectReply :: "bytes \<Rightarrow> tcp_error + (byte \<times> bool) \<times> bytes" where
  "readSOCKS5ConnectReply r =
     and_then (tcp_io (read_full 4 r)) (\<lambda>(h, r).
       if h ! 0 \<noteq> 0x05 then Inl (TVersion (h ! 0))
       else if h ! 1 \<noteq> 0x00 then Inr ((h ! 1, False), r)
       else if h ! 3 \<noteq> 0x01 \<and> h ! 3 \<noteq> 0x04 then Inl (TAddressType (h ! 3))
       else
         let n = (if h ! 3 = 0x01 then 4 else 16 :: nat) + 2
         in if length r < n then Inl (TIO EOF)
            else Inr ((0, h ! 2 = 0x01), drop n r))"

definition connect_handshake ::
  "(bytes \<Rightarrow> (int \<times> string) option) \<Rightarrow> bool \<Rightarrow> bytes \<Rightarrow> tcp_error + bool \<times> bytes" where
  "connect_handshake json embedded r =
     and_then (tcp_io (read_full 2 r)) (\<lambda>(h, r).
       if h ! 0 \<noteq> 0x05 \<or> h ! 1 \<noteq> 0x81 then Inl (THello (h ! 0) (h ! 1))
       else and_then (tcp_io (read_full 2 r)) (\<lambda>(a, r).
         if a ! 0 \<noteq> 0x53 \<or> a ! 1 \<noteq> 0x00 then Inl (TAuthHeader (a ! 0) (a ! 1))
         else and_then (tcp_io (readTCPProtocolResponse r)) (\<lambda>(resp, r).
           and_then (parseTCPTunnelAuthResponse json embedded resp) (\<lambda>_.
             and_then (readSOCKS5ConnectReply r) (\<lambda>((status, reuse), r).
               if status = 0x00 then Inr (reuse, r) else Inl (TStatus status))))))"

text \<open>\<open>waitForTCPConnectReply\<close>: a context that has ended before the handshake or by its end wins.\<close>

definition waitForTCPConnectReply ::
  "(bytes \<Rightarrow> (int \<times> string) option) \<Rightarrow> bool \<Rightarrow> string option \<Rightarrow> string option \<Rightarrow> bytes
     \<Rightarrow> tcp_error + bool \<times> bytes" where
  "waitForTCPConnectReply json embedded ctx_before ctx_after r =
     (case ctx_before of
        Some e \<Rightarrow> Inl (TText e)
      | None \<Rightarrow>
          (let res = connect_handshake json embedded r
           in case ctx_after of Some e \<Rightarrow> Inl (TText e) | None \<Rightarrow> res))"


definition connect_status_text :: "byte \<Rightarrow> string" where
  "connect_status_text st =
     (if st = 1 then ''tcp tunnel server failure''
      else if st = 2 then ''tcp tunnel connection not allowed''
      else if st = 3 then ''network is unreachable''
      else if st = 4 then ''host is unreachable''
      else if st = 5 then ''connection refused''
      else if st = 6 then ''tcp tunnel TTL expired''
      else if st = 7 then ''tcp tunnel command not supported''
      else if st = 8 then ''tcp tunnel address type not supported''
      else ''tcp tunnel connect failed with status 0x'' @ to_upper (hex2 st))"


section \<open>Choosing the rule and the node\<close>

text \<open>What the resolver left in the request's context.\<close>

record dial_ctx =
  ctxDomainResource :: "DomainResource option"
  ctxResolveHost :: "string option"
  ctxIgnorePrefL3 :: bool

definition matchTCPIPResource :: "node \<Rightarrow> ip \<Rightarrow> int \<Rightarrow> bool \<Rightarrow> IPResource option" where
  "matchTCPIPResource index x port ignoreTCPPrefL3 =
     (case MatchLastWhere index x ''tcp'' port (\<lambda>r. \<not> EnableTCPPrefL3 r) of
        Some r \<Rightarrow> Some r
      | None \<Rightarrow> if ignoreTCPPrefL3 then MatchLast index x ''tcp'' port else None)"

record dial_target =
  dtApp :: string
  dtGroup :: string
  dtDomain :: string
  dtPretend :: bool

definition dial_target_of :: "node \<Rightarrow> dial_ctx \<Rightarrow> ip \<Rightarrow> int \<Rightarrow> tcp_error + dial_target" where
  "dial_target_of index ctx x port =
     and_then
       (case ctxDomainResource ctx of
          Some r \<Rightarrow>
            if EnableTCPPrefL3 r \<and> \<not> ctxIgnorePrefL3 ctx then Inl TNotResource
            else Inr \<lparr>dtApp = AppID r, dtGroup = NodeGroupID r,
                      dtDomain = (case ctxResolveHost ctx of Some h \<Rightarrow> h | None \<Rightarrow> []),
                      dtPretend = AddrPretend r\<rparr>
        | None \<Rightarrow> Inr \<lparr>dtApp = [], dtGroup = [], dtDomain = [], dtPretend = True\<rparr>)
       (\<lambda>d.
         let d = (if dtApp d = [] then
                    (case matchTCPIPResource index x port (ctxIgnorePrefL3 ctx) of
                       Some r \<Rightarrow> d\<lparr>dtApp := AppID r, dtGroup := NodeGroupID r, dtDomain := []\<rparr>
                     | None \<Rightarrow> d)
                  else d)
         in if dtApp d = [] then Inl TNotResource else Inr d)"

definition tcpTunnelRealDstHost :: "ip \<Rightarrow> string \<Rightarrow> bool \<Rightarrow> string" where
  "tcpTunnelRealDstHost x domain addrPretend =
     (if addrPretend \<and> domain \<noteq> [] then domain else ip_string x)"

definition tcpTunnelAuthDestinations :: "string \<Rightarrow> int \<Rightarrow> string \<Rightarrow> bool \<Rightarrow> string \<times> string" where
  "tcpTunnelAuthDestinations realDstHost port domain addrPretend =
     (if \<not> addrPretend \<and> domain \<noteq> []
      then (join_host_port domain (show_int port), realDstHost)
      else (join_host_port realDstHost (show_int port), []))"

record tcpTunnelAuthRequest =
  rqSID :: string
  rqAppID :: string
  rqURL :: string
  rqDeviceID :: string
  rqConnectionID :: string
  rqProcHash :: string
  rqUserName :: string
  rqLang :: string
  rqDestAddr :: string
  rqDestIP :: string
  rqProcName :: string
  rqProcPath :: string
  rqSig :: string

text \<open>The library code the dial uses: JSON, HMAC and SHA-256, the TLS dial (the bytes the server will
  send and the answers to writes, or an error) and the two calls that set the read deadline.\<close>

record dial_env =
  jsonReply :: "bytes \<Rightarrow> (int \<times> string) option"
  marshal :: "tcpTunnelAuthRequest \<Rightarrow> tcp_error + bytes"
  hmac :: "bytes \<Rightarrow> bytes \<Rightarrow> string"
  sha :: "string \<Rightarrow> string"
  dialTLS :: "string \<Rightarrow> tcp_error + bytes \<times> (nat \<Rightarrow> bytes \<Rightarrow> nat \<times> tcp_error option)"
  setDeadline :: "tcp_error option"
  clearDeadline :: "tcp_error option"
  ctxBefore :: "string option"
  ctxAfter :: "string option"
  isEmbedded :: bool

record tcp_client =
  cliSession :: "string \<times> string option"
  cliNodes :: "(string, string) gomap"
  cliMajor :: string
  cliIndex :: node
  cliDeviceID :: string
  cliConnectionID :: string
  cliUsername :: string
  cliSignKey :: string
  cliZeroRTT :: bool

definition hex_decode :: "string \<Rightarrow> bytes option" where
  "hex_decode s =
     (if even (length s) \<and> list_all is_hex s
      then Some (map (\<lambda>i. word_of_nat (hex_val (s ! (2 * i)) * 16 + hex_val (s ! (2 * i + 1)))) [0..<length s div 2])
      else None)"

definition marshalTCPTunnelAuthRequest ::
  "dial_env \<Rightarrow> tcpTunnelAuthRequest \<Rightarrow> bytes \<Rightarrow> tcp_error + bytes" where
  "marshalTCPTunnelAuthRequest env rq key =
     and_then (marshal env rq) (\<lambda>unsigned. marshal env (rq\<lparr>rqSig := hmac env key unsigned\<rparr>))"

definition node_for :: "tcp_client \<Rightarrow> string \<Rightarrow> string" where
  "node_for c g =
     (let a = (case mget (cliNodes c) g of None \<Rightarrow> [] | Some a \<Rightarrow> a)
      in if a = [] then (case mget (cliNodes c) (cliMajor c) of None \<Rightarrow> [] | Some a \<Rightarrow> a) else a)"

definition auth_request :: "dial_env \<Rightarrow> tcp_client \<Rightarrow> string \<Rightarrow> dial_target \<Rightarrow> ip \<Rightarrow> int \<Rightarrow> tcpTunnelAuthRequest" where
  "auth_request env c sid d x port =
     (let path = (if port = 22 then ''/usr/bin/ssh'' else ''/usr/bin/google-chrome-stable'');
          (destAddr, destIP) = tcpTunnelAuthDestinations (tcpTunnelRealDstHost x (dtDomain d) (dtPretend d))
             port (dtDomain d) (dtPretend d)
      in \<lparr>rqSID = sid, rqAppID = dtApp d, rqURL = ''tcp://'' @ destAddr, rqDeviceID = cliDeviceID c,
          rqConnectionID = cliConnectionID c, rqProcHash = sha env path, rqUserName = cliUsername c,
          rqLang = ''en-US'', rqDestAddr = destAddr, rqDestIP = destIP,
          rqProcName = (if port = 22 then ''ssh'' else ''google-chrome-stable''), rqProcPath = path, rqSig = []\<rparr>)"

text \<open>After the TLS connection stands: the request, the handshake, the connection handed on.\<close>

definition open_tunnel ::
  "dial_env \<Rightarrow> tcp_client \<Rightarrow> string \<Rightarrow> dial_target \<Rightarrow> ip \<Rightarrow> int \<Rightarrow> tcpTunnelConn
     \<Rightarrow> (tcp_error + tcpTunnelConn) \<times> tcpTunnelConn" where
  "open_tunnel env c sid d x port conn =
     (case setDeadline env of
        Some e \<Rightarrow> (Inl e, conn)
      | None \<Rightarrow>
         (let prepared =
            (case hex_decode (cliSignKey c) of
               None \<Rightarrow> Inl (TText ''invalid sign key'')
             | Some key \<Rightarrow>
                 and_then (marshalTCPTunnelAuthRequest env (auth_request env c sid d x port) key) (\<lambda>msg.
                 and_then (encodeTCPTunnelAuthLength (length msg)) (\<lambda>len.
                   Inr ([0x05, 0x01, 0x81, 0x53, 0x03] @ len @ msg,
                        encodeTCPTunnelDestination (tcpTunnelRealDstHost x (dtDomain d) (dtPretend d)) port
                          (cliZeroRTT c)))))
          in case prepared of
               Inl e \<Rightarrow> (Inl e, conn)
             | Inr (initMsg, destMsg) \<Rightarrow>
                 (case writeTCPTunnelInitialMessages initMsg destMsg conn of
                    (Some e, conn) \<Rightarrow> (Inl e, conn)
                  | (None, conn) \<Rightarrow>
                      (case waitForTCPConnectReply (jsonReply env) (isEmbedded env) (ctxBefore env) (ctxAfter env)
                              (received conn) of
                         Inl e \<Rightarrow> (Inl e, conn)
                       | Inr (rs, rest) \<Rightarrow>
                           (case clearDeadline env of
                              Some e \<Rightarrow> (Inl e, conn)
                            | None \<Rightarrow> (Inr (conn\<lparr>received := rest, reuse := cliZeroRTT c \<and> rs\<rparr>), conn))))))"

text \<open>\<open>DialTCP\<close>: the outcome, the node that was dialled and whether its connection was closed.\<close>

definition DialTCP ::
  "dial_env \<Rightarrow> tcp_client \<Rightarrow> dial_ctx \<Rightarrow> ip \<Rightarrow> int \<Rightarrow> (tcp_error + tcpTunnelConn) \<times> string option \<times> bool" where
  "DialTCP env c ctx x port =
     (case snd (cliSession c) of
        Some e \<Rightarrow> (Inl (TText e), None, False)
      | None \<Rightarrow>
          (case dial_target_of (cliIndex c) ctx x port of
             Inl e \<Rightarrow> (Inl e, None, False)
           | Inr d \<Rightarrow>
               (let addr = node_for c (dtGroup d)
                in if addr = [] then (Inl (TText (''no available aTrust node for group '' @ dtGroup d)), None, False)
                   else (case dialTLS env addr of
                           Inl e \<Rightarrow> (Inl e, Some addr, False)
                         | Inr (incoming, acc) \<Rightarrow>
                             (case open_tunnel env c (fst (cliSession c)) d x port
                                  \<lparr>received = incoming, sent = [], writes = 0, accept = acc, readBuf = [], reuse = False,
                                   raw = \<not> cliZeroRTT c, closeWriteDone = False, closeWriteErr = None\<rparr> of
                                (Inl e, _) \<Rightarrow> (Inl e, Some addr, True)
                              | (Inr conn, _) \<Rightarrow> (Inr conn, Some addr, False))))))"



section \<open>The data stream arrives as it was written\<close>

definition chunk_ok :: "bytes \<Rightarrow> bool" where
  "chunk_ok d \<longleftrightarrow> d \<noteq> [] \<and> length d \<le> 65535"

definition framed :: "bytes list \<Rightarrow> bytes" where
  "framed cs = concat (map tcp_frame cs)"

lemma framed_simps [simp]: "framed [] = []" "framed (c # cs) = tcp_frame c @ framed cs"
  "framed (cs @ ds) = framed cs @ framed ds"
  by (simp_all add: framed_def)

lemma length_take_chunk [simp]:
  assumes "n < length b"
  shows "min (length b - n) 65535 \<noteq> 0" "length (take (min (length b - n) 65535) (drop n b)) = min (length b - n) 65535"
  using assms by auto

text \<open>A connection that takes every write whole.\<close>

definition takes_all :: "tcpTunnelConn \<Rightarrow> bool" where
  "takes_all c \<longleftrightarrow> (\<forall>n d. accept c n d = (length d, None))"

lemma write_message_ok:
  "takes_all c \<Longrightarrow> writeTCPTunnelHandshakeMessage d c = (None, c\<lparr>sent := sent c @ d, writes := Suc (writes c)\<rparr>)"
  by (simp add: writeTCPTunnelHandshakeMessage_def conn_write_def takes_all_def)

lemma write_frames_ok:
  "takes_all c \<Longrightarrow> n \<le> length b \<Longrightarrow> \<exists>cs c'. write_frames n b c = ((length b, None), c') \<and> takes_all c'
    \<and> raw c' = raw c \<and> (\<forall>d \<in> set cs. chunk_ok d) \<and> sent c' = sent c @ framed cs \<and> concat cs = drop n b"
proof (induction n b c rule: write_frames.induct)
  case (1 n b c)
  show ?case
  proof (cases "n < length b")
    case False
    then show ?thesis using 1(2,3) by (intro exI [of _ "[]"] exI [of _ c]) (simp add: write_frames.simps)
  next
    case True
    let ?k = "min (length b - n) 65535"
    let ?d = "take ?k (drop n b)"
    let ?c = "c\<lparr>sent := sent c @ tcp_frame ?d, writes := Suc (writes c)\<rparr>"
    have "takes_all ?c" using 1(2) by (simp add: takes_all_def)
    moreover have le: "n + ?k \<le> length b" using True by simp
    ultimately obtain cs c' where c': "write_frames (n + ?k) b ?c = ((length b, None), c')" "takes_all c'"
      "raw c' = raw c" "\<forall>d \<in> set cs. chunk_ok d" "sent c' = sent ?c @ framed cs" "concat cs = drop (n + ?k) b"
      using 1(1) [of ?k "(None, ?c)" None ?c] True 1(2) by (auto simp: write_message_ok)
    have "write_frames n b c = ((length b, None), c')"
      using True c'(1) by (subst write_frames.simps) (simp add: write_message_ok [OF 1(2)])
    moreover have "chunk_ok ?d" using True by (simp add: chunk_ok_def)
    moreover have "?d @ drop (n + ?k) b = drop n b" by (metis append_take_drop_id drop_drop add.commute)
    ultimately show ?thesis using c' by (intro exI [of _ "?d # cs"] exI [of _ c']) simp
  qed
qed

lemma Write_ok:
  assumes "takes_all c" "\<not> raw c"
  shows "\<exists>cs c'. Write b c = ((length b, None), c') \<and> takes_all c' \<and> \<not> raw c' \<and> (\<forall>d \<in> set cs. chunk_ok d)
    \<and> sent c' = sent c @ framed cs \<and> concat cs = b"
proof (cases "b = []")
  case True
  then show ?thesis using assms by (intro exI [of _ "[]"] exI [of _ c]) (simp add: Write_def)
next
  case False
  then show ?thesis using write_frames_ok [OF assms(1), of 0 b] assms by (simp add: Write_def)
qed

fun write_all :: "bytes list \<Rightarrow> tcpTunnelConn \<Rightarrow> tcpTunnelConn" where
  "write_all [] c = c"
| "write_all (b # bs) c = write_all bs (snd (Write b c))"

lemma write_all_ok:
  "takes_all c \<Longrightarrow> \<not> raw c \<Longrightarrow> \<exists>cs. (\<forall>d \<in> set cs. chunk_ok d) \<and> sent (write_all bs c) = sent c @ framed cs
    \<and> concat cs = concat bs"
proof (induction bs arbitrary: c)
  case Nil
  then show ?case by (intro exI [of _ "[]"]) simp
next
  case (Cons b bs)
  obtain cs c' where w: "Write b c = ((length b, None), c')" "takes_all c'" "\<not> raw c'" "\<forall>d \<in> set cs. chunk_ok d"
    "sent c' = sent c @ framed cs" "concat cs = b" using Write_ok [OF Cons.prems] by blast
  from Cons.IH [OF w(2,3)] obtain ds where ds: "\<forall>d \<in> set ds. chunk_ok d"
    "sent (write_all bs c') = sent c' @ framed ds" "concat ds = concat bs" by blast
  show ?case using w ds by (intro exI [of _ "cs @ ds"]) auto
qed

text \<open>A reader that has \<open>data\<close> still to deliver before \<open>tail\<close>.\<close>

definition delivers :: "tcpTunnelConn \<Rightarrow> bytes \<Rightarrow> bytes \<Rightarrow> bool" where
  "delivers r data tail \<longleftrightarrow> \<not> raw r \<and> (\<exists>cs. (\<forall>d \<in> set cs. chunk_ok d)
     \<and> received r = framed cs @ tail \<and> data = readBuf r @ concat cs)"

lemma read_frames_frame:
  assumes "chunk_ok d"
  shows "read_frames n (tcp_frame d @ rest) = (Inr (take n d), drop n d, rest)"
proof -
  let ?w = "word_of_nat (length d) :: u16"
  have "unat ?w = length d" using assms by (simp add: chunk_ok_def unat_word_of_nat_small)
  then show ?thesis using assms by (simp add: tcp_frame_def bytes16_def chunk_ok_def)
qed

lemma Read_delivers:
  assumes "delivers r data tail" "0 < n" "data \<noteq> []"
  shows "\<exists>k r'. Read 0 n r = (Inr (take k data), r') \<and> 0 < k \<and> delivers r' (drop k data) tail"
proof -
  obtain cs where cs: "\<forall>d \<in> set cs. chunk_ok d" "received r = framed cs @ tail" "data = readBuf r @ concat cs"
    "\<not> raw r" using assms(1) by (auto simp: delivers_def)
  show ?thesis
  proof (cases "readBuf r = []")
    case False
    let ?k = "min n (length (readBuf r))"
    have "take ?k data = take n (readBuf r)" "drop ?k data = drop n (readBuf r) @ concat cs"
      using cs(3) by (simp_all add: min_def)
    then show ?thesis using False cs assms(2)
      by (intro exI [of _ ?k] exI [of _ "r\<lparr>readBuf := drop n (readBuf r)\<rparr>"]) (auto simp: Read_def delivers_def)
  next
    case True
    then obtain d ds where d: "cs = d # ds" using cs(3) assms(3) by (cases cs) auto
    let ?k = "min n (length d)"
    have ok: "chunk_ok d" using cs(1) d by simp
    have "Read 0 n r = (Inr (take n d), r\<lparr>readBuf := drop n d, received := framed ds @ tail\<rparr>)"
      using True cs(2,4) assms(2) read_frames_frame [OF ok] by (simp add: Read_def d)
    moreover have "take ?k data = take n d" "drop ?k data = drop n d @ concat ds"
      using cs(3) True d by (simp_all add: min_def)
    moreover have "0 < ?k" using ok assms(2) by (simp add: chunk_ok_def)
    ultimately show ?thesis using cs d
      by (intro exI [of _ ?k] exI [of _ "r\<lparr>readBuf := drop n d, received := framed ds @ tail\<rparr>"])
        (auto simp: delivers_def)
  qed
qed

lemma Read_end:
  assumes "delivers r [] tail" "0 < n" "tail = [] \<or> tail = close_frame @ rest"
  shows "fst (Read 0 n r) = Inl (TIO EOF)"
proof -
  obtain cs where cs: "\<forall>d \<in> set cs. chunk_ok d" "received r = framed cs @ tail" "[] = readBuf r @ concat cs"
    "\<not> raw r" using assms(1) by (auto simp: delivers_def)
  have "cs = []" using cs(1,3) by (cases cs) (auto simp: chunk_ok_def)
  then show ?thesis using cs assms(2,3) by (auto simp: Read_def close_frame_def)
qed

fun reads :: "nat list \<Rightarrow> tcpTunnelConn \<Rightarrow> bytes \<times> tcp_error option" where
  "reads [] r = ([], None)"
| "reads (n # ns) r =
     (case Read 0 n r of
        (Inl e, r) \<Rightarrow> ([], Some e)
      | (Inr d, r) \<Rightarrow> (let (ds, e) = reads ns r in (d @ ds, e)))"

lemma reads_all:
  "delivers r data tail \<Longrightarrow> tail = [] \<or> tail = close_frame @ rest \<Longrightarrow> \<forall>n \<in> set ns. 0 < n
   \<Longrightarrow> length data < length ns \<Longrightarrow> reads ns r = (data, Some (TIO EOF))"
proof (induction ns arbitrary: r data)
  case (Cons n ns)
  show ?case
  proof (cases "data = []")
    case True
    then have "fst (Read 0 n r) = Inl (TIO EOF)" using Read_end Cons.prems by simp
    then show ?thesis using True by (cases "Read 0 n r") simp
  next
    case False
    obtain k r' where k: "Read 0 n r = (Inr (take k data), r')" "0 < k" "delivers r' (drop k data) tail"
      using Read_delivers [OF Cons.prems(1) _ False, of n] Cons.prems(3) by auto
    have "reads ns r' = (drop k data, Some (TIO EOF))"
    proof (rule Cons.IH [OF k(3) Cons.prems(2)])
      have "0 < length data" using False by simp
      moreover have "length data < Suc (length ns)" using Cons.prems(4) by simp
      ultimately show "length (drop k data) < length ns" using k(2) unfolding length_drop by linarith
    qed (use Cons.prems(3) in simp)
    then show ?thesis using k(1) by simp
  qed
qed simp

text \<open>
  C14: what one end of a framed tunnel connection writes, in any number of writes of any size, the other
  end reads byte for byte and in order with buffers of any size, and then the end of the stream, whether
  the peer sent its close frame or the connection just ended.
\<close>

theorem tunnel_stream_roundtrip:
  assumes "takes_all c" "\<not> raw c" "\<not> raw r" "readBuf r = []"
    and "received r = drop (length (sent c)) (sent (write_all bs c)) @ tail"
    and "tail = [] \<or> tail = close_frame @ rest"
    and "\<forall>n \<in> set ns. 0 < n" "length (concat bs) < length ns"
  shows "reads ns r = (concat bs, Some (TIO EOF))"
proof -
  obtain cs where "\<forall>d \<in> set cs. chunk_ok d" "sent (write_all bs c) = sent c @ framed cs" "concat cs = concat bs"
    using write_all_ok [OF assms(1,2)] by blast
  then have "delivers r (concat bs) tail" using assms(3-5) by (auto simp: delivers_def)
  then show ?thesis by (rule reads_all [OF _ assms(6-8)])
qed

definition fresh_tcp :: "bytes \<Rightarrow> tcpTunnelConn" where
  "fresh_tcp r = \<lparr>received = r, sent = [], writes = 0, accept = (\<lambda>_ d. (length d, None)), readBuf = [],
     reuse = True, raw = False, closeWriteDone = False, closeWriteErr = None\<rparr>"

theorem tunnel_stream_roundtrip_witness:
  "reads [1, 5, 1, 1, 1] (fresh_tcp [1, 0, 0, 2, 7, 8, 1, 0, 0, 1, 9, 1, 1, 0, 0]) = ([7, 8, 9], Some (TIO EOF))"
proof -
  have s: "sent (write_all [[7, 8], [9]] (fresh_tcp [])) = [1, 0, 0, 2, 7, 8, 1, 0, 0, 1, 9]"
    by (simp add: fresh_tcp_def Write_def write_frames.simps writeTCPTunnelHandshakeMessage_def conn_write_def
        tcp_frame_def bytes16_def hi8_def lo8_def)
  have t: "takes_all (fresh_tcp [])" by (simp add: takes_all_def fresh_tcp_def)
  show ?thesis
    using tunnel_stream_roundtrip [OF t, of "fresh_tcp [1, 0, 0, 2, 7, 8, 1, 0, 0, 1, 9, 1, 1, 0, 0]" "[[7, 8], [9]]"
        close_frame "[]" "[1, 5, 1, 1, 1]"] s
    by (simp add: fresh_tcp_def close_frame_def)
qed


section \<open>The handshake accepts one reply format\<close>

lemma readTCPProtocolResponse_iff:
  "readTCPProtocolResponse r = Inr (p, rest) \<longleftrightarrow> (\<exists>h l. r = [h, l] @ p @ rest \<and> length p = unat (be16 h l))"
  (is "?L \<longleftrightarrow> ?R")
proof
  assume ?L
  then obtain hd' r1 where h: "r = hd' @ r1" "length hd' = 2" "r1 = p @ rest" "length p = unat (be16 (hd' ! 0) (hd' ! 1))"
    by (auto simp: readTCPProtocolResponse_def and_then_Inr_iff read_full_Inr_iff)
  then show ?R by (auto simp: numeral_2_eq_2 length_Suc_conv)
next
  assume ?R
  then show ?L by (auto simp: readTCPProtocolResponse_def read_full_def)
qed

lemma tcp_io_Inr_iff [simp]: "tcp_io x = Inr y \<longleftrightarrow> x = Inr y"
  by (cases x) simp_all

lemma parse_auth_ok_iff:
  "parseTCPTunnelAuthResponse json emb d = Inr () \<longleftrightarrow> (\<exists>msg. json d = Some (0, msg))"
  by (auto simp: parseTCPTunnelAuthResponse_def split: option.splits)

lemma read_pair_iff: "read_full 2 r = Inr (h, r') \<longleftrightarrow> (\<exists>a b. h = [a, b] \<and> r = a # b # r')"
  by (auto simp: read_full_Inr_iff numeral_2_eq_2 length_Suc_conv)

lemma expect_pair:
  "and_then (tcp_io (read_full 2 r)) (\<lambda>(h, r). if h ! 0 \<noteq> a \<or> h ! 1 \<noteq> b then Inl (e h) else f r) = Inr y
    \<longleftrightarrow> (\<exists>s. r = a # b # s \<and> f s = Inr y)" (is "?L \<longleftrightarrow> ?R")
proof
  assume ?R
  then obtain s where "read_full 2 r = Inr ([a, b], s)" "f s = Inr y" by (auto simp: read_full_def)
  then show ?L by simp
qed (auto simp: and_then_Inr_iff read_pair_iff split: if_splits)

lemma after_auth_iff:
  "and_then (tcp_io (readTCPProtocolResponse s)) (\<lambda>(resp, r).
     and_then (parseTCPTunnelAuthResponse json emb resp) (\<lambda>_.
       and_then (readSOCKS5ConnectReply r) (\<lambda>((status, rs), r).
         if status = 0 then Inr (rs, r) else Inl (TStatus status)))) = Inr (rs, rest)
   \<longleftrightarrow> (\<exists>body r3. readTCPProtocolResponse s = Inr (body, r3) \<and> (\<exists>msg. json body = Some (0, msg))
        \<and> readSOCKS5ConnectReply r3 = Inr ((0, rs), rest))"
proof (cases "readTCPProtocolResponse s")
  case (Inr x)
  obtain body r3 where x: "x = (body, r3)" by fastforce
  show ?thesis
  proof (cases "parseTCPTunnelAuthResponse json emb body")
    case (Inl e)
    then show ?thesis using Inr x parse_auth_ok_iff [of json emb body] by auto
  next
    case ok: (Inr u)
    then have j: "\<exists>msg. json body = Some (0, msg)" using parse_auth_ok_iff [of json emb body] by simp
    show ?thesis using Inr x ok j
      by (cases "readSOCKS5ConnectReply r3") (auto split: if_splits)
  qed
qed simp

lemma connect_reply_ok_iff:
  "readSOCKS5ConnectReply r = Inr ((0, rs), rest) \<longleftrightarrow>
     (\<exists>v t addr. r = [5, 0, v, t] @ addr @ rest \<and> rs = (v = 1)
        \<and> (t = 1 \<and> length addr = 6 \<or> t = 4 \<and> length addr = 18))" (is "?L \<longleftrightarrow> ?R")
proof
  assume ?L
  then obtain h r1 where h: "r = h @ r1" "length h = 4"
    and k: "(if h ! 0 \<noteq> 5 then Inl (TVersion (h ! 0)) else if h ! 1 \<noteq> 0 then Inr ((h ! 1, False), r1)
       else if h ! 3 \<noteq> 1 \<and> h ! 3 \<noteq> 4 then Inl (TAddressType (h ! 3))
       else let n = (if h ! 3 = 1 then 4 else 16 :: nat) + 2
         in if length r1 < n then Inl (TIO EOF) else Inr ((0, h ! 2 = 1), drop n r1)) = Inr ((0, rs), rest)"
    by (auto simp: readSOCKS5ConnectReply_def and_then_Inr_iff read_full_Inr_iff)
  obtain a b v t where h4: "h = [a, b, v, t]" using h(2) by (rule length4_cases)
  let ?n = "(if t = 1 then 4 else 16 :: nat) + 2"
  have "a = 5" "b = 0" "t = 1 \<or> t = 4" "\<not> length r1 < ?n" "rs = (v = 1)" "rest = drop ?n r1"
    using k by (auto simp: h4 Let_def split: if_splits)
  then show ?R using h(1) h4
    by (intro exI [of _ v] exI [of _ t] exI [of _ "take ?n r1"]) auto
next
  assume ?R
  then show ?L by (auto simp: readSOCKS5ConnectReply_def read_full_def)
qed

text \<open>
  C15: the handshake of a tunnelled connection succeeds exactly on the server's hello, a successful
  authentication answer with a body of the announced length, and a connect reply with an IPv4 or IPv6
  bind address; it leaves every byte after the reply for the data stream, and a context that ended
  before or during the handshake always fails it.
\<close>

theorem connect_handshake_exact:
  "waitForTCPConnectReply json emb before after r = Inr (rs, rest) \<longleftrightarrow>
     before = None \<and> after = None
     \<and> (\<exists>h l body msg v t addr. r = [5, 0x81, 0x53, 0, h, l] @ body @ [5, 0, v, t] @ addr @ rest
          \<and> length body = unat (be16 h l) \<and> json body = Some (0, msg) \<and> rs = (v = 1)
          \<and> (t = 1 \<and> length addr = 6 \<or> t = 4 \<and> length addr = 18))"
proof -
  have "connect_handshake json emb r = Inr (rs, rest) \<longleftrightarrow>
     (\<exists>r2 body r3. r = 5 # 0x81 # 0x53 # 0 # r2 \<and> readTCPProtocolResponse r2 = Inr (body, r3)
        \<and> (\<exists>msg. json body = Some (0, msg)) \<and> readSOCKS5ConnectReply r3 = Inr ((0, rs), rest))"
    unfolding connect_handshake_def expect_pair after_auth_iff by auto
  also have "\<dots> \<longleftrightarrow> (\<exists>h l body msg v t addr. r = [5, 0x81, 0x53, 0, h, l] @ body @ [5, 0, v, t] @ addr @ rest
          \<and> length body = unat (be16 h l) \<and> json body = Some (0, msg) \<and> rs = (v = 1)
          \<and> (t = 1 \<and> length addr = 6 \<or> t = 4 \<and> length addr = 18))" (is "?A \<longleftrightarrow> ?B")
  proof
    assume ?A
    then obtain r2 body r3 msg where 1: "r = 5 # 0x81 # 0x53 # 0 # r2" "json body = Some (0, msg)"
      and 2: "readTCPProtocolResponse r2 = Inr (body, r3)" and 3: "readSOCKS5ConnectReply r3 = Inr ((0, rs), rest)"
      by blast
    obtain h l where 4: "r2 = [h, l] @ body @ r3" "length body = unat (be16 h l)"
      using 2 unfolding readTCPProtocolResponse_iff by blast
    obtain v t addr where 5: "r3 = [5, 0, v, t] @ addr @ rest" "rs = (v = 1)"
      "t = 1 \<and> length addr = 6 \<or> t = 4 \<and> length addr = 18"
      using 3 unfolding connect_reply_ok_iff by blast
    have "r = [5, 0x81, 0x53, 0, h, l] @ body @ [5, 0, v, t] @ addr @ rest" by (simp add: 1(1) 4(1) 5(1))
    then show ?B using 1(2) 4(2) 5(2,3) by blast
  next
    assume ?B
    then obtain h l body msg v t addr where b: "r = [5, 0x81, 0x53, 0, h, l] @ body @ [5, 0, v, t] @ addr @ rest"
      "length body = unat (be16 h l)" "json body = Some (0, msg)" "rs = (v = 1)"
      "t = 1 \<and> length addr = 6 \<or> t = 4 \<and> length addr = 18" by blast
    let ?r3 = "[5, 0, v, t] @ addr @ rest"
    have "readTCPProtocolResponse ([h, l] @ body @ ?r3) = Inr (body, ?r3)"
      unfolding readTCPProtocolResponse_iff using b(2) by blast
    moreover have "readSOCKS5ConnectReply ?r3 = Inr ((0, rs), rest)"
      unfolding connect_reply_ok_iff using b(4,5) by blast
    moreover have "r = 5 # 0x81 # 0x53 # 0 # ([h, l] @ body @ ?r3)" using b(1) by simp
    ultimately show ?A using b(3) by blast
  qed
  finally have c: "connect_handshake json emb r = Inr (rs, rest) \<longleftrightarrow> ?B" .
  show ?thesis
  proof (cases "before = None \<and> after = None")
    case True
    then have "waitForTCPConnectReply json emb before after r = connect_handshake json emb r"
      by (simp add: waitForTCPConnectReply_def)
    then show ?thesis using c True by simp
  next
    case False
    then have "waitForTCPConnectReply json emb before after r \<noteq> Inr (rs, rest)"
      by (auto simp: waitForTCPConnectReply_def split: option.split)
    then show ?thesis using False by blast
  qed
qed

text \<open>A stream cut off right behind a frame header reads as a clean end, although the header announced data.\<close>

lemma truncated_frame_reads_as_end:
  "read_frames n [1, 0, 0, 5] = (Inl (TIO EOF), [], [])"
  by (simp add: read_full_def be16_def)


section \<open>Dialling\<close>

lemma matchTCPIPResource_find:
  "matchTCPIPResource (New rs) x port ignore =
     (case find (\<lambda>r. ip_hits (x, ''tcp'', port) r \<and> \<not> EnableTCPPrefL3 r) (rev rs) of
        Some r \<Rightarrow> Some r
      | None \<Rightarrow> if ignore then find (ip_hits (x, ''tcp'', port)) (rev rs) else None)"
  by (simp add: matchTCPIPResource_def MatchLastWhere_def MatchLast_def index_match_find accepts_def
      split: option.split)

text \<open>A rule that allows a destination on the TCP tunnel.\<close>

definition tcp_permitted :: "IPResource list \<Rightarrow> dial_ctx \<Rightarrow> ip \<Rightarrow> int \<Rightarrow> string \<Rightarrow> string \<Rightarrow> bool" where
  "tcp_permitted rs ctx x port app grp \<longleftrightarrow>
     (\<exists>d. ctxDomainResource ctx = Some d \<and> AppID d = app \<and> NodeGroupID d = grp
        \<and> (EnableTCPPrefL3 d \<longrightarrow> ctxIgnorePrefL3 ctx))
     \<or> (\<exists>r \<in> set rs. ip_hits (x, ''tcp'', port) r \<and> AppID r = app \<and> NodeGroupID r = grp
        \<and> (EnableTCPPrefL3 r \<longrightarrow> ctxIgnorePrefL3 ctx))"

lemma find_set: "find P xs = Some y \<Longrightarrow> y \<in> set xs \<and> P y"
  by (auto simp: find_Some_iff)

lemma matchTCPIPResource_permits:
  assumes "matchTCPIPResource (New rs) x port ignore = Some r"
  shows "r \<in> set rs \<and> ip_hits (x, ''tcp'', port) r \<and> (EnableTCPPrefL3 r \<longrightarrow> ignore)"
proof (cases "find (\<lambda>r. ip_hits (x, ''tcp'', port) r \<and> \<not> EnableTCPPrefL3 r) (rev rs)")
  case None
  then have "ignore" "find (ip_hits (x, ''tcp'', port)) (rev rs) = Some r"
    using assms by (simp_all add: matchTCPIPResource_find split: if_splits)
  then show ?thesis using find_set [of "ip_hits (x, ''tcp'', port)" "rev rs" r] by simp
next
  case (Some q)
  then have "q = r" using assms by (simp add: matchTCPIPResource_find)
  then show ?thesis using find_set [OF Some] by simp
qed

lemma dial_target_permitted:
  assumes "dial_target_of (New rs) ctx x port = Inr d"
  shows "dtApp d \<noteq> [] \<and> tcp_permitted rs ctx x port (dtApp d) (dtGroup d)"
proof (cases "ctxDomainResource ctx")
  case None
  let ?m = "matchTCPIPResource (New rs) x port (ctxIgnorePrefL3 ctx)"
  obtain r where r: "?m = Some r" "dtApp d = AppID r" "dtGroup d = NodeGroupID r" "AppID r \<noteq> []"
    using assms None by (cases ?m) (auto simp: dial_target_of_def Let_def split: if_splits)
  show ?thesis using matchTCPIPResource_permits [OF r(1)] r(2-4) by (auto simp: tcp_permitted_def)
next
  case (Some q)
  have p: "EnableTCPPrefL3 q \<longrightarrow> ctxIgnorePrefL3 ctx"
    using assms Some by (auto simp: dial_target_of_def split: if_splits)
  show ?thesis
  proof (cases "AppID q = []")
    case False
    then have "dtApp d = AppID q" "dtGroup d = NodeGroupID q"
      using assms Some p by (auto simp: dial_target_of_def Let_def split: if_splits)
    then show ?thesis using False Some p by (auto simp: tcp_permitted_def)
  next
    case True
    let ?m = "matchTCPIPResource (New rs) x port (ctxIgnorePrefL3 ctx)"
    obtain r where r: "?m = Some r" "dtApp d = AppID r" "dtGroup d = NodeGroupID r" "AppID r \<noteq> []"
      using assms Some True p by (cases ?m) (auto simp: dial_target_of_def Let_def split: if_splits)
    show ?thesis using matchTCPIPResource_permits [OF r(1)] r(2-4) by (auto simp: tcp_permitted_def)
  qed
qed

text \<open>
  DialTCP opens a connection to a node only for a destination that a rule with an application id
  allows on the TCP tunnel (rules preferring the layer-3 tunnel count only when the caller ignores the
  preference), to the node of that rule's group; and whenever it fails after the node was reached, the
  connection is closed, while on success it is left open.
\<close>

lemma tcp_dial_permitted_and_closed:
  assumes "cliIndex c = New rs" "DialTCP env c ctx x port = (res, Some addr, closed)"
  shows "(\<exists>app grp. app \<noteq> [] \<and> tcp_permitted rs ctx x port app grp \<and> addr = node_for c grp \<and> addr \<noteq> [])
    \<and> (closed \<longleftrightarrow> (\<exists>e. res = Inl e) \<and> (\<exists>ok. dialTLS env addr = Inr ok))"
proof -
  obtain d where d: "dial_target_of (New rs) ctx x port = Inr d"
    using assms by (auto simp: DialTCP_def split: option.splits sum.splits)
  have s: "snd (cliSession c) = None" using assms(2) by (auto simp: DialTCP_def split: option.splits)
  have a: "addr = node_for c (dtGroup d)" "addr \<noteq> []"
    using assms d s by (auto simp: DialTCP_def Let_def split: sum.splits prod.splits if_splits)
  have "closed \<longleftrightarrow> (\<exists>e. res = Inl e) \<and> (\<exists>ok. dialTLS env addr = Inr ok)"
    using assms d s a by (auto simp: DialTCP_def Let_def split: sum.splits prod.splits if_splits)
  then show ?thesis using a dial_target_permitted [OF d] by blast
qed

definition sample_rule :: IPResource where
  "sample_rule = \<lparr>PortMin = 22, PortMax = 22, ResProtocol = ''tcp'', AppID = ''a'', NodeGroupID = ''g'',
     EnableTCPPrefL3 = False, IPMin = [10, 0, 0, 2], IPMax = [10, 0, 0, 2]\<rparr>"

definition sample_client :: tcp_client where
  "sample_client = \<lparr>cliSession = (''sid'', None), cliNodes = [(''g'', ''n:441'')], cliMajor = ''g'',
     cliIndex = New [sample_rule], cliDeviceID = [], cliConnectionID = [], cliUsername = [], cliSignKey = [],
     cliZeroRTT = False\<rparr>"

definition sample_env :: dial_env where
  "sample_env = \<lparr>jsonReply = (\<lambda>_. Some (0, [])), marshal = (\<lambda>_. Inr []), hmac = (\<lambda>_ _. []), sha = (\<lambda>_. []),
     dialTLS = (\<lambda>_. Inr ([], \<lambda>_ d. (length d, None))), setDeadline = None, clearDeadline = None,
     ctxBefore = None, ctxAfter = None, isEmbedded = True\<rparr>"

definition no_ctx :: dial_ctx where
  "no_ctx = \<lparr>ctxDomainResource = None, ctxResolveHost = None, ctxIgnorePrefL3 = False\<rparr>"

lemma sample_dial:
  "DialTCP sample_env sample_client no_ctx [10, 0, 0, 2] 22 = (Inl (TIO EOF), Some ''n:441'', True)"
proof -
  have h: "ip_hits ([10, 0, 0, 2], ''tcp'', 22) sample_rule"
    by (simp add: ip_hits_def range_hits_def ip_u32_def to4_def sample_rule_def port_protocol_match_def)
  have m: "matchTCPIPResource (New [sample_rule]) [10, 0, 0, 2] 22 False = Some sample_rule"
    using h by (simp add: matchTCPIPResource_find) (simp add: sample_rule_def)
  have t: "dial_target_of (New [sample_rule]) no_ctx [10, 0, 0, 2] 22
      = Inr \<lparr>dtApp = ''a'', dtGroup = ''g'', dtDomain = [], dtPretend = True\<rparr>"
    using m by (simp add: dial_target_of_def no_ctx_def) (simp add: sample_rule_def)
  show ?thesis
    by (simp add: DialTCP_def sample_client_def t node_for_def mget_def open_tunnel_def sample_env_def
        hex_decode_def marshalTCPTunnelAuthRequest_def encodeTCPTunnelAuthLength_def
        writeTCPTunnelInitialMessages_def writeTCPTunnelHandshakeMessage_def conn_write_def Let_def
        waitForTCPConnectReply_def connect_handshake_def read_full_def)
qed

lemma tcp_dial_permitted_and_closed_example:
  "(\<exists>app grp. app \<noteq> [] \<and> tcp_permitted [sample_rule] no_ctx [10, 0, 0, 2] 22 app grp)
    \<and> DialTCP sample_env sample_client no_ctx [10, 0, 0, 2] 22 = (Inl (TIO EOF), Some ''n:441'', True)"
proof -
  have c: "cliIndex sample_client = New [sample_rule]" by (simp add: sample_client_def)
  show ?thesis using tcp_dial_permitted_and_closed [OF c sample_dial] sample_dial by blast
qed

text \<open>A host name of 256 bytes or more is announced with its length modulo 256.\<close>

lemma destination_length_wraps:
  "parse_ip h = [] \<Longrightarrow> take 5 (encodeTCPTunnelDestination h port z) = [5, 1, if z then 1 else 0, 3, word_of_nat (length h)]"
  by (simp add: encodeTCPTunnelDestination_def)

end
