(* ===== verification/AtrustClient.thy ===== *)
theory AtrustClient
  imports L3Tunnel AtrustParse
begin

text \<open>
  The aTrust client: choice of the best node of each group (\<open>client/atrust/node.go\<close> over the probes of
  \<open>internal/ping\<close>), the session and the virtual address shared by its parts (\<open>client.go\<close>,
  \<open>session.go\<close>, \<open>L3Tunnel.updateVIP\<close>) and the first address request (\<open>ip.go\<close>).
\<close>

section \<open>Probing nodes\<close>

record ping_result =
  counter :: int
  successCounter :: int
  minDuration :: int
  maxDuration :: int
  totalDuration :: int
  targetTimeout :: "int option"

definition new_result :: "int option \<Rightarrow> ping_result" where
  "new_result timeout = \<lparr>counter = 0, successCounter = 0, minDuration = 0, maxDuration = 0, totalDuration = 0,
     targetTimeout = timeout\<rparr>"

text \<open>The probe loop over the outcomes of its ticks (the duration, or \<open>None\<close> for a failed probe); it
  ends after \<open>limit\<close> probes, or when it is stopped and no further outcome arrives.\<close>

fun ping_run :: "int \<Rightarrow> int option list \<Rightarrow> ping_result \<Rightarrow> ping_result" where
  "ping_run limit [] r = r"
| "ping_run limit (x # xs) r =
     (if limit \<noteq> 0 \<and> limit \<le> counter r then r
      else
        let r = r\<lparr>counter := counter r + 1\<rparr>
        in ping_run limit xs
             (case x of
                None \<Rightarrow> r
              | Some d \<Rightarrow>
                  (let r = (if minDuration r = 0 then r\<lparr>minDuration := d\<rparr> else r);
                       r = (if maxDuration r = 0 then r\<lparr>maxDuration := d\<rparr> else r);
                       r = r\<lparr>successCounter := successCounter r + 1\<rparr>;
                       r = (if maxDuration r < d then r\<lparr>maxDuration := d\<rparr>
                            else if d < minDuration r then r\<lparr>minDuration := d\<rparr> else r)
                   in r\<lparr>totalDuration := totalDuration r + d\<rparr>)))"

definition ping_avg :: "ping_result \<Rightarrow> int" where
  "ping_avg r = (if successCounter r = 0 then 0 else totalDuration r div successCounter r)"

definition ping_failed :: "ping_result \<Rightarrow> int" where
  "ping_failed r = counter r - successCounter r"

definition nodeProbeScore :: "ping_result option \<Rightarrow> int \<times> bool" where
  "nodeProbeScore res =
     (case res of
        None \<Rightarrow> (0, False)
      | Some r \<Rightarrow>
          if successCounter r = 0 then (0, False)
          else
            let penalty = (case targetTimeout r of Some t \<Rightarrow> if 0 < t then t else 1000000000 | None \<Rightarrow> 1000000000)
            in (ping_avg r + ping_failed r * penalty, True))"

text \<open>The host and port of each node that is probed: a node without a colon panics (\<open>parts[1]\<close>), one
  whose port is not a number is skipped.\<close>

fun probe_targets :: "string list \<Rightarrow> (string \<times> int) list option" where
  "probe_targets [] = Some []"
| "probe_targets (n # ns) =
     do {
       let parts = split_on (CHR '':'') n;
       host \<leftarrow> idx parts 0;
       p \<leftarrow> idx parts 1;
       rest \<leftarrow> probe_targets ns;
       Some (case atoi p of None \<Rightarrow> rest | Some port \<Rightarrow> (host, port) # rest)
     }"

text \<open>The choice loop: the result at position \<open>i\<close> of the probes is credited to \<open>nodes[i]\<close>.\<close>

fun pick_node :: "string list \<Rightarrow> nat \<Rightarrow> ping_result option list \<Rightarrow> int \<times> string \<Rightarrow> int \<times> string" where
  "pick_node nodes i [] best = best"
| "pick_node nodes i (r # rs) (bestScore, bestNode) =
     (let (score, reachable) = nodeProbeScore r
      in pick_node nodes (Suc i) rs
           (if reachable \<and> (bestScore = 0 \<or> score < bestScore) then (score, nodes ! i) else (bestScore, bestNode)))"

definition best_in_group :: "(string \<Rightarrow> int \<Rightarrow> ping_result option) \<Rightarrow> string list \<Rightarrow> string option" where
  "best_in_group probe nodes =
     do {
       ts \<leftarrow> probe_targets nodes;
       Some (snd (pick_node nodes 0 (map (\<lambda>(h, p). probe h p) ts) (0, [])))
     }"

fun getBestReachableNodes ::
  "(string \<Rightarrow> int \<Rightarrow> ping_result option) \<Rightarrow> (string, string list) gomap \<Rightarrow> (string, string) gomap option" where
  "getBestReachableNodes probe [] = Some []"
| "getBestReachableNodes probe ((g, nodes) # gs) =
     do {
       m \<leftarrow> getBestReachableNodes probe gs;
       best \<leftarrow> (if nodes = [] then Some [] else best_in_group probe nodes);
       Some (if best = [] then m else mset g best m)
     }"

text \<open>\<open>selectBestNodes\<close>; a missing map entry reads as the empty string.\<close>

definition mget_str :: "('k, string) gomap \<Rightarrow> 'k \<Rightarrow> string" where
  "mget_str m k = (case mget m k of None \<Rightarrow> [] | Some s \<Rightarrow> s)"

definition selectBestNodes ::
  "((string, string list) gomap \<Rightarrow> (string, string) gomap option) \<Rightarrow> (string, NodeGroup) gomap
     \<Rightarrow> (string, string) gomap option" where
  "selectBestNodes probe groups =
     do {
       best \<leftarrow> probe (map (\<lambda>(g, n). (g, WAN n)) groups);
       let fallback = map (\<lambda>(g, n). (g, LAN n))
             (filter (\<lambda>(g, n). mget_str best g = [] \<and> LAN n \<noteq> []) groups);
       if fallback = [] then Some best
       else do {
         lan \<leftarrow> probe fallback;
         Some (foldl (\<lambda>m (g, n). mset g n m) best lan)
       }
     }"

definition getBestNodes ::
  "(string \<Rightarrow> int \<Rightarrow> ping_result option) \<Rightarrow> (string, NodeGroup) gomap \<Rightarrow> (string, string) gomap option" where
  "getBestNodes probe groups = selectBestNodes (getBestReachableNodes probe) groups"

text \<open>One tick of \<open>updateBestNodes\<close>: new best nodes, and the tunnel drops the connections to others.\<close>

definition updateBestNodes_tick ::
  "(string \<Rightarrow> int \<Rightarrow> ping_result option) \<Rightarrow> (string, NodeGroup) gomap \<Rightarrow> string \<Rightarrow> tunnel
     \<Rightarrow> ((string, string) gomap \<times> tunnel) option" where
  "updateBestNodes_tick probe groups major t =
     do { best \<leftarrow> getBestNodes probe groups; Some (best, evictStaleConns best major t) }"


section \<open>The best node of a group\<close>

definition reachable_score :: "ping_result option \<Rightarrow> int option" where
  "reachable_score r = (if snd (nodeProbeScore r) then Some (fst (nodeProbeScore r)) else None)"

lemma pick_node_best:
  assumes "\<forall>r \<in> set rs. \<forall>s. reachable_score r = Some s \<longrightarrow> 0 < s"
    and "\<forall>j < i. j < length all \<longrightarrow> (\<forall>s. reachable_score (all ! j) = Some s \<longrightarrow> 0 < b \<and> b \<le> s)"
    and "b = 0 \<and> n = [] \<or> (\<exists>j < i. 0 < b \<and> reachable_score (all ! j) = Some b \<and> n = nodes ! j)"
    and "all = pre @ rs" "length pre = i"
    and "pick_node nodes i rs (b, n) = (c, m)"
  shows "(c = 0 \<and> m = [] \<or> (\<exists>j < length all. 0 < c \<and> reachable_score (all ! j) = Some c \<and> m = nodes ! j))
    \<and> (\<forall>j < length all. \<forall>s. reachable_score (all ! j) = Some s \<longrightarrow> 0 < c \<and> c \<le> s)"
  using assms
proof (induction rs arbitrary: i b n pre)
  case Nil
  then show ?case by auto
next
  case (Cons r rs)
  obtain sc ok where s: "nodeProbeScore r = (sc, ok)" by fastforce
  have r: "all ! i = r" using Cons.prems(4,5) by (simp add: nth_append)
  let ?upd = "ok \<and> (b = 0 \<or> sc < b)"
  have len: "i < length all" using Cons.prems(4,5) by simp
  have rs_sc: "reachable_score r = (if ok then Some sc else None)" by (simp add: reachable_score_def s)
  have pos: "ok \<Longrightarrow> 0 < sc" using Cons.prems(1) rs_sc by auto
  have bnn: "0 \<le> b" using Cons.prems(3) by auto
  have step: "pick_node nodes (Suc i) rs (if ?upd then (sc, nodes ! i) else (b, n)) = (c, m)"
    using Cons.prems(6) by (simp add: s)
  let ?b = "if ?upd then sc else b" and ?n = "if ?upd then nodes ! i else n"
  have low: "\<forall>j < Suc i. j < length all \<longrightarrow> (\<forall>s. reachable_score (all ! j) = Some s \<longrightarrow> 0 < ?b \<and> ?b \<le> s)"
  proof (intro allI impI)
    fix j t assume j: "j < Suc i" "j < length all" "reachable_score (all ! j) = Some t"
    show "0 < ?b \<and> ?b \<le> t"
    proof (cases "j = i")
      case True
      then have "ok" "t = sc" using j(3) r rs_sc by (auto split: if_splits)
      then show ?thesis using pos bnn by auto
    next
      case False
      then have "j < i" using j(1) by simp
      then have "0 < b \<and> b \<le> t" using Cons.prems(2) j by blast
      then show ?thesis using pos by auto
    qed
  qed
  have wit: "?b = 0 \<and> ?n = [] \<or> (\<exists>j < Suc i. 0 < ?b \<and> reachable_score (all ! j) = Some ?b \<and> ?n = nodes ! j)"
  proof (cases ?upd)
    case True
    then show ?thesis using pos rs_sc r by auto
  next
    case False
    then show ?thesis using Cons.prems(3) by (auto intro: less_SucI)
  qed
  show ?case
    by (rule Cons.IH [OF _ low wit, of "pre @ [r]"])
      (use Cons.prems(1,4,5) step in \<open>auto split: if_splits\<close>)
qed

lemma probe_targets_nonempty: "probe_targets nodes = Some ts \<Longrightarrow> n \<in> set nodes \<Longrightarrow> n \<noteq> []"
  by (induction nodes arbitrary: ts) (auto simp: Let_def idx_def Option.bind_eq_Some_conv split: if_splits)

text \<open>
  In a group whose node addresses all carry a numeric port, the node chosen is a reachable one of
  least score (the average time plus the penalty of the failed probes), and none is chosen exactly when
  none is reachable.
\<close>

lemma best_node_is_fastest:
  assumes "probe_targets nodes = Some ts" "length ts = length nodes"
    and "\<forall>(h, p) \<in> set ts. \<forall>s. reachable_score (probe h p) = Some s \<longrightarrow> 0 < s"
  shows "\<exists>m. best_in_group probe nodes = Some m
    \<and> (m = [] \<longleftrightarrow> (\<forall>(h, p) \<in> set ts. reachable_score (probe h p) = None))
    \<and> (m \<noteq> [] \<longrightarrow> (\<exists>j s. j < length nodes \<and> m = nodes ! j \<and> reachable_score (case ts ! j of (h, p) \<Rightarrow> probe h p) = Some s
         \<and> (\<forall>(h, p) \<in> set ts. \<forall>u. reachable_score (probe h p) = Some u \<longrightarrow> s \<le> u)))"
proof -
  let ?rs = "map (\<lambda>(h, p). probe h p) ts"
  obtain c m where p: "pick_node nodes 0 ?rs (0, []) = (c, m)" by fastforce
  have pos: "\<forall>r \<in> set ?rs. \<forall>s. reachable_score r = Some s \<longrightarrow> 0 < s" using assms(3) by auto
  note b = pick_node_best [OF pos _ _ _ _ p, of ?rs "[]", simplified]
  have m: "c = 0 \<and> m = [] \<or> (\<exists>j < length ts. 0 < c \<and> reachable_score (?rs ! j) = Some c \<and> m = nodes ! j)"
    and least: "\<forall>j < length ts. \<forall>s. reachable_score (?rs ! j) = Some s \<longrightarrow> 0 < c \<and> c \<le> s"
    using b by simp_all
  have least': "0 < c \<and> c \<le> u" if "(h, q) \<in> set ts" "reachable_score (probe h q) = Some u" for h q u
    using that least by (auto simp: in_set_conv_nth)
  show ?thesis
  proof (intro exI conjI)
    show "best_in_group probe nodes = Some m" using assms(1) p by (simp add: best_in_group_def)
    show "m = [] \<longleftrightarrow> (\<forall>(h, p) \<in> set ts. reachable_score (probe h p) = None)"
    proof
      assume "m = []"
      moreover have "nodes ! j \<noteq> []" if "j < length ts" for j
        using probe_targets_nonempty [OF assms(1), of "nodes ! j"] that assms(2) by simp
      ultimately have "c = 0" using m by force
      then show "\<forall>(h, p) \<in> set ts. reachable_score (probe h p) = None" using least' by fastforce
    next
      assume n: "\<forall>(h, p) \<in> set ts. reachable_score (probe h p) = None"
      have "reachable_score (?rs ! j) = None" if "j < length ts" for j
        using n nth_mem [OF that] that by (cases "ts ! j") auto
      then show "m = []" using m by fastforce
    qed
    show "m \<noteq> [] \<longrightarrow> (\<exists>j s. j < length nodes \<and> m = nodes ! j \<and> reachable_score (case ts ! j of (h, p) \<Rightarrow> probe h p) = Some s
         \<and> (\<forall>(h, p) \<in> set ts. \<forall>u. reachable_score (probe h p) = Some u \<longrightarrow> s \<le> u))"
    proof
      assume "m \<noteq> []"
      then obtain j where "j < length ts" "reachable_score (?rs ! j) = Some c" "m = nodes ! j" using m by auto
      then show "\<exists>j s. j < length nodes \<and> m = nodes ! j \<and> reachable_score (case ts ! j of (h, p) \<Rightarrow> probe h p) = Some s
         \<and> (\<forall>(h, p) \<in> set ts. \<forall>u. reachable_score (probe h p) = Some u \<longrightarrow> s \<le> u)"
        using assms(2) least' by (intro exI [of _ j] exI [of _ c]) auto
    qed
  qed
qed

definition sample_ping :: "string \<Rightarrow> int \<Rightarrow> ping_result option" where
  "sample_ping h p =
     Some (ping_run 3 (if h = ''b'' then [Some 20, Some 30, Some 40] else [Some 5, None, None]) (new_result (Some 1000)))"

lemma best_node_is_fastest_example:
  "best_in_group sample_ping [''a:441'', ''b:441''] = Some ''b:441''"
proof -
  let ?ns = "[''a:441'', ''b:441'']" and ?ts = "[(''a'', 441), (''b'', 441 :: int)]"
  have a: "atoi ''441'' = Some 441" by code_simp
  have t: "probe_targets ?ns = Some ?ts" by (simp add: idx_def a)
  have s: "reachable_score (sample_ping ''a'' 441) = Some 2005" "reachable_score (sample_ping ''b'' 441) = Some 30"
    by (simp_all add: sample_ping_def new_result_def reachable_score_def nodeProbeScore_def ping_avg_def ping_failed_def Let_def)
  have pos: "\<forall>(h, p) \<in> set ?ts. \<forall>u. reachable_score (sample_ping h p) = Some u \<longrightarrow> 0 < u" using s by simp
  have l: "length ?ts = length ?ns" by simp
  obtain m where m: "best_in_group sample_ping ?ns = Some m"
    "m = [] \<longleftrightarrow> (\<forall>(h, p) \<in> set ?ts. reachable_score (sample_ping h p) = None)"
    "m \<noteq> [] \<longrightarrow> (\<exists>j u. j < length ?ns \<and> m = ?ns ! j
         \<and> reachable_score (case ?ts ! j of (h, p) \<Rightarrow> sample_ping h p) = Some u
         \<and> (\<forall>(h, p) \<in> set ?ts. \<forall>v. reachable_score (sample_ping h p) = Some v \<longrightarrow> u \<le> v))"
    using best_node_is_fastest [OF t l pos] by blast
  then obtain j u where j: "j < 2" "m = ?ns ! j" "reachable_score (case ?ts ! j of (h, p) \<Rightarrow> sample_ping h p) = Some u"
    "u \<le> 30" using s by (auto simp: numeral_2_eq_2)
  then have "j = 1" using s by (auto simp: less_2_cases_iff)
  then show ?thesis using m(1) j(2) by simp
qed

text \<open>With a port that is not a number the results move up one place: the unprobed node is chosen.\<close>

lemma skipped_port_shifts_choice:
  "best_in_group (\<lambda>h p. if h = ''b'' then sample_ping h p else None) [''a:x'', ''b:441''] = Some ''a:x''"
proof -
  have a: "atoi ''441'' = Some 441" "atoi ''x'' = None" by code_simp+
  have t: "probe_targets [''a:x'', ''b:441''] = Some [(''b'', 441)]" by (simp add: idx_def a)
  have "nodeProbeScore (sample_ping ''b'' 441) = (30, True)"
    by (simp add: sample_ping_def new_result_def nodeProbeScore_def ping_avg_def ping_failed_def Let_def)
  then show ?thesis unfolding best_in_group_def t by simp
qed

lemma mget_map: "mget (map (\<lambda>(g, n). (g, f n)) m) k = map_option f (mget m k)"
  by (induction m) (auto simp: mget_def)

lemma getBestReachableNodes_keys: "getBestReachableNodes probe gs = Some m \<Longrightarrow> mkeys m \<subseteq> fst ` set gs"
proof (induction gs arbitrary: m)
  case (Cons x gs)
  obtain g ns where x: "x = (g, ns)" by fastforce
  show ?case using Cons by (fastforce simp: x Option.bind_eq_Some_conv split: if_splits)
qed simp

lemma foldl_mset_other: "k \<notin> fst ` set xs \<Longrightarrow> mget (foldl (\<lambda>m (g, n). mset g n m) best xs) k = mget best k"
  by (induction xs arbitrary: best) auto

text \<open>A group that has a reachable WAN node keeps it; the LAN nodes are only a fallback.\<close>

lemma wan_preferred:
  assumes "getBestNodes probe groups = Some best"
    and "getBestReachableNodes probe (map (\<lambda>(g, n). (g, WAN n)) groups) = Some w" "mget_str w g \<noteq> []"
  shows "mget best g = mget w g"
proof -
  let ?fb = "map (\<lambda>(g, n). (g, LAN n)) (filter (\<lambda>(g, n). mget_str w g = [] \<and> LAN n \<noteq> []) groups)"
  show ?thesis
  proof (cases "?fb = []")
    case True
    then show ?thesis using assms by (simp add: getBestNodes_def selectBestNodes_def)
  next
    case False
    then obtain lan where l: "getBestReachableNodes probe ?fb = Some lan"
      "best = foldl (\<lambda>m (g, n). mset g n m) w lan"
      using assms(1,2) by (auto simp: getBestNodes_def selectBestNodes_def Let_def Option.bind_eq_Some_conv)
    have "g \<notin> fst ` set ?fb" using assms(3) by auto
    then have "g \<notin> fst ` set lan" using getBestReachableNodes_keys [OF l(1)] by (auto simp: mkeys_def)
    then show ?thesis using l(2) foldl_mset_other by simp
  qed
qed

section \<open>Session and virtual address\<close>

text \<open>The client's shared fields, with the tunnel's copy of the address, the addresses excluded from the
  underlay dialer and the cookies handed to the save callback.\<close>

record client =
  cSID :: string
  cSessionErr :: "string option"
  cDeviceID :: string
  cIP :: ip
  cHandler :: "(ip \<Rightarrow> string option) option"
  cTunnelIP :: ip
  cVIPs :: "ip list"
  cExcluded :: "ip list"
  cLive :: bool
  cTunnelClosed :: bool
  cSaved :: "string list"

definition canResume :: "bytes option \<Rightarrow> client \<Rightarrow> bool" where
  "canResume resourceData c \<longleftrightarrow> cSID c \<noteq> [] \<and> cDeviceID c \<noteq> [] \<and> resourceData \<noteq> None"

definition client_IP :: "client \<Rightarrow> string + ip" where
  "client_IP c = (if cIP c = [] then Inl ''IP not available'' else Inr (to4 (cIP c)))"

definition setIP :: "ip \<Rightarrow> client \<Rightarrow> client" where
  "setIP x c = c\<lparr>cIP := x\<rparr>"

definition SetIPUpdateHandler :: "(ip \<Rightarrow> string option) option \<Rightarrow> client \<Rightarrow> client" where
  "SetIPUpdateHandler h c = c\<lparr>cHandler := h\<rparr>"

definition applyIPUpdate :: "ip \<Rightarrow> client \<Rightarrow> string option" where
  "applyIPUpdate x c =
     (case cHandler c of
        None \<Rightarrow> Some ''network stack does not support virtual IP updates''
      | Some h \<Rightarrow> h x)"

definition sessionSID :: "client \<Rightarrow> string \<times> string option" where
  "sessionSID c = (cSID c, cSessionErr c)"

definition setSessionSID :: "string \<Rightarrow> string option \<Rightarrow> client \<Rightarrow> client" where
  "setSessionSID sid e c = c\<lparr>cSID := sid, cSessionErr := e\<rparr>"

text \<open>The report of the server's virtual addresses: the tunnel and the client take the first IPv4 one
  over when it is new and the network stack has accepted it.\<close>

definition updateVIP :: "ip list \<Rightarrow> client \<Rightarrow> client" where
  "updateVIP ips c =
     (let updated = filter (\<lambda>x. x \<noteq> []) ips;
          ipv4 = (case find (\<lambda>x. to4 x \<noteq> []) updated of None \<Rightarrow> [] | Some x \<Rightarrow> to4 x);
          changed = (ipv4 \<noteq> [] \<and> \<not> ip_equal (cTunnelIP c) ipv4);
          c = c\<lparr>cVIPs := updated\<rparr>
      in if \<not> changed then c
         else (case applyIPUpdate ipv4 c of
                 Some e \<Rightarrow> c
               | None \<Rightarrow>
                   (let c = setIP ipv4 (c\<lparr>cTunnelIP := ipv4\<rparr>)
                    in c\<lparr>cExcluded := cExcluded c @ [ipv4]\<rparr>)))"

text \<open>One round of the session refresh loop with the outcome of the refresh call: the loop stops, the
  process ends, or the timer is set again.\<close>

datatype refresh_outcome = RefreshOk string string | RefreshInvalid string | RefreshFailed string

datatype tick_result = StopLoop | EndProcess | TimerIn int

definition refresh_tick :: "int \<Rightarrow> bool \<Rightarrow> bool \<Rightarrow> refresh_outcome \<Rightarrow> client \<Rightarrow> tick_result \<times> client" where
  "refresh_tick interval emb save out c =
     (if \<not> cLive c then (StopLoop, c)
      else (case out of
              RefreshInvalid e \<Rightarrow>
                if \<not> emb then (EndProcess, c)
                else (StopLoop, (setSessionSID [] (Some (''aTrust session maintenance failed: '' @ e)) c)
                        \<lparr>cTunnelClosed := True\<rparr>)
            | RefreshFailed e \<Rightarrow> (TimerIn (min interval 60000000000), c)
            | RefreshOk sid cookies \<Rightarrow>
                (let c = setSessionSID sid None c
                 in (TimerIn interval, if save then c\<lparr>cSaved := cSaved c @ [cookies]\<rparr> else c))))"

definition client_close :: "client \<Rightarrow> client" where
  "client_close c = c\<lparr>cLive := False, cTunnelClosed := True\<rparr>"

definition resolveServerVersionInfo :: "bytes \<Rightarrow> string + bytes \<Rightarrow> string + bytes" where
  "resolveServerVersionInfo cached fetched =
     (case fetched of
        Inr v \<Rightarrow> Inr v
      | Inl e \<Rightarrow> if cached = [] then Inl (''failed to acquire aTrust server manifest: '' @ e) else Inr cached)"

text \<open>The first address request: the major group's best node or, failing that, any node (\<open>pick\<close> is the
  place of the one Go's map iteration meets first), the dial, the request and its answer.\<close>

definition ip_request_node :: "(string, string) gomap \<Rightarrow> string \<Rightarrow> nat \<Rightarrow> string" where
  "ip_request_node best major p =
     (let a = (case mget best major of None \<Rightarrow> [] | Some a \<Rightarrow> a)
      in if a \<noteq> [] then a else if best = [] then [] else snd (best ! (p mod length best)))"

record ip_env =
  ieJson :: "bytes \<Rightarrow> (int \<times> string) option"
  ieMarshal :: "string \<Rightarrow> string + bytes"
  ieEmbedded :: bool
  ieDial :: "string \<Rightarrow> string + bytes"
  ieWrite :: "bytes \<Rightarrow> string option"
  ieDeadline :: "string option"

definition getIP :: "ip_env \<Rightarrow> (string, string) gomap \<Rightarrow> string \<Rightarrow> nat \<Rightarrow> client \<Rightarrow> ((string + tunnel_error) + unit) \<times> client" where
  "getIP env best major p c =
     (let a = ip_request_node best major p
      in if a = [] then (Inl (Inl ''no reachable node for ip request''), c)
         else (case ieDial env a of
                 Inl e \<Rightarrow> (Inl (Inl e), c)
               | Inr input \<Rightarrow>
                   (case sessionSID c of
                      (_, Some e) \<Rightarrow> (Inl (Inl e), c)
                    | (sid, None) \<Rightarrow>
                        (case ieMarshal env sid of
                           Inl e \<Rightarrow> (Inl (Inl e), c)
                         | Inr payload \<Rightarrow>
                             (case ieWrite env (wrapAuthReqData payload 1) of
                                Some e \<Rightarrow> (Inl (Inl e), c)
                              | None \<Rightarrow>
                                  (case ieDeadline env of
                                     Some e \<Rightarrow> (Inl (Inl e), c)
                                   | None \<Rightarrow>
                                       (case readIPTunnelResponses (ieJson env) (ieEmbedded env) input of
                                          Inl e \<Rightarrow> (Inl (Inr e), c)
                                        | Inr (x, _) \<Rightarrow> (Inr (), setIP x c))))))))"

text \<open>What the setup leaves behind when the tunnel starts: the tunnel's copy of the address and the
  exclusion of the address from the underlay dialer.\<close>

definition start_tunnel :: "client \<Rightarrow> (string + client)" where
  "start_tunnel c =
     (case client_IP c of
        Inl e \<Rightarrow> Inl (''failed to get client IP: '' @ e)
      | Inr x \<Rightarrow> Inr (c\<lparr>cExcluded := cExcluded c @ [cIP c], cTunnelIP := x\<rparr>))"


section \<open>The address is the same everywhere\<close>

datatype client_op =
    OpVIP "ip list"
  | OpHandler "(ip \<Rightarrow> string option) option"
  | OpRefresh int bool bool refresh_outcome
  | OpClose

fun client_step :: "client_op \<Rightarrow> client \<Rightarrow> client option" where
  "client_step (OpVIP ips) c = Some (updateVIP ips c)"
| "client_step (OpHandler h) c = Some (SetIPUpdateHandler h c)"
| "client_step (OpRefresh i emb save out) c =
     (case refresh_tick i emb save out c of (EndProcess, _) \<Rightarrow> None | (_, c) \<Rightarrow> Some c)"
| "client_step OpClose c = Some (client_close c)"

definition client_inv :: "client \<Rightarrow> bool" where
  "client_inv c \<longleftrightarrow> to4 (cIP c) \<noteq> [] \<and> cTunnelIP c = to4 (cIP c) \<and> (\<exists>x \<in> set (cExcluded c). to4 x = cTunnelIP c)
     \<and> (cSessionErr c \<noteq> None \<longrightarrow> cTunnelClosed c)"

lemma updateVIP_cases:
  obtains (keep) "updateVIP ips c = c\<lparr>cVIPs := filter (\<lambda>x. x \<noteq> []) ips\<rparr>"
    | (take_over) x where "length x = 4" "applyIPUpdate x c = None"
        "updateVIP ips c = c\<lparr>cVIPs := filter (\<lambda>x. x \<noteq> []) ips, cTunnelIP := x, cIP := x, cExcluded := cExcluded c @ [x]\<rparr>"
proof -
  let ?u = "filter (\<lambda>x. x \<noteq> []) ips"
  show ?thesis
  proof (cases "find (\<lambda>x. to4 x \<noteq> []) ?u")
    case None
    then show ?thesis using keep by (simp add: updateVIP_def)
  next
    case (Some y)
    then have "length (to4 y) = 4" using to4_length [of y] by (auto simp: find_Some_iff)
    moreover have "applyIPUpdate (to4 y) (c\<lparr>cVIPs := ?u\<rparr>) = applyIPUpdate (to4 y) c"
      by (simp add: applyIPUpdate_def)
    moreover have "updateVIP ips c =
        (if to4 y = [] \<or> ip_equal (cTunnelIP c) (to4 y) \<or> applyIPUpdate (to4 y) (c\<lparr>cVIPs := ?u\<rparr>) \<noteq> None
         then c\<lparr>cVIPs := ?u\<rparr>
         else c\<lparr>cVIPs := ?u, cTunnelIP := to4 y, cIP := to4 y, cExcluded := cExcluded c @ [to4 y]\<rparr>)"
      unfolding updateVIP_def Let_def Some by (auto simp: setIP_def split: option.split)
    ultimately show ?thesis using keep take_over [of "to4 y"] by (auto split: if_splits)
  qed
qed

lemma updateVIP_inv:
  assumes "client_inv c"
  shows "client_inv (updateVIP ips c)"
proof (cases rule: updateVIP_cases [of ips c])
  case keep
  then show ?thesis using assms by (auto simp: client_inv_def)
next
  case (take_over x)
  then have "to4 x = x" "x \<noteq> []" by auto
  then show ?thesis using take_over(3) assms by (simp add: client_inv_def)
qed

lemma refresh_tick_inv: "client_inv c \<Longrightarrow> client_inv (snd (refresh_tick i emb save out c))"
  by (auto simp: client_inv_def refresh_tick_def setSessionSID_def Let_def split: refresh_outcome.split)

interpretation cl: keeps_inv client_step client_inv
proof unfold_locales
  fix c e d assume i: "client_inv c" and s: "client_step e c = Some d"
  show "client_inv d"
  proof (cases e)
    case (OpRefresh n emb save out)
    then show ?thesis using s refresh_tick_inv [OF i, of n emb save out]
      by (auto split: prod.splits tick_result.splits)
  qed (use i s updateVIP_inv in \<open>auto simp: client_inv_def SetIPUpdateHandler_def client_close_def\<close>)
qed

lemma start_tunnel_inv:
  "start_tunnel c = Inr d \<Longrightarrow> to4 (cIP c) \<noteq> [] \<Longrightarrow> cSessionErr c = None \<Longrightarrow> client_inv d"
  by (auto simp: start_tunnel_def client_IP_def client_inv_def split: if_splits)


definition sample_session :: client where
  "sample_session = \<lparr>cSID = ''s'', cSessionErr = None, cDeviceID = ''d'', cIP = ipv4 10 0 0 1, cHandler = None,
     cTunnelIP = [], cVIPs = [], cExcluded = [], cLive = True, cTunnelClosed = False, cSaved = []\<rparr>"


end
