(* ===== verification/DomainIndex.thy ===== *)
theory DomainIndex
  imports Resource
begin

text \<open>
  The index of domain rules (\<open>resolve/domain_index.go\<close>): a trie over the reversed names, its
  construction and lookup, and their equality with a scan over the suffixes of the host.
\<close>

section \<open>The trie of reversed domain names\<close>

record domainResourceEntry =
  dreDomain :: string
  dreRules :: "DomainResource list"

datatype dnode = DNode (dchildren: "(char, dnode) gomap") (dentry: "domainResourceEntry option")

definition empty_node :: dnode where
  "empty_node = DNode [] None"

definition normalizeHostname :: "string \<Rightarrow> string" where
  "normalizeHostname h = trim_suffix (to_lower (trim_space h)) ''.''"

text \<open>The insertion below a node along the reversed name.\<close>

fun add_entry :: "string \<Rightarrow> string \<Rightarrow> DomainResource list \<Rightarrow> dnode \<Rightarrow> dnode" where
  "add_entry [] domain rs (DNode cs e) =
     (let e = (case e of None \<Rightarrow> \<lparr>dreDomain = domain, dreRules = []\<rparr> | Some e \<Rightarrow> e)
      in DNode cs (Some (e\<lparr>dreRules := dreRules e @ rs\<rparr>)))"
| "add_entry (c # path) domain rs (DNode cs e) =
     (let child = (case mget cs c of None \<Rightarrow> empty_node | Some n \<Rightarrow> n)
      in DNode (mset c (add_entry path domain rs child) cs) e)"

text \<open>The name under which a domain is filed; the empty one is skipped.\<close>

definition index_name :: "string \<Rightarrow> string" where
  "index_name domain =
     (let n = normalizeHostname domain in if has_prefix n ''*.'' then drop 1 n else n)"

fun newDomainResourceIndex :: "(string, DomainResource list) gomap \<Rightarrow> dnode \<Rightarrow> dnode" where
  "newDomainResourceIndex [] root = root"
| "newDomainResourceIndex ((domain, rs) # m) root =
     newDomainResourceIndex m
       (if index_name domain = [] then root else add_entry (rev (index_name domain)) domain rs root)"

text \<open>The walk over the host from its last character: the part still to walk (reversed), the entries met.\<close>

fun walk :: "dnode \<Rightarrow> string \<Rightarrow> domainResourceEntry list" where
  "walk n [] = []"
| "walk n (c # path) =
     (case mget (dchildren n) c of
        None \<Rightarrow> []
      | Some n \<Rightarrow>
          (let boundary = (path = [] \<or> c = CHR ''.'' \<or> hd path = CHR ''.'')
           in (case dentry n of Some e \<Rightarrow> if boundary then [e] else [] | None \<Rightarrow> []) @ walk n path))"

definition domain_match :: "dnode \<Rightarrow> string \<Rightarrow> (string \<times> DomainResource list) option" where
  "domain_match root host =
     (let ms = walk root (rev host)
      in if ms = [] then None else Some (dreDomain (last ms), concat (map dreRules (rev ms))))"


section \<open>The specification: suffixes at label boundaries\<close>

text \<open>The entry filed under a name, in the order the domains were listed.\<close>

definition filed :: "(string, DomainResource list) gomap \<Rightarrow> string \<Rightarrow> domainResourceEntry option" where
  "filed m name =
     (case filter (\<lambda>(d, rs). index_name d = name) m of
        [] \<Rightarrow> None
      | (d, rs) # ms \<Rightarrow> Some \<lparr>dreDomain = d, dreRules = concat (map snd ((d, rs) # ms))\<rparr>)"

text \<open>A name covers a host when it is the host, or a proper suffix that starts at a label.\<close>

definition covers_host :: "string \<Rightarrow> string \<Rightarrow> bool" where
  "covers_host name host \<longleftrightarrow> name \<noteq> [] \<and> has_suffix host name
     \<and> (host = name \<or> hd name = CHR ''.'' \<or> host ! (length host - length name - 1) = CHR ''.'')"

definition covering :: "(string, DomainResource list) gomap \<Rightarrow> string \<Rightarrow> domainResourceEntry list" where
  "covering m host =
     concat (map (\<lambda>k. if covers_host (drop k host) host then (case filed m (drop k host) of Some e \<Rightarrow> [e] | None \<Rightarrow> [])
        else []) [0..<length host])"

section \<open>The trie finds exactly the covering names\<close>

fun find_path :: "dnode \<Rightarrow> string \<Rightarrow> domainResourceEntry option" where
  "find_path n [] = dentry n"
| "find_path n (c # path) = (case mget (dchildren n) c of None \<Rightarrow> None | Some n \<Rightarrow> find_path n path)"

lemma find_path_empty: "find_path empty_node p = None"
  by (cases p) (simp_all add: empty_node_def)

definition merge_entry :: "domainResourceEntry option \<Rightarrow> string \<Rightarrow> DomainResource list \<Rightarrow> domainResourceEntry" where
  "merge_entry e domain rs =
     (case e of None \<Rightarrow> \<lparr>dreDomain = domain, dreRules = rs\<rparr> | Some e \<Rightarrow> e\<lparr>dreRules := dreRules e @ rs\<rparr>)"

lemma find_path_add:
  "find_path (add_entry p domain rs n) q = (if q = p then Some (merge_entry (find_path n p) domain rs) else find_path n q)"
proof (induction p domain rs n arbitrary: q rule: add_entry.induct)
  case (1 domain rs cs e)
  then show ?case by (cases q) (auto simp: merge_entry_def split: option.split)
next
  case (2 c p domain rs cs e)
  show ?case
  proof (cases q)
    case Nil
    then show ?thesis by (simp add: Let_def)
  next
    case (Cons d r)
    show ?thesis
    proof (cases "mget cs c")
      case None
      then show ?thesis using 2 [OF refl] Cons by (auto simp: Let_def find_path_empty)
    next
      case (Some k)
      then show ?thesis using 2 [OF refl] Cons by (auto simp: Let_def)
    qed
  qed
qed

definition filed_from :: "domainResourceEntry option \<Rightarrow> (string, DomainResource list) gomap \<Rightarrow> string
    \<Rightarrow> domainResourceEntry option" where
  "filed_from e m name =
     foldl (\<lambda>e (d, rs). if index_name d = name then Some (merge_entry e d rs) else e) e m"

lemma filed_from_Some:
  "filed_from (Some e) m name = Some (e\<lparr>dreRules := dreRules e @ concat (map snd (filter (\<lambda>(d, rs). index_name d = name) m))\<rparr>)"
  by (induction m arbitrary: e) (auto simp: filed_from_def merge_entry_def)

lemma filed_from_None: "filed_from None m name = filed m name"
proof (induction m)
  case (Cons x m)
  obtain d rs where x: "x = (d, rs)" by fastforce
  show ?case
  proof (cases "index_name d = name")
    case True
    have "filed_from None (x # m) name = filed_from (Some \<lparr>dreDomain = d, dreRules = rs\<rparr>) m name"
      using True by (simp add: x filed_from_def merge_entry_def)
    then show ?thesis using True by (simp add: filed_from_Some) (simp add: x filed_def)
  next
    case False
    then have "filed_from None (x # m) name = filed_from None m name" by (simp add: x filed_from_def)
    then show ?thesis using False Cons by (simp add: x filed_def)
  qed
qed (simp add: filed_from_def filed_def)

lemma find_path_index:
  "name \<noteq> [] \<Longrightarrow> find_path (newDomainResourceIndex m root) (rev name) = filed_from (find_path root (rev name)) m name"
proof (induction m root rule: newDomainResourceIndex.induct)
  case (2 domain rs m root)
  then show ?case by (auto simp: filed_from_def find_path_add)
qed (simp add: filed_from_def)

definition walk_at :: "dnode \<Rightarrow> string \<Rightarrow> nat \<Rightarrow> domainResourceEntry list" where
  "walk_at n p k = (case find_path n (take (Suc k) p) of
       Some e \<Rightarrow> if Suc k = length p \<or> p ! k = CHR ''.'' \<or> p ! Suc k = CHR ''.'' then [e] else []
     | None \<Rightarrow> [])"

lemma walk_at_Suc: "mget (dchildren n) c = Some k \<Longrightarrow> walk_at n (c # p) (Suc i) = walk_at k p i"
  by (simp add: walk_at_def split: option.split)

lemma walk_at_0: "mget (dchildren n) c = Some k \<Longrightarrow> walk_at n (c # p) 0
    = (case dentry k of Some e \<Rightarrow> if p = [] \<or> c = CHR ''.'' \<or> hd p = CHR ''.'' then [e] else [] | None \<Rightarrow> [])"
  by (cases p) (simp_all add: walk_at_def split: option.split)

lemma walk_at_None: "mget (dchildren n) c = None \<Longrightarrow> walk_at n (c # p) i = []"
  by (simp add: walk_at_def)

lemma walk_find: "walk n p = concat (map (walk_at n p) [0..<length p])"
proof (induction n p rule: walk.induct)
  case (2 n c p)
  have up: "[0..<length (c # p)] = 0 # map Suc [0..<length p]"
    by (simp add: map_Suc_upt upt_conv_Cons del: upt_Suc)
  show ?case
  proof (cases "mget (dchildren n) c")
    case None
    then show ?thesis by (simp add: walk_at_None)
  next
    case (Some k)
    then show ?thesis using 2 [OF Some]
      unfolding up by (simp add: comp_def walk_at_Suc walk_at_0 split: option.split)
  qed
qed simp

lemma rev_upt_minus: "map (\<lambda>k. n - Suc k) [0..<n] = rev [0..<n]"
  by (rule nth_equalityI) (simp_all add: rev_nth)

lemma covers_drop:
  assumes "k < length host"
  shows "covers_host (drop k host) host \<longleftrightarrow> k = 0 \<or> host ! k = CHR ''.'' \<or> host ! (k - 1) = CHR ''.''"
proof -
  have "host = drop k host \<longleftrightarrow> k = 0"
  proof
    assume "host = drop k host"
    then have "length host = length host - k" by (metis length_drop)
    then show "k = 0" using assms by simp
  qed simp
  moreover have "length host - length (drop k host) - 1 = k - 1" using assms by simp
  ultimately show ?thesis using assms by (simp add: covers_host_def has_suffix_def hd_drop_conv_nth)
qed

lemma walk_covering:
  "rev (walk (newDomainResourceIndex m empty_node) (rev host)) = covering m host"
proof -
  let ?root = "newDomainResourceIndex m empty_node" and ?n = "length host"
  let ?g = "walk_at ?root (rev host)"
  let ?f = "\<lambda>k. if covers_host (drop k host) host then (case filed m (drop k host) of Some e \<Rightarrow> [e] | None \<Rightarrow> []) else []"
  have g: "?g k = ?f (?n - Suc k)" if k: "k < ?n" for k
  proof -
    have t: "take (Suc k) (rev host) = rev (drop (?n - Suc k) host)" by (simp add: take_rev)
    have ne: "drop (?n - Suc k) host \<noteq> []" using k by simp
    have e: "find_path ?root (take (Suc k) (rev host)) = filed m (drop (?n - Suc k) host)"
      unfolding t find_path_index [OF ne] by (simp add: find_path_empty filed_from_None)
    have "Suc k = ?n \<or> rev host ! k = CHR ''.'' \<or> rev host ! Suc k = CHR ''.''
        \<longleftrightarrow> covers_host (drop (?n - Suc k) host) host"
    proof (cases "Suc k = ?n")
      case True
      then have "?n - Suc k = 0" by simp
      moreover have "0 < ?n" using k by linarith
      ultimately show ?thesis using covers_drop [of 0 host] True by fastforce
    next
      case False
      then have "Suc k < ?n" using k by simp
      then show ?thesis using covers_drop [of "?n - Suc k" host] by (simp add: rev_nth)
    qed
    then show ?thesis unfolding walk_at_def e by (auto split: option.split)
  qed
  have "walk ?root (rev host) = concat (map ?g [0..<?n])" by (simp add: walk_find)
  also have "map ?g [0..<?n] = map (?f \<circ> (\<lambda>k. ?n - Suc k)) [0..<?n]" using g by simp
  also have "\<dots> = map ?f (rev [0..<?n])" by (metis map_map rev_upt_minus)
  finally have w: "walk ?root (rev host) = concat (map ?f (rev [0..<?n]))" .
  have r: "rev (?f k) = ?f k" for k by (auto split: option.split)
  have "rev (concat (map ?f (rev [0..<?n]))) = concat (map (\<lambda>k. rev (?f k)) [0..<?n])"
    by (simp add: rev_concat rev_map comp_def)
  then show ?thesis unfolding w covering_def r .
qed

text \<open>
  C25: the lookup in the trie of domain rules returns, for every table of domains and every host, the
  rules of exactly those domains that are the host or end it at a label boundary, the most specific
  domain first, and names the most specific one.
\<close>

theorem domain_index_is_suffix_scan:
  "domain_match (newDomainResourceIndex m empty_node) host =
     (case covering m host of
        [] \<Rightarrow> None
      | e # es \<Rightarrow> Some (dreDomain e, concat (map dreRules (e # es))))"
proof -
  let ?w = "walk (newDomainResourceIndex m empty_node) (rev host)"
  have w: "?w = rev (covering m host)" using walk_covering [of m host] by (metis rev_rev_ident)
  show ?thesis
    by (cases "covering m host") (simp_all add: domain_match_def w Let_def)
qed

text \<open>A pattern \<open>*.d\<close> covers the hosts below \<open>d\<close> and not \<open>d\<close> itself; a plain domain covers both.\<close>

lemma wildcard_excludes_apex:
  "covers_host ''.a.cn'' ''x.a.cn'' \<and> \<not> covers_host ''.a.cn'' ''a.cn'' \<and> covers_host ''a.cn'' ''a.cn''
   \<and> covers_host ''a.cn'' ''x.a.cn'' \<and> \<not> covers_host ''a.cn'' ''xa.cn''"
  by code_simp

end
