(* ===== verification/Resolver.thy ===== *)
theory Resolver
  imports DomainIndex IPPool
begin

text \<open>
  Name resolution (\<open>resolve/resolver.go\<close>, \<open>cache.go\<close>): cache, policy addresses, fake addresses, the race
  of the lookup sources, the UDP lookup with its TCP fallback, and lookups shared by concurrent callers.
  DNS itself and the cache library are parameters: what the sources answer, and in which order, is the
  list of events; the cache is the map of its unexpired entries.
\<close>

section \<open>The resolver\<close>

text \<open>
  The policy's fixed addresses (\<open>dnsResource\<close>, \<open>None\<close> when the map is nil) with the cursor of each host,
  the optional callbacks, the sources that are configured, and the cache, of which the model keeps the
  entries that have not expired. \<open>rSources\<close> names the additional lookups.
\<close>

record resolver =
  rIndex :: dnode
  rDnsResource :: "(string, ip list) gomap option"
  rCursors :: "(string, 64 word) gomap"
  rUseRemote :: bool
  rExternal :: bool
  rSecondary :: bool
  rSources :: "string list"
  rHistory :: "(string \<Rightarrow> ip list) option"
  rPreferred :: "(ip \<Rightarrow> bool) option"
  rPolicySuffix :: string
  rCache :: "(string, ip) gomap"
  rPool :: "DomainResource list IPPool"
  rUseTCP :: bool
  rTimer :: bool

definition getDNSCache :: "string \<Rightarrow> resolver \<Rightarrow> ip option" where
  "getDNSCache host r = mget (rCache r) (normalizeHostname host)"

definition setDNSCache :: "string \<Rightarrow> ip \<Rightarrow> resolver \<Rightarrow> resolver" where
  "setDNSCache host x r = r\<lparr>rCache := mset (normalizeHostname host) x (rCache r)\<rparr>"

definition SetPermanentDNS :: "string \<Rightarrow> ip \<Rightarrow> resolver \<Rightarrow> resolver" where
  "SetPermanentDNS host x r = r\<lparr>rCache := mset (normalizeHostname host) x (rCache r)\<rparr>"

definition cache_expire :: "string \<Rightarrow> resolver \<Rightarrow> resolver" where
  "cache_expire host r = r\<lparr>rCache := mdel host (rCache r)\<rparr>"

definition appendUniqueIPs :: "ip list \<Rightarrow> ip \<Rightarrow> ip list" where
  "appendUniqueIPs values candidate =
     (if candidate = [] then values
      else if list_ex (\<lambda>v. ip_equal v candidate) values then values
      else values @ [candidate])"

definition AddLookupSource :: "string \<Rightarrow> bool \<Rightarrow> resolver \<Rightarrow> resolver" where
  "AddLookupSource source given r = (if source = [] \<or> \<not> given then r else r\<lparr>rSources := rSources r @ [source]\<rparr>)"

definition SetPolicyDomainSuffix :: "string \<Rightarrow> resolver \<Rightarrow> resolver" where
  "SetPolicyDomainSuffix suffix r = r\<lparr>rPolicySuffix := normalizeHostname suffix\<rparr>"

definition RecordSuccessfulAddress :: "bool \<Rightarrow> string \<Rightarrow> ip \<Rightarrow> (string \<times> ip) option" where
  "RecordSuccessfulAddress recorder host x =
     (if \<not> recorder \<or> host = [] \<or> x = [] then None else Some (normalizeHostname host, x))"


section \<open>Resolution\<close>

datatype resolve_error = AllSourcesFailed string | CtxEnded string | LookupFailed string | ResolverClosed

text \<open>What reaches the candidate loop: the result of a source, the preference timer, the end of the
  caller's context.\<close>

datatype lookup_event = Answer string "resolve_error + ip list" | PreferenceTimer | CtxDone string

text \<open>The answers of one source: the candidates they leave, and the address that ends the search when
  the resource policy prefers it.\<close>

fun take_answers :: "(ip \<Rightarrow> bool) option \<Rightarrow> ip list \<Rightarrow> ip list \<Rightarrow> ip list \<times> ip option" where
  "take_answers pref cs [] = (cs, None)"
| "take_answers pref cs (x # xs) =
     (let cs = appendUniqueIPs cs x
      in if (case pref of Some f \<Rightarrow> f x | None \<Rightarrow> False) then (cs, Some x) else take_answers pref cs xs)"

text \<open>The loop: \<open>None\<close> while it waits for an event. An early end sets \<open>completed\<close> to \<open>pending\<close>, which
  ends the loop at once; so does the last answer.\<close>

datatype loop_result = Preferred ip | Candidates "ip list" | LoopCtxEnded string

fun candidate_loop ::
  "(ip \<Rightarrow> bool) option \<Rightarrow> nat \<Rightarrow> ip list \<Rightarrow> bool \<Rightarrow> bool \<Rightarrow> lookup_event list \<Rightarrow> loop_result option" where
  "candidate_loop pref 0 cs sys pol evs = Some (Candidates cs)"
| "candidate_loop pref (Suc n) cs sys pol [] = None"
| "candidate_loop pref (Suc n) cs sys pol (Answer src res # evs) =
     (let sys = (sys \<or> src = ''system''); pol = (pol \<or> src = ''policy-secondary'')
      in case res of
           Inl e \<Rightarrow> if cs \<noteq> [] \<and> sys \<and> pol then Some (Candidates cs) else candidate_loop pref n cs sys pol evs
         | Inr ips \<Rightarrow>
             (case take_answers pref cs ips of
                (_, Some x) \<Rightarrow> Some (Preferred x)
              | (cs, None) \<Rightarrow>
                  if cs \<noteq> [] \<and> sys \<and> pol then Some (Candidates cs) else candidate_loop pref n cs sys pol evs))"
| "candidate_loop pref (Suc n) cs sys pol (PreferenceTimer # evs) =
     (if cs \<noteq> [] then Some (Candidates cs) else candidate_loop pref (Suc n) cs sys pol evs)"
| "candidate_loop pref (Suc n) cs sys pol (CtxDone e # evs) = Some (LoopCtxEnded e)"

definition pending_lookups :: "resolver \<Rightarrow> nat" where
  "pending_lookups r =
     (if rUseRemote r then 1 else 0) + (if rExternal r then 1 else 0) + (if rSecondary r then 1 else 0)
     + length (rSources r)"

text \<open>The context values \<open>Resolve\<close> reads and sets.\<close>

record resolve_ctx =
  rcFakeIP :: bool
  rcDomainRules :: "DomainResource list option"
  rcResolveHost :: "string option"

definition next_policy_ip :: "string \<Rightarrow> ip list \<Rightarrow> resolver \<Rightarrow> ip \<times> resolver" where
  "next_policy_ip host ips r =
     (let c = (case mget (rCursors r) host of None \<Rightarrow> 0 | Some c \<Rightarrow> c); c' = c + 1
      in (ips ! (unat (c' - 1) mod length ips), r\<lparr>rCursors := mset host c' (rCursors r)\<rparr>))"

text \<open>The first candidate, or the first one the policy prefers.\<close>

definition select_candidate :: "(ip \<Rightarrow> bool) option \<Rightarrow> ip \<Rightarrow> ip list \<Rightarrow> ip" where
  "select_candidate pref c cs =
     (case pref of
        None \<Rightarrow> c
      | Some f \<Rightarrow> (case find f (c # cs) of Some x \<Rightarrow> x | None \<Rightarrow> c))"

text \<open>The part of \<open>Resolve\<close> after cache and policy: history, lookups, selection. \<open>ctxErr\<close> is the state
  of the context when all sources have failed.\<close>

definition resolve_candidates ::
  "lookup_event list \<Rightarrow> string option \<Rightarrow> string \<Rightarrow> resolver \<Rightarrow> ((resolve_error + ip) \<times> resolver) option" where
  "resolve_candidates evs ctxErr host r =
     (let history = (case rHistory r of None \<Rightarrow> [] | Some h \<Rightarrow> h host);
          cs = foldl appendUniqueIPs [] history
      in case (case rPreferred r of None \<Rightarrow> None | Some f \<Rightarrow> find f history) of
           Some x \<Rightarrow> Some (Inr x, setDNSCache host x r)
         | None \<Rightarrow>
             (case candidate_loop (rPreferred r) (pending_lookups r) cs (\<not> rExternal r)
                     (\<not> list_ex (\<lambda>s. s = ''policy-secondary'') (rSources r)) evs of
                None \<Rightarrow> None
              | Some (Preferred x) \<Rightarrow> Some (Inr x, setDNSCache host x r)
              | Some (LoopCtxEnded e) \<Rightarrow> Some (Inl (CtxEnded e), r)
              | Some (Candidates []) \<Rightarrow>
                  Some (Inl (case ctxErr of Some e \<Rightarrow> CtxEnded e | None \<Rightarrow> AllSourcesFailed host), r)
              | Some (Candidates (c # cs)) \<Rightarrow>
                  (let selected = select_candidate (rPreferred r) c cs
                   in Some (Inr selected, setDNSCache host selected r))))"

definition resolve_policy ::
  "lookup_event list \<Rightarrow> string option \<Rightarrow> string \<Rightarrow> bool \<Rightarrow> DomainResource list option \<Rightarrow> resolver
     \<Rightarrow> ((resolve_error + ip) \<times> resolver) option" where
  "resolve_policy evs ctxErr host fake found r =
     (case rDnsResource r of
        None \<Rightarrow> resolve_candidates evs ctxErr host r
      | Some m \<Rightarrow>
          (case mget m host of
             Some (x # xs) \<Rightarrow>
               (let (ip, r) = next_policy_ip host (x # xs) r
                in Some (Inr ip,
                     (case found of
                        None \<Rightarrow> r
                      | Some rules \<Rightarrow>
                          (case SetIPDomain (rPool r) ip host rules of
                             Inl _ \<Rightarrow> r
                           | Inr p \<Rightarrow> r\<lparr>rPool := p\<rparr>))))
           | _ \<Rightarrow>
               (case found of
                  Some rules \<Rightarrow>
                    if fake then
                      (case GenerateIP (rPool r) host rules of
                         None \<Rightarrow> None
                       | Some (ip, p) \<Rightarrow> Some (Inr ip, r\<lparr>rPool := p\<rparr>))
                    else resolve_candidates evs ctxErr host r
                | None \<Rightarrow> resolve_candidates evs ctxErr host r)))"

text \<open>\<open>Resolve\<close>: \<open>None\<close> while it waits for a lookup, or when the fake-IP range is exhausted (a panic).\<close>

definition Resolve ::
  "lookup_event list \<Rightarrow> string option \<Rightarrow> string \<Rightarrow> resolve_ctx \<Rightarrow> resolver
     \<Rightarrow> (resolve_ctx \<times> (resolve_error + ip) \<times> resolver) option" where
  "Resolve evs ctxErr host0 ctx r =
     (let host = normalizeHostname host0;
          found = map_option snd (domain_match (rIndex r) host);
          ctx = (case found of Some rules \<Rightarrow> ctx\<lparr>rcDomainRules := Some rules\<rparr> | None \<Rightarrow> ctx)
      in map_option (\<lambda>(res, r). (case res of Inr _ \<Rightarrow> ctx\<lparr>rcResolveHost := Some host\<rparr> | Inl _ \<Rightarrow> ctx, res, r))
           (case getDNSCache host r of
              Some x \<Rightarrow> Some (Inr x, r)
            | None \<Rightarrow> resolve_policy evs ctxErr host (rcFakeIP ctx) found r))"

definition preference_window :: "resolver \<Rightarrow> string \<Rightarrow> int" where
  "preference_window r host =
     (if rPolicySuffix r \<noteq> [] \<and> (host = rPolicySuffix r \<or> has_suffix host (''.'' @ rPolicySuffix r))
      then 4000000000 else 250000000)"


section \<open>The remote lookup\<close>

text \<open>The race of the UDP lookup and the TCP lookup, which starts when the timer fires or UDP fails:
  what the loop knows, over the events in the order it sees them.\<close>

datatype fallback_event =
    UdpResult "string + ip list"
  | TcpResult "string + ip list"
  | FallbackTimer
  | FallbackCtxDone string

datatype fallback_result = FallbackIPs "ip list" bool | BothFailed string string | FallbackCtxEnded string

fun lookupIPWithTCPFallback ::
  "bool \<Rightarrow> string option \<Rightarrow> string option \<Rightarrow> fallback_event list \<Rightarrow> fallback_result option" where
  "lookupIPWithTCPFallback started ue te [] = None"
| "lookupIPWithTCPFallback started ue te (UdpResult (Inr ips) # evs) = Some (FallbackIPs ips False)"
| "lookupIPWithTCPFallback started ue te (UdpResult (Inl e) # evs) =
     (case te of Some t \<Rightarrow> Some (BothFailed e t) | None \<Rightarrow> lookupIPWithTCPFallback True (Some e) te evs)"
| "lookupIPWithTCPFallback started ue te (TcpResult (Inr ips) # evs) =
     (if started then Some (FallbackIPs ips (ue \<noteq> None)) else lookupIPWithTCPFallback started ue te evs)"
| "lookupIPWithTCPFallback started ue te (TcpResult (Inl e) # evs) =
     (if \<not> started then lookupIPWithTCPFallback started ue te evs
      else (case ue of Some u \<Rightarrow> Some (BothFailed u e) | None \<Rightarrow> lookupIPWithTCPFallback started ue (Some e) evs))"
| "lookupIPWithTCPFallback started ue te (FallbackTimer # evs) = lookupIPWithTCPFallback True ue te evs"
| "lookupIPWithTCPFallback started ue te (FallbackCtxDone e # evs) = Some (FallbackCtxEnded e)"

definition preferTCPTemporarily :: "resolver \<Rightarrow> resolver" where
  "preferTCPTemporarily r = r\<lparr>rUseTCP := True, rTimer := True\<rparr>"

definition tcp_preference_ends :: "resolver \<Rightarrow> resolver" where
  "tcp_preference_ends r = (if rTimer r then r\<lparr>rUseTCP := False, rTimer := False\<rparr> else r)"

definition cacheFirstIP :: "string \<Rightarrow> string + ip list \<Rightarrow> resolver \<Rightarrow> (resolve_error + ip) \<times> resolver" where
  "cacheFirstIP host res r =
     (case res of
        Inl e \<Rightarrow> (Inl (LookupFailed e), r)
      | Inr [] \<Rightarrow> (Inl (LookupFailed ''DNS lookup returned no addresses''), r)
      | Inr (x # _) \<Rightarrow> (Inr x, setDNSCache host x r))"

definition resolveRemote ::
  "string \<Rightarrow> string + ip list \<Rightarrow> fallback_event list \<Rightarrow> resolver \<Rightarrow> ((resolve_error + ip) \<times> resolver) option" where
  "resolveRemote host tcpAns evs r =
     (if rUseTCP r then Some (cacheFirstIP host tcpAns r)
      else (case lookupIPWithTCPFallback False None None evs of
              None \<Rightarrow> None
            | Some (BothFailed u t) \<Rightarrow> Some (Inl (LookupFailed (u @ t)), r)
            | Some (FallbackCtxEnded e) \<Rightarrow> Some (Inl (CtxEnded e), r)
            | Some (FallbackIPs ips udpFailed) \<Rightarrow>
                Some (cacheFirstIP host (Inr ips) (if udpFailed then preferTCPTemporarily r else r))))"


section \<open>Which address is chosen\<close>

lemma set_appendUniqueIPs: "set (appendUniqueIPs vs x) \<subseteq> insert x (set vs)"
  by (auto simp: appendUniqueIPs_def)

lemma set_foldl_append: "set (foldl appendUniqueIPs vs xs) \<subseteq> set vs \<union> set xs"
proof (induction xs arbitrary: vs)
  case (Cons x xs)
  then show ?case using set_appendUniqueIPs [of vs x] by fastforce
qed simp

lemma take_answers_Some: "take_answers pref cs xs = (cs', Some x) \<Longrightarrow> x \<in> set xs \<and> (\<exists>f. pref = Some f \<and> f x)"
  by (induction xs arbitrary: cs) (auto simp: Let_def split: if_splits option.splits)

lemma take_answers_None:
  "take_answers pref cs xs = (cs', None) \<Longrightarrow> set cs' \<subseteq> set cs \<union> set xs \<and> (\<forall>f. pref = Some f \<longrightarrow> (\<forall>x \<in> set xs. \<not> f x))"
proof (induction xs arbitrary: cs)
  case (Cons x xs)
  have "take_answers pref (appendUniqueIPs cs x) xs = (cs', None)" "\<forall>f. pref = Some f \<longrightarrow> \<not> f x"
    using Cons.prems by (auto simp: Let_def split: if_splits option.splits)
  then show ?case using Cons.IH [of "appendUniqueIPs cs x"] set_appendUniqueIPs [of cs x] by auto
qed simp

definition answered :: "lookup_event list \<Rightarrow> ip set" where
  "answered evs = {x. \<exists>src ips. Answer src (Inr ips) \<in> set evs \<and> x \<in> set ips}"

lemma answered_simps [simp]:
  "answered [] = {}" "answered (Answer src (Inr ips) # evs) = set ips \<union> answered evs"
  "answered (Answer src (Inl e) # evs) = answered evs" "answered (PreferenceTimer # evs) = answered evs"
  by (auto simp: answered_def)

lemma loop_candidates:
  "candidate_loop pref n cs sys pol evs = Some (Candidates ds)
   \<Longrightarrow> \<exists>k. set ds \<subseteq> set cs \<union> answered (take k evs)
      \<and> (\<forall>f. pref = Some f \<longrightarrow> (\<forall>x \<in> answered (take k evs). \<not> f x))"
proof (induction pref n cs sys pol evs rule: candidate_loop.induct)
  case (1 pref cs sys pol evs)
  then show ?case by (intro exI [of _ 0]) simp
next
  case (3 pref n cs sys pol src res evs)
  let ?sys = "sys \<or> src = ''system''" and ?pol = "pol \<or> src = ''policy-secondary''"
  show ?case
  proof (cases res)
    case (Inl e)
    show ?thesis
    proof (cases "cs \<noteq> [] \<and> ?sys \<and> ?pol")
      case True
      then show ?thesis using 3(3) Inl by (intro exI [of _ 0]) (simp add: Let_def)
    next
      case False
      then have "candidate_loop pref n cs ?sys ?pol evs = Some (Candidates ds)" using 3(3) Inl by (auto simp: Let_def split: if_splits)
      then obtain k where "set ds \<subseteq> set cs \<union> answered (take k evs)"
        "\<forall>f. pref = Some f \<longrightarrow> (\<forall>x \<in> answered (take k evs). \<not> f x)" using 3(1) [OF refl refl Inl] False by blast
      then show ?thesis using Inl by (intro exI [of _ "Suc k"]) simp
    qed
  next
    case (Inr ips)
    obtain cs' where t: "take_answers pref cs ips = (cs', None)"
      using 3(3) Inr by (cases "take_answers pref cs ips") (auto simp: Let_def split: option.splits)
    note tn = take_answers_None [OF t]
    show ?thesis
    proof (cases "cs' \<noteq> [] \<and> ?sys \<and> ?pol")
      case True
      then have "ds = cs'" using 3(3) Inr t by (simp add: Let_def)
      then show ?thesis using tn Inr by (intro exI [of _ 1]) auto
    next
      case False
      then have "candidate_loop pref n cs' ?sys ?pol evs = Some (Candidates ds)" using 3(3) Inr t by (auto simp: Let_def split: if_splits)
      then obtain k where "set ds \<subseteq> set cs' \<union> answered (take k evs)"
        "\<forall>f. pref = Some f \<longrightarrow> (\<forall>x \<in> answered (take k evs). \<not> f x)"
        using 3(2) [OF refl refl Inr t [symmetric] refl] False by blast
      then show ?thesis using Inr tn by (intro exI [of _ "Suc k"]) auto
    qed
  qed
next
  case (4 pref n cs sys pol evs)
  show ?case
  proof (cases "cs = []")
    case False
    then show ?thesis using 4(2) by (intro exI [of _ 0]) simp
  next
    case True
    then obtain k where "set ds \<subseteq> set cs \<union> answered (take k evs)"
      "\<forall>f. pref = Some f \<longrightarrow> (\<forall>x \<in> answered (take k evs). \<not> f x)" using 4 by auto
    then show ?thesis by (intro exI [of _ "Suc k"]) simp
  qed
qed simp_all

lemma loop_preferred:
  "candidate_loop pref n cs sys pol evs = Some (Preferred x)
   \<Longrightarrow> x \<in> answered evs \<and> (\<exists>f. pref = Some f \<and> f x)"
proof (induction pref n cs sys pol evs rule: candidate_loop.induct)
  case (3 pref n cs sys pol src res evs)
  show ?case
  proof (cases res)
    case (Inl e)
    then show ?thesis using 3(1) [OF refl refl Inl] 3(3) Inl by (simp add: Let_def split: if_splits)
  next
    case (Inr ips)
    obtain cs' y where t: "take_answers pref cs ips = (cs', y)" by fastforce
    show ?thesis
    proof (cases y)
      case None
      then show ?thesis using 3(2) [OF refl refl Inr t [symmetric] None] 3(3) Inr t None by (simp add: Let_def split: if_splits)
    next
      case (Some z)
      then show ?thesis using 3(3) Inr t take_answers_Some [of pref cs ips cs' z] by (auto simp: Let_def)
    qed
  qed
qed (auto split: if_splits)

lemma history_candidates: "set (foldl appendUniqueIPs [] h) \<subseteq> set h"
  using set_foldl_append [of "[]" h] by simp

lemma find_member: "find f xs = Some x \<Longrightarrow> x \<in> set xs"
  by (auto simp: find_Some_iff)

lemma find_None: "find f xs = None \<Longrightarrow> x \<in> set xs \<Longrightarrow> \<not> f x"
  by (auto simp: find_None_iff)

text \<open>The three ways to an address: the preferred one of the history, the preferred one of an answer, or
  the selected candidate.\<close>

definition host_history :: "resolver \<Rightarrow> string \<Rightarrow> ip list" where
  "host_history r host = (case rHistory r of None \<Rightarrow> [] | Some hist \<Rightarrow> hist host)"

definition host_loop :: "resolver \<Rightarrow> string \<Rightarrow> lookup_event list \<Rightarrow> loop_result option" where
  "host_loop r host evs =
     candidate_loop (rPreferred r) (pending_lookups r) (foldl appendUniqueIPs [] (host_history r host)) (\<not> rExternal r)
       (\<not> list_ex (\<lambda>s. s = ''policy-secondary'') (rSources r)) evs"

lemma resolve_candidates_loop:
  assumes "\<forall>f. rPreferred r = Some f \<longrightarrow> find f (host_history r host) = None"
  shows "resolve_candidates evs ctxErr host r =
    (case host_loop r host evs of
       None \<Rightarrow> None
     | Some (Preferred x) \<Rightarrow> Some (Inr x, setDNSCache host x r)
     | Some (LoopCtxEnded e) \<Rightarrow> Some (Inl (CtxEnded e), r)
     | Some (Candidates []) \<Rightarrow> Some (Inl (case ctxErr of Some e \<Rightarrow> CtxEnded e | None \<Rightarrow> AllSourcesFailed host), r)
     | Some (Candidates (c # cs)) \<Rightarrow>
         Some (Inr (select_candidate (rPreferred r) c cs), setDNSCache host (select_candidate (rPreferred r) c cs) r))"
proof -
  have "(case rPreferred r of None \<Rightarrow> None | Some f \<Rightarrow> find f (host_history r host)) = None"
    using assms by (cases "rPreferred r") simp_all
  then show ?thesis unfolding resolve_candidates_def Let_def host_history_def [symmetric] host_loop_def [symmetric] by simp
qed

lemma resolve_candidates_cases:
  assumes "resolve_candidates evs ctxErr host r = Some (Inr x, r')"
  obtains (history) f where "r' = setDNSCache host x r" "rPreferred r = Some f" "x \<in> set (host_history r host)" "f x"
  | (answer) "r' = setDNSCache host x r" "host_loop r host evs = Some (Preferred x)"
  | (candidate) c cs where "r' = setDNSCache host x r" "host_loop r host evs = Some (Candidates (c # cs))"
      "x = select_candidate (rPreferred r) c cs" "\<forall>f. rPreferred r = Some f \<longrightarrow> find f (host_history r host) = None"
proof (cases "\<exists>f y. rPreferred r = Some f \<and> find f (host_history r host) = Some y")
  case True
  then obtain f y where f: "rPreferred r = Some f" "find f (host_history r host) = Some y" by blast
  then have "resolve_candidates evs ctxErr host r = Some (Inr y, setDNSCache host y r)"
    by (simp add: resolve_candidates_def Let_def host_history_def)
  moreover have "y \<in> set (host_history r host)" "f y" using f(2) by (auto simp: find_Some_iff)
  ultimately show thesis using history f(1) assms by simp
next
  case False
  then have n: "\<forall>f. rPreferred r = Some f \<longrightarrow> find f (host_history r host) = None" by auto
  note rd = resolve_candidates_loop [OF n, of evs ctxErr]
  obtain lr where lr: "host_loop r host evs = Some lr" using assms rd by (cases "host_loop r host evs") auto
  show thesis
  proof (cases lr)
    case (Preferred y)
    then show thesis using answer assms lr unfolding rd lr by auto
  next
    case (LoopCtxEnded e)
    then show thesis using assms unfolding rd lr by simp
  next
    case (Candidates ds)
    then show thesis using candidate n lr assms unfolding rd lr by (cases ds) auto
  qed
qed

lemma select_candidate_in: "select_candidate pref c cs \<in> set (c # cs)"
  by (auto simp: select_candidate_def split: option.splits if_splits dest!: find_member)

lemma answered_take: "answered (take k evs) \<subseteq> answered evs"
  by (auto simp: answered_def dest: in_set_takeD)

text \<open>
  An address chosen from the candidates comes from the host's history or from an answer of a source;
  when the resource policy prefers some addresses, the chosen one is preferred, or neither the history
  nor any answer considered up to that moment held a preferred one. The chosen address is cached.
\<close>

lemma preferred_address_wins:
  assumes "resolve_candidates evs ctxErr host r = Some (Inr x, r')"
  defines "h \<equiv> (case rHistory r of None \<Rightarrow> [] | Some hist \<Rightarrow> hist host)"
  shows "x \<in> set h \<union> answered evs \<and> getDNSCache host r' = Some x
    \<and> (\<forall>f. rPreferred r = Some f \<longrightarrow>
         f x \<or> (\<exists>k. (\<forall>y \<in> set h \<union> answered (take k evs). \<not> f y) \<and> x \<in> set h \<union> answered (take k evs)))"
proof -
  have h: "h = host_history r host" by (simp add: h_def host_history_def)
  show ?thesis
    using assms(1)
  proof (cases rule: resolve_candidates_cases)
    case (history f)
    then show ?thesis by (simp add: h getDNSCache_def setDNSCache_def)
  next
    case answer
    then show ?thesis using loop_preferred [OF answer(2) [unfolded host_loop_def]]
      by (auto simp: getDNSCache_def setDNSCache_def)
  next
    case (candidate c cs)
    obtain k where k: "set (c # cs) \<subseteq> set (foldl appendUniqueIPs [] h) \<union> answered (take k evs)"
      "\<forall>f. rPreferred r = Some f \<longrightarrow> (\<forall>x \<in> answered (take k evs). \<not> f x)"
      using loop_candidates [OF candidate(2) [unfolded host_loop_def, folded h]] by blast
    have x: "x \<in> set h \<union> answered (take k evs)"
      using k(1) history_candidates [of h] select_candidate_in [of "rPreferred r" c cs] candidate(3) by blast
    have n: "\<forall>y \<in> set h. \<not> f y" if "rPreferred r = Some f" for f
      using candidate(4) that by (auto simp: h dest: find_None)
    have "getDNSCache host r' = Some x" using candidate(1) by (simp add: getDNSCache_def setDNSCache_def)
    then show ?thesis using x k(2) n answered_take [of k evs] by blast
  qed
qed

definition sample_resolver :: resolver where
  "sample_resolver = \<lparr>rIndex = newDomainResourceIndex [(''*.a.cn'', [])] empty_node, rDnsResource = Some [],
     rCursors = [], rUseRemote = True, rExternal = False, rSecondary = True, rSources = [], rHistory = None,
     rPreferred = Some (\<lambda>x. x = [10, 0, 0, 1]), rPolicySuffix = [], rCache = [],
     rPool = \<lparr>domainToIP = [], ipToDomain = [], minIP = 3323068416, maxIP = 3323133951, currentIP = 3323068418\<rparr>,
     rUseTCP = False, rTimer = False\<rparr>"

lemma preferred_address_wins_example:
  "\<exists>r'. resolve_candidates [Answer ''secondary'' (Inr [[8, 8, 8, 8], [10, 0, 0, 1]])] None ''x'' sample_resolver
     = Some (Inr [10, 0, 0, 1], r') \<and> getDNSCache ''x'' r' = Some [10, 0, 0, 1]"
proof -
  have "\<exists>r'. resolve_candidates [Answer ''secondary'' (Inr [[8, 8, 8, 8], [10, 0, 0, 1]])] None ''x'' sample_resolver
     = Some (Inr [10, 0, 0, 1], r')"
    by (simp add: resolve_candidates_def sample_resolver_def pending_lookups_def)
  then show ?thesis using preferred_address_wins by blast
qed

definition policy_ips :: "(string, ip list) gomap \<Rightarrow> string \<Rightarrow> ip list" where
  "policy_ips m host = (case mget m host of None \<Rightarrow> [] | Some xs \<Rightarrow> xs)"

text \<open>
  A name of the VPN's domains that is resolved for the network stack with fake addresses gets an
  address of the pool's range that the pool maps back to that name, and the name and its rules are left
  in the context for the dialer.
\<close>

lemma fake_ip_resolves_back:
  assumes "pool_exclusive (rPool r)" "rcFakeIP ctx" "rDnsResource r = Some m"
    and "host = normalizeHostname name" "domain_match (rIndex r) host = Some (d, rules)"
    and "getDNSCache host r = None" "policy_ips m host = []"
    and "Resolve evs ctxErr name ctx r = Some (ctx', res, r')"
  shows "\<exists>x. res = Inr x \<and> rcResolveHost ctx' = Some host \<and> rcDomainRules ctx' = Some rules
    \<and> (\<forall>u. ip_u32 x = Some u \<and> minIP (rPool r) \<le> u \<and> u \<le> maxIP (rPool r)
          \<longrightarrow> (\<exists>rs. GetDomain (rPool r') x = Some (host, rs)))"
proof -
  have p: "map_option snd (domain_match (rIndex r) host) = Some rules" using assms(5) by simp
  have "resolve_policy evs ctxErr host True (Some rules) r =
      (case GenerateIP (rPool r) host rules of None \<Rightarrow> None | Some (ip, q) \<Rightarrow> Some (Inr ip, r\<lparr>rPool := q\<rparr>))"
    using assms(3,7) by (auto simp: resolve_policy_def policy_ips_def split: option.splits list.splits)
  then obtain x q where g: "GenerateIP (rPool r) host rules = Some (x, q)"
    "res = Inr x" "r' = r\<lparr>rPool := q\<rparr>" "ctx' = ctx\<lparr>rcDomainRules := Some rules, rcResolveHost := Some host\<rparr>"
    using assms(2,4,6,8) p by (cases "GenerateIP (rPool r) host rules") (auto simp: Resolve_def Let_def)
  show ?thesis using GenerateIP_names [OF assms(1) g(1)] g by auto
qed

lemma fake_ip_resolves_back_example:
  "\<exists>ctx' x r'. Resolve [] None ''X.A.cn.'' \<lparr>rcFakeIP = True, rcDomainRules = None, rcResolveHost = None\<rparr> sample_resolver
      = Some (ctx', Inr x, r') \<and> rcResolveHost ctx' = Some ''x.a.cn''
      \<and> (\<exists>rs. GetDomain (rPool r') x = Some (''x.a.cn'', rs))"
proof -
  let ?c = "\<lparr>rcFakeIP = True, rcDomainRules = None, rcResolveHost = None\<rparr>"
  have e: "pool_exclusive (rPool sample_resolver)"
    by (rule NewIPPool_default_exclusive) (simp add: NewIPPool_default sample_resolver_def)
  have n: "''x.a.cn'' = normalizeHostname ''X.A.cn.''" by code_simp
  have d: "domain_match (rIndex sample_resolver) ''x.a.cn'' = Some (''*.a.cn'', [])"
    unfolding sample_resolver_def resolver.simps by code_simp
  have c: "getDNSCache ''x.a.cn'' sample_resolver = None" by (simp add: getDNSCache_def sample_resolver_def)
  have m: "rDnsResource sample_resolver = Some []" "policy_ips [] ''x.a.cn'' = []"
    by (simp_all add: sample_resolver_def policy_ips_def)
  obtain ctx' r' where R: "Resolve [] None ''X.A.cn.'' ?c sample_resolver
      = Some (ctx', Inr (uint32ToIP 3323068418), r')"
    unfolding Resolve_def Let_def n [symmetric] d
    by (simp add: c resolve_policy_def m) (simp add: sample_resolver_def GenerateIP_def Let_def)
  show ?thesis
    using fake_ip_resolves_back [OF e _ m(1) n d c m(2) R] R by (auto simp: sample_resolver_def)
qed


section \<open>Shared lookups\<close>

text \<open>
  \<open>resolveCoordinated\<close> joins concurrent lookups of one host. Calls are references; \<open>waiting\<close> holds a
  pair for every goroutine that waits for a call, \<open>runningCalls\<close> one for every lookup goroutine.
\<close>

record coordinator =
  resolutions :: "(string, nat) gomap"
  callWaiters :: "nat \<Rightarrow> int"
  callCancelled :: "nat set"
  callDone :: "nat set"
  resolutionClosed :: bool
  activeResolutions :: int
  waiting :: "(string \<times> nat) list"
  runningCalls :: "(string \<times> nat) list"
  nextCall :: nat

definition new_coordinator :: coordinator where
  "new_coordinator = \<lparr>resolutions = [], callWaiters = (\<lambda>_. 0), callCancelled = {}, callDone = {},
     resolutionClosed = False, activeResolutions = 0, waiting = [], runningCalls = [], nextCall = 0\<rparr>"

definition join_resolution :: "string \<Rightarrow> coordinator \<Rightarrow> coordinator option" where
  "join_resolution host c =
     (if resolutionClosed c then None
      else
        let (k, c) = (case mget (resolutions c) host of
               Some k \<Rightarrow> (k, c)
             | None \<Rightarrow> (nextCall c, c\<lparr>resolutions := mset host (nextCall c) (resolutions c),
                   callWaiters := (callWaiters c)(nextCall c := 0), activeResolutions := activeResolutions c + 1,
                   runningCalls := runningCalls c @ [(host, nextCall c)], nextCall := Suc (nextCall c)\<rparr>))
        in Some (c\<lparr>callWaiters := (callWaiters c)(k := callWaiters c k + 1), waiting := waiting c @ [(host, k)]\<rparr>))"

definition releaseResolutionWaiter :: "string \<Rightarrow> nat \<Rightarrow> coordinator \<Rightarrow> coordinator" where
  "releaseResolutionWaiter host k c =
     (if mget (resolutions c) host = Some k then
        let c = c\<lparr>callWaiters := (callWaiters c)(k := callWaiters c k - 1)\<rparr>
        in if callWaiters c k = 0
           then c\<lparr>resolutions := mdel host (resolutions c), callCancelled := insert k (callCancelled c)\<rparr>
           else c
      else c)"

definition leave_waiting :: "string \<Rightarrow> nat \<Rightarrow> coordinator \<Rightarrow> coordinator" where
  "leave_waiting host k c = c\<lparr>waiting := remove1 (host, k) (waiting c)\<rparr>"

definition finish_resolution :: "string \<Rightarrow> nat \<Rightarrow> coordinator \<Rightarrow> coordinator" where
  "finish_resolution host k c =
     (let c = (if mget (resolutions c) host = Some k then c\<lparr>resolutions := mdel host (resolutions c)\<rparr> else c)
      in c\<lparr>callCancelled := insert k (callCancelled c), activeResolutions := activeResolutions c - 1,
           callDone := insert k (callDone c), runningCalls := remove1 (host, k) (runningCalls c)\<rparr>)"

definition close_resolver :: "coordinator \<Rightarrow> coordinator" where
  "close_resolver c = c\<lparr>resolutionClosed := True, callCancelled := callCancelled c \<union> snd ` set (resolutions c),
     resolutions := []\<rparr>"

inductive coord_step :: "coordinator \<Rightarrow> coordinator \<Rightarrow> bool" where
  join: "join_resolution host c = Some d \<Longrightarrow> coord_step c d"
| give_up_waiting: "(host, k) \<in> set (waiting c) \<Longrightarrow> coord_step c (releaseResolutionWaiter host k (leave_waiting host k c))"
| finish: "(host, k) \<in> set (runningCalls c) \<Longrightarrow> coord_step c (finish_resolution host k c)"
| receive: "(host, k) \<in> set (waiting c) \<Longrightarrow> k \<in> callDone c \<Longrightarrow> coord_step c (leave_waiting host k c)"
| close_all: "coord_step c (close_resolver c)"

inductive coord_reachable :: "coordinator \<Rightarrow> bool" where
  coord_start: "coord_reachable new_coordinator"
| coord_next: "coord_reachable c \<Longrightarrow> coord_step c d \<Longrightarrow> coord_reachable d"

text \<open>A registered call is live: neither cancelled nor done, it runs, and its counter is the number of
  goroutines waiting for it. Who waits for a call that is neither done nor dropped by \<open>Close\<close> waits for a
  registered one. A call number belongs to one host.\<close>

definition registered_ok :: "coordinator \<Rightarrow> bool" where
  "registered_ok c \<longleftrightarrow> (\<forall>h k. mget (resolutions c) h = Some k \<longrightarrow> k \<notin> callCancelled c \<and> k \<notin> callDone c
     \<and> (h, k) \<in> set (runningCalls c) \<and> callWaiters c k = int (count_list (waiting c) (h, k)))"

definition waiting_ok :: "coordinator \<Rightarrow> bool" where
  "waiting_ok c \<longleftrightarrow> (\<forall>h k. (h, k) \<in> set (waiting c) \<longrightarrow> k < nextCall c
     \<and> (mget (resolutions c) h = Some k \<or> k \<in> callDone c \<or> resolutionClosed c))"

definition running_ok :: "coordinator \<Rightarrow> bool" where
  "running_ok c \<longleftrightarrow> (\<forall>h k. (h, k) \<in> set (runningCalls c) \<longrightarrow> k < nextCall c)
     \<and> distinct (map snd (runningCalls c)) \<and> activeResolutions c = int (length (runningCalls c))
     \<and> (\<forall>k \<in> callCancelled c \<union> callDone c. k < nextCall c)"

definition coord_inv :: "coordinator \<Rightarrow> bool" where
  "coord_inv c \<longleftrightarrow> map_ok (resolutions c) \<and> registered_ok c \<and> waiting_ok c \<and> running_ok c"

lemma coord_inv_new: "coord_inv new_coordinator"
  by (simp add: coord_inv_def registered_ok_def waiting_ok_def running_ok_def new_coordinator_def)

lemma count_list_remove1: "count_list (remove1 x xs) y = count_list xs y - (if x = y then 1 else 0)"
  by (induction xs) auto

lemma running_unique:
  "running_ok c \<Longrightarrow> (h, k) \<in> set (runningCalls c) \<Longrightarrow> (g, k) \<in> set (runningCalls c) \<Longrightarrow> g = h"
  using inj_onD [of snd "set (runningCalls c)" "(h, k)" "(g, k)"] by (simp add: running_ok_def distinct_map)

lemma registeredD:
  "coord_inv c \<Longrightarrow> mget (resolutions c) h = Some k \<Longrightarrow> k \<notin> callCancelled c \<and> k \<notin> callDone c
     \<and> (h, k) \<in> set (runningCalls c) \<and> callWaiters c k = int (count_list (waiting c) (h, k))"
  unfolding coord_inv_def registered_ok_def by blast

lemma waitingD:
  "coord_inv c \<Longrightarrow> (h, k) \<in> set (waiting c)
   \<Longrightarrow> k < nextCall c \<and> (mget (resolutions c) h = Some k \<or> k \<in> callDone c \<or> resolutionClosed c)"
  unfolding coord_inv_def waiting_ok_def by blast

lemma runningD: "coord_inv c \<Longrightarrow> (h, k) \<in> set (runningCalls c) \<Longrightarrow> k < nextCall c"
  unfolding coord_inv_def running_ok_def by blast

lemma waitingI:
  "(\<And>h k. (h, k) \<in> set (waiting c) \<Longrightarrow> k < nextCall c
     \<and> (mget (resolutions c) h = Some k \<or> k \<in> callDone c \<or> resolutionClosed c)) \<Longrightarrow> waiting_ok c"
  unfolding waiting_ok_def by blast

lemma registered_unique:
  "coord_inv c \<Longrightarrow> mget (resolutions c) h = Some k \<Longrightarrow> mget (resolutions c) g = Some k \<Longrightarrow> g = h"
  using running_unique [of c h k g] by (simp add: coord_inv_def registered_ok_def)

text \<open>The registration of a new call, and the arrival of a waiter at a registered one.\<close>

definition start_call :: "string \<Rightarrow> coordinator \<Rightarrow> coordinator" where
  "start_call host c = c\<lparr>resolutions := mset host (nextCall c) (resolutions c),
     callWaiters := (callWaiters c)(nextCall c := 0), activeResolutions := activeResolutions c + 1,
     runningCalls := runningCalls c @ [(host, nextCall c)], nextCall := Suc (nextCall c)\<rparr>"

definition add_waiter :: "string \<Rightarrow> nat \<Rightarrow> coordinator \<Rightarrow> coordinator" where
  "add_waiter host k c = c\<lparr>callWaiters := (callWaiters c)(k := callWaiters c k + 1), waiting := waiting c @ [(host, k)]\<rparr>"

lemma start_call_inv:
  assumes "coord_inv c" "mget (resolutions c) host = None"
  shows "coord_inv (start_call host c)"
proof -
  have w: "(h, k) \<in> set (waiting c) \<Longrightarrow> k < nextCall c" for h k
    using assms(1) by (simp add: coord_inv_def waiting_ok_def)
  have r: "(h, k) \<in> set (runningCalls c) \<Longrightarrow> k < nextCall c" for h k
    using assms(1) by (simp add: coord_inv_def running_ok_def)
  have n: "nextCall c \<notin> callCancelled c" "nextCall c \<notin> callDone c"
    using assms(1) by (auto simp: coord_inv_def running_ok_def)
  have z: "count_list (waiting c) (host, nextCall c) = 0" using w by (auto simp: count_list_0_iff)
  have "registered_ok (start_call host c)"
    unfolding registered_ok_def
  proof (intro allI impI)
    fix h k assume m: "mget (resolutions (start_call host c)) h = Some k"
    show "k \<notin> callCancelled (start_call host c) \<and> k \<notin> callDone (start_call host c)
        \<and> (h, k) \<in> set (runningCalls (start_call host c))
        \<and> callWaiters (start_call host c) k = int (count_list (waiting (start_call host c)) (h, k))"
    proof (cases "h = host")
      case True
      then show ?thesis using m n z by (simp add: start_call_def)
    next
      case False
      then have "mget (resolutions c) h = Some k" using m by (simp add: start_call_def)
      then have q: "k \<notin> callCancelled c \<and> k \<notin> callDone c \<and> (h, k) \<in> set (runningCalls c)
          \<and> callWaiters c k = int (count_list (waiting c) (h, k))"
        using assms(1) by (simp add: coord_inv_def registered_ok_def)
      then show ?thesis using r [of h k] by (auto simp: start_call_def)
    qed
  qed
  moreover have "waiting_ok (start_call host c)"
  proof (rule waitingI)
    fix h k assume "(h, k) \<in> set (waiting (start_call host c))"
    then have "(h, k) \<in> set (waiting c)" by (simp add: start_call_def)
    from waitingD [OF assms(1) this] assms(2)
    show "k < nextCall (start_call host c) \<and> (mget (resolutions (start_call host c)) h = Some k
        \<or> k \<in> callDone (start_call host c) \<or> resolutionClosed (start_call host c))"
      by (auto simp: start_call_def)
  qed
  moreover have "running_ok (start_call host c)"
  proof -
    have "nextCall c \<notin> snd ` set (runningCalls c)" using r by fastforce
    then show ?thesis using assms(1) by (auto simp: coord_inv_def running_ok_def start_call_def intro: less_SucI)
  qed
  ultimately show ?thesis using assms(1) by (simp add: coord_inv_def) (simp add: start_call_def)
qed

lemma add_waiter_inv:
  assumes "coord_inv c" "mget (resolutions c) host = Some k"
  shows "coord_inv (add_waiter host k c)"
proof -
  have "k < nextCall c" using runningD [OF assms(1)] registeredD [OF assms] by blast
  have "waiting_ok (add_waiter host k c)"
  proof (rule waitingI)
    fix h j assume "(h, j) \<in> set (waiting (add_waiter host k c))"
    then have "(h, j) = (host, k) \<or> (h, j) \<in> set (waiting c)" by (auto simp: add_waiter_def)
    then show "j < nextCall (add_waiter host k c) \<and> (mget (resolutions (add_waiter host k c)) h = Some j
        \<or> j \<in> callDone (add_waiter host k c) \<or> resolutionClosed (add_waiter host k c))"
      using waitingD [OF assms(1), of h j] assms(2) \<open>k < nextCall c\<close> by (auto simp: add_waiter_def)
  qed
  moreover have "registered_ok (add_waiter host k c)"
    unfolding registered_ok_def
  proof (intro allI impI)
    fix h j assume "mget (resolutions (add_waiter host k c)) h = Some j"
    then have m: "mget (resolutions c) h = Some j" by (simp add: add_waiter_def)
    have "j = k \<longleftrightarrow> h = host" using registered_unique [OF assms, of h] m assms(2) by auto
    then show "j \<notin> callCancelled (add_waiter host k c) \<and> j \<notin> callDone (add_waiter host k c)
        \<and> (h, j) \<in> set (runningCalls (add_waiter host k c))
        \<and> callWaiters (add_waiter host k c) j = int (count_list (waiting (add_waiter host k c)) (h, j))"
      using registeredD [OF assms(1) m] by (auto simp: add_waiter_def)
  qed
  moreover have "running_ok (add_waiter host k c)"
    using assms(1) by (simp add: coord_inv_def running_ok_def add_waiter_def)
  ultimately show ?thesis using assms(1) by (simp add: coord_inv_def) (simp add: add_waiter_def)
qed

lemma join_inv: "coord_inv c \<Longrightarrow> join_resolution host c = Some d \<Longrightarrow> coord_inv d"
  using start_call_inv [of c host] add_waiter_inv [of c host] add_waiter_inv [of "start_call host c" host "nextCall c"]
  by (auto simp: join_resolution_def start_call_def add_waiter_def split: if_splits option.splits)

lemma receive_inv:
  assumes "coord_inv c" "k \<in> callDone c"
  shows "coord_inv (leave_waiting host k c)"
proof -
  have "registered_ok (leave_waiting host k c)"
    using assms by (auto simp: coord_inv_def registered_ok_def leave_waiting_def count_list_remove1)
  moreover have "waiting_ok (leave_waiting host k c)"
    using assms(1) notin_set_remove1 by (fastforce simp: coord_inv_def waiting_ok_def leave_waiting_def)
  ultimately show ?thesis using assms(1)
    by (simp add: coord_inv_def) (simp add: running_ok_def leave_waiting_def)
qed

lemma release_inv:
  assumes "coord_inv c" "(host, k) \<in> set (waiting c)"
  shows "coord_inv (releaseResolutionWaiter host k (leave_waiting host k c))"
proof (cases "mget (resolutions c) host = Some k")
  case False
  have "registered_ok (leave_waiting host k c)"
    using assms(1) False by (auto simp: coord_inv_def registered_ok_def leave_waiting_def count_list_remove1)
  moreover have "waiting_ok (leave_waiting host k c)"
    using assms(1) notin_set_remove1 by (fastforce simp: coord_inv_def waiting_ok_def leave_waiting_def)
  ultimately have "coord_inv (leave_waiting host k c)" using assms(1)
    by (simp add: coord_inv_def) (simp add: running_ok_def leave_waiting_def)
  then show ?thesis using False by (simp add: releaseResolutionWaiter_def leave_waiting_def)
next
  case True
  note u = registered_unique [OF assms(1) True]
  have cnt: "callWaiters c k = int (count_list (waiting c) (host, k))" "0 < count_list (waiting c) (host, k)"
    "k \<notin> callDone c" "(host, k) \<in> set (runningCalls c)"
    using registeredD [OF assms(1) True] assms(2) count_list_0_iff [of "waiting c" "(host, k)"] by auto
  let ?c1 = "c\<lparr>waiting := remove1 (host, k) (waiting c), callWaiters := (callWaiters c)(k := callWaiters c k - 1)\<rparr>"
  have i1: "coord_inv ?c1"
  proof -
    have "registered_ok ?c1" using assms(1) cnt u
      by (auto simp: coord_inv_def registered_ok_def count_list_remove1)
    moreover have "waiting_ok ?c1"
      using assms(1) notin_set_remove1 by (fastforce simp: coord_inv_def waiting_ok_def)
    ultimately show ?thesis using assms(1) by (simp add: coord_inv_def) (simp add: running_ok_def)
  qed
  have step: "releaseResolutionWaiter host k (leave_waiting host k c) =
      (if callWaiters c k - 1 = 0
       then ?c1\<lparr>resolutions := mdel host (resolutions c), callCancelled := insert k (callCancelled c)\<rparr> else ?c1)"
    using True by (simp add: releaseResolutionWaiter_def leave_waiting_def Let_def)
  show ?thesis
  proof (cases "callWaiters c k - 1 = 0")
    case False
    then show ?thesis using i1 step by simp
  next
    case zero: True
    let ?d = "?c1\<lparr>resolutions := mdel host (resolutions c), callCancelled := insert k (callCancelled c)\<rparr>"
    have none: "(host, k) \<notin> set (remove1 (host, k) (waiting c))"
    proof -
      have "count_list (remove1 (host, k) (waiting c)) (host, k) = 0" using zero cnt(1) by (simp add: count_list_remove1)
      then show ?thesis by (metis count_list_0_iff)
    qed
    have "registered_ok ?d"
      using i1 u by (auto simp: coord_inv_def registered_ok_def)
    moreover have "waiting_ok ?d"
    proof (rule waitingI)
      fix h j assume w: "(h, j) \<in> set (waiting ?d)"
      then have "(h, j) \<noteq> (host, k)" using none by auto
      then show "j < nextCall ?d \<and> (mget (resolutions ?d) h = Some j \<or> j \<in> callDone ?d \<or> resolutionClosed ?d)"
        using waitingD [OF i1, of h j] w True by (cases "h = host") auto
    qed
    moreover have "running_ok ?d" using i1 cnt(4) by (auto simp: coord_inv_def running_ok_def)
    ultimately have "coord_inv ?d" using i1 by (simp add: coord_inv_def)
    then show ?thesis using zero step by simp
  qed
qed

lemma finish_inv:
  assumes "coord_inv c" "(host, k) \<in> set (runningCalls c)"
  shows "coord_inv (finish_resolution host k c)"
proof -
  let ?d = "finish_resolution host k c"
  have un: "(g, k) \<in> set (runningCalls c) \<Longrightarrow> g = host" for g
    using running_unique [of c host k g] assms by (simp add: coord_inv_def)
  have lt: "k < nextCall c" using assms by (auto simp: coord_inv_def running_ok_def)
  have res: "mget (resolutions ?d) g = Some j \<longleftrightarrow> mget (resolutions c) g = Some j \<and> j \<noteq> k" for g j
  proof -
    have n: "mget (resolutions c) g \<noteq> Some k" if "g \<noteq> host"
      using un [of g] registeredD [OF assms(1), of g k] that by blast
    show ?thesis
    proof (cases "g = host")
      case True
      then show ?thesis by (auto simp: finish_resolution_def Let_def)
    next
      case False
      then show ?thesis using n [OF False] by (auto simp: finish_resolution_def Let_def)
    qed
  qed
  have "registered_ok ?d"
    unfolding registered_ok_def
  proof (intro allI impI)
    fix g j assume "mget (resolutions ?d) g = Some j"
    then have "mget (resolutions c) g = Some j" "j \<noteq> k" by (simp_all add: res)
    then show "j \<notin> callCancelled ?d \<and> j \<notin> callDone ?d \<and> (g, j) \<in> set (runningCalls ?d)
        \<and> callWaiters ?d j = int (count_list (waiting ?d) (g, j))"
      using assms(1) by (auto simp: coord_inv_def registered_ok_def finish_resolution_def Let_def)
  qed
  moreover have "waiting_ok ?d"
    unfolding waiting_ok_def res
    using assms(1) by (auto simp: coord_inv_def waiting_ok_def finish_resolution_def Let_def)
  moreover have "running_ok ?d"
  proof -
    have f: "runningCalls ?d = remove1 (host, k) (runningCalls c)" "callCancelled ?d = insert k (callCancelled c)"
      "callDone ?d = insert k (callDone c)" "activeResolutions ?d = activeResolutions c - 1" "nextCall ?d = nextCall c"
      by (simp_all add: finish_resolution_def Let_def)
    have d: "distinct (map snd (remove1 (host, k) (runningCalls c)))"
      using assms(1) by (auto simp: coord_inv_def running_ok_def distinct_map intro: inj_on_subset dest: notin_set_remove1)
    obtain n where n: "length (runningCalls c) = Suc n" using assms(2) by (cases "runningCalls c") auto
    have l: "activeResolutions c - 1 = int (length (remove1 (host, k) (runningCalls c)))"
      using assms n by (simp add: length_remove1 coord_inv_def running_ok_def)
    have r: "\<forall>h j. (h, j) \<in> set (remove1 (host, k) (runningCalls c)) \<longrightarrow> j < nextCall c"
      using runningD [OF assms(1)] notin_set_remove1 by fast
    have cd: "\<forall>j \<in> insert k (callCancelled c) \<union> insert k (callDone c). j < nextCall c"
      using assms(1) lt unfolding coord_inv_def running_ok_def by blast
    show ?thesis unfolding running_ok_def f using r d l cd by (intro conjI)
  qed
  ultimately show ?thesis using assms(1) by (simp add: coord_inv_def) (simp add: finish_resolution_def Let_def)
qed

lemma close_inv: "coord_inv c \<Longrightarrow> coord_inv (close_resolver c)"
proof -
  assume i: "coord_inv c"
  have "k < nextCall c" if "(h, k) \<in> set (resolutions c)" for h k
    using i that by (auto simp: coord_inv_def registered_ok_def running_ok_def map_ok_in_iff)
  then show ?thesis using i
    by (auto simp: coord_inv_def registered_ok_def waiting_ok_def running_ok_def close_resolver_def)
qed

lemma coord_step_inv: "coord_step c d \<Longrightarrow> coord_inv c \<Longrightarrow> coord_inv d"
  by (cases rule: coord_step.cases, assumption)
    (auto intro: join_inv release_inv finish_inv receive_inv close_inv)

lemma coord_reachable_inv: "coord_reachable c \<Longrightarrow> coord_inv c"
  by (induction rule: coord_reachable.induct) (auto intro: coord_inv_new coord_step_inv)

text \<open>
  C24: lookups of one host are shared: at most one registered call per host, its counter is the number of
  goroutines waiting for it, and as long as the resolver is open no lookup is cancelled while somebody
  still waits for its result. The statistics counter is the number of running lookups.
\<close>

theorem shared_lookup_stays_alive:
  assumes "coord_reachable c"
  shows "(\<forall>h k. mget (resolutions c) h = Some k \<longrightarrow> (h, k) \<in> set (runningCalls c)
        \<and> callWaiters c k = int (count_list (waiting c) (h, k)))
    \<and> (\<forall>h k. (h, k) \<in> set (waiting c) \<and> k \<notin> callDone c \<and> \<not> resolutionClosed c \<longrightarrow> k \<notin> callCancelled c)
    \<and> activeResolutions c = int (length (runningCalls c))"
  using coord_reachable_inv [OF assms]
  by (auto simp: coord_inv_def registered_ok_def waiting_ok_def running_ok_def)

theorem shared_lookup_stays_alive_witness:
  "\<exists>c. coord_reachable c \<and> waiting c = [(''h'', 0), (''h'', 0)] \<and> 0 \<notin> callCancelled c"
proof -
  obtain c d where c: "join_resolution ''h'' new_coordinator = Some c" and d: "join_resolution ''h'' c = Some d"
    "waiting d = [(''h'', 0), (''h'', 0)]" "callDone d = {}" "\<not> resolutionClosed d"
    by (auto simp: join_resolution_def new_coordinator_def)
  have "coord_reachable d"
    using coord_reachable.intros coord_step.join c d(1) by blast
  then show ?thesis using shared_lookup_stays_alive [of d] d by auto
qed

end
