(* ===== verification/Dialer.thy ===== *)
theory Dialer
  imports Resolver TcpTunnel
begin

text \<open>
  The dialer (\<open>dial/dialer.go\<close>, \<open>dialer_proxy.go\<close>) and the \<open>DialTCP\<close> methods of the stacks: which
  connections go to the VPN, which go out directly or through the configured proxy, and the proxy
  handshakes. The operating system's dialer, the packages for HTTP responses and for SOCKS messages and
  the user-space TCP stack are parameters.
\<close>

section \<open>The dialer and what it reads from the context\<close>

record dialer =
  ipResources :: "IPResource list option"
  dlResourceIndex :: node
  alwaysUseVPN :: bool
  dialDirectHTTPProxy :: string
  dialDirectSocksProxy :: string

text \<open>The context value of \<open>ContextKeyDomainResource\<close> is the list the resolver found or the single rule
  a dialer chose.\<close>

datatype domain_value = DomainRules "DomainResource list" | DomainRule DomainResource

record dial_values =
  vDomain :: "domain_value option"
  vIP :: "IPResource option"
  vHost :: "string option"
  vFakeIP :: bool
  vIgnorePref :: bool

definition NewDialer :: "IPResource list option \<Rightarrow> bool \<Rightarrow> string \<Rightarrow> dialer" where
  "NewDialer rs always directProxy =
     \<lparr>ipResources = rs, dlResourceIndex = New (case rs of None \<Rightarrow> [] | Some rs \<Rightarrow> rs), alwaysUseVPN = always,
      dialDirectHTTPProxy = (if has_prefix directProxy ''http://'' then trim_prefix directProxy ''http://'' else []),
      dialDirectSocksProxy =
        (if \<not> has_prefix directProxy ''http://'' \<and> has_prefix directProxy ''socks://''
         then trim_prefix directProxy ''socks://'' else [])\<rparr>"

definition DirectProxyAddress :: "dialer \<Rightarrow> string" where
  "DirectProxyAddress d =
     (if dialDirectHTTPProxy d \<noteq> [] then ''http://'' @ dialDirectHTTPProxy d
      else if dialDirectSocksProxy d \<noteq> [] then ''socks5://'' @ dialDirectSocksProxy d
      else [])"

definition matchDomainResourceForTunnel :: "DomainResource list \<Rightarrow> string \<Rightarrow> int \<Rightarrow> DomainResource option" where
  "matchDomainResourceForTunnel rs network port =
     (case (if network = ''tcp'' then MatchDomainResourceWhere rs network port (Some (\<lambda>r. \<not> EnableTCPPrefL3 r))
            else None) of
        Some r \<Rightarrow> Some r
      | None \<Rightarrow> MatchDomainResource rs network port)"

definition matchIPResourceForTunnel :: "node \<Rightarrow> ip \<Rightarrow> string \<Rightarrow> int \<Rightarrow> IPResource option" where
  "matchIPResourceForTunnel index x network port =
     (case (if network = ''tcp'' then MatchWhere index x network port (\<lambda>r. \<not> EnableTCPPrefL3 r) else None) of
        Some r \<Rightarrow> Some r
      | None \<Rightarrow> Match index x network port)"

definition matchesIPResource :: "node \<Rightarrow> ip \<Rightarrow> string \<Rightarrow> int \<Rightarrow> bool" where
  "matchesIPResource index x network port \<longleftrightarrow> matchIPResourceForTunnel index x network port \<noteq> None"


section \<open>Routing\<close>

text \<open>The call a dial ends in: the operating system's dialer, a proxy (\<open>isIP\<close> says the address is numeric),
  or the VPN stack with the context it is given.\<close>

datatype dial_call =
    CallDirect string string
  | CallHTTPProxy string
  | CallSocksProxy string string bool
  | CallStackTCP dial_values ip int
  | CallStackUDP dial_values ip int

datatype dial_error =
    DInvalidAddress string
  | DInvalidPort string
  | DACLDenied
  | DFailed string
  | DHeaderTooLong
  | DProxyRead
  | DProxyParse string
  | DProxyStatus string
  | DSocksMethod
  | DSocksAddress string
  | DSocksPort string
  | DSocksConnect
  | DShortWrite

definition dialDirectIP :: "dialer \<Rightarrow> string \<Rightarrow> string \<Rightarrow> string \<Rightarrow> dial_call" where
  "dialDirectIP d network ipAddr hostAddr =
     (if dialDirectHTTPProxy d \<noteq> [] \<and> network = ''tcp'' then
        CallHTTPProxy (if hostAddr \<noteq> [] then hostAddr else ipAddr)
      else if dialDirectSocksProxy d \<noteq> [] \<and> network = ''tcp'' then
        (if hostAddr \<noteq> [] then CallSocksProxy network hostAddr False else CallSocksProxy network ipAddr True)
      else CallDirect network ipAddr)"

definition dialDirectHost :: "dialer \<Rightarrow> string \<Rightarrow> string \<Rightarrow> dial_call" where
  "dialDirectHost d network hostAddr =
     (if dialDirectHTTPProxy d \<noteq> [] \<and> network = ''tcp'' then CallHTTPProxy hostAddr
      else if dialDirectSocksProxy d \<noteq> [] \<and> network = ''tcp'' then CallSocksProxy network hostAddr False
      else CallDirect network hostAddr)"

text \<open>The two rule lookups of \<open>DialIPPort\<close>: the context the stack will see, and whether a rule matched.\<close>

definition match_rules :: "dialer \<Rightarrow> dial_values \<Rightarrow> string \<Rightarrow> ip \<Rightarrow> int \<Rightarrow> dial_values \<times> bool" where
  "match_rules d ctx network x port =
     (let (ctx, matched) =
            (case vDomain ctx of
               None \<Rightarrow> (ctx, False)
             | Some v \<Rightarrow>
                 (case matchDomainResourceForTunnel
                         (case v of DomainRules rs \<Rightarrow> rs | DomainRule r \<Rightarrow> [r]) network port of
                    Some r \<Rightarrow> (ctx\<lparr>vDomain := Some (DomainRule r)\<rparr>, True)
                  | None \<Rightarrow> (ctx, False)))
      in if \<not> matched \<and> ipResources d \<noteq> None then
           (case matchIPResourceForTunnel (dlResourceIndex d) x network port of
              Some r \<Rightarrow> (ctx\<lparr>vIP := Some r\<rparr>, True)
            | None \<Rightarrow> (ctx, False))
         else (ctx, matched))"

text \<open>The decision of \<open>DialIPPort\<close>, up to the call it ends in.\<close>

definition route_ip_port :: "dialer \<Rightarrow> dial_values \<Rightarrow> string \<Rightarrow> string \<Rightarrow> dial_error + dial_call" where
  "route_ip_port d ctx network ipAddr =
     (let parts = split_on (CHR '':'') ipAddr;
          hostAddr = (case vHost ctx of None \<Rightarrow> [] | Some h \<Rightarrow> h);
          hostAddr = (if 2 \<le> length parts then hostAddr @ '':'' @ last parts else hostAddr)
      in if 2 < length parts then Inr (dialDirectIP d network ipAddr hostAddr)
         else (case split_host_port ipAddr of
             None \<Rightarrow> Inl (DInvalidAddress ipAddr)
           | Some (host, portStr) \<Rightarrow>
               (case atoi portStr of
                  None \<Rightarrow> Inl (DInvalidPort ipAddr)
                | Some port \<Rightarrow>
                    (let x = parse_ip host
                     in if x = [] then Inr (dialDirectIP d network ipAddr hostAddr)
                        else (let (ctx, matched) = match_rules d ctx network x port;
                                  useVPN = (alwaysUseVPN d \<or> matched)
                              in if useVPN \<and> \<not> matched \<and> ipResources d \<noteq> None then Inl DACLDenied
                                 else if useVPN then
                                   (if network = ''tcp'' then Inr (CallStackTCP ctx x port)
                                    else if network = ''udp'' then Inr (CallStackUDP ctx x port)
                                    else Inr (dialDirectIP d network ipAddr hostAddr))
                                 else Inr (dialDirectIP d network ipAddr hostAddr))))))"


section \<open>The proxies\<close>

text \<open>A network connection during a handshake: the bytes the peer will have sent, the bytes written,
  what a write of the given bytes does, and whether setting a deadline fails.\<close>

record net_conn =
  ncIn :: bytes
  ncOut :: bytes
  ncClosed :: bool
  ncAccept :: "bytes \<Rightarrow> nat \<times> string option"
  ncDeadline :: "int option"
  ncSetDeadline :: "int option \<Rightarrow> string option"

text \<open>\<open>bufio.Reader.ReadSlice\<close> on a buffer of 4096 bytes: the bytes up to the delimiter, a full buffer
  without one, or what is left before the input ends.\<close>

datatype slice_end = SliceDelim | SliceFull | SliceEOF

definition ReadSlice :: "byte \<Rightarrow> bytes \<Rightarrow> slice_end \<times> bytes \<times> bytes" where
  "ReadSlice delim r =
     (let n = length (takeWhile (\<lambda>b. b \<noteq> delim) r)
      in if n < length r \<and> n < 4096 then (SliceDelim, take (Suc n) r, drop (Suc n) r)
         else if 4096 \<le> length r then (SliceFull, take 4096 r, drop 4096 r)
         else (SliceEOF, r, []))"

definition maxHTTPProxyResponseHeader :: nat where
  "maxHTTPProxyResponseHeader = 64 * 1024"

definition header_end :: bytes where
  "header_end = [13, 10, 13, 10]"

definition ends_with :: "bytes \<Rightarrow> bytes \<Rightarrow> bool" where
  "ends_with xs suffix \<longleftrightarrow> length suffix \<le> length xs \<and> drop (length xs - length suffix) xs = suffix"

text \<open>The loop that collects the response header.\<close>

function read_header :: "bytes \<Rightarrow> bytes \<Rightarrow> dial_error + bytes \<times> bytes" where
  "read_header header r =
     (case ReadSlice 10 r of
        (e, fragment, r') \<Rightarrow>
          if maxHTTPProxyResponseHeader < length header + length fragment then Inl DHeaderTooLong
          else if ends_with (header @ fragment) header_end then Inr (header @ fragment, r')
          else if e = SliceEOF then Inl DProxyRead
          else read_header (header @ fragment) r')"
  by pat_completeness auto
termination
  by (relation "measure (\<lambda>(header, r). length r)") (auto simp: ReadSlice_def Let_def split: if_splits)

declare read_header.simps [simp del]

definition readHTTPProxyConnectResponse ::
  "(bytes \<Rightarrow> string + nat \<times> string) \<Rightarrow> bytes \<Rightarrow> dial_error + bytes" where
  "readHTTPProxyConnectResponse parse r =
     and_then (read_header [] r) (\<lambda>(header, r).
       case parse header of
         Inl e \<Rightarrow> Inl (DProxyParse e)
       | Inr (code, st) \<Rightarrow> if code \<noteq> 200 then Inl (DProxyStatus st) else Inr r)"


datatype socks_addr = SocksIPv4 ip int | SocksIPv6 ip int | SocksDomain string int

text \<open>What the dialer calls: the operating system's dialer, the VPN stack, the success recorder, the
  HTTP response parser, the SOCKS messages, and the state of the clock and the caller's context.\<close>

record dialer_env =
  deGo :: "string \<Rightarrow> string \<Rightarrow> string + net_conn"
  deStackTCP :: "dial_values \<Rightarrow> ip \<Rightarrow> int \<Rightarrow> string + net_conn"
  deStackUDP :: "dial_values \<Rightarrow> ip \<Rightarrow> int \<Rightarrow> string + net_conn"
  deRecorder :: bool
  deParse :: "bytes \<Rightarrow> string + nat \<times> string"
  deMethodRequest :: bytes
  deMethodReply :: "bytes \<Rightarrow> string + (byte \<times> byte) \<times> bytes"
  deRequest :: "byte \<Rightarrow> socks_addr \<Rightarrow> bytes"
  deReply :: "bytes \<Rightarrow> string + (byte \<times> byte) \<times> bytes"
  deNow :: int
  deCtxDeadline :: "int option"
  deCtxErr :: "string option"

definition httpProxyHandshakeTimeout :: int where
  "httpProxyHandshakeTimeout = 10 * 1000000000"

definition conn_write :: "bytes \<Rightarrow> net_conn \<Rightarrow> (nat \<times> string option) \<times> net_conn" where
  "conn_write b c = (let (n, err) = ncAccept c b in ((n, err), c\<lparr>ncOut := ncOut c @ take n b\<rparr>))"

definition connect_request :: "string \<Rightarrow> bytes" where
  "connect_request usedAddr =
     ascii_bytes (''CONNECT '' @ usedAddr @ '' HTTP/1.1'') @ [13, 10]
     @ ascii_bytes (''Host: '' @ usedAddr) @ header_end"

definition proxy_deadline :: "dialer_env \<Rightarrow> int" where
  "proxy_deadline env =
     (let deadline = deNow env + httpProxyHandshakeTimeout
      in case deCtxDeadline env of Some t \<Rightarrow> if t < deadline then t else deadline | None \<Rightarrow> deadline)"

definition http_handshake :: "dialer_env \<Rightarrow> string \<Rightarrow> net_conn \<Rightarrow> (dial_error + unit) \<times> net_conn" where
  "http_handshake env usedAddr c =
     (case ncSetDeadline c (Some (proxy_deadline env)) of
           Some e \<Rightarrow> (Inl (DFailed e), c)
         | None \<Rightarrow>
             (let ((n, err), c) =
                    conn_write (connect_request usedAddr) (c\<lparr>ncDeadline := Some (proxy_deadline env)\<rparr>)
              in case err of
                   Some e \<Rightarrow> (Inl (DFailed e), c)
                 | None \<Rightarrow>
                     if n \<noteq> length (connect_request usedAddr) then (Inl DShortWrite, c)
                     else (case readHTTPProxyConnectResponse (deParse env) (ncIn c) of
                         Inl e \<Rightarrow> (Inl e, c)
                       | Inr rest \<Rightarrow>
                           (case deCtxErr env of
                              Some e \<Rightarrow> (Inl (DFailed e), c\<lparr>ncIn := rest\<rparr>)
                            | None \<Rightarrow>
                                (case ncSetDeadline c None of
                                   Some e \<Rightarrow> (Inl (DFailed e), c\<lparr>ncIn := rest\<rparr>)
                                 | None \<Rightarrow> (Inr (), c\<lparr>ncIn := rest, ncDeadline := None\<rparr>))))))"

text \<open>The result of a dial, and the connection it opened and does not return, as it was left.\<close>

definition dialDirectWithHTTPProxy ::
  "dialer_env \<Rightarrow> dialer \<Rightarrow> string \<Rightarrow> (dial_error + net_conn) \<times> net_conn option" where
  "dialDirectWithHTTPProxy env d usedAddr =
     (case deGo env ''tcp'' (dialDirectHTTPProxy d) of
        Inl e \<Rightarrow> (Inl (DFailed e), None)
      | Inr c \<Rightarrow>
          (case http_handshake env usedAddr c of
             (Inl e, c) \<Rightarrow> (Inl e, Some (c\<lparr>ncClosed := True\<rparr>))
           | (Inr _, c) \<Rightarrow> (Inr c, None)))"

definition socks_dst :: "string \<Rightarrow> bool \<Rightarrow> dial_error + socks_addr" where
  "socks_dst usedAddr isIP =
     (let parts = split_on (CHR '':'') usedAddr;
          port = atoi (last parts);
          with_port = (\<lambda>f. case port of None \<Rightarrow> Inl (DSocksPort usedAddr) | Some p \<Rightarrow> Inr (f p))
      in if isIP then
           (if 2 < length parts then
              (let x = parse_ip (trim_suffix usedAddr ('':'' @ last parts))
               in if x = [] then Inl (DSocksAddress usedAddr) else with_port (SocksIPv6 x))
            else if length parts = 2 then
              (let x = parse_ip (parts ! 0)
               in if x = [] then Inl (DSocksAddress usedAddr) else with_port (SocksIPv4 x))
            else Inl (DSocksAddress usedAddr))
         else if length parts = 2 then with_port (SocksDomain (parts ! 0))
         else Inl (DSocksAddress usedAddr))"

definition socks_handshake ::
  "dialer_env \<Rightarrow> string \<Rightarrow> string \<Rightarrow> bool \<Rightarrow> net_conn \<Rightarrow> (dial_error + unit) \<times> net_conn" where
  "socks_handshake env network usedAddr isIP c =
     (let ((_, err), c) = conn_write (deMethodRequest env) c
      in case err of
           Some e \<Rightarrow> (Inl (DFailed e), c)
         | None \<Rightarrow>
             (case deMethodReply env (ncIn c) of
                Inl e \<Rightarrow> (Inl DSocksMethod, c)
              | Inr ((ver, meth), rest) \<Rightarrow>
                  (let c = c\<lparr>ncIn := rest\<rparr>
                   in if meth \<noteq> 0 \<or> ver \<noteq> 5 then (Inl DSocksMethod, c)
                      else (case socks_dst usedAddr isIP of
                          Inl e \<Rightarrow> (Inl e, c)
                        | Inr dst \<Rightarrow>
                            (let ((_, err), c) = conn_write (deRequest env (if network = ''tcp'' then 1 else 3) dst) c
                             in case err of
                                  Some e \<Rightarrow> (Inl (DFailed e), c)
                                | None \<Rightarrow>
                                    (case deReply env (ncIn c) of
                                       Inl e \<Rightarrow> (Inl (DFailed e), c)
                                     | Inr ((ver, rep), rest) \<Rightarrow>
                                         (let c = c\<lparr>ncIn := rest\<rparr>
                                          in if ver \<noteq> 5 \<or> rep \<noteq> 0 then (Inl DSocksConnect, c)
                                             else (Inr (), c))))))))"

definition dialDirectWithSocksProxy ::
  "dialer_env \<Rightarrow> dialer \<Rightarrow> string \<Rightarrow> string \<Rightarrow> bool \<Rightarrow> (dial_error + net_conn) \<times> net_conn option" where
  "dialDirectWithSocksProxy env d network usedAddr isIP =
     (case deGo env ''tcp'' (dialDirectSocksProxy d) of
        Inl e \<Rightarrow> (Inl (DFailed e), None)
      | Inr c \<Rightarrow>
          (case socks_handshake env network usedAddr isIP c of
             (Inl e, c) \<Rightarrow> (Inl e, Some c)
           | (Inr _, c) \<Rightarrow> (Inr c, None)))"


section \<open>Dialling\<close>

definition dialDirectWithoutProxy :: "dialer_env \<Rightarrow> string \<Rightarrow> string \<Rightarrow> dial_error + net_conn" where
  "dialDirectWithoutProxy env network a = (case deGo env network a of Inl e \<Rightarrow> Inl (DFailed e) | Inr c \<Rightarrow> Inr c)"

fun perform_call :: "dialer_env \<Rightarrow> dialer \<Rightarrow> dial_call \<Rightarrow> (dial_error + net_conn) \<times> net_conn option" where
  "perform_call env d (CallDirect network a) = (dialDirectWithoutProxy env network a, None)"
| "perform_call env d (CallHTTPProxy a) = dialDirectWithHTTPProxy env d a"
| "perform_call env d (CallSocksProxy network a isIP) = dialDirectWithSocksProxy env d network a isIP"
| "perform_call env d (CallStackTCP ctx x port) =
     (case deStackTCP env ctx x port of Inl e \<Rightarrow> Inl (DFailed e) | Inr c \<Rightarrow> Inr c, None)"
| "perform_call env d (CallStackUDP ctx x port) =
     (case deStackUDP env ctx x port of Inl e \<Rightarrow> Inl (DFailed e) | Inr c \<Rightarrow> Inr c, None)"

text \<open>\<open>DialIPPort\<close>; the last component is the mapping it teaches the recorder.\<close>

type_synonym dial_result = "(dial_error + net_conn) \<times> net_conn option \<times> (string \<times> ip) option"

definition learned :: "dialer_env \<Rightarrow> dial_call \<Rightarrow> dial_error + net_conn \<Rightarrow> (string \<times> ip) option" where
  "learned env call res =
     (case (call, res) of
        (CallStackTCP ctx x port, Inr _) \<Rightarrow>
          (case vHost ctx of Some h \<Rightarrow> RecordSuccessfulAddress (deRecorder env) h x | None \<Rightarrow> None)
      | _ \<Rightarrow> None)"

definition DialIPPort :: "dialer_env \<Rightarrow> dialer \<Rightarrow> dial_values \<Rightarrow> string \<Rightarrow> string \<Rightarrow> dial_result" where
  "DialIPPort env d ctx network ipAddr =
     (case route_ip_port d ctx network ipAddr of
        Inl e \<Rightarrow> (Inl e, None, None)
      | Inr call \<Rightarrow> (let (res, left) = perform_call env d call in (res, left, learned env call res)))"

definition resolve_values :: "dial_values \<Rightarrow> resolve_ctx" where
  "resolve_values ctx = \<lparr>rcFakeIP = vFakeIP ctx, rcDomainRules = None, rcResolveHost = vHost ctx\<rparr>"

definition resolved_values :: "resolve_ctx \<Rightarrow> dial_values \<Rightarrow> dial_values" where
  "resolved_values rctx ctx =
     ctx\<lparr>vDomain := (case rcDomainRules rctx of Some rs \<Rightarrow> Some (DomainRules rs) | None \<Rightarrow> vDomain ctx),
         vHost := rcResolveHost rctx\<rparr>"

text \<open>\<open>Dial\<close>: \<open>None\<close> while the resolver waits.\<close>

definition Dial ::
  "dialer_env \<Rightarrow> lookup_event list \<Rightarrow> string option \<Rightarrow> dialer \<Rightarrow> dial_values \<Rightarrow> string \<Rightarrow> string \<Rightarrow> resolver
     \<Rightarrow> (dial_result \<times> resolver) option" where
  "Dial env evs ctxErr d ctx network addr r =
     (let direct = (\<lambda>call. let (res, left) = perform_call env d call in (res, left, None))
      in if 1 < count_list addr (CHR '':'') then Some (direct (dialDirectIP d network addr []), r)
         else (case split_host_port addr of
             None \<Rightarrow> Some (direct (dialDirectHost d network addr), r)
           | Some (host, port) \<Rightarrow>
               (let x = parse_ip host
                in if x \<noteq> [] then Some (DialIPPort env d ctx network (ip_string x @ '':'' @ port), r)
                   else (case Resolve evs ctxErr host (resolve_values ctx) r of
                       None \<Rightarrow> None
                     | Some (rctx, Inl e, r) \<Rightarrow> Some (direct (dialDirectHost d network addr), r)
                     | Some (rctx, Inr x, r) \<Rightarrow>
                         if CHR '':'' \<in> set (ip_string x)
                         then Some (direct (dialDirectIP d network (ip_string x @ '':'' @ port) addr), r)
                         else Some (DialIPPort env d (resolved_values rctx ctx) network (ip_string x @ '':'' @ port), r)))))"


section \<open>The stacks\<close>

definition WithIgnoreTCPPrefL3 :: "dial_values \<Rightarrow> dial_values" where
  "WithIgnoreTCPPrefL3 ctx = ctx\<lparr>vIgnorePref := True\<rparr>"

definition TCPPrefersL3 :: "dial_values \<Rightarrow> bool" where
  "TCPPrefersL3 ctx =
     (case vDomain ctx of
        Some (DomainRule r) \<Rightarrow> EnableTCPPrefL3 r
      | _ \<Rightarrow> (case vIP ctx of Some r \<Rightarrow> EnableTCPPrefL3 r | None \<Rightarrow> False))"

text \<open>What the aTrust client's \<open>DialTCP\<close> reads from the context.\<close>

definition client_values :: "dial_values \<Rightarrow> dial_ctx" where
  "client_values ctx =
     \<lparr>ctxDomainResource = (case vDomain ctx of Some (DomainRule r) \<Rightarrow> Some r | _ \<Rightarrow> None),
      ctxResolveHost = vHost ctx, ctxIgnorePrefL3 = vIgnorePref ctx\<rparr>"

datatype tcp_path = TunnelPath dial_ctx ip int | UserStackPath ip u16 | SystemPath ip int | NotImplemented

definition gvisor_DialTCP :: "bool \<Rightarrow> dial_values \<Rightarrow> ip \<Rightarrow> int \<Rightarrow> tcp_path" where
  "gvisor_DialTCP canTunnel ctx x port =
     (if canTunnel \<and> \<not> TCPPrefersL3 ctx then TunnelPath (client_values ctx) x port
      else UserStackPath x (word_of_int port))"

definition tun_DialTCP :: "bool \<Rightarrow> dial_values \<Rightarrow> ip \<Rightarrow> int \<Rightarrow> tcp_path" where
  "tun_DialTCP canTunnel ctx x port =
     (if canTunnel \<and> \<not> TCPPrefersL3 ctx then TunnelPath (client_values ctx) x port
      else SystemPath x port)"

definition tcptunnel_DialTCP :: "bool \<Rightarrow> dial_values \<Rightarrow> ip \<Rightarrow> int \<Rightarrow> tcp_path" where
  "tcptunnel_DialTCP canTunnel ctx x port =
     (if canTunnel then TunnelPath (client_values (WithIgnoreTCPPrefL3 ctx)) x port else NotImplemented)"

section \<open>The ACL\<close>

lemma tunnel_domain_tcp:
  assumes "network = ''tcp''"
  shows "matchDomainResourceForTunnel rs network port =
    (case MatchDomainResourceWhere rs network port (Some (\<lambda>r. \<not> EnableTCPPrefL3 r)) of Some r \<Rightarrow> Some r | None \<Rightarrow> MatchDomainResourceWhere rs network port None)"
  unfolding matchDomainResourceForTunnel_def MatchDomainResource_def if_P [OF assms] by (rule refl)

lemma tunnel_domain_other: "network \<noteq> ''tcp'' \<Longrightarrow> matchDomainResourceForTunnel rs network port = MatchDomainResourceWhere rs network port None"
  by (simp add: matchDomainResourceForTunnel_def MatchDomainResource_def)

lemma tunnel_domain_rule:
  assumes "matchDomainResourceForTunnel rs network port = Some r"
  shows "r \<in> set rs \<and> port_protocol_match network port r
    \<and> (network = ''tcp'' \<longrightarrow> EnableTCPPrefL3 r \<longrightarrow> (\<forall>s \<in> set rs. port_protocol_match network port s \<longrightarrow> EnableTCPPrefL3 s))"
proof (cases "network = ''tcp''")
  case True
  show ?thesis
    using domain_rules.prefer_first [of rs "(network, port)" "\<lambda>r. \<not> EnableTCPPrefL3 r" r, unfolded prod.case]
      assms [unfolded tunnel_domain_tcp [OF True]] by blast
next
  case False
  then show ?thesis
    using domain_rules.lookup_sound [of rs "(network, port)" None r, unfolded prod.case] assms by (simp add: tunnel_domain_other)
qed

lemma tunnel_domain_None:
  "matchDomainResourceForTunnel rs network port = None \<longleftrightarrow> (\<forall>r \<in> set rs. \<not> port_protocol_match network port r)"
proof (cases "network = ''tcp''")
  case True
  show ?thesis
    unfolding tunnel_domain_tcp [OF True]
      domain_rules.prefer_None_iff [of rs "(network, port)" "\<lambda>r. \<not> EnableTCPPrefL3 r", unfolded prod.case]
    by (rule domain_rules.lookup_None_iff [of rs "(network, port)", unfolded prod.case])
next
  case False
  then show ?thesis
    using domain_rules.lookup_None_iff [of rs "(network, port)", unfolded prod.case] by (simp add: tunnel_domain_other)
qed

lemma tunnel_ip_tcp:
  assumes "network = ''tcp''"
  shows "matchIPResourceForTunnel index x network port =
    (case index_match index x network port False (Some (\<lambda>r. \<not> EnableTCPPrefL3 r)) of Some r \<Rightarrow> Some r | None \<Rightarrow> index_match index x network port False None)"
  unfolding matchIPResourceForTunnel_def MatchWhere_def Match_def if_P [OF assms] by (rule refl)

lemma tunnel_ip_other: "network \<noteq> ''tcp'' \<Longrightarrow> matchIPResourceForTunnel index x network port = index_match index x network port False None"
  by (simp add: matchIPResourceForTunnel_def MatchWhere_def Match_def)

lemma tunnel_ip_rule:
  assumes "matchIPResourceForTunnel (New rs) x network port = Some r"
  shows "r \<in> set rs \<and> ip_hits (x, network, port) r
    \<and> (network = ''tcp'' \<longrightarrow> EnableTCPPrefL3 r \<longrightarrow> (\<forall>s \<in> set rs. ip_hits (x, network, port) s \<longrightarrow> EnableTCPPrefL3 s))"
proof (cases "network = ''tcp''")
  case True
  show ?thesis
    using ip_rules.prefer_first [of rs "(x, network, port)" "\<lambda>r. \<not> EnableTCPPrefL3 r" r, unfolded prod.case]
      assms [unfolded tunnel_ip_tcp [OF True]] by blast
next
  case False
  then show ?thesis
    using ip_rules.lookup_sound [of rs "(x, network, port)" None r, unfolded prod.case] assms by (simp add: tunnel_ip_other)
qed

lemma tunnel_ip_None:
  "matchIPResourceForTunnel (New rs) x network port = None \<longleftrightarrow> (\<forall>r \<in> set rs. \<not> ip_hits (x, network, port) r)"
proof (cases "network = ''tcp''")
  case True
  show ?thesis
    unfolding tunnel_ip_tcp [OF True]
      ip_rules.prefer_None_iff [of rs "(x, network, port)" "\<lambda>r. \<not> EnableTCPPrefL3 r", unfolded prod.case]
    by (rule ip_rules.lookup_None_iff [of rs "(x, network, port)", unfolded prod.case])
next
  case False
  then show ?thesis
    using ip_rules.lookup_None_iff [of rs "(x, network, port)", unfolded prod.case] by (simp add: tunnel_ip_other)
qed

text \<open>The rules in the context, and what it means that a destination is covered.\<close>

definition ctx_rules :: "dial_values \<Rightarrow> DomainResource list" where
  "ctx_rules ctx = (case vDomain ctx of None \<Rightarrow> [] | Some (DomainRules rs) \<Rightarrow> rs | Some (DomainRule r) \<Rightarrow> [r])"

definition covered :: "IPResource list \<Rightarrow> dial_values \<Rightarrow> string \<Rightarrow> ip \<Rightarrow> int \<Rightarrow> bool" where
  "covered rs ctx network x port \<longleftrightarrow>
     (\<exists>r \<in> set (ctx_rules ctx). port_protocol_match network port r) \<or> (\<exists>r \<in> set rs. ip_hits (x, network, port) r)"

lemma match_rules_cases:
  assumes "ipResources d = Some rs" "dlResourceIndex d = New rs"
  obtains (domain) r where "match_rules d ctx network x port = (ctx\<lparr>vDomain := Some (DomainRule r)\<rparr>, True)"
      "matchDomainResourceForTunnel (ctx_rules ctx) network port = Some r"
  | (address) r where "match_rules d ctx network x port = (ctx\<lparr>vIP := Some r\<rparr>, True)"
      "matchDomainResourceForTunnel (ctx_rules ctx) network port = None"
      "matchIPResourceForTunnel (New rs) x network port = Some r"
  | (unmatched) "match_rules d ctx network x port = (ctx, False)"
      "matchDomainResourceForTunnel (ctx_rules ctx) network port = None"
      "matchIPResourceForTunnel (New rs) x network port = None"
proof -
  have dv: "(case v of DomainRules rs \<Rightarrow> rs | DomainRule r \<Rightarrow> [r]) = ctx_rules ctx" if "vDomain ctx = Some v" for v
    using that by (simp add: ctx_rules_def split: domain_value.split)
  have nil: "matchDomainResourceForTunnel (ctx_rules ctx) network port = None" if "vDomain ctx = None"
    using that by (simp add: tunnel_domain_None ctx_rules_def)
  show thesis
  proof (cases "matchDomainResourceForTunnel (ctx_rules ctx) network port")
    case (Some r)
    then obtain v where "vDomain ctx = Some v" using nil by (cases "vDomain ctx") auto
    then show thesis using that(1) [of r] Some dv [of v] by (simp add: match_rules_def)
  next
    case None
    have m: "match_rules d ctx network x port =
        (case matchIPResourceForTunnel (New rs) x network port of
           Some r \<Rightarrow> (ctx\<lparr>vIP := Some r\<rparr>, True) | None \<Rightarrow> (ctx, False))"
      using None dv assms by (cases "vDomain ctx") (simp_all add: match_rules_def)
    show thesis
      using m None that(2,3) by (cases "matchIPResourceForTunnel (New rs) x network port") simp_all
  qed
qed

lemma match_rules_covered:
  assumes "ipResources d = Some rs" "dlResourceIndex d = New rs"
  shows "snd (match_rules d ctx network x port) \<longleftrightarrow> covered rs ctx network x port"
proof (rule match_rules_cases [OF assms, of ctx network x port])
  fix r
  assume m: "match_rules d ctx network x port = (ctx\<lparr>vDomain := Some (DomainRule r)\<rparr>, True)"
    "matchDomainResourceForTunnel (ctx_rules ctx) network port = Some r"
  then show ?thesis using tunnel_domain_rule [OF m(2)] by (auto simp: covered_def)
next
  fix r
  assume m: "match_rules d ctx network x port = (ctx\<lparr>vIP := Some r\<rparr>, True)"
    "matchIPResourceForTunnel (New rs) x network port = Some r"
  then show ?thesis using tunnel_ip_rule [OF m(2)] by (auto simp: covered_def)
next
  assume "match_rules d ctx network x port = (ctx, False)"
    "matchDomainResourceForTunnel (ctx_rules ctx) network port = None"
    "matchIPResourceForTunnel (New rs) x network port = None"
  then show ?thesis by (simp add: covered_def tunnel_domain_None tunnel_ip_None)
qed

text \<open>The target of an address \<open>host:port\<close> with an IPv4 host.\<close>

definition ip_target :: "string \<Rightarrow> ip \<Rightarrow> int \<Rightarrow> bool" where
  "ip_target a x port \<longleftrightarrow> count_list a (CHR '':'') \<le> 1
     \<and> (\<exists>host p. split_host_port a = Some (host, p) \<and> atoi p = Some port \<and> parse_ip host = x \<and> x \<noteq> [])"

lemma route_target:
  assumes "ip_target a x port"
  shows "route_ip_port d ctx network a =
    (let (ctx', matched) = match_rules d ctx network x port; useVPN = alwaysUseVPN d \<or> matched
     in if useVPN \<and> \<not> matched \<and> ipResources d \<noteq> None then Inl DACLDenied
        else if useVPN \<and> network = ''tcp'' then Inr (CallStackTCP ctx' x port)
        else if useVPN \<and> network = ''udp'' then Inr (CallStackUDP ctx' x port)
        else Inr (dialDirectIP d network a
          (let h = (case vHost ctx of None \<Rightarrow> [] | Some h \<Rightarrow> h); parts = split_on (CHR '':'') a
           in if 2 \<le> length parts then h @ '':'' @ last parts else h)))"
proof -
  obtain host p where t: "count_list a (CHR '':'') \<le> 1" "split_host_port a = Some (host, p)" "atoi p = Some port"
    "parse_ip host = x" "x \<noteq> []" using assms by (auto simp: ip_target_def)
  show ?thesis using t by (auto simp: route_ip_port_def Let_def length_split_on split: prod.split)
qed

text \<open>
  C1: when the server's resource list is known, a connection to an IPv4 address goes to the VPN stack
  exactly when a domain rule of its context or an address rule covers address, protocol and port, also
  when the VPN is forced for all traffic; then an uncovered destination is refused, and otherwise it goes
  out directly or through the configured proxy. Nothing uncovered ever reaches the tunnel.
\<close>

theorem dialer_enforces_acl:
  assumes "d = NewDialer (Some rs) always proxy" "ip_target a x port"
  shows "((\<exists>ctx'. route_ip_port d ctx network a = Inr (CallStackTCP ctx' x port))
        \<longleftrightarrow> network = ''tcp'' \<and> covered rs ctx network x port)
    \<and> ((\<exists>ctx'. route_ip_port d ctx network a = Inr (CallStackUDP ctx' x port))
        \<longleftrightarrow> network = ''udp'' \<and> covered rs ctx network x port)
    \<and> (route_ip_port d ctx network a = Inl DACLDenied \<longleftrightarrow> always \<and> \<not> covered rs ctx network x port)
    \<and> (\<not> covered rs ctx network x port \<and> \<not> always
        \<longrightarrow> (\<exists>h. route_ip_port d ctx network a = Inr (dialDirectIP d network a h)))"
proof -
  have d: "ipResources d = Some rs" "dlResourceIndex d = New rs" "alwaysUseVPN d = always"
    using assms(1) by (simp_all add: NewDialer_def)
  obtain ctx' m where m: "match_rules d ctx network x port = (ctx', m)" by fastforce
  have c: "m \<longleftrightarrow> covered rs ctx network x port" using match_rules_covered [OF d(1,2), of ctx network x port] m by simp
  have nd: "dialDirectIP d network a h \<noteq> CallStackTCP c' x p" "dialDirectIP d network a h \<noteq> CallStackUDP c' x p" for h c' p
    by (simp_all add: dialDirectIP_def)
  note r = route_target [OF assms(2), of d ctx network, unfolded m, simplified Let_def prod.case]
  show ?thesis using d nd by (auto simp: r c)
qed

definition ssh_rule :: IPResource where
  "ssh_rule = \<lparr>PortMin = 22, PortMax = 22, ResProtocol = ''tcp'', AppID = ''a'', NodeGroupID = ''g'',
     EnableTCPPrefL3 = False, IPMin = [10, 0, 0, 2], IPMax = [10, 0, 0, 2]\<rparr>"

definition no_values :: dial_values where
  "no_values = \<lparr>vDomain = None, vIP = None, vHost = None, vFakeIP = False, vIgnorePref = False\<rparr>"

lemma ssh_target: "ip_target ''10.0.0.2:22'' (ipv4 10 0 0 2) 22" "ip_target ''10.0.0.2:23'' (ipv4 10 0 0 2) 23"
proof -
  have "split_host_port ''10.0.0.2:22'' = Some (''10.0.0.2'', ''22'')" "atoi ''22'' = Some 22"
    "split_host_port ''10.0.0.2:23'' = Some (''10.0.0.2'', ''23'')" "atoi ''23'' = Some 23"
    "parse_ip ''10.0.0.2'' = ipv4 10 0 0 2" by code_simp+
  then show "ip_target ''10.0.0.2:22'' (ipv4 10 0 0 2) 22" "ip_target ''10.0.0.2:23'' (ipv4 10 0 0 2) 23"
    by (auto simp: ip_target_def ipv4_def)
qed

lemma ssh_covered:
  "covered [ssh_rule] no_values ''tcp'' (ipv4 10 0 0 2) port \<longleftrightarrow> port = 22"
proof -
  have "range_hits (ipv4 10 0 0 2) ssh_rule" by (simp add: range_hits_def ssh_rule_def)
  then show ?thesis
    by (auto simp: covered_def ctx_rules_def no_values_def ip_hits_def port_protocol_match_def)
      (simp_all add: ssh_rule_def)
qed

theorem dialer_enforces_acl_witness:
  "(\<exists>ctx'. route_ip_port (NewDialer (Some [ssh_rule]) True []) no_values ''tcp'' ''10.0.0.2:22''
      = Inr (CallStackTCP ctx' (ipv4 10 0 0 2) 22))
   \<and> route_ip_port (NewDialer (Some [ssh_rule]) True []) no_values ''tcp'' ''10.0.0.2:23'' = Inl DACLDenied"
  using dialer_enforces_acl [OF refl ssh_target(1), of "[ssh_rule]" True "[]" no_values "''tcp''"]
    dialer_enforces_acl [OF refl ssh_target(2), of "[ssh_rule]" True "[]" no_values "''tcp''"]
  by (simp add: ssh_covered)


section \<open>What the dialer routes, the tunnel takes\<close>

lemma stack_call:
  assumes "d = NewDialer (Some rs) always proxy" "ip_target a x port"
    "route_ip_port d ctx network a = Inr (CallStackTCP ctx' y p)"
  shows "y = x" "p = port" "network = ''tcp''" "match_rules d ctx ''tcp'' x port = (ctx', True)"
proof -
  have d: "ipResources d = Some rs" using assms(1) by (simp add: NewDialer_def)
  obtain c m where m: "match_rules d ctx network x port = (c, m)" by fastforce
  have nd: "dialDirectIP d network a h \<noteq> CallStackTCP ctx' y p" for h by (simp add: dialDirectIP_def)
  note r = route_target [OF assms(2), of d ctx network, unfolded m, simplified Let_def prod.case]
  have "m \<and> network = ''tcp'' \<and> c = ctx' \<and> y = x \<and> p = port"
    using assms(3) d nd unfolding r by (auto split: if_splits)
  then show "y = x" "p = port" "network = ''tcp''" "match_rules d ctx ''tcp'' x port = (ctx', True)"
    using m by auto
qed

lemma find_Some_ex: "r \<in> set xs \<Longrightarrow> P r \<Longrightarrow> \<exists>s. find P xs = Some s \<and> s \<in> set xs \<and> P s"
  by (cases "find P xs") (auto simp: find_None_iff find_Some_iff)

lemma tunnel_takes_address:
  assumes "r \<in> set rs" "ip_hits (x, ''tcp'', port) r" "EnableTCPPrefL3 r \<longrightarrow> ctxIgnorePrefL3 c"
    and "\<forall>r \<in> set rs. AppID r \<noteq> []" "ctxDomainResource c = None"
  shows "\<exists>t. dial_target_of (New rs) c x port = Inr t"
proof -
  let ?m = "matchTCPIPResource (New rs) x port (ctxIgnorePrefL3 c)"
  have "?m \<noteq> None"
  proof (cases "find (\<lambda>r. ip_hits (x, ''tcp'', port) r \<and> \<not> EnableTCPPrefL3 r) (rev rs)")
    case None
    then have "EnableTCPPrefL3 r" using assms(1,2) by (auto simp: find_None_iff)
    then have i: "ctxIgnorePrefL3 c" using assms(3) by simp
    have "find (ip_hits (x, ''tcp'', port)) (rev rs) \<noteq> None" using assms(1,2) by (auto simp: find_None_iff)
    then show ?thesis unfolding matchTCPIPResource_find None using i by simp
  qed (simp add: matchTCPIPResource_find)
  then obtain s where s: "?m = Some s" by blast
  then have "s \<in> set rs" by (rule conjunct1 [OF matchTCPIPResource_permits])
  then have "AppID s \<noteq> []" using assms(4) by blast
  then show ?thesis using s assms(5) by (simp add: dial_target_of_def)
qed

lemma tunnel_takes_domain:
  assumes "ctxDomainResource c = Some r" "EnableTCPPrefL3 r \<longrightarrow> ctxIgnorePrefL3 c" "AppID r \<noteq> []"
  shows "\<exists>t. dial_target_of index c x port = Inr t"
  using assms by (auto simp: dial_target_of_def)

text \<open>
  C2: the dialer and the aTrust client agree on what the TCP tunnel carries. Let both hold the server's
  rules, each with an application id, and let the context hold the rules the resolver found. Whenever the
  dialer hands a connection to a stack that passes it to the client's \<open>DialTCP\<close> (the TCP-only stack
  always, the other two when the chosen rule does not prefer the layer-3 tunnel), the client finds a rule
  for it and does not refuse it.
\<close>

theorem tunnel_takes_routed_connections:
  assumes "d = NewDialer (Some rs) always proxy" "ip_target a x port"
    "\<forall>r. vDomain ctx \<noteq> Some (DomainRule r)"
    "\<forall>r \<in> set rs. AppID r \<noteq> []" "\<forall>r \<in> set (ctx_rules ctx). AppID r \<noteq> []"
    "route_ip_port d ctx network a = Inr (CallStackTCP ctx' y p)"
    "TunnelPath c z q \<in> {gvisor_DialTCP True ctx' y p, tun_DialTCP True ctx' y p, tcptunnel_DialTCP True ctx' y p}"
  shows "z = x \<and> q = port \<and> (\<exists>t. dial_target_of (New rs) c x port = Inr t)"
proof -
  note sc = stack_call [OF assms(1,2,6)]
  have d: "ipResources d = Some rs" "dlResourceIndex d = New rs" using assms(1) by (simp_all add: NewDialer_def)
  have c: "z = x" "q = port" "TCPPrefersL3 ctx' \<longrightarrow> ctxIgnorePrefL3 c"
    "ctxDomainResource c = ctxDomainResource (client_values ctx')"
    using assms(7) sc(1,2)
    by (auto simp: gvisor_DialTCP_def tun_DialTCP_def tcptunnel_DialTCP_def client_values_def
        WithIgnoreTCPPrefL3_def split: if_splits)
  have "\<exists>t. dial_target_of (New rs) c x port = Inr t"
  proof (rule match_rules_cases [OF d, of ctx "''tcp''" x port])
    fix r assume m: "match_rules d ctx ''tcp'' x port = (ctx\<lparr>vDomain := Some (DomainRule r)\<rparr>, True)"
      "matchDomainResourceForTunnel (ctx_rules ctx) ''tcp'' port = Some r"
    have ctx': "ctx' = ctx\<lparr>vDomain := Some (DomainRule r)\<rparr>" using sc(4) m(1) by simp
    have "AppID r \<noteq> []" using tunnel_domain_rule [OF m(2)] assms(5) by blast
    then show ?thesis using c(3,4) by (intro tunnel_takes_domain [of c r]) (simp_all add: ctx' TCPPrefersL3_def client_values_def)
  next
    fix r assume m: "match_rules d ctx ''tcp'' x port = (ctx\<lparr>vIP := Some r\<rparr>, True)"
      "matchIPResourceForTunnel (New rs) x ''tcp'' port = Some r"
    have ctx': "ctx' = ctx\<lparr>vIP := Some r\<rparr>" using sc(4) m(1) by simp
    have nd: "ctxDomainResource c = None" "TCPPrefersL3 ctx' = EnableTCPPrefL3 r"
      using assms(3) c(4) by (auto simp: ctx' client_values_def TCPPrefersL3_def split: option.splits domain_value.splits)
    show ?thesis using tunnel_ip_rule [OF m(2)] c(3) nd assms(4) by (intro tunnel_takes_address [of r]) simp_all
  next
    assume "match_rules d ctx ''tcp'' x port = (ctx, False)"
    then show ?thesis using sc(4) by simp
  qed
  then show ?thesis using c(1,2) by simp
qed

theorem tunnel_takes_routed_connections_witness:
  "\<exists>t. dial_target_of (New [ssh_rule]) (client_values (no_values\<lparr>vIP := Some ssh_rule\<rparr>)) (ipv4 10 0 0 2) 22 = Inr t"
proof -
  let ?d = "NewDialer (Some [ssh_rule]) False []" and ?x = "ipv4 10 0 0 2"
  have d: "ipResources ?d = Some [ssh_rule]" "dlResourceIndex ?d = New [ssh_rule]" by (simp_all add: NewDialer_def)
  have cov: "snd (match_rules ?d no_values ''tcp'' ?x 22)"
    using match_rules_covered [OF d] by (simp add: ssh_covered)
  have nodom: "matchDomainResourceForTunnel (ctx_rules no_values) ''tcp'' 22 = None"
    by (simp add: tunnel_domain_None ctx_rules_def no_values_def)
  have m: "match_rules ?d no_values ''tcp'' ?x 22 = (no_values\<lparr>vIP := Some ssh_rule\<rparr>, True)"
  proof (rule match_rules_cases [OF d, of no_values "''tcp''" ?x 22])
    fix r assume "matchDomainResourceForTunnel (ctx_rules no_values) ''tcp'' 22 = Some r"
    then show ?thesis using nodom by simp
  next
    fix r assume m: "match_rules ?d no_values ''tcp'' ?x 22 = (no_values\<lparr>vIP := Some r\<rparr>, True)"
      "matchIPResourceForTunnel (New [ssh_rule]) ?x ''tcp'' 22 = Some r"
    then show ?thesis using tunnel_ip_rule [OF m(2)] by simp
  next
    assume "match_rules ?d no_values ''tcp'' ?x 22 = (no_values, False)"
    then show ?thesis using cov by simp
  qed
  have r: "route_ip_port ?d no_values ''tcp'' ''10.0.0.2:22'' = Inr (CallStackTCP (no_values\<lparr>vIP := Some ssh_rule\<rparr>) ?x 22)"
    by (simp add: route_target [OF ssh_target(1)] m Let_def)
  have g: "gvisor_DialTCP True (no_values\<lparr>vIP := Some ssh_rule\<rparr>) ?x 22
      = TunnelPath (client_values (no_values\<lparr>vIP := Some ssh_rule\<rparr>)) ?x 22"
    by (simp add: gvisor_DialTCP_def TCPPrefersL3_def no_values_def ssh_rule_def)
  show ?thesis
    using tunnel_takes_routed_connections [OF refl ssh_target(1) _ _ _ r,
        of "client_values (no_values\<lparr>vIP := Some ssh_rule\<rparr>)" ?x 22] g
    by (simp add: no_values_def ctx_rules_def ssh_rule_def)
qed

section \<open>The proxy handshake\<close>

lemma ends_with_iff: "ends_with xs s \<longleftrightarrow> (\<exists>p. xs = p @ s)"
proof
  assume "ends_with xs s"
  then show "\<exists>p. xs = p @ s"
    by (intro exI [of _ "take (length xs - length s) xs"]) (metis append_take_drop_id ends_with_def)
qed (auto simp: ends_with_def)

lemma header_end_last: "ends_with (xs @ ys) header_end \<Longrightarrow> ys \<noteq> [] \<Longrightarrow> 10 \<in> set ys"
  unfolding ends_with_iff header_end_def
  by (metis last_append last_in_set last.simps list.distinct(1))

lemma takeWhile_full: "length (takeWhile P xs) = length xs \<Longrightarrow> \<forall>x \<in> set xs. P x"
  by (metis set_takeWhileD takeWhile_eq_take take_all order_refl)

lemma ReadSlice_parts:
  assumes "ReadSlice b r = (e, f, r')"
  shows "r = f @ r' \<and> (if e = SliceDelim then \<exists>l. f = l @ [b] \<and> b \<notin> set l else b \<notin> set f)
    \<and> (e = SliceEOF \<longrightarrow> r' = [])"
proof -
  let ?w = "takeWhile (\<lambda>x. x \<noteq> b) r"
  let ?n = "length ?w"
  have nb: "b \<notin> set ?w" using set_takeWhileD by fastforce
  have w: "?w = take ?n r" by (rule takeWhile_eq_take)
  show ?thesis
  proof (cases "?n < length r \<and> ?n < 4096")
    case True
    then have rn: "r ! ?n = b" using nth_length_takeWhile [of "\<lambda>x. x \<noteq> b" r] by blast
    have t: "take (Suc ?n) r = ?w @ [b]"
      by (simp only: take_Suc_conv_app_nth [OF conjunct1 [OF True]] w [symmetric] rn)
    have "e = SliceDelim" "f = take (Suc ?n) r" "r' = drop (Suc ?n) r"
      using assms True by (simp_all add: ReadSlice_def Let_def)
    then show ?thesis using t nb by (metis append_take_drop_id slice_end.distinct(3))
  next
    case False
    show ?thesis
    proof (cases "4096 \<le> length r")
      case True
      have "4096 \<le> ?n"
      proof (rule ccontr)
        assume "\<not> 4096 \<le> ?n"
        then have "?n = length r" using False True length_takeWhile_le [of "\<lambda>x. x \<noteq> b" r] by linarith
        then show False using True \<open>\<not> 4096 \<le> ?n\<close> by simp
      qed
      then have "set (take 4096 r) \<subseteq> set ?w" using set_take_subset_set_take [of 4096 ?n r] by (simp only: w [symmetric])
      then have "b \<notin> set (take 4096 r)" using nb by blast
      then show ?thesis using assms False True by (auto simp: ReadSlice_def Let_def)
    next
      case short: False
      then have "?n = length r" using False length_takeWhile_le [of "\<lambda>x. x \<noteq> b" r] by linarith
      then have "b \<notin> set r" using takeWhile_full [of "\<lambda>x. x \<noteq> b" r] by blast
      then show ?thesis using assms False short by (auto simp: ReadSlice_def Let_def)
    qed
  qed
qed

text \<open>The header is the shortest beginning of the stream that ends in an empty line.\<close>

definition shortest_header :: "bytes \<Rightarrow> bytes \<Rightarrow> bool" where
  "shortest_header acc f \<longleftrightarrow>
     ends_with (acc @ f) header_end \<and> (\<forall>n < length f. \<not> ends_with (acc @ take n f) header_end)"

lemma shortest_header_slice:
  assumes s: "shortest_header acc f" and ne: "\<not> ends_with acc header_end"
    and r: "f @ rest = g @ r'" and g: "10 \<notin> set g \<or> (\<exists>l. g = l @ [10] \<and> 10 \<notin> set l)"
  obtains u where "f = g @ u" "r' = u @ rest"
proof -
  have "f \<noteq> []" using s ne by (auto simp: shortest_header_def)
  then have nl: "10 \<in> set f" using s header_end_last [of acc f] by (simp add: shortest_header_def)
  show thesis
  proof (cases "length g \<le> length f")
    case True
    then have "f = g @ drop (length g) f" using r by (metis append_eq_append_conv_if append_take_drop_id)
    then show thesis using r that [of "drop (length g) f"] by (metis append.assoc same_append_eq)
  next
    case False
    then have "f = take (length f) g" using r by (simp add: append_eq_append_conv_if split: if_splits)
    then obtain v where "g = f @ v" "v \<noteq> []" using False by (metis append_take_drop_id append_Nil2 le_refl)
    then have "10 \<notin> set f" using g by (auto simp: append_eq_append_conv2 Cons_eq_append_conv append_eq_Cons_conv)
    then show thesis using nl by contradiction
  qed
qed

lemma shortest_header_step:
  assumes "\<not> ends_with acc header_end" "10 \<notin> set g \<or> (\<exists>l. g = l @ [10] \<and> 10 \<notin> set l)"
    "ends_with (acc @ g) header_end"
  shows "shortest_header acc g"
  unfolding shortest_header_def
proof (intro conjI allI impI)
  fix n assume n: "n < length g"
  have "10 \<notin> set (take n g)" using assms(2) n by (auto dest: in_set_takeD)
  then show "\<not> ends_with (acc @ take n g) header_end"
    using assms(1) header_end_last [of acc "take n g"] by (cases "take n g = []") auto
qed (fact assms(3))

lemma shortest_header_append:
  assumes "\<not> ends_with acc header_end" "10 \<notin> set g \<or> (\<exists>l. g = l @ [10] \<and> 10 \<notin> set l)"
    "\<not> ends_with (acc @ g) header_end"
  shows "shortest_header acc (g @ u) \<longleftrightarrow> shortest_header (acc @ g) u"
proof
  assume s: "shortest_header acc (g @ u)"
  show "shortest_header (acc @ g) u"
    unfolding shortest_header_def
  proof (intro conjI allI impI)
    fix n assume "n < length u"
    moreover have "length g + n < length (g @ u) \<longrightarrow> \<not> ends_with (acc @ take (length g + n) (g @ u)) header_end"
      using s unfolding shortest_header_def by blast
    ultimately show "\<not> ends_with ((acc @ g) @ take n u) header_end" by simp
  qed (use s in \<open>simp add: shortest_header_def\<close>)
next
  assume s: "shortest_header (acc @ g) u"
  show "shortest_header acc (g @ u)"
    unfolding shortest_header_def
  proof (intro conjI allI impI)
    fix n assume n: "n < length (g @ u)"
    show "\<not> ends_with (acc @ take n (g @ u)) header_end"
    proof (cases "n < length g")
      case True
      then have "10 \<notin> set (take n g)" using assms(2) by (auto dest: in_set_takeD)
      then show ?thesis using True assms(1) header_end_last [of acc "take n g"] by (cases "take n g = []") auto
    next
      case False
      then have "\<not> ends_with ((acc @ g) @ take (n - length g) u) header_end"
        using s n by (simp add: shortest_header_def)
      then show ?thesis using False by simp
    qed
  qed (use s in \<open>simp add: shortest_header_def\<close>)
qed


lemma read_header_iff:
  assumes "\<not> ends_with acc header_end"
  shows "read_header acc r = Inr (h, rest) \<longleftrightarrow>
    (\<exists>f. h = acc @ f \<and> r = f @ rest \<and> shortest_header acc f \<and> length h \<le> maxHTTPProxyResponseHeader)"
  using assms
proof (induction acc r rule: read_header.induct)
  case (1 acc r)
  obtain e g r' where sl: "ReadSlice 10 r = (e, g, r')" by (cases "ReadSlice 10 r") auto
  note p = ReadSlice_parts [OF sl]
  have g: "10 \<notin> set g \<or> (\<exists>l. g = l @ [10] \<and> 10 \<notin> set l)" using p by (auto split: if_splits)
  have r: "r = g @ r'" using p by simp
  have split: "\<exists>u. f = g @ u \<and> r' = u @ rest" if "r = f @ rest" "shortest_header acc f" for f
    using shortest_header_slice [OF that(2) 1(2) _ g, of rest r'] that(1) r by metis
  have rd: "read_header acc r =
      (if maxHTTPProxyResponseHeader < length acc + length g then Inl DHeaderTooLong
       else if ends_with (acc @ g) header_end then Inr (acc @ g, r')
       else if e = SliceEOF then Inl DProxyRead
       else read_header (acc @ g) r')"
    by (subst read_header.simps) (simp add: sl)
  show ?case
  proof (cases "maxHTTPProxyResponseHeader < length acc + length g")
    case True
    have "maxHTTPProxyResponseHeader < length (acc @ f)" if "r = f @ rest" "shortest_header acc f" for f
      using split [OF that] True by auto
    then have "\<not> (\<exists>f. h = acc @ f \<and> r = f @ rest \<and> shortest_header acc f \<and> length h \<le> maxHTTPProxyResponseHeader)"
      using linorder_not_less by blast
    then show ?thesis using True by (simp add: rd)
  next
    case len: False
    show ?thesis
    proof (cases "ends_with (acc @ g) header_end")
      case True
      note sh = shortest_header_step [OF 1(2) g True]
      have "u = []" if "shortest_header acc (g @ u)" for u
        using that True by (cases u) (auto simp: shortest_header_def dest!: spec [of _ "length g"])
      then have only: "f = g \<and> r' = rest" if "r = f @ rest" "shortest_header acc f" for f
        using split [OF that] that(2) by fastforce
      have rg: "read_header acc r = Inr (acc @ g, r')" using len True by (simp add: rd)
      show ?thesis
      proof
        assume "read_header acc r = Inr (h, rest)"
        then have "h = acc @ g" "rest = r'" by (simp_all add: rg)
        then show "\<exists>f. h = acc @ f \<and> r = f @ rest \<and> shortest_header acc f \<and> length h \<le> maxHTTPProxyResponseHeader"
          using sh len r by (intro exI [of _ g]) simp
      next
        assume "\<exists>f. h = acc @ f \<and> r = f @ rest \<and> shortest_header acc f \<and> length h \<le> maxHTTPProxyResponseHeader"
        then obtain f where f: "h = acc @ f" "r = f @ rest" "shortest_header acc f" by blast
        then show "read_header acc r = Inr (h, rest)" using only [OF f(2,3)] rg f(1) by simp
      qed
    next
      case noend: False
      show ?thesis
      proof (cases "e = SliceEOF")
        case True
        have "\<not> shortest_header acc f" if rf: "r = f @ rest" for f
        proof
          assume s: "shortest_header acc f"
          obtain u where "f = g @ u" "r' = u @ rest" using split [OF rf s] by blast
          moreover have "r' = []" using p True by simp
          ultimately have "f = g" by simp
          then show False using s noend by (simp add: shortest_header_def)
        qed
        then show ?thesis using len noend True by (auto simp: rd)
      next
        case False
        note ih = 1(1) [OF sl [symmetric] refl len noend False noend]
        have "(\<exists>f. h = (acc @ g) @ f \<and> r' = f @ rest \<and> shortest_header (acc @ g) f
              \<and> length h \<le> maxHTTPProxyResponseHeader)
          \<longleftrightarrow> (\<exists>f. h = acc @ f \<and> r = f @ rest \<and> shortest_header acc f
              \<and> length h \<le> maxHTTPProxyResponseHeader)" (is "?L \<longleftrightarrow> ?R")
        proof
          assume ?L
          then obtain u where "h = (acc @ g) @ u" "r' = u @ rest" "shortest_header (acc @ g) u"
            "length h \<le> maxHTTPProxyResponseHeader" by blast
          then show ?R using shortest_header_append [OF 1(2) g noend, of u] r by (intro exI [of _ "g @ u"]) simp
        next
          assume ?R
          then obtain f where f: "h = acc @ f" "r = f @ rest" "shortest_header acc f"
            "length h \<le> maxHTTPProxyResponseHeader" by blast
          obtain u where "f = g @ u" "r' = u @ rest" using split [OF f(2,3)] by blast
          then show ?L using f shortest_header_append [OF 1(2) g noend, of u] by (intro exI [of _ u]) simp
        qed
        then show ?thesis using ih len noend False by (simp add: rd)
      qed
    qed
  qed
qed

lemma read_response_iff:
  "readHTTPProxyConnectResponse parse r = Inr rest \<longleftrightarrow>
     (\<exists>h st. r = h @ rest \<and> shortest_header [] h \<and> length h \<le> maxHTTPProxyResponseHeader
        \<and> parse h = Inr (200, st))"
proof -
  have ne: "\<not> ends_with [] header_end" by (simp add: ends_with_def header_end_def)
  show ?thesis
  proof
    assume a: "readHTTPProxyConnectResponse parse r = Inr rest"
    then obtain h r' where h: "read_header [] r = Inr (h, r')"
      by (cases "read_header [] r") (auto simp: readHTTPProxyConnectResponse_def)
    then obtain st where "parse h = Inr (200, st)" "r' = rest"
      using a by (auto simp: readHTTPProxyConnectResponse_def split: sum.splits prod.splits if_splits)
    then show "\<exists>h st. r = h @ rest \<and> shortest_header [] h \<and> length h \<le> maxHTTPProxyResponseHeader
        \<and> parse h = Inr (200, st)" using h read_header_iff [OF ne, of r h rest] by auto
  next
    assume "\<exists>h st. r = h @ rest \<and> shortest_header [] h \<and> length h \<le> maxHTTPProxyResponseHeader
        \<and> parse h = Inr (200, st)"
    then obtain h st where h: "r = h @ rest" "shortest_header [] h" "length h \<le> maxHTTPProxyResponseHeader"
      "parse h = Inr (200, st)" by blast
    then have "read_header [] r = Inr (h, rest)" using read_header_iff [OF ne, of r h rest] by simp
    then show "readHTTPProxyConnectResponse parse r = Inr rest"
      using h(4) by (simp add: readHTTPProxyConnectResponse_def)
  qed
qed

text \<open>
  C16: a dial through the HTTP proxy succeeds on exactly one exchange: the deadline can be set and cleared,
  the CONNECT request for the target is written whole, the proxy's answer begins with a header of at most
  64 KiB (up to the first empty line) that parses as status 200, and the caller's context has not ended. Then
  every byte after the header is left for the caller and the deadline is gone. Every failure closes the
  connection to the proxy.
\<close>

theorem http_proxy_dial_exact:
  assumes "deGo env ''tcp'' (dialDirectHTTPProxy d) = Inr c"
  shows "(dialDirectWithHTTPProxy env d a = (Inr c', left) \<longleftrightarrow>
      left = None
      \<and> (\<exists>h st rest. ncIn c = h @ rest \<and> shortest_header [] h \<and> length h \<le> maxHTTPProxyResponseHeader
          \<and> deParse env h = Inr (200, st)
          \<and> c' = c\<lparr>ncOut := ncOut c @ connect_request a, ncIn := rest, ncDeadline := None\<rparr>)
      \<and> ncSetDeadline c (Some (proxy_deadline env)) = None \<and> ncSetDeadline c None = None
      \<and> ncAccept c (connect_request a) = (length (connect_request a), None) \<and> deCtxErr env = None)
    \<and> (dialDirectWithHTTPProxy env d a = (Inl e, left) \<longrightarrow> (\<exists>c'. left = Some c' \<and> ncClosed c'))"
proof -
  have hs: "http_handshake env a c = (Inr (), c') \<longleftrightarrow>
      (\<exists>rest. readHTTPProxyConnectResponse (deParse env) (ncIn c) = Inr rest
          \<and> c' = c\<lparr>ncOut := ncOut c @ connect_request a, ncIn := rest, ncDeadline := None\<rparr>)
      \<and> ncSetDeadline c (Some (proxy_deadline env)) = None \<and> ncSetDeadline c None = None
      \<and> ncAccept c (connect_request a) = (length (connect_request a), None) \<and> deCtxErr env = None"
    by (auto simp: http_handshake_def conn_write_def Let_def split: option.splits sum.splits prod.splits if_splits)
  have ok: "dialDirectWithHTTPProxy env d a = (Inr c', left) \<longleftrightarrow> left = None \<and> http_handshake env a c = (Inr (), c')"
    using assms by (auto simp: dialDirectWithHTTPProxy_def split: prod.splits sum.splits)
  have bad: "dialDirectWithHTTPProxy env d a = (Inl e, left) \<longrightarrow> (\<exists>c'. left = Some c' \<and> ncClosed c')"
    using assms by (auto simp: dialDirectWithHTTPProxy_def split: prod.splits sum.splits)
  show ?thesis unfolding ok hs read_response_iff using bad by blast
qed

text \<open>The SOCKS dialer does not close: a refused connection stays open and nobody holds it.\<close>

lemma socks_failure_leaves_connection_open:
  assumes "deGo env ''tcp'' (dialDirectSocksProxy d) = Inr c"
    and "dialDirectWithSocksProxy env d network a isIP = (Inl e, left)"
  shows "\<exists>c'. left = Some c' \<and> ncClosed c' = ncClosed c"
proof -
  have "ncClosed (snd (socks_handshake env network a isIP c)) = ncClosed c"
    by (simp add: socks_handshake_def conn_write_def Let_def split_beta split: option.split sum.split)
  then show ?thesis
    using assms by (auto simp: dialDirectWithSocksProxy_def split: prod.splits sum.splits)
qed

definition proxy_conn :: net_conn where
  "proxy_conn = \<lparr>ncIn = [72, 13, 10, 13, 10, 9], ncOut = [], ncClosed = False,
     ncAccept = (\<lambda>b. (length b, None)), ncDeadline = None, ncSetDeadline = (\<lambda>_. None)\<rparr>"

definition proxy_env :: dialer_env where
  "proxy_env = \<lparr>deGo = (\<lambda>_ _. Inr proxy_conn), deStackTCP = (\<lambda>_ _ _. Inl []), deStackUDP = (\<lambda>_ _ _. Inl []),
     deRecorder = False, deParse = (\<lambda>h. Inr (200, [])), deMethodRequest = [5, 1, 0],
     deMethodReply = (\<lambda>r. Inr ((5, 0), drop 2 r)), deRequest = (\<lambda>_ _. []), deReply = (\<lambda>r. Inl []),
     deNow = 0, deCtxDeadline = None, deCtxErr = None\<rparr>"

theorem http_proxy_dial_exact_witness:
  "\<exists>c. dialDirectWithHTTPProxy proxy_env (NewDialer None False ''http://p:1'') ''h:80'' = (Inr c, None) \<and> ncIn c = [9]"
proof -
  have sh: "shortest_header [] [72, 13, 10, 13, 10]"
    by code_simp
  have go: "deGo proxy_env ''tcp'' (dialDirectHTTPProxy (NewDialer None False ''http://p:1'')) = Inr proxy_conn"
    by (simp add: proxy_env_def)
  let ?c = "proxy_conn\<lparr>ncOut := ncOut proxy_conn @ connect_request ''h:80'', ncIn := [9], ncDeadline := None\<rparr>"
  have pr: "ncIn proxy_conn = [72, 13, 10, 13, 10] @ [9] \<and> shortest_header [] [72, 13, 10, 13, 10]
      \<and> length [72 :: byte, 13, 10, 13, 10] \<le> maxHTTPProxyResponseHeader
      \<and> deParse proxy_env [72, 13, 10, 13, 10] = Inr (200, []) \<and> ?c = ?c"
    using sh by (simp add: proxy_conn_def proxy_env_def maxHTTPProxyResponseHeader_def)
  have io: "ncSetDeadline proxy_conn (Some (proxy_deadline proxy_env)) = None" "ncSetDeadline proxy_conn None = None"
    "ncAccept proxy_conn (connect_request ''h:80'') = (length (connect_request ''h:80''), None)"
    "deCtxErr proxy_env = None"
    by (simp_all add: proxy_conn_def proxy_env_def)
  have "dialDirectWithHTTPProxy proxy_env (NewDialer None False ''http://p:1'') ''h:80'' = (Inr ?c, None)"
    using http_proxy_dial_exact [OF go, of "''h:80''" ?c None] pr io by blast
  then show ?thesis by (intro exI [of _ ?c]) simp
qed


text \<open>The dialer picks the first rule that covers an address, the aTrust client the last one.\<close>

lemma dialer_and_client_pick_different_rules:
  "matchIPResourceForTunnel (New [ssh_rule, ssh_rule\<lparr>AppID := ''b''\<rparr>]) (ipv4 10 0 0 2) ''tcp'' 22 = Some ssh_rule"
  "matchTCPIPResource (New [ssh_rule, ssh_rule\<lparr>AppID := ''b''\<rparr>]) (ipv4 10 0 0 2) 22 False
     = Some (ssh_rule\<lparr>AppID := ''b''\<rparr>)"
proof -
  have h: "ip_hits (ipv4 10 0 0 2, ''tcp'', 22) ssh_rule" "ip_hits (ipv4 10 0 0 2, ''tcp'', 22) (ssh_rule\<lparr>AppID := ''b''\<rparr>)"
    "\<not> EnableTCPPrefL3 ssh_rule"
    by (simp_all add: ip_hits_def range_hits_def ssh_rule_def port_protocol_match_def)
  show "matchIPResourceForTunnel (New [ssh_rule, ssh_rule\<lparr>AppID := ''b''\<rparr>]) (ipv4 10 0 0 2) ''tcp'' 22 = Some ssh_rule"
    by (simp add: tunnel_ip_tcp [OF refl] index_match_find h accepts_def)
  show "matchTCPIPResource (New [ssh_rule, ssh_rule\<lparr>AppID := ''b''\<rparr>]) (ipv4 10 0 0 2) 22 False
     = Some (ssh_rule\<lparr>AppID := ''b''\<rparr>)"
    by (simp add: matchTCPIPResource_find h)
qed

end
