(* ===== verification/TunStack.thy ===== *)
theory TunStack
  imports Dialer L3Tunnel
begin

text \<open>
  The network stack on a TUN device (\<open>stack/tun\<close>): where an outgoing packet goes, the connections the
  TCP listener accepts, the cache of routing decisions, and the answers to hijacked DNS queries together
  with the DNS handler (\<open>service/dns.go\<close>). The device, the TCP listener's user-space stack and the DNS
  message library are parameters.
\<close>

section \<open>The cache of routing decisions (resource_index.go)\<close>

type_synonym decision_key = "u32 \<times> int \<times> string"

record resourceDecisionCache =
  rdValues :: "(decision_key, bool) gomap"
  rdKeys :: "decision_key list"
  rdNext :: nat

definition resourceDecisionCacheSize :: nat where
  "resourceDecisionCacheSize = 4096"

definition newResourceDecisionCache :: resourceDecisionCache where
  "newResourceDecisionCache = \<lparr>rdValues = [], rdKeys = [], rdNext = 0\<rparr>"

definition decision_get :: "decision_key \<Rightarrow> resourceDecisionCache \<Rightarrow> bool option" where
  "decision_get k c = mget (rdValues c) k"

definition decision_set :: "decision_key \<Rightarrow> bool \<Rightarrow> resourceDecisionCache \<Rightarrow> resourceDecisionCache" where
  "decision_set k v c =
     (if mget (rdValues c) k \<noteq> None then c\<lparr>rdValues := mset k v (rdValues c)\<rparr>
      else if length (rdKeys c) < resourceDecisionCacheSize then
        c\<lparr>rdKeys := rdKeys c @ [k], rdValues := mset k v (rdValues c)\<rparr>
      else c\<lparr>rdValues := mset k v (mdel (rdKeys c ! rdNext c) (rdValues c)),
             rdKeys := (rdKeys c)[rdNext c := k],
             rdNext := (rdNext c + 1) mod resourceDecisionCacheSize\<rparr>)"


section \<open>Packets from the device (stack.go)\<close>

text \<open>The index and the cache are made on first use (\<open>sync.Once\<close>).\<close>

record tun_stack =
  tsResources :: "IPResource list"
  tsIndex :: "(node \<times> resourceDecisionCache) option"
  tsPool :: "DomainResource list IPPool"
  tsFakeIP :: bool
  tsCanTunnel :: bool

definition index_once :: "tun_stack \<Rightarrow> tun_stack" where
  "index_once s =
     (if tsIndex s = None then s\<lparr>tsIndex := Some (New (tsResources s), newResourceDecisionCache)\<rparr> else s)"

definition matchesStaticResource :: "ip \<Rightarrow> string \<Rightarrow> int \<Rightarrow> tun_stack \<Rightarrow> bool \<times> tun_stack" where
  "matchesStaticResource x protocol port s =
     (case IPv4Uint32 x of
        None \<Rightarrow> (False, s)
      | Some u \<Rightarrow>
          (let s = index_once s
           in case tsIndex s of
                None \<Rightarrow> (False, s)
              | Some (index, cache) \<Rightarrow>
                  (case decision_get (u, port, protocol) cache of
                     Some d \<Rightarrow> (d, s)
                   | None \<Rightarrow>
                       (let d = (Match index x protocol port \<noteq> None)
                        in (d, s\<lparr>tsIndex := Some (index, decision_set (u, port, protocol) d cache)\<rparr>)))))"

definition matchStaticResource :: "ip \<Rightarrow> string \<Rightarrow> int \<Rightarrow> tun_stack \<Rightarrow> IPResource option \<times> tun_stack" where
  "matchStaticResource x protocol port s =
     (let s = index_once s
      in (case tsIndex s of None \<Rightarrow> None | Some (index, _) \<Rightarrow> Match index x protocol port, s))"

text \<open>\<open>net.IP.IsGlobalUnicast\<close> on an IPv4 address.\<close>

definition is_global_unicast :: "ip \<Rightarrow> bool" where
  "is_global_unicast x \<longleftrightarrow>
     (case to4 x of
        [a, b, c, d] \<Rightarrow>
          [a, b, c, d] \<noteq> [255, 255, 255, 255] \<and> [a, b, c, d] \<noteq> [0, 0, 0, 0] \<and> a \<noteq> 127
          \<and> a AND 0xf0 \<noteq> 0xe0 \<and> \<not> (a = 169 \<and> b = 254)
      | _ \<Rightarrow> length x = 16 \<and> x \<noteq> replicate 16 0 \<and> x \<noteq> replicate 15 0 @ [1] \<and> x ! 0 \<noteq> 0xff
          \<and> \<not> (x ! 0 = 0xfe \<and> x ! 1 AND 0xc0 = 0x80))"

text \<open>Where a packet goes. A failed write to the layer-3 connection is an error when the client had no
  rule for the packet and a panic otherwise.\<close>

datatype tun_action = HijackDNS bytes | WriteDevice bytes | DeliverListener bytes | WriteL3 bytes | NoAction

datatype tun_error = UnsupportedProtocol byte | UnsupportedVersion byte | NoVPNResource | L3NotFound | DeviceFailed string

record tun_env =
  teDevice :: "bytes \<Rightarrow> string option"
  teL3Write :: "bytes \<Rightarrow> (bool \<times> string) option"
  teHijack :: "ip \<Rightarrow> bool"

type_synonym tun_result = "(tun_action \<times> tun_error option) option"

definition endpoint_write :: "tun_env \<Rightarrow> bytes \<Rightarrow> tun_result" where
  "endpoint_write env p =
     Some (WriteDevice p, if p = [] then None else map_option DeviceFailed (teDevice env p))"

definition l3_write :: "tun_env \<Rightarrow> bytes \<Rightarrow> tun_result" where
  "l3_write env p =
     (case teL3Write env p of
        None \<Rightarrow> Some (WriteL3 p, None)
      | Some (notFound, _) \<Rightarrow> if notFound then Some (WriteL3 p, Some L3NotFound) else None)"

definition processIPV4TCP :: "tun_env \<Rightarrow> bytes \<Rightarrow> bool \<Rightarrow> tun_stack \<Rightarrow> tun_result" where
  "processIPV4TCP env p useTCPTunnel s =
     do {
       dst \<leftarrow> DestinationIP p;
       if \<not> is_global_unicast dst then endpoint_write env p
       else if useTCPTunnel \<and> tsCanTunnel s then Some (DeliverListener p, None)
       else l3_write env p
     }"

definition processIPV4UDP :: "tun_env \<Rightarrow> bytes \<Rightarrow> tun_result" where
  "processIPV4UDP env p =
     do { dst \<leftarrow> DestinationIP p; if \<not> is_global_unicast dst then endpoint_write env p else l3_write env p }"

definition processIPV4ICMP :: "tun_env \<Rightarrow> bytes \<Rightarrow> bytes \<Rightarrow> tun_result" where
  "processIPV4ICMP env p icmp =
     do { c \<leftarrow> ICMP_Code icmp; if c \<noteq> 0 then Some (NoAction, None) else l3_write env p }"

definition shouldHijackUDPDns :: "tun_env \<Rightarrow> bytes \<Rightarrow> bytes \<Rightarrow> bool option" where
  "shouldHijackUDPDns env p udp =
     do {
       q \<leftarrow> UDP_DestinationPort udp;
       if q \<noteq> 53 then Some False else do { dst \<leftarrow> DestinationIP p; Some (teHijack env dst) }
     }"

text \<open>The routing after the protocol is known.\<close>

definition route_packet ::
  "tun_env \<Rightarrow> bytes \<Rightarrow> string \<Rightarrow> int \<Rightarrow> tun_stack \<Rightarrow> ((tun_action \<times> tun_error option) \<times> tun_stack) option" where
  "route_packet env p protocol port s =
     do {
       dst \<leftarrow> DestinationIP p;
       let domain = (case GetDomain (tsPool s) dst of
           Some (_, rs) \<Rightarrow> if MatchDomainResource rs protocol port \<noteq> None then Some rs else None
         | None \<Rightarrow> None);
       (case domain of
          Some rs \<Rightarrow>
            map_option (\<lambda>r. (r, s))
              (if protocol = ''tcp'' then
                 processIPV4TCP env p
                   (MatchDomainResourceWhere rs protocol port (Some (\<lambda>r. \<not> EnableTCPPrefL3 r)) \<noteq> None) s
               else processIPV4UDP env p)
        | None \<Rightarrow>
            (case matchStaticResource dst protocol port s of
               (None, s) \<Rightarrow> Some ((NoAction, Some NoVPNResource), s)
             | (Some _, s) \<Rightarrow>
                 map_option (\<lambda>r. (r, s))
                   (if protocol = ''icmp'' then do { d \<leftarrow> Payload p; processIPV4ICMP env p d }
                    else if protocol = ''tcp'' then
                      processIPV4TCP env p
                        (case tsIndex s of
                           None \<Rightarrow> False
                         | Some (index, _) \<Rightarrow> MatchWhere index dst protocol port (\<lambda>r. \<not> EnableTCPPrefL3 r) \<noteq> None) s
                    else processIPV4UDP env p)))
     }"

definition tun_processIPV4 ::
  "tun_env \<Rightarrow> bytes \<Rightarrow> tun_stack \<Rightarrow> ((tun_action \<times> tun_error option) \<times> tun_stack) option" where
  "tun_processIPV4 env p s =
     do {
       pr \<leftarrow> Protocol p;
       if pr = TCP then do { d \<leftarrow> Payload p; q \<leftarrow> DestinationPort d; route_packet env p ''tcp'' (uint q) s }
       else if pr = UDP then do {
         d \<leftarrow> Payload p;
         hijack \<leftarrow> shouldHijackUDPDns env p d;
         if hijack then do { _ \<leftarrow> Payload p; Some ((HijackDNS p, None), s) }
         else do { q \<leftarrow> UDP_DestinationPort d; route_packet env p ''udp'' (uint q) s }
       }
       else if pr = ICMP then route_packet env p ''icmp'' (- 1) s
       else Some ((NoAction, Some (UnsupportedProtocol pr)), s)
     }"

text \<open>One round of \<open>Run\<close>'s reader, with the number of bytes the device delivered into the buffer; the
  packet starts after the device's own header.\<close>

definition run_packet ::
  "nat \<Rightarrow> tun_env \<Rightarrow> bytes \<Rightarrow> tun_stack \<Rightarrow> ((tun_action \<times> tun_error option) \<times> tun_stack) option" where
  "run_packet packetOffset env b s =
     (if length b < 20 then Some ((NoAction, None), s)
      else do {
        p \<leftarrow> slice b packetOffset (length b);
        v \<leftarrow> idx p 0;
        if drop_bit 4 v = 4 then tun_processIPV4 env p s
        else Some ((NoAction, Some (UnsupportedVersion (drop_bit 4 v))), s)
      })"


section \<open>Connections of the TCP listener (tcplistener.go)\<close>

text \<open>The context and address a connection to the given target is dialled with.\<close>

definition inbound_values :: "ip \<Rightarrow> u16 \<Rightarrow> tun_stack \<Rightarrow> dial_values" where
  "inbound_values x port s =
     (let none = \<lparr>vDomain = None, vIP = None, vHost = None, vFakeIP = False, vIgnorePref = False\<rparr>
      in case GetDomain (tsPool s) x of
           Some (domain, rs) \<Rightarrow>
             (case MatchDomainResourceWhere rs ''tcp'' (uint port) (Some (\<lambda>r. \<not> EnableTCPPrefL3 r)) of
                Some r \<Rightarrow> none\<lparr>vDomain := Some (DomainRule r), vHost := Some domain\<rparr>
              | None \<Rightarrow> none)
         | None \<Rightarrow> none)"

text \<open>Dialling the remote end; both connections are closed when the handler ends.\<close>

definition handleInboundConn ::
  "dial_env \<Rightarrow> tcp_client \<Rightarrow> ip \<Rightarrow> u16 \<Rightarrow> tun_stack \<Rightarrow> (tcp_error + tcpTunnelConn) \<times> string option \<times> bool" where
  "handleInboundConn env c x port s = DialTCP env c (client_values (inbound_values x port s)) x (uint port)"

section \<open>Covered packets find their way\<close>

definition index_ok :: "tun_stack \<Rightarrow> bool" where
  "index_ok s \<longleftrightarrow> (\<forall>index cache. tsIndex s = Some (index, cache) \<longrightarrow> index = New (tsResources s))"

lemma index_once_ok:
  assumes "index_ok s"
  shows "\<exists>cache. tsIndex (index_once s) = Some (New (tsResources s), cache)" "tsPool (index_once s) = tsPool s"
    "tsCanTunnel (index_once s) = tsCanTunnel s"
proof -
  show "\<exists>cache. tsIndex (index_once s) = Some (New (tsResources s), cache)"
  proof (cases "tsIndex s")
    case (Some ic)
    then show ?thesis using assms by (cases ic) (simp add: index_once_def index_ok_def)
  qed (simp add: index_once_def)
qed (simp_all add: index_once_def)

lemma matchStaticResource_eq:
  assumes "index_ok s"
  shows "matchStaticResource x protocol port s = (Match (New (tsResources s)) x protocol port, index_once s)"
  using index_once_ok(1) [OF assms] by (auto simp: matchStaticResource_def)

text \<open>A TCP packet the stack can read, to a global address.\<close>

definition tcp_packet :: "bytes \<Rightarrow> ip \<Rightarrow> u16 \<Rightarrow> bool" where
  "tcp_packet p dst q \<longleftrightarrow> Protocol p = Some TCP \<and> (\<exists>d. Payload p = Some d \<and> DestinationPort d = Some q)
     \<and> DestinationIP p = Some dst \<and> is_global_unicast dst"

text \<open>The rules of the domain a fake or fixed address stands for.\<close>

definition pool_rules :: "tun_stack \<Rightarrow> ip \<Rightarrow> DomainResource list" where
  "pool_rules s dst = (case GetDomain (tsPool s) dst of Some (_, rs) \<Rightarrow> rs | None \<Rightarrow> [])"

lemma domain_find:
  "MatchDomainResource rs network port = find (port_protocol_match network port) rs"
  "MatchDomainResourceWhere rs network port (Some f) = find (\<lambda>r. port_protocol_match network port r \<and> f r) rs"
  by (simp_all add: MatchDomainResource_def MatchDomainResourceWhere_find accepts_def)

lemma route_tcp_domain:
  assumes "tcp_packet p dst q" "\<exists>r \<in> set (pool_rules s dst). port_protocol_match ''tcp'' (uint q) r"
  shows "tun_processIPV4 env p s = map_option (\<lambda>r. (r, s))
    (processIPV4TCP env p (\<exists>r \<in> set (pool_rules s dst). port_protocol_match ''tcp'' (uint q) r \<and> \<not> EnableTCPPrefL3 r) s)"
proof -
  obtain name rs where g: "GetDomain (tsPool s) dst = Some (name, rs)" "pool_rules s dst = rs"
    using assms(2) by (cases "GetDomain (tsPool s) dst") (auto simp: pool_rules_def)
  have m: "MatchDomainResource rs ''tcp'' (uint q) \<noteq> None"
    using assms(2) g(2) by (auto simp: domain_find find_None_iff)
  have f: "(MatchDomainResourceWhere rs ''tcp'' (uint q) (Some (\<lambda>r. \<not> EnableTCPPrefL3 r)) \<noteq> None)
      = (\<exists>r \<in> set rs. port_protocol_match ''tcp'' (uint q) r \<and> \<not> EnableTCPPrefL3 r)"
    unfolding domain_find(2) find_None_iff by blast
  have "tun_processIPV4 env p s = route_packet env p ''tcp'' (uint q) s"
    using assms(1) by (auto simp: tcp_packet_def tun_processIPV4_def)
  also have "\<dots> = map_option (\<lambda>r. (r, s))
      (processIPV4TCP env p (MatchDomainResourceWhere rs ''tcp'' (uint q) (Some (\<lambda>r. \<not> EnableTCPPrefL3 r)) \<noteq> None) s)"
    using assms(1) g(1) m by (simp add: route_packet_def tcp_packet_def)
  finally show ?thesis unfolding f g(2) .
qed

lemma route_tcp_static:
  assumes "tcp_packet p dst q" "\<forall>r \<in> set (pool_rules s dst). \<not> port_protocol_match ''tcp'' (uint q) r" "index_ok s"
  shows "tun_processIPV4 env p s =
    (if \<exists>r \<in> set (tsResources s). ip_hits (dst, ''tcp'', uint q) r then
       map_option (\<lambda>r. (r, index_once s)) (processIPV4TCP env p
         (\<exists>r \<in> set (tsResources s). ip_hits (dst, ''tcp'', uint q) r \<and> \<not> EnableTCPPrefL3 r) (index_once s))
     else Some ((NoAction, Some NoVPNResource), index_once s))"
proof -
  let ?rs = "tsResources s"
  obtain cache where c: "tsIndex (index_once s) = Some (New ?rs, cache)" using index_once_ok(1) [OF assms(3)] by blast
  have nd: "(case GetDomain (tsPool s) dst of
      Some (_, rs) \<Rightarrow> if MatchDomainResource rs ''tcp'' (uint q) \<noteq> None then Some rs else None | None \<Rightarrow> None) = None"
    using assms(2) by (auto simp: pool_rules_def domain_find find_None_iff split: option.splits prod.splits)
  have m: "(Match (New ?rs) dst ''tcp'' (uint q) \<noteq> None) = (\<exists>r \<in> set ?rs. ip_hits (dst, ''tcp'', uint q) r)"
    unfolding Match_def index_match_find by (auto simp: find_None_iff accepts_def)
  have w: "(MatchWhere (New ?rs) dst ''tcp'' (uint q) (\<lambda>r. \<not> EnableTCPPrefL3 r) \<noteq> None)
      = (\<exists>r \<in> set ?rs. ip_hits (dst, ''tcp'', uint q) r \<and> \<not> EnableTCPPrefL3 r)"
    unfolding MatchWhere_def index_match_find by (auto simp: find_None_iff accepts_def)
  have "tun_processIPV4 env p s = route_packet env p ''tcp'' (uint q) s"
    using assms(1) by (auto simp: tcp_packet_def tun_processIPV4_def)
  also have "\<dots> = (case Match (New ?rs) dst ''tcp'' (uint q) of
      None \<Rightarrow> Some ((NoAction, Some NoVPNResource), index_once s)
    | Some _ \<Rightarrow> map_option (\<lambda>r. (r, index_once s)) (processIPV4TCP env p
        (MatchWhere (New ?rs) dst ''tcp'' (uint q) (\<lambda>r. \<not> EnableTCPPrefL3 r) \<noteq> None) (index_once s)))"
    using assms(1) nd c by (simp add: route_packet_def tcp_packet_def matchStaticResource_eq [OF assms(3)] Let_def
        split: option.split)
  finally show ?thesis unfolding w using m by (cases "Match (New ?rs) dst ''tcp'' (uint q)") auto
qed

lemma listener_or_l3:
  assumes "tcp_packet p dst q" "tsCanTunnel s"
  shows "processIPV4TCP env p tunnel s = (if tunnel then Some (DeliverListener p, None) else l3_write env p)"
  using assms by (simp add: processIPV4TCP_def tcp_packet_def)

definition domain_hits :: "tun_stack \<Rightarrow> ip \<Rightarrow> u16 \<Rightarrow> DomainResource set" where
  "domain_hits s dst q = {r \<in> set (pool_rules s dst). port_protocol_match ''tcp'' (uint q) r}"

definition static_hits :: "tun_stack \<Rightarrow> ip \<Rightarrow> u16 \<Rightarrow> IPResource set" where
  "static_hits s dst q = {r \<in> set (tsResources s). ip_hits (dst, ''tcp'', uint q) r}"

text \<open>The dial of the TCP listener's handler finds a rule: the domain's, or one for the address.\<close>

lemma inbound_domain_accepted:
  assumes "r \<in> domain_hits s dst q" "\<not> EnableTCPPrefL3 r" "\<forall>r \<in> set (pool_rules s dst). AppID r \<noteq> []"
  shows "\<exists>t. dial_target_of index (client_values (inbound_values dst q s)) dst (uint q) = Inr t"
proof -
  let ?P = "\<lambda>r. port_protocol_match ''tcp'' (uint q) r \<and> \<not> EnableTCPPrefL3 r"
  have r: "r \<in> set (pool_rules s dst)" "?P r" using assms(1,2) by (auto simp: domain_hits_def)
  obtain r' where r': "find ?P (pool_rules s dst) = Some r'" "r' \<in> set (pool_rules s dst)" "\<not> EnableTCPPrefL3 r'"
    using find_Some_ex [OF r(1), of ?P] r(2) by blast
  obtain d rs where g: "GetDomain (tsPool s) dst = Some (d, rs)" "pool_rules s dst = rs"
    using r(1) by (cases "GetDomain (tsPool s) dst") (auto simp: pool_rules_def)
  have cd: "ctxDomainResource (client_values (inbound_values dst q s)) = Some r'"
    using g r' by (simp add: inbound_values_def client_values_def domain_find)
  show ?thesis using r' assms(3) by (intro tunnel_takes_domain [OF cd]) simp_all
qed

lemma inbound_static_accepted:
  assumes "domain_hits s dst q = {}" "r \<in> static_hits s dst q" "\<not> EnableTCPPrefL3 r"
    "\<forall>r \<in> set (tsResources s). AppID r \<noteq> []"
  shows "\<exists>t. dial_target_of (New (tsResources s)) (client_values (inbound_values dst q s)) dst (uint q) = Inr t"
proof -
  have r: "r \<in> set (tsResources s)" "ip_hits (dst, ''tcp'', uint q) r" using assms(2) by (auto simp: static_hits_def)
  have "find (\<lambda>r. port_protocol_match ''tcp'' (uint q) r \<and> \<not> EnableTCPPrefL3 r) (pool_rules s dst) = None"
    using assms(1) unfolding find_None_iff domain_hits_def by blast
  then have "ctxDomainResource (client_values (inbound_values dst q s)) = None"
    by (simp add: inbound_values_def client_values_def pool_rules_def domain_find split: option.splits prod.splits)
  then show ?thesis using assms(3,4) by (intro tunnel_takes_address [OF r]) simp_all
qed

text \<open>What the stack does with the packet, by the rules that cover it.\<close>

lemma process_domain_packet:
  assumes "tcp_packet p dst q" "tsCanTunnel s" "r \<in> domain_hits s dst q" "\<not> EnableTCPPrefL3 r"
  shows "tun_processIPV4 env p s = Some ((DeliverListener p, None), s)"
proof -
  have e: "\<exists>r \<in> set (pool_rules s dst). port_protocol_match ''tcp'' (uint q) r"
    and f: "\<exists>r \<in> set (pool_rules s dst). port_protocol_match ''tcp'' (uint q) r \<and> \<not> EnableTCPPrefL3 r"
    using assms(3,4) by (auto simp: domain_hits_def)
  show ?thesis unfolding route_tcp_domain [OF assms(1) e] listener_or_l3 [OF assms(1,2)] using f by simp
qed

lemma process_static_packet:
  assumes "tcp_packet p dst q" "index_ok s" "tsCanTunnel s" "domain_hits s dst q = {}"
  shows "tun_processIPV4 env p s =
    (if static_hits s dst q = {} then Some ((NoAction, Some NoVPNResource), index_once s)
     else map_option (\<lambda>r. (r, index_once s))
       (if \<exists>r \<in> static_hits s dst q. \<not> EnableTCPPrefL3 r then Some (DeliverListener p, None) else l3_write env p))"
proof -
  have nd: "\<forall>r \<in> set (pool_rules s dst). \<not> port_protocol_match ''tcp'' (uint q) r"
    using assms(4) by (auto simp: domain_hits_def)
  have lst: "processIPV4TCP env p tunnel (index_once s) = (if tunnel then Some (DeliverListener p, None) else l3_write env p)"
    for tunnel using assms(1,2,3) by (intro listener_or_l3) (simp_all add: index_once_ok(3))
  have e: "(\<exists>r \<in> set (tsResources s). ip_hits (dst, ''tcp'', uint q) r) \<longleftrightarrow> static_hits s dst q \<noteq> {}"
    and f: "(\<exists>r \<in> set (tsResources s). ip_hits (dst, ''tcp'', uint q) r \<and> \<not> EnableTCPPrefL3 r)
      \<longleftrightarrow> (\<exists>r \<in> static_hits s dst q. \<not> EnableTCPPrefL3 r)"
    by (auto simp: static_hits_def)
  show ?thesis unfolding route_tcp_static [OF assms(1) nd assms(2), of env] lst e f by simp
qed

lemma l3_rule_found:
  assumes "r \<in> static_hits s dst q" "EnableTCPPrefL3 r"
  shows "matchL3IPResource (New (tsResources s)) dst ''tcp'' (uint q) \<noteq> None"
  unfolding matchL3IPResource_def MatchWhere_def index_match_find
  using assms by (auto simp: find_None_iff accepts_def static_hits_def)


definition web_packet :: bytes where
  "web_packet = [0x45, 0, 0, 40, 0, 0, 0, 0, 64, 6, 0, 0, 10, 0, 0, 1, 10, 0, 0, 2,
     0x30, 0x39, 0, 22, 0, 0, 0, 0, 0, 0, 0, 0, 0x50, 2, 0, 0, 0, 0, 0, 0]"

definition web_stack :: tun_stack where
  "web_stack = \<lparr>tsResources = [ssh_rule], tsIndex = None,
     tsPool = \<lparr>domainToIP = [], ipToDomain = [], minIP = 1, maxIP = 9, currentIP = 3\<rparr>, tsFakeIP = False, tsCanTunnel = True\<rparr>"

definition web_env :: tun_env where
  "web_env = \<lparr>teDevice = (\<lambda>_. None), teL3Write = (\<lambda>_. None), teHijack = (\<lambda>_. False)\<rparr>"


text \<open>A domain whose rules all prefer the layer-3 tunnel does not work behind a fake address: the packet
  is written to the layer-3 tunnel, where only address rules count.\<close>

lemma fake_address_of_l3_domain_is_lost:
  assumes "tcp_packet p dst q" "tsCanTunnel s" "domain_hits s dst q \<noteq> {}" "\<forall>r \<in> domain_hits s dst q. EnableTCPPrefL3 r"
    "static_hits s dst q = {}"
  shows "tun_processIPV4 env p s = map_option (\<lambda>r. (r, s)) (l3_write env p)"
    and "matchL3IPResource (New (tsResources s)) dst ''tcp'' (uint q) = None"
proof -
  have e: "\<exists>r \<in> set (pool_rules s dst). port_protocol_match ''tcp'' (uint q) r"
    and f: "\<not> (\<exists>r \<in> set (pool_rules s dst). port_protocol_match ''tcp'' (uint q) r \<and> \<not> EnableTCPPrefL3 r)"
    using assms(3,4) by (auto simp: domain_hits_def)
  show "tun_processIPV4 env p s = map_option (\<lambda>r. (r, s)) (l3_write env p)"
    unfolding route_tcp_domain [OF assms(1) e] listener_or_l3 [OF assms(1,2)] if_not_P [OF f] by (rule refl)
  show "matchL3IPResource (New (tsResources s)) dst ''tcp'' (uint q) = None"
    unfolding matchL3IPResource_def MatchWhere_def index_match_find using assms(5)
    by (auto simp: find_None_iff accepts_def static_hits_def)
qed


section \<open>The cache answers like the index\<close>

text \<open>The keys in the ring are the keys of the map, each value is the index's answer, and the ring is
  within its bound.\<close>

definition cache_inv :: "(decision_key \<Rightarrow> bool) \<Rightarrow> resourceDecisionCache \<Rightarrow> bool" where
  "cache_inv ans c \<longleftrightarrow> map_ok (rdValues c) \<and> distinct (rdKeys c) \<and> mkeys (rdValues c) = set (rdKeys c)
     \<and> (\<forall>k v. mget (rdValues c) k = Some v \<longrightarrow> v = ans k)
     \<and> length (rdKeys c) \<le> resourceDecisionCacheSize
     \<and> rdNext c < resourceDecisionCacheSize"

lemma cache_inv_new: "cache_inv ans newResourceDecisionCache"
  by (simp add: cache_inv_def newResourceDecisionCache_def resourceDecisionCacheSize_def mkeys_def)

lemma distinct_update_fresh:
  "distinct xs \<Longrightarrow> i < length xs \<Longrightarrow> k \<notin> set xs \<Longrightarrow> distinct (xs[i := k]) \<and> set (xs[i := k]) = insert k (set xs - {xs ! i})"
  using set_update_distinct [of xs i k] by (simp add: distinct_list_update)

lemma cache_inv_set:
  assumes "cache_inv ans c"
  shows "cache_inv ans (decision_set k (ans k) c)"
proof -
  note i = assms [unfolded cache_inv_def]
  consider (old) v where "mget (rdValues c) k = Some v"
    | (room) "mget (rdValues c) k = None" "length (rdKeys c) < resourceDecisionCacheSize"
    | (full) "mget (rdValues c) k = None" "length (rdKeys c) = resourceDecisionCacheSize"
    using i by (cases "mget (rdValues c) k") (auto simp: le_less)
  then show ?thesis
  proof cases
    case old
    then have "k \<in> mkeys (rdValues c)" by (rule mget_in_keys)
    then show ?thesis using i old by (auto simp: decision_set_def cache_inv_def)
  next
    case room
    then have "k \<notin> set (rdKeys c)" using i by (simp add: mget_None_iff)
    then show ?thesis using i room by (auto simp: decision_set_def cache_inv_def)
  next
    case full
    then have k: "k \<notin> set (rdKeys c)" using i by (simp add: mget_None_iff)
    have n: "rdNext c < length (rdKeys c)" using i full(2) by simp
    note d = distinct_update_fresh [OF _ n k]
    have "(rdNext c + 1) mod resourceDecisionCacheSize < resourceDecisionCacheSize"
      by (simp add: resourceDecisionCacheSize_def)
    then show ?thesis using i full d by (auto simp: decision_set_def cache_inv_def)
  qed
qed

lemma index_match_u32:
  assumes "ip_u32 x = Some u"
  shows "Match t x protocol port = Match t (bytes32 u) protocol port"
  using assms ip_u32_uint32ToIP [of u, unfolded uint32ToIP_def] by (simp add: Match_def index_match_def IPv4Uint32_eq)

definition static_answer :: "IPResource list \<Rightarrow> decision_key \<Rightarrow> bool" where
  "static_answer rs k = (case k of (u, port, protocol) \<Rightarrow> Match (New rs) (bytes32 u) protocol port \<noteq> None)"

definition cached_ok :: "tun_stack \<Rightarrow> bool" where
  "cached_ok s \<longleftrightarrow> (\<forall>index cache. tsIndex s = Some (index, cache) \<longrightarrow>
     index = New (tsResources s) \<and> cache_inv (static_answer (tsResources s)) cache)"

text \<open>Whatever has been asked before, the cached decision is the index's answer, and the cache holds
  at most 4096 decisions.\<close>

lemma cached_decision:
  assumes "cached_ok s" "matchesStaticResource x protocol port s = (b, s')"
  shows "(b \<longleftrightarrow> Match (New (tsResources s)) x protocol port \<noteq> None) \<and> cached_ok s' \<and> tsResources s' = tsResources s"
proof (cases "ip_u32 x")
  case None
  then have "Match (New (tsResources s)) x protocol port = None" by (simp add: Match_def index_match_def IPv4Uint32_eq)
  then show ?thesis using None assms by (simp add: matchesStaticResource_def IPv4Uint32_eq)
next
  case (Some u)
  let ?rs = "tsResources s" and ?k = "(u, port, protocol)"
  have r: "tsResources (index_once s) = ?rs" by (simp add: index_once_def)
  obtain cache where c: "tsIndex (index_once s) = Some (New ?rs, cache)" "cache_inv (static_answer ?rs) cache"
  proof (cases "tsIndex s")
    case None
    then show thesis using that [of newResourceDecisionCache] cache_inv_new by (simp add: index_once_def)
  next
    case (Some ic)
    then show thesis using that assms(1) by (cases ic) (simp add: index_once_def cached_ok_def)
  qed
  have a: "static_answer ?rs ?k \<longleftrightarrow> Match (New ?rs) x protocol port \<noteq> None"
    using index_match_u32 [OF Some] by (simp add: static_answer_def)
  show ?thesis
  proof (cases "decision_get ?k cache")
    case None
    then have b: "b = static_answer ?rs ?k"
      using assms(2) Some c(1) a by (simp add: matchesStaticResource_def IPv4Uint32_eq Let_def)
    have "s' = (index_once s)\<lparr>tsIndex := Some (New ?rs, decision_set ?k b cache)\<rparr>"
      using assms(2) Some c(1) None by (auto simp: matchesStaticResource_def IPv4Uint32_eq Let_def)
    then show ?thesis using a b cache_inv_set [OF c(2), of ?k] r by (simp add: cached_ok_def)
  next
    case (Some d)
    then have "b = d" "s' = index_once s"
      using assms(2) \<open>ip_u32 x = Some u\<close> c(1) by (simp_all add: matchesStaticResource_def IPv4Uint32_eq Let_def)
    moreover have "d = static_answer ?rs ?k" using c(2) Some by (simp add: cache_inv_def decision_get_def)
    ultimately show ?thesis using a c r by (simp add: cached_ok_def)
  qed
qed

end
