(* ===== verification/DnsHijack.thy ===== *)
theory DnsHijack
  imports TunStack
begin

text \<open>
  The DNS handler (\<open>service/dns.go\<close>) and the answers the TUN stack gives to hijacked DNS queries
  (\<open>stack/tun/stack.go\<close>): the reply is built by writing into the slices of a fresh packet. Parsing and
  printing DNS messages and making a record from its text are parameters.
\<close>

section \<open>The handler (dns.go)\<close>

record DNSServer =
  dnResolver :: resolver
  dnLocalDNS :: "ip list"

definition NewDnsServer :: "resolver \<Rightarrow> string list \<Rightarrow> DNSServer" where
  "NewDnsServer r servers =
     \<lparr>dnResolver = r, dnLocalDNS = map parse_ip (filter (\<lambda>s. parse_ip s \<noteq> []) servers)\<rparr>"

definition CheckDnsHijack :: "DNSServer \<Rightarrow> ip \<Rightarrow> bool" where
  "CheckDnsHijack d x \<longleftrightarrow> \<not> list_ex (\<lambda>v. ip_equal v x) (dnLocalDNS d)"

definition TypeA :: nat where "TypeA = 1"
definition TypeAAAA :: nat where "TypeAAAA = 28"

text \<open>One question: its name without the final dot is resolved, and an address of the asked family
  becomes an answer. \<open>newRR\<close> makes a record from its text; \<open>evs\<close> is what the lookups of this question
  answer.\<close>

definition question_name :: "string \<Rightarrow> string" where
  "question_name name = (if 1 < length name \<and> last name = CHR ''.'' then butlast name else name)"

definition resolve_question ::
  "(string \<Rightarrow> 'rr option) \<Rightarrow> bool \<Rightarrow> lookup_event list \<times> string option \<Rightarrow> string \<times> nat \<Rightarrow> resolver
     \<Rightarrow> ('rr list \<times> resolver) option" where
  "resolve_question newRR fake ev q r =
     (case q of (name, qtype) \<Rightarrow>
        if qtype \<noteq> TypeA \<and> qtype \<noteq> TypeAAAA then Some ([], r)
        else (case Resolve (fst ev) (snd ev) (question_name name)
                 \<lparr>rcFakeIP = fake, rcDomainRules = None, rcResolveHost = None\<rparr> r of
            None \<Rightarrow> None
          | Some (_, Inl _, r) \<Rightarrow> Some ([], r)
          | Some (_, Inr x, r) \<Rightarrow>
              Some (if (to4 x \<noteq> []) = (qtype = TypeA) then
                      (case newRR (name @ (if qtype = TypeA then '' A '' else '' AAAA '') @ ip_string x) of
                         Some rr \<Rightarrow> [rr]
                       | None \<Rightarrow> [])
                    else [], r)))"

fun resolve_questions ::
  "(string \<Rightarrow> 'rr option) \<Rightarrow> bool \<Rightarrow> (lookup_event list \<times> string option) list \<Rightarrow> (string \<times> nat) list \<Rightarrow> resolver
     \<Rightarrow> ('rr list \<times> resolver) option" where
  "resolve_questions newRR fake evs [] r = Some ([], r)"
| "resolve_questions newRR fake evs (q # qs) r =
     do {
       (rrs, r) \<leftarrow> resolve_question newRR fake (case evs of [] \<Rightarrow> ([], None) | ev # _ \<Rightarrow> ev) q r;
       (rest, r) \<leftarrow> resolve_questions newRR fake (drop 1 evs) qs r;
       Some (rrs @ rest, r)
     }"

text \<open>\<open>handleSingleDNSResolve\<close>: only queries (opcode 0) are answered.\<close>

definition handleSingleDNSResolve ::
  "(string \<Rightarrow> 'rr option) \<Rightarrow> bool \<Rightarrow> (lookup_event list \<times> string option) list \<Rightarrow> nat \<Rightarrow> (string \<times> nat) list
     \<Rightarrow> DNSServer \<Rightarrow> ('rr list \<times> DNSServer) option" where
  "handleSingleDNSResolve newRR fake evs opcode qs d =
     (if opcode = 0 then
        map_option (\<lambda>(rrs, r). (rrs, d\<lparr>dnResolver := r\<rparr>)) (resolve_questions newRR fake evs qs (dnResolver d))
      else Some ([], d))"


section \<open>The hijacked query (stack.go)\<close>

text \<open>\<open>newPacket.Payload()\<close> is a slice of the packet: what is written to it is written to the packet.\<close>

definition on_payload :: "(bytes \<Rightarrow> bytes option) \<Rightarrow> bytes \<Rightarrow> bytes option" where
  "on_payload f p =
     do { h \<leftarrow> HeaderLen p; t \<leftarrow> TotalLen p; u \<leftarrow> slice p (unat h) (unat t); u \<leftarrow> f u;
          copy_to p (unat h) (unat t) u }"

definition udp_payload_copy :: "bytes \<Rightarrow> bytes \<Rightarrow> bytes option" where
  "udp_payload_copy res u = do { l \<leftarrow> UDP_Length u; copy_to u 8 (unat l) res }"

definition fill_udp :: "bytes \<Rightarrow> bytes \<Rightarrow> bytes \<Rightarrow> bytes option" where
  "fill_udp udp res u =
     do {
       dp \<leftarrow> UDP_DestinationPort udp; u \<leftarrow> UDP_SetSourcePort u dp;
       sp \<leftarrow> UDP_SourcePort udp; u \<leftarrow> UDP_SetDestinationPort u sp;
       u \<leftarrow> UDP_SetLength u (8 + word_of_nat (length res));
       udp_payload_copy res u
     }"

definition hijack_reply :: "bytes \<Rightarrow> bytes \<Rightarrow> bytes \<Rightarrow> bytes option" where
  "hijack_reply p udp res =
     do {
       h \<leftarrow> HeaderLen p;
       let total = unat h + 8 + length res;
       hdr \<leftarrow> slice p 0 (unat h);
       n \<leftarrow> copy_to (replicate total 0) 0 total hdr;
       n \<leftarrow> SetTotalLength n (word_of_nat total);
       dst \<leftarrow> DestinationIP p; n \<leftarrow> SetSourceIP n dst;
       src \<leftarrow> SourceIP p; n \<leftarrow> SetDestinationIP n src;
       n \<leftarrow> on_payload (fill_udp udp res) n;
       psum \<leftarrow> PseudoSum n;
       n \<leftarrow> on_payload (\<lambda>u. UDP_ResetChecksum u psum) n;
       IPv4_ResetChecksum n
     }"

text \<open>\<open>doHijackUDPDns\<close>: the packet written to the device, if any, with the resolver's new state.
  \<open>unpack\<close> and \<open>pack\<close> are the message library's; the answers of the questions go into the reply.\<close>

record ('q, 'rr) dns_lib =
  dlUnpack :: "bytes \<Rightarrow> (nat \<times> (string \<times> nat) list \<times> 'q) option"
  dlPack :: "'q \<Rightarrow> 'rr list \<Rightarrow> bytes option"
  dlNewRR :: "string \<Rightarrow> 'rr option"

definition doHijackUDPDns ::
  "('q, 'rr) dns_lib \<Rightarrow> (lookup_event list \<times> string option) list \<Rightarrow> tun_stack \<Rightarrow> bytes \<Rightarrow> bytes \<Rightarrow> DNSServer
     \<Rightarrow> (bytes option \<times> DNSServer) option" where
  "doHijackUDPDns lib evs s p udp d =
     do {
       q \<leftarrow> UDP_Payload udp;
       (case dlUnpack lib q of
          None \<Rightarrow> Some (None, d)
        | Some (opcode, qs, msg) \<Rightarrow> do {
            (rrs, d) \<leftarrow> handleSingleDNSResolve (dlNewRR lib) (tsFakeIP s \<and> tsCanTunnel s) evs opcode qs d;
            (case dlPack lib msg rrs of
               None \<Rightarrow> Some (None, d)
             | Some res \<Rightarrow> do { r \<leftarrow> hijack_reply p udp res; Some (Some r, d) })
          })
     }"


section \<open>The reply is a correct packet\<close>

lemma header_cells:
  assumes "20 \<le> length h"
  obtains a0 a1 a2 a3 a4 a5 a6 a7 a8 a9 b0 b1 b2 b3 b4 b5 b6 b7 b8 b9 opts where
    "h = [a0, a1, a2, a3, a4, a5, a6, a7, a8, a9, b0, b1, b2, b3, b4, b5, b6, b7, b8, b9] @ opts"
  using assms by (auto simp: numeral_eq_Suc Suc_le_length_iff)

lemma slice_at_length: "length h = n \<Longrightarrow> slice (h @ u) n (n + length u) = Some u"
  by (simp add: slice_def)

lemma copy_append:
  "length h = n \<Longrightarrow> length v = length u \<Longrightarrow> copy_to (h @ u) n (n + length u) v = Some (h @ v)"
  by (simp add: copy_to_def Let_def)

lemma on_payload_append:
  assumes "HeaderLen (h @ u) = Some l" "unat l = length h" "TotalLen (h @ u) = Some t" "unat t = length h + length u"
    "f u = Some v" "length v = length u"
  shows "on_payload f (h @ u) = Some (h @ v)"
  using assms by (simp add: on_payload_def slice_at_length copy_append)


lemma udp_ports:
  assumes "4 \<le> length udp"
  shows "UDP_SourcePort udp = Some (be16 (udp ! 0) (udp ! 1))" "UDP_DestinationPort udp = Some (be16 (udp ! 2) (udp ! 3))"
  using assms be16_at_eq [of 0 udp] be16_at_eq [of 2 udp]
  by (simp_all add: UDP_SourcePort_def UDP_DestinationPort_def numeral_3_eq_3)

definition reply_udp :: "bytes \<Rightarrow> bytes \<Rightarrow> bytes" where
  "reply_udp udp res =
     [udp ! 2, udp ! 3, udp ! 0, udp ! 1, hi8 (word_of_nat (8 + length res)), lo8 (word_of_nat (8 + length res)), 0, 0] @ res"

lemma length_reply_udp [simp]: "length (reply_udp udp res) = 8 + length res"
  by (simp add: reply_udp_def)

lemma udp_payload_copy_eq:
  assumes "unat L = 8 + length res"
  shows "udp_payload_copy res ([a, b, c, d, hi8 L, lo8 L, 0, 0] @ replicate (length res) 0)
    = Some ([a, b, c, d, hi8 L, lo8 L, 0, 0] @ res)"
proof -
  have "UDP_Length ([a, b, c, d, hi8 L, lo8 L, 0, 0] @ replicate (length res) 0) = Some L"
    by (simp add: UDP_Length_def be16_at_def idx_def)
  moreover have "copy_to ([a, b, c, d, hi8 L, lo8 L, 0, 0] @ replicate (length res) 0) 8 (8 + length res) res
      = Some ([a, b, c, d, hi8 L, lo8 L, 0, 0] @ res)"
    using copy_append [of "[a, b, c, d, hi8 L, lo8 L, 0, 0]" 8 res "replicate (length res) 0"] by simp
  ultimately show ?thesis by (simp add: udp_payload_copy_def assms)
qed

lemma fill_udp_eq:
  assumes "4 \<le> length udp" "8 + length res < 65536"
  shows "fill_udp udp res (replicate (8 + length res) 0) = Some (reply_udp udp res)"
proof -
  define L where "L = (word_of_nat (8 + length res) :: u16)"
  have L: "8 + word_of_nat (length res) = L" by (simp add: L_def)
  have uL: "unat L = 8 + length res"
    unfolding L_def using assms(2) by (intro unat_word_of_nat_small) simp
  have z: "replicate (8 + length res) (0 :: byte) = [0, 0, 0, 0, 0, 0, 0, 0] @ replicate (length res) 0"
    by (simp add: numeral_eq_Suc)
  show ?thesis
    using udp_payload_copy_eq [OF uL, of "udp ! 2" "udp ! 3" "udp ! 0" "udp ! 1"]
    unfolding fill_udp_def udp_ports [OF assms(1)] L z reply_udp_def L_def [symmetric]
    by (simp add: UDP_SetSourcePort_def UDP_SetDestinationPort_def UDP_SetLength_def put16_at_def put_def)
qed

lemma udp_reset:
  assumes "8 + length res < 65536" "unat psum < 1000000"
  shows "\<exists>a b. UDP_ResetChecksum (reply_udp udp res) psum = Some ((reply_udp udp res)[6 := a, 7 := b])
    \<and> Checksum psum ((reply_udp udp res)[6 := a, 7 := b]) = (0, 0)"
proof -
  let ?z = "reply_udp udp res"
  obtain a b where c: "Checksum psum ?z = (a, b)" by force
  have z: "?z ! 6 = 0" "?z ! Suc 6 = 0" "Suc 6 < length ?z" by (simp_all add: reply_udp_def)
  have "ref_sum ?z \<le> 65535 * ((length ?z + 1) div 2)" by (rule ref_sum_bound)
  also have "\<dots> \<le> 65535 * 32768" using assms(1) by (intro mult_le_mono) simp_all
  finally have "unat psum + ref_sum ?z + 65535 < 2 ^ 32" using assms(2) by simp
  from Checksum_fill [OF _ z(3,1,2) c this]
  have "Checksum psum (?z[6 := a, Suc 6 := b]) = (0, 0)" by simp
  moreover have "?z[6 := 0, 7 := 0] = ?z" by (simp add: reply_udp_def)
  ultimately show ?thesis using c z(3)
    by (intro exI [of _ a] exI [of _ b])
      (simp add: UDP_ResetChecksum_def UDP_SetChecksum_def SetChecksum_at_def put_def list_update_swap)
qed

lemma unat_PseudoSum:
  assumes "PseudoSum p = Some s"
  shows "unat s < 1000000"
proof -
  obtain a and pr :: byte and d :: u16 where a: "slice p 12 20 = Some a" and s: "s = Sum a + ucast pr + ucast d"
    using assms by (auto simp: PseudoSum_def bind_eq_Some_conv)
  have "length a = 8" using a by (auto simp: slice_Some_iff)
  then have "ref_sum a \<le> 262140" using ref_sum_bound [of a] by simp
  moreover have "unat (Sum a) \<le> ref_sum a" by (simp add: unat_Sum)
  moreover have "unat (ucast pr :: u32) < 256" "unat (ucast d :: u32) < 65536"
    using unat_byte_bound [of pr] unat_u16_bound [of d] by (simp_all add: unsigned_ucast_eq take_bit_nat_eq_self)
  moreover have "unat s \<le> unat (Sum a) + unat (ucast pr :: u32) + unat (ucast d :: u32)"
  proof -
    have "unat s = (unat (Sum a) + unat (ucast pr :: u32) + unat (ucast d :: u32)) mod 2 ^ 32"
      by (simp add: s unat_word_ariths mod_simps)
    then show ?thesis by (simp only: mod_less_eq_dividend)
  qed
  ultimately show ?thesis by linarith
qed


text \<open>The header of the reply: the query's, with the new total length and the addresses exchanged.\<close>

definition reply_header :: "bytes \<Rightarrow> u16 \<Rightarrow> bytes" where
  "reply_header h t =
     take 2 h @ [hi8 t, lo8 t] @ take 8 (drop 4 h) @ take 4 (drop 16 h) @ take 4 (drop 12 h) @ drop 20 h"

lemma reply_header_cells:
  "reply_header ([a0, a1, a2, a3, a4, a5, a6, a7, a8, a9, b0, b1, b2, b3, b4, b5, b6, b7, b8, b9] @ opts) t
   = [a0, a1, hi8 t, lo8 t, a4, a5, a6, a7, a8, a9, b0, b1, b6, b7, b8, b9, b2, b3, b4, b5] @ opts"
  by (simp add: reply_header_def)

lemma length_reply_header: "20 \<le> length h \<Longrightarrow> length (reply_header h t) = length h"
  by (simp add: reply_header_def)

lemma ip_readers_cells:
  "HeaderLen ([a0, a1, a2, a3, a4, a5, a6, a7, a8, a9, b0, b1, b2, b3, b4, b5, b6, b7, b8, b9] @ u) = Some (ucast (a0 AND 0xf) * 4)"
  "TotalLen ([a0, a1, a2, a3, a4, a5, a6, a7, a8, a9, b0, b1, b2, b3, b4, b5, b6, b7, b8, b9] @ u) = Some (be16 a2 a3)"
  "Protocol ([a0, a1, a2, a3, a4, a5, a6, a7, a8, a9, b0, b1, b2, b3, b4, b5, b6, b7, b8, b9] @ u) = Some a9"
  "SourceIP ([a0, a1, a2, a3, a4, a5, a6, a7, a8, a9, b0, b1, b2, b3, b4, b5, b6, b7, b8, b9] @ u) = Some (ipv4 b2 b3 b4 b5)"
  "DestinationIP ([a0, a1, a2, a3, a4, a5, a6, a7, a8, a9, b0, b1, b2, b3, b4, b5, b6, b7, b8, b9] @ u) = Some (ipv4 b6 b7 b8 b9)"
  "PseudoSum ([a0, a1, a2, a3, a4, a5, a6, a7, a8, a9, b0, b1, b2, b3, b4, b5, b6, b7, b8, b9] @ u) = Some (Sum [b2, b3, b4, b5, b6, b7, b8, b9] + ucast a9 + ucast (be16 a2 a3 - ucast (a0 AND 0xf) * 4))"
proof -
  show h: "HeaderLen ([a0, a1, a2, a3, a4, a5, a6, a7, a8, a9, b0, b1, b2, b3, b4, b5, b6, b7, b8, b9] @ u) = Some (ucast (a0 AND 0xf) * 4)" by (simp add: HeaderLen_def idx_def)
  show t: "TotalLen ([a0, a1, a2, a3, a4, a5, a6, a7, a8, a9, b0, b1, b2, b3, b4, b5, b6, b7, b8, b9] @ u) = Some (be16 a2 a3)" by (simp add: TotalLen_def be16_at_def idx_def)
  show p: "Protocol ([a0, a1, a2, a3, a4, a5, a6, a7, a8, a9, b0, b1, b2, b3, b4, b5, b6, b7, b8, b9] @ u) = Some a9" by (simp add: Protocol_def idx_def)
  show "SourceIP ([a0, a1, a2, a3, a4, a5, a6, a7, a8, a9, b0, b1, b2, b3, b4, b5, b6, b7, b8, b9] @ u) = Some (ipv4 b2 b3 b4 b5)" by (simp add: SourceIP_def ip_at_def idx_def)
  show "DestinationIP ([a0, a1, a2, a3, a4, a5, a6, a7, a8, a9, b0, b1, b2, b3, b4, b5, b6, b7, b8, b9] @ u) = Some (ipv4 b6 b7 b8 b9)" by (simp add: DestinationIP_def ip_at_def idx_def)
  have "slice ([a0, a1, a2, a3, a4, a5, a6, a7, a8, a9, b0, b1, b2, b3, b4, b5, b6, b7, b8, b9] @ u) 12 20 = Some [b2, b3, b4, b5, b6, b7, b8, b9]" by (simp add: slice_def)
  then show "PseudoSum ([a0, a1, a2, a3, a4, a5, a6, a7, a8, a9, b0, b1, b2, b3, b4, b5, b6, b7, b8, b9] @ u) = Some (Sum [b2, b3, b4, b5, b6, b7, b8, b9] + ucast a9
      + ucast (be16 a2 a3 - ucast (a0 AND 0xf) * 4))"
    using h t p by (simp add: PseudoSum_def DataLen_def)
qed

lemma ip_writers_cells:
  "SetTotalLength ([a0, a1, a2, a3, a4, a5, a6, a7, a8, a9, b0, b1, b2, b3, b4, b5, b6, b7, b8, b9] @ u) t = Some ([a0, a1, hi8 t, lo8 t, a4, a5, a6, a7, a8, a9, b0, b1, b2, b3, b4, b5, b6, b7, b8, b9] @ u)"
  "SetSourceIP ([a0, a1, a2, a3, a4, a5, a6, a7, a8, a9, b0, b1, b2, b3, b4, b5, b6, b7, b8, b9] @ u) (ipv4 w x y z) = Some ([a0, a1, a2, a3, a4, a5, a6, a7, a8, a9, b0, b1, w, x, y, z, b6, b7, b8, b9] @ u)"
  "SetDestinationIP ([a0, a1, a2, a3, a4, a5, a6, a7, a8, a9, b0, b1, b2, b3, b4, b5, b6, b7, b8, b9] @ u) (ipv4 w x y z) = Some ([a0, a1, a2, a3, a4, a5, a6, a7, a8, a9, b0, b1, b2, b3, b4, b5, w, x, y, z] @ u)"
  by (simp_all add: SetTotalLength_def put16_at_def put_def SetSourceIP_def SetDestinationIP_def copy_to_def Let_def)


lemma hijack_reply_eq:
  assumes p: "ip_header_ok p" "20 \<le> header_len p"
    and udp: "4 \<le> length udp" and len: "header_len p + 8 + length res \<le> 65535"
  defines "h \<equiv> reply_header (take (header_len p) p) (word_of_nat (header_len p + 8 + length res))"
  shows "\<exists>a b s. hijack_reply p udp res = IPv4_ResetChecksum (h @ (reply_udp udp res)[6 := a, 7 := b])
    \<and> Checksum s ((reply_udp udp res)[6 := a, 7 := b]) = (0, 0)
    \<and> length h = header_len p \<and> h ! 0 = p ! 0
    \<and> be16 (h ! 2) (h ! 3) = word_of_nat (header_len p + 8 + length res)
    \<and> (\<forall>u x y. let r = h[10 := x, 11 := y] @ u in PseudoSum r = Some s \<and> HeaderLen r = HeaderLen p
         \<and> TotalLen r = Some (word_of_nat (header_len p + 8 + length res))
         \<and> SourceIP r = DestinationIP p \<and> DestinationIP r = SourceIP p)"
proof -
  let ?k = "header_len p" and ?n = "length res"
  define T where "T = (word_of_nat (?k + 8 + ?n) :: u16)"
  have uT: "unat T = ?k + 8 + ?n" unfolding T_def using len by (intro unat_word_of_nat_small) simp
  have kp: "?k \<le> length p" using p(1) unat_len16_le [of p] by (simp add: ip_header_ok_def)
  have "20 \<le> length (take ?k p)" using p(2) kp by simp
  then obtain a0 a1 a2 a3 a4 a5 a6 a7 a8 a9 b0 b1 b2 b3 b4 b5 b6 b7 b8 b9 opts where
    c: "take ?k p = [a0, a1, a2, a3, a4, a5, a6, a7, a8, a9, b0, b1, b2, b3, b4, b5, b6, b7, b8, b9] @ opts" by (rule header_cells)
  let ?c = "[a0, a1, a2, a3, a4, a5, a6, a7, a8, a9, b0, b1, b2, b3, b4, b5, b6, b7, b8, b9]" and ?r = "[a0, a1, hi8 T, lo8 T, a4, a5, a6, a7, a8, a9, b0, b1, b6, b7, b8, b9, b2, b3, b4, b5]"
  have pc: "p = ?c @ opts @ drop ?k p" using c append_take_drop_id [of ?k p] by simp
  define hl where "hl = (ucast (a0 AND 0xf) * 4 :: u16)"
  have p0: "p ! 0 = a0" by (subst pc) simp
  have uhl: "unat hl = ?k" unfolding hl_def p0 by (rule unat_ihl)
  define H0 where "H0 = ?c @ opts"
  define H1 where "H1 = [a0, a1, hi8 T, lo8 T, a4, a5, a6, a7, a8, a9, b0, b1, b2, b3, b4, b5, b6, b7, b8, b9] @ opts"
  define H2 where "H2 = [a0, a1, hi8 T, lo8 T, a4, a5, a6, a7, a8, a9, b0, b1, b6, b7, b8, b9, b6, b7, b8, b9] @ opts"
  define H3 where "H3 = ?r @ opts"
  have l0: "length H0 = ?k" using c kp by (metis H0_def length_take min_absorb2)
  have l3: "length H3 = ?k" using l0 by (simp add: H0_def H3_def)
  have h: "h = H3" unfolding h_def c T_def [symmetric] H3_def by (rule reply_header_cells)
  have rd1: "HeaderLen p = Some hl" unfolding hl_def by (subst pc) (rule ip_readers_cells)
  have rd2: "DestinationIP p = Some (ipv4 b6 b7 b8 b9)" by (subst pc) (rule ip_readers_cells)
  have rd3: "SourceIP p = Some (ipv4 b2 b3 b4 b5)" by (subst pc) (rule ip_readers_cells)
  have sl: "slice p 0 ?k = Some H0" using kp c by (simp add: slice_def H0_def)
  have cp: "copy_to (replicate (?k + 8 + ?n) 0) 0 (?k + 8 + ?n) H0 = Some (H0 @ replicate (8 + ?n) 0)"
    using l0 by (simp add: copy_to_def Let_def)
  have w1: "SetTotalLength (H0 @ u) T = Some (H1 @ u)" for u
    unfolding H0_def H1_def append_assoc by (rule ip_writers_cells)
  have w2: "SetSourceIP (H1 @ u) (ipv4 b6 b7 b8 b9) = Some (H2 @ u)" for u
    unfolding H1_def H2_def append_assoc by (rule ip_writers_cells)
  have w3: "SetDestinationIP (H2 @ u) (ipv4 b2 b3 b4 b5) = Some (H3 @ u)" for u
    unfolding H2_def H3_def append_assoc by (rule ip_writers_cells)
  have r3: "HeaderLen (H3 @ u) = Some hl" for u
    unfolding H3_def append_assoc hl_def by (rule ip_readers_cells)
  have t3: "TotalLen (H3 @ u) = Some T" for u
    unfolding H3_def append_assoc ip_readers_cells(2) by simp
  define s where "s = Sum [b6, b7, b8, b9, b2, b3, b4, b5] + ucast a9 + ucast (T - hl)"
  have ps: "PseudoSum (H3 @ u) = Some s" for u
    unfolding H3_def append_assoc ip_readers_cells(6) s_def hl_def by simp
  have ps': "let r = H3[10 := x, 11 := y] @ u in PseudoSum r = Some s \<and> HeaderLen r = HeaderLen p
      \<and> TotalLen r = Some T \<and> SourceIP r = DestinationIP p \<and> DestinationIP r = SourceIP p" for u x y
  proof -
    have "H3[10 := x, 11 := y] @ u
        = [a0, a1, hi8 T, lo8 T, a4, a5, a6, a7, a8, a9, x, y, b6, b7, b8, b9, b2, b3, b4, b5] @ (opts @ u)"
      by (simp add: H3_def)
    then show ?thesis unfolding s_def hl_def rd1 rd2 rd3 Let_def by (simp only: ip_readers_cells be16_hi_lo simp_thms)
  qed
  have h3: "H3 ! 0 = p ! 0" "be16 (H3 ! 2) (H3 ! 3) = T" by (simp_all add: H3_def p0)
  let ?z = "replicate (8 + ?n) 0 :: bytes"
  have f1: "on_payload (fill_udp udp res) (H3 @ ?z) = Some (H3 @ reply_udp udp res)"
    using r3 t3 uhl uT l3 len udp
    by (intro on_payload_append [OF r3 _ t3] fill_udp_eq) simp_all
  obtain a b where ab: "UDP_ResetChecksum (reply_udp udp res) s = Some ((reply_udp udp res)[6 := a, 7 := b])"
    "Checksum s ((reply_udp udp res)[6 := a, 7 := b]) = (0, 0)"
    using udp_reset [of res s udp] len unat_PseudoSum [OF ps] by auto
  have f2: "on_payload (\<lambda>u. UDP_ResetChecksum u s) (H3 @ reply_udp udp res)
      = Some (H3 @ (reply_udp udp res)[6 := a, 7 := b])"
    using uhl uT l3 ab(1) by (intro on_payload_append [OF r3 _ t3]) simp_all
  have "hijack_reply p udp res = IPv4_ResetChecksum (H3 @ (reply_udp udp res)[6 := a, 7 := b])"
    unfolding hijack_reply_def rd1 rd2 rd3 Let_def Option.bind.bind_lunit uhl sl cp T_def [symmetric] w1 w2 w3 f1 ps f2 ..
  then show ?thesis using ab(2) ps' h h3 l3 unfolding T_def [symmetric] by blast
qed


lemma reply_udp_reads:
  assumes "8 + length res < 65536" "4 \<le> length udp"
  defines "u \<equiv> \<lambda>a b. (reply_udp udp res)[6 := a, 7 := b]"
  shows "UDP_Valid (u a b) = Some True" "UDP_Payload (u a b) = Some res"
    "UDP_SourcePort (u a b) = UDP_DestinationPort udp" "UDP_DestinationPort (u a b) = UDP_SourcePort udp"
proof -
  define L where "L = (word_of_nat (8 + length res) :: u16)"
  have uL: "unat L = 8 + length res" unfolding L_def using assms(1) by (intro unat_word_of_nat_small) simp
  have u: "u a b = [udp ! 2, udp ! 3, udp ! 0, udp ! 1, hi8 L, lo8 L, a, b] @ res"
    unfolding u_def reply_udp_def L_def [symmetric] by simp
  have ul: "UDP_Length (u a b) = Some L" "length (u a b) = 8 + length res"
    unfolding u by (simp_all add: UDP_Length_def be16_at_def idx_def)
  have us: "slice (u a b) 8 (8 + length res) = Some res" unfolding u by (simp add: slice_def)
  show "UDP_Valid (u a b) = Some True"
    using ul uL unat_len16 [of "u a b"] assms(1) by (simp add: UDP_Valid_def word_le_nat_alt)
  show "UDP_Payload (u a b) = Some res" using us by (simp add: UDP_Payload_def ul(1) uL)
  show "UDP_SourcePort (u a b) = UDP_DestinationPort udp" "UDP_DestinationPort (u a b) = UDP_SourcePort udp"
    unfolding udp_ports [OF assms(2)] u
    by (simp_all add: UDP_SourcePort_def UDP_DestinationPort_def be16_at_def idx_def)
qed

text \<open>
  C20: the reply to a hijacked DNS query is a packet its receiver accepts: its header passes \<open>Verify\<close>, its
  addresses and ports are the query's exchanged, its UDP segment is valid, carries exactly the answer's
  bytes and passes the checksum over pseudo header and segment. This holds for every well-formed query and
  every answer that fits a packet.
\<close>

theorem hijack_reply_wellformed:
  assumes "ip_header_ok p" "20 \<le> header_len p" "4 \<le> length udp" "header_len p + 8 + length res \<le> 65535"
  shows "\<exists>r u s. hijack_reply p udp res = Some r \<and> IPv4_Verify r = Some (r, None)
    \<and> SourceIP r = DestinationIP p \<and> DestinationIP r = SourceIP p
    \<and> Payload r = Some u \<and> UDP_Valid u = Some True \<and> UDP_Payload u = Some res
    \<and> UDP_SourcePort u = UDP_DestinationPort udp \<and> UDP_DestinationPort u = UDP_SourcePort udp
    \<and> PseudoSum r = Some s \<and> Checksum s u = (0, 0)"
proof -
  let ?k = "header_len p" and ?n = "length res" and ?z = "reply_udp udp res"
  define h where "h = reply_header (take ?k p) (word_of_nat (?k + 8 + ?n))"
  obtain a b s where e: "hijack_reply p udp res = IPv4_ResetChecksum (h @ ?z[6 := a, 7 := b])"
    "Checksum s (?z[6 := a, 7 := b]) = (0, 0)" "length h = ?k" "h ! 0 = p ! 0"
    "be16 (h ! 2) (h ! 3) = word_of_nat (?k + 8 + ?n)"
    and rd: "\<And>u x y. let r = h[10 := x, 11 := y] @ u in PseudoSum r = Some s \<and> HeaderLen r = HeaderLen p
         \<and> TotalLen r = Some (word_of_nat (?k + 8 + ?n)) \<and> SourceIP r = DestinationIP p \<and> DestinationIP r = SourceIP p"
    using hijack_reply_eq [OF assms, folded h_def] by blast
  let ?u = "?z[6 := a, 7 := b]"
  let ?m = "h @ ?u"
  have uT: "unat (word_of_nat (?k + 8 + ?n) :: u16) = ?k + 8 + ?n"
    using assms(4) by (intro unat_word_of_nat_small) simp
  have m: "?m ! 0 = p ! 0" "?m ! 2 = h ! 2" "?m ! 3 = h ! 3" "length ?m = ?k + 8 + ?n"
    using e(3,4) assms(2) by (simp_all add: nth_append)
  have um: "unat (len16 ?m) = ?k + 8 + ?n" using m(4) assms(4) by (subst unat_len16) simp_all
  have ok: "ip_header_ok ?m"
    unfolding ip_header_ok_def m um e(5) uT using assms(1,2) by (simp add: ip_header_ok_def)
  have hl: "20 \<le> header_len ?m" using m(1) assms(2) by simp
  obtain x y where xy: "IPv4_ResetChecksum ?m = Some (?m[10 := x, 11 := y])"
    using IPv4_ResetChecksum_eq [of ?m] hl m e(3) by (simp split: prod.splits)
  define r where "r = h[10 := x, 11 := y] @ ?u"
  have re: "?m[10 := x, 11 := y] = r" using e(3) assms(2) by (simp add: r_def list_update_append)
  have r: "hijack_reply p udp res = Some r" using e(1) xy re by simp
  have v: "IPv4_Verify r = Some (r, None)"
    using ipv4_reset_checksum_verifies [OF ok hl xy] unfolding re by blast
  have ra: "PseudoSum r = Some s" "HeaderLen r = HeaderLen p" "TotalLen r = Some (word_of_nat (?k + 8 + ?n))"
    "SourceIP r = DestinationIP p" "DestinationIP r = SourceIP p"
    using rd [of x y ?u] unfolding r_def Let_def by blast+
  have "p \<noteq> []" using assms(1) by (auto simp: ip_header_ok_def)
  then have hp: "HeaderLen p = Some (ucast (p ! 0 AND 0xf) * 4)" by (rule HeaderLen_eq)
  have sl: "slice r ?k (?k + 8 + ?n) = Some ?u"
    using slice_at_length [of "h[10 := x, 11 := y]" ?k ?u] e(3) by (simp add: r_def add.assoc)
  have pl: "Payload r = Some ?u"
    unfolding Payload_def ra(2,3) hp by (simp only: Option.bind.bind_lunit unat_ihl uT sl)
  have "8 + ?n < 65536" using assms(4) by simp
  note ur = reply_udp_reads [OF this assms(3), of a b]
  show ?thesis using r v ra pl ur e(2) by blast
qed

definition dns_query :: bytes where
  "dns_query = [0x45, 0, 0, 30, 0, 0, 0, 0, 64, 17, 0, 0, 10, 0, 0, 1, 10, 0, 0, 53,
     0x30, 0x39, 0, 53, 0, 10, 0, 0, 1, 2]"

theorem hijack_reply_wellformed_witness:
  "\<exists>r. hijack_reply dns_query (drop 20 dns_query) [7, 8, 9] = Some r \<and> IPv4_Verify r = Some (r, None)"
proof -
  have k: "header_len dns_query = 20" by code_simp
  have ok: "ip_header_ok dns_query"
    by (simp add: ip_header_ok_def dns_query_def len16_def unat_be16)
  have "20 \<le> header_len dns_query" "4 \<le> length (drop 20 dns_query)"
    "header_len dns_query + 8 + length [7 :: byte, 8, 9] \<le> 65535"
    unfolding k by (simp_all add: dns_query_def)
  note ok this
  from hijack_reply_wellformed [OF this] show ?thesis by blast
qed

end
