(* ===== verification/UdpForward.thy ===== *)
theory UdpForward
  imports "HOL-Library.Multiset" GoNet
begin

text \<open>
  The UDP port forwarder, \<open>service/udp_forwarding.go\<close>. One goroutine reads the datagrams of all
  clients; each client has a connection with a bounded queue, a worker that dials the server and
  writes the queue to it, and a goroutine that carries the answers back. A janitor closes idle
  connections, a full table evicts the least recently used one, and the bytes waiting in all queues
  share one budget. Every goroutine is a program counter in the state; a step of the system is one
  step of one goroutine, cut at the accesses to shared state, so a list of steps is an interleaving.

  The dialled socket, the client socket, the pool's choices and the clock are parameters of a step.
  The callbacks are no-ops in the code and are left out, as is \<open>handle\<close>, which only the tests call.
\<close>

section \<open>Constants and state\<close>

definition BufferSize :: nat where "BufferSize = 40960"
definition udpForwardQueueSize :: nat where "udpForwardQueueSize = 64"
definition defaultUDPForwardMaxConnections :: int where "defaultUDPForwardMaxConnections = 1024"
definition defaultUDPForwardMaxQueuedBytes :: int where
  "defaultUDPForwardMaxQueuedBytes = 64 * 2 ^ 20"
definition DefaultTimeout :: int where "DefaultTimeout = 300000000000"

text \<open>A client is known by the address and port its datagrams come from.\<close>

type_synonym addrPort = "bytes \<times> u16"

text \<open>\<open>udpDatagram\<close>: the payload, the pooled buffer that backs it (its number) and the bytes it holds
  of the global budget.\<close>

record udpDatagram =
  payload :: bytes
  buffer :: "nat option"
  accountedBytes :: int

text \<open>\<open>UDPConnection\<close>. \<open>closeState\<close> is the state of \<open>closeOnce\<close>: between its two critical sections the
  call is \<open>Closing\<close>. \<open>udp\<close> is the number of the socket.\<close>

datatype once = NotClosed | Closing | CloseDone

record udpConnection =
  send :: "udpDatagram list"
  closed :: bool
  cancelled :: bool
  udp :: "nat option"
  lastActive :: int
  lruElement :: bool
  closeState :: once

text \<open>Where each goroutine stands. The reader is \<open>startUDPForward\<close> with the functions it calls.\<close>

datatype reader_pc =
    RLoop
  | RRead nat
  | RLoad udpDatagram addrPort
  | RCas udpDatagram addrPort int
  | RCreate udpDatagram addrPort
  | REvict udpDatagram nat nat
  | REnqueue udpDatagram nat
  | RClose
  | RWait
  | RReturned

text \<open>\<open>runConnection\<close>, one per connection.\<close>

datatype worker_pc =
    WDial
  | WDialed nat
  | WLoop
  | WWrite udpDatagram
  | WCloseInner bool
  | WJoin bool
  | WCloseOuter
  | WRemove
  | WDrain
  | WExit

text \<open>\<open>forwardResponses\<close>, started by \<open>runConnection\<close>; \<open>PDone\<close> is its result lying in \<open>readDone\<close>.\<close>

datatype response_pc = PNone | PStart | PRead nat | PMark nat bytes | PWrite nat bytes | PDone

datatype janitor_pc = JWait | JClose "nat list" | JExit

datatype closer_pc = CNever | CListener | CSnapshot | CConns "nat list" | CDone

record forward =
  connections :: "(addrPort, nat) gomap"
  connectionLRU :: "addrPort list"
  conns :: "nat \<Rightarrow> udpConnection"
  freshConn :: nat
  keyOf :: "nat \<Rightarrow> addrPort"
  worker :: "nat \<Rightarrow> worker_pc"
  response :: "nat \<Rightarrow> response_pc"
  reader :: reader_pc
  janitorPc :: janitor_pc
  closer :: closer_pc
  timeout :: int
  maxConnections :: int
  maxQueuedBytes :: int
  queuedBytes :: int
  pool :: "nat list"
  freshBuf :: nat
  sockets :: "nat list"
  freshSock :: nat
  ctxDone :: bool
  listenerClosed :: bool
  wg :: nat
  toServer :: "(nat \<times> bytes) list"
  toClient :: "(addrPort \<times> bytes) list"

definition newConnection :: udpConnection where
  "newConnection = \<lparr>send = [], closed = False, cancelled = False, udp = None, lastActive = 0,
     lruElement = False, closeState = NotClosed\<rparr>"

text \<open>The forwarder once \<open>startUDPForward\<close> has started the janitor.\<close>

definition newUDPForward :: forward where
  "newUDPForward =
     \<lparr>connections = [], connectionLRU = [], conns = (\<lambda>_. newConnection), freshConn = 0,
      keyOf = (\<lambda>_. ([], 0)), worker = (\<lambda>_. WExit), response = (\<lambda>_. PNone), reader = RLoop,
      janitorPc = JWait, closer = CNever, timeout = DefaultTimeout,
      maxConnections = defaultUDPForwardMaxConnections,
      maxQueuedBytes = defaultUDPForwardMaxQueuedBytes, queuedBytes = 0, pool = [], freshBuf = 0,
      sockets = [], freshSock = 0, ctxDone = False, listenerClosed = False, wg = 1, toServer = [],
      toClient = []\<rparr>"

definition on_conn :: "nat \<Rightarrow> (udpConnection \<Rightarrow> udpConnection) \<Rightarrow> forward \<Rightarrow> forward" where
  "on_conn c f u = u\<lparr>conns := (conns u)(c := f (conns u c))\<rparr>"

definition set_worker :: "nat \<Rightarrow> worker_pc \<Rightarrow> forward \<Rightarrow> forward" where
  "set_worker c w u = u\<lparr>worker := (worker u)(c := w)\<rparr>"

definition set_response :: "nat \<Rightarrow> response_pc \<Rightarrow> forward \<Rightarrow> forward" where
  "set_response c p u = u\<lparr>response := (response u)(c := p)\<rparr>"


section \<open>Buffers and the byte budget\<close>

text \<open>\<open>sync.Pool.Get\<close> returns any buffer of the pool or a new one, as \<open>pick\<close> decides; the pool may also
  forget a buffer at any time.\<close>

definition getBuffer :: "nat \<Rightarrow> forward \<Rightarrow> nat \<times> forward" where
  "getBuffer pick u =
     (if pick < length (pool u)
      then (pool u ! pick, u\<lparr>pool := remove1 (pool u ! pick) (pool u)\<rparr>)
      else (freshBuf u, u\<lparr>freshBuf := Suc (freshBuf u)\<rparr>))"

definition putBuffer :: "nat \<Rightarrow> forward \<Rightarrow> forward" where
  "putBuffer b u = u\<lparr>pool := b # pool u\<rparr>"

definition pool_drops :: "nat \<Rightarrow> forward \<Rightarrow> forward" where
  "pool_drops b u = u\<lparr>pool := remove1 b (pool u)\<rparr>"

definition releaseDatagram :: "udpDatagram \<Rightarrow> forward \<Rightarrow> forward" where
  "releaseDatagram d u =
     (let u = (if 0 < accountedBytes d then u\<lparr>queuedBytes := queuedBytes u - accountedBytes d\<rparr> else u)
      in case buffer d of Some b \<Rightarrow> putBuffer b u | None \<Rightarrow> u)"

text \<open>\<open>reserveDatagram\<close>: the load and the compare-and-swap of its loop are two atomic accesses, and
  another goroutine may release a datagram between them.\<close>

datatype reservation = Refused | Reserved udpDatagram | Retry

definition reserve_bytes :: "udpDatagram \<Rightarrow> int" where
  "reserve_bytes d = (if buffer d \<noteq> None then int BufferSize else int (length (payload d)))"

definition reserve_cas :: "udpDatagram \<Rightarrow> int \<Rightarrow> forward \<Rightarrow> reservation \<times> forward" where
  "reserve_cas d used u =
     (let n = reserve_bytes d
      in if maxQueuedBytes u - used < n then (Refused, u)
         else if queuedBytes u = used
         then (Reserved (d\<lparr>accountedBytes := n\<rparr>), u\<lparr>queuedBytes := used + n\<rparr>)
         else (Retry, u))"


section \<open>The connection table\<close>

definition touch :: "int \<Rightarrow> nat \<Rightarrow> forward \<Rightarrow> forward" where
  "touch now c u = on_conn c (\<lambda>k. k\<lparr>lastActive := now\<rparr>) u"

definition markConnectionActiveLocked :: "int \<Rightarrow> addrPort \<Rightarrow> nat \<Rightarrow> forward \<Rightarrow> forward" where
  "markConnectionActiveLocked now key c u =
     (let u = touch now c u
      in if \<not> lruElement (conns u c)
         then on_conn c (\<lambda>k. k\<lparr>lruElement := True\<rparr>) (u\<lparr>connectionLRU := connectionLRU u @ [key]\<rparr>)
         else u\<lparr>connectionLRU := move_to_back key (connectionLRU u)\<rparr>)"

definition markConnectionActive :: "int \<Rightarrow> addrPort \<Rightarrow> nat \<Rightarrow> forward \<Rightarrow> forward" where
  "markConnectionActive now key c u =
     (if mget (connections u) key = Some c then markConnectionActiveLocked now key c u else u)"

text \<open>The evicted connection is returned; a key of the list that is not in the table is a nil
  dereference.\<close>

definition makeRoomForConnectionLocked :: "forward \<Rightarrow> (nat option \<times> forward) option" where
  "makeRoomForConnectionLocked u =
     (if maxConnections u \<le> 0 \<or> int (length (connections u)) < maxConnections u then Some (None, u)
      else case connectionLRU u of
          [] \<Rightarrow> Some (None, u)
        | key # rest \<Rightarrow>
            (case mget (connections u) key of
               None \<Rightarrow> None
             | Some c \<Rightarrow>
                 Some (Some c, on_conn c (\<lambda>k. k\<lparr>lruElement := False\<rparr>)
                   (u\<lparr>connections := mdel key (connections u), connectionLRU := rest\<rparr>))))"

definition insertConnection :: "int \<Rightarrow> addrPort \<Rightarrow> forward \<Rightarrow> nat \<times> forward" where
  "insertConnection now key u =
     (let c = freshConn u;
          u = on_conn c (\<lambda>_. newConnection)
                (u\<lparr>freshConn := Suc c, connections := mset key c (connections u),
                   keyOf := (keyOf u)(c := key)\<rparr>);
          u = markConnectionActiveLocked now key c u
      in (c, set_response c PNone (set_worker c WDial (u\<lparr>wg := Suc (wg u)\<rparr>))))"

definition getOrCreateConnection ::
  "int \<Rightarrow> addrPort \<Rightarrow> forward \<Rightarrow> (nat \<times> nat option \<times> forward) option" where
  "getOrCreateConnection now key u =
     (case mget (connections u) key of
        Some c \<Rightarrow> Some (c, None, markConnectionActiveLocked now key c u)
      | None \<Rightarrow>
          (case makeRoomForConnectionLocked u of
             None \<Rightarrow> None
           | Some (evicted, u) \<Rightarrow>
               let (c, u) = insertConnection now key u in Some (c, evicted, u)))"

definition removeConnection :: "addrPort \<Rightarrow> nat \<Rightarrow> forward \<Rightarrow> forward" where
  "removeConnection key c u =
     (if mget (connections u) key = Some c
      then let u = u\<lparr>connections := mdel key (connections u)\<rparr>
           in if lruElement (conns u c)
              then on_conn c (\<lambda>k. k\<lparr>lruElement := False\<rparr>)
                     (u\<lparr>connectionLRU := remove1 key (connectionLRU u)\<rparr>)
              else u
      else u)"


section \<open>One connection\<close>

definition enqueue :: "int \<Rightarrow> udpDatagram \<Rightarrow> nat \<Rightarrow> forward \<Rightarrow> bool \<times> forward" where
  "enqueue now d c u =
     (if closed (conns u c) then (False, u)
      else if length (send (conns u c)) < udpForwardQueueSize
      then (True, touch now c (on_conn c (\<lambda>k. k\<lparr>send := send k @ [d]\<rparr>) u))
      else (False, u))"

text \<open>The context of a connection is a child of the context of the forwarder.\<close>

definition ctx_err :: "forward \<Rightarrow> nat \<Rightarrow> bool" where
  "ctx_err u c \<longleftrightarrow> cancelled (conns u c) \<or> ctxDone u"

definition close_socket :: "nat \<Rightarrow> forward \<Rightarrow> forward" where
  "close_socket s u = u\<lparr>sockets := remove1 s (sockets u)\<rparr>"

definition setUDP :: "nat \<Rightarrow> nat \<Rightarrow> forward \<Rightarrow> bool \<times> forward" where
  "setUDP s c u =
     (if ctx_err u c then (False, close_socket s u)
      else (True, on_conn c (\<lambda>k. k\<lparr>udp := Some s\<rparr>) u))"

text \<open>\<open>close\<close>: the first call runs the critical section of \<open>sendMu\<close>, then that of \<open>udpMu\<close>; every call
  returns when both are done.\<close>

definition close_begin :: "nat \<Rightarrow> forward \<Rightarrow> forward" where
  "close_begin c u = on_conn c (\<lambda>k. k\<lparr>closed := True, cancelled := True, closeState := Closing\<rparr>) u"

definition close_finish :: "nat \<Rightarrow> forward \<Rightarrow> forward" where
  "close_finish c u =
     on_conn c (\<lambda>k. k\<lparr>closeState := CloseDone\<rparr>)
       (case udp (conns u c) of Some s \<Rightarrow> close_socket s u | None \<Rightarrow> u)"

definition close_then :: "nat \<Rightarrow> (forward \<Rightarrow> forward) \<Rightarrow> forward \<Rightarrow> forward option" where
  "close_then c k u =
     (case closeState (conns u c) of
        NotClosed \<Rightarrow> Some (close_begin c u)
      | Closing \<Rightarrow> None
      | CloseDone \<Rightarrow> Some (k u))"



section \<open>The goroutines\<close>

text \<open>The reader: the loop of \<open>startUDPForward\<close> with \<open>handleOwned\<close>, then the deferred \<open>Close\<close> and
  \<open>wg.Wait\<close>. \<open>pick\<close> is the pool's choice, \<open>now\<close> the clock, \<open>got\<close> what \<open>ReadFromUDP\<close> returns.\<close>

definition reader_to :: "reader_pc \<Rightarrow> forward \<Rightarrow> forward" where
  "reader_to r u = u\<lparr>reader := r\<rparr>"

definition read_datagram :: "(bytes \<times> addrPort) option \<Rightarrow> nat \<Rightarrow> forward \<Rightarrow> forward option" where
  "read_datagram got b u =
     (case got of
        None \<Rightarrow> Some (reader_to RClose (putBuffer b u))
      | Some (data, addr) \<Rightarrow>
          if length data \<le> BufferSize \<and> \<not> listenerClosed u
          then Some (reader_to (RLoad \<lparr>payload = data, buffer = Some b, accountedBytes = 0\<rparr> addr) u)
          else None)"

definition reserve_loaded :: "udpDatagram \<Rightarrow> addrPort \<Rightarrow> int \<Rightarrow> forward \<Rightarrow> forward" where
  "reserve_loaded d addr used u =
     (case reserve_cas d used u of
        (Refused, u) \<Rightarrow> reader_to RLoop (releaseDatagram d u)
      | (Reserved d, u) \<Rightarrow> reader_to (RCreate d addr) u
      | (Retry, u) \<Rightarrow> reader_to (RLoad d addr) u)"

definition create_step :: "int \<Rightarrow> udpDatagram \<Rightarrow> addrPort \<Rightarrow> forward \<Rightarrow> forward option" where
  "create_step now d addr u =
     (case getOrCreateConnection now addr u of
        None \<Rightarrow> None
      | Some (c, None, u) \<Rightarrow> Some (reader_to (REnqueue d c) u)
      | Some (c, Some e, u) \<Rightarrow> Some (reader_to (REvict d c e) u))"

definition enqueue_step :: "int \<Rightarrow> udpDatagram \<Rightarrow> nat \<Rightarrow> forward \<Rightarrow> forward" where
  "enqueue_step now d c u =
     (let (sent, u) = enqueue now d c u
      in reader_to RLoop (if sent then u else releaseDatagram d u))"

fun startUDPForward ::
  "reader_pc \<Rightarrow> nat \<Rightarrow> int \<Rightarrow> (bytes \<times> addrPort) option \<Rightarrow> forward \<Rightarrow> forward option" where
  "startUDPForward RLoop pick now got u = (let (b, u) = getBuffer pick u in Some (reader_to (RRead b) u))"
| "startUDPForward (RRead b) pick now got u = read_datagram got b u"
| "startUDPForward (RLoad d addr) pick now got u =
     Some (reader_to (if maxQueuedBytes u \<le> 0 then RCreate d addr else RCas d addr (queuedBytes u)) u)"
| "startUDPForward (RCas d addr used) pick now got u = Some (reserve_loaded d addr used u)"
| "startUDPForward (RCreate d addr) pick now got u = create_step now d addr u"
| "startUDPForward (REvict d c e) pick now got u = close_then e (reader_to (REnqueue d c)) u"
| "startUDPForward (REnqueue d c) pick now got u = Some (enqueue_step now d c u)"
| "startUDPForward RClose pick now got u =
     (case closer u of
        CNever \<Rightarrow> Some (u\<lparr>ctxDone := True, closer := CListener\<rparr>)
      | CDone \<Rightarrow> Some (reader_to RWait u)
      | _ \<Rightarrow> None)"
| "startUDPForward RWait pick now got u = (if wg u = 0 then Some (reader_to RReturned u) else None)"
| "startUDPForward RReturned pick now got u = None"

text \<open>\<open>runConnection\<close> of connection \<open>c\<close>. The choice is the branch that the dial, the write or the
  \<open>select\<close> takes; the deferred calls run from \<open>WCloseInner\<close> and \<open>WCloseOuter\<close> on.\<close>

datatype worker_choice = Succeeds | Fails | TakeDatagram | ReadEnded | ContextDone

fun runConnection :: "worker_pc \<Rightarrow> nat \<Rightarrow> worker_choice \<Rightarrow> forward \<Rightarrow> forward option" where
  "runConnection WDial c ch u =
     (if ch = Succeeds
      then Some (set_worker c (WDialed (freshSock u))
             (u\<lparr>sockets := freshSock u # sockets u, freshSock := Suc (freshSock u)\<rparr>))
      else Some (set_worker c WCloseOuter u))"
| "runConnection (WDialed s) c ch u =
     (let (ok, u) = setUDP s c u
      in Some (if ok then set_response c PStart (set_worker c WLoop u) else set_worker c WCloseOuter u))"
| "runConnection WLoop c ch u =
     (case ch of
        TakeDatagram \<Rightarrow>
          (case send (conns u c) of
             [] \<Rightarrow> None
           | d # ds \<Rightarrow> Some (set_worker c (WWrite d) (on_conn c (\<lambda>k. k\<lparr>send := ds\<rparr>) u)))
      | ReadEnded \<Rightarrow> if response u c = PDone then Some (set_worker c (WCloseInner True) u) else None
      | ContextDone \<Rightarrow> if ctx_err u c then Some (set_worker c (WCloseInner False) u) else None
      | _ \<Rightarrow> None)"
| "runConnection (WWrite d) c ch u =
     (let u' = releaseDatagram d u
      in if ch = Succeeds
         then Some (set_worker c WLoop (u'\<lparr>toServer := toServer u' @ [(c, payload d)]\<rparr>))
         else Some (set_worker c (WCloseInner False) u'))"
| "runConnection (WCloseInner finished) c ch u = close_then c (set_worker c (WJoin finished)) u"
| "runConnection (WJoin finished) c ch u =
     (if finished \<or> response u c = PDone then Some (set_worker c WCloseOuter u) else None)"
| "runConnection WCloseOuter c ch u = close_then c (set_worker c WRemove) u"
| "runConnection WRemove c ch u = Some (set_worker c WDrain (removeConnection (keyOf u c) c u))"
| "runConnection WDrain c ch u =
     (case send (conns u c) of
        [] \<Rightarrow> Some (set_worker c WExit (u\<lparr>wg := wg u - 1\<rparr>))
      | d # ds \<Rightarrow> Some (releaseDatagram d (on_conn c (\<lambda>k. k\<lparr>send := ds\<rparr>) u)))"
| "runConnection WExit c ch u = None"

text \<open>\<open>forwardResponses\<close>: \<open>got\<close> is what the socket's \<open>Read\<close> returns, \<open>sent\<close> whether \<open>WriteToUDP\<close>
  succeeds.\<close>

fun forwardResponses ::
  "response_pc \<Rightarrow> nat \<Rightarrow> nat \<Rightarrow> int \<Rightarrow> bytes option \<Rightarrow> bool \<Rightarrow> forward \<Rightarrow> forward option" where
  "forwardResponses PStart c pick now got sent u =
     (let (b, u) = getBuffer pick u in Some (set_response c (PRead b) u))"
| "forwardResponses (PRead b) c pick now got sent u =
     (case got of
        None \<Rightarrow> Some (set_response c PDone (putBuffer b u))
      | Some data \<Rightarrow> if length data \<le> BufferSize then Some (set_response c (PMark b data) u) else None)"
| "forwardResponses (PMark b data) c pick now got sent u =
     Some (set_response c (PWrite b data) (markConnectionActive now (keyOf u c) c u))"
| "forwardResponses (PWrite b data) c pick now got sent u =
     Some (if sent then set_response c (PRead b) (u\<lparr>toClient := toClient u @ [(keyOf u c, data)]\<rparr>)
           else set_response c PDone (putBuffer b u))"
| "forwardResponses PNone c pick now got sent u = None"
| "forwardResponses PDone c pick now got sent u = None"

text \<open>\<open>janitor\<close>: a tick at \<open>now\<close>, or the end of the context.\<close>

definition janitor_interval :: "int \<Rightarrow> int" where
  "janitor_interval t = (let i = t div 4 in if i \<le> 0 then 1000000000 else i)"

definition stale :: "int \<Rightarrow> forward \<Rightarrow> nat list" where
  "stale now u =
     filter (\<lambda>c. lastActive (conns u c) < now - timeout u) (map snd (connections u))"

fun janitor :: "janitor_pc \<Rightarrow> int option \<Rightarrow> forward \<Rightarrow> forward option" where
  "janitor JWait tick u =
     (case tick of
        Some now \<Rightarrow> Some (u\<lparr>janitorPc := JClose (stale now u)\<rparr>)
      | None \<Rightarrow> if ctxDone u then Some (u\<lparr>janitorPc := JExit, wg := wg u - 1\<rparr>) else None)"
| "janitor (JClose []) tick u = Some (u\<lparr>janitorPc := JWait\<rparr>)"
| "janitor (JClose (c # cs)) tick u = close_then c (\<lambda>u. u\<lparr>janitorPc := JClose cs\<rparr>) u"
| "janitor JExit tick u = None"

text \<open>\<open>Close\<close>, called from anywhere; \<open>closeOnce\<close> lets one call through.\<close>

fun Close :: "closer_pc \<Rightarrow> forward \<Rightarrow> forward option" where
  "Close CNever u = Some (u\<lparr>ctxDone := True, closer := CListener\<rparr>)"
| "Close CListener u = Some (u\<lparr>listenerClosed := True, closer := CSnapshot\<rparr>)"
| "Close CSnapshot u = Some (u\<lparr>closer := CConns (map snd (connections u))\<rparr>)"
| "Close (CConns []) u = Some (u\<lparr>closer := CDone\<rparr>)"
| "Close (CConns (c # cs)) u = close_then c (\<lambda>u. u\<lparr>closer := CConns cs\<rparr>) u"
| "Close CDone u = None"

text \<open>All interleavings: one goroutine makes one step, a \<open>close\<close> in progress ends, or the pool drops
  a buffer. \<open>None\<close> is a step that cannot be made.\<close>

datatype fwd_step =
    ReaderStep nat int "(bytes \<times> addrPort) option"
  | WorkerStep nat worker_choice
  | ResponseStep nat nat int "bytes option" bool
  | JanitorStep "int option"
  | CloserStep
  | CloseFinish nat
  | PoolDrops nat

fun fwd_next :: "fwd_step \<Rightarrow> forward \<Rightarrow> forward option" where
  "fwd_next (ReaderStep pick now got) u = startUDPForward (reader u) pick now got u"
| "fwd_next (WorkerStep c ch) u = (if c < freshConn u then runConnection (worker u c) c ch u else None)"
| "fwd_next (ResponseStep c pick now got sent) u =
     (if c < freshConn u then forwardResponses (response u c) c pick now got sent u else None)"
| "fwd_next (JanitorStep tick) u = janitor (janitorPc u) tick u"
| "fwd_next CloserStep u = Close (closer u) u"
| "fwd_next (CloseFinish c) u =
     (if c < freshConn u \<and> closeState (conns u c) = Closing then Some (close_finish c u) else None)"
| "fwd_next (PoolDrops b) u = Some (pool_drops b u)"

end
