(* ===== verification/UdpBudget.thy ===== *)
theory UdpBudget
  imports UdpForward
begin

text \<open>
  The invariant of the UDP port forwarder (\<open>UdpForward\<close>), stated over the datagrams that are live,
  the buffers and their owners, the table and its list, the phases of the goroutines, the sockets and
  the wait group; and the proofs that every step keeps its first parts: budget, buffers and table.
\<close>

section \<open>What a run preserves\<close>

lemma on_conn_sel [simp]:
  "conns (on_conn c f u) = (conns u)(c := f (conns u c))"
  "connections (on_conn c f u) = connections u" "connectionLRU (on_conn c f u) = connectionLRU u"
  "freshConn (on_conn c f u) = freshConn u" "keyOf (on_conn c f u) = keyOf u"
  "worker (on_conn c f u) = worker u" "response (on_conn c f u) = response u"
  "reader (on_conn c f u) = reader u" "janitorPc (on_conn c f u) = janitorPc u"
  "closer (on_conn c f u) = closer u" "timeout (on_conn c f u) = timeout u"
  "maxConnections (on_conn c f u) = maxConnections u" "maxQueuedBytes (on_conn c f u) = maxQueuedBytes u"
  "queuedBytes (on_conn c f u) = queuedBytes u" "pool (on_conn c f u) = pool u"
  "freshBuf (on_conn c f u) = freshBuf u" "sockets (on_conn c f u) = sockets u"
  "freshSock (on_conn c f u) = freshSock u" "ctxDone (on_conn c f u) = ctxDone u"
  "listenerClosed (on_conn c f u) = listenerClosed u" "wg (on_conn c f u) = wg u"
  by (simp_all add: on_conn_def)

lemmas setter_defs = set_worker_def set_response_def reader_to_def putBuffer_def pool_drops_def
  close_socket_def

text \<open>The datagrams that are somewhere in the forwarder: in the reader's hands, in a queue, or taken
  from one by its worker.\<close>

fun reader_hand :: "reader_pc \<Rightarrow> udpDatagram multiset" where
  "reader_hand (RLoad d addr) = {#d#}"
| "reader_hand (RCas d addr used) = {#d#}"
| "reader_hand (RCreate d addr) = {#d#}"
| "reader_hand (REvict d c e) = {#d#}"
| "reader_hand (REnqueue d c) = {#d#}"
| "reader_hand _ = {#}"

fun worker_hand :: "worker_pc \<Rightarrow> udpDatagram multiset" where
  "worker_hand (WWrite d) = {#d#}"
| "worker_hand _ = {#}"

definition held :: "forward \<Rightarrow> nat \<Rightarrow> udpDatagram multiset" where
  "held u c = Multiset.mset (send (conns u c)) + worker_hand (worker u c)"

definition live :: "forward \<Rightarrow> udpDatagram multiset" where
  "live u = reader_hand (reader u) + (\<Sum>c<freshConn u. held u c)"

text \<open>The buffers and who owns them: the pool, a read in progress, or a live datagram.\<close>

fun reader_buffer :: "reader_pc \<Rightarrow> nat multiset" where
  "reader_buffer (RRead b) = {#b#}"
| "reader_buffer _ = {#}"

fun response_buffer :: "response_pc \<Rightarrow> nat multiset" where
  "response_buffer (PRead b) = {#b#}"
| "response_buffer (PMark b data) = {#b#}"
| "response_buffer (PWrite b data) = {#b#}"
| "response_buffer _ = {#}"

definition datagram_buffer :: "udpDatagram \<Rightarrow> nat multiset" where
  "datagram_buffer d = (case buffer d of Some b \<Rightarrow> {#b#} | None \<Rightarrow> {#})"

definition owned :: "forward \<Rightarrow> nat multiset" where
  "owned u = Multiset.mset (pool u) + reader_buffer (reader u)
     + (\<Sum>c<freshConn u. response_buffer (response u c)) + \<Sum>\<^sub># (image_mset datagram_buffer (live u))"

fun unreserved :: "reader_pc \<Rightarrow> int \<Rightarrow> bool" where
  "unreserved (RLoad d addr) limit = (accountedBytes d = 0)"
| "unreserved (RCas d addr used) limit = (accountedBytes d = 0 \<and> 0 < limit)"
| "unreserved _ limit = True"

definition budget_ok :: "forward \<Rightarrow> bool" where
  "budget_ok u \<longleftrightarrow> queuedBytes u = \<Sum>\<^sub># (image_mset accountedBytes (live u))
     \<and> (\<forall>d \<in># live u. 0 \<le> accountedBytes d)
     \<and> (0 < maxQueuedBytes u \<longrightarrow> queuedBytes u \<le> maxQueuedBytes u)
     \<and> (maxQueuedBytes u \<le> 0 \<longrightarrow> (\<forall>d \<in># live u. accountedBytes d = 0))
     \<and> unreserved (reader u) (maxQueuedBytes u)"

definition buffers_ok :: "forward \<Rightarrow> bool" where
  "buffers_ok u \<longleftrightarrow> (\<forall>b. count (owned u) b \<le> (if b < freshBuf u then 1 else 0))"

definition table_ok :: "forward \<Rightarrow> bool" where
  "table_ok u \<longleftrightarrow> map_ok (connections u) \<and> distinct (connectionLRU u)
     \<and> set (connectionLRU u) = mkeys (connections u)
     \<and> (\<forall>k c. mget (connections u) k = Some c \<longrightarrow> c < freshConn u \<and> keyOf u c = k)
     \<and> (\<forall>c < freshConn u. lruElement (conns u c) \<longleftrightarrow> mget (connections u) (keyOf u c) = Some c)
     \<and> (0 < maxConnections u \<longrightarrow> int (length (connections u)) \<le> maxConnections u)"

text \<open>The connections a goroutine is about to work on.\<close>

fun reader_refs :: "reader_pc \<Rightarrow> nat set" where
  "reader_refs (REvict d c e) = {c, e}"
| "reader_refs (REnqueue d c) = {c}"
| "reader_refs _ = {}"

fun janitor_refs :: "janitor_pc \<Rightarrow> nat set" where
  "janitor_refs (JClose cs) = set cs"
| "janitor_refs _ = {}"

fun closer_refs :: "closer_pc \<Rightarrow> nat set" where
  "closer_refs (CConns cs) = set cs"
| "closer_refs _ = {}"

definition refs_ok :: "forward \<Rightarrow> bool" where
  "refs_ok u \<longleftrightarrow>
     (\<forall>c \<in> reader_refs (reader u) \<union> janitor_refs (janitorPc u) \<union> closer_refs (closer u). c < freshConn u)"

definition phase_ok :: "udpConnection \<Rightarrow> worker_pc \<Rightarrow> response_pc \<Rightarrow> bool" where
  "phase_ok k w p \<longleftrightarrow> length (send k) \<le> udpForwardQueueSize
     \<and> (closed k \<longleftrightarrow> closeState k \<noteq> NotClosed) \<and> (cancelled k \<longleftrightarrow> closeState k \<noteq> NotClosed)
     \<and> (case w of
          WDial \<Rightarrow> udp k = None \<and> p = PNone
        | WDialed s \<Rightarrow> udp k = None \<and> p = PNone
        | WCloseInner r \<Rightarrow> r \<longrightarrow> p = PDone
        | WJoin r \<Rightarrow> (r \<longrightarrow> p = PDone) \<and> closeState k = CloseDone
        | WCloseOuter \<Rightarrow> p \<in> {PNone, PDone}
        | WRemove \<Rightarrow> closeState k = CloseDone \<and> p \<in> {PNone, PDone}
        | WDrain \<Rightarrow> closeState k = CloseDone \<and> p \<in> {PNone, PDone}
        | WExit \<Rightarrow> closeState k = CloseDone \<and> p \<in> {PNone, PDone} \<and> send k = []
        | _ \<Rightarrow> True)"

definition phases_ok :: "forward \<Rightarrow> bool" where
  "phases_ok u \<longleftrightarrow> (\<forall>c < freshConn u. phase_ok (conns u c) (worker u c) (response u c)
     \<and> (worker u c \<in> {WDrain, WExit} \<longrightarrow> mget (connections u) (keyOf u c) \<noteq> Some c))"

definition sockets_ok :: "forward \<Rightarrow> bool" where
  "sockets_ok u \<longleftrightarrow> distinct (sockets u) \<and> (\<forall>s \<in> set (sockets u). s < freshSock u
     \<and> (\<exists>c < freshConn u. worker u c = WDialed s
          \<or> udp (conns u c) = Some s \<and> closeState (conns u c) \<noteq> CloseDone))"

definition shutdown_ok :: "forward \<Rightarrow> bool" where
  "shutdown_ok u \<longleftrightarrow>
     int (wg u) = (\<Sum>c<freshConn u. if worker u c = WExit then 0 else 1) + (if janitorPc u = JExit then 0 else 1)
     \<and> (reader u \<in> {RWait, RReturned} \<longrightarrow> closer u = CDone)
     \<and> (reader u = RReturned \<longrightarrow> wg u = 0)
     \<and> (closer u \<noteq> CNever \<longrightarrow> ctxDone u)
     \<and> (closer u \<notin> {CNever, CListener} \<longrightarrow> listenerClosed u)"

definition fwd_inv :: "forward \<Rightarrow> bool" where
  "fwd_inv u \<longleftrightarrow> budget_ok u \<and> buffers_ok u \<and> table_ok u \<and> refs_ok u \<and> phases_ok u \<and> sockets_ok u
     \<and> shutdown_ok u"



subsection \<open>What each operation leaves alone\<close>

text \<open>The operations of the table and of one connection touch no queue, no buffer, no budget and no
  goroutine.\<close>

definition same_flow :: "forward \<Rightarrow> forward \<Rightarrow> bool" where
  "same_flow u v \<longleftrightarrow> freshConn v = freshConn u \<and> keyOf v = keyOf u \<and> worker v = worker u
     \<and> response v = response u \<and> reader v = reader u \<and> janitorPc v = janitorPc u \<and> closer v = closer u
     \<and> queuedBytes v = queuedBytes u \<and> maxQueuedBytes v = maxQueuedBytes u
     \<and> maxConnections v = maxConnections u \<and> pool v = pool u \<and> freshBuf v = freshBuf u
     \<and> freshSock v = freshSock u \<and> wg v = wg u \<and> ctxDone v = ctxDone u
     \<and> listenerClosed v = listenerClosed u \<and> (\<forall>c. send (conns v c) = send (conns u c))"

lemmas same_flow_sel = same_flow_def [THEN iffD1]

lemma same_flow_mark: "same_flow u (markConnectionActiveLocked now key c u)"
  by (simp add: same_flow_def markConnectionActiveLocked_def touch_def Let_def)

lemma same_flow_markActive: "same_flow u (markConnectionActive now key c u)"
  by (simp add: markConnectionActive_def same_flow_mark) (simp add: same_flow_def)

lemma same_flow_remove: "same_flow u (removeConnection key c u)"
  by (simp add: same_flow_def removeConnection_def Let_def)

lemma same_flow_close_begin: "same_flow u (close_begin c u)"
  by (simp add: same_flow_def close_begin_def)

lemma same_flow_close_finish: "same_flow u (close_finish c u)"
  by (simp add: same_flow_def close_finish_def close_socket_def split: option.splits)

lemma same_flow_setUDP: "setUDP s c u = (ok, v) \<Longrightarrow> same_flow u v"
  by (auto simp: same_flow_def setUDP_def close_socket_def split: if_splits)

lemma same_flow_makeRoom: "makeRoomForConnectionLocked u = Some (e, v) \<Longrightarrow> same_flow u v"
  by (auto simp: same_flow_def makeRoomForConnectionLocked_def split: if_splits list.splits option.splits)

lemmas same_flow_intros = same_flow_mark same_flow_markActive same_flow_remove same_flow_close_begin
  same_flow_close_finish

lemma release_sel [simp]:
  "conns (releaseDatagram d u) = conns u" "connections (releaseDatagram d u) = connections u"
  "connectionLRU (releaseDatagram d u) = connectionLRU u" "freshConn (releaseDatagram d u) = freshConn u"
  "keyOf (releaseDatagram d u) = keyOf u" "worker (releaseDatagram d u) = worker u"
  "response (releaseDatagram d u) = response u" "reader (releaseDatagram d u) = reader u"
  "janitorPc (releaseDatagram d u) = janitorPc u" "closer (releaseDatagram d u) = closer u"
  "maxConnections (releaseDatagram d u) = maxConnections u"
  "maxQueuedBytes (releaseDatagram d u) = maxQueuedBytes u"
  "freshBuf (releaseDatagram d u) = freshBuf u" "sockets (releaseDatagram d u) = sockets u"
  "freshSock (releaseDatagram d u) = freshSock u" "ctxDone (releaseDatagram d u) = ctxDone u"
  "listenerClosed (releaseDatagram d u) = listenerClosed u" "wg (releaseDatagram d u) = wg u"
  "toServer (releaseDatagram d u) = toServer u"
  "queuedBytes (releaseDatagram d u) = queuedBytes u - max 0 (accountedBytes d)"
  "Multiset.mset (pool (releaseDatagram d u)) = datagram_buffer d + Multiset.mset (pool u)"
  by (simp_all add: releaseDatagram_def putBuffer_def datagram_buffer_def Let_def split: option.split)


subsection \<open>The budget\<close>

lemma sum_change:
  fixes f :: "nat \<Rightarrow> 'a :: comm_monoid_add"
  assumes "c < n" "\<And>i. i \<noteq> c \<Longrightarrow> g i = f i"
  shows "(\<Sum>i<n. g i) + f c = (\<Sum>i<n. f i) + g c"
proof -
  have "(\<Sum>i<n. h i) = h c + sum h ({..<n} - {c})" for h :: "nat \<Rightarrow> 'a"
    using assms(1) by (intro sum.remove) simp_all
  moreover have "sum g ({..<n} - {c}) = sum f ({..<n} - {c})"
    using assms(2) by (intro sum.cong) simp_all
  ultimately show ?thesis by (simp add: ac_simps)
qed

lemma live_same:
  assumes "reader_hand (reader v) = reader_hand (reader u)" "freshConn v = freshConn u"
    "\<And>c. c < freshConn u \<Longrightarrow> held v c = held u c"
  shows "live v = live u"
proof -
  have "(\<Sum>c<freshConn u. held v c) = (\<Sum>c<freshConn u. held u c)"
    using assms(3) by (intro sum.cong) simp_all
  then show ?thesis by (simp add: live_def assms(1,2))
qed

lemma live_drop:
  assumes "c < freshConn u" "freshConn v = freshConn u" "reader v = reader u"
    "\<And>i. i \<noteq> c \<Longrightarrow> held v i = held u i" "held u c = add_mset d (held v c)"
  shows "live u = add_mset d (live v)"
  using sum_change [of c "freshConn u" "held v" "held u"] assms
  by (simp add: live_def)

lemma live_give:
  assumes "c < freshConn u" "freshConn v = freshConn u"
    "reader_hand (reader u) = {#d#}" "reader_hand (reader v) = {#}"
    "\<And>i. i \<noteq> c \<Longrightarrow> held v i = held u i" "held v c = add_mset d (held u c)"
  shows "live v = live u"
  using sum_change [of c "freshConn u" "held v" "held u"] assms
  by (simp add: live_def)

lemma live_flow: "same_flow u v \<Longrightarrow> live v = live u"
  by (rule live_same) (simp_all add: same_flow_def held_def)


lemma owned_same:
  "live v = live u \<Longrightarrow> pool v = pool u \<Longrightarrow> reader_buffer (reader v) = reader_buffer (reader u)
   \<Longrightarrow> freshConn v = freshConn u \<Longrightarrow> response v = response u \<Longrightarrow> owned v = owned u"
  by (simp add: owned_def)

lemma owned_flow: "same_flow u v \<Longrightarrow> owned v = owned u"
  by (rule owned_same) (simp_all add: live_flow same_flow_def)

lemma owned_release:
  "live u = add_mset d (live v) \<Longrightarrow> Multiset.mset (pool v) = datagram_buffer d + Multiset.mset (pool u)
   \<Longrightarrow> reader_buffer (reader v) = reader_buffer (reader u) \<Longrightarrow> freshConn v = freshConn u
   \<Longrightarrow> response v = response u \<Longrightarrow> owned v = owned u"
  by (simp add: owned_def)

lemma multiset_exchange:
  fixes n :: "'a multiset"
  assumes "R' + r = R + r'" "P' + r' = P + r + n"
  shows "P' + R' = P + R + n"
proof (rule multiset_eqI)
  fix x show "count (P' + R') x = count (P + R + n) x"
    using arg_cong [OF assms(1), of "\<lambda>m. count m x"] arg_cong [OF assms(2), of "\<lambda>m. count m x"] by simp
qed

lemma owned_response:
  assumes "c < freshConn u" "live v = live u" "reader_buffer (reader v) = reader_buffer (reader u)"
    "freshConn v = freshConn u" "\<And>i. i \<noteq> c \<Longrightarrow> response v i = response u i"
    "Multiset.mset (pool v) + response_buffer (response v c)
       = Multiset.mset (pool u) + response_buffer (response u c) + new"
  shows "owned v = owned u + new"
proof -
  have "(\<Sum>i<freshConn u. response_buffer (response v i)) + response_buffer (response u c)
      = (\<Sum>i<freshConn u. response_buffer (response u i)) + response_buffer (response v c)"
    using assms(1,5) by (intro sum_change) simp_all
  from multiset_exchange [OF this assms(6)]
  show ?thesis using assms(2,3,4) by (simp add: owned_def ac_simps)
qed

text \<open>A step of a worker or of a response goroutine either keeps every live datagram or releases one
  of them with what it holds of the budget.\<close>

definition releases_at_most :: "forward \<Rightarrow> forward \<Rightarrow> bool" where
  "releases_at_most u v \<longleftrightarrow>
     live v = live u \<and> queuedBytes v = queuedBytes u
     \<or> (\<exists>d. live u = add_mset d (live v) \<and> queuedBytes v = queuedBytes u - max 0 (accountedBytes d))"

lemma budget_same:
  assumes "budget_ok u" "live v = live u" "queuedBytes v = queuedBytes u" "maxQueuedBytes v = maxQueuedBytes u"
    "unreserved (reader v) (maxQueuedBytes u)"
  shows "budget_ok v"
  using assms(1,5) unfolding budget_ok_def assms(2-4) by blast

lemma budget_drop:
  assumes "budget_ok u" "live u = add_mset d (live v)" "queuedBytes v = queuedBytes u - max 0 (accountedBytes d)"
    "maxQueuedBytes v = maxQueuedBytes u" "unreserved (reader v) (maxQueuedBytes u)"
  shows "budget_ok v"
proof -
  have d: "0 \<le> accountedBytes d" using assms(1,2) by (simp add: budget_ok_def)
  then have q: "queuedBytes v = queuedBytes u - accountedBytes d" using assms(3) by simp
  show ?thesis
    using assms(1) d unfolding budget_ok_def assms(2,4) q using assms(5) by auto
qed

lemma budget_release:
  assumes "budget_ok u" "releases_at_most u v" "reader v = reader u" "maxQueuedBytes v = maxQueuedBytes u"
  shows "budget_ok v"
proof -
  have "unreserved (reader v) (maxQueuedBytes u)" using assms(1,3) by (simp add: budget_ok_def)
  then show ?thesis using assms budget_same [of u v] budget_drop [of u _ v]
    unfolding releases_at_most_def by blast
qed

definition flow_ok :: "forward \<Rightarrow> forward \<Rightarrow> bool" where
  "flow_ok u v \<longleftrightarrow> releases_at_most u v \<and> owned v = owned u \<and> freshBuf v = freshBuf u \<and> reader v = reader u
    \<and> maxQueuedBytes v = maxQueuedBytes u"

lemma flow_keep:
  "live v = live u \<Longrightarrow> pool v = pool u \<Longrightarrow> queuedBytes v = queuedBytes u \<Longrightarrow> response v = response u
   \<Longrightarrow> freshConn v = freshConn u \<Longrightarrow> freshBuf v = freshBuf u \<Longrightarrow> reader v = reader u
   \<Longrightarrow> maxQueuedBytes v = maxQueuedBytes u \<Longrightarrow> flow_ok u v"
  unfolding flow_ok_def releases_at_most_def by (intro conjI disjI1 owned_same) simp_all

lemma same_flow_refl: "same_flow u u"
  by (simp add: same_flow_def)

lemma flow_same: "same_flow u v \<Longrightarrow> flow_ok u v"
  by (rule flow_keep) (simp_all add: live_flow same_flow_def)

lemma flow_move:
  assumes "same_flow u u'" "worker_hand w = worker_hand (worker u c)"
  shows "flow_ok u (set_worker c w u')"
proof (rule flow_keep)
  show "live (set_worker c w u') = live u"
    using assms by (intro live_same) (simp_all add: set_worker_def same_flow_def held_def)
qed (use assms in \<open>simp_all add: set_worker_def same_flow_def\<close>)

lemma flow_close:
  assumes "close_then c k u = Some v" "flow_ok u (k u)"
  shows "flow_ok u v"
  using assms flow_same [OF same_flow_close_begin, of u c] by (auto simp: close_then_def split: once.splits)

lemma flow_release:
  assumes "live u = add_mset d (live v)" "queuedBytes v = queuedBytes u - max 0 (accountedBytes d)"
    "Multiset.mset (pool v) = datagram_buffer d + Multiset.mset (pool u)" "freshConn v = freshConn u"
    "response v = response u" "freshBuf v = freshBuf u" "reader v = reader u"
    "maxQueuedBytes v = maxQueuedBytes u"
  shows "flow_ok u v"
  unfolding flow_ok_def releases_at_most_def
  using assms owned_release [OF assms(1,3)] by (intro conjI disjI2 exI [of _ d]) simp_all

lemma flow_dialed:
  assumes "c < freshConn u" "worker u c = WDialed s" "response u c = PNone"
    "runConnection (WDialed s) c ch u = Some v"
  shows "flow_ok u v"
proof -
  obtain ok u' where s: "setUDP s c u = (ok, u')" by (cases "setUDP s c u")
  note f = same_flow_setUDP [OF s]
  have v: "v = (if ok then set_response c PStart (set_worker c WLoop u') else set_worker c WCloseOuter u')"
    using assms(4) s by simp
  show ?thesis
  proof (cases ok)
    case True
    have l: "live v = live u"
      using assms(2) f True unfolding v
      by (intro live_same) (simp_all add: set_worker_def set_response_def held_def same_flow_def)
    have "owned v = owned u + {#}"
      using assms(1,3) f l True unfolding v
      by (intro owned_response [of c]) (simp_all add: set_worker_def set_response_def same_flow_def)
    then show ?thesis using f l True unfolding v
      by (simp add: flow_ok_def releases_at_most_def set_worker_def set_response_def same_flow_def)
  next
    case False
    then show ?thesis using flow_move [OF f, of WCloseOuter c] assms(2) by (simp add: v)
  qed
qed

lemma flow_queue_head:
  assumes "c < freshConn u" "worker u c = w" "worker_hand w = {#}" "send (conns u c) = d # ds"
  shows "live (set_worker c (WWrite d) (on_conn c (\<lambda>k. k\<lparr>send := ds\<rparr>) u)) = live u"
    "flow_ok u (releaseDatagram d (on_conn c (\<lambda>k. k\<lparr>send := ds\<rparr>) u))"
  subgoal using assms by (intro live_same) (auto simp: set_worker_def held_def)
  subgoal using assms by (intro flow_release [of u d] live_drop [of c]) (auto simp: held_def)
  done

lemma flow_write:
  assumes "c < freshConn u" "worker u c = WWrite d" "runConnection (WWrite d) c ch u = Some v"
  shows "flow_ok u v"
proof (rule flow_release [of u d])
  show "live u = add_mset d (live v)"
    using assms by (intro live_drop [of c]) (auto simp: set_worker_def held_def Let_def split: if_splits)
qed (use assms in \<open>auto simp: set_worker_def Let_def split: if_splits\<close>)

lemma worker_step_flow:
  assumes "c < freshConn u" "worker u c = w" "phase_ok (conns u c) w (response u c)"
    "runConnection w c ch u = Some v"
  shows "flow_ok u v"
proof (cases w)
  case WDial
  show ?thesis
  proof (cases "ch = Succeeds")
    case True
    then show ?thesis using assms WDial
      by (intro flow_keep live_same) (auto simp: set_worker_def held_def)
  next
    case False
    then show ?thesis using assms WDial flow_move [OF same_flow_refl, of WCloseOuter u c] by simp
  qed
next
  case (WDialed s)
  then show ?thesis using flow_dialed [of c u s ch v] assms by (simp add: phase_ok_def)
next
  case WLoop
  have "ch = TakeDatagram \<Longrightarrow> ?thesis"
    using assms WLoop flow_queue_head(1) [of c u w]
    by (intro flow_keep) (auto simp: set_worker_def split: list.splits)
  moreover have "ch \<noteq> TakeDatagram \<Longrightarrow> ?thesis"
    using assms WLoop flow_move [OF same_flow_refl, of _ u c]
    by (auto split: worker_choice.splits if_splits)
  ultimately show ?thesis by blast
next
  case (WWrite d)
  then show ?thesis using flow_write [of c u d ch v] assms by simp
next
  case (WCloseInner r)
  then show ?thesis using flow_close [of c "set_worker c (WJoin r)" u v] assms
      flow_move [OF same_flow_refl, of "WJoin r" u c] by simp
next
  case (WJoin r)
  then show ?thesis using assms flow_move [OF same_flow_refl, of WCloseOuter u c] by (simp split: if_splits)
next
  case WCloseOuter
  then show ?thesis using flow_close [of c "set_worker c WRemove" u v] assms
      flow_move [OF same_flow_refl, of WRemove u c] by simp
next
  case WRemove
  then show ?thesis using assms flow_move [OF same_flow_remove, of WDrain u c "keyOf u c" c] by auto
next
  case WDrain
  then show ?thesis using assms flow_queue_head(2) [of c u w]
    by (cases "send (conns u c)") (auto intro!: flow_keep live_same simp: set_worker_def held_def)
next
  case WExit
  then show ?thesis using assms by simp
qed


text \<open>Buffers move between owners; only \<open>getBuffer\<close> makes new ones.\<close>

definition buffers_from :: "forward \<Rightarrow> forward \<Rightarrow> bool" where
  "buffers_from u v \<longleftrightarrow> owned v \<subseteq># owned u \<and> freshBuf v = freshBuf u
     \<or> owned v = add_mset (freshBuf u) (owned u) \<and> freshBuf v = Suc (freshBuf u)"

lemma buffers_from_same: "owned v = owned u \<Longrightarrow> freshBuf v = freshBuf u \<Longrightarrow> buffers_from u v"
  by (simp add: buffers_from_def)

lemma buffers_from_flow: "flow_ok u v \<Longrightarrow> buffers_from u v"
  by (simp add: flow_ok_def buffers_from_def)

lemma buffers_from_ok:
  assumes "buffers_ok u" "buffers_from u v"
  shows "buffers_ok v"
  using assms(2) unfolding buffers_from_def
proof (elim disjE conjE)
  assume "owned v \<subseteq># owned u" "freshBuf v = freshBuf u"
  then show ?thesis using assms(1) unfolding buffers_ok_def by (metis mset_subset_eq_count order_trans)
next
  assume v: "owned v = add_mset (freshBuf u) (owned u)" "freshBuf v = Suc (freshBuf u)"
  have "count (add_mset (freshBuf u) (owned u)) b \<le> (if b < Suc (freshBuf u) then 1 else 0)" for b
  proof -
    have "count (owned u) b \<le> (if b < freshBuf u then 1 else 0)"
      using assms(1) unfolding buffers_ok_def by blast
    then show ?thesis by (cases b "freshBuf u" rule: linorder_cases) simp_all
  qed
  then show ?thesis unfolding buffers_ok_def v by blast
qed

lemma getBuffer_cases:
  assumes "getBuffer pick u = (b, u')"
  obtains p n where "u' = u\<lparr>pool := p, freshBuf := n\<rparr>"
    "Multiset.mset (pool u) = add_mset b (Multiset.mset p) \<and> n = freshBuf u
       \<or> p = pool u \<and> b = freshBuf u \<and> n = Suc b"
proof (cases "pick < length (pool u)")
  case True
  then have "pool u ! pick \<in> set (pool u)" by simp
  then show ?thesis using assms True that [where p = "remove1 (pool u ! pick) (pool u)" and n = "freshBuf u"]
    by (auto simp: getBuffer_def)
next
  case False
  then show ?thesis using assms that [where p = "pool u" and n = "Suc (freshBuf u)"] by (auto simp: getBuffer_def)
qed

text \<open>The response goroutine owns the buffer it reads into and returns it when it ends.\<close>

lemma response_step_flow:
  assumes c: "c < freshConn u"
    and step: "forwardResponses (response u c) c pick now got sent u = Some v"
  shows "live v = live u \<and> queuedBytes v = queuedBytes u \<and> reader v = reader u
    \<and> maxQueuedBytes v = maxQueuedBytes u \<and> buffers_from u v"
proof -
  have still: ?thesis
    if l: "live v = live u" and "queuedBytes v = queuedBytes u" "reader v = reader u"
      "maxQueuedBytes v = maxQueuedBytes u" "freshConn v = freshConn u" "freshBuf v = freshBuf u"
      "\<And>i. i \<noteq> c \<Longrightarrow> response v i = response u i"
      "Multiset.mset (pool v) + response_buffer (response v c)
         = Multiset.mset (pool u) + response_buffer (response u c)"
    using that owned_response [OF c l, of "{#}"] by (simp add: buffers_from_same)
  show ?thesis
  proof (cases "response u c")
    case PStart
    obtain b u' where g: "getBuffer pick u = (b, u')" by (cases "getBuffer pick u")
    obtain p n where u': "u' = u\<lparr>pool := p, freshBuf := n\<rparr>"
      "Multiset.mset (pool u) = add_mset b (Multiset.mset p) \<and> n = freshBuf u
         \<or> p = pool u \<and> b = freshBuf u \<and> n = Suc b" by (rule getBuffer_cases [OF g])
    have v: "v = set_response c (PRead b) (u\<lparr>pool := p, freshBuf := n\<rparr>)"
      using step g PStart u'(1) by simp
    have l: "live v = live u" unfolding v by (rule live_same) (simp_all add: set_response_def held_def)
    have "owned v = owned u + (if n = freshBuf u then {#} else {#b#})"
      using u'(2) PStart unfolding v
      by (intro owned_response [OF c l [unfolded v]]) (auto simp: set_response_def)
    then show ?thesis using l u'(2) by (auto simp: v set_response_def buffers_from_def)
  next
    case (PMark b data)
    have v: "v = set_response c (PWrite b data) (markConnectionActive now (keyOf u c) c u)"
      using step PMark by simp
    note f = same_flow_markActive [of u now "keyOf u c" c]
    have "live v = live u" using f unfolding v
      by (intro live_same) (simp_all add: set_response_def held_def same_flow_def)
    then show ?thesis using f PMark
      by (intro still) (simp_all add: v set_response_def same_flow_def)
  qed (intro still live_same; use step in \<open>auto simp: set_response_def putBuffer_def held_def
        split: option.splits if_splits\<close>)+
qed


text \<open>A new connection holds nothing.\<close>

lemma insert_flow:
  assumes "insertConnection now key u = (c, v)"
  shows "live v = live u" "owned v = owned u" "queuedBytes v = queuedBytes u" "freshBuf v = freshBuf u"
    "maxQueuedBytes v = maxQueuedBytes u" "reader v = reader u"
proof -
  have n: "freshConn v = Suc (freshConn u)" "held v (freshConn u) = {#}"
    "response v (freshConn u) = PNone" "pool v = pool u" "reader v = reader u"
    "\<And>i. i < freshConn u \<Longrightarrow> held v i = held u i" "\<And>i. i < freshConn u \<Longrightarrow> response v i = response u i"
    using assms
    by (auto simp: insertConnection_def Let_def held_def set_worker_def set_response_def newConnection_def
        markConnectionActiveLocked_def touch_def)
  have "(\<Sum>i<freshConn u. held v i) = (\<Sum>i<freshConn u. held u i)"
    "(\<Sum>i<freshConn u. response_buffer (response v i)) = (\<Sum>i<freshConn u. response_buffer (response u i))"
    using n(6,7) by (intro sum.cong; simp)+
  then show "live v = live u" "owned v = owned u"
    using n(1-5) by (simp_all add: live_def owned_def)
  show "queuedBytes v = queuedBytes u" "freshBuf v = freshBuf u" "maxQueuedBytes v = maxQueuedBytes u"
    "reader v = reader u"
    using assms by (auto simp: insertConnection_def Let_def set_worker_def set_response_def
        markConnectionActiveLocked_def touch_def)
qed

lemma getOrCreate_flow:
  assumes "getOrCreateConnection now key u = Some (c, e, v)"
  shows "live v = live u" "owned v = owned u" "queuedBytes v = queuedBytes u" "freshBuf v = freshBuf u"
    "maxQueuedBytes v = maxQueuedBytes u" "reader v = reader u"
proof -
  consider "v = markConnectionActiveLocked now key c u"
    | u' where "makeRoomForConnectionLocked u = Some (e, u')" "insertConnection now key u' = (c, v)"
    using assms by (auto simp: getOrCreateConnection_def split: option.splits prod.splits)
  then have "live v = live u \<and> owned v = owned u \<and> queuedBytes v = queuedBytes u \<and> freshBuf v = freshBuf u
    \<and> maxQueuedBytes v = maxQueuedBytes u \<and> reader v = reader u"
  proof cases
    case 1
    then show ?thesis
      using live_flow owned_flow same_flow_mark [of u now key c] by (simp add: same_flow_def)
  next
    case 2
    note f = same_flow_makeRoom [OF 2(1)]
    from insert_flow [OF 2(2)] live_flow [OF f] owned_flow [OF f] f show ?thesis by (simp add: same_flow_def)
  qed
  then show "live v = live u" "owned v = owned u" "queuedBytes v = queuedBytes u" "freshBuf v = freshBuf u"
    "maxQueuedBytes v = maxQueuedBytes u" "reader v = reader u" by simp_all
qed

lemma reader_to_sel [simp]:
  "reader (reader_to r u) = r" "connections (reader_to r u) = connections u" "conns (reader_to r u) = conns u"
  "connectionLRU (reader_to r u) = connectionLRU u" "freshConn (reader_to r u) = freshConn u"
  "keyOf (reader_to r u) = keyOf u" "worker (reader_to r u) = worker u" "response (reader_to r u) = response u"
  "janitorPc (reader_to r u) = janitorPc u" "closer (reader_to r u) = closer u"
  "maxConnections (reader_to r u) = maxConnections u" "maxQueuedBytes (reader_to r u) = maxQueuedBytes u"
  "queuedBytes (reader_to r u) = queuedBytes u" "pool (reader_to r u) = pool u"
  "freshBuf (reader_to r u) = freshBuf u" "sockets (reader_to r u) = sockets u"
  "freshSock (reader_to r u) = freshSock u" "ctxDone (reader_to r u) = ctxDone u"
  "listenerClosed (reader_to r u) = listenerClosed u" "wg (reader_to r u) = wg u"
  by (simp_all add: reader_to_def)

lemma live_reader_to: "live (reader_to r u) + reader_hand (reader u) = live u + reader_hand r"
  by (simp add: live_def held_def ac_simps)

lemma multiset_swap:
  fixes p :: "'a multiset"
  assumes "m' + h = m + h'"
  shows "(p + b' + q + m') + (b + h) = (p + b + q + m) + (b' + h')"
proof (rule multiset_eqI)
  fix x show "count ((p + b' + q + m') + (b + h)) x = count ((p + b + q + m) + (b' + h')) x"
    using arg_cong [OF assms, of "\<lambda>m. count m x"] by simp
qed

lemma owned_reader_to:
  "owned (reader_to r u) + (reader_buffer (reader u) + \<Sum>\<^sub># (image_mset datagram_buffer (reader_hand (reader u))))
     = owned u + (reader_buffer r + \<Sum>\<^sub># (image_mset datagram_buffer (reader_hand r)))"
proof -
  have "\<Sum>\<^sub># (image_mset datagram_buffer (live (reader_to r u))) + \<Sum>\<^sub># (image_mset datagram_buffer (reader_hand (reader u)))
      = \<Sum>\<^sub># (image_mset datagram_buffer (live u)) + \<Sum>\<^sub># (image_mset datagram_buffer (reader_hand r))"
    using arg_cong [OF live_reader_to, of "\<lambda>m. \<Sum>\<^sub># (image_mset datagram_buffer m)" r u] by simp
  then show ?thesis unfolding owned_def reader_to_sel by (rule multiset_swap)
qed

lemma hand_in_live: "d \<in># reader_hand (reader u) \<Longrightarrow> d \<in># live u"
  by (simp add: live_def)

text \<open>Steps that move the reader and leave its datagram as it is.\<close>

lemma reader_moves:
  assumes "budget_ok u" "reader_hand r = reader_hand (reader u)" "reader_buffer r = reader_buffer (reader u)"
    "unreserved r (maxQueuedBytes u)"
  shows "budget_ok (reader_to r u) \<and> buffers_from u (reader_to r u)"
proof
  have "live (reader_to r u) = live u" using live_reader_to [of r u] unfolding assms(2) by (rule add_right_imp_eq)
  then show "budget_ok (reader_to r u)" using assms(1,4) budget_same [of u "reader_to r u"] by simp
  have "owned (reader_to r u) = owned u" using owned_reader_to [of r u] unfolding assms(2,3) by (rule add_right_imp_eq)
  then show "buffers_from u (reader_to r u)" by (simp add: buffers_from_def)
qed

lemma reader_releases:
  assumes "budget_ok u" "reader_hand (reader u) = {#d#}" "reader_buffer (reader u) = {#}"
  shows "budget_ok (reader_to RLoop (releaseDatagram d u)) \<and> buffers_from u (reader_to RLoop (releaseDatagram d u))"
proof
  let ?v = "reader_to RLoop (releaseDatagram d u)"
  have l: "live u = add_mset d (live ?v)" using assms(2) by (simp add: live_def held_def)
  show "budget_ok ?v" by (rule budget_drop [OF assms(1) l]) simp_all
  have "owned ?v = owned u" using assms(3) l by (simp add: owned_def)
  then show "buffers_from u ?v" by (simp add: buffers_from_def)
qed


lemma reader_reserves:
  assumes "budget_ok u" "reader u = RCas d addr used" "reserve_cas d used u = (Reserved d', u')"
  shows "budget_ok (reader_to (RCreate d' addr) u') \<and> buffers_from u (reader_to (RCreate d' addr) u')"
proof
  let ?v = "reader_to (RCreate d' addr) u'"
  define n where "n = reserve_bytes d"
  have r: "n \<le> maxQueuedBytes u - queuedBytes u" "d' = d\<lparr>accountedBytes := n\<rparr>"
    "u' = u\<lparr>queuedBytes := queuedBytes u + n\<rparr>"
    using assms(3) by (auto simp: reserve_cas_def Let_def n_def split: if_splits)
  have n: "0 \<le> n" by (simp add: n_def reserve_bytes_def)
  obtain L where l: "live u = add_mset d L" "live ?v = add_mset d' L"
    using assms(2) r by (simp add: live_def held_def)
  have m: "0 < maxQueuedBytes u" "accountedBytes d = 0" using assms(1,2) by (simp_all add: budget_ok_def)
  have q: "queuedBytes u = \<Sum>\<^sub># (image_mset accountedBytes L)" "\<forall>d \<in># L. 0 \<le> accountedBytes d"
    using assms(1) m(2) unfolding budget_ok_def l(1) by simp_all
  show "budget_ok ?v" unfolding budget_ok_def l(2) using q m r n by simp
  have "datagram_buffer d' = datagram_buffer d" by (simp add: r datagram_buffer_def)
  then have "owned ?v = owned u"
    using assms(2) r l unfolding owned_def by simp
  then show "buffers_from u ?v" using r by (simp add: buffers_from_def)
qed

lemma reader_reads:
  assumes "budget_ok u" "reader u = RRead b" "read_datagram got b u = Some v"
  shows "budget_ok v \<and> buffers_from u v"
proof (cases got)
  case None
  then have v: "v = reader_to RClose (putBuffer b u)" using assms(3) by (simp add: read_datagram_def)
  have l: "live v = live u" using assms(2) unfolding v by (simp add: live_def held_def putBuffer_def)
  then have "owned v = owned u" using assms(2) unfolding owned_def v by (simp add: putBuffer_def)
  moreover have "budget_ok v" using assms(1) l budget_same [of u v] unfolding v by (simp add: putBuffer_def)
  ultimately show ?thesis by (simp add: buffers_from_def v putBuffer_def)
next
  case (Some p)
  then obtain data addr where p: "got = Some (data, addr)" by (cases p) simp
  define d where "d = \<lparr>payload = data, buffer = Some b, accountedBytes = 0\<rparr>"
  have v: "v = reader_to (RLoad d addr) u"
    using assms(3) p by (simp add: read_datagram_def d_def split: if_splits)
  have l: "live v = add_mset d (live u)" using assms(2) unfolding v by (simp add: live_def held_def)
  have "owned v = owned u"
    using assms(2) unfolding owned_def l by (simp add: v datagram_buffer_def d_def)
  moreover have "budget_ok v"
    using assms(1) unfolding budget_ok_def l by (elim conjE, intro conjI) (simp_all add: v d_def)
  ultimately show ?thesis by (simp add: buffers_from_def v)
qed

lemma reader_gets_buffer:
  assumes "budget_ok u" "reader u = RLoop" "getBuffer pick u = (b, u')"
  shows "budget_ok (reader_to (RRead b) u') \<and> buffers_from u (reader_to (RRead b) u')"
proof -
  let ?v = "reader_to (RRead b) u'"
  obtain p n where u': "u' = u\<lparr>pool := p, freshBuf := n\<rparr>"
    "Multiset.mset (pool u) = add_mset b (Multiset.mset p) \<and> n = freshBuf u
       \<or> p = pool u \<and> b = freshBuf u \<and> n = Suc b" by (rule getBuffer_cases [OF assms(3)])
  have l: "live ?v = live u" using assms(2) by (simp add: u'(1) live_def held_def)
  have "owned ?v = owned u + (if n = freshBuf u then {#} else {#b#})"
    using u'(2) assms(2) unfolding owned_def l by (auto simp: u'(1))
  then have "buffers_from u ?v" using u'(2) by (auto simp: buffers_from_def u'(1))
  moreover have "budget_ok ?v" using assms(1) l budget_same [of u ?v] by (simp add: u'(1))
  ultimately show ?thesis by blast
qed

lemma reader_creates:
  assumes "budget_ok u" "reader u = RCreate d addr" "create_step now d addr u = Some v"
  shows "budget_ok v \<and> buffers_from u v"
proof -
  obtain c e u' where g: "getOrCreateConnection now addr u = Some (c, e, u')"
    using assms(3) by (auto simp: create_step_def split: option.splits prod.splits)
  note f = getOrCreate_flow [OF g]
  obtain r where v: "v = reader_to r u'" "reader_hand r = {#d#}" "reader_buffer r = {#}" "unreserved r 0"
    "\<And>m. unreserved r m"
    using assms(3) g by (cases e) (auto simp: create_step_def)
  have "budget_ok u'" using budget_same [OF assms(1) f(1,3,5)] assms(1,2) f(6) by simp
  then have "budget_ok v \<and> buffers_from u' v"
    using reader_moves [of u' r] v assms(2) f(6) by simp
  then show ?thesis using f by (simp add: buffers_from_def)
qed

lemma reader_enqueues:
  assumes "budget_ok u" "reader u = REnqueue d c" "c < freshConn u"
  shows "budget_ok (enqueue_step now d c u) \<and> buffers_from u (enqueue_step now d c u)"
proof -
  obtain sent u' where e: "enqueue now d c u = (sent, u')" by (cases "enqueue now d c u")
  show ?thesis
  proof (cases sent)
    case True
    let ?v = "reader_to RLoop u'"
    have u': "u' = touch now c (on_conn c (\<lambda>k. k\<lparr>send := send k @ [d]\<rparr>) u)"
      using e True by (auto simp: enqueue_def split: if_splits)
    have l: "live ?v = live u"
      using assms(2,3) by (intro live_give [of c u _ d]) (simp_all add: u' held_def touch_def)
    have "owned ?v = owned u" using assms(2) unfolding owned_def l by (simp add: u' touch_def)
    moreover have "budget_ok ?v" using assms(1) l budget_same [of u ?v] by (simp add: u' touch_def)
    ultimately show ?thesis using e True by (simp add: enqueue_step_def buffers_from_def u' touch_def)
  next
    case False
    then have "enqueue_step now d c u = reader_to RLoop (releaseDatagram d u)"
      using e by (auto simp: enqueue_step_def enqueue_def split: if_splits)
    then show ?thesis using reader_releases [of u d] assms by simp
  qed
qed


lemma reader_step_flow:
  assumes "budget_ok u" "refs_ok u" "startUDPForward (reader u) pick now got u = Some v"
  shows "budget_ok v \<and> buffers_from u v"
proof (cases "reader u")
  case RLoop
  then show ?thesis using assms(3) reader_gets_buffer [OF assms(1) RLoop, of pick]
    by (auto split: prod.splits)
next
  case (RRead b)
  then show ?thesis using assms(3) reader_reads [OF assms(1) RRead] by simp
next
  case (RLoad d addr)
  have "accountedBytes d = 0" using assms(1) RLoad by (simp add: budget_ok_def)
  then show ?thesis
    using assms(3) RLoad reader_moves [OF assms(1), of "RCreate d addr"]
      reader_moves [OF assms(1), of "RCas d addr (queuedBytes u)"] by (auto split: if_splits)
next
  case (RCas d addr used)
  obtain res u' where c: "reserve_cas d used u = (res, u')" by (cases "reserve_cas d used u")
  have r: "res \<noteq> Refused \<and> res \<noteq> Retry \<or> u' = u" using c by (auto simp: reserve_cas_def Let_def split: if_splits)
  show ?thesis
  proof (cases res)
    case Refused
    then show ?thesis using assms(3) RCas c r reader_releases [OF assms(1), of d]
      by (simp add: reserve_loaded_def)
  next
    case (Reserved d')
    then show ?thesis using assms(3) RCas c reader_reserves [OF assms(1) RCas, of d' u']
      by (simp add: reserve_loaded_def)
  next
    case Retry
    have "accountedBytes d = 0" using assms(1) RCas by (simp add: budget_ok_def)
    then show ?thesis
      using assms(3) RCas Retry c r reader_moves [OF assms(1), of "RLoad d addr"]
      by (simp add: reserve_loaded_def)
  qed
next
  case (RCreate d addr)
  then show ?thesis using assms(3) reader_creates [OF assms(1) RCreate] by simp
next
  case (REvict d c e)
  have "budget_ok (close_begin e u) \<and> buffers_from u (close_begin e u)"
    using same_flow_close_begin [of u e] flow_same [OF same_flow_close_begin, of u e]
      budget_release [OF assms(1)] by (simp add: flow_ok_def buffers_from_def)
  then show ?thesis using assms(3) REvict reader_moves [OF assms(1), of "REnqueue d c"]
    by (auto simp: close_then_def split: once.splits)
next
  case (REnqueue d c)
  then show ?thesis using assms(2,3) reader_enqueues [OF assms(1) REnqueue, of now] by (simp add: refs_ok_def)
next
  case RClose
  have "budget_ok w \<and> buffers_from u w" if "w = u\<lparr>ctxDone := True, closer := CListener\<rparr>" for w
  proof -
    have l: "live w = live u" unfolding that by (rule live_same) (simp_all add: held_def)
    have "owned w = owned u" by (rule owned_same [OF l]) (simp_all add: that)
    then show ?thesis using assms(1) budget_same [OF assms(1) l] RClose by (simp add: that buffers_from_def)
  qed
  then show ?thesis using assms(3) RClose reader_moves [OF assms(1), of RWait]
    by (auto split: closer_pc.splits)
next
  case RWait
  then show ?thesis using assms(3) reader_moves [OF assms(1), of RReturned] by (auto split: if_splits)
next
  case RReturned
  then show ?thesis using assms(3) by simp
qed

text \<open>The janitor, \<open>Close\<close>, the second half of a \<open>close\<close> and the pool.\<close>

definition same_data :: "forward \<Rightarrow> forward \<Rightarrow> bool" where
  "same_data u v \<longleftrightarrow> freshConn v = freshConn u \<and> worker v = worker u \<and> response v = response u
     \<and> reader v = reader u \<and> queuedBytes v = queuedBytes u \<and> maxQueuedBytes v = maxQueuedBytes u
     \<and> pool v = pool u \<and> freshBuf v = freshBuf u \<and> (\<forall>c. send (conns v c) = send (conns u c))"

lemma flow_data: "same_data u v \<Longrightarrow> flow_ok u v"
  by (rule flow_keep live_same)+ (simp_all add: same_data_def held_def)

lemma close_then_data:
  "close_then c k u = Some v \<Longrightarrow> same_data u (k u) \<Longrightarrow> same_data u v"
  by (auto simp: close_then_def close_begin_def same_data_def split: once.splits)

lemma janitor_flow: "janitor (janitorPc u) tick u = Some v \<Longrightarrow> flow_ok u v"
proof (rule flow_data)
  assume step: "janitor (janitorPc u) tick u = Some v"
  show "same_data u v"
  proof (cases "janitorPc u")
    case (JClose cs)
    then show ?thesis
      using step close_then_data [of _ "\<lambda>u. u\<lparr>janitorPc := JClose (tl cs)\<rparr>" u v]
      by (cases cs) (auto simp: same_data_def)
  qed (use step in \<open>auto simp: same_data_def split: option.splits if_splits\<close>)
qed

lemma closer_flow: "Close (closer u) u = Some v \<Longrightarrow> flow_ok u v"
proof (rule flow_data)
  assume step: "Close (closer u) u = Some v"
  show "same_data u v"
  proof (cases "closer u")
    case (CConns cs)
    then show ?thesis
      using step close_then_data [of _ "\<lambda>u. u\<lparr>closer := CConns (tl cs)\<rparr>" u v]
      by (cases cs) (auto simp: same_data_def)
  qed (use step in \<open>auto simp: same_data_def\<close>)
qed

lemma pool_drops_flow: "live (pool_drops b u) = live u \<and> buffers_from u (pool_drops b u)"
proof -
  have "live (pool_drops b u) = live u" by (rule live_same) (simp_all add: held_def pool_drops_def)
  moreover from this have "owned (pool_drops b u) \<subseteq># owned u"
    unfolding owned_def by (intro subset_mset.add_mono) (simp_all add: pool_drops_def)
  ultimately show ?thesis by (simp add: buffers_from_def pool_drops_def)
qed

text \<open>Every step keeps the budget and the ownership of the buffers.\<close>

lemma step_keeps_flow:
  assumes "budget_ok u" "buffers_ok u" "refs_ok u" "phases_ok u" "fwd_next a u = Some v"
  shows "budget_ok v \<and> buffers_ok v"
proof -
  have flow: ?thesis if "flow_ok u v"
    using that budget_release [OF assms(1), of v] buffers_from_ok [OF assms(2) buffers_from_flow]
    by (simp add: flow_ok_def)
  show ?thesis
  proof (cases a)
    case (ReaderStep pick now got)
    then show ?thesis using reader_step_flow [OF assms(1,3)] buffers_from_ok [OF assms(2)] assms(5) by auto
  next
    case (WorkerStep c ch)
    then have "c < freshConn u" using assms(5) by (simp split: if_splits)
    then show ?thesis using WorkerStep assms(4,5) flow [OF worker_step_flow [of c u]]
      by (simp add: phases_ok_def)
  next
    case (ResponseStep c pick now got sent)
    then have c: "c < freshConn u" and s: "forwardResponses (response u c) c pick now got sent u = Some v"
      using assms(5) by (simp_all split: if_splits)
    note f = response_step_flow [OF c s]
    have "unreserved (reader v) (maxQueuedBytes u)" using f assms(1) by (simp add: budget_ok_def)
    then show ?thesis using f budget_same [OF assms(1), of v] buffers_from_ok [OF assms(2), of v] by simp
  next
    case (JanitorStep tick)
    then show ?thesis using assms(5) flow [OF janitor_flow] by simp
  next
    case CloserStep
    then show ?thesis using assms(5) flow [OF closer_flow] by simp
  next
    case (CloseFinish c)
    then have "v = close_finish c u" using assms(5) by (simp split: if_splits)
    then show ?thesis using flow flow_same [OF same_flow_close_finish] by simp
  next
    case (PoolDrops b)
    then have v: "v = pool_drops b u" using assms(5) by simp
    have "unreserved (reader v) (maxQueuedBytes u)" using assms(1) by (simp add: budget_ok_def v pool_drops_def)
    then show ?thesis
      using pool_drops_flow [of b u] budget_same [OF assms(1), of v] buffers_from_ok [OF assms(2), of v]
      unfolding v by (simp add: pool_drops_def)
  qed
qed

subsection \<open>The table and its list\<close>

text \<open>What the table depends on.\<close>

lemma table_same:
  assumes "table_ok u" "connections v = connections u" "connectionLRU v = connectionLRU u"
    "freshConn v = freshConn u" "keyOf v = keyOf u" "maxConnections v = maxConnections u"
    "\<And>c. lruElement (conns v c) = lruElement (conns u c)"
  shows "table_ok v"
  using assms(1) unfolding table_ok_def assms(2-7) .

lemma table_get:
  "table_ok u \<Longrightarrow> mget (connections u) k = Some c \<Longrightarrow> c < freshConn u \<and> keyOf u c = k \<and> lruElement (conns u c)
     \<and> k \<in> set (connectionLRU u)"
  using mget_in_keys [of "connections u" k c] unfolding table_ok_def by blast

lemma mark_table:
  assumes "table_ok u" "mget (connections u) key = Some c"
  shows "table_ok (markConnectionActiveLocked now key c u)"
proof -
  note g = table_get [OF assms]
  then have "markConnectionActiveLocked now key c u
      = (touch now c u)\<lparr>connectionLRU := move_to_back key (connectionLRU u)\<rparr>"
    by (simp add: markConnectionActiveLocked_def touch_def)
  then show ?thesis using assms(1) g by (auto simp: table_ok_def touch_def)
qed

lemma markActive_table: "table_ok u \<Longrightarrow> table_ok (markConnectionActive now key c u)"
  by (simp add: markConnectionActive_def mark_table)

lemma remove_table:
  assumes "table_ok u"
  shows "table_ok (removeConnection key c u)"
proof (cases "mget (connections u) key = Some c")
  case True
  note g = table_get [OF assms True]
  have "int (length (mdel key (connections u))) \<le> maxConnections u" if "0 < maxConnections u"
    using assms that by (auto simp: table_ok_def length_mdel)
  then show ?thesis using assms True g
    by (auto simp: table_ok_def removeConnection_def Let_def set_remove1_eq)
next
  case False
  then show ?thesis using assms by (simp add: removeConnection_def)
qed

lemma makeRoom_table:
  assumes "table_ok u"
  obtains e v where "makeRoomForConnectionLocked u = Some (e, v)" "table_ok v"
    "0 < maxConnections u \<longrightarrow> int (length (connections v)) < maxConnections u"
    "\<And>c. e = Some c \<Longrightarrow> c < freshConn u" "mkeys (connections v) \<subseteq> mkeys (connections u)"
proof (cases "maxConnections u \<le> 0 \<or> int (length (connections u)) < maxConnections u")
  case True
  then show ?thesis using that [of None u] assms by (auto simp: makeRoomForConnectionLocked_def)
next
  case full: False
  have "mkeys (connections u) \<noteq> {}" using full assms by (auto simp: table_ok_def length_eq_card_mkeys)
  then obtain k rest where l: "connectionLRU u = k # rest" using assms
    by (cases "connectionLRU u") (auto simp: table_ok_def)
  then obtain c where c: "mget (connections u) k = Some c"
    using assms by (metis list.set_intros(1) mget_None_iff not_None_eq table_ok_def)
  let ?v = "on_conn c (\<lambda>k. k\<lparr>lruElement := False\<rparr>)
    (u\<lparr>connections := mdel k (connections u), connectionLRU := rest\<rparr>)"
  note g = table_get [OF assms c]
  have n: "int (length (mdel k (connections u))) < maxConnections u"
    using assms c full mget_in_keys [OF c] by (auto simp: table_ok_def length_mdel length_eq_card_mkeys)
  have "makeRoomForConnectionLocked u = Some (Some c, ?v)"
    using full l c by (simp add: makeRoomForConnectionLocked_def)
  moreover have "table_ok ?v" using assms l g c n by (auto simp: table_ok_def)
  ultimately show ?thesis using that [of "Some c" ?v] g n by auto
qed

lemma insert_table:
  assumes "table_ok u" "mget (connections u) key = None"
    "0 < maxConnections u \<longrightarrow> int (length (connections u)) < maxConnections u"
    "insertConnection now key u = (c, v)"
  shows "table_ok v" "c = freshConn u" "freshConn v = Suc c" "mget (connections v) key = Some c"
proof -
  have v: "connections v = mset key c (connections u)" "connectionLRU v = connectionLRU u @ [key]"
    "freshConn v = Suc c" "c = freshConn u" "keyOf v = (keyOf u)(c := key)" "maxConnections v = maxConnections u"
    "\<And>i. lruElement (conns v i) = (if i = c then True else lruElement (conns u i))"
    using assms(4) by (auto simp: insertConnection_def Let_def set_worker_def set_response_def newConnection_def
        markConnectionActiveLocked_def touch_def)
  have k: "key \<notin> mkeys (connections u)" using assms(2) by (simp add: mget_None_iff)
  have old: "mget (connections u) k \<noteq> Some c" for k
    using table_get [OF assms(1), of k c] v(4) by auto
  have "int (length (mset key c (connections u))) \<le> maxConnections u" if "0 < maxConnections u"
    using assms(1,3) that k by (simp add: table_ok_def length_mset)
  then show "table_ok v" using assms(1,2) k old unfolding table_ok_def v(1-3,5-7)
    by (auto simp: v(4) less_Suc_eq)
  show "c = freshConn u" "freshConn v = Suc c" "mget (connections v) key = Some c" using v by simp_all
qed

text \<open>A datagram always gets a connection: the table never panics, and it stays within its bound.\<close>

lemma getOrCreate_returns:
  assumes "table_ok u"
  obtains c e v where "getOrCreateConnection now key u = Some (c, e, v)" "table_ok v" "c < freshConn v"
    "freshConn u \<le> freshConn v" "mget (connections v) key = Some c" "\<And>k. e = Some k \<Longrightarrow> k < freshConn u"
proof (cases "mget (connections u) key")
  case None
  obtain e v where m: "makeRoomForConnectionLocked u = Some (e, v)" "table_ok v"
    "0 < maxConnections u \<longrightarrow> int (length (connections v)) < maxConnections u"
    "\<And>c. e = Some c \<Longrightarrow> c < freshConn u" "mkeys (connections v) \<subseteq> mkeys (connections u)"
    using makeRoom_table [OF assms] by metis
  obtain c w where i: "insertConnection now key v = (c, w)" by (cases "insertConnection now key v")
  have f: "same_flow u v" using same_flow_makeRoom [OF m(1)] .
  have "mget (connections v) key = None" using None m(5) by (auto simp: mget_None_iff)
  from insert_table [OF m(2) this _ i] m(3) f
  have "table_ok w" "c = freshConn u" "freshConn w = Suc c" "mget (connections w) key = Some c"
    by (simp_all add: same_flow_def)
  then show ?thesis using that [of c e w] None m(1,4) i by (simp add: getOrCreateConnection_def)
next
  case (Some c)
  then show ?thesis
    using that [of c None "markConnectionActiveLocked now key c u"] mark_table [OF assms Some]
      table_get [OF assms Some] same_flow_mark [of u now key c]
    by (simp add: getOrCreateConnection_def same_flow_def markConnectionActiveLocked_def touch_def Let_def)
qed


text \<open>The other steps touch neither the table nor its list.\<close>

lemma close_begin_table: "table_ok u \<Longrightarrow> table_ok (close_begin c u)"
  by (rule table_same [of u]) (simp_all add: close_begin_def)

lemma close_finish_table: "table_ok u \<Longrightarrow> table_ok (close_finish c u)"
  by (rule table_same [of u]) (simp_all add: close_finish_def close_socket_def split: option.split)

lemma close_then_table:
  "close_then c k u = Some v \<Longrightarrow> table_ok u \<Longrightarrow> (table_ok u \<Longrightarrow> table_ok (k u)) \<Longrightarrow> table_ok v"
  using close_begin_table [of u c] by (auto simp: close_then_def split: once.splits)

lemma worker_table:
  assumes "table_ok u" "runConnection w c ch u = Some v"
  shows "table_ok v"
proof -
  have same: ?thesis if "connections v = connections u" "connectionLRU v = connectionLRU u"
    "freshConn v = freshConn u" "keyOf v = keyOf u" "maxConnections v = maxConnections u"
    "\<And>c. lruElement (conns v c) = lruElement (conns u c)"
    using table_same [OF assms(1)] that by blast
  have k: "table_ok (set_worker c w' u') \<longleftrightarrow> table_ok u'" for w' u'
    by (simp add: table_ok_def set_worker_def)
  show ?thesis
  proof (cases w)
    case WRemove
    then show ?thesis using assms remove_table [OF assms(1), of "keyOf u c" c] k by auto
  next
    case (WCloseInner r)
    then show ?thesis using assms k close_then_table [of c "set_worker c (WJoin r)" u v] by simp
  next
    case WCloseOuter
    then show ?thesis using assms k close_then_table [of c "set_worker c WRemove" u v] by simp
  next
    case (WDialed s)
    then show ?thesis using assms(2)
      by (intro same) (auto simp: setUDP_def set_worker_def set_response_def close_socket_def split: if_splits)
  next
    case WLoop
    then show ?thesis using assms(2)
      by (intro same) (auto simp: set_worker_def split: worker_choice.splits list.splits if_splits)
  next
    case WDrain
    then show ?thesis using assms(2)
      by (intro same) (auto simp: set_worker_def split: list.splits if_splits)
  qed (intro same; use assms(2) in \<open>auto simp: set_worker_def Let_def split: if_splits\<close>)+
qed

lemma response_table:
  assumes "table_ok u" "forwardResponses p c pick now got sent u = Some v"
  shows "table_ok v"
proof -
  have k: "table_ok (set_response c p u') \<longleftrightarrow> table_ok u'" for p u'
    by (simp add: table_ok_def set_response_def)
  have d: "table_ok (u\<lparr>pool := x\<rparr>)" "table_ok (u\<lparr>freshBuf := n\<rparr>)" "table_ok (u\<lparr>toClient := y\<rparr>)" for x n y
    using assms(1) by (simp_all add: table_ok_def)
  show ?thesis using assms markActive_table [OF assms(1), of now "keyOf u c" c] d
    by (cases p) (auto simp: k getBuffer_def putBuffer_def Let_def split: option.splits if_splits)
qed

lemma reader_table:
  assumes "table_ok u" "startUDPForward r pick now got u = Some v"
  shows "table_ok v"
proof -
  have k: "table_ok (reader_to r u') \<longleftrightarrow> table_ok u'" for r u'
    by (simp add: table_ok_def)
  have rel: "table_ok (releaseDatagram d u)" for d
    using assms(1) by (simp add: table_ok_def)
  have d: "table_ok (u\<lparr>pool := x\<rparr>)" "table_ok (u\<lparr>freshBuf := n\<rparr>)" "table_ok (u\<lparr>queuedBytes := q\<rparr>)"
    "table_ok (u\<lparr>ctxDone := a, closer := y\<rparr>)" for x n y q a
    using assms(1) by (simp_all add: table_ok_def)
  show ?thesis
  proof (cases r)
    case (RCreate dg addr)
    obtain c e w where g: "getOrCreateConnection now addr u = Some (c, e, w)" "table_ok w"
      using getOrCreate_returns [OF assms(1), of now addr] by metis
    then show ?thesis using assms(2) RCreate by (cases e) (auto simp: create_step_def k)
  next
    case (RCas dg addr used)
    then show ?thesis using assms rel d
      by (auto simp: reserve_loaded_def reserve_cas_def k Let_def split: if_splits)
  next
    case (REvict dg c e)
    then show ?thesis using assms k close_then_table [of e "reader_to (REnqueue dg c)" u v] by simp
  next
    case (REnqueue dg c)
    have "table_ok (touch now c (on_conn c (\<lambda>k. k\<lparr>send := send k @ [dg]\<rparr>) u))"
      using assms(1) by (rule table_same) (simp_all add: touch_def)
    then show ?thesis using assms REnqueue rel
      by (auto simp: enqueue_step_def enqueue_def k split: if_splits)
  qed (use assms d in \<open>auto simp: k getBuffer_def putBuffer_def read_datagram_def Let_def
        split: option.splits if_splits closer_pc.splits\<close>)
qed

lemma step_keeps_table:
  assumes "table_ok u" "fwd_next a u = Some v"
  shows "table_ok v"
proof (cases a)
  case (JanitorStep tick)
  have d: "table_ok (u'\<lparr>janitorPc := j\<rparr>) \<longleftrightarrow> table_ok u'" "table_ok (u'\<lparr>janitorPc := j, wg := n\<rparr>) \<longleftrightarrow> table_ok u'"
    for j n u' by (simp_all add: table_ok_def)
  show ?thesis
  proof (cases "janitorPc u")
    case (JClose cs)
    then show ?thesis using assms JanitorStep d
        close_then_table [of _ "\<lambda>u. u\<lparr>janitorPc := JClose (tl cs)\<rparr>" u v] by (cases cs) auto
  qed (use assms JanitorStep d in \<open>auto split: option.splits if_splits\<close>)
next
  case CloserStep
  have d: "table_ok (u'\<lparr>closer := j\<rparr>) \<longleftrightarrow> table_ok u'" "table_ok (u'\<lparr>ctxDone := x, closer := j\<rparr>) \<longleftrightarrow> table_ok u'"
    "table_ok (u'\<lparr>listenerClosed := x, closer := j\<rparr>) \<longleftrightarrow> table_ok u'"
    "table_ok (u'\<lparr>closer := j, ctxDone := x\<rparr>) \<longleftrightarrow> table_ok u'"
    "table_ok (u'\<lparr>closer := j, listenerClosed := x\<rparr>) \<longleftrightarrow> table_ok u'" for j x u' by (simp_all add: table_ok_def)
  show ?thesis
  proof (cases "closer u")
    case (CConns cs)
    then show ?thesis using assms CloserStep d
        close_then_table [of _ "\<lambda>u. u\<lparr>closer := CConns (tl cs)\<rparr>" u v] by (cases cs) auto
  qed (use assms CloserStep d in auto)
next
  case (PoolDrops b)
  then show ?thesis using assms by (auto simp: table_ok_def pool_drops_def)
next
  case (ReaderStep pick now got)
  then show ?thesis using assms reader_table [OF assms(1)] by simp
next
  case (WorkerStep c ch)
  then show ?thesis using assms worker_table [OF assms(1)] by (auto split: if_splits)
next
  case (ResponseStep c pick now got sent)
  then show ?thesis using assms response_table [OF assms(1)] by (auto split: if_splits)
next
  case (CloseFinish c)
  then show ?thesis using assms close_finish_table [OF assms(1)] by (auto split: if_splits)
qed

end
