(* ===== verification/UdpLifecycle.thy ===== *)
theory UdpLifecycle
  imports UdpBudget
begin

text \<open>
  The UDP port forwarder from start to shutdown: every step keeps the phases of the goroutines, the
  sockets and the wait group, so every interleaving of \<open>UdpForward\<close> stays within its limits, gives each
  buffer one owner and leaves nothing behind when the forwarder returns.
\<close>

section \<open>References and phases\<close>

lemma mark_fresh [simp]:
  "freshConn (markConnectionActiveLocked now key c u) = freshConn u"
  "freshConn (markConnectionActive now key c u) = freshConn u"
  "freshConn (removeConnection key c u) = freshConn u"
  "freshConn (close_begin e u) = freshConn u" "freshConn (close_finish e u) = freshConn u"
  using same_flow_mark same_flow_markActive same_flow_remove same_flow_close_begin same_flow_close_finish
  by (simp_all add: same_flow_def)

lemma close_then_cases:
  assumes "close_then c k u = Some v"
  obtains "closeState (conns u c) = NotClosed" "v = close_begin c u"
    | "closeState (conns u c) = CloseDone" "v = k u"
  using assms that by (cases "closeState (conns u c)") (simp_all add: close_then_def)

lemma table_refs:
  assumes "table_ok u" "c \<in> set (map snd (connections u))"
  shows "c < freshConn u"
proof -
  obtain k where "(k, c) \<in> set (connections u)" using assms(2) by auto
  then have "mget (connections u) k = Some c" using assms(1) map_ok_in_iff unfolding table_ok_def by metis
  then show ?thesis using table_get [OF assms(1)] by blast
qed

lemma set_response_sel [simp]:
  "conns (set_response c p u) = conns u" "connections (set_response c p u) = connections u"
  "freshConn (set_response c p u) = freshConn u" "keyOf (set_response c p u) = keyOf u"
  "worker (set_response c p u) = worker u" "response (set_response c p u) = (response u)(c := p)"
  "reader (set_response c p u) = reader u" "janitorPc (set_response c p u) = janitorPc u"
  "closer (set_response c p u) = closer u" "sockets (set_response c p u) = sockets u"
  "freshSock (set_response c p u) = freshSock u" "ctxDone (set_response c p u) = ctxDone u"
  "listenerClosed (set_response c p u) = listenerClosed u" "wg (set_response c p u) = wg u"
  "maxConnections (set_response c p u) = maxConnections u" "maxQueuedBytes (set_response c p u) = maxQueuedBytes u"
  by (simp_all add: set_response_def)

lemma set_worker_sel [simp]:
  "conns (set_worker c w u) = conns u" "connections (set_worker c w u) = connections u"
  "freshConn (set_worker c w u) = freshConn u" "keyOf (set_worker c w u) = keyOf u"
  "worker (set_worker c w u) = (worker u)(c := w)" "response (set_worker c w u) = response u"
  "reader (set_worker c w u) = reader u" "janitorPc (set_worker c w u) = janitorPc u"
  "closer (set_worker c w u) = closer u" "sockets (set_worker c w u) = sockets u"
  "freshSock (set_worker c w u) = freshSock u" "ctxDone (set_worker c w u) = ctxDone u"
  "listenerClosed (set_worker c w u) = listenerClosed u" "wg (set_worker c w u) = wg u"
  "maxConnections (set_worker c w u) = maxConnections u" "maxQueuedBytes (set_worker c w u) = maxQueuedBytes u"
  by (simp_all add: set_worker_def)

text \<open>The goroutines of one connection change only their own program counters, the connection, the
  table and what they hold.\<close>

definition others_stay :: "forward \<Rightarrow> forward \<Rightarrow> bool" where
  "others_stay u v \<longleftrightarrow> reader v = reader u \<and> janitorPc v = janitorPc u \<and> closer v = closer u
     \<and> freshConn v = freshConn u \<and> keyOf v = keyOf u \<and> ctxDone v = ctxDone u
     \<and> listenerClosed v = listenerClosed u"

lemma others_flow: "same_flow u v \<Longrightarrow> others_stay u v"
  by (simp add: same_flow_def others_stay_def)

lemma others_worker [simp]: "others_stay u (set_worker c w v) \<longleftrightarrow> others_stay u v"
  "others_stay u (set_response c p v) \<longleftrightarrow> others_stay u v"
  by (simp_all add: others_stay_def)

lemma worker_others:
  assumes "runConnection w c ch u = Some v"
  shows "others_stay u v"
proof (cases w)
  case (WDialed s)
  obtain ok u' where s: "setUDP s c u = (ok, u')" by (cases "setUDP s c u")
  then show ?thesis using assms WDialed others_flow [OF same_flow_setUDP [OF s]]
    by (auto split: if_splits)
next
  case (WCloseInner r)
  then show ?thesis using assms others_flow [OF same_flow_close_begin, of u c] others_flow [OF same_flow_refl, of u]
    by (auto elim!: close_then_cases)
next
  case WCloseOuter
  then show ?thesis using assms others_flow [OF same_flow_close_begin, of u c] others_flow [OF same_flow_refl, of u]
    by (auto elim!: close_then_cases)
next
  case WRemove
  then show ?thesis using assms others_flow [OF same_flow_remove, of u "keyOf u c" c] by auto
qed (use assms in \<open>auto simp: others_stay_def Let_def split: worker_choice.splits list.splits if_splits\<close>)

lemma response_others:
  assumes "forwardResponses p c pick now got sent u = Some v"
  shows "others_stay u v"
proof (cases p)
  case (PMark b data)
  then show ?thesis using assms others_flow [OF same_flow_markActive, of u now "keyOf u c" c] by auto
qed (use assms in \<open>auto simp: others_stay_def getBuffer_def putBuffer_def Let_def split: option.splits if_splits\<close>)

lemma insert_stay:
  assumes "insertConnection now key u = (c, v)"
  shows "janitorPc v = janitorPc u \<and> closer v = closer u \<and> ctxDone v = ctxDone u
    \<and> listenerClosed v = listenerClosed u \<and> sockets v = sockets u \<and> freshSock v = freshSock u
    \<and> wg v = Suc (wg u)"
  using assms by (auto simp: insertConnection_def newConnection_def markConnectionActiveLocked_def touch_def Let_def)

lemma makeRoom_stay:
  "makeRoomForConnectionLocked u = Some (e, v) \<Longrightarrow> sockets v = sockets u"
  by (auto simp: makeRoomForConnectionLocked_def split: if_splits list.splits option.splits)

lemma getOrCreate_stay:
  assumes "getOrCreateConnection now key u = Some (c, e, v)"
  shows "janitorPc v = janitorPc u \<and> closer v = closer u \<and> ctxDone v = ctxDone u
    \<and> listenerClosed v = listenerClosed u \<and> sockets v = sockets u \<and> freshSock v = freshSock u"
proof -
  consider "v = markConnectionActiveLocked now key c u"
    | u' where "makeRoomForConnectionLocked u = Some (e, u')" "insertConnection now key u' = (c, v)"
    using assms by (auto simp: getOrCreateConnection_def split: option.splits prod.splits)
  then show ?thesis
  proof cases
    case 1
    then show ?thesis by (simp add: markConnectionActiveLocked_def touch_def Let_def)
  next
    case 2
    show ?thesis using insert_stay [OF 2(2)] same_flow_makeRoom [OF 2(1)] makeRoom_stay [OF 2(1)]
      by (simp add: same_flow_def)
  qed
qed

lemma step_keeps_refs:
  assumes "table_ok u" "refs_ok u" "fwd_next a u = Some v"
  shows "refs_ok v"
proof -
  have stay: ?thesis if "others_stay u v"
  proof -
    have e: "reader v = reader u" "janitorPc v = janitorPc u" "closer v = closer u" "freshConn v = freshConn u"
      using that by (simp_all add: others_stay_def)
    show ?thesis using assms(2) unfolding refs_ok_def e .
  qed
  show ?thesis
  proof (cases a)
    case (ReaderStep pick now got)
    then have s: "startUDPForward (reader u) pick now got u = Some v" using assms(3) by simp
    show ?thesis
    proof (cases "reader u")
      case (RCreate d addr)
      obtain c e w where g: "getOrCreateConnection now addr u = Some (c, e, w)" "table_ok w" "c < freshConn w"
        "freshConn u \<le> freshConn w" "\<And>k. e = Some k \<Longrightarrow> k < freshConn u"
        using getOrCreate_returns [OF assms(1), of now addr] by metis
      have le: "i < freshConn u \<Longrightarrow> i < freshConn w" for i using g(4) by simp
      obtain r where v: "v = reader_to r w" "r = REnqueue d c \<or> (\<exists>k. e = Some k \<and> r = REvict d c k)"
        using s RCreate g(1) by (cases e) (auto simp: create_step_def)
      have "janitorPc w = janitorPc u" "closer w = closer u" using getOrCreate_stay [OF g(1)] by simp_all
      then show ?thesis using g(3,5) assms(2) le v(2)
        by (auto simp: v(1) refs_ok_def)
    next
      case (REvict d c e)
      then show ?thesis using s assms(2) same_flow_close_begin [of u e]
        by (auto elim!: close_then_cases simp: refs_ok_def same_flow_def)
    next
      case RClose
      then show ?thesis using s assms(2) by (auto simp: refs_ok_def split: closer_pc.splits)
    qed (use s assms(2) in \<open>auto simp: refs_ok_def getBuffer_def putBuffer_def read_datagram_def Let_def
          reserve_loaded_def reserve_cas_def enqueue_step_def enqueue_def touch_def
          split: option.splits if_splits\<close>)
  next
    case (WorkerStep c ch)
    then show ?thesis using assms(3) stay worker_others by (auto split: if_splits)
  next
    case (ResponseStep c pick now got sent)
    then show ?thesis using assms(3) stay response_others by (auto split: if_splits)
  next
    case (JanitorStep tick)
    show ?thesis
    proof (cases "janitorPc u")
      case (JClose cs)
      then show ?thesis using assms JanitorStep same_flow_close_begin [of u "cs ! 0"]
        by (cases cs) (auto elim!: close_then_cases simp: refs_ok_def same_flow_def)
    qed (use assms JanitorStep table_refs [OF assms(1)] in
        \<open>auto simp: refs_ok_def stale_def split: option.splits if_splits\<close>)
  next
    case CloserStep
    show ?thesis
    proof (cases "closer u")
      case (CConns cs)
      then show ?thesis using assms CloserStep same_flow_close_begin [of u "cs ! 0"]
        by (cases cs) (auto elim!: close_then_cases simp: refs_ok_def same_flow_def)
    qed (use assms CloserStep table_refs [OF assms(1)] in \<open>auto simp: refs_ok_def\<close>)
  next
    case (CloseFinish c)
    then show ?thesis using assms(3) stay others_flow [OF same_flow_close_finish, of u c] by (auto split: if_splits)
  next
    case (PoolDrops b)
    then show ?thesis using assms(3) stay by (auto simp: others_stay_def pool_drops_def)
  qed
qed

text \<open>The part of a connection its goroutines rely on.\<close>

definition core :: "udpConnection \<Rightarrow> udpDatagram list \<times> bool \<times> bool \<times> nat option \<times> once" where
  "core k = (send k, closed k, cancelled k, udp k, closeState k)"

lemma phase_core: "core k' = core k \<Longrightarrow> phase_ok k' w p = phase_ok k w p"
  by (cases w) (auto simp: core_def phase_ok_def)

lemma phase_close_begin:
  "phase_ok k w p \<Longrightarrow> closeState k = NotClosed
   \<Longrightarrow> phase_ok (k\<lparr>closed := True, cancelled := True, closeState := Closing\<rparr>) w p"
  by (cases w) (auto simp: phase_ok_def)

lemma phase_close_finish:
  "phase_ok k w p \<Longrightarrow> closeState k = Closing \<Longrightarrow> phase_ok (k\<lparr>closeState := CloseDone\<rparr>) w p"
  by (cases w) (auto simp: phase_ok_def)

lemma phase_enqueue:
  "phase_ok k w p \<Longrightarrow> \<not> closed k \<Longrightarrow> length (send k) < udpForwardQueueSize
   \<Longrightarrow> phase_ok (k\<lparr>send := send k @ [d], lastActive := t\<rparr>) w p"
  by (cases w) (auto simp: phase_ok_def)

lemma phase_response:
  "phase_ok k w p \<Longrightarrow> p \<notin> {PNone, PDone} \<Longrightarrow> phase_ok k w p'"
  by (cases w) (auto simp: phase_ok_def)

lemma phases_update:
  assumes "phases_ok u" "freshConn v = freshConn u" "keyOf v = keyOf u"
    "\<And>k i. mget (connections v) k = Some i \<Longrightarrow> mget (connections u) k = Some i"
    "\<And>i. i \<noteq> c \<Longrightarrow> core (conns v i) = core (conns u i) \<and> worker v i = worker u i \<and> response v i = response u i"
    "c < freshConn u \<Longrightarrow> phase_ok (conns v c) (worker v c) (response v c)
       \<and> (worker v c \<in> {WDrain, WExit} \<longrightarrow> mget (connections v) (keyOf u c) \<noteq> Some c)"
  shows "phases_ok v"
  unfolding phases_ok_def
proof (intro allI impI)
  fix i assume i: "i < freshConn v"
  show "phase_ok (conns v i) (worker v i) (response v i)
    \<and> (worker v i \<in> {WDrain, WExit} \<longrightarrow> mget (connections v) (keyOf v i) \<noteq> Some i)"
  proof (cases "i = c")
    case True
    then show ?thesis using assms(2,3,6) i by simp
  next
    case False
    have "phase_ok (conns u i) (worker u i) (response u i)
      \<and> (worker u i \<in> {WDrain, WExit} \<longrightarrow> mget (connections u) (keyOf u i) \<noteq> Some i)"
      using assms(1,2) i unfolding phases_ok_def by simp
    moreover have e: "core (conns v i) = core (conns u i)" "worker v i = worker u i" "response v i = response u i"
      using assms(5)[OF False] by simp_all
    ultimately show ?thesis
      using assms(4)[of "keyOf u i" i] unfolding e(2,3) assms(3) phase_core [OF e(1)] by blast
  qed
qed

lemma phases_get:
  "phases_ok u \<Longrightarrow> c < freshConn u \<Longrightarrow> phase_ok (conns u c) (worker u c) (response u c)
     \<and> (worker u c \<in> {WDrain, WExit} \<longrightarrow> mget (connections u) (keyOf u c) \<noteq> Some c)"
  unfolding phases_ok_def by blast

text \<open>Steps that keep every core and every program counter of a connection.\<close>

lemma phases_same:
  assumes "phases_ok u" "freshConn v = freshConn u" "keyOf v = keyOf u"
    "\<And>k i. mget (connections v) k = Some i \<Longrightarrow> mget (connections u) k = Some i"
    "\<And>i. core (conns v i) = core (conns u i)" "worker v = worker u" "response v = response u"
  shows "phases_ok v"
proof (rule phases_update [OF assms(1-4), of 0])
  show "phase_ok (conns v 0) (worker v 0) (response v 0)
      \<and> (worker v 0 \<in> {WDrain, WExit} \<longrightarrow> mget (connections v) (keyOf u 0) \<noteq> Some 0)" if "0 < freshConn u"
    using phases_get [OF assms(1) that] assms(4)[of "keyOf u 0" 0]
    unfolding assms(6,7) phase_core [OF assms(5)] by blast
qed (use assms in simp_all)

lemma close_begin_phases:
  assumes "phases_ok u" "closeState (conns u c) = NotClosed"
  shows "phases_ok (close_begin c u)"
  using assms phases_get [OF assms(1), of c]
  by (intro phases_update [OF assms(1), of _ c]) (auto simp: close_begin_def phase_close_begin)

lemma close_finish_phases:
  assumes "phases_ok u" "closeState (conns u c) = Closing"
  shows "phases_ok (close_finish c u)"
proof -
  have u: "core (conns (close_finish c u) i) = core (conns u i)" if "i \<noteq> c" for i
    using that by (simp add: close_finish_def close_socket_def split: option.split)
  have c: "conns (close_finish c u) c = (conns u c)\<lparr>closeState := CloseDone\<rparr>"
    by (simp add: close_finish_def close_socket_def split: option.split)
  have r: "connections (close_finish c u) = connections u" "worker (close_finish c u) = worker u"
    "response (close_finish c u) = response u" "keyOf (close_finish c u) = keyOf u"
    by (simp_all add: close_finish_def close_socket_def split: option.split)
  show ?thesis
    using phases_get [OF assms(1), of c] assms(2)
    by (intro phases_update [OF assms(1), of _ c]) (auto simp: u c r phase_close_finish)
qed

lemma close_then_phases:
  assumes "close_then c k u = Some v" "phases_ok u" "closeState (conns u c) = CloseDone \<Longrightarrow> phases_ok (k u)"
  shows "phases_ok v"
  using assms(1) by (rule close_then_cases) (use assms(2,3) close_begin_phases in auto)

text \<open>A worker that moves on with its connection unchanged.\<close>

lemma move_phases:
  assumes "phases_ok u" "c < freshConn u \<Longrightarrow> phase_ok (conns u c) w (response u c)"
    "w \<notin> {WDrain, WExit} \<or> worker u c \<in> {WDrain, WExit}"
  shows "phases_ok (set_worker c w u)"
proof (rule phases_update [OF assms(1), of _ c])
  assume "c < freshConn u"
  then show "phase_ok (conns (set_worker c w u) c) (worker (set_worker c w u) c) (response (set_worker c w u) c)
      \<and> (worker (set_worker c w u) c \<in> {WDrain, WExit}
         \<longrightarrow> mget (connections (set_worker c w u)) (keyOf u c) \<noteq> Some c)"
    using assms phases_get [OF assms(1), of c] by auto
qed simp_all

lemma remove_phases:
  assumes "phases_ok u" "worker u c = WRemove"
  shows "phases_ok (set_worker c WDrain (removeConnection (keyOf u c) c u))"
proof -
  let ?v = "removeConnection (keyOf u c) c u"
  note f = same_flow_remove [of u "keyOf u c" c]
  have m: "mget (connections ?v) k = (if k = keyOf u c \<and> mget (connections u) k = Some c then None
      else mget (connections u) k)" for k
    by (cases "mget (connections u) (keyOf u c) = Some c") (auto simp: removeConnection_def Let_def)
  have k: "core (conns ?v i) = core (conns u i)" for i
    by (simp add: removeConnection_def core_def Let_def)
  have "phase_ok (conns u c) WDrain (response u c)" if "c < freshConn u"
    using phases_get [OF assms(1) that] assms(2) by (simp add: phase_ok_def)
  then show ?thesis
    using f m phase_core [OF k [of c]]
    by (intro phases_update [OF assms(1), of _ c]) (auto simp: same_flow_def k split: if_splits)
qed

lemma dialed_phases:
  assumes "phases_ok u" "worker u c = WDialed s" "c < freshConn u" "runConnection (WDialed s) c ch u = Some v"
  shows "phases_ok v"
proof -
  have p: "phase_ok (conns u c) (WDialed s) (response u c)" using phases_get [OF assms(1,3)] assms(2) by simp
  show ?thesis
  proof (cases "ctx_err u c")
    case True
    then have "v = set_worker c WCloseOuter (close_socket s u)" using assms(4) by (simp add: setUDP_def)
    then show ?thesis using p
      by (intro phases_update [OF assms(1), of _ c]) (auto simp: close_socket_def phase_ok_def)
  next
    case False
    then have "v = set_response c PStart (set_worker c WLoop (on_conn c (\<lambda>k. k\<lparr>udp := Some s\<rparr>) u))"
      using assms(4) by (simp add: setUDP_def)
    then show ?thesis using p
      by (intro phases_update [OF assms(1), of _ c]) (auto simp: phase_ok_def)
  qed
qed


lemma worker_phases:
  assumes "phases_ok u" "c < freshConn u" "runConnection (worker u c) c ch u = Some v"
  shows "phases_ok v"
proof -
  have p: "phase_ok (conns u c) (worker u c) (response u c)"
    "worker u c \<in> {WDrain, WExit} \<longrightarrow> mget (connections u) (keyOf u c) \<noteq> Some c"
    using phases_get [OF assms(1,2)] by simp_all
  show ?thesis
  proof (cases "worker u c")
    case WDial
    then show ?thesis using assms(2,3) p
      by (intro phases_update [OF assms(1), of _ c]) (auto simp: phase_ok_def split: if_splits)
  next
    case (WDialed s)
    then show ?thesis using dialed_phases [OF assms(1) WDialed assms(2)] assms(3) by simp
  next
    case WLoop
    then show ?thesis using assms(2,3) p
      by (intro phases_update [OF assms(1), of _ c])
        (auto simp: phase_ok_def split: worker_choice.splits list.splits if_splits)
  next
    case (WWrite d)
    then show ?thesis using assms(2,3) p
      by (intro phases_update [OF assms(1), of _ c]) (auto simp: phase_ok_def Let_def split: if_splits)
  next
    case (WCloseInner r)
    then have "closeState (conns u c) = CloseDone \<Longrightarrow> phases_ok (set_worker c (WJoin r) u)"
      using p by (intro move_phases [OF assms(1)]) (simp_all add: phase_ok_def)
    then show ?thesis using assms(1,3) WCloseInner close_then_phases by simp
  next
    case (WJoin r)
    then have "r \<or> response u c = PDone \<Longrightarrow> phases_ok (set_worker c WCloseOuter u)"
      using p by (intro move_phases [OF assms(1)]) (auto simp: phase_ok_def)
    then show ?thesis using assms(3) WJoin by (simp split: if_splits)
  next
    case WCloseOuter
    then have "closeState (conns u c) = CloseDone \<Longrightarrow> phases_ok (set_worker c WRemove u)"
      using p by (intro move_phases [OF assms(1)]) (simp_all add: phase_ok_def)
    then show ?thesis using assms(1,3) WCloseOuter close_then_phases by simp
  next
    case WRemove
    then show ?thesis using remove_phases [OF assms(1) WRemove] assms(3) by simp
  next
    case WDrain
    then show ?thesis using assms(2,3) p
      by (intro phases_update [OF assms(1), of _ c]) (auto simp: phase_ok_def split: list.splits)
  next
    case WExit
    then show ?thesis using assms(3) by simp
  qed
qed

lemma core_markActive [simp]: "core (conns (markConnectionActive now key c u) i) = core (conns u i)"
  by (simp add: markConnectionActive_def markConnectionActiveLocked_def touch_def core_def Let_def)

lemma core_mark [simp]: "core (conns (markConnectionActiveLocked now key c u) i) = core (conns u i)"
  by (simp add: markConnectionActiveLocked_def touch_def core_def Let_def)

lemma mark_connections [simp]:
  "connections (markConnectionActiveLocked now key c u) = connections u"
  "connections (markConnectionActive now key c u) = connections u"
  by (simp_all add: markConnectionActive_def markConnectionActiveLocked_def touch_def Let_def)

lemma response_phases:
  assumes "phases_ok u" "c < freshConn u" "forwardResponses (response u c) c pick now got sent u = Some v"
  shows "phases_ok v"
proof -
  have a: "response u c \<notin> {PNone, PDone}" using assms(3) by (cases "response u c") auto
  have s: "freshConn v = freshConn u" "keyOf v = keyOf u" "worker v = worker u"
    "connections v = connections u" "\<And>i. core (conns v i) = core (conns u i)"
    "\<And>i. i \<noteq> c \<Longrightarrow> response v i = response u i"
    using assms(3) same_flow_markActive [of u now "keyOf u c" c]
    by (cases "response u c"; auto simp: getBuffer_def putBuffer_def same_flow_def Let_def
        split: option.splits if_splits)+
  show ?thesis
  proof (rule phases_update [OF assms(1) s(1,2), of c])
    assume "c < freshConn u"
    note p = phases_get [OF assms(1,2)]
    show "phase_ok (conns v c) (worker v c) (response v c)
        \<and> (worker v c \<in> {WDrain, WExit} \<longrightarrow> mget (connections v) (keyOf u c) \<noteq> Some c)"
      using p phase_response [OF _ a] unfolding s(3,4) phase_core [OF s(5)] by blast
  qed (use s in simp_all)
qed

lemma makeRoom_core:
  assumes "makeRoomForConnectionLocked u = Some (e, v)"
  shows "core (conns v i) = core (conns u i)"
    "mget (connections v) k = Some j \<Longrightarrow> mget (connections u) k = Some j"
proof -
  consider "v = u" | k' c rest where "v = on_conn c (\<lambda>k. k\<lparr>lruElement := False\<rparr>)
      (u\<lparr>connections := mdel k' (connections u), connectionLRU := rest\<rparr>)"
    using assms by (auto simp: makeRoomForConnectionLocked_def split: if_splits list.splits option.splits)
  note v = this
  show "core (conns v i) = core (conns u i)" by (rule v) (simp_all add: core_def)
  show "mget (connections u) k = Some j" if "mget (connections v) k = Some j"
    by (rule v) (use that in \<open>auto split: if_splits\<close>)
qed

lemma makeRoom_phases:
  assumes "phases_ok u" "makeRoomForConnectionLocked u = Some (e, v)"
  shows "phases_ok v"
  using same_flow_makeRoom [OF assms(2)] makeRoom_core [OF assms(2)]
  by (intro phases_same [OF assms(1)]) (simp_all add: same_flow_def)

lemma insert_phases:
  assumes "phases_ok u" "insertConnection now key u = (c, v)"
  shows "phases_ok v"
proof -
  have v: "freshConn v = Suc (freshConn u)" "c = freshConn u" "keyOf v = (keyOf u)(c := key)"
    "connections v = mset key c (connections u)" "worker v = (worker u)(c := WDial)"
    "response v = (response u)(c := PNone)" "core (conns v c) = core newConnection"
    "\<And>i. i \<noteq> c \<Longrightarrow> core (conns v i) = core (conns u i)"
    using assms(2)
    by (auto simp: insertConnection_def Let_def newConnection_def core_def markConnectionActiveLocked_def touch_def)
  have n: "phase_ok newConnection WDial PNone" by (simp add: phase_ok_def newConnection_def)
  show ?thesis
    unfolding phases_ok_def
  proof (intro allI impI)
    fix i assume i: "i < freshConn v"
    show "phase_ok (conns v i) (worker v i) (response v i)
      \<and> (worker v i \<in> {WDrain, WExit} \<longrightarrow> mget (connections v) (keyOf v i) \<noteq> Some i)"
    proof (cases "i = c")
      case True
      then show ?thesis using n phase_core [OF v(7)] v(5,6) by simp
    next
      case False
      then have "i < freshConn u" using i v(1,2) by simp
      from phases_get [OF assms(1) this] False show ?thesis
        unfolding phase_core [OF v(8) [OF False]] by (auto simp: v(3-6))
    qed
  qed
qed

lemma getOrCreate_phases:
  assumes "phases_ok u" "getOrCreateConnection now key u = Some (c, e, v)"
  shows "phases_ok v"
proof -
  consider "v = markConnectionActiveLocked now key c u"
    | u' where "makeRoomForConnectionLocked u = Some (e, u')" "insertConnection now key u' = (c, v)"
    using assms by (auto simp: getOrCreateConnection_def split: option.splits prod.splits)
  then show ?thesis
  proof cases
    case 1
    then show ?thesis using same_flow_mark [of u now key c]
      by (intro phases_same [OF assms(1)]) (simp_all add: same_flow_def)
  next
    case 2
    then show ?thesis using makeRoom_phases [OF assms(1)] insert_phases by blast
  qed
qed

lemma reader_to_phases [simp]: "phases_ok (reader_to r u) \<longleftrightarrow> phases_ok u"
  by (simp add: phases_ok_def)

lemma reader_phases:
  assumes "phases_ok u" "table_ok u" "startUDPForward r pick now got u = Some v"
  shows "phases_ok v"
proof -
  have rel: "phases_ok (releaseDatagram d u)" for d
    using assms(1) by (simp add: phases_ok_def)
  have d: "phases_ok (u\<lparr>pool := x\<rparr>)" "phases_ok (u\<lparr>freshBuf := n\<rparr>)" "phases_ok (u\<lparr>queuedBytes := q\<rparr>)"
    "phases_ok (u\<lparr>ctxDone := a, closer := y\<rparr>)" for x n y q a
    using assms(1) by (simp_all add: phases_ok_def)
  show ?thesis
  proof (cases r)
    case (RCreate dg addr)
    then show ?thesis using assms(3) getOrCreate_phases [OF assms(1), of now addr]
      by (auto simp: create_step_def split: option.splits prod.splits)
  next
    case (RCas dg addr used)
    then show ?thesis using assms rel d
      by (auto simp: reserve_loaded_def reserve_cas_def Let_def split: if_splits)
  next
    case (REvict dg c e)
    then show ?thesis using assms close_then_phases [of e "reader_to (REnqueue dg c)" u v] by simp
  next
    case (REnqueue dg c)
    have "phases_ok (touch now c (on_conn c (\<lambda>k. k\<lparr>send := send k @ [dg]\<rparr>) u))"
      if "\<not> closed (conns u c)" "length (send (conns u c)) < udpForwardQueueSize"
    proof (rule phases_update [OF assms(1), of _ c])
      assume "c < freshConn u"
      from phases_get [OF assms(1) this] phase_enqueue [OF _ that, where d = dg and t = now]
      show "phase_ok (conns (touch now c (on_conn c (\<lambda>k. k\<lparr>send := send k @ [dg]\<rparr>) u)) c)
            (worker (touch now c (on_conn c (\<lambda>k. k\<lparr>send := send k @ [dg]\<rparr>) u)) c)
            (response (touch now c (on_conn c (\<lambda>k. k\<lparr>send := send k @ [dg]\<rparr>) u)) c)
        \<and> (worker (touch now c (on_conn c (\<lambda>k. k\<lparr>send := send k @ [dg]\<rparr>) u)) c \<in> {WDrain, WExit}
         \<longrightarrow> mget (connections (touch now c (on_conn c (\<lambda>k. k\<lparr>send := send k @ [dg]\<rparr>) u))) (keyOf u c) \<noteq> Some c)"
        by (simp add: touch_def)
    qed (simp_all add: touch_def)
    then show ?thesis using assms REnqueue rel
      by (auto simp: enqueue_step_def enqueue_def split: if_splits)
  qed (use assms d in \<open>auto simp: getBuffer_def putBuffer_def read_datagram_def Let_def
        split: option.splits if_splits closer_pc.splits\<close>)
qed

lemma step_keeps_phases:
  assumes "phases_ok u" "table_ok u" "fwd_next a u = Some v"
  shows "phases_ok v"
proof (cases a)
  case (JanitorStep tick)
  have d: "phases_ok (u'\<lparr>janitorPc := j\<rparr>) \<longleftrightarrow> phases_ok u'"
    "phases_ok (u'\<lparr>janitorPc := j, wg := n\<rparr>) \<longleftrightarrow> phases_ok u'" for j n u' by (simp_all add: phases_ok_def)
  show ?thesis
  proof (cases "janitorPc u")
    case (JClose cs)
    then show ?thesis using assms JanitorStep d
        close_then_phases [of _ "\<lambda>u. u\<lparr>janitorPc := JClose (tl cs)\<rparr>" u v] by (cases cs) auto
  qed (use assms JanitorStep d in \<open>auto split: option.splits if_splits\<close>)
next
  case CloserStep
  have d: "phases_ok (u'\<lparr>closer := j\<rparr>) \<longleftrightarrow> phases_ok u'"
    "phases_ok (u'\<lparr>ctxDone := x, closer := j\<rparr>) \<longleftrightarrow> phases_ok u'"
    "phases_ok (u'\<lparr>closer := j, ctxDone := x\<rparr>) \<longleftrightarrow> phases_ok u'"
    "phases_ok (u'\<lparr>listenerClosed := x\<rparr>) \<longleftrightarrow> phases_ok u'"
    "phases_ok (u'\<lparr>closer := j, listenerClosed := x\<rparr>) \<longleftrightarrow> phases_ok u'" for j x u' by (simp_all add: phases_ok_def)
  show ?thesis
  proof (cases "closer u")
    case (CConns cs)
    then show ?thesis using assms CloserStep d
        close_then_phases [of _ "\<lambda>u. u\<lparr>closer := CConns (tl cs)\<rparr>" u v] by (cases cs) auto
  qed (use assms CloserStep d in auto)
next
  case (PoolDrops b)
  then show ?thesis using assms by (auto simp: phases_ok_def pool_drops_def)
next
  case (ReaderStep pick now got)
  then show ?thesis using assms reader_phases [OF assms(1,2)] by simp
next
  case (WorkerStep c ch)
  then show ?thesis using assms worker_phases [OF assms(1)] by (auto split: if_splits)
next
  case (ResponseStep c pick now got sent)
  then show ?thesis using assms response_phases [OF assms(1)] by (auto split: if_splits)
next
  case (CloseFinish c)
  then show ?thesis using assms close_finish_phases [OF assms(1)] by (auto split: if_splits)
qed

section \<open>Sockets\<close>

definition socket_held :: "forward \<Rightarrow> nat \<Rightarrow> bool" where
  "socket_held u s \<longleftrightarrow> (\<exists>c < freshConn u. worker u c = WDialed s
     \<or> udp (conns u c) = Some s \<and> closeState (conns u c) \<noteq> CloseDone)"

lemma sockets_ok_iff:
  "sockets_ok u \<longleftrightarrow> distinct (sockets u) \<and> (\<forall>s \<in> set (sockets u). s < freshSock u \<and> socket_held u s)"
  by (simp add: sockets_ok_def socket_held_def)

lemma held_same:
  assumes "socket_held u s" "freshConn u \<le> freshConn v"
    "\<And>i. i < freshConn u \<Longrightarrow> worker u i = WDialed s \<Longrightarrow> worker v i = WDialed s"
    "\<And>i. i < freshConn u \<Longrightarrow> udp (conns u i) = Some s \<Longrightarrow> closeState (conns u i) \<noteq> CloseDone
       \<Longrightarrow> udp (conns v i) = Some s \<and> closeState (conns v i) \<noteq> CloseDone"
  shows "socket_held v s"
  using assms unfolding socket_held_def by (metis order_less_le_trans)

lemma sockets_same:
  assumes "sockets_ok u" "sockets v = sockets u" "freshSock v = freshSock u" "freshConn u \<le> freshConn v"
    "\<And>i s. i < freshConn u \<Longrightarrow> worker u i = WDialed s \<Longrightarrow> worker v i = WDialed s"
    "\<And>i. i < freshConn u \<Longrightarrow> udp (conns v i) = udp (conns u i)"
    "\<And>i. i < freshConn u \<Longrightarrow> closeState (conns v i) = CloseDone \<Longrightarrow> closeState (conns u i) = CloseDone"
  shows "sockets_ok v"
proof -
  have "socket_held v s" if "socket_held u s" for s
    by (rule held_same [OF that assms(4)]) (use assms(5-7) in auto)
  then show ?thesis using assms(1-3) unfolding sockets_ok_iff by auto
qed

lemma sockets_core:
  assumes "sockets_ok u" "sockets v = sockets u" "freshSock v = freshSock u" "freshConn u \<le> freshConn v"
    "\<And>i s. i < freshConn u \<Longrightarrow> worker u i = WDialed s \<Longrightarrow> worker v i = WDialed s"
    "\<And>i. i < freshConn u \<Longrightarrow> core (conns v i) = core (conns u i)"
  shows "sockets_ok v"
  using assms(5,6) by (intro sockets_same [OF assms(1-4)]) (simp_all add: core_def)

lemma close_begin_sockets:
  "sockets_ok u \<Longrightarrow> sockets_ok (close_begin c u)"
  by (rule sockets_same [of u]) (auto simp: close_begin_def split: if_splits)

lemma close_finish_sockets:
  assumes "sockets_ok u"
  shows "sockets_ok (close_finish c u)"
proof (cases "udp (conns u c)")
  case None
  have "socket_held (close_finish c u) s" if "socket_held u s" for s
    using that by (rule held_same) (use None in \<open>auto simp: close_finish_def\<close>)
  then show ?thesis using assms None unfolding sockets_ok_iff by (auto simp: close_finish_def)
next
  case (Some t)
  have "socket_held (close_finish c u) s" if "socket_held u s" "s \<noteq> t" for s
    using that(1) by (rule held_same) (use that(2) Some in \<open>auto simp: close_finish_def close_socket_def\<close>)
  then show ?thesis using assms Some unfolding sockets_ok_iff
    by (auto simp: close_finish_def close_socket_def)
qed

lemma close_then_sockets:
  assumes "close_then c k u = Some v" "sockets_ok u" "sockets_ok (k u)"
  shows "sockets_ok v"
  using assms(1) by (rule close_then_cases) (use assms(2,3) close_begin_sockets in auto)

lemma dial_sockets:
  assumes "sockets_ok u" "c < freshConn u" "worker u c = WDial"
  shows "sockets_ok (set_worker c (WDialed (freshSock u))
    (u\<lparr>sockets := freshSock u # sockets u, freshSock := Suc (freshSock u)\<rparr>))" (is "sockets_ok ?v")
proof -
  have "socket_held ?v s" if "socket_held u s" for s
    using that by (rule held_same) (use assms(3) in auto)
  moreover have "socket_held ?v (freshSock u)"
    using assms(2) unfolding socket_held_def by (intro exI [of _ c]) simp
  ultimately show ?thesis using assms(1) unfolding sockets_ok_iff by (auto simp: less_Suc_eq)
qed

lemma dialed_sockets:
  assumes "sockets_ok u" "c < freshConn u" "worker u c = WDialed s" "phase_ok (conns u c) (WDialed s) (response u c)"
    "runConnection (WDialed s) c ch u = Some v"
  shows "sockets_ok v"
proof (cases "ctx_err u c")
  case True
  then have v: "v = set_worker c WCloseOuter (close_socket s u)" using assms(5) by (simp add: setUDP_def)
  have "socket_held v t" if "socket_held u t" "t \<noteq> s" for t
    using that(1) by (rule held_same) (use that(2) assms(3) in \<open>auto simp: v close_socket_def\<close>)
  then show ?thesis using assms(1) unfolding sockets_ok_iff by (auto simp: v close_socket_def)
next
  case False
  then have v: "v = set_response c PStart (set_worker c WLoop (on_conn c (\<lambda>k. k\<lparr>udp := Some s\<rparr>) u))"
    using assms(5) by (simp add: setUDP_def)
  have n: "udp (conns u c) = None" "closeState (conns u c) = NotClosed"
    using assms(4) False by (simp_all add: phase_ok_def ctx_err_def)
  have "socket_held v t" if "socket_held u t" "t \<noteq> s" for t
    using that(1) by (rule held_same) (use that(2) assms(3) n in \<open>auto simp: v\<close>)
  moreover have "socket_held v s"
    using assms(2) n unfolding socket_held_def by (intro exI [of _ c]) (simp add: v)
  ultimately have "socket_held v t" if "socket_held u t" for t using that by blast
  then show ?thesis using assms(1) unfolding sockets_ok_iff by (auto simp: v)
qed

lemma move_sockets:
  assumes "sockets_ok u" "\<And>s. worker u c \<noteq> WDialed s"
  shows "sockets_ok (set_worker c w u)"
  by (rule sockets_same [OF assms(1)]) (use assms(2) in auto)

lemma removeConnection_sockets [simp]:
  "sockets (removeConnection key c u) = sockets u" "freshSock (removeConnection key c u) = freshSock u"
  "worker (removeConnection key c u) = worker u" "core (conns (removeConnection key c u) i) = core (conns u i)"
  by (simp_all add: removeConnection_def core_def Let_def)

lemma worker_sockets:
  assumes "sockets_ok u" "c < freshConn u" "phases_ok u" "runConnection (worker u c) c ch u = Some v"
  shows "sockets_ok v"
proof (cases "worker u c")
  case WDial
  then show ?thesis using assms dial_sockets move_sockets [OF assms(1)] by (auto split: if_splits)
next
  case (WDialed s)
  then show ?thesis using dialed_sockets [OF assms(1,2) WDialed] phases_get [OF assms(3,2)] assms(4) by simp
next
  case WLoop
  then show ?thesis using assms(4)
    by (intro sockets_same [OF assms(1)]) (auto split: worker_choice.splits list.splits if_splits)
next
  case (WCloseInner r)
  then show ?thesis using assms close_then_sockets move_sockets [OF assms(1), of c "WJoin r"] by simp
next
  case (WJoin r)
  then show ?thesis using assms move_sockets [OF assms(1), of c WCloseOuter] by (simp split: if_splits)
next
  case WCloseOuter
  then show ?thesis using assms close_then_sockets move_sockets [OF assms(1), of c WRemove] by simp
next
  case WRemove
  then show ?thesis using assms(4) by (intro sockets_core [OF assms(1)]) auto
next
  case (WWrite d)
  then show ?thesis using assms(4)
    by (intro sockets_core [OF assms(1)]) (auto simp: Let_def split: if_splits)
next
  case WDrain
  then show ?thesis using assms(4)
    by (intro sockets_same [OF assms(1)]) (auto split: list.splits if_splits)
next
  case WExit
  then show ?thesis using assms(4) by simp
qed


lemma janitor_cases:
  assumes "janitor (janitorPc u) tick u = Some v"
  obtains j n where "v = u\<lparr>janitorPc := j, wg := n\<rparr>" | c where "v = close_begin c u"
proof (cases "janitorPc u")
  case JWait
  then show thesis using assms that(1) [where n = "wg u"] that(1) by (auto split: option.splits if_splits)
next
  case (JClose cs)
  then show thesis using assms that(1) [where n = "wg u"] that(2)
    by (cases cs) (auto elim!: close_then_cases)
next
  case JExit
  then show thesis using assms by simp
qed

lemma closer_cases:
  assumes "Close (closer u) u = Some v"
  obtains k x y where "v = u\<lparr>closer := k, ctxDone := x, listenerClosed := y\<rparr>" | c where "v = close_begin c u"
proof -
  show thesis
  proof (cases "closer u")
    case (CConns cs)
    show thesis
    proof (cases cs)
      case Nil
      then show thesis using assms CConns that(1) [where k = CDone and x = "ctxDone u" and y = "listenerClosed u"]
        by auto
    next
      case (Cons c ds)
      then have "close_then c (\<lambda>u. u\<lparr>closer := CConns ds\<rparr>) u = Some v" using assms CConns by simp
      then show thesis
        by (rule close_then_cases)
          (use that(2) that(1) [where k = "CConns ds" and x = "ctxDone u" and y = "listenerClosed u"] in simp_all)
    qed
  next
    case CNever
    then show thesis using assms that(1) [where k = CListener and x = True and y = "listenerClosed u"] by auto
  next
    case CListener
    then show thesis using assms that(1) [where k = CSnapshot and x = "ctxDone u" and y = True] by auto
  next
    case CSnapshot
    then show thesis using assms that(1) [where k = "CConns (map snd (connections u))" and x = "ctxDone u" and y = "listenerClosed u"] by auto
  qed (use assms in simp)
qed

lemma mark_sockets [simp]:
  "sockets (markConnectionActiveLocked now key c u) = sockets u"
  "sockets (markConnectionActive now key c u) = sockets u"
  by (simp_all add: markConnectionActive_def markConnectionActiveLocked_def touch_def Let_def)

lemma response_frame:
  assumes "forwardResponses (response u c) c pick now got sent u = Some v"
  shows "sockets v = sockets u" "freshSock v = freshSock u" "freshConn v = freshConn u" "worker v = worker u"
    "core (conns v i) = core (conns u i)" "wg v = wg u"
  using assms same_flow_markActive [of u now "keyOf u c" c]
  by (cases "response u c"; auto simp: getBuffer_def putBuffer_def same_flow_def Let_def
      split: option.splits if_splits)+

text \<open>A step of the reader other than creating a connection leaves sockets, workers and connections as
  they are, up to the queue of one connection and the start of a \<open>close\<close>.\<close>

lemma reader_frame:
  assumes "startUDPForward r pick now got u = Some v" "\<And>d addr. r \<noteq> RCreate d addr"
  shows "freshConn v = freshConn u" "worker v = worker u" "sockets v = sockets u" "freshSock v = freshSock u"
    "wg v = wg u" "janitorPc v = janitorPc u" "udp (conns v i) = udp (conns u i)"
    "closeState (conns v i) = CloseDone \<longleftrightarrow> closeState (conns u i) = CloseDone"
  using assms
  by (cases r; auto elim!: close_then_cases simp: getBuffer_def putBuffer_def read_datagram_def Let_def
      reserve_loaded_def reserve_cas_def enqueue_step_def enqueue_def touch_def close_begin_def
      split: option.splits if_splits closer_pc.splits)+

lemma create_frame:
  assumes "create_step now d addr u = Some v"
  obtains c e w r where "getOrCreateConnection now addr u = Some (c, e, w)" "v = reader_to r w"
    "r = REnqueue d c \<or> (\<exists>k. e = Some k \<and> r = REvict d c k)"
  using assms that unfolding create_step_def
  by (cases "getOrCreateConnection now addr u") (auto split: option.splits prod.splits)

lemma getOrCreate_cases:
  assumes "getOrCreateConnection now key u = Some (c, e, v)"
  obtains "v = markConnectionActiveLocked now key c u"
    | w where "makeRoomForConnectionLocked u = Some (e, w)" "insertConnection now key w = (c, v)"
  using assms that by (auto simp: getOrCreateConnection_def split: option.splits prod.splits)

lemma insert_frame:
  assumes "insertConnection now key u = (c, v)"
  shows "c = freshConn u" "freshConn v = Suc (freshConn u)" "worker v = (worker u)(c := WDial)"
    "i \<noteq> c \<Longrightarrow> core (conns v i) = core (conns u i)"
  using assms
  by (auto simp: insertConnection_def Let_def newConnection_def core_def markConnectionActiveLocked_def touch_def)

lemma create_sockets:
  assumes "sockets_ok u" "getOrCreateConnection now key u = Some (c, e, v)"
  shows "sockets_ok v"
  using assms(2)
proof (rule getOrCreate_cases)
  assume "v = markConnectionActiveLocked now key c u"
  then show ?thesis using same_flow_mark [of u now key c] getOrCreate_stay [OF assms(2)]
    by (intro sockets_core [OF assms(1)]) (simp_all add: same_flow_def)
next
  fix w assume m: "makeRoomForConnectionLocked u = Some (e, w)" "insertConnection now key w = (c, v)"
  have "sockets_ok w" using same_flow_makeRoom [OF m(1)] makeRoom_core [OF m(1)] makeRoom_stay [OF m(1)]
    by (intro sockets_core [OF assms(1)]) (simp_all add: same_flow_def)
  then show ?thesis using insert_frame [OF m(2)] insert_stay [OF m(2)]
    by (rule_tac sockets_core [of w]) auto
qed

lemma step_keeps_sockets:
  assumes "sockets_ok u" "phases_ok u" "fwd_next a u = Some v"
  shows "sockets_ok v"
proof (cases a)
  case (ReaderStep pick now got)
  then have s: "startUDPForward (reader u) pick now got u = Some v" using assms(3) by simp
  show ?thesis
  proof (cases "\<exists>d addr. reader u = RCreate d addr")
    case True
    then obtain d addr where "reader u = RCreate d addr" by blast
    then have "create_step now d addr u = Some v" using s by simp
    then obtain c e w r where "getOrCreateConnection now addr u = Some (c, e, w)" "v = reader_to r w"
      by (rule create_frame)
    then show ?thesis using create_sockets [OF assms(1)] by (auto simp: sockets_ok_def)
  next
    case False
    then show ?thesis using reader_frame [OF s] by (intro sockets_same [OF assms(1)]) auto
  qed
next
  case (WorkerStep c ch)
  then show ?thesis using assms worker_sockets by (auto split: if_splits)
next
  case (ResponseStep c pick now got sent)
  then have "forwardResponses (response u c) c pick now got sent u = Some v"
    using assms(3) by (simp split: if_splits)
  then show ?thesis using response_frame by (intro sockets_core [OF assms(1)]) auto
next
  case (JanitorStep tick)
  then have "janitor (janitorPc u) tick u = Some v" using assms(3) by simp
  then show ?thesis
    by (rule janitor_cases) (use assms(1) close_begin_sockets in \<open>auto simp: sockets_ok_def\<close>)
next
  case CloserStep
  then have "Close (closer u) u = Some v" using assms(3) by simp
  then show ?thesis
    by (rule closer_cases) (use assms(1) close_begin_sockets in \<open>auto simp: sockets_ok_def\<close>)
next
  case (CloseFinish c)
  then show ?thesis using assms(1,3) close_finish_sockets by (auto split: if_splits)
next
  case (PoolDrops b)
  then show ?thesis using assms(1,3) by (auto simp: sockets_ok_def pool_drops_def)
qed

section \<open>Shutting down\<close>

definition busy_workers :: "forward \<Rightarrow> int" where
  "busy_workers u = (\<Sum>c<freshConn u. if worker u c = WExit then 0 else 1)"

lemma busy_nonneg: "0 \<le> busy_workers u"
  unfolding busy_workers_def by (rule sum_nonneg) simp

lemma shutdown_ok_iff:
  "shutdown_ok u \<longleftrightarrow>
     int (wg u) = busy_workers u + (if janitorPc u = JExit then 0 else 1)
     \<and> (reader u \<in> {RWait, RReturned} \<longrightarrow> closer u = CDone)
     \<and> (reader u = RReturned \<longrightarrow> wg u = 0)
     \<and> (closer u \<noteq> CNever \<longrightarrow> ctxDone u)
     \<and> (closer u \<notin> {CNever, CListener} \<longrightarrow> listenerClosed u)"
  by (simp add: shutdown_ok_def busy_workers_def)

lemma busy_same:
  "freshConn v = freshConn u \<Longrightarrow> (\<And>c. c < freshConn u \<Longrightarrow> worker v c = WExit \<longleftrightarrow> worker u c = WExit)
   \<Longrightarrow> busy_workers v = busy_workers u"
  unfolding busy_workers_def by (rule sum.cong) simp_all

lemma busy_exit:
  assumes "c < freshConn u" "worker u c \<noteq> WExit" "worker v = (worker u)(c := WExit)" "freshConn v = freshConn u"
  shows "busy_workers v = busy_workers u - 1"
  using sum_change [of c "freshConn u" "\<lambda>c. if worker v c = WExit then 0 else 1 :: int"
      "\<lambda>c. if worker u c = WExit then 0 else 1"] assms
  by (simp add: busy_workers_def)

lemma busy_insert:
  assumes "freshConn v = Suc (freshConn u)" "worker v = (worker u)(freshConn u := WDial)"
  shows "busy_workers v = busy_workers u + 1"
proof -
  have "(\<Sum>c<freshConn u. if worker v c = WExit then 0 else 1 :: int)
      = (\<Sum>c<freshConn u. if worker u c = WExit then 0 else 1)"
    using assms(2) by (intro sum.cong) simp_all
  then show ?thesis using assms by (simp add: busy_workers_def)
qed

lemma worker_frame:
  assumes "runConnection w c ch u = Some v"
  shows "worker v i = (if i = c then worker v c else worker u i)"
  using assms
  by (cases w; auto elim!: close_then_cases simp: setUDP_def close_socket_def close_begin_def Let_def
      split: worker_choice.splits list.splits if_splits)

text \<open>A worker counts itself out of the wait group when, and only when, it exits.\<close>

lemma worker_wg:
  assumes "runConnection w c ch u = Some v" "worker u c = w"
  shows "w \<noteq> WExit" "worker v c = WExit \<and> wg v = wg u - 1 \<or> worker v c \<noteq> WExit \<and> wg v = wg u"
  using assms
  by (cases w; auto elim!: close_then_cases simp: setUDP_def close_socket_def close_begin_def
      removeConnection_def Let_def split: worker_choice.splits list.splits if_splits)+

lemma worker_shutdown:
  assumes "shutdown_ok u" "c < freshConn u" "runConnection (worker u c) c ch u = Some v"
  shows "shutdown_ok v"
proof -
  note o = worker_others [OF assms(3)]
  note w = worker_wg [OF assms(3) refl]
  have f: "worker v = (worker u)(c := worker v c)"
    by (rule ext) (simp only: fun_upd_apply, rule worker_frame [OF assms(3)])
  have n: "freshConn v = freshConn u" using o by (simp add: others_stay_def)
  have "int (wg v) - busy_workers v = int (wg u) - busy_workers u"
  proof (cases "worker v c = WExit")
    case True
    then have "busy_workers v = busy_workers u - 1" using busy_exit [OF assms(2) w(1), of v] f n by simp
    moreover have "busy_workers u \<le> int (wg u)" using assms(1) by (simp add: shutdown_ok_iff)
    ultimately have "0 < wg u" using busy_nonneg [of v] by simp
    moreover note \<open>busy_workers v = busy_workers u - 1\<close>
    ultimately show ?thesis using True w(2) by (simp add: of_nat_diff)
  next
    case False
    have "worker v i = WExit \<longleftrightarrow> worker u i = WExit" for i
      using worker_frame [OF assms(3), of i] w(1) False by (cases "i = c") auto
    then have "busy_workers v = busy_workers u" using n by (intro busy_same) simp_all
    then show ?thesis using False w(2) by simp
  qed
  moreover have "wg v \<le> wg u" using w(2) by auto
  moreover have "janitorPc v = janitorPc u" "reader v = reader u" "closer v = closer u" "ctxDone v = ctxDone u"
    "listenerClosed v = listenerClosed u" using o by (simp_all add: others_stay_def)
  ultimately show ?thesis using assms(1) unfolding shutdown_ok_iff by auto
qed

lemma shutdown_same:
  assumes "shutdown_ok u" "wg v = wg u" "janitorPc v = janitorPc u" "reader v = reader u" "closer v = closer u"
    "ctxDone v = ctxDone u" "listenerClosed v = listenerClosed u" "freshConn v = freshConn u" "worker v = worker u"
  shows "shutdown_ok v"
  using assms(1) unfolding shutdown_ok_def assms(2-9) .

lemma flow_shutdown: "same_flow u v \<Longrightarrow> shutdown_ok u \<Longrightarrow> shutdown_ok v"
  by (rule shutdown_same [of u]) (simp_all add: same_flow_def)

lemmas close_begin_shutdown = flow_shutdown [OF same_flow_close_begin]
lemmas close_finish_shutdown = flow_shutdown [OF same_flow_close_finish]

lemma create_shutdown:
  assumes "shutdown_ok u" "getOrCreateConnection now key u = Some (c, e, v)"
    "r \<notin> {RWait, RReturned}" "reader u \<notin> {RWait, RReturned}"
  shows "shutdown_ok (reader_to r v)"
proof -
  have "int (wg v) - busy_workers v = int (wg u) - busy_workers u"
    using assms(2)
  proof (rule getOrCreate_cases)
    assume "v = markConnectionActiveLocked now key c u"
    then show ?thesis using same_flow_mark [of u now key c] busy_same [of v u] by (simp add: same_flow_def)
  next
    fix w assume m: "makeRoomForConnectionLocked u = Some (e, w)" "insertConnection now key w = (c, v)"
    have "busy_workers v = busy_workers w + 1" using insert_frame [OF m(2)] by (intro busy_insert) simp_all
    moreover have "busy_workers w = busy_workers u" "wg w = wg u"
      using same_flow_makeRoom [OF m(1)] busy_same [of w u] by (simp_all add: same_flow_def)
    ultimately show ?thesis using insert_stay [OF m(2)] by simp
  qed
  moreover have "busy_workers (reader_to r v) = busy_workers v" by (rule busy_same) simp_all
  ultimately show ?thesis
    using assms(1,3) getOrCreate_stay [OF assms(2)] unfolding shutdown_ok_iff by auto
qed

lemma reader_pcs:
  assumes "startUDPForward r pick now got u = Some v" "\<And>d addr. r \<noteq> RCreate d addr" "reader u = r"
  shows "listenerClosed v = listenerClosed u"
    "closer v = closer u \<and> ctxDone v = ctxDone u \<or> closer u = CNever \<and> closer v = CListener \<and> ctxDone v"
    "reader v \<in> {RWait, RReturned} \<longrightarrow> closer v = CDone \<or> r \<in> {RWait, RReturned}"
    "reader v = RReturned \<longrightarrow> wg u = 0"
    "r \<in> {RWait, RReturned} \<longrightarrow> closer v = closer u"
  using assms
  by (cases r; auto elim!: close_then_cases simp: getBuffer_def putBuffer_def read_datagram_def Let_def
      reserve_loaded_def reserve_cas_def enqueue_step_def enqueue_def touch_def close_begin_def
      split: option.splits if_splits closer_pc.splits)+

lemma reader_shutdown:
  assumes "shutdown_ok u" "startUDPForward (reader u) pick now got u = Some v"
  shows "shutdown_ok v"
proof (cases "\<exists>d addr. reader u = RCreate d addr")
  case True
  then obtain d addr where r: "reader u = RCreate d addr" by blast
  then have "create_step now d addr u = Some v" using assms(2) by simp
  then obtain c e w r' where "getOrCreateConnection now addr u = Some (c, e, w)" "v = reader_to r' w"
    "r' = REnqueue d c \<or> (\<exists>k. e = Some k \<and> r' = REvict d c k)" by (rule create_frame)
  then show ?thesis using create_shutdown [OF assms(1), of now addr c e w r'] r by auto
next
  case False
  then have r: "\<And>d addr. reader u \<noteq> RCreate d addr" by blast
  note f = reader_frame(1,2,5,6) [OF assms(2) r] and p = reader_pcs [OF assms(2) r refl]
  have "busy_workers v = busy_workers u" using f(1,2) by (intro busy_same) simp_all
  then have w: "int (wg v) = busy_workers v + (if janitorPc v = JExit then 0 else 1)"
    using assms(1) f(3,4) by (simp add: shutdown_ok_iff)
  have "reader v \<in> {RWait, RReturned} \<longrightarrow> closer v = CDone"
    using assms(1) p(3,5) by (auto simp: shutdown_ok_iff)
  moreover have "reader v = RReturned \<longrightarrow> wg v = 0" using p(4) f(3) by simp
  moreover have "closer v \<noteq> CNever \<longrightarrow> ctxDone v" using assms(1) p(2) by (auto simp: shutdown_ok_iff)
  moreover have "closer v \<notin> {CNever, CListener} \<longrightarrow> listenerClosed v"
    using assms(1) p(1,2) by (auto simp: shutdown_ok_iff)
  ultimately show ?thesis using w unfolding shutdown_ok_iff by blast
qed

lemma janitor_shutdown:
  assumes "shutdown_ok u" "janitor (janitorPc u) tick u = Some v"
  shows "shutdown_ok v"
proof (cases "janitorPc u")
  case JWait
  then have "0 < wg u" using assms(1) busy_nonneg [of u] by (simp add: shutdown_ok_iff)
  then show ?thesis using assms JWait busy_same [of v u]
    unfolding shutdown_ok_iff by (auto simp: of_nat_diff split: option.splits if_splits)
next
  case (JClose cs)
  have "busy_workers (u\<lparr>janitorPc := j\<rparr>) = busy_workers u" for j by (rule busy_same) simp_all
  then have j: "shutdown_ok (u\<lparr>janitorPc := JClose ds\<rparr>)" "shutdown_ok (u\<lparr>janitorPc := JWait\<rparr>)" for ds
    using assms(1) JClose by (auto simp: shutdown_ok_iff)
  show ?thesis
  proof (cases cs)
    case Nil
    then show ?thesis using assms(2) JClose j by simp
  next
    case (Cons c ds)
    then have "close_then c (\<lambda>u. u\<lparr>janitorPc := JClose ds\<rparr>) u = Some v" using assms(2) JClose by simp
    then show ?thesis by (rule close_then_cases) (use j close_begin_shutdown [OF assms(1)] in auto)
  qed
qed (use assms in simp)

lemma closer_shutdown:
  assumes "shutdown_ok u" "Close (closer u) u = Some v"
  shows "shutdown_ok v"
proof -
  have b: "busy_workers (u\<lparr>closer := k\<rparr>) = busy_workers u"
    "busy_workers (u\<lparr>closer := k, ctxDone := x\<rparr>) = busy_workers u"
    "busy_workers (u\<lparr>ctxDone := x, closer := k\<rparr>) = busy_workers u"
    "busy_workers (u\<lparr>listenerClosed := x, closer := k\<rparr>) = busy_workers u"
    "busy_workers (u\<lparr>closer := k, listenerClosed := x\<rparr>) = busy_workers u" for k x by (rule busy_same; simp)+
  show ?thesis
  proof (cases "closer u")
    case (CConns cs)
    then show ?thesis using assms b close_begin_shutdown [OF assms(1)]
      by (cases cs) (auto elim!: close_then_cases simp: shutdown_ok_iff)
  qed (use assms b in \<open>auto simp: shutdown_ok_iff\<close>)
qed

lemma step_keeps_shutdown:
  assumes "shutdown_ok u" "fwd_next a u = Some v"
  shows "shutdown_ok v"
proof (cases a)
  case (ResponseStep c pick now got sent)
  then have s: "forwardResponses (response u c) c pick now got sent u = Some v"
    using assms(2) by (simp split: if_splits)
  show ?thesis
    using response_others [OF s] response_frame(3,4,6) [OF s]
    by (intro shutdown_same [OF assms(1)]) (simp_all add: others_stay_def)
next
  case (PoolDrops b)
  then have "v = pool_drops b u" using assms(2) by simp
  then show ?thesis by (intro shutdown_same [OF assms(1)]) (simp_all add: pool_drops_def)
next
  case (ReaderStep pick now got)
  then show ?thesis using assms reader_shutdown by simp
next
  case (WorkerStep c ch)
  then show ?thesis using assms worker_shutdown by (simp split: if_splits)
next
  case (JanitorStep tick)
  then show ?thesis using assms janitor_shutdown by simp
next
  case CloserStep
  then show ?thesis using assms closer_shutdown by simp
next
  case (CloseFinish c)
  then have "v = close_finish c u" using assms(2) by (simp split: if_splits)
  then show ?thesis using assms(1) close_finish_shutdown by simp
qed



section \<open>Every run keeps the invariant\<close>

text \<open>The limits are set before the forwarder starts and never change.\<close>

lemma reader_limits:
  assumes "startUDPForward r pick now got u = Some v"
  shows "maxConnections v = maxConnections u \<and> maxQueuedBytes v = maxQueuedBytes u"
proof (cases "\<exists>d addr. r = RCreate d addr")
  case True
  then obtain d addr where "create_step now d addr u = Some v" using assms by auto
  then obtain c e w r' where g: "getOrCreateConnection now addr u = Some (c, e, w)" and v: "v = reader_to r' w"
    by (rule create_frame)
  have "maxConnections w = maxConnections u"
    using g
  proof (rule getOrCreate_cases)
    fix x assume m: "makeRoomForConnectionLocked u = Some (e, x)" "insertConnection now addr x = (c, w)"
    have "maxConnections w = maxConnections x"
      using m(2) by (auto simp: insertConnection_def newConnection_def markConnectionActiveLocked_def touch_def Let_def)
    then show ?thesis using same_flow_makeRoom [OF m(1)] by (simp add: same_flow_def)
  qed (use same_flow_mark [of u now addr c] in \<open>simp add: same_flow_def\<close>)
  then show ?thesis using getOrCreate_flow(5) [OF g] v by simp
next
  case False
  then show ?thesis using assms
    by (cases r; auto elim!: close_then_cases simp: getBuffer_def putBuffer_def read_datagram_def Let_def
        reserve_loaded_def reserve_cas_def enqueue_step_def enqueue_def touch_def close_begin_def
        split: option.splits if_splits closer_pc.splits)
qed

lemma worker_limits:
  "runConnection w c ch u = Some v \<Longrightarrow> maxConnections v = maxConnections u \<and> maxQueuedBytes v = maxQueuedBytes u"
  by (cases w; auto elim!: close_then_cases simp: setUDP_def close_socket_def close_begin_def
      removeConnection_def Let_def split: worker_choice.splits list.splits if_splits)

lemma response_limits:
  assumes "forwardResponses p c pick now got sent u = Some v"
  shows "maxConnections v = maxConnections u \<and> maxQueuedBytes v = maxQueuedBytes u"
  using assms same_flow_markActive [of u now "keyOf u c" c]
  by (cases p; auto simp: getBuffer_def putBuffer_def same_flow_def Let_def split: option.splits if_splits)

lemma step_keeps_limits:
  assumes "fwd_next a u = Some v"
  shows "maxConnections v = maxConnections u \<and> maxQueuedBytes v = maxQueuedBytes u"
proof (cases a)
  case (ReaderStep pick now got)
  then show ?thesis using assms reader_limits by simp
next
  case (WorkerStep c ch)
  then show ?thesis using assms worker_limits by (simp split: if_splits)
next
  case (ResponseStep c pick now got sent)
  then show ?thesis using assms response_limits by (simp split: if_splits)
next
  case (JanitorStep tick)
  then have "janitor (janitorPc u) tick u = Some v" using assms by simp
  then show ?thesis by (rule janitor_cases) (simp_all add: close_begin_def)
next
  case CloserStep
  then have "Close (closer u) u = Some v" using assms by simp
  then show ?thesis by (rule closer_cases) (simp_all add: close_begin_def)
next
  case (CloseFinish c)
  then have "v = close_finish c u" using assms by (simp split: if_splits)
  then show ?thesis using same_flow_close_finish [of u c] by (simp add: same_flow_def)
next
  case (PoolDrops b)
  then show ?thesis using assms by (auto simp: pool_drops_def)
qed

text \<open>The forwarder with its limits; a limit that is not positive is no limit.\<close>

definition started_forward :: "int \<Rightarrow> int \<Rightarrow> forward" where
  "started_forward conn_limit byte_limit =
     newUDPForward\<lparr>maxConnections := conn_limit, maxQueuedBytes := byte_limit\<rparr>"

definition limited :: "int \<Rightarrow> int \<Rightarrow> forward \<Rightarrow> bool" where
  "limited conn_limit byte_limit u \<longleftrightarrow>
     fwd_inv u \<and> maxConnections u = conn_limit \<and> maxQueuedBytes u = byte_limit"

lemma started_limited: "limited mc mq (started_forward mc mq)"
  by (simp add: limited_def started_forward_def newUDPForward_def fwd_inv_def budget_ok_def buffers_ok_def
      owned_def live_def table_ok_def refs_ok_def phases_ok_def sockets_ok_def shutdown_ok_def)

lemma step_keeps_inv:
  assumes "fwd_inv u" "fwd_next a u = Some v"
  shows "fwd_inv v"
proof -
  have i: "budget_ok u" "buffers_ok u" "table_ok u" "refs_ok u" "phases_ok u" "sockets_ok u" "shutdown_ok u"
    using assms(1) by (simp_all add: fwd_inv_def)
  show ?thesis
    unfolding fwd_inv_def
    using step_keeps_flow [OF i(1,2,4,5) assms(2)] step_keeps_table [OF i(3) assms(2)]
      step_keeps_refs [OF i(3,4) assms(2)] step_keeps_phases [OF i(5,3) assms(2)]
      step_keeps_sockets [OF i(6,5) assms(2)] step_keeps_shutdown [OF i(7) assms(2)] by blast
qed

interpretation fwd: keeps_inv fwd_next "limited mc mq" for mc mq
proof unfold_locales
  show "limited mc mq v" if "limited mc mq u" "fwd_next a u = Some v" for u a v
    using that step_keeps_inv step_keeps_limits unfolding limited_def by metis
qed

lemmas run_limited = fwd.run_keeps [OF started_limited]

section \<open>Properties\<close>

lemma invD:
  assumes "run_ops fwd_next es (started_forward mc mq) = Some u"
  shows "fwd_inv u" "maxConnections u = mc" "maxQueuedBytes u = mq"
  using run_limited [OF assms] by (simp_all add: limited_def)

lemma finished_worker:
  assumes "fwd_inv u" "c < freshConn u" "worker u c = WExit"
  shows "held u c = {#}" "closeState (conns u c) = CloseDone" "response u c \<in> {PNone, PDone}"
    "mget (connections u) (keyOf u c) \<noteq> Some c"
proof -
  have "phases_ok u" using assms(1) by (simp add: fwd_inv_def)
  from phases_get [OF this assms(2)] assms(3)
  show "held u c = {#}" "closeState (conns u c) = CloseDone" "response u c \<in> {PNone, PDone}"
    "mget (connections u) (keyOf u c) \<noteq> Some c"
    by (simp_all add: phase_ok_def held_def)
qed

lemma returned_workers:
  assumes "fwd_inv u" "reader u = RReturned"
  shows "janitorPc u = JExit" "c < freshConn u \<Longrightarrow> worker u c = WExit"
proof -
  have b: "busy_workers u = 0 \<and> janitorPc u = JExit"
    using assms busy_nonneg [of u] by (auto simp: fwd_inv_def shutdown_ok_iff split: if_splits)
  then show "janitorPc u = JExit" by simp
  have "\<forall>i \<in> {..<freshConn u}. (if worker u i = WExit then 0 else 1 :: int) = 0"
    using b unfolding busy_workers_def by (subst (asm) sum_nonneg_eq_0_iff) auto
  then show "c < freshConn u \<Longrightarrow> worker u c = WExit" by (auto split: if_splits)
qed

lemma returned_empty:
  assumes "fwd_inv u" "reader u = RReturned"
  shows "live u = {#}" "connections u = []" "connectionLRU u = []" "sockets u = []" "queuedBytes u = 0"
proof -
  note w = returned_workers(2) [OF assms]
  show l: "live u = {#}"
    using finished_worker(1) [OF assms(1)] w assms(2) by (simp add: live_def)
  have t: "table_ok u" using assms(1) by (simp add: fwd_inv_def)
  have "mget (connections u) k = None" for k
  proof (rule ccontr)
    assume "mget (connections u) k \<noteq> None"
    then obtain c where "mget (connections u) k = Some c" by blast
    with table_get [OF t this] finished_worker(4) [OF assms(1), of c] w show False by auto
  qed
  then have "mkeys (connections u) = {}" by (auto simp: mget_None_iff)
  then show "connections u = []" "connectionLRU u = []"
    using t by (auto simp: mkeys_def table_ok_def)
  have "\<not> socket_held u s" for s
    using finished_worker(2) [OF assms(1)] w by (auto simp: socket_held_def)
  moreover have "sockets_ok u" using assms(1) by (simp add: fwd_inv_def)
  ultimately show "sockets u = []" by (cases "sockets u") (auto simp: sockets_ok_iff)
  have "queuedBytes u = \<Sum>\<^sub># (image_mset accountedBytes (live u))"
    using assms(1) by (simp add: fwd_inv_def budget_ok_def)
  then show "queuedBytes u = 0" by (simp add: l)
qed

text \<open>One client sends one datagram, then the forwarder is closed.\<close>

definition demo_addr :: addrPort where "demo_addr = ([127, 0, 0, 1], 5353)"

definition demo_traffic :: "fwd_step list" where
  "demo_traffic =
     [ReaderStep 0 0 None, ReaderStep 0 0 (Some ([1, 2], demo_addr)), ReaderStep 0 0 None,
      ReaderStep 0 0 None, ReaderStep 0 7 None, ReaderStep 0 7 None, WorkerStep 0 Succeeds]"

definition demo_shutdown :: "fwd_step list" where
  "demo_shutdown =
     [WorkerStep 0 Succeeds, WorkerStep 0 TakeDatagram, WorkerStep 0 Succeeds, ReaderStep 0 0 None,
      ReaderStep 0 0 None, ReaderStep 0 0 None, CloserStep, CloserStep, CloserStep, CloseFinish 0,
      CloserStep, CloserStep, ResponseStep 0 0 0 None False, ResponseStep 0 0 0 None False,
      WorkerStep 0 ContextDone, WorkerStep 0 Fails, WorkerStep 0 Fails, WorkerStep 0 Fails,
      WorkerStep 0 Fails, WorkerStep 0 Fails, JanitorStep None, ReaderStep 0 0 None, ReaderStep 0 0 None]"

lemmas forwarder_defs = started_forward_def newUDPForward_def demo_traffic_def demo_addr_def demo_shutdown_def
  getBuffer_def read_datagram_def reserve_loaded_def reserve_cas_def reserve_bytes_def BufferSize_def
  create_step_def getOrCreateConnection_def makeRoomForConnectionLocked_def insertConnection_def
  newConnection_def markConnectionActiveLocked_def touch_def enqueue_step_def enqueue_def
  udpForwardQueueSize_def setUDP_def ctx_err_def close_then_def close_begin_def close_finish_def
  removeConnection_def releaseDatagram_def setter_defs on_conn_def move_to_back_def mset_def mdel_def mget_def

lemma demo_queued:
  "map_option (\<lambda>u. (length (send (conns u 0)), queuedBytes u)) (run_ops fwd_next demo_traffic (started_forward 2 100000))
     = Some (1, 40960)"
  by (simp add: forwarder_defs)

lemma demo_returns:
  "map_option reader (run_ops fwd_next (demo_traffic @ demo_shutdown) (started_forward 2 100000)) = Some RReturned"
  by (simp add: forwarder_defs)


text \<open>C22: In every interleaving of the reader, the workers, the response goroutines, the janitor and
  \<open>Close\<close>, the forwarder stays within its limits: the byte counter is what the datagrams in the
  forwarder hold together and never exceeds a positive byte limit, the connection table never exceeds a
  positive connection limit, and no queue exceeds its 64 places.\<close>

theorem forwarder_within_limits:
  assumes "run_ops fwd_next es (started_forward conn_limit byte_limit) = Some u"
  shows "queuedBytes u = \<Sum>\<^sub># (image_mset accountedBytes (live u)) \<and> 0 \<le> queuedBytes u
    \<and> (0 < byte_limit \<longrightarrow> queuedBytes u \<le> byte_limit)
    \<and> (0 < conn_limit \<longrightarrow> int (length (connections u)) \<le> conn_limit)
    \<and> (c < freshConn u \<longrightarrow> length (send (conns u c)) \<le> udpForwardQueueSize)"
proof -
  note i = invD [OF assms]
  have b: "budget_ok u" and t: "table_ok u" and p: "phases_ok u" using i(1) by (simp_all add: fwd_inv_def)
  have "\<forall>d \<in># m. 0 \<le> accountedBytes d \<Longrightarrow> 0 \<le> \<Sum>\<^sub># (image_mset accountedBytes m)" for m :: "udpDatagram multiset"
    by (induction m) auto
  then have "0 \<le> \<Sum>\<^sub># (image_mset accountedBytes (live u))"
    using b unfolding budget_ok_def by blast
  moreover have "c < freshConn u \<longrightarrow> length (send (conns u c)) \<le> udpForwardQueueSize"
    using phases_get [OF p, of c] by (simp add: phase_ok_def)
  moreover have "queuedBytes u = \<Sum>\<^sub># (image_mset accountedBytes (live u))"
    "0 < byte_limit \<longrightarrow> queuedBytes u \<le> byte_limit" using b i(3) unfolding budget_ok_def by blast+
  moreover have "0 < conn_limit \<longrightarrow> int (length (connections u)) \<le> conn_limit"
    using t i(2) unfolding table_ok_def by blast
  ultimately show ?thesis by (intro conjI) simp_all
qed

theorem forwarder_within_limits_witness:
  "map_option (\<lambda>u. queuedBytes u \<le> 100000 \<and> length (send (conns u 0)) = 1)
     (run_ops fwd_next demo_traffic (started_forward 2 100000)) = Some True"
proof -
  obtain u where u: "run_ops fwd_next demo_traffic (started_forward 2 100000) = Some u"
    "length (send (conns u 0)) = 1"
    using demo_queued by (cases "run_ops fwd_next demo_traffic (started_forward 2 100000)") auto
  show ?thesis using forwarder_within_limits [OF u(1), of 0] u by simp
qed

text \<open>C23: A pooled buffer has one owner at a time: it is free in the pool, or one goroutine reads into it,
  or exactly one datagram in a queue or in a goroutine's hands is backed by it. So no datagram is
  overwritten before it is written to the server, and none is returned to the pool twice.\<close>

theorem buffers_have_one_owner:
  assumes "run_ops fwd_next es (started_forward conn_limit byte_limit) = Some u"
  shows "count (owned u) b \<le> 1
    \<and> (c < freshConn u \<and> d \<in> set (send (conns u c)) \<and> buffer d = Some b
       \<longrightarrow> b \<notin> set (pool u) \<and> reader u \<noteq> RRead b \<and> (\<forall>i < freshConn u. response u i \<noteq> PRead b))"
proof -
  have o: "count (owned u) b \<le> 1"
    using invD(1) [OF assms] unfolding fwd_inv_def buffers_ok_def by (metis (full_types) le_zero_eq nle_le order_trans)
  moreover have "b \<notin> set (pool u) \<and> reader u \<noteq> RRead b \<and> (\<forall>i < freshConn u. response u i \<noteq> PRead b)"
    if d: "c < freshConn u" "d \<in> set (send (conns u c))" "buffer d = Some b"
  proof -
    have "d \<in># held u c" using d(2) by (simp add: held_def)
    then have "d \<in># (\<Sum>c<freshConn u. held u c)" using d(1) by (auto simp: set_mset_sum)
    then have "d \<in># live u" by (simp add: live_def)
    then have "b \<in># \<Sum>\<^sub># (image_mset datagram_buffer (live u))"
      using d(3) by (auto simp: datagram_buffer_def intro!: bexI [of _ d])
    then have "1 \<le> count (\<Sum>\<^sub># (image_mset datagram_buffer (live u))) b"
      by (metis One_nat_def Suc_leI count_greater_zero_iff)
    then have "count (Multiset.mset (pool u)) b + count (reader_buffer (reader u)) b
        + count (\<Sum>i<freshConn u. response_buffer (response u i)) b = 0"
      using o unfolding owned_def count_union by linarith
    then have "b \<notin># Multiset.mset (pool u)" "b \<notin># reader_buffer (reader u)"
      "b \<notin># (\<Sum>i<freshConn u. response_buffer (response u i))" by (simp_all add: not_in_iff)
    then have "b \<notin> set (pool u)" "b \<notin># reader_buffer (reader u)"
      "\<forall>i < freshConn u. b \<notin># response_buffer (response u i)" by (auto simp: set_mset_sum)
    then show ?thesis by (metis add_mset_add_single reader_buffer.simps(1) response_buffer.simps(1) union_single_eq_member
        add_mset_eq_single multi_member_last)
  qed
  ultimately show ?thesis by blast
qed

theorem buffers_have_one_owner_witness:
  "map_option (\<lambda>u. count (owned u) 0 \<le> 1 \<and> length (send (conns u 0)) = 1)
     (run_ops fwd_next demo_traffic (started_forward 2 100000)) = Some True"
proof -
  obtain u where u: "run_ops fwd_next demo_traffic (started_forward 2 100000) = Some u"
    "length (send (conns u 0)) = 1"
    using demo_queued by (cases "run_ops fwd_next demo_traffic (started_forward 2 100000)") auto
  show ?thesis using buffers_have_one_owner [OF u(1), of 0] u by simp
qed

text \<open>C21: When \<open>startUDPForward\<close> returns, nothing is left behind, whatever interleaving led there: the
  table and its list are empty, every dialled socket is closed, no datagram waits anywhere, the byte
  counter is back at zero, and the listener, the janitor and every worker are finished.\<close>

theorem forwarder_leaves_nothing:
  assumes "run_ops fwd_next es (started_forward conn_limit byte_limit) = Some u" "reader u = RReturned"
  shows "connections u = [] \<and> connectionLRU u = [] \<and> sockets u = [] \<and> live u = {#} \<and> queuedBytes u = 0
    \<and> listenerClosed u \<and> janitorPc u = JExit
    \<and> (c < freshConn u \<longrightarrow> worker u c = WExit \<and> response u c \<in> {PNone, PDone})"
proof -
  have i: "fwd_inv u" using invD(1) [OF assms(1)] .
  then have "listenerClosed u" using assms(2) by (auto simp: fwd_inv_def shutdown_ok_iff)
  then show ?thesis
    using returned_empty [OF i assms(2)] returned_workers [OF i assms(2)] finished_worker(3) [OF i] by auto
qed

theorem forwarder_leaves_nothing_witness:
  "map_option (\<lambda>u. sockets u = [] \<and> queuedBytes u = 0)
     (run_ops fwd_next (demo_traffic @ demo_shutdown) (started_forward 2 100000)) = Some True"
proof -
  obtain u where u: "run_ops fwd_next (demo_traffic @ demo_shutdown) (started_forward 2 100000) = Some u"
    "reader u = RReturned" using demo_returns by auto
  show ?thesis using forwarder_leaves_nothing [OF u, of 0] u(1) by simp
qed

end
