(* ===== verification/EasyConnectTunnel.thy ===== *)
theory EasyConnectTunnel
  imports Dialer
begin

text \<open>
  The EasyConnect client's tunnels: the TCP tunnel handshake (\<open>client/easyconnect/tcptunnel.go\<close>), the
  handshakes of the two layer-3 streams (\<open>protocol.go\<close>), the connection over them (\<open>l3conn.go\<close>), and the
  token and the virtual address they need (\<open>request.go\<close>). The TLS library, its ServerHello and the
  network are parameters; a connection is the one of \<open>Dialer\<close>. What the context of a request does to a
  connection while it is cancelled is left out; its deadline is modelled.
\<close>

section \<open>Connections and errors\<close>

datatype ec_error =
    EcInvalidDestination
  | EcNoSession
  | EcNoToken
  | EcFailed string
  | EcWrite string string
  | EcHeaderTooLarge string
  | EcReadResponse string
  | EcUnexpectedResponse string bytes
  | EcShutdown
  | EcReconnectLater
  | EcSendReply byte
  | EcRecvReply
  | EcIPReply
  | EcAgentRead nat

text \<open>The TLS client hello the server recognises a tunnel by.\<close>

record client_hello =
  helloVers :: nat
  helloRandom :: bytes
  helloCiphers :: "nat list"
  helloCompression :: bytes
  helloSessionId :: bytes
  helloExtensions :: "bytes list"

text \<open>What the protocol calls: the underlay dial, the random source, the TLS handshake with a given hello,
  the plain TLS connection to the ECAgent with the session id of its ServerHello, one \<open>Read\<close> into a buffer
  of the given room, the clock and the caller's deadline.\<close>

record ec_env =
  eeDial :: "string + net_conn"
  eeRandom :: bytes
  eeHandshake :: "client_hello \<Rightarrow> net_conn \<Rightarrow> string + net_conn"
  eeAgent :: "string + net_conn \<times> bytes"
  eeRead :: "net_conn \<Rightarrow> nat \<Rightarrow> (string + bytes) \<times> net_conn"
  eeNow :: int
  eeCtxDeadline :: "int option"

definition easyConnectRawRequestTimeout :: int where
  "easyConnectRawRequestTimeout = 15 * 1000000000"

definition raw_timeout :: "int \<Rightarrow> int" where
  "raw_timeout t = (if t \<le> 0 then easyConnectRawRequestTimeout else t)"

text \<open>\<open>armConnectionContext\<close> and the function it returns.\<close>

definition arm :: "int \<Rightarrow> net_conn \<Rightarrow> ec_error + net_conn" where
  "arm deadline c =
     (case ncSetDeadline c (Some deadline) of
        Some e \<Rightarrow> Inl (EcFailed e)
      | None \<Rightarrow> Inr (c\<lparr>ncDeadline := Some deadline\<rparr>))"

definition disarm :: "net_conn \<Rightarrow> net_conn" where
  "disarm c = (if ncSetDeadline c None = None then c\<lparr>ncDeadline := None\<rparr> else c)"

definition close_conn :: "net_conn \<Rightarrow> net_conn" where
  "close_conn c = c\<lparr>ncClosed := True\<rparr>"

text \<open>\<open>fakeHeartBeatExtension.Read\<close>, and \<open>tlsConn\<close> with the connection it opened and does not return.\<close>

definition extension_read :: "bytes \<Rightarrow> (nat \<times> bool) \<times> bytes" where
  "extension_read b =
     (if length b < 5 then ((0, False), b) else ((5, True), b[1 := 15, 3 := 1, 4 := 1]))"

definition tunnel_hello :: "string \<Rightarrow> bytes \<Rightarrow> client_hello" where
  "tunnel_hello tunnelType random =
     \<lparr>helloVers = 770, helloRandom = random, helloCiphers = [5, 255], helloCompression = [0],
      helloSessionId = take 32 (ascii_bytes tunnelType @ replicate (32 - length tunnelType) 0),
      helloExtensions = [snd (extension_read (replicate 5 0))]\<rparr>"

definition tlsConn :: "ec_env \<Rightarrow> int \<Rightarrow> string \<Rightarrow> (ec_error + net_conn) \<times> net_conn option" where
  "tlsConn env deadline tunnelType =
     (case eeDial env of
        Inl e \<Rightarrow> (Inl (EcFailed e), None)
      | Inr c \<Rightarrow>
          (case arm deadline c of
             Inl e \<Rightarrow> (Inl e, Some (close_conn c))
           | Inr c \<Rightarrow>
               (case eeHandshake env (tunnel_hello tunnelType (eeRandom env)) c of
                  Inl e \<Rightarrow> (Inl (EcFailed e), Some (close_conn (disarm c)))
                | Inr c \<Rightarrow> (Inr (disarm c), None))))"


section \<open>The TCP tunnel\<close>

definition crlf :: bytes where "crlf = [13, 10]"

definition tcp_commands :: "string \<Rightarrow> ip \<Rightarrow> int \<Rightarrow> (string \<times> bytes) list" where
  "tcp_commands twfID x port =
     [(''C01'', ascii_bytes ''C01 HELLO'' @ crlf @ ascii_bytes ''CLIENT: WINDOWS/10.0'' @ crlf @ crlf),
      (''C02'', ascii_bytes ''C02 AUTH SESSION'' @ crlf @ ascii_bytes (''ID: '' @ twfID) @ crlf @ crlf),
      (''C03'', ascii_bytes ''C03 CONNECT RESOURCE'' @ crlf @ ascii_bytes ''VER: 4'' @ crlf
         @ ascii_bytes (''DST: '' @ ip_string x @ '' '' @ show_int port) @ crlf
         @ ascii_bytes ''TYPE: GENERAL'' @ crlf @ crlf)]"

definition maxTunnelReply :: nat where "maxTunnelReply = 4096"

text \<open>The loop that reads a response header byte by byte.\<close>

function read_reply :: "string \<Rightarrow> bytes \<Rightarrow> bytes \<Rightarrow> (ec_error + bytes) \<times> bytes" where
  "read_reply code reply r =
     (if ends_with reply header_end then (Inr reply, r)
      else if maxTunnelReply \<le> length reply then (Inl (EcHeaderTooLarge code), r)
      else (case r of
              [] \<Rightarrow> (Inl (EcReadResponse code), [])
            | b # r' \<Rightarrow> read_reply code (reply @ [b]) r'))"
  by pat_completeness auto
termination
  by (relation "measure (\<lambda>(code, reply, r). length r)") auto

declare read_reply.simps [simp del]

definition ok_line :: "string \<Rightarrow> bytes" where
  "ok_line code = ascii_bytes (code @ '' OK'') @ crlf"

definition run_command :: "string \<times> bytes \<Rightarrow> net_conn \<Rightarrow> (ec_error + unit) \<times> net_conn" where
  "run_command command c =
     (let ((_, err), c) = conn_write (snd command) c
      in case err of
           Some e \<Rightarrow> (Inl (EcWrite (fst command) e), c)
         | None \<Rightarrow>
             (case read_reply (fst command) [] (ncIn c) of
                (Inl e, r) \<Rightarrow> (Inl e, c\<lparr>ncIn := r\<rparr>)
              | (Inr reply, r) \<Rightarrow>
                  if take (length (ok_line (fst command))) reply = ok_line (fst command) then (Inr (), c\<lparr>ncIn := r\<rparr>)
                  else (Inl (EcUnexpectedResponse (fst command) reply), c\<lparr>ncIn := r\<rparr>)))"

fun run_commands :: "(string \<times> bytes) list \<Rightarrow> net_conn \<Rightarrow> (ec_error + unit) \<times> net_conn" where
  "run_commands [] c = (Inr (), c)"
| "run_commands (command # commands) c =
     (case run_command command c of
        (Inl e, c) \<Rightarrow> (Inl e, c)
      | (Inr _, c) \<Rightarrow> run_commands commands c)"

definition tunnel_deadline :: "ec_env \<Rightarrow> int \<Rightarrow> int" where
  "tunnel_deadline env timeout =
     (let t = eeNow env + raw_timeout timeout
      in case eeCtxDeadline env of Some d \<Rightarrow> min d t | None \<Rightarrow> t)"

text \<open>\<open>DialTCP\<close>; the second result is the connection it opened and does not return.\<close>

definition ec_DialTCP ::
  "ec_env \<Rightarrow> string \<Rightarrow> int \<Rightarrow> (ip \<times> int) option \<Rightarrow> (ec_error + net_conn) \<times> net_conn option" where
  "ec_DialTCP env twfID timeout addr =
     (case addr of
        None \<Rightarrow> (Inl EcInvalidDestination, None)
      | Some (x, port) \<Rightarrow>
          if to4 x = [] \<or> port < 1 \<or> 65535 < port then (Inl EcInvalidDestination, None)
          else if twfID = [] then (Inl EcNoSession, None)
          else
            (case tlsConn env (tunnel_deadline env timeout) ''TCPP'' of
               (Inl e, left) \<Rightarrow> (Inl e, left)
             | (Inr c, _) \<Rightarrow>
                 (case arm (tunnel_deadline env timeout) c of
                    Inl e \<Rightarrow> (Inl e, Some (close_conn c))
                  | Inr c \<Rightarrow>
                      (case run_commands (tcp_commands twfID x port) c of
                         (Inl e, c) \<Rightarrow> (Inl e, Some (close_conn (disarm c)))
                       | (Inr _, c) \<Rightarrow> (Inr (disarm c), None)))))"


section \<open>The layer-3 streams\<close>

record ec_client =
  ecTwfID :: string
  ecTimeout :: int
  ecToken :: "bytes option"
  ecIP :: ip
  ecIPReverse :: bytes
  ecRequestIPConn :: "net_conn option"
  ecExcluded :: "ip list"
  ecDropped :: "net_conn list"
  ecEnded :: bool

definition raw_deadline :: "ec_env \<Rightarrow> ec_client \<Rightarrow> int" where
  "raw_deadline env cl = eeNow env + raw_timeout (ecTimeout cl)"

definition stream_message :: "byte \<Rightarrow> bytes \<Rightarrow> bytes \<Rightarrow> bytes" where
  "stream_message kind token ipReverse = [kind, 0, 0, 0] @ token @ replicate 8 0 @ ipReverse"

text \<open>A handshake on a new connection: write the message, read once, look at the first byte of the
  zeroed reply buffer. \<open>check\<close> is the \<open>switch\<close> on it.\<close>

definition first_byte :: "bytes \<Rightarrow> byte" where
  "first_byte reply = (case reply of [] \<Rightarrow> 0 | b # _ \<Rightarrow> b)"

definition handshake ::
  "ec_env \<Rightarrow> int \<Rightarrow> bytes \<Rightarrow> nat \<Rightarrow> (bytes \<Rightarrow> ec_error option) \<Rightarrow> (ec_error + bytes \<times> net_conn) \<times> net_conn option" where
  "handshake env deadline msg room check =
     (case tlsConn env deadline ''L3IP'' of
        (Inl e, left) \<Rightarrow> (Inl e, left)
      | (Inr c, _) \<Rightarrow>
          (case arm deadline c of
             Inl e \<Rightarrow> (Inl e, Some (close_conn c))
           | Inr c \<Rightarrow>
               (let ((_, err), c) = conn_write msg c
                in case err of
                     Some e \<Rightarrow> (Inl (EcFailed e), Some (close_conn (disarm c)))
                   | None \<Rightarrow>
                       (case eeRead env c room of
                          (Inl e, c) \<Rightarrow> (Inl (EcFailed e), Some (close_conn (disarm c)))
                        | (Inr reply, c) \<Rightarrow>
                            (case check reply of
                               Some e \<Rightarrow> (Inl e, Some (close_conn (disarm c)))
                             | None \<Rightarrow> (Inr (reply, disarm c), None))))))"

definition send_reply :: "bytes \<Rightarrow> ec_error option" where
  "send_reply reply =
     (let b = first_byte reply
      in if b = 2 then None
         else if b = 8 then Some EcShutdown
         else if b \<in> {5, 6, 7, 9} then Some EcReconnectLater
         else Some (EcSendReply b))"

definition recv_reply :: "bytes \<Rightarrow> ec_error option" where
  "recv_reply reply = (if first_byte reply \<noteq> 1 then Some EcRecvReply else None)"

type_synonym conn_result = "(ec_error + net_conn) \<times> net_conn option"

definition stream_conn :: "byte \<Rightarrow> (bytes \<Rightarrow> ec_error option) \<Rightarrow> ec_env \<Rightarrow> ec_client \<Rightarrow> conn_result" where
  "stream_conn kind check env cl =
     (case ecToken cl of
        None \<Rightarrow> (Inl EcNoToken, None)
      | Some token \<Rightarrow>
          (case handshake env (raw_deadline env cl) (stream_message kind token (ecIPReverse cl)) 1500 check of
             (Inl e, left) \<Rightarrow> (Inl e, left)
           | (Inr (_, c), left) \<Rightarrow> (Inr c, left)))"

definition SendConn :: "ec_env \<Rightarrow> ec_client \<Rightarrow> conn_result" where
  "SendConn = stream_conn 5 send_reply"

definition RecvConn :: "ec_env \<Rightarrow> ec_client \<Rightarrow> conn_result" where
  "RecvConn = stream_conn 6 recv_reply"


section \<open>Token and address\<close>

text \<open>\<open>requestToken\<close>: the token is the first 31 characters of the server's session id in hexadecimal, a
  zero byte and the TwfID, as an array of 48 bytes. \<open>None\<close>: the slice or the conversion panics.\<close>

definition make_token :: "bytes \<Rightarrow> string \<Rightarrow> bytes option" where
  "make_token session twfID =
     (let sid = ascii_bytes (hex_encode session)
      in do {
           part \<leftarrow> slice sid 0 31;
           let text = part @ [0] @ ascii_bytes twfID;
           if 48 \<le> length text then Some (take 48 text) else None
         })"

definition agent_request :: "string \<Rightarrow> string \<Rightarrow> bytes" where
  "agent_request server twfID =
     (let part = (\<lambda>path. ascii_bytes (''GET '' @ path @ '' HTTP/1.1'') @ crlf @ ascii_bytes (''Host: '' @ server) @ crlf
                    @ ascii_bytes (''Cookie: TWFID='' @ twfID) @ crlf @ crlf)
      in part ''/por/conf.csp'' @ part ''/por/rclist.csp'')"

definition requestToken :: "ec_env \<Rightarrow> string \<Rightarrow> ec_client \<Rightarrow> (ec_error option \<times> ec_client) option" where
  "requestToken env server cl =
     (case eeAgent env of
        Inl e \<Rightarrow> Some (Some (EcFailed e), cl)
      | Inr (c, session) \<Rightarrow>
          (case arm (raw_deadline env cl) c of
             Inl e \<Rightarrow> Some (Some e, cl)
           | Inr c \<Rightarrow>
               (let ((_, err), c) = conn_write (agent_request server (ecTwfID cl)) c
                in case err of
                     Some e \<Rightarrow> Some (Some (EcFailed e), cl)
                   | None \<Rightarrow>
                       (case eeRead env c 8 of
                          (Inl e, _) \<Rightarrow> Some (Some (EcFailed e), cl)
                        | (Inr reply, _) \<Rightarrow>
                            if reply = [] then Some (Some (EcAgentRead 0), cl)
                            else do {
                              token \<leftarrow> make_token session (ecTwfID cl);
                              Some (None, cl\<lparr>ecToken := Some token\<rparr>)
                            }))))"

definition setRequestIPConn :: "net_conn \<Rightarrow> ec_client \<Rightarrow> ec_client" where
  "setRequestIPConn c cl =
     (let cl = (case ecRequestIPConn cl of
                  Some old \<Rightarrow> cl\<lparr>ecDropped := ecDropped cl @ [close_conn old]\<rparr>
                | None \<Rightarrow> cl)
      in cl\<lparr>ecRequestIPConn := Some c\<rparr>)"

definition ip_request :: "bytes \<Rightarrow> bytes" where
  "ip_request token = [0, 0, 0, 0] @ token @ replicate 8 0 @ [255, 255, 255, 255]"

definition ip_reply :: "bytes \<Rightarrow> ec_error option" where
  "ip_reply reply = (if first_byte reply \<noteq> 0 then Some EcIPReply else None)"

text \<open>The reply buffer has 128 zeroed bytes, so the address is read from it however short the reply is.
  Without a token the code dereferences nil.\<close>

definition requestIP :: "bool \<Rightarrow> ec_env \<Rightarrow> ec_client \<Rightarrow> (ec_error option \<times> ec_client) option" where
  "requestIP has_dialer env cl =
     (case ecToken cl of
        None \<Rightarrow> None
      | Some token \<Rightarrow>
          Some (case handshake env (raw_deadline env cl) (ip_request token) 128 ip_reply of
                  (Inl e, left) \<Rightarrow>
                    (Some e, cl\<lparr>ecDropped := ecDropped cl @ (case left of Some c \<Rightarrow> [c] | None \<Rightarrow> [])\<rparr>)
                | (Inr (reply, c), _) \<Rightarrow>
                    (let x = take 4 (drop 4 (reply @ replicate (128 - length reply) 0));
                         cl = cl\<lparr>ecIP := x, ecIPReverse := [x ! 3, x ! 2, x ! 1, x ! 0],
                                 ecExcluded := (if has_dialer then ecExcluded cl @ [x] else ecExcluded cl)\<rparr>
                     in (None, setRequestIPConn c cl))))"

definition ec_Close :: "ec_client \<Rightarrow> ec_client" where
  "ec_Close cl =
     (if ecEnded cl then cl
      else let cl = cl\<lparr>ecEnded := True\<rparr>
           in case ecRequestIPConn cl of
                Some c \<Rightarrow> cl\<lparr>ecRequestIPConn := None, ecDropped := ecDropped cl @ [close_conn c]\<rparr>
              | None \<Rightarrow> cl)"

definition ec_client_IP :: "ec_client \<Rightarrow> string + ip" where
  "ec_client_IP cl = (if ecIP cl = [] then Inl ''IP not available'' else Inr (to4 (ecIP cl)))"



section \<open>The layer-3 connection\<close>

text \<open>One direction of \<open>L3Conn\<close>: its stream (\<open>None\<close> after a failed handshake, when the field holds a nil
  connection), the number of times it was renewed, and the streams it closed.\<close>

datatype l3_io_error = IoFailed string | HandshakeFailed ec_error

record ec_direction =
  dirConn :: "net_conn option"
  dirErrs :: nat
  dirClosed :: "net_conn list"

record ec_l3conn =
  l3Send :: ec_direction
  l3Recv :: ec_direction

definition maxStreamErrors :: nat where "maxStreamErrors = 5"

text \<open>The loop of \<open>Read\<close> and of \<open>Write\<close>: \<open>out\<close> is what the stream's own call returns and \<open>renewed\<close> the
  handshake that replaces it. The loop condition is tested again with the handshake's error, which is
  nil, so the body runs at most once.\<close>

definition stream_io ::
  "nat \<times> string option \<Rightarrow> ec_error + net_conn \<Rightarrow> ec_direction \<Rightarrow> (nat \<times> l3_io_error option) \<times> ec_direction" where
  "stream_io out renewed d =
     (case out of
        (n, None) \<Rightarrow> ((n, None), d)
      | (n, Some e) \<Rightarrow>
          if maxStreamErrors \<le> dirErrs d then ((n, Some (IoFailed e)), d)
          else
            let d = d\<lparr>dirClosed := (case dirConn d of Some c \<Rightarrow> dirClosed d @ [close_conn c] | None \<Rightarrow> dirClosed d)\<rparr>
            in case renewed of
                 Inl e \<Rightarrow> ((0, Some (HandshakeFailed e)), d\<lparr>dirConn := None\<rparr>)
               | Inr c \<Rightarrow>
                   let d = d\<lparr>dirConn := Some c, dirErrs := dirErrs d + 1\<rparr>
                   in if maxStreamErrors \<le> dirErrs d then ((0, None), d) else ((n, None), d))"

definition L3_Read ::
  "nat \<times> string option \<Rightarrow> ec_env \<Rightarrow> ec_client \<Rightarrow> ec_l3conn \<Rightarrow> (nat \<times> l3_io_error option) \<times> ec_l3conn" where
  "L3_Read out env cl l =
     (let (r, d) = stream_io out (fst (RecvConn env cl)) (l3Recv l) in (r, l\<lparr>l3Recv := d\<rparr>))"

definition L3_Write ::
  "nat \<times> string option \<Rightarrow> ec_env \<Rightarrow> ec_client \<Rightarrow> ec_l3conn \<Rightarrow> (nat \<times> l3_io_error option) \<times> ec_l3conn" where
  "L3_Write out env cl l =
     (let (r, d) = stream_io out (fst (SendConn env cl)) (l3Send l) in (r, l\<lparr>l3Send := d\<rparr>))"

definition close_direction :: "ec_direction \<Rightarrow> ec_direction" where
  "close_direction d =
     (case dirConn d of Some c \<Rightarrow> d\<lparr>dirConn := Some (close_conn c)\<rparr> | None \<Rightarrow> d)"

definition L3_Close :: "ec_l3conn \<Rightarrow> ec_l3conn" where
  "L3_Close l = l\<lparr>l3Send := close_direction (l3Send l), l3Recv := close_direction (l3Recv l)\<rparr>"

definition new_direction :: "net_conn \<Rightarrow> ec_direction" where
  "new_direction c = \<lparr>dirConn = Some c, dirErrs = 0, dirClosed = []\<rparr>"

text \<open>\<open>NewL3Conn\<close>, with the connections it opened and does not return. The first stream is not closed
  when the second fails.\<close>

definition NewL3Conn :: "ec_env \<Rightarrow> ec_env \<Rightarrow> ec_client \<Rightarrow> (ec_error + ec_l3conn) \<times> net_conn list" where
  "NewL3Conn env1 env2 cl =
     (case SendConn env1 cl of
        (Inl e, left) \<Rightarrow> (Inl e, case left of Some c \<Rightarrow> [c] | None \<Rightarrow> [])
      | (Inr s, _) \<Rightarrow>
          (case RecvConn env2 cl of
             (Inl e, left) \<Rightarrow> (Inl e, s # (case left of Some c \<Rightarrow> [c] | None \<Rightarrow> []))
           | (Inr r, _) \<Rightarrow> (Inr \<lparr>l3Send = new_direction s, l3Recv = new_direction r\<rparr>, [])))"


section \<open>The TCP tunnel handshake\<close>

lemma read_reply_iff:
  assumes "\<not> ends_with acc header_end"
  shows "read_reply code acc r = (Inr reply, rest) \<longleftrightarrow>
    (\<exists>f. reply = acc @ f \<and> r = f @ rest \<and> shortest_header acc f \<and> length reply \<le> maxTunnelReply)"
  using assms
proof (induction code acc r rule: read_reply.induct)
  case (1 code acc r)
  have ne: "f \<noteq> []" if "shortest_header acc f" for f
    using that 1(2) by (auto simp: shortest_header_def)
  show ?case
  proof (cases "maxTunnelReply \<le> length acc \<or> r = []")
    case True
    then have "read_reply code acc r \<noteq> (Inr reply, rest)"
      using 1(2) by (subst read_reply.simps) auto
    moreover have "\<not> (reply = acc @ f \<and> r = f @ rest \<and> shortest_header acc f \<and> length reply \<le> maxTunnelReply)" for f
      using True ne [of f] by (cases f) auto
    ultimately show ?thesis by blast
  next
    case False
    then obtain b r' where r: "r = b # r'" and len: "\<not> maxTunnelReply \<le> length acc" by (cases r) auto
    have step: "read_reply code acc r = read_reply code (acc @ [b]) r'"
      using 1(2) r len by (subst read_reply.simps) simp
    show ?thesis
    proof (cases "ends_with (acc @ [b]) header_end")
      case True
      have sb: "shortest_header acc [b]" using True 1(2) by (simp add: shortest_header_def)
      have only: "g = []" if "shortest_header acc (b # g)" for g
        using that True by (cases g) (auto simp: shortest_header_def dest!: spec [of _ 1])
      have e: "read_reply code (acc @ [b]) r' = (Inr (acc @ [b]), r')"
        using True by (subst read_reply.simps) simp
      show ?thesis
      proof
        assume "read_reply code acc r = (Inr reply, rest)"
        then show "\<exists>f. reply = acc @ f \<and> r = f @ rest \<and> shortest_header acc f \<and> length reply \<le> maxTunnelReply"
          using e sb r len unfolding step by (intro exI [of _ "[b]"]) auto
      next
        assume "\<exists>f. reply = acc @ f \<and> r = f @ rest \<and> shortest_header acc f \<and> length reply \<le> maxTunnelReply"
        then obtain f where f: "reply = acc @ f" "r = f @ rest" "shortest_header acc f" by blast
        obtain g where "f = b # g" using f(2) r ne [OF f(3)] by (cases f) auto
        then show "read_reply code acc r = (Inr reply, rest)" using f r e only unfolding step by auto
      qed
    next
      case no: False
      have h: "shortest_header acc (b # g) \<longleftrightarrow> shortest_header (acc @ [b]) g" for g
        using no 1(2) by (auto simp: shortest_header_def less_Suc_eq_0_disj)
      have "read_reply code (acc @ [b]) r' = (Inr reply, rest) \<longleftrightarrow>
          (\<exists>f. reply = (acc @ [b]) @ f \<and> r' = f @ rest \<and> shortest_header (acc @ [b]) f \<and> length reply \<le> maxTunnelReply)"
        using 1(1) [OF 1(2) len r no] .
      also have "\<dots> \<longleftrightarrow> (\<exists>f. reply = acc @ f \<and> r = f @ rest \<and> shortest_header acc f \<and> length reply \<le> maxTunnelReply)"
 (is "?L \<longleftrightarrow> ?R")
      proof
        assume ?L
        then obtain f where "reply = (acc @ [b]) @ f" "r' = f @ rest" "shortest_header (acc @ [b]) f"
          "length reply \<le> maxTunnelReply" by blast
        then show ?R using h r by (intro exI [of _ "b # f"]) simp
      next
        assume ?R
        then obtain f where f: "reply = acc @ f" "r = f @ rest" "shortest_header acc f"
          "length reply \<le> maxTunnelReply" by blast
        obtain g where "f = b # g" "r' = g @ rest" using f(2) r ne [OF f(3)] by (cases f) auto
        then show ?L using f h by (intro exI [of _ g]) simp
      qed
      finally show ?thesis unfolding step .
    qed
  qed
qed


text \<open>A reply that lets the dial go on: the shortest beginning of the stream that ends in an empty line,
  not longer than 4096 bytes, whose first line says OK.\<close>

definition tunnel_reply :: "string \<Rightarrow> bytes \<Rightarrow> bool" where
  "tunnel_reply code r \<longleftrightarrow> shortest_header [] r \<and> length r \<le> maxTunnelReply
     \<and> take (length (ok_line code)) r = ok_line code"

lemma run_command_iff:
  "run_command (code, m) c = (Inr u, c') \<longleftrightarrow>
     (\<exists>n r rest. ncAccept c m = (n, None) \<and> ncIn c = r @ rest \<and> tunnel_reply code r
        \<and> c' = c\<lparr>ncOut := ncOut c @ take n m, ncIn := rest\<rparr>)"
proof -
  have ne: "\<not> ends_with [] header_end" by (simp add: ends_with_def header_end_def)
  have "run_command (code, m) c = (Inr u, c') \<longleftrightarrow>
     (\<exists>n r rest. ncAccept c m = (n, None) \<and> read_reply code [] (ncIn c) = (Inr r, rest)
        \<and> take (length (ok_line code)) r = ok_line code
        \<and> c' = c\<lparr>ncOut := ncOut c @ take n m, ncIn := rest\<rparr>)"
    by (cases "ncAccept c m"; cases "snd (ncAccept c m)"; cases "read_reply code [] (ncIn c)"; cases "fst (read_reply code [] (ncIn c))")
      (auto simp: run_command_def conn_write_def Let_def)
  then show ?thesis unfolding read_reply_iff [OF ne] by (auto simp: tunnel_reply_def)
qed

text \<open>The \<open>io.Writer\<close> contract: a write without an error is whole.\<close>

definition writes_whole :: "net_conn \<Rightarrow> bool" where
  "writes_whole c \<longleftrightarrow> (\<forall>m n. ncAccept c m = (n, None) \<longrightarrow> n = length m)"

lemma run_command_whole:
  assumes "writes_whole c"
  shows "run_command (code, m) c = (Inr u, c') \<longleftrightarrow>
     snd (ncAccept c m) = None \<and> (\<exists>r rest. ncIn c = r @ rest \<and> tunnel_reply code r
        \<and> c' = c\<lparr>ncOut := ncOut c @ m, ncIn := rest\<rparr>)"
proof -
  have "ncAccept c m = (n, None) \<longleftrightarrow> n = length m \<and> snd (ncAccept c m) = None" for n
    using assms unfolding writes_whole_def by (cases "ncAccept c m") auto
  then show ?thesis unfolding run_command_iff by auto
qed

lemma writes_whole_upd [simp]:
  "writes_whole (c\<lparr>ncOut := x\<rparr>) = writes_whole c" "writes_whole (c\<lparr>ncIn := y\<rparr>) = writes_whole c"
  "writes_whole (c\<lparr>ncDeadline := z\<rparr>) = writes_whole c"
  by (simp_all add: writes_whole_def)

lemma run_commands_whole:
  assumes "writes_whole c"
  shows "run_commands commands c = (Inr u, c') \<longleftrightarrow>
     (\<exists>rs rest. ncIn c = concat rs @ rest \<and> length rs = length commands
        \<and> list_all2 (\<lambda>k r. tunnel_reply (fst k) r \<and> snd (ncAccept c (snd k)) = None) commands rs
        \<and> c' = c\<lparr>ncOut := ncOut c @ concat (map snd commands), ncIn := rest\<rparr>)"
  using assms
proof (induction commands arbitrary: c)
  case Nil
  then show ?case by auto
next
  case (Cons k ks)
  obtain code m where k: "k = (code, m)" by (cases k)
  let ?Q = "\<lambda>r rs rest. ncIn c = r @ concat rs @ rest \<and> length rs = length ks \<and> tunnel_reply code r
      \<and> snd (ncAccept c m) = None
      \<and> list_all2 (\<lambda>k r. tunnel_reply (fst k) r \<and> snd (ncAccept c (snd k)) = None) ks rs
      \<and> c' = c\<lparr>ncOut := ncOut c @ m @ concat (map snd ks), ncIn := rest\<rparr>"
  have "run_commands (k # ks) c = (Inr u, c') \<longleftrightarrow>
      (\<exists>c1. run_command (code, m) c = (Inr (), c1) \<and> run_commands ks c1 = (Inr u, c'))"
    by (auto simp: k split: prod.splits sum.splits)
  also have "\<dots> \<longleftrightarrow> (\<exists>r y. ncIn c = r @ y \<and> tunnel_reply code r \<and> snd (ncAccept c m) = None
      \<and> run_commands ks (c\<lparr>ncOut := ncOut c @ m, ncIn := y\<rparr>) = (Inr u, c'))"
    unfolding run_command_whole [OF Cons.prems] by blast
  also have "\<dots> \<longleftrightarrow> (\<exists>r rs rest. ?Q r rs rest)"
  proof -
    have "run_commands ks (c\<lparr>ncOut := ncOut c @ m, ncIn := y\<rparr>) = (Inr u, c') \<longleftrightarrow>
        (\<exists>rs rest. y = concat rs @ rest \<and> length rs = length ks
          \<and> list_all2 (\<lambda>k r. tunnel_reply (fst k) r \<and> snd (ncAccept c (snd k)) = None) ks rs
          \<and> c' = c\<lparr>ncOut := ncOut c @ m @ concat (map snd ks), ncIn := rest\<rparr>)" for y

    proof -
      define c1 where "c1 = c\<lparr>ncOut := ncOut c @ m, ncIn := y\<rparr>"
      have sel: "ncIn c1 = y" "ncOut c1 = ncOut c @ m" "ncAccept c1 = ncAccept c"
        "c1\<lparr>ncOut := p, ncIn := q\<rparr> = c\<lparr>ncOut := p, ncIn := q\<rparr>" for p q by (simp_all add: c1_def)
      have "writes_whole c1" using Cons.prems by (simp add: c1_def)
      from Cons.IH [OF this] show ?thesis unfolding sel c1_def [symmetric] append_assoc .
    qed
    then show ?thesis by (simp only:) blast
  qed
  also have "\<dots> \<longleftrightarrow> (\<exists>rs rest. ncIn c = concat rs @ rest \<and> length rs = length (k # ks)
      \<and> list_all2 (\<lambda>k r. tunnel_reply (fst k) r \<and> snd (ncAccept c (snd k)) = None) (k # ks) rs
      \<and> c' = c\<lparr>ncOut := ncOut c @ concat (map snd (k # ks)), ncIn := rest\<rparr>)" (is "?L \<longleftrightarrow> ?R")
  proof
    assume ?L
    then obtain r rs rest where "?Q r rs rest" by blast
    then show ?R by (intro exI [of _ "r # rs"] exI [of _ rest]) (simp add: k)
  next
    assume ?R
    then obtain rs rest where q: "ncIn c = concat rs @ rest" "length rs = length (k # ks)"
      "list_all2 (\<lambda>k r. tunnel_reply (fst k) r \<and> snd (ncAccept c (snd k)) = None) (k # ks) rs"
      "c' = c\<lparr>ncOut := ncOut c @ concat (map snd (k # ks)), ncIn := rest\<rparr>" by blast
    obtain r rs' where "rs = r # rs'" using q(2) by (cases rs) auto
    with q show ?L by (intro exI [of _ r] exI [of _ rs'] exI [of _ rest]) (simp add: k)
  qed
  finally show ?case .
qed




definition demo_ec_conn :: "bytes \<Rightarrow> net_conn" where
  "demo_ec_conn input =
     \<lparr>ncIn = input, ncOut = [], ncClosed = False, ncAccept = (\<lambda>m. (length m, None)), ncDeadline = None,
      ncSetDeadline = (\<lambda>_. None)\<rparr>"

definition demo_reply :: "string \<Rightarrow> bytes" where
  "demo_reply code = ok_line code @ crlf"

definition demo_ec_env :: ec_env where
  "demo_ec_env =
     \<lparr>eeDial = Inr (demo_ec_conn (concat (map demo_reply [''C01'', ''C02'', ''C03'']) @ [7])), eeRandom = [],
      eeHandshake = (\<lambda>_. Inr), eeAgent = Inl ''unused'',
      eeRead = (\<lambda>c n. (Inr (take n (ncIn c)), c\<lparr>ncIn := drop n (ncIn c)\<rparr>)),
      eeNow = 0, eeCtxDeadline = None\<rparr>"

lemma demo_replies:
  "tunnel_reply ''C01'' (demo_reply ''C01'')" "tunnel_reply ''C02'' (demo_reply ''C02'')"
  "tunnel_reply ''C03'' (demo_reply ''C03'')"
proof -
  have "shortest_header [] (demo_reply k)" if "k = ''C01'' \<or> k = ''C02'' \<or> k = ''C03''" for k
    using that by (elim disjE) (simp, code_simp)+
  then show "tunnel_reply ''C01'' (demo_reply ''C01'')" "tunnel_reply ''C02'' (demo_reply ''C02'')"
    "tunnel_reply ''C03'' (demo_reply ''C03'')"
    by (simp_all add: tunnel_reply_def maxTunnelReply_def demo_reply_def) (simp_all add: ok_line_def crlf_def ascii_bytes_def)
qed



section \<open>The streams speak for the assigned address\<close>

lemma handshake_ok:
  assumes "handshake env dl msg room check = (Inr (reply, s), left)" "\<And>c. fst (tlsConn env dl ''L3IP'') = Inr c \<Longrightarrow> writes_whole c"
  obtains c c2 c3 where "fst (tlsConn env dl ''L3IP'') = Inr c" "ncOut c2 = ncOut c @ msg"
    "eeRead env c2 room = (Inr reply, c3)" "check reply = None" "s = disarm c3"
proof -
  obtain c l where c: "tlsConn env dl ''L3IP'' = (Inr c, l)"
    using assms(1) by (cases "tlsConn env dl ''L3IP''"; cases "fst (tlsConn env dl ''L3IP'')") (auto simp: handshake_def)
  have c': "fst (tlsConn env dl ''L3IP'') = Inr c" by (simp add: c)
  obtain n e where a: "ncAccept c msg = (n, e)" by (cases "ncAccept c msg")
  have e: "e = None" "ncSetDeadline c (Some dl) = None"
    using assms(1) c a
    by (auto simp: handshake_def arm_def conn_write_def Let_def split: option.splits prod.splits sum.splits)
  then have n: "n = length msg" using assms(2) [OF c'] a by (simp add: writes_whole_def)
  define c2 where "c2 = c\<lparr>ncDeadline := Some dl, ncOut := ncOut c @ msg\<rparr>"
  obtain x c3 where r: "eeRead env c2 room = (x, c3)" by (cases "eeRead env c2 room")
  have "handshake env dl msg room check =
      (case x of Inl e \<Rightarrow> (Inl (EcFailed e), Some (close_conn (disarm c3)))
       | Inr reply \<Rightarrow> (case check reply of Some e \<Rightarrow> (Inl e, Some (close_conn (disarm c3)))
           | None \<Rightarrow> (Inr (reply, disarm c3), None)))"
    using c a e n r by (simp add: handshake_def arm_def conn_write_def c2_def)
  then have "x = Inr reply" "check reply = None" "s = disarm c3"
    using assms(1) by (auto split: sum.splits option.splits)
  then show thesis using that [of c c2 c3] c' r by (simp add: c2_def)
qed



definition answering_env :: "bytes \<Rightarrow> ec_env" where
  "answering_env input = demo_ec_env\<lparr>eeDial := Inr (demo_ec_conn input)\<rparr>"

definition demo_ec_client :: ec_client where
  "demo_ec_client =
     \<lparr>ecTwfID = ''id'', ecTimeout = 0, ecToken = Some (replicate 48 1), ecIP = [], ecIPReverse = [],
      ecRequestIPConn = None, ecExcluded = [], ecDropped = [], ecEnded = False\<rparr>"

lemmas handshake_eval = answering_env_def demo_ec_env_def demo_ec_conn_def demo_ec_client_def handshake_def tlsConn_def disarm_def
  arm_def conn_write_def first_byte_def Let_def



section \<open>Error behaviour of the streams\<close>

text \<open>A failed call whose stream could be renewed is reported without an error: what a failed \<open>Write\<close> did
  not send is lost. Errors of the stream itself surface only after five renewals.\<close>

lemma failed_io_looks_successful:
  assumes "stream_io (n, Some e) renewed d = ((m, err), d')" "dirErrs d \<le> maxStreamErrors"
  shows "err = None \<longleftrightarrow> dirErrs d < maxStreamErrors \<and> (\<exists>c. renewed = Inr c)"
    "err = None \<Longrightarrow> m \<in> {n, 0} \<and> dirErrs d' = Suc (dirErrs d)"
    "dirErrs d = maxStreamErrors \<Longrightarrow> err = Some (IoFailed e) \<and> d' = d"
    "dirErrs d' \<le> maxStreamErrors"
  using assms by (auto simp: stream_io_def Let_def split: sum.splits if_splits)

text \<open>A receive handshake that fails leaves the send stream open with no owner.\<close>

lemma send_stream_leaks:
  assumes "SendConn env1 cl = (Inr s, None)" "RecvConn env2 cl = (Inl e, left)"
  shows "s \<in> set (snd (NewL3Conn env1 env2 cl)) \<and> fst (NewL3Conn env1 env2 cl) = Inl e"
  using assms by (simp add: NewL3Conn_def)

text \<open>The conversion to an array panics for a short session id or a TwfID of less than 16 characters.\<close>

lemma make_token_panics_iff:
  "make_token session twfID = None \<longleftrightarrow> 2 * length session < 31 \<or> length twfID < 16"
proof -
  have "length (hex2 b) = 2" for b by (simp add: hex2_def)
  then have "length (hex_encode session) = 2 * length session"
    by (induction session) (simp_all add: hex_encode_def)
  then show ?thesis
    by (auto simp: make_token_def slice_def ascii_bytes_def Let_def)
qed

lemma make_token_length: "make_token session twfID = Some token \<Longrightarrow> length token = 48"
  by (auto simp: make_token_def Let_def bind_eq_Some_conv split: if_splits)

end
