(* ===== verification/EasyConnectParse.thy ===== *)
theory EasyConnectParse
  imports AtrustClient
begin

text \<open>
  What the EasyConnect client reads from its server: the line list and the choice of the fastest line
  (\<open>client/easyconnect/parse.go\<close>, \<open>line.go\<close>), and the resource document (\<open>parseResources\<close>), with the
  agreement of the address rules with the set of routed addresses. The XML library, netaddr and the
  probe of a line are parameters.
\<close>

section \<open>The line list\<close>

text \<open>The XML library: reading a document, the first child of a name (also asked of a nil element),
  all children of a name, an attribute; and from netaddr the parser of addresses and the error of
  the set's builder. An outer \<open>None\<close> is a panic.\<close>

record 'e xml_env =
  xRead :: "string \<Rightarrow> string + 'e"
  xSelect :: "'e option \<Rightarrow> string \<Rightarrow> 'e option option"
  xSelectAll :: "'e \<Rightarrow> string \<Rightarrow> 'e list"
  xAttr :: "'e \<Rightarrow> string \<Rightarrow> string option"
  nParseIP :: "string \<Rightarrow> ip option"
  nSetError :: "set_call list \<Rightarrow> string option"

text \<open>\<open>parseLineListFromConfig\<close>. A missing \<open>enable\<close> attribute is dereferenced.\<close>

definition parseLineListFromConfig ::
  "'e xml_env \<Rightarrow> string \<Rightarrow> string list \<Rightarrow> (string option \<times> string list) option" where
  "parseLineListFromConfig env config lineList =
     (case xRead env config of
        Inl e \<Rightarrow> Some (Some e, lineList)
      | Inr doc \<Rightarrow> do {
          conf \<leftarrow> xSelect env (Some doc) ''Conf'';
          element \<leftarrow> xSelect env conf ''Mline'';
          case element of
            None \<Rightarrow> Some (Some ''no Mline element found'', lineList)
          | Some el \<Rightarrow> do {
              _ \<leftarrow> xAttr env el ''enable'';
              case xAttr env el ''list'' of
                None \<Rightarrow> Some (Some ''no list attribute found'', lineList)
              | Some s \<Rightarrow>
                  if s = [] then Some (Some ''empty line list'', lineList)
                  else let lineList = lineList @ filter (\<lambda>l. l \<noteq> []) (split_on (CHR '';'') s)
                       in Some (if lineList = [] then Some ''empty line list'' else None, lineList)
            }
        })"


section \<open>The best line\<close>

definition pingNum :: int where "pingNum = 3"

definition average_ms :: "ping_result \<Rightarrow> int" where
  "average_ms r = ping_avg r div 1000000"

fun pick_line :: "string list \<Rightarrow> nat \<Rightarrow> ping_result list \<Rightarrow> int \<times> string \<Rightarrow> int \<times> string" where
  "pick_line lines i [] best = best"
| "pick_line lines i (r # rs) (bestLatency, bestLine) =
     pick_line lines (Suc i) rs
       (if successCounter r = pingNum \<and> (bestLatency = 0 \<or> average_ms r < bestLatency)
        then (average_ms r, lines ! i) else (bestLatency, bestLine))"

definition findBestLine :: "(string \<Rightarrow> int \<Rightarrow> ping_result) \<Rightarrow> string list \<Rightarrow> (string + string) option" where
  "findBestLine probe lines =
     do {
       ts \<leftarrow> probe_targets lines;
       let best = snd (pick_line lines 0 (map (\<lambda>(h, p). probe h p) ts) (0, []));
       Some (if best = [] then Inl ''no available line'' else Inr best)
     }"


section \<open>The resource document\<close>

record ec_policy =
  tcpTunnelOnly :: bool
  ecIPResources :: "IPResource list"
  ecDomainResources :: "(string, DomainResource list) gomap"
  ecDNSResource :: "(string, ip list) gomap"
  ecSetCalls :: "set_call list"
  ecDNSServer :: string
  ecDNSServers :: "string list"

definition rc_protocol :: "string \<Rightarrow> string" where
  "rc_protocol s =
     (if s = ''-1'' then ''all'' else if s = ''0'' then ''tcp'' else if s = ''1'' then ''udp''
      else if s = ''2'' then ''icmp'' else [])"

definition rc_ports :: "string \<Rightarrow> (int \<times> int) option" where
  "rc_ports s =
     (case split_on (CHR ''~'') s of
        [a, b] \<Rightarrow> (case atoi a of None \<Rightarrow> None | Some x \<Rightarrow> map_option (Pair x) (atoi b))
      | _ \<Rightarrow> None)"

text \<open>\<open>strings.Split(host, "//")[1]\<close>: what stands between the first and the second double slash.\<close>

fun before_slashes :: "string \<Rightarrow> string" where
  "before_slashes (c # d # s) =
     (if c = CHR ''/'' \<and> d = CHR ''/'' then [] else c # before_slashes (d # s))"
| "before_slashes s = s"

fun after_slashes :: "string \<Rightarrow> string" where
  "after_slashes (c # d # s) = (if c = CHR ''/'' \<and> d = CHR ''/'' then s else after_slashes (d # s))"
| "after_slashes _ = []"

definition rc_host :: "string \<Rightarrow> string \<times> string" where
  "rc_host h =
     (let h = (if has_sub h ''//'' then before_slashes (after_slashes h) else h);
          h = hd (split_on (CHR ''/'') h);
          h = filter (\<lambda>c. c \<noteq> CHR ''*'') h
      in if CHR '':'' \<in> set h then (case split_host_port h of Some (a, b) \<Rightarrow> (a, b) | None \<Rightarrow> ([], []))
         else (h, []))"

definition ec_ip_rule :: "string \<Rightarrow> int \<times> int \<Rightarrow> ip \<Rightarrow> ip \<Rightarrow> IPResource" where
  "ec_ip_rule proto ports lo hi =
     \<lparr>PortMin = fst ports, PortMax = snd ports, ResProtocol = proto, AppID = [], NodeGroupID = [],
      EnableTCPPrefL3 = False, IPMin = lo, IPMax = hi\<rparr>"

definition ec_domain_rule :: "string \<Rightarrow> int \<times> int \<Rightarrow> DomainResource" where
  "ec_domain_rule proto ports =
     \<lparr>PortMin = fst ports, PortMax = snd ports, ResProtocol = proto, AppID = [], NodeGroupID = [],
      EnableTCPPrefL3 = False, AddrPretend = False\<rparr>"

definition add_range :: "'e xml_env \<Rightarrow> string \<Rightarrow> int \<times> int \<Rightarrow> string list \<Rightarrow> ec_policy \<Rightarrow> ec_policy option" where
  "add_range env proto ports parts t =
     (case parts of
        [a, b] \<Rightarrow>
          (let lo = parse_ip a; hi = parse_ip b
           in if lo = [] \<or> hi = [] then Some t
              else do {
                x \<leftarrow> nParseIP env a;
                y \<leftarrow> nParseIP env b;
                Some (t\<lparr>ecSetCalls := ecSetCalls t @ [AddRange x y],
                        ecIPResources := ecIPResources t @ [ec_ip_rule proto ports lo hi]\<rparr>)
              })
      | _ \<Rightarrow> Some t)"

definition add_host :: "'e xml_env \<Rightarrow> bool \<Rightarrow> string \<Rightarrow> int \<times> int \<Rightarrow> string \<Rightarrow> ec_policy \<Rightarrow> ec_policy option" where
  "add_host env useDomain proto ports h t =
     (let (host, hostPort) = rc_host h; x = parse_ip host
      in if x = [] then
           Some (if useDomain
                 then t\<lparr>ecDomainResources :=
                        mset host (mget_list (ecDomainResources t) host @ [ec_domain_rule proto ports])
                          (ecDomainResources t)\<rparr>
                 else t)
         else do {
           let ports = (case atoi hostPort of
                          Some p \<Rightarrow> if hostPort \<noteq> [] then (p, p) else ports
                        | None \<Rightarrow> ports);
           y \<leftarrow> nParseIP env host;
           Some (t\<lparr>ecSetCalls := ecSetCalls t @ [AddIP y],
                   ecIPResources := ecIPResources t @ [ec_ip_rule proto ports x x]\<rparr>)
         })"

fun add_pairs ::
  "'e xml_env \<Rightarrow> bool \<Rightarrow> string \<Rightarrow> (string \<times> string) list \<Rightarrow> ec_policy \<Rightarrow> ec_policy option" where
  "add_pairs env useDomain proto [] t = Some t"
| "add_pairs env useDomain proto ((h, p) # ps) t =
     do {
       t \<leftarrow> (case rc_ports p of
               None \<Rightarrow> Some t
             | Some ports \<Rightarrow>
                 if CHR ''~'' \<in> set h then add_range env proto ports (split_on (CHR ''~'') h) t
                 else add_host env useDomain proto ports h t);
       add_pairs env useDomain proto ps t
     }"

definition add_rc :: "'e xml_env \<Rightarrow> bool \<Rightarrow> 'e \<Rightarrow> ec_policy \<Rightarrow> ec_policy option" where
  "add_rc env useDomain rc t =
     do {
       typ \<leftarrow> xAttr env rc ''type'';
       if typ \<noteq> ''1'' \<and> typ \<noteq> ''2'' then Some t
       else do {
         proto \<leftarrow> xAttr env rc ''proto'';
         case (xAttr env rc ''host'', xAttr env rc ''port'') of
           (Some hs, Some ps) \<Rightarrow>
             (let hostList = split_on (CHR '';'') hs; portList = split_on (CHR '';'') ps
              in if length hostList \<noteq> length portList then Some t
                 else add_pairs env useDomain (rc_protocol proto) (zip hostList portList) t)
         | _ \<Rightarrow> Some t
       }
     }"

fun add_rcs :: "'e xml_env \<Rightarrow> bool \<Rightarrow> 'e list \<Rightarrow> ec_policy \<Rightarrow> ec_policy option" where
  "add_rcs env useDomain [] t = Some t"
| "add_rcs env useDomain (rc # rcs) t =
     do { t \<leftarrow> add_rc env useDomain rc t; add_rcs env useDomain rcs t }"

fun ec_dns_rules :: "'e xml_env \<Rightarrow> string list \<Rightarrow> (string, ip list) gomap \<Rightarrow> (string, ip list) gomap" where
  "ec_dns_rules env [] m = m"
| "ec_dns_rules env (s # ss) m =
     ec_dns_rules env ss
       (case split_on (CHR '':'') s of
          [_, host, a] \<Rightarrow>
            (case nParseIP env a of Some x \<Rightarrow> mset host (mget_list m host @ [x]) m | None \<Rightarrow> m)
        | _ \<Rightarrow> m)"

definition ec_dns_servers :: "string \<Rightarrow> ec_policy \<Rightarrow> string option \<times> ec_policy" where
  "ec_dns_servers s t =
     (let servers = filter (\<lambda>x. x \<noteq> []) (split_on (CHR '';'') s);
          server = (case servers of [] \<Rightarrow> ecDNSServer t | x # _ \<Rightarrow> x);
          server = (if server = ''0.0.0.0'' then [] else server)
      in (if server = [] \<and> \<not> tcpTunnelOnly t then Some ''DNS server invalid'' else None,
          t\<lparr>ecDNSServers := servers, ecDNSServer := server\<rparr>))"

definition parse_dns_element :: "'e xml_env \<Rightarrow> 'e option \<Rightarrow> ec_policy \<Rightarrow> string option \<times> ec_policy" where
  "parse_dns_element env element t =
     (case element of
        None \<Rightarrow> (Some ''no Rcs element found'', t)
      | Some el \<Rightarrow>
          (case xAttr env el ''data'' of
             None \<Rightarrow> (Some ''no Dns data attribute found'', t)
           | Some d \<Rightarrow>
               (let t = t\<lparr>ecDNSResource := ec_dns_rules env (split_on (CHR '';'') d) (ecDNSResource t)\<rparr>
                in case nSetError env (ecSetCalls t) of
                     Some e \<Rightarrow> (Some e, t)
                   | None \<Rightarrow>
                       (case xAttr env el ''dnsserver'' of
                          None \<Rightarrow> (Some ''no Dns dnsserver attribute found'', t)
                        | Some s \<Rightarrow> ec_dns_servers s t))))"

definition parseResources ::
  "'e xml_env \<Rightarrow> bool \<Rightarrow> string \<Rightarrow> ec_policy \<Rightarrow> (string option \<times> ec_policy) option" where
  "parseResources env useDomain resources t =
     (case xRead env resources of
        Inl e \<Rightarrow> Some (Some e, t)
      | Inr doc \<Rightarrow> do {
          root \<leftarrow> xSelect env (Some doc) ''Resource'';
          other \<leftarrow> (case root of None \<Rightarrow> Some None | Some r \<Rightarrow> xSelect env (Some r) ''Other'');
          let vip = (case other of None \<Rightarrow> None | Some el \<Rightarrow> xAttr env el ''allocateVip'');
          let t = t\<lparr>tcpTunnelOnly := (vip = Some ''0''), ecIPResources := [], ecDomainResources := [],
                    ecDNSResource := [], ecSetCalls := []\<rparr>;
          element \<leftarrow> xSelect env root ''Rcs'';
          case element of
            None \<Rightarrow> Some (Some ''no Rcs element found'', t)
          | Some el \<Rightarrow> do {
              t \<leftarrow> add_rcs env useDomain (xSelectAll env el ''Rc'') t;
              dns \<leftarrow> xSelect env root ''Dns'';
              Some (parse_dns_element env dns t)
            }
        })"



section \<open>The address set and the address rules\<close>

text \<open>The call that adds to the set what a rule covers. netaddr and \<open>net.ParseIP\<close> may write an address
  differently, so addresses are compared as \<open>net.IP.Equal\<close> does.\<close>

fun adds_rule :: "set_call \<Rightarrow> IPResource \<Rightarrow> bool" where
  "adds_rule (AddRange x y) r \<longleftrightarrow> ip_equal x (IPMin r) \<and> ip_equal y (IPMax r)"
| "adds_rule (AddIP x) r \<longleftrightarrow> ip_equal x (IPMin r) \<and> IPMax r = IPMin r"
| "adds_rule _ r \<longleftrightarrow> False"

definition known_protocols :: "string set" where
  "known_protocols = {''all'', ''tcp'', ''udp'', ''icmp'', []}"

definition policy_ok :: "bool \<Rightarrow> ec_policy \<Rightarrow> bool" where
  "policy_ok useDomain t \<longleftrightarrow> list_all2 adds_rule (ecSetCalls t) (ecIPResources t)
     \<and> (\<forall>r \<in> set (ecIPResources t). IPMin r \<noteq> [] \<and> IPMax r \<noteq> [] \<and> ResProtocol r \<in> known_protocols)
     \<and> (\<not> useDomain \<longrightarrow> ecDomainResources t = [])
     \<and> map_ok (ecDomainResources t)"

definition parsers_agree :: "'e xml_env \<Rightarrow> bool" where
  "parsers_agree env \<longleftrightarrow> (\<forall>s x. nParseIP env s = Some x \<longrightarrow> parse_ip s \<noteq> [] \<longrightarrow> ip_equal x (parse_ip s))"

lemma rc_protocol_known: "rc_protocol s \<in> known_protocols"
  by (simp add: rc_protocol_def known_protocols_def)

lemma add_range_ok:
  assumes "policy_ok u t" "parsers_agree env" "proto \<in> known_protocols" "add_range env proto ports parts t = Some t'"
  shows "policy_ok u t'"
proof (cases "\<exists>a b. parts = [a, b] \<and> parse_ip a \<noteq> [] \<and> parse_ip b \<noteq> []")
  case True
  then obtain a b where p: "parts = [a, b]" "parse_ip a \<noteq> []" "parse_ip b \<noteq> []" by blast
  then obtain x y where xy: "nParseIP env a = Some x" "nParseIP env b = Some y"
    "t' = t\<lparr>ecSetCalls := ecSetCalls t @ [AddRange x y],
      ecIPResources := ecIPResources t @ [ec_ip_rule proto ports (parse_ip a) (parse_ip b)]\<rparr>"
    using assms(4) by (auto simp: add_range_def Let_def bind_eq_Some_conv)
  have "ip_equal x (parse_ip a)" "ip_equal y (parse_ip b)"
    using assms(2) xy(1,2) p(2,3) unfolding parsers_agree_def by blast+
  then show ?thesis using assms(1,3) p(2,3) unfolding policy_ok_def xy(3)
    by (auto simp: ec_ip_rule_def intro!: list_all2_appendI)
next
  case False
  then have "t' = t" using assms(4)
    by (auto simp: add_range_def Let_def split: list.splits if_splits)
  then show ?thesis using assms(1) by simp
qed

lemma add_host_ok:
  assumes "policy_ok u t" "parsers_agree env" "proto \<in> known_protocols" "add_host env u proto ports h t = Some t'"
  shows "policy_ok u t'"
proof -
  obtain host hostPort where h: "rc_host h = (host, hostPort)" by (cases "rc_host h")
  show ?thesis
  proof (cases "parse_ip host = []")
    case True
    have t': "t' = (if u then t\<lparr>ecDomainResources :=
        mset host (mget_list (ecDomainResources t) host @ [ec_domain_rule proto ports]) (ecDomainResources t)\<rparr> else t)"
      using assms(4) h True by (simp add: add_host_def Let_def)
    show ?thesis using assms(1) unfolding t' by (cases u) (simp_all add: policy_ok_def)
  next
    case False
    define q where "q = (case atoi hostPort of
      Some p \<Rightarrow> if hostPort \<noteq> [] then (p, p) else ports | None \<Rightarrow> ports)"
    obtain y where y: "nParseIP env host = Some y"
      "t' = t\<lparr>ecSetCalls := ecSetCalls t @ [AddIP y],
        ecIPResources := ecIPResources t @ [ec_ip_rule proto q (parse_ip host) (parse_ip host)]\<rparr>"
      using assms(4) h False by (auto simp: add_host_def Let_def bind_eq_Some_conv q_def)
    have "ip_equal y (parse_ip host)" using assms(2) y(1) False unfolding parsers_agree_def by blast
    then show ?thesis using assms(1,3) False unfolding policy_ok_def y(2)
      by (auto simp: ec_ip_rule_def intro!: list_all2_appendI)
  qed
qed

lemma add_pairs_ok:
  assumes "policy_ok u t" "parsers_agree env" "proto \<in> known_protocols" "add_pairs env u proto ps t = Some t'"
  shows "policy_ok u t'"
  using assms(1,4)
proof (induction ps arbitrary: t)
  case Nil
  then show ?case by simp
next
  case (Cons q ps)
  obtain h p where q: "q = (h, p)" by (cases q)
  obtain t1 where t1: "add_pairs env u proto ps t1 = Some t'"
    "(case rc_ports p of None \<Rightarrow> Some t | Some ports \<Rightarrow>
        if CHR ''~'' \<in> set h then add_range env proto ports (split_on (CHR ''~'') h) t
        else add_host env u proto ports h t) = Some t1"
    using Cons.prems(2) by (auto simp: q bind_eq_Some_conv)
  have "policy_ok u t1"
    using t1(2) Cons.prems(1) add_range_ok [OF Cons.prems(1) assms(2,3)] add_host_ok [OF Cons.prems(1) assms(2,3)]
    by (auto split: option.splits if_splits)
  then show ?case using Cons.IH t1(1) by blast
qed

lemma add_rc_cases:
  assumes "add_rc env u rc t = Some t'"
  shows "t' = t \<or> (\<exists>p hs qs. add_pairs env u (rc_protocol p) (zip hs qs) t = Some t')"
proof -
  obtain ty where ty: "xAttr env rc ''type'' = Some ty"
    using assms by (auto simp: add_rc_def bind_eq_Some_conv)
  show ?thesis
  proof (cases "ty \<noteq> ''1'' \<and> ty \<noteq> ''2''")
    case True
    then show ?thesis using assms ty by (simp add: add_rc_def)
  next
    case False
    then obtain p where "xAttr env rc ''proto'' = Some p"
      using assms ty by (auto simp: add_rc_def bind_eq_Some_conv)
    then show ?thesis using assms ty False
      by (cases "xAttr env rc ''host''"; cases "xAttr env rc ''port''")
        (auto simp: add_rc_def Let_def split: if_splits)
  qed
qed

lemma add_rc_ok:
  assumes "policy_ok u t" "parsers_agree env" "add_rc env u rc t = Some t'"
  shows "policy_ok u t'"
  using add_rc_cases [OF assms(3)] assms(1) add_pairs_ok [OF assms(1,2) rc_protocol_known] by blast

lemma add_rcs_ok:
  assumes "policy_ok u t" "parsers_agree env" "add_rcs env u rcs t = Some t'"
  shows "policy_ok u t'"
  using assms(1,3)
proof (induction rcs arbitrary: t)
  case Nil
  then show ?case by simp
next
  case (Cons rc rcs)
  obtain t1 where t1: "add_rc env u rc t = Some t1" "add_rcs env u rcs t1 = Some t'"
    using Cons.prems(2) by (auto simp: bind_eq_Some_conv)
  have "policy_ok u t1"
    using add_rc_ok [OF Cons.prems(1) assms(2) t1(1)] .
  then show ?case using Cons.IH t1(2) by blast
qed

lemma parse_dns_element_frame:
  assumes "parse_dns_element env element t = (err, t')"
  shows "ecIPResources t' = ecIPResources t" "ecSetCalls t' = ecSetCalls t"
    "ecDomainResources t' = ecDomainResources t" "tcpTunnelOnly t' = tcpTunnelOnly t"
    "err = None \<Longrightarrow> ecDNSServer t' \<noteq> [] \<or> tcpTunnelOnly t'"
  using assms
  by (auto simp: parse_dns_element_def ec_dns_servers_def Let_def split: option.splits if_splits)

lemma parseResources_start:
  assumes "parseResources env useDomain doc t0 = Some (err, t)" "xRead env doc = Inr root"
  obtains b root' element where "policy_ok useDomain b"
    "(case element of
        None \<Rightarrow> Some (Some ''no Rcs element found'', b)
      | Some el \<Rightarrow> do {
          t \<leftarrow> add_rcs env useDomain (xSelectAll env el ''Rc'') b;
          dns \<leftarrow> xSelect env root' ''Dns'';
          Some (parse_dns_element env dns t)
        }) = Some (err, t)"
proof -
  obtain root' other element where *: "xSelect env (Some root) ''Resource'' = Some root'"
    "(case root' of None \<Rightarrow> Some None | Some r \<Rightarrow> xSelect env (Some r) ''Other'') = Some other"
    "xSelect env root' ''Rcs'' = Some element"
    using assms unfolding parseResources_def assms(2) sum.case
    by (auto simp: bind_eq_Some_conv Let_def)
  define b where "b = t0\<lparr>tcpTunnelOnly :=
      ((case other of None \<Rightarrow> None | Some el \<Rightarrow> xAttr env el ''allocateVip'') = Some ''0''),
    ecIPResources := [], ecDomainResources := [], ecDNSResource := [], ecSetCalls := []\<rparr>"
  have "policy_ok useDomain b" by (simp add: b_def policy_ok_def)
  moreover have "(case element of
        None \<Rightarrow> Some (Some ''no Rcs element found'', b)
      | Some el \<Rightarrow> do {
          t \<leftarrow> add_rcs env useDomain (xSelectAll env el ''Rc'') b;
          dns \<leftarrow> xSelect env root' ''Dns'';
          Some (parse_dns_element env dns t)
        }) = Some (err, t)"
    using assms(1) unfolding parseResources_def assms(2) sum.case * b_def by (simp add: * Let_def)
  ultimately show thesis by (rule that [where b = b and root' = root' and element = element])
qed

text \<open>
  C19: the resource document of an EasyConnect server turns into address rules and calls on the routed
  address set that agree one by one: each rule's first and last address are those its call adds, no rule
  has an empty address or an unknown protocol, and there are no domain rules when they are not wanted.
  This also holds when the parser stops with an error after the rules. Without an error there is a DNS
  server, or the server allocates no virtual address.
\<close>

theorem policy_set_agrees_with_rules:
  assumes "parseResources env useDomain doc t0 = Some (err, t)" "xRead env doc = Inr root" "parsers_agree env"
  shows "list_all2 adds_rule (ecSetCalls t) (ecIPResources t)
    \<and> (\<forall>r \<in> set (ecIPResources t). IPMin r \<noteq> [] \<and> IPMax r \<noteq> [] \<and> ResProtocol r \<in> known_protocols)
    \<and> (\<not> useDomain \<longrightarrow> ecDomainResources t = [])
    \<and> (err = None \<longrightarrow> ecDNSServer t \<noteq> [] \<or> tcpTunnelOnly t)"
proof -
  obtain b root' element where e:
    "policy_ok useDomain b"
    "(case element of
        None \<Rightarrow> Some (Some ''no Rcs element found'', b)
      | Some el \<Rightarrow> do {
          t \<leftarrow> add_rcs env useDomain (xSelectAll env el ''Rc'') b;
          dns \<leftarrow> xSelect env root' ''Dns'';
          Some (parse_dns_element env dns t)
        }) = Some (err, t)"
    by (rule parseResources_start [OF assms(1,2)])
  have "policy_ok useDomain t \<and> (err = None \<longrightarrow> ecDNSServer t \<noteq> [] \<or> tcpTunnelOnly t)"
  proof (cases element)
    case None
    then show ?thesis using e by auto
  next
    case (Some el)
    then obtain t1 dns where t1: "add_rcs env useDomain (xSelectAll env el ''Rc'') b = Some t1"
      "parse_dns_element env dns t1 = (err, t)"
      using e(2) by (auto simp: bind_eq_Some_conv)
    have "policy_ok useDomain t1" using add_rcs_ok [OF e(1) assms(3) t1(1)] .
    then show ?thesis using parse_dns_element_frame [OF t1(2)] by (simp add: policy_ok_def)
  qed
  then show ?thesis by (simp add: policy_ok_def)
qed

text \<open>A document with one \<open>Rc\<close>, whose elements all have these attributes.\<close>

definition sample_attrs :: "(string \<times> string) list" where
  "sample_attrs =
     [(''type'', ''1''), (''proto'', ''0''), (''host'', ''10.0.0.1~10.0.0.9;http://b.cn/x;10.0.0.3:8080''),
      (''port'', ''80~90;443~443;1~9''), (''data'', ''0:b.cn:10.0.0.7''), (''dnsserver'', ''10.0.0.2;10.0.0.4'')]"

definition sample_xml :: "string xml_env" where
  "sample_xml =
     \<lparr>xRead = Inr, xSelect = (\<lambda>_ name. Some (Some name)), xSelectAll = (\<lambda>_ name. [name]),
      xAttr = (\<lambda>_. map_of sample_attrs),
      nParseIP = (\<lambda>s. if parse_ip s = [] then None else Some (parse_ip s)), nSetError = (\<lambda>_. None)\<rparr>"

definition sample_policy :: ec_policy where
  "sample_policy =
     \<lparr>tcpTunnelOnly = False, ecIPResources = [], ecDomainResources = [], ecDNSResource = [], ecSetCalls = [],
      ecDNSServer = [], ecDNSServers = []\<rparr>"

definition sample_parsed :: ec_policy where
  "sample_parsed = snd (the (parseResources sample_xml True [] sample_policy))"

lemma sample_parsed_run: "parseResources sample_xml True [] sample_policy = Some (None, sample_parsed)"
  unfolding sample_parsed_def by code_simp

lemma sample_xml_agrees: "parsers_agree sample_xml"
  by (simp add: parsers_agree_def sample_xml_def ip_equal_def)

lemma sample_xml_reads: "xRead sample_xml [] = Inr []"
  by (simp add: sample_xml_def)

lemma sample_parsed_rules: "map IPMin (ecIPResources sample_parsed) = [parse_ip ''10.0.0.1'', parse_ip ''10.0.0.3'']"
  unfolding sample_parsed_def by code_simp

lemma sample_parsed_vip: "tcpTunnelOnly sample_parsed = False"
  unfolding sample_parsed_def by code_simp

theorem policy_set_agrees_with_rules_witness:
  "list_all2 adds_rule (ecSetCalls sample_parsed) (ecIPResources sample_parsed)
    \<and> map IPMin (ecIPResources sample_parsed) = [parse_ip ''10.0.0.1'', parse_ip ''10.0.0.3''] \<and> ecDNSServer sample_parsed \<noteq> []"
  using policy_set_agrees_with_rules [OF sample_parsed_run sample_xml_reads sample_xml_agrees] sample_parsed_rules
    sample_parsed_vip
  by simp

text \<open>A line whose probes average less than a millisecond counts as not chosen yet, so a slower one
  replaces it.\<close>

lemma fast_line_is_replaced:
  "findBestLine (\<lambda>h p. (new_result None)\<lparr>successCounter := 3, totalDuration := (if h = ''a'' then 1500000 else 90000000)\<rparr>)
     [''a:443'', ''b:443''] = Some (Inr ''b:443'')"
proof -
  have a: "probe_targets [''a:443'', ''b:443''] = Some [(''a'', 443), (''b'', 443)]" by code_simp
  show ?thesis
    unfolding findBestLine_def a
    by (simp add: pingNum_def average_ms_def ping_avg_def new_result_def)
qed

text \<open>An IPv6 literal is cut at its colons, and its rule is lost.\<close>

lemma ipv6_host_is_lost: "rc_host ''2001:db8::1'' = ([], [])"
  by code_simp

end
