(* ===== verification/AtrustMitm.thy ===== *)
theory AtrustMitm
  imports "HOL-Library.Multiset" "HOL-Library.Char_ord" "HOL-Library.List_Lexorder" TcpTunnel
begin

text \<open>
  The aTrust client's check for a man in the middle (\<open>client/atrust/auth/anti_mitm.go\<close>): the encrypted
  challenge, the signature over the scalar members of the server's data, the certificate digests, and the
  nonce generator. Hash, cipher, HMAC, base64 and the JSON decoder are parameters. The main results are
  that the generator always returns, and that the signed text is independent of Go's map iteration order.
  \<open>strings.ToUpper\<close> is the ASCII one; its result is only compared with upper-case hexadecimal digits.
\<close>

section \<open>Cryptographic functions\<close>

text \<open>SHA-256, AES in CBC mode (a cipher for a key can be refused), HMAC-SHA-256, base64, and the JSON
  decoder with numbers kept as text.\<close>

datatype json =
    JNull
  | JBool bool
  | JNumber string
  | JString string
  | JArray "json list"
  | JObject "(string \<times> json) list"

record mitm_crypto =
  sha256 :: "bytes \<Rightarrow> bytes"
  aesRefuses :: "bytes \<Rightarrow> string option"
  aesCBC :: "bytes \<Rightarrow> bytes \<Rightarrow> bytes \<Rightarrow> bytes"
  hmac256 :: "bytes \<Rightarrow> bytes \<Rightarrow> bytes"
  base64 :: "bytes \<Rightarrow> string"
  decodeJSON :: "string \<Rightarrow> string + json"

definition sangforCertificateDigestSuffix :: string where
  "sangforCertificateDigestSuffix = ''@~*&!()-''"

definition sangforChallengeSalt :: string where
  "sangforChallengeSalt = ''OrHWuJz7gku5awmVb5w1sKTmfeCWHmzokBxmn0sn0faIcv1G10PdrbbRGKBrrZ3m''"

definition sangforSignatureSalt :: string where
  "sangforSignatureSalt = ''3uW5IEy8KwDaOMK8uw1TmNr50U3aK1Qdu8b6vopXxGstzan3AJXxVNR6piuKi5Nq''"

record antiMITMAttackData =
  mitmEnable :: int
  devicePubKeyMod :: string
  devicePubKeyExp :: string
  rsaCert :: string
  sm2EncCert :: string
  challenge :: string
  encryptedChallenge :: string
  mitmTicket :: string
  antiMITMRequest :: bool
  mitmSignature :: string
  rawData :: string

datatype mitm_error =
    MitmIncomplete
  | MitmCipher string
  | MitmChallengeMismatch
  | MitmSignatureIncomplete
  | MitmSignatureFailed string
  | MitmSignatureMismatch
  | MitmNoPeerCertificate
  | MitmNoCertificateListed
  | MitmCertificateMismatch string
  | MitmNotTLS
  | MitmRequestFailed string
  | MitmNonceMismatch
  | MitmSessionNotFound
  | MitmAttackDetected
  | MitmResponseSignature

definition hex_upper :: "bytes \<Rightarrow> string" where
  "hex_upper b = to_upper (hex_encode b)"

section \<open>The server's certificate, challenge and signature\<close>

definition sangforEncodedCertificateDigest :: "mitm_crypto \<Rightarrow> string \<Rightarrow> bytes" where
  "sangforEncodedCertificateDigest env encoded =
     sha256 env (ascii_bytes (encoded @ sangforCertificateDigestSuffix))"

definition sangforCertificateDigest :: "mitm_crypto \<Rightarrow> bytes \<Rightarrow> bytes" where
  "sangforCertificateDigest env rawDER = sangforEncodedCertificateDigest env (base64 env rawDER)"

definition pkcs7Pad :: "bytes \<Rightarrow> nat \<Rightarrow> bytes" where
  "pkcs7Pad plainText blockSize =
     (let paddingLength = blockSize - length plainText mod blockSize
      in plainText @ replicate paddingLength (of_nat paddingLength))"

definition verifySangforChallenge :: "mitm_crypto \<Rightarrow> antiMITMAttackData \<Rightarrow> mitm_error option" where
  "verifySangforChallenge env d =
     (if devicePubKeyMod d = [] \<or> devicePubKeyExp d = [] \<or> challenge d = [] \<or> encryptedChallenge d = []
      then Some MitmIncomplete
      else
        let material = sha256 env (ascii_bytes (devicePubKeyMod d @ devicePubKeyExp d @ sangforChallengeSalt));
            key = take 16 material; iv = drop 16 material
        in case aesRefuses env key of
             Some e \<Rightarrow> Some (MitmCipher e)
           | None \<Rightarrow>
               (let cipherText = aesCBC env key iv (pkcs7Pad (ascii_bytes (challenge d)) 16)
                in if hex_upper cipherText \<noteq> encryptedChallenge d then Some MitmChallengeMismatch else None))"

definition sangforSignatureKey :: "mitm_crypto \<Rightarrow> antiMITMAttackData \<Rightarrow> bytes" where
  "sangforSignatureKey env d =
     (let first = sha256 env (ascii_bytes (devicePubKeyMod d @ devicePubKeyExp d @ sangforSignatureSalt));
          second = sha256 env (ascii_bytes (hex_upper first @ challenge d))
      in map2 (\<lambda>a b. a XOR b) first second)"

definition sangforHMAC :: "mitm_crypto \<Rightarrow> bytes \<Rightarrow> string \<Rightarrow> string" where
  "sangforHMAC env key message = hex_upper (hmac256 env key (ascii_bytes message))"

text \<open>\<open>collectSangforSignatureFields\<close>: the scalar members of all objects of a document, except those
  under \<open>mitmSig\<close>. The members of an object come in the iteration order of a Go map.\<close>

fun sangforScalarString :: "json \<Rightarrow> string" where
  "sangforScalarString (JString s) = s"
| "sangforScalarString (JBool b) = (if b then ''true'' else ''false'')"
| "sangforScalarString (JNumber s) = s"
| "sangforScalarString JNull = ''null''"
| "sangforScalarString _ = []"

fun is_scalar :: "json \<Rightarrow> bool" where
  "is_scalar (JObject _) = False"
| "is_scalar (JArray _) = False"
| "is_scalar _ = True"

fun collectSangforSignatureFields :: "json \<Rightarrow> (string, string) gomap \<Rightarrow> (string, string) gomap"
  and collect_members :: "(string \<times> json) list \<Rightarrow> (string, string) gomap \<Rightarrow> (string, string) gomap"
  and collect_elements :: "json list \<Rightarrow> (string, string) gomap \<Rightarrow> (string, string) gomap" where
  "collectSangforSignatureFields (JObject ms) acc = collect_members ms acc"
| "collectSangforSignatureFields (JArray vs) acc = collect_elements vs acc"
| "collectSangforSignatureFields _ acc = acc"
| "collect_members [] acc = acc"
| "collect_members ((key, child) # ms) acc =
     collect_members ms
       (if key = ''mitmSig'' then acc
        else if is_scalar child then mset key (sangforScalarString child) acc
        else collectSangforSignatureFields child acc)"
| "collect_elements [] acc = acc"
| "collect_elements (v # vs) acc = collect_elements vs (collectSangforSignatureFields v acc)"

definition origin_of :: "json \<Rightarrow> string" where
  "origin_of v =
     (let acc = collectSangforSignatureFields v [];
          keys = sort (map fst acc)
      in join_with ''&'' (map (\<lambda>key. key @ '':'' @ the (mget acc key)) keys))"

definition sangforOriginSignatureData :: "mitm_crypto \<Rightarrow> string \<Rightarrow> string + string" where
  "sangforOriginSignatureData env text =
     (case decodeJSON env text of Inl e \<Rightarrow> Inl e | Inr v \<Rightarrow> Inr (origin_of v))"

definition sangforMITMSignature :: "mitm_crypto \<Rightarrow> antiMITMAttackData \<Rightarrow> string + string" where
  "sangforMITMSignature env d =
     (let key = sangforSignatureKey env d
      in case sangforOriginSignatureData env (rawData d) of
           Inl e \<Rightarrow> Inl e
         | Inr origin \<Rightarrow> Inr (sangforHMAC env key origin))"

definition verifySangforMITMSignature :: "mitm_crypto \<Rightarrow> antiMITMAttackData \<Rightarrow> mitm_error option" where
  "verifySangforMITMSignature env d =
     (if mitmSignature d = [] \<or> rawData d = [] then Some MitmSignatureIncomplete
      else (case sangforMITMSignature env d of
              Inl e \<Rightarrow> Some (MitmSignatureFailed e)
            | Inr actual \<Rightarrow>
                if actual \<noteq> to_upper (mitmSignature d) then Some MitmSignatureMismatch else None))"

definition antiMITMCertificateDigests :: "mitm_crypto \<Rightarrow> antiMITMAttackData \<Rightarrow> bytes list" where
  "antiMITMCertificateDigests env d =
     map (sangforEncodedCertificateDigest env) (filter (\<lambda>c. c \<noteq> []) [rsaCert d, sm2EncCert d])"

definition verifySangforCertificateIdentity ::
  "mitm_crypto \<Rightarrow> bytes list \<Rightarrow> antiMITMAttackData \<Rightarrow> mitm_error option" where
  "verifySangforCertificateIdentity env peers d =
     (if mitmEnable d \<noteq> 1 then None
      else if peers = [] then Some MitmNoPeerCertificate
      else
        let expected = antiMITMCertificateDigests env d
        in if expected = [] then Some MitmNoCertificateListed
           else if \<exists>c \<in> set peers. sangforCertificateDigest env c \<in> set expected then None
           else Some (MitmCertificateMismatch (hex_upper (sangforCertificateDigest env (hd peers)))))"


section \<open>The nonce generator\<close>

type_synonym u64 = "64 word"

definition nonce_modulus :: u64 where "nonce_modulus = 2147483647"

definition rejectionBoundary :: u64 where "rejectionBoundary = 0x7FFFFF00"

text \<open>The loop of \<open>sangforNonceBytes\<close>: a value above the boundary is skipped. \<open>None\<close> is a loop that does
  not end.\<close>

definition next_state :: "u64 \<Rightarrow> u64" where
  "next_state s = 48271 * s mod nonce_modulus"

partial_function (option) sangforNonceBytes :: "nat \<Rightarrow> u64 \<Rightarrow> bytes \<Rightarrow> (bytes \<times> u64) option" where
  "sangforNonceBytes wanted state nonce =
     (if length nonce < wanted then
        let state = next_state state; v = state - 1
        in if rejectionBoundary \<le> v then sangforNonceBytes wanted state nonce
           else sangforNonceBytes wanted state (nonce @ [ucast (v AND 0xFF)])
      else Some (nonce, state))"

text \<open>\<open>sangforNonce\<close> on the generator's state, with the clock in seconds.\<close>

definition seed :: "int \<Rightarrow> u64 \<Rightarrow> u64" where
  "seed now state =
     (if state = 0 then let s = word_of_int now mod nonce_modulus in if s = 0 then 1 else s else state)"

definition sangforNonce :: "int \<Rightarrow> u64 \<Rightarrow> (string \<times> u64) option" where
  "sangforNonce now state =
     (case sangforNonceBytes 32 (seed now state) [] of
        None \<Rightarrow> None
      | Some (nonce, state) \<Rightarrow> Some (hex_upper nonce, state))"


lemma unat_next_state:
  assumes "unat s < 2147483647"
  shows "unat (next_state s) = 48271 * unat s mod 2147483647"
proof -
  have "48271 * unat s < 2 ^ 64" using assms by simp
  then have "unat (48271 * s) = 48271 * unat s"
    by (simp add: unat_word_ariths)
  then show ?thesis by (simp add: next_state_def nonce_modulus_def unat_mod)
qed

lemma lehmer_nonzero:
  assumes "0 < (n :: nat)" "n < 2147483647"
  shows "48271 * n mod 2147483647 \<noteq> 0"
proof
  assume "48271 * n mod 2147483647 = 0"
  then have "(2147483647 :: nat) dvd 48271 * n" by (simp add: mod_eq_0_iff_dvd)
  moreover have "coprime (2147483647 :: nat) 48271"
    by (simp add: coprime_iff_gcd_eq_1 gcd_non_0_nat)
  ultimately have "(2147483647 :: nat) dvd n" by (simp add: coprime_dvd_mult_right_iff)
  then show False using assms by (auto dest: dvd_imp_le)
qed

definition state_ok :: "u64 \<Rightarrow> bool" where
  "state_ok s \<longleftrightarrow> 0 < unat s \<and> unat s < 2147483647"

lemma next_state_ok: "state_ok s \<Longrightarrow> state_ok (next_state s)"
  using lehmer_nonzero [of "unat s"] by (auto simp: state_ok_def unat_next_state)

lemma seed_ok: "state = 0 \<or> state_ok state \<Longrightarrow> state_ok (seed now state)"
proof -
  have "unat ((word_of_int now :: u64) mod nonce_modulus) < 2147483647"
    by (simp add: nonce_modulus_def unat_mod)
  moreover have "0 < unat s" if "s \<noteq> 0" for s :: u64 using that by (simp add: unat_gt_0)
  ultimately show "state = 0 \<or> state_ok state \<Longrightarrow> state_ok (seed now state)"
    by (auto simp: seed_def state_ok_def Let_def)
qed

text \<open>Two values in a row are never both skipped.\<close>

lemma rejected_iff:
  assumes "state_ok s"
  shows "rejectionBoundary \<le> s - 1 \<longleftrightarrow> 0x7FFFFF00 < unat s"
proof -
  have "unat (s - 1) = unat s - 1" using assms by (simp add: state_ok_def unat_sub_if')
  then show ?thesis using assms
    by (auto simp: rejectionBoundary_def word_le_nat_alt state_ok_def)
qed

lemma rejected_then_accepted:
  assumes "state_ok s" "rejectionBoundary \<le> s - 1"
  shows "\<not> rejectionBoundary \<le> next_state s - 1"
proof -
  define k where "k = 2147483647 - unat s"
  have k: "unat s = 2147483647 - k" "0 < k" "k < 255"
    using assms rejected_iff [OF assms(1)] by (auto simp: k_def state_ok_def)
  have "48271 * unat s = 2147483647 * 48270 + (2147483647 - 48271 * k)"
    using k by (simp add: diff_mult_distrib2)
  then have "48271 * unat s mod 2147483647 = (2147483647 - 48271 * k) mod 2147483647"
    by (metis mod_mult_self4)
  also have "\<dots> = 2147483647 - 48271 * k" using k by (intro mod_less) simp
  finally have "unat (next_state s) = 2147483647 - 48271 * k"
    using assms(1) by (simp add: unat_next_state state_ok_def)
  then show ?thesis using rejected_iff [OF next_state_ok [OF assms(1)]] k by simp
qed

lemma nonce_step:
  assumes "state_ok s" "length nonce < wanted"
  obtains b s' where "state_ok s'"
    "sangforNonceBytes wanted s nonce = sangforNonceBytes wanted s' (nonce @ [b])"
proof (cases "rejectionBoundary \<le> next_state s - 1")
  case True
  let ?s = "next_state s" and ?t = "next_state (next_state s)"
  have ok: "state_ok ?s" "state_ok ?t" using assms(1) next_state_ok by blast+
  have t: "\<not> rejectionBoundary \<le> ?t - 1" using rejected_then_accepted [OF ok(1) True] .
  have "sangforNonceBytes wanted s nonce = sangforNonceBytes wanted ?s nonce"
    using True assms(2) by (subst sangforNonceBytes.simps) (simp add: Let_def)
  also have "\<dots> = sangforNonceBytes wanted ?t (nonce @ [ucast ((?t - 1) AND 0xFF)])"
    using t assms(2) by (subst sangforNonceBytes.simps) (simp add: Let_def)
  finally show thesis using ok(2) by (rule that [rotated])
next
  case False
  let ?s = "next_state s"
  have "sangforNonceBytes wanted s nonce = sangforNonceBytes wanted ?s (nonce @ [ucast ((?s - 1) AND 0xFF)])"
    using False assms(2) by (subst sangforNonceBytes.simps) (simp add: Let_def)
  with next_state_ok [OF assms(1)] show thesis by (rule that)
qed

lemma nonce_bytes_returns:
  assumes "state_ok s" "length nonce \<le> wanted"
  shows "\<exists>out s'. sangforNonceBytes wanted s nonce = Some (out, s') \<and> length out = wanted \<and> state_ok s'"
  using assms
proof (induction "wanted - length nonce" arbitrary: s nonce)
  case 0
  then show ?case by (subst sangforNonceBytes.simps) simp
next
  case (Suc n)
  then have "length nonce < wanted" by simp
  then obtain b s' where s': "state_ok s'"
    "sangforNonceBytes wanted s nonce = sangforNonceBytes wanted s' (nonce @ [b])"
    using nonce_step [OF Suc.prems(1)] by blast
  show ?case unfolding s'(2) using Suc.hyps(1) [OF _ s'(1), of "nonce @ [b]"] Suc.hyps(2) by simp
qed

text \<open>A generator whose state is zero would never return.\<close>

lemma length_hex_upper: "length (hex_upper b) = 2 * length b"
  by (induction b) (simp_all add: hex_upper_def hex_encode_def to_upper_def hex2_def)

lemma zero_state_diverges:
  assumes "length nonce < wanted"
  shows "sangforNonceBytes wanted 0 nonce = None"
proof -
  have z: "rejectionBoundary \<le> - 1" "next_state 0 = 0"
    by code_simp+
  have "s = 0 \<longrightarrow> \<not> length nonce < wanted" if "sangforNonceBytes wanted s nonce = Some r" for wanted s nonce r
    using that
  proof (rule sangforNonceBytes.raw_induct [rotated])
    fix loop :: "nat \<Rightarrow> u64 \<Rightarrow> bytes \<Rightarrow> (bytes \<times> u64) option" and wanted s nonce r
    assume IH: "\<And>wanted s nonce r. loop wanted s nonce = Some r \<Longrightarrow> s = 0 \<longrightarrow> \<not> length nonce < wanted"
      and run: "(if length nonce < wanted then
          let state = next_state s; v = state - 1
          in if rejectionBoundary \<le> v then loop wanted state nonce
             else loop wanted state (nonce @ [ucast (v AND 0xFF)])
        else Some (nonce, s)) = Some r"
    show "s = 0 \<longrightarrow> \<not> length nonce < wanted"
      using run z IH [of wanted 0 nonce r] by (auto simp: Let_def split: if_splits)
  qed
  then show ?thesis using assms by (cases "sangforNonceBytes wanted 0 nonce") blast+
qed

text \<open>
  C33: the nonce generator always returns. From any clock value, whether the generator is seeded or fresh, it
  produces exactly 32 bytes (64 digits), and its state stays between 1 and the modulus minus one, so the
  next call returns as well. Only a zero state would loop for ever, and the seeding excludes it.
\<close>

theorem nonce_generator_returns:
  assumes "state = 0 \<or> state_ok state"
  shows "\<exists>nonce state'. sangforNonce now state = Some (nonce, state') \<and> length nonce = 64 \<and> state_ok state'"
proof -
  obtain out s' where out: "sangforNonceBytes 32 (seed now state) [] = Some (out, s')" "length out = 32" "state_ok s'"
    using nonce_bytes_returns [OF seed_ok [OF assms, of now], of "[]" 32] by auto
  have "length (hex_upper out) = 64" using out(2) by (simp add: length_hex_upper)
  then show ?thesis using out by (simp add: sangforNonce_def)
qed

theorem nonce_generator_returns_witness:
  "\<exists>nonce state'. sangforNonce 2147483647 0 = Some (nonce, state') \<and> length nonce = 64"
  using nonce_generator_returns [of 0 2147483647] by blast


section \<open>The signed text\<close>

text \<open>The scalar members a document signs, in the order they are met.\<close>

fun scalars :: "json \<Rightarrow> (string \<times> string) list"
  and member_scalars :: "(string \<times> json) list \<Rightarrow> (string \<times> string) list"
  and element_scalars :: "json list \<Rightarrow> (string \<times> string) list" where
  "scalars (JObject ms) = member_scalars ms"
| "scalars (JArray vs) = element_scalars vs"
| "scalars _ = []"
| "member_scalars [] = []"
| "member_scalars ((key, child) # ms) =
     (if key = ''mitmSig'' then [] else if is_scalar child then [(key, sangforScalarString child)]
      else scalars child) @ member_scalars ms"
| "element_scalars [] = []"
| "element_scalars (v # vs) = scalars v @ element_scalars vs"

text \<open>The same document with object members in another order, at any depth.\<close>

inductive reorders :: "json \<Rightarrow> json \<Rightarrow> bool" where
  members: "reorders (JObject (xs @ a # b # ys)) (JObject (xs @ b # a # ys))"
| inside_object: "reorders v w \<Longrightarrow> reorders (JObject (xs @ (k, v) # ys)) (JObject (xs @ (k, w) # ys))"
| inside_array: "reorders v w \<Longrightarrow> reorders (JArray (xs @ v # ys)) (JArray (xs @ w # ys))"

abbreviation same_document :: "json \<Rightarrow> json \<Rightarrow> bool" where
  "same_document \<equiv> reorders\<^sup>*\<^sup>*"

lemma collect_fold:
  "collectSangforSignatureFields v acc = fold (\<lambda>(k, x). mset k x) (scalars v) acc"
  "collect_members ms acc = fold (\<lambda>(k, x). mset k x) (member_scalars ms) acc"
  "collect_elements vs acc = fold (\<lambda>(k, x). mset k x) (element_scalars vs) acc"
  by (induction v acc and ms acc and vs acc rule: collectSangforSignatureFields_collect_members_collect_elements.induct)
    simp_all

lemma mset_absent: "k \<notin> set (map fst m) \<Longrightarrow> mset k x m = m @ [(k, x)]"
  by (induction m) (auto simp: mset_def)

lemma fold_mset_distinct:
  "distinct (map fst (m @ xs)) \<Longrightarrow> fold (\<lambda>(k, x). mset k x) xs m = m @ xs"
proof (induction xs arbitrary: m)
  case (Cons p xs)
  obtain k x where p: "p = (k, x)" by (cases p)
  have "mset k x m = m @ [(k, x)]" using Cons.prems by (simp add: p mset_absent)
  then show ?case using Cons.IH [of "m @ [(k, x)]"] Cons.prems by (simp add: p)
qed simp

lemma scalars_append [simp]:
  "member_scalars (xs @ ys) = member_scalars xs @ member_scalars ys"
  by (induction xs) auto

lemma element_scalars_append [simp]:
  "element_scalars (us @ vs) = element_scalars us @ element_scalars vs"
  by (induction us) auto

lemma reorders_not_scalar: "reorders v w \<Longrightarrow> \<not> is_scalar v \<and> \<not> is_scalar w"
  by (induction rule: reorders.induct) simp_all

lemma reorders_scalars: "reorders v w \<Longrightarrow> Multiset.mset (scalars w) = Multiset.mset (scalars v)"
  by (induction rule: reorders.induct) (auto dest: reorders_not_scalar)

lemma same_document_scalars: "same_document v w \<Longrightarrow> Multiset.mset (scalars w) = Multiset.mset (scalars v)"
  by (induction rule: rtranclp_induct) (simp_all add: reorders_scalars)

lemma origin_sorted:
  assumes "distinct (map fst (scalars v))"
  shows "origin_of v = join_with ''&'' (map (\<lambda>(k, x). k @ '':'' @ x) (sort_key fst (scalars v)))"
proof -
  let ?f = "scalars v"
  have acc: "collectSangforSignatureFields v [] = ?f"
    using fold_mset_distinct [of "[]" ?f] assms by (simp add: collect_fold)
  have keys: "sort (map fst ?f) = map fst (sort_key fst ?f)"
    by (rule properties_for_sort) simp_all
  have "mget ?f k = Some x" if "(k, x) \<in> set ?f" for k x
    using that map_ok_in_iff [of ?f k x] assms by (simp add: map_ok_def)
  then have "map (\<lambda>key. key @ '':'' @ the (mget ?f key)) (map fst (sort_key fst ?f))
      = map (\<lambda>(k, x). k @ '':'' @ x) (sort_key fst ?f)"
    unfolding map_map by (intro map_cong) auto
  then show ?thesis unfolding origin_of_def acc Let_def keys by (rule arg_cong)
qed

text \<open>
  C34: the signature of the anti-MITM data does not depend on the order in which object members are visited,
  at any depth of the document, as long as no member name occurs twice. It is the HMAC, under the key
  derived from the device's public key and the challenge, of the scalar members sorted by name and joined
  as name:value pairs, with everything under mitmSig left out.
\<close>

theorem signature_ignores_member_order:
  assumes "decodeJSON env text = Inr v" "decodeJSON env text' = Inr w" "same_document v w"
    and "distinct (map fst (scalars v))"
  shows "sangforMITMSignature env (d\<lparr>rawData := text\<rparr>) = sangforMITMSignature env (d\<lparr>rawData := text'\<rparr>)
    \<and> sangforMITMSignature env (d\<lparr>rawData := text\<rparr>) =
        Inr (sangforHMAC env (sangforSignatureKey env d)
          (join_with ''&'' (map (\<lambda>(k, x). k @ '':'' @ x) (sort_key fst (scalars v)))))"
proof -
  have key: "sangforSignatureKey env (d\<lparr>rawData := r\<rparr>) = sangforSignatureKey env d" for r
    by (simp add: sangforSignatureKey_def)
  have m: "Multiset.mset (scalars w) = Multiset.mset (scalars v)" using same_document_scalars [OF assms(3)] .
  then have dw: "distinct (map fst (scalars w))"
    using assms(4) by (metis mset_eq_imp_distinct_iff mset_map)
  have "sort_key fst (scalars w) = sort_key fst (scalars v)"
    by (rule sort_key_inj_key_eq) (use m dw in \<open>simp_all add: distinct_map\<close>)
  then show ?thesis
    using assms(1,2) origin_sorted [OF assms(4)] origin_sorted [OF dw]
    by (simp add: sangforMITMSignature_def sangforOriginSignatureData_def key Let_def)
qed

text \<open>A member name at two depths makes the signed text depend on Go's iteration order.\<close>

lemma repeated_name_breaks_signature:
  "same_document (JObject [(''a'', JString ''1''), (''x'', JObject [(''a'', JString ''2'')])])
     (JObject [(''x'', JObject [(''a'', JString ''2'')]), (''a'', JString ''1'')])"
  "origin_of (JObject [(''a'', JString ''1''), (''x'', JObject [(''a'', JString ''2'')])]) = ''a:2''"
  "origin_of (JObject [(''x'', JObject [(''a'', JString ''2'')]), (''a'', JString ''1'')]) = ''a:1''"
proof -
  show "same_document (JObject [(''a'', JString ''1''), (''x'', JObject [(''a'', JString ''2'')])])
      (JObject [(''x'', JObject [(''a'', JString ''2'')]), (''a'', JString ''1'')])"
    using members [of "[]"] by (intro r_into_rtranclp) simp
qed (simp_all add: origin_of_def mset_def mget_def)

definition sample_members :: "(string \<times> json) list" where
  "sample_members =
     [(''ticket'', JString ''t''), (''enable'', JNumber ''1''), (''mitmSig'', JString ''00'')]"

definition sample_data :: antiMITMAttackData where
  "sample_data =
     \<lparr>mitmEnable = 1, devicePubKeyMod = ''ab'', devicePubKeyExp = ''3'', rsaCert = [], sm2EncCert = [],
      challenge = ''c'', encryptedChallenge = ''e'', mitmTicket = ''t'', antiMITMRequest = False,
      mitmSignature = ''00'', rawData = []\<rparr>"

definition sample_crypto :: mitm_crypto where
  "sample_crypto =
     \<lparr>sha256 = (\<lambda>b. take 32 (b @ replicate 32 0)), aesRefuses = (\<lambda>_. None), aesCBC = (\<lambda>_ _ b. b),
      hmac256 = (\<lambda>k m. m), base64 = hex_encode,
      decodeJSON = (\<lambda>t. Inr (JObject (if t = ''ab'' then sample_members else rev sample_members)))\<rparr>"

lemma sample_documents:
  "decodeJSON sample_crypto ''ab'' = Inr (JObject sample_members)"
  "decodeJSON sample_crypto ''ba'' = Inr (JObject (rev sample_members))"
  by (simp_all add: sample_crypto_def)

lemma sample_reordered: "same_document (JObject sample_members) (JObject (rev sample_members))"
proof -
  let ?t = "(''ticket'', JString ''t'')" and ?e = "(''enable'', JNumber ''1'')" and ?s = "(''mitmSig'', JString ''00'')"
  have "reorders (JObject [?t, ?e, ?s]) (JObject [?e, ?t, ?s])" using members [of "[]" ?t ?e "[?s]"] by simp
  moreover have "reorders (JObject [?e, ?t, ?s]) (JObject [?e, ?s, ?t])" using members [of "[?e]" ?t ?s "[]"] by simp
  moreover have "reorders (JObject [?e, ?s, ?t]) (JObject [?s, ?e, ?t])" using members [of "[]" ?e ?s "[?t]"] by simp
  ultimately show ?thesis by (simp add: sample_members_def)
qed

lemma sample_names_distinct: "distinct (map fst (scalars (JObject sample_members)))"
  by (simp add: sample_members_def)

theorem signature_ignores_member_order_witness:
  "sangforMITMSignature sample_crypto (sample_data\<lparr>rawData := ''ab''\<rparr>)
     = sangforMITMSignature sample_crypto (sample_data\<lparr>rawData := ''ba''\<rparr>)"
  using signature_ignores_member_order
    [OF sample_documents sample_reordered sample_names_distinct, of sample_data] by simp

text \<open>The padded challenge always fills whole cipher blocks, so the CBC encrypter never panics, and the
  padding can be taken off again.\<close>

lemma pkcs7Pad_blocks:
  assumes "0 < n"
  shows "n dvd length (pkcs7Pad b n)" "\<exists>k. 0 < k \<and> k \<le> n \<and> pkcs7Pad b n = b @ replicate k (of_nat k)"
proof -
  let ?k = "n - length b mod n"
  have k: "0 < ?k" "?k \<le> n" using assms by simp_all
  have "length (pkcs7Pad b n) = length b + ?k" by (simp add: pkcs7Pad_def Let_def)
  also have "\<dots> = n * (length b div n) + n"
    using assms mult_div_mod_eq [of n "length b"] mod_less_divisor [OF assms, of "length b"] by linarith
  finally show "n dvd length (pkcs7Pad b n)" by simp
  show "\<exists>k. 0 < k \<and> k \<le> n \<and> pkcs7Pad b n = b @ replicate k (of_nat k)"
    using k by (intro exI [of _ ?k]) (simp add: pkcs7Pad_def Let_def)
qed

end
