(* ===== verification/Action.thy ===== *)
theory Action
  imports Main
begin

text \<open>
  Go functions that change a state and may return an error, as actions: an action gives an error or a
  result, and the new state. Sequencing returns early on an error. An action over a state that logs the
  requests it sends has a cost, which a small calculus bounds. The clients' logins are actions.
\<close>

section \<open>Actions\<close>

type_synonym ('s, 'e, 'a) action = "'s \<Rightarrow> ('e + 'a) \<times> 's"

definition ret :: "'a \<Rightarrow> ('s, 'e, 'a) action" where
  "ret x s = (Inr x, s)"

definition fail :: "'e \<Rightarrow> ('s, 'e, 'a) action" where
  "fail e s = (Inl e, s)"

definition andThen :: "('s, 'e, 'a) action \<Rightarrow> ('a \<Rightarrow> ('s, 'e, 'b) action) \<Rightarrow> ('s, 'e, 'b) action" where
  "andThen m f s = (case m s of (Inl e, s') \<Rightarrow> (Inl e, s') | (Inr x, s') \<Rightarrow> f x s')"

definition ask :: "('s \<Rightarrow> 'a) \<Rightarrow> ('s, 'e, 'a) action" where
  "ask f s = (Inr (f s), s)"

definition modify :: "('s \<Rightarrow> 's) \<Rightarrow> ('s, 'e, unit) action" where
  "modify f s = (Inr (), f s)"

definition lifted :: "('d \<Rightarrow> 'e) \<Rightarrow> 'd + 'a \<Rightarrow> ('s, 'e, 'a) action" where
  "lifted err r = (case r of Inl e \<Rightarrow> fail (err e) | Inr x \<Rightarrow> ret x)"

definition ignoring_error :: "('s, 'e, unit) action \<Rightarrow> ('s, 'e, unit) action" where
  "ignoring_error m s = (Inr (), snd (m s))"

text \<open>Errors as values: what a caller that looks at the error sees.\<close>

definition attempt :: "('s, 'e, 'a) action \<Rightarrow> ('s, 'e, 'e + 'a) action" where
  "attempt m s = (case m s of (r, s') \<Rightarrow> (Inr r, s'))"

lemma andThen_Inr:
  "andThen m f s = (Inr y, s') \<longleftrightarrow> (\<exists>x s1. m s = (Inr x, s1) \<and> f x s1 = (Inr y, s'))"
  by (auto simp: andThen_def split: prod.splits sum.splits)

lemma andThen_Inl:
  "andThen m f s = (Inl e, s') \<longleftrightarrow> m s = (Inl e, s') \<or> (\<exists>x s1. m s = (Inr x, s1) \<and> f x s1 = (Inl e, s'))"
  by (auto simp: andThen_def split: prod.splits sum.splits)

lemma basic_Inr [simp]:
  "ret x s = (Inr y, s') \<longleftrightarrow> y = x \<and> s' = s"
  "fail e s = (Inr y, s') \<longleftrightarrow> False"
  "ask g s = (Inr z, s') \<longleftrightarrow> z = g s \<and> s' = s"
  "modify h s = (Inr u, s') \<longleftrightarrow> s' = h s"
  "lifted err r s = (Inr w, s') \<longleftrightarrow> r = Inr w \<and> s' = s"
  "attempt m s = (Inr v, s') \<longleftrightarrow> m s = (v, s')"
  by (auto simp: ret_def fail_def ask_def modify_def lifted_def attempt_def split: sum.splits prod.splits)

lemma basic_Inl [simp]:
  "ret x s \<noteq> (Inl e, s')"
  "fail d s = (Inl e, s') \<longleftrightarrow> e = d \<and> s' = s"
  "ask g s \<noteq> (Inl e, s')"
  "modify h s \<noteq> (Inl e, s')"
  "attempt m s \<noteq> (Inl e, s')"
  by (auto simp: ret_def fail_def ask_def modify_def attempt_def split: prod.splits)

lemma andThen_assoc: "andThen (andThen m f) g = andThen m (\<lambda>x. andThen (f x) g)"
  by (auto simp: andThen_def fun_eq_iff split: prod.splits sum.splits)


section \<open>The cost of an action\<close>

text \<open>The action appends at most \<open>n\<close> requests to the log.\<close>

definition costs :: "('s \<Rightarrow> 'q list) \<Rightarrow> ('s, 'e, 'a) action \<Rightarrow> nat \<Rightarrow> bool" where
  "costs log m n \<longleftrightarrow> (\<forall>s. \<exists>qs. log (snd (m s)) = log s @ qs \<and> length qs \<le> n)"

named_theorems costs_rules \<open>rules that bound the requests of an action\<close>

lemma costs_weaken: "costs log m k \<Longrightarrow> k \<le> n \<Longrightarrow> costs log m n"
  by (fastforce simp: costs_def)

lemma costs_basic [costs_rules]:
  "costs log (ret x) 0" "costs log (fail e) 0" "costs log (ask g) 0" "costs log (lifted err r) 0"
  "(\<And>s. log (h s) = log s) \<Longrightarrow> costs log (modify h) 0"
  by (auto simp: costs_def ret_def fail_def ask_def modify_def lifted_def split: sum.split)

lemma costs_andThen [costs_rules]:
  assumes "costs log m a" "\<And>x. costs log (f x) b"
  shows "costs log (andThen m f) (a + b)"
  unfolding costs_def
proof
  fix s
  obtain qs where qs: "log (snd (m s)) = log s @ qs" "length qs \<le> a" using assms(1) by (auto simp: costs_def)
  obtain r s1 where m: "m s = (r, s1)" by (cases "m s")
  show "\<exists>qs. log (snd (andThen m f s)) = log s @ qs \<and> length qs \<le> a + b"
  proof (cases r)
    case (Inl e)
    then show ?thesis using qs m by (auto simp: andThen_def)
  next
    case (Inr x)
    obtain ps where "log (snd (f x s1)) = log s1 @ ps" "length ps \<le> b" using assms(2) by (auto simp: costs_def)
    then show ?thesis using qs m Inr by (auto simp: andThen_def intro!: exI [of _ "qs @ ps"])
  qed
qed

lemma costs_cases [costs_rules]:
  "costs log x a \<Longrightarrow> costs log y b \<Longrightarrow> costs log (if c then x else y) (max a b)"
  "costs log x a \<Longrightarrow> (\<And>z. costs log (g z) b) \<Longrightarrow> costs log (case o1 of None \<Rightarrow> x | Some z \<Rightarrow> g z) (max a b)"
  "(\<And>u v. costs log (f u v) a) \<Longrightarrow> costs log (case p of (u, v) \<Rightarrow> f u v) a"
  by (auto simp: costs_def split: option.split prod.split) (metis le_max_iff_disj)+

lemma costs_sum:
  "(\<And>e. costs log (f e) a) \<Longrightarrow> (\<And>x. costs log (g x) b) \<Longrightarrow>
   costs log (case r of Inl e \<Rightarrow> f e | Inr x \<Rightarrow> g x) (max a b)"
  by (auto simp: costs_def split: sum.split) (metis le_max_iff_disj)+

lemma costs_ignoring [costs_rules]:
  "costs log m n \<Longrightarrow> costs log (ignoring_error m) n" "costs log m' n \<Longrightarrow> costs log (attempt m') n"
  by (simp_all add: costs_def ignoring_error_def attempt_def case_prod_beta)

text \<open>What a client's way to send a request has to do: log it, whether or not a reply comes.\<close>

locale request_log =
  fixes log :: "'s \<Rightarrow> 'q list"
    and send :: "'env \<Rightarrow> ('s \<Rightarrow> 'q) \<Rightarrow> ('s, 'e, 'r) action"
  assumes send_logs: "log (snd (send env q s)) = log s @ [q s]"
begin

lemma costs_send: "costs log (send env q) 1"
  by (simp add: costs_def send_logs)

lemma sent_request_is_logged: "andThen (send env q) f s = (r, s') \<Longrightarrow>
   (\<And>x. \<exists>n. costs log (f x) n) \<Longrightarrow> \<exists>h. log s' = log s @ q s # h"
proof -
  assume run: "andThen (send env q) f s = (r, s')" and f: "\<And>x. \<exists>n. costs log (f x) n"
  obtain x s1 where x: "send env q s = (x, s1)" by (cases "send env q s")
  then have s1: "log s1 = log s @ [q s]" using send_logs [of env q s] by simp
  show ?thesis
  proof (cases x)
    case (Inl e)
    then show ?thesis using run x s1 by (auto simp: andThen_def)
  next
    case (Inr y)
    then have "f y s1 = (r, s')" using run x by (simp add: andThen_def)
    then show ?thesis using f [of y] s1 by (metis append.assoc append_Cons append_Nil costs_def snd_conv)
  qed
qed

end

end
