(* ===== verification/AtrustAuth.thy ===== *)
theory AtrustAuth
  imports AtrustMitm Action
begin

text \<open>
  The aTrust login session (\<open>client/atrust/auth\<close>): the requests of the control plane with their
  parameters, headers and bodies, the authentication steps and the chain that runs them, the login
  methods with their captcha loop, session restore and refresh, and device trust (\<open>SetTrusted\<close> of
  \<open>client/atrust/client.go\<close>). A session keeps the list of the requests it sent. The HTTP client, the cookie
  jar, the JSON and URL libraries, RSA, TOTP and the user are functions of that list. A Go function
  returning an error is an action: it gives an error or a result and the new session.
\<close>

section \<open>Requests, replies and the session\<close>

text \<open>A request as the code builds it: its URL parameters are those of \<open>url.Values\<close> (one value each), its
  body is a JSON value still to be marshalled, a form, or plain text.\<close>

datatype auth_body = NoBody | JsonBody json | FormBody "(string, string) gomap" | TextBody string

record auth_request =
  aqMethod :: string
  aqURL :: string
  aqParams :: "(string, string) gomap"
  aqHeaders :: "(string \<times> string) list"
  aqBody :: auth_body

record auth_reply =
  rpStatus :: int
  rpBody :: string
  rpReadError :: "string option"
  rpHeaders :: "(string, string) gomap"
  rpTLS :: "bytes list option"

datatype auth_error =
    AuthHTTP string
  | AuthRead string
  | AuthJSON string
  | AuthStatus int
  | AuthCode string int string
  | AuthFailed string
  | AuthContext string
  | ErrSessionInvalid
  | AuthMitm mitm_error
  | AuthDiverges

text \<open>The structs the replies are unmarshalled into.\<close>

record authServiceInfo =
  siAuthID :: string
  siAuthType :: string
  siSubType :: string

record authStepData =
  sdNextService :: string
  sdNextServiceList :: "authServiceInfo list"

datatype smsMode = smsModeUnknown | smsWithoutAuthID | smsWithAuthID

record authStep =
  stService :: string
  stAuthID :: string
  stSMSMode :: smsMode

record tokenResponse =
  trCode :: int
  trMessage :: string
  trData :: authStepData

record AuthInfo =
  aiLoginDomain :: string
  aiAuthType :: string
  aiAuthName :: string
  aiLoginURL :: string

record config_reply =
  cfCode :: "int option"
  cfAuthServers :: "AuthInfo list"
  cfIsLogin :: "int option"
  cfCSRF :: string
  cfSecurityCSRF :: string
  cfPubKey :: string
  cfPubKeyExp :: string
  cfAntiReplayRand :: string
  cfAntiMITM :: antiMITMAttackData

record login_reply =
  lrCode :: int
  lrMessage :: string
  lrTicket :: string
  lrGraphCheck :: int
  lrNextService :: string
  lrAntiReplayRand :: string

record code_reply =
  crCode :: int
  crMessage :: string
  crUsername :: string

record phone_reply =
  phCode :: int
  phMessage :: string
  phNumber :: string
  phMasked :: string

record QueryDeviceResult =
  SelfID :: string
  DeviceTrusted :: bool

record parsed_url =
  uScheme :: string
  uHost :: string
  uPath :: string
  uQuery :: "(string, string) gomap"

record code_challenge =
  ccKind :: string
  ccMessage :: string
  ccCanSkip :: bool

record code_answer =
  caCode :: string
  caSkip :: bool

record click_answer =
  clPoints :: "(int \<times> int) list"
  clWidth :: int
  clHeight :: int

record Cookie =
  ckHost :: string
  ckScheme :: string
  ckName :: string
  ckValue :: string

text \<open>What the session calls: the HTTP client and the cookie jar (its answers may depend on everything asked
  before), the user's answers, clock and random texts, RSA, TOTP, URL and JSON functions, and the crypto
  library.\<close>

record auth_env =
  aeDo :: "auth_request list \<Rightarrow> string + auth_reply"
  aeCookies :: "Cookie list \<Rightarrow> auth_request list \<Rightarrow> (string \<times> string) list"
  aeCode :: "auth_request list \<Rightarrow> code_challenge \<Rightarrow> string + code_answer"
  aeClick :: "auth_request list \<Rightarrow> string \<Rightarrow> string \<Rightarrow> string + click_answer"
  aeExternal :: "auth_request list \<Rightarrow> string \<Rightarrow> string \<Rightarrow> string + string"
  aeTrace :: "auth_request list \<Rightarrow> string"
  aeMillis :: "auth_request list \<Rightarrow> int"
  aeSeconds :: "auth_request list \<Rightarrow> int"
  aeTOTP :: "auth_request list \<Rightarrow> string \<Rightarrow> string + string"
  aeModulus :: "string \<Rightarrow> int option"
  aeKeySize :: "int \<Rightarrow> nat"
  aeEncrypt :: "int \<Rightarrow> int \<Rightarrow> auth_request list \<Rightarrow> nat \<Rightarrow> bytes \<Rightarrow> string + bytes"
  aeImageConfig :: "string \<Rightarrow> string + int \<times> int"
  aeMarshal :: "json \<Rightarrow> string"
  aeParseURL :: "string \<Rightarrow> string + parsed_url"
  aeEncodeParams :: "(string, string) gomap \<Rightarrow> string"
  aeConfig :: "string \<Rightarrow> string + config_reply"
  aeStep :: "string \<Rightarrow> string + tokenResponse"
  aeLogin :: "string \<Rightarrow> string + login_reply"
  aeReply :: "string \<Rightarrow> string + code_reply"
  aePhone :: "string \<Rightarrow> string + phone_reply"
  aePhoneList :: "string \<Rightarrow> string + string list"
  aePhoneText :: "string \<Rightarrow> string + string"
  aeMitm :: "string \<Rightarrow> string + int \<times> string"
  aeTicket :: "string \<Rightarrow> string + string"
  aeCrypto :: mitm_crypto

text \<open>\<open>Session\<close>, with the requests it sent and the nonce generator's process-wide state.\<close>

record session =
  sDeviceID :: string
  sUsername :: string
  sTOTPSecret :: string
  sBaseHost :: string
  sBaseURL :: string
  sBaseScheme :: string
  sRid :: string
  sEnv :: string
  sCSRF :: string
  sPubKey :: string
  sPubKeyExp :: string
  sAntiReplayRand :: string
  sTicket :: string
  sNextService :: string
  sJar :: "Cookie list"
  sNonce :: u64
  asked :: "auth_request list"

type_synonym 'a act = "(session, auth_error, 'a) action"

text \<open>\<open>client.Do\<close>.\<close>

definition send_request :: "auth_env \<Rightarrow> (session \<Rightarrow> auth_request) \<Rightarrow> auth_reply act" where
  "send_request env q s =
     (let h = asked s @ [q s]; s' = s\<lparr>asked := h\<rparr>
      in case aeDo env h of Inl e \<Rightarrow> (Inl (AuthHTTP e), s') | Inr r \<Rightarrow> (Inr r, s'))"

definition read_all :: "auth_reply \<Rightarrow> string act" where
  "read_all r = (case rpReadError r of Some e \<Rightarrow> fail (AuthRead e) | None \<Rightarrow> ret (rpBody r))"

definition userAgent :: string where
  "userAgent = ''Mozilla/5.0 (X11; Linux x86_64) AppleWebKit/537.36 (KHTML, like Gecko) aTrustTray/2.4.10.50 Chrome/83.0.4103.94 Electron/9.0.2 Safari/537.36 aTrustTray-Linux-Plat-Ubuntu-x64 SPCClientType''"

definition sharedParams :: "(string, string) gomap" where
  "sharedParams = [(''clientType'', ''SDPClient''), (''platform'', ''Linux''), (''lang'', ''en-US'')]"

text \<open>\<open>WithSharedParams\<close>: of several values for a key the last one stays.\<close>

fun set_values :: "string \<Rightarrow> string list \<Rightarrow> (string, string) gomap \<Rightarrow> (string, string) gomap" where
  "set_values k [] m = m"
| "set_values k (v # vs) m = set_values k vs (mset k v m)"

definition WithSharedParams :: "(string \<times> string list) list \<Rightarrow> (string, string) gomap" where
  "WithSharedParams extra = fold (\<lambda>(k, vs). set_values k vs) extra sharedParams"

definition auth_headers :: "auth_env \<Rightarrow> session \<Rightarrow> (string \<times> string) list" where
  "auth_headers env s =
     [(''User-Agent'', userAgent), (''x-csrf-token'', sCSRF s), (''x-sdp-traceid'', aeTrace env (asked s))]"

definition json_headers :: "auth_env \<Rightarrow> session \<Rightarrow> (string \<times> string) list" where
  "json_headers env s = (''Content-Type'', ''application/json;charset=utf-8'') # auth_headers env s"

definition get_request :: "auth_env \<Rightarrow> string \<Rightarrow> (string, string) gomap \<Rightarrow> session \<Rightarrow> auth_request" where
  "get_request env path params s =
     \<lparr>aqMethod = ''GET'', aqURL = sBaseURL s @ path, aqParams = params, aqHeaders = auth_headers env s,
      aqBody = NoBody\<rparr>"

definition post_json ::
  "auth_env \<Rightarrow> string \<Rightarrow> (string, string) gomap \<Rightarrow> (session \<Rightarrow> json) \<Rightarrow> session \<Rightarrow> auth_request" where
  "post_json env path params body s =
     \<lparr>aqMethod = ''POST'', aqURL = sBaseURL s @ path, aqParams = params, aqHeaders = json_headers env s,
      aqBody = JsonBody (body s)\<rparr>"

definition with_env_header :: "(session \<Rightarrow> auth_request) \<Rightarrow> session \<Rightarrow> auth_request" where
  "with_env_header q s = (q s)\<lparr>aqHeaders := (''x-sdp-env'', sEnv s) # aqHeaders (q s)\<rparr>"


section \<open>The server manifest\<close>

record manifest =
  mfCode :: int
  mfZeroRTT :: string
  mfTun0RTT :: bool

definition ParseServerVersionInfo :: "(string \<Rightarrow> string + manifest) \<Rightarrow> string \<Rightarrow> auth_error + manifest" where
  "ParseServerVersionInfo parse text =
     (case parse text of
        Inl e \<Rightarrow> Inl (AuthJSON e)
      | Inr m \<Rightarrow> if mfCode m \<noteq> 0 then Inl (AuthCode ''manifest'' (mfCode m) []) else Inr m)"

definition TCPTunnelZeroRTT :: "manifest \<Rightarrow> bool" where
  "TCPTunnelZeroRTT m \<longleftrightarrow> mfZeroRTT m \<noteq> [] \<and> mfTun0RTT m"

definition ServerVersionInfo :: "auth_env \<Rightarrow> (string \<Rightarrow> string + manifest) \<Rightarrow> string act" where
  "ServerVersionInfo env parse =
     andThen (send_request env (\<lambda>s. \<lparr>aqMethod = ''GET'', aqURL = sBaseURL s @ ''/public/manifest'', aqParams = [],
         aqHeaders = [(''User-Agent'', userAgent)], aqBody = NoBody\<rparr>))
       (\<lambda>resp. if rpStatus resp \<noteq> 200 then fail (AuthStatus (rpStatus resp))
         else andThen (read_all resp) (\<lambda>body.
           andThen (lifted id (ParseServerVersionInfo parse body)) (\<lambda>_. ret body)))"

text \<open>\<open>resolveServerVersionInfo\<close>: the cached manifest stands in for one that could not be fetched.\<close>

definition resolveServerVersionInfo :: "string \<Rightarrow> auth_error + string \<Rightarrow> auth_error + string" where
  "resolveServerVersionInfo cached fetched =
     (case fetched of
        Inr m \<Rightarrow> Inr m
      | Inl e \<Rightarrow> if cached = [] then Inl e else Inr cached)"

definition NewSessionWithScheme :: "auth_env \<Rightarrow> string \<Rightarrow> string \<Rightarrow> session" where
  "NewSessionWithScheme env server scheme =
     (let scheme = to_lower (trim_space scheme);
          scheme = (if scheme = [] then ''https'' else scheme)
      in \<lparr>sDeviceID = [], sUsername = [], sTOTPSecret = [], sBaseHost = server, sBaseURL = scheme @ ''://'' @ server,
          sBaseScheme = scheme, sRid = base64 (aeCrypto env) (ascii_bytes server), sEnv = [], sCSRF = [], sPubKey = [],
          sPubKeyExp = [], sAntiReplayRand = [], sTicket = [], sNextService = [], sJar = [], sNonce = 0, asked = []\<rparr>)"


section \<open>The anti-MITM request and the auth configuration\<close>

definition quoted :: "string \<Rightarrow> string" where
  "quoted s = CHR 0x22 # s @ [CHR 0x22]"

definition mitm_payload :: "string \<Rightarrow> string \<Rightarrow> string" where
  "mitm_payload nonce ticket =
     CHR 0x0A # replicate 12 (CHR '' '') @ ''{'' @ CHR 0x0A # replicate 16 (CHR '' '') @ quoted ''nonce'' @ '': ''
       @ quoted nonce @ '','' @ CHR 0x0A # replicate 16 (CHR '' '') @ quoted ''ticket'' @ '': '' @ quoted ticket
       @ CHR 0x0A # replicate 12 (CHR '' '') @ ''}'' @ CHR 0x0A # replicate 8 (CHR '' '')"

definition new_nonce :: "auth_env \<Rightarrow> string act" where
  "new_nonce env s =
     (case sangforNonce (aeSeconds env (asked s)) (sNonce s) of
        Some (nonce, state) \<Rightarrow> (Inr nonce, s\<lparr>sNonce := state\<rparr>)
      | None \<Rightarrow> (Inl AuthDiverges, s))"

definition performAntiMITMRequest :: "auth_env \<Rightarrow> antiMITMAttackData \<Rightarrow> string \<Rightarrow> unit act" where
  "performAntiMITMRequest env d csrf =
     andThen (new_nonce env) (\<lambda>nonce.
     andThen (send_request env (\<lambda>s. \<lparr>aqMethod = ''POST'',
         aqURL = sBaseURL s @ ''/controller/v1/public/antiMITMRequest'',
         aqParams = (if sDeviceID s \<noteq> [] then mset ''mobileId'' (sDeviceID s) (WithSharedParams []) else WithSharedParams []),
         aqHeaders = [(''User-Agent'', userAgent), (''Content-Type'', ''application/json''), (''x-csrf-token'', csrf),
           (''x-sdp-rid'', sRid s), (''x-sdp-traceid'', aeTrace env (asked s))],
         aqBody = TextBody (mitm_payload nonce (mitmTicket d))\<rparr>)) (\<lambda>resp.
     andThen (read_all resp) (\<lambda>body.
       if rpStatus resp \<noteq> 200 then fail (AuthStatus (rpStatus resp))
       else andThen (lifted AuthJSON (aeMitm env body)) (\<lambda>(code, answered).
         if answered \<noteq> nonce then fail (AuthMitm MitmNonceMismatch)
         else if code = 10000004 then fail (AuthMitm MitmSessionNotFound)
         else if code = 10000008 then fail (AuthMitm MitmAttackDetected)
         else
           let expected = sangforHMAC (aeCrypto env) (sangforSignatureKey (aeCrypto env) d) body;
               actual = to_upper (case mget (rpHeaders resp) ''X-Response-Sig'' of Some x \<Rightarrow> x | None \<Rightarrow> [])
           in if actual \<noteq> expected then fail (AuthMitm MitmResponseSignature) else ret ()))))"

definition checkAntiMITMAuthConfig :: "auth_env \<Rightarrow> auth_reply \<Rightarrow> antiMITMAttackData \<Rightarrow> string \<Rightarrow> unit act" where
  "checkAntiMITMAuthConfig env resp d csrf =
     (case verifySangforChallenge (aeCrypto env) d of
        Some e \<Rightarrow> fail (AuthMitm e)
      | None \<Rightarrow>
          (case verifySangforMITMSignature (aeCrypto env) d of
             Some e \<Rightarrow> fail (AuthMitm e)
           | None \<Rightarrow>
               if mitmEnable d \<noteq> 1 then ret ()
               else (case rpTLS resp of
                       None \<Rightarrow> fail (AuthMitm MitmNotTLS)
                     | Some peers \<Rightarrow>
                         (case verifySangforCertificateIdentity (aeCrypto env) peers d of
                            Some e \<Rightarrow> fail (AuthMitm e)
                          | None \<Rightarrow>
                              if antiMITMRequest d then ret () else performAntiMITMRequest env d csrf))))"

definition config_params :: "bool \<Rightarrow> bool \<Rightarrow> bool \<Rightarrow> (string, string) gomap" where
  "config_params modified needTicket refresh =
     (let params = WithSharedParams [];
          params = (if modified then mset ''mod'' ''1'' params else params)
      in if needTicket then mset ''needTicket'' ''1'' params
         else if refresh then mset ''needTicket'' ''0'' params
         else params)"

text \<open>\<open>ctxErr\<close> is the caller's context; the anti-MITM error is only logged.\<close>

definition authConfigContext ::
  "auth_env \<Rightarrow> (auth_request list \<Rightarrow> string option) \<Rightarrow> bool \<Rightarrow> bool \<Rightarrow> bool \<Rightarrow> (int \<times> AuthInfo list) act" where
  "authConfigContext env ctxErr modified needTicket refresh =
     andThen (send_request env (\<lambda>s. \<lparr>aqMethod = ''GET'', aqURL = sBaseURL s @ ''/passport/v1/public/authConfig'',
         aqParams = config_params modified needTicket refresh,
         aqHeaders = (''x-sdp-rid'', sRid s) # auth_headers env s, aqBody = NoBody\<rparr>)) (\<lambda>resp.
     if rpStatus resp = 401 \<or> rpStatus resp = 403 then fail ErrSessionInvalid
     else if rpStatus resp \<noteq> 200 then fail (AuthStatus (rpStatus resp))
     else andThen (read_all resp) (\<lambda>body.
     andThen (lifted AuthJSON (aeConfig env body)) (\<lambda>re.
     if \<exists>c \<in> set_option (cfCode re). c \<noteq> 0 then
       (if cfCode re = Some 10000004 \<or> cfCode re = Some 75500002 then fail ErrSessionInvalid
        else fail (AuthCode ''authConfig'' (the (cfCode re)) []))
     else if refresh \<and> (cfCode re = None \<or> cfIsLogin re = None) then
       fail (AuthFailed ''authConfig response missing code or isLogin'')
     else if refresh \<and> cfIsLogin re \<noteq> Some 1 then fail ErrSessionInvalid
     else
       let csrf = (if cfCSRF re = [] then cfSecurityCSRF re else cfCSRF re)
       in andThen (if rawData (cfAntiMITM re) \<noteq> []
                   then ignoring_error (checkAntiMITMAuthConfig env resp (cfAntiMITM re) csrf) else ret ()) (\<lambda>_.
          andThen (ask (\<lambda>s. ctxErr (asked s))) (\<lambda>ended.
            case ended of
              Some e \<Rightarrow> fail (AuthContext e)
            | None \<Rightarrow>
                andThen (modify (\<lambda>s. s\<lparr>sCSRF := csrf, sPubKey := cfPubKey re, sPubKeyExp := cfPubKeyExp re,
                    sAntiReplayRand := cfAntiReplayRand re\<rparr>))
                  (\<lambda>_. ret (case cfIsLogin re of Some n \<Rightarrow> n | None \<Rightarrow> 0, cfAuthServers re)))))))"

definition authConfig :: "auth_env \<Rightarrow> bool \<Rightarrow> bool \<Rightarrow> (int \<times> AuthInfo list) act" where
  "authConfig env modified needTicket = authConfigContext env (\<lambda>_. None) modified needTicket False"


section \<open>Authentication steps\<close>

definition select_service :: "authStepData \<Rightarrow> authServiceInfo option" where
  "select_service d =
     (case find (\<lambda>x. sdNextService d \<noteq> [] \<and> siAuthType x = sdNextService d) (sdNextServiceList d) of
        Some x \<Rightarrow> Some x
      | None \<Rightarrow> (case sdNextServiceList d of [] \<Rightarrow> None | x # _ \<Rightarrow> Some x))"

definition selected_name :: "string \<Rightarrow> authServiceInfo \<Rightarrow> string" where
  "selected_name service x =
     (if service = [] then siAuthType x
      else if service = ''auth/token'' then
        (if siAuthType x = ''auth/totp'' \<or> siAuthType x = ''auth/radius'' \<or> siAuthType x = ''auth/challenge''
         then siAuthType x
         else if siAuthType x = ''auth/token'' \<and> siSubType x = ''totp'' then ''auth/totp''
         else service)
      else service)"

definition authStepFromData :: "authStepData \<Rightarrow> authStep" where
  "authStepFromData d =
     (let selected = select_service d;
          authID = (case selected of Some x \<Rightarrow> siAuthID x | None \<Rightarrow> []);
          service = (case selected of Some x \<Rightarrow> selected_name (sdNextService d) x | None \<Rightarrow> sdNextService d);
          service = (if service = ''auth/sendSms'' then ''auth/sms'' else service);
          service = (if service = [] \<and> authID \<noteq> [] then ''auth/sms'' else service);
          mode = (if service = ''auth/sms'' then (if authID = [] then smsWithoutAuthID else smsWithAuthID)
                  else smsModeUnknown)
      in \<lparr>stService = service, stAuthID = authID, stSMSMode = mode\<rparr>)"

text \<open>A request whose reply names the next step; some callers ignore an error of reading the body.\<close>

definition read_body :: "bool \<Rightarrow> auth_reply \<Rightarrow> string act" where
  "read_body strict resp = (if strict then read_all resp else ret (rpBody resp))"

definition step_reply :: "auth_env \<Rightarrow> bool \<Rightarrow> string \<Rightarrow> auth_reply \<Rightarrow> authStep act" where
  "step_reply env strict name resp =
     andThen (read_body strict resp) (\<lambda>body.
     andThen (lifted AuthJSON (aeStep env body)) (\<lambda>re.
       if trCode re \<noteq> 0 then fail (AuthCode name (trCode re) (trMessage re))
       else ret (authStepFromData (trData re))))"

definition code_reply_ok :: "auth_env \<Rightarrow> bool \<Rightarrow> string \<Rightarrow> (int \<Rightarrow> bool) \<Rightarrow> auth_reply \<Rightarrow> code_reply act" where
  "code_reply_ok env strict name accepted resp =
     andThen (read_body strict resp) (\<lambda>body.
     andThen (lifted AuthJSON (aeReply env body)) (\<lambda>re.
       if \<not> accepted (crCode re) then fail (AuthCode name (crCode re) (crMessage re)) else ret re))"

definition authCheck :: "auth_env \<Rightarrow> authStep act" where
  "authCheck env =
     andThen (send_request env (get_request env ''/passport/v1/auth/authCheck'' (WithSharedParams [])))
       (step_reply env False ''authCheck'')"

definition accessCheck :: "auth_env \<Rightarrow> authStep act" where
  "accessCheck env =
     andThen (send_request env (get_request env ''/passport/v1/auth/accessCheck'' (WithSharedParams [])))
       (step_reply env True ''accessCheck'')"

definition reportEnv :: "auth_env \<Rightarrow> unit act" where
  "reportEnv env =
     andThen (ask sTicket) (\<lambda>ticket.
       if ticket = [] then fail (AuthFailed ''ticket is empty'')
       else andThen (send_request env (post_json env ''/controller/v1/public/reportEnv'' (WithSharedParams [])
           (\<lambda>s. JObject [(''ticket'', JString (sTicket s)), (''deviceId'', JString (sDeviceID s)),
              (''env'', JObject [(''endpoint'', JObject [(''device_id'', JString (sDeviceID s)),
                 (''device'', JObject [(''type'', JString ''browser'')])])])])))
         (\<lambda>resp. andThen (code_reply_ok env False ''reportEnv'' (\<lambda>c. c = 0) resp) (\<lambda>_. ret ())))"

definition onlineInfo :: "auth_env \<Rightarrow> string act" where
  "onlineInfo env =
     andThen (send_request env (get_request env ''/passport/v1/user/onlineInfo'' (WithSharedParams [])))
       (\<lambda>resp. andThen (code_reply_ok env False ''onlineInfo'' (\<lambda>c. c = 0) resp) (\<lambda>re. ret (crUsername re)))"

definition ClientResource :: "auth_env \<Rightarrow> string act" where
  "ClientResource env =
     andThen (send_request env (post_json env ''/controller/v1/user/clientResource'' (WithSharedParams [])
         (\<lambda>_. JObject [(''resourceType'', JObject [(''sdpPolicy'', JObject []), (''appList'', JObject []),
            (''favoriteAppList'', JObject []), (''featureCenter'', JObject []),
            (''uemSpace'', JObject [(''params'', JObject [(''action'', JString ''login'')])])])])))
       (\<lambda>resp. ret (rpBody resp))"

definition checkCode :: "auth_env \<Rightarrow> string act" where
  "checkCode env =
     andThen (send_request env (\<lambda>s. \<lparr>aqMethod = ''GET'', aqURL = sBaseURL s @ ''/passport/v1/public/checkCode'',
         aqParams = WithSharedParams [(''rnd'', [show_int (aeMillis env (asked s))])],
         aqHeaders = [(''User-Agent'', userAgent), (''Accept'', ''image/webp,image/apng,image/*,*/*;q=0.8'')],
         aqBody = NoBody\<rparr>))
       (\<lambda>resp. ret (rpBody resp))"


section \<open>SMS codes\<close>

definition parsePhoneNumbers :: "auth_env \<Rightarrow> string \<Rightarrow> string list act" where
  "parsePhoneNumbers env text =
     (let text = trim_space text
      in if text = [] \<or> text = ''null'' then ret []
         else if hd text = CHR ''['' then lifted AuthJSON (aePhoneList env text)
         else andThen (lifted AuthJSON (aePhoneText env text)) (\<lambda>x. ret (if x = [] then [] else [x])))"

definition phoneNumber :: "auth_env \<Rightarrow> string \<Rightarrow> string list act" where
  "phoneNumber env authID =
     andThen (send_request env (get_request env ''/passport/v1/public/phoneNumber''
         (if authID \<noteq> [] then mset ''authId'' authID (WithSharedParams []) else WithSharedParams []))) (\<lambda>resp.
     andThen (lifted AuthJSON (aePhone env (rpBody resp))) (\<lambda>re.
       if phCode re \<noteq> 0 then fail (AuthCode ''phoneNumber'' (phCode re) (phMessage re))
       else andThen (parsePhoneNumbers env (phNumber re)) (\<lambda>ns.
         ret (if ns = [] \<and> phMasked re \<noteq> [] then [phMasked re] else ns))))"

definition sms_send_params :: "authStep \<Rightarrow> (string, string) gomap" where
  "sms_send_params step =
     (let params = WithSharedParams [(''action'', [''sendsms''])]
      in if stSMSMode step = smsWithAuthID
         then mset ''authId'' (stAuthID step) (mset ''taskId'' [] (mset ''isPrevEffect'' ''0'' params))
         else params)"

definition authSms :: "auth_env \<Rightarrow> authStep \<Rightarrow> unit act" where
  "authSms env step =
     (if stSMSMode step = smsWithAuthID \<and> stAuthID step = [] then
        fail (AuthFailed ''SMS authentication requires authId'')
      else if stSMSMode step = smsModeUnknown then fail (AuthFailed ''unknown SMS authentication mode'')
      else andThen (send_request env (get_request env ''/passport/v1/auth/sms'' (sms_send_params step)))
        (\<lambda>resp. andThen (code_reply_ok env False ''authSms'' (\<lambda>c. c = 0 \<or> c = 75500401) resp) (\<lambda>_. ret ())))"

definition bool_text :: "bool \<Rightarrow> string" where
  "bool_text b = (if b then ''1'' else ''0'')"

definition secondarySMSCheckCodeImpl :: "auth_env \<Rightarrow> authStep \<Rightarrow> string \<Rightarrow> bool \<Rightarrow> authStep act" where
  "secondarySMSCheckCodeImpl env step code skip =
     (let params = WithSharedParams [(''action'', [''checkcode''])]; path = ''/passport/v1/auth/sms''
      in case stSMSMode step of
           smsWithoutAuthID \<Rightarrow>
             andThen (send_request env (\<lambda>s. \<lparr>aqMethod = ''POST'', aqURL = sBaseURL s @ path, aqParams = params,
                 aqHeaders = (''Content-Type'', ''application/x-www-form-urlencoded'') # auth_headers env s,
                 aqBody = FormBody [(''code'', code), (''skipSecondaryAuth'', bool_text skip)]\<rparr>))
               (step_reply env False ''smsCheckCode'')
         | smsWithAuthID \<Rightarrow>
             if stAuthID step = [] then fail (AuthFailed ''SMS authentication requires authId'')
             else andThen (send_request env (post_json env path params
                 (\<lambda>_. JObject [(''isPrevEffect'', JBool False), (''code'', JString code),
                    (''skipSecondaryAuth'', JString (bool_text skip)), (''taskId'', JString []),
                    (''authId'', JString (stAuthID step))])))
               (step_reply env False ''smsCheckCode'')
         | smsModeUnknown \<Rightarrow> fail (AuthFailed ''unknown SMS authentication mode''))"

definition handle_code :: "auth_env \<Rightarrow> code_challenge \<Rightarrow> code_answer act" where
  "handle_code env c = andThen (ask (\<lambda>s. aeCode env (asked s) c)) (lifted AuthFailed)"

definition sms_challenge :: "bool \<Rightarrow> code_challenge" where
  "sms_challenge skip =
     \<lparr>ccKind = ''sms'', ccMessage = ''Please enter the SMS verification code:'', ccCanSkip = skip\<rparr>"

definition smsCheckCode :: "auth_env \<Rightarrow> authStep \<Rightarrow> authStep act" where
  "smsCheckCode env step =
     andThen (handle_code env (sms_challenge True)) (\<lambda>a. secondarySMSCheckCodeImpl env step (caCode a) (caSkip a))"

text \<open>\<open>completeSMS\<close>: the authentication configuration is read again before or after the message is sent,
  and an error of the phone number query is only logged.\<close>

definition completeSMS :: "auth_env \<Rightarrow> authStep \<Rightarrow> authStep act" where
  "completeSMS env step =
     andThen (case stSMSMode step of
         smsWithAuthID \<Rightarrow> andThen (authConfig env True True) (\<lambda>_. ret ())
       | smsWithoutAuthID \<Rightarrow> ret ()
       | smsModeUnknown \<Rightarrow> fail (AuthFailed ''unknown SMS authentication mode'')) (\<lambda>_.
     andThen (ignoring_error (andThen (phoneNumber env (stAuthID step)) (\<lambda>_. ret ()))) (\<lambda>_.
     andThen (authSms env step) (\<lambda>_.
     andThen (if stSMSMode step = smsWithoutAuthID
              then andThen (authConfig env True True) (\<lambda>_. ret ()) else ret ()) (\<lambda>_.
     smsCheckCode env step))))"

definition custom_sms_request ::
  "auth_env \<Rightarrow> string \<Rightarrow> (string \<times> json) list \<Rightarrow> auth_reply act" where
  "custom_sms_request env action payload =
     send_request env (post_json env ''/passport/v1/auth/customSms'' (WithSharedParams [(''action'', [action])])
       (\<lambda>_. JObject payload))"

definition sendCustomSMS :: "auth_env \<Rightarrow> unit act" where
  "sendCustomSMS env =
     andThen (custom_sms_request env ''sendcustomsms'' [(''isPrevEffect'', JString ''0''), (''taskId'', JString [])])
       (\<lambda>resp. andThen (code_reply_ok env True ''sendCustomSMS'' (\<lambda>c. c = 0) resp) (\<lambda>_. ret ()))"

definition customSMSCheckCode :: "auth_env \<Rightarrow> string \<Rightarrow> bool \<Rightarrow> authStep act" where
  "customSMSCheckCode env code skip =
     andThen (custom_sms_request env ''checkcustomcode''
         [(''isPrevEffect'', JBool False), (''customCode'', JString code),
          (''skipSecondaryAuth'', JString (bool_text skip)), (''taskId'', JString [])])
       (step_reply env True ''customSMSCheckCode'')"

definition completeCustomSMS :: "auth_env \<Rightarrow> authStep act" where
  "completeCustomSMS env =
     andThen (sendCustomSMS env) (\<lambda>_.
     andThen (handle_code env (sms_challenge True)) (\<lambda>a. customSMSCheckCode env (caCode a) (caSkip a)))"


section \<open>RSA and tokens\<close>

text \<open>\<open>encryptPKCS1v15Chunks\<close>: the loop over pieces of at most the key size less 11 bytes;
  the number stands for the call of the randomised cipher.\<close>

function encrypt_chunks ::
  "(nat \<Rightarrow> bytes \<Rightarrow> string + bytes) \<Rightarrow> nat \<Rightarrow> bytes \<Rightarrow> bytes \<Rightarrow> string + bytes" where
  "encrypt_chunks enc most ciphertext plaintext =
     (if plaintext = [] \<or> most = 0 then Inr ciphertext
      else (case enc (length ciphertext) (take most plaintext) of
              Inl e \<Rightarrow> Inl e
            | Inr chunk \<Rightarrow> encrypt_chunks enc most (ciphertext @ chunk) (drop most plaintext)))"
  by pat_completeness auto
termination
  by (relation "measure (\<lambda>(enc, most, c, p). length p)") auto

declare encrypt_chunks.simps [simp del]

definition encryptPKCS1v15Chunks :: "(nat \<Rightarrow> bytes \<Rightarrow> string + bytes) \<Rightarrow> nat \<Rightarrow> bytes \<Rightarrow> string + bytes" where
  "encryptPKCS1v15Chunks enc keySize plaintext =
     (if keySize \<le> 11 then Inl ''RSA public key is too small''
      else encrypt_chunks enc (keySize - 11) [] plaintext)"

text \<open>The password and the challenge response: text, underscore and the anti-replay value, encrypted.\<close>

definition encrypted_text :: "auth_env \<Rightarrow> string \<Rightarrow> string act" where
  "encrypted_text env text s =
     (case aeModulus env (sPubKey s) of
        None \<Rightarrow> fail (AuthFailed ''invalid RSA public key modulus'') s
      | Some N \<Rightarrow>
          (case atoi (sPubKeyExp s) of
             None \<Rightarrow> fail (AuthFailed ''invalid RSA public key exponent'') s
           | Some E \<Rightarrow>
               if E \<le> 0 then fail (AuthFailed ''invalid RSA public key exponent'') s
               else andThen (lifted AuthFailed (encryptPKCS1v15Chunks (aeEncrypt env N E (asked s)) (aeKeySize env N)
                   (ascii_bytes (text @ ''_'' @ sAntiReplayRand s)))) (\<lambda>c. ret (hex_encode c)) s))"

definition submitTokenAt :: "auth_env \<Rightarrow> string \<Rightarrow> (string \<times> json) list \<Rightarrow> authStep act" where
  "submitTokenAt env service payload =
     (if service \<noteq> ''auth/token'' \<and> service \<noteq> ''auth/challenge'' then
        fail (AuthFailed ''unsupported token authentication service'')
      else andThen (send_request env (with_env_header (post_json env (''/passport/v1/'' @ service)
          (WithSharedParams []) (\<lambda>_. JObject payload))))
        (step_reply env True ''token authentication''))"

definition addUsername :: "session \<Rightarrow> (string \<times> json) list \<Rightarrow> (string \<times> json) list" where
  "addUsername s payload = (if sUsername s \<noteq> [] then payload @ [(''username'', JString (sUsername s))] else payload)"

definition bool_number :: "bool \<Rightarrow> json" where
  "bool_number b = JNumber (if b then ''1'' else ''0'')"

definition totp_answer :: "auth_env \<Rightarrow> code_answer act" where
  "totp_answer env s =
     (if sTOTPSecret s \<noteq> [] then
        andThen (lifted AuthFailed (aeTOTP env (asked s) (sTOTPSecret s)))
          (\<lambda>code. ret \<lparr>caCode = code, caSkip = False\<rparr>) s
      else handle_code env
        \<lparr>ccKind = ''totp'', ccMessage = ''Please enter the TOTP token:'', ccCanSkip = True\<rparr> s)"

definition completeTOTP :: "auth_env \<Rightarrow> authStep act" where
  "completeTOTP env =
     andThen (totp_answer env) (\<lambda>a.
     andThen (ask (\<lambda>s. addUsername s [(''action'', JString ''auth''), (''totpToken'', JString (caCode a)),
         (''isPrevEffect'', JBool False), (''skipSecondaryAuth'', bool_number (caSkip a))]))
       (submitTokenAt env ''auth/token''))"

definition completeRadius :: "auth_env \<Rightarrow> string \<Rightarrow> authStep act" where
  "completeRadius env service =
     andThen (handle_code env
         \<lparr>ccKind = ''radius'', ccMessage = ''Please enter the RADIUS token:'', ccCanSkip = True\<rparr>) (\<lambda>a.
     andThen (if service = ''auth/challenge''
              then andThen (encrypted_text env (caCode a)) (\<lambda>x. ret [(''radiusToken'', JString x)])
              else ret [(''radiusToken'', JString (caCode a)), (''skipSecondaryAuth'', bool_number (caSkip a))]) (\<lambda>payload.
     andThen (ask (\<lambda>s. addUsername s payload)) (submitTokenAt env service)))"

definition requestAuthStep :: "auth_env \<Rightarrow> authStep \<Rightarrow> (session \<Rightarrow> json) option \<Rightarrow> authStep act" where
  "requestAuthStep env step body =
     (let path = ''/passport/v1/'' @ stService step;
          params = (if stAuthID step \<noteq> [] then mset ''authId'' (stAuthID step) (WithSharedParams [])
                    else WithSharedParams []);
          q = (case body of None \<Rightarrow> get_request env path params | Some b \<Rightarrow> post_json env path params b)
      in andThen (send_request env (with_env_header q)) (step_reply env True (stService step)))"

definition enhancedAuthServices :: "string list" where
  "enhancedAuthServices = [''auth/preEnhancedAuth'', ''auth/enhancedConfirm'', ''auth/enhancedDone'']"

definition completeEnhancedAuth :: "auth_env \<Rightarrow> authStep \<Rightarrow> authStep act" where
  "completeEnhancedAuth env step =
     (if stService step \<notin> set enhancedAuthServices then
        fail (AuthFailed ''unsupported enhanced authentication service'')
      else requestAuthStep env step None)"

definition bindAuthDevice :: "auth_env \<Rightarrow> authStep \<Rightarrow> authStep act" where
  "bindAuthDevice env step =
     requestAuthStep env step (Some (\<lambda>s. JObject ((''deviceId'', JString (sDeviceID s))
       # (if stAuthID step \<noteq> [] then [(''authId'', JString (stAuthID step))] else []))))"


section \<open>Captchas\<close>

definition isValidCoordinates :: "int list list \<Rightarrow> bool" where
  "isValidCoordinates cs \<longleftrightarrow> cs \<noteq> [] \<and> (\<forall>p \<in> set cs. length p = 2)"

definition decodeImageSize :: "auth_env \<Rightarrow> string \<Rightarrow> (int \<times> int) act" where
  "decodeImageSize env img =
     (if img = [] then fail (AuthFailed ''empty image data'')
      else andThen (lifted AuthFailed (aeImageConfig env img)) (\<lambda>(w, h).
        if w \<le> 0 \<or> h \<le> 0 then fail (AuthFailed ''invalid image dimensions'') else ret (w, h)))"

definition marshalGraphCheckCode :: "auth_env \<Rightarrow> int list list \<Rightarrow> int \<Rightarrow> int \<Rightarrow> string act" where
  "marshalGraphCheckCode env cs w h =
     (if \<not> isValidCoordinates cs then fail (AuthFailed ''invalid coordinates'')
      else if w \<le> 0 \<or> h \<le> 0 then fail (AuthFailed ''invalid dimensions'')
      else ret (aeMarshal env (JObject
        [(''coordinates'', JArray (map (\<lambda>c. JArray (map (\<lambda>n. JNumber (show_int n)) c)) cs)),
         (''width'', JNumber (show_int w)), (''height'', JNumber (show_int h))])))"

definition graphCheckCodeFromResponse :: "auth_env \<Rightarrow> click_answer \<Rightarrow> string \<Rightarrow> string act" where
  "graphCheckCodeFromResponse env a img =
     (let cs = map (\<lambda>(x, y). [x, y]) (clPoints a)
      in andThen (if clWidth a \<le> 0 \<or> clHeight a \<le> 0 then decodeImageSize env img
                  else ret (clWidth a, clHeight a))
           (\<lambda>(w, h). marshalGraphCheckCode env cs w h))"

definition maxAttempts :: nat where "maxAttempts = 5"

text \<open>\<open>withGraphCheckCode\<close>: \<open>n\<close> attempts are left, \<open>g\<close> is what the last one answered.\<close>

fun captcha_loop :: "auth_env \<Rightarrow> (string \<Rightarrow> int act) \<Rightarrow> string \<Rightarrow> nat \<Rightarrow> int \<Rightarrow> unit act" where
  "captcha_loop env process file 0 g =
     (if g \<noteq> 0 then fail (AuthFailed ''captcha verification failed'') else ret ())"
| "captcha_loop env process file (Suc n) g =
     (if g = 1 then
        andThen (checkCode env) (\<lambda>img.
        andThen (authConfig env False True) (\<lambda>_.
        andThen (andThen (ask (\<lambda>s. aeClick env (asked s) img file)) (lifted AuthFailed)) (\<lambda>a.
        andThen (graphCheckCodeFromResponse env a img) (\<lambda>code.
        andThen (process code) (\<lambda>g.
          if g = 0 then ret () else captcha_loop env process file n g)))))
      else if g \<noteq> 0 then fail (AuthFailed ''captcha verification failed'')
      else ret ())"

definition withGraphCheckCode :: "auth_env \<Rightarrow> (string \<Rightarrow> int act) \<Rightarrow> string \<Rightarrow> unit act" where
  "withGraphCheckCode env process file =
     andThen (process []) (captcha_loop env process file maxAttempts)"


section \<open>Login methods\<close>

datatype LoginMethod =
    PasswordLogin string string string string
  | CASLogin string string
  | HTTPSOauth2Login string string string
  | SMSLogin string string string

fun AuthType :: "LoginMethod \<Rightarrow> string" where
  "AuthType (PasswordLogin _ _ _ _) = ''auth/psw''"
| "AuthType (CASLogin _ _) = ''auth/cas''"
| "AuthType (HTTPSOauth2Login _ _ _) = ''auth/httpsOauth2''"
| "AuthType (SMSLogin _ _ _) = ''auth/smsCheckCode''"

fun LoginDomain :: "LoginMethod \<Rightarrow> string" where
  "LoginDomain (PasswordLogin _ _ d _) = d"
| "LoginDomain (CASLogin d _) = d"
| "LoginDomain (HTTPSOauth2Login d _ _) = d"
| "LoginDomain (SMSLogin _ d _) = d"

record LoginMethodOptions =
  loAuthType :: string
  loUsername :: string
  loPassword :: string
  loPhone :: string
  loDomain :: string
  loGraphCodeFile :: string
  loCASTicket :: string
  loOAuth2Code :: string

definition NewLoginMethod :: "LoginMethodOptions \<Rightarrow> string + LoginMethod option" where
  "NewLoginMethod x =
     (let t = (if loAuthType x \<noteq> [] then loAuthType x
               else if loUsername x \<noteq> [] \<and> loPassword x \<noteq> [] then ''auth/psw''
               else if loPhone x \<noteq> [] then ''auth/smsCheckCode''
               else [])
      in if t = ''auth/psw'' then
           Inr (Some (PasswordLogin (loUsername x) (loPassword x) (loDomain x) (loGraphCodeFile x)))
         else if t = ''auth/cas'' then Inr (Some (CASLogin (loDomain x) (loCASTicket x)))
         else if t = ''auth/httpsOauth2'' then Inr (Some (HTTPSOauth2Login (loDomain x) (loOAuth2Code x) []))
         else if t = ''auth/smsCheckCode'' then
           Inr (Some (SMSLogin (loPhone x) (loDomain x) (loGraphCodeFile x)))
         else if t = [] then Inr None
         else Inl (''unsupported auth type: '' @ t))"

text \<open>What \<open>pswImpl\<close> and \<open>smsCheckCodeImpl\<close> do with their reply: a refusal that asks for a captcha is no
  error, an acceptance without a captcha needs a ticket.\<close>

definition login_reply_ok :: "auth_env \<Rightarrow> string \<Rightarrow> bool \<Rightarrow> auth_reply \<Rightarrow> (int \<times> login_reply option) act" where
  "login_reply_ok env name needs_ticket resp =
     andThen (lifted AuthJSON (aeLogin env (rpBody resp))) (\<lambda>re.
       if lrCode re \<noteq> 0 then
         (if lrGraphCheck re = 1 then ret (lrGraphCheck re, None)
          else fail (AuthCode name (lrCode re) (lrMessage re)))
       else if needs_ticket \<and> lrTicket re = [] \<and> lrGraphCheck re = 0 then
         fail (AuthFailed ''authentication succeeded without a ticket'')
       else ret (lrGraphCheck re, Some re))"

definition pswImpl :: "auth_env \<Rightarrow> string \<Rightarrow> string \<Rightarrow> string \<Rightarrow> string \<Rightarrow> int act" where
  "pswImpl env username password domain graphCheckCode =
     andThen (encrypted_text env password) (\<lambda>encryptedPwd.
     andThen (modify (\<lambda>s. s\<lparr>sUsername := username @ ''@'' @ domain\<rparr>)) (\<lambda>_.
     andThen (send_request env (with_env_header (post_json env ''/passport/v1/auth/psw'' (WithSharedParams [])
         (\<lambda>s. JObject ([(''username'', JString (sUsername s)), (''password'', JString encryptedPwd),
            (''rememberPwd'', JString ''0'')]
            @ (if graphCheckCode \<noteq> [] then [(''graphCheckCode'', JString graphCheckCode)] else []))))))  (\<lambda>resp.
     andThen (login_reply_ok env ''password authentication'' True resp) (\<lambda>(g, accepted).
       case accepted of
         None \<Rightarrow> ret g
       | Some re \<Rightarrow>
           andThen (modify (\<lambda>s. s\<lparr>sTicket := lrTicket re, sNextService := lrNextService re,
               sAntiReplayRand := (if lrAntiReplayRand re \<noteq> [] then lrAntiReplayRand re else sAntiReplayRand s)\<rparr>))
             (\<lambda>_. ret g)))))"

definition sendSms :: "auth_env \<Rightarrow> string \<Rightarrow> string \<Rightarrow> string \<Rightarrow> int act" where
  "sendSms env phone domain graphCheckCode =
     andThen (send_request env (with_env_header (post_json env ''/passport/v1/public/sendSms'' (WithSharedParams [])
         (\<lambda>_. JObject [(''phone'', JString (phone @ ''@'' @ domain)), (''graphCheckCode'', JString graphCheckCode)]))))
       (\<lambda>resp. andThen (login_reply_ok env ''sendSms'' False resp) (\<lambda>(g, _). ret g))"

definition smsCheckCodeImpl :: "auth_env \<Rightarrow> string \<Rightarrow> string \<Rightarrow> string \<Rightarrow> string \<Rightarrow> int act" where
  "smsCheckCodeImpl env code phone domain graphCheckCode =
     andThen (send_request env (with_env_header (post_json env ''/passport/v1/auth/smsCheckCode'' (WithSharedParams [])
         (\<lambda>_. JObject ([(''code'', JString code), (''phone'', JString (phone @ ''@'' @ domain))]
            @ (if graphCheckCode \<noteq> [] then [(''graphCheckCode'', JString graphCheckCode)] else [])))))) (\<lambda>resp.
     andThen (login_reply_ok env ''SMS authentication'' True resp) (\<lambda>(g, accepted).
       case accepted of
         None \<Rightarrow> ret g
       | Some re \<Rightarrow> andThen (modify (\<lambda>s. s\<lparr>sTicket := lrTicket re\<rparr>)) (\<lambda>_. ret g)))"

definition loginAuthSmsCheckCode :: "auth_env \<Rightarrow> string \<Rightarrow> string \<Rightarrow> string \<Rightarrow> unit act" where
  "loginAuthSmsCheckCode env phone domain file =
     andThen (withGraphCheckCode env (sendSms env phone domain) file) (\<lambda>_.
     andThen (handle_code env (sms_challenge False)) (\<lambda>a.
     withGraphCheckCode env (smsCheckCodeImpl env (caCode a) phone domain) file))"

text \<open>\<open>cas\<close> and \<open>httpsOauth2\<close> visit the callback without following its redirect.\<close>

definition parsePortalTicketFromRedirect :: "auth_env \<Rightarrow> string \<Rightarrow> string \<Rightarrow> string \<Rightarrow> string act" where
  "parsePortalTicketFromRedirect env redirect baseHost baseScheme =
     andThen (lifted AuthFailed (aeParseURL env redirect)) (\<lambda>u.
       if uScheme u \<noteq> baseScheme then fail (AuthFailed ''invalid redirect url: scheme does not match'')
       else if uHost u \<noteq> baseHost then fail (AuthFailed ''invalid redirect url: host not match'')
       else if uPath u \<noteq> ''/portal/shortcut.html'' then fail (AuthFailed ''invalid redirect url: path not match'')
       else
         let dt = (case mget (uQuery u) ''data'' of Some x \<Rightarrow> x | None \<Rightarrow> [])
         in if dt = [] then fail (AuthFailed ''invalid redirect url: data not found'')
            else andThen (lifted AuthJSON (aeTicket env dt)) (\<lambda>ticket.
              if ticket = [] then fail (AuthFailed ''invalid portal data: ticket not found'') else ret ticket))"

definition visit_callback :: "auth_env \<Rightarrow> string \<Rightarrow> unit act" where
  "visit_callback env callback =
     andThen (send_request env (\<lambda>s. \<lparr>aqMethod = ''GET'', aqURL = callback, aqParams = [],
         aqHeaders = auth_headers env s, aqBody = NoBody\<rparr>)) (\<lambda>resp.
       if rpStatus resp \<noteq> 302 then fail (AuthStatus (rpStatus resp))
       else
         let location = (case mget (rpHeaders resp) ''Location'' of Some x \<Rightarrow> x | None \<Rightarrow> [])
         in andThen (\<lambda>s. parsePortalTicketFromRedirect env location (sBaseHost s) (sBaseScheme s) s)
              (\<lambda>ticket. modify (\<lambda>s. s\<lparr>sTicket := ticket\<rparr>)))"

text \<open>The callback the user pastes must be the method's own path and carry its secret.\<close>

definition interactive_callback :: "auth_env \<Rightarrow> string \<Rightarrow> string \<Rightarrow> string \<Rightarrow> string \<Rightarrow> string act" where
  "interactive_callback env kind loginURL path secret =
     andThen (andThen (ask (\<lambda>s. aeExternal env (asked s) kind loginURL)) (lifted AuthFailed)) (\<lambda>callback.
     andThen (lifted AuthFailed (aeParseURL env callback)) (\<lambda>u.
       if uPath u \<noteq> path then fail (AuthFailed ''invalid callback url: path not match'')
       else if (case mget (uQuery u) secret of Some x \<Rightarrow> x | None \<Rightarrow> []) = [] then
         fail (AuthFailed ''invalid callback url: secret not found'')
       else ret callback))"

definition casCallbackFromTicket :: "auth_env \<Rightarrow> string \<Rightarrow> string \<Rightarrow> session \<Rightarrow> string" where
  "casCallbackFromTicket env domain ticket s =
     sBaseURL s @ ''/passport/v1/auth/cas?'' @ aeEncodeParams env [(''sfDomain'', domain), (''ticket'', ticket)]"

definition interactiveCas :: "auth_env \<Rightarrow> string \<Rightarrow> string act" where
  "interactiveCas env loginURL = interactive_callback env ''cas'' loginURL ''/passport/v1/auth/cas'' ''ticket''"

definition loginAuthCas :: "auth_env \<Rightarrow> string \<Rightarrow> string \<Rightarrow> string \<Rightarrow> unit act" where
  "loginAuthCas env loginURL domain ticket =
     andThen (if ticket = [] then interactiveCas env loginURL else ask (casCallbackFromTicket env domain ticket)) (\<lambda>callback.
     andThen (visit_callback env callback) (\<lambda>_.
     andThen (authConfig env True False) (\<lambda>_. ret ())))"

definition httpsOauth2CallbackFromCode :: "auth_env \<Rightarrow> string \<Rightarrow> string \<Rightarrow> session \<Rightarrow> string" where
  "httpsOauth2CallbackFromCode env domain code s =
     sBaseURL s @ ''/passport/v1/auth/httpsOauth2?''
       @ aeEncodeParams env [(''sfDomain'', domain), (''code'', code), (''state'', ''null'')]"

definition interactiveHttpsOauth2 :: "auth_env \<Rightarrow> string \<Rightarrow> string act" where
  "interactiveHttpsOauth2 env loginURL =
     interactive_callback env ''oauth2'' loginURL ''/passport/v1/auth/httpsOauth2'' ''code''"

definition loginAuthHttpsOauth2 :: "auth_env \<Rightarrow> string \<Rightarrow> string \<Rightarrow> string \<Rightarrow> string \<Rightarrow> unit act" where
  "loginAuthHttpsOauth2 env loginURL domain code callback =
     andThen (if callback \<noteq> [] then ret callback
              else if code \<noteq> [] then ask (httpsOauth2CallbackFromCode env domain code)
              else interactiveHttpsOauth2 env loginURL) (\<lambda>callback.
     andThen (visit_callback env callback) (\<lambda>_.
     andThen (authConfig env True False) (\<lambda>_. ret ())))"

fun login_with :: "auth_env \<Rightarrow> LoginMethod \<Rightarrow> AuthInfo \<Rightarrow> unit act" where
  "login_with env (PasswordLogin user password domain file) _ =
     withGraphCheckCode env (pswImpl env user password domain) file"
| "login_with env (CASLogin domain ticket) info = loginAuthCas env (aiLoginURL info) domain ticket"
| "login_with env (HTTPSOauth2Login domain code callback) info =
     loginAuthHttpsOauth2 env (aiLoginURL info) domain code callback"
| "login_with env (SMSLogin phone domain file) _ =
     andThen (loginAuthSmsCheckCode env phone domain file)
       (\<lambda>_. modify (\<lambda>s. s\<lparr>sUsername := phone @ ''@'' @ domain\<rparr>))"


section \<open>The authentication chain and the login\<close>

definition maxAuthSteps :: nat where "maxAuthSteps = 8"

definition auth_service :: "auth_env \<Rightarrow> authStep \<Rightarrow> authStep act" where
  "auth_service env step =
     (let service = stService step
      in if service = ''auth/authCheck'' then authCheck env
         else if service = ''auth/sms'' then completeSMS env step
         else if service = ''auth/customSms'' then completeCustomSMS env
         else if service = ''auth/totp'' then completeTOTP env
         else if service = ''auth/radius'' then completeRadius env ''auth/token''
         else if service = ''auth/challenge'' then completeRadius env ''auth/challenge''
         else if service = ''auth/accessCheck'' then accessCheck env
         else if service \<in> set enhancedAuthServices then completeEnhancedAuth env step
         else if service = ''auth/bindAuthDevice'' then bindAuthDevice env step
         else if service = ''auth/token'' then fail (AuthFailed ''token authentication type is missing'')
         else fail (AuthFailed ''unsupported next authentication service''))"

fun auth_chain :: "auth_env \<Rightarrow> nat \<Rightarrow> authStep \<Rightarrow> unit act" where
  "auth_chain env 0 step = fail (AuthFailed ''authentication chain exceeded 8 steps'')"
| "auth_chain env (Suc n) step =
     (if stService step = [] then ret () else andThen (auth_service env step) (auth_chain env n))"

definition continueAuth :: "auth_env \<Rightarrow> authStep \<Rightarrow> unit act" where
  "continueAuth env step = auth_chain env maxAuthSteps step"

record LoginOptions =
  opDeviceID :: string
  opCookies :: "Cookie list"
  opTOTPSecret :: string

record LoginResult =
  resUsername :: string
  resSID :: string
  resCookies :: "Cookie list"

definition sessionCookies :: "auth_env \<Rightarrow> session \<Rightarrow> string \<times> Cookie list" where
  "sessionCookies env s =
     (let cs = aeCookies env (sJar s) (asked s)
      in (fold (\<lambda>(name, value) sid. if name = ''sid'' then value else sid) cs [],
          map (\<lambda>(name, value). \<lparr>ckHost = sBaseHost s, ckScheme = sBaseScheme s, ckName = name, ckValue = value\<rparr>) cs))"

definition login_result :: "auth_env \<Rightarrow> LoginResult act" where
  "login_result env =
     andThen (onlineInfo env) (\<lambda>username.
       ask (\<lambda>s. let (sid, cookies) = sessionCookies env s
                in \<lparr>resUsername = username, resSID = sid, resCookies = cookies\<rparr>))"

definition device_env :: "auth_env \<Rightarrow> string \<Rightarrow> string" where
  "device_env env deviceID =
     base64 (aeCrypto env) (ascii_bytes (''{'' @ quoted ''deviceId'' @ '':'' @ quoted deviceID @ ''}''))"

definition begin_login :: "auth_env \<Rightarrow> LoginOptions \<Rightarrow> session \<Rightarrow> session" where
  "begin_login env opts s =
     s\<lparr>sJar := sJar s @ opCookies opts, sDeviceID := opDeviceID opts, sTOTPSecret := opTOTPSecret opts,
       sEnv := device_env env (opDeviceID opts)\<rparr>"

definition Login :: "auth_env \<Rightarrow> LoginMethod option \<Rightarrow> LoginOptions \<Rightarrow> LoginResult act" where
  "Login env method opts =
     andThen (modify (begin_login env opts)) (\<lambda>_.
     andThen (authConfig env False True) (\<lambda>(isLogin, infos).
       if isLogin = 1 then login_result env
       else (case method of
               None \<Rightarrow> fail (AuthFailed ''login method is nil, but user is not logged in'')
             | Some m \<Rightarrow>
                 (case find (\<lambda>x. aiAuthType x = AuthType m \<and> aiLoginDomain x = LoginDomain m) infos of
                    None \<Rightarrow> fail (AuthFailed ''auth type/login domain combination not found'')
                  | Some info \<Rightarrow>
                      andThen (login_with env m info) (\<lambda>_.
                      andThen (reportEnv env) (\<lambda>_.
                      andThen (ask sNextService) (\<lambda>service.
                      andThen (continueAuth env \<lparr>stService = (if service = [] then ''auth/authCheck'' else service),
                          stAuthID = [], stSMSMode = smsModeUnknown\<rparr>) (\<lambda>_.
                      login_result env))))))))"


section \<open>Restoring, refreshing and trusting\<close>

definition Restore :: "auth_env \<Rightarrow> string \<Rightarrow> string \<Rightarrow> Cookie list \<Rightarrow> session \<Rightarrow> session" where
  "Restore env deviceID sid cookies s =
     s\<lparr>sDeviceID := deviceID,
       sEnv := base64 (aeCrypto env) (ascii_bytes (aeMarshal env (JObject [(''deviceId'', JString deviceID)]))),
       sJar := sJar s @ cookies @ (if sid \<noteq> [] then
         [\<lparr>ckHost = sBaseHost s, ckScheme = sBaseScheme s, ckName = ''sid'', ckValue = sid\<rparr>] else [])\<rparr>"

definition Snapshot :: "auth_env \<Rightarrow> LoginResult act" where
  "Snapshot env s =
     (let (sid, cookies) = sessionCookies env s
      in if sid = [] then (Inl ErrSessionInvalid, s)
         else (Inr \<lparr>resUsername = [], resSID = sid, resCookies = cookies\<rparr>, s))"

definition Refresh :: "auth_env \<Rightarrow> (auth_request list \<Rightarrow> string option) \<Rightarrow> LoginResult act" where
  "Refresh env ctxErr = andThen (authConfigContext env ctxErr False False True) (\<lambda>_. Snapshot env)"

definition QueryDevice :: "auth_env \<Rightarrow> (string \<Rightarrow> string + int \<times> QueryDeviceResult) \<Rightarrow> QueryDeviceResult act" where
  "QueryDevice env parse =
     andThen (send_request env (\<lambda>s. (get_request env ''/passport/v1/security/queryDevice''
         (WithSharedParams [(''status'', [''trust''])]) s)\<lparr>aqHeaders := json_headers env s\<rparr>)) (\<lambda>resp.
     andThen (lifted AuthJSON (parse (rpBody resp))) (\<lambda>(code, d).
       if code \<noteq> 0 then fail (AuthCode ''queryDevice'' code []) else ret d))"

definition device_list_request :: "auth_env \<Rightarrow> string \<Rightarrow> string list \<Rightarrow> unit act" where
  "device_list_request env name ids =
     andThen (send_request env (post_json env (''/passport/v1/security/'' @ name) (WithSharedParams [])
         (\<lambda>_. JObject [(''idList'', JArray (map JString ids))])))
       (\<lambda>resp. andThen (code_reply_ok env False name (\<lambda>c. c = 0) resp) (\<lambda>_. ret ()))"

definition TrustDevice :: "auth_env \<Rightarrow> string list \<Rightarrow> unit act" where
  "TrustDevice env = device_list_request env ''trustDevice''"

definition UntrustDevice :: "auth_env \<Rightarrow> string list \<Rightarrow> unit act" where
  "UntrustDevice env = device_list_request env ''untrustDevice''"

text \<open>\<open>SetTrusted\<close> after its session was made.\<close>

definition SetTrusted ::
  "auth_env \<Rightarrow> (string \<Rightarrow> string + int \<times> QueryDeviceResult) \<Rightarrow> string \<Rightarrow> Cookie list \<Rightarrow> bool \<Rightarrow> unit act" where
  "SetTrusted env parse deviceID cookies trusted =
     andThen (Login env None \<lparr>opDeviceID = deviceID, opCookies = cookies, opTOTPSecret = []\<rparr>) (\<lambda>_.
     andThen (QueryDevice env parse) (\<lambda>d.
       if trusted then (if DeviceTrusted d then ret () else TrustDevice env [SelfID d])
       else (if \<not> DeviceTrusted d then ret () else UntrustDevice env [SelfID d])))"

end
