(* ===== verification/AtrustLogin.thy ===== *)
theory AtrustLogin
  imports AtrustAuth
begin

text \<open>
  What the aTrust login guarantees. An action \<open>costs\<close> at most so many requests, and an action that names the
  next step takes it from a reply of the server: both are small calculi over \<open>andThen\<close>, and the bound on
  the requests of a login and its success only on the server's word follow from them. Encrypting a long
  secret in pieces can be undone.
\<close>

section \<open>How many requests an action sends\<close>

abbreviation sends :: "'a act \<Rightarrow> nat \<Rightarrow> bool" where
  "sends \<equiv> costs asked"

interpretation auth: request_log asked send_request
  by unfold_locales (auto simp: send_request_def Let_def split: sum.split)

declare auth.costs_send [costs_rules]

lemma costs_nonce [costs_rules]: "sends (new_nonce env) 0"
  by (auto simp: costs_def new_nonce_def split: option.split prod.split)

lemma costs_read [costs_rules]: "sends (read_all r) 0" "sends (read_body strict r) 0"
  by (auto simp: read_all_def read_body_def costs_basic split: option.split)

lemma reply_costs [costs_rules]:
  "sends (step_reply env strict name resp) 0"
  "sends (code_reply_ok env strict name accepted resp) 0"
  "sends (login_reply_ok env name needs resp) 0"
  "sends (handle_code env ch) 0"
  unfolding step_reply_def code_reply_ok_def login_reply_ok_def handle_code_def
  by (rule costs_weaken, (rule costs_rules)+, simp)+

lemma authConfig_costs [costs_rules]:
  "sends (performAntiMITMRequest env d csrf) 1"
  "sends (checkAntiMITMAuthConfig env resp d csrf) 1"
  "sends (authConfigContext env ctxErr modified needTicket refresh) 2"
  "sends (authConfig env modified needTicket) 2"
proof -
  show 1: "sends (performAntiMITMRequest env d csrf) 1" for d csrf
    unfolding performAntiMITMRequest_def Let_def by (rule costs_weaken, (rule costs_rules)+, simp)
  show 2: "sends (checkAntiMITMAuthConfig env resp d csrf) 1" for resp d csrf
    unfolding checkAntiMITMAuthConfig_def by (rule costs_weaken, (rule costs_rules 1)+, simp)
  show 3: "sends (authConfigContext env ctxErr modified needTicket refresh) 2" for ctxErr refresh
    unfolding authConfigContext_def Let_def
    by (rule costs_weaken, (rule costs_rules 2 | simp (no_asm))+)
  show "sends (authConfig env modified needTicket) 2" unfolding authConfig_def by (rule 3)
qed

lemma state_costs [costs_rules]:
  "sends (encrypted_text env text) 0" "sends (totp_answer env) 0"
  by (auto simp: costs_def encrypted_text_def totp_answer_def andThen_def lifted_def fail_def ret_def
      handle_code_def ask_def split: option.split sum.split)

lemmas request_defs = authCheck_def accessCheck_def reportEnv_def onlineInfo_def checkCode_def parsePhoneNumbers_def
  phoneNumber_def authSms_def custom_sms_request_def sendCustomSMS_def customSMSCheckCode_def
  completeCustomSMS_def submitTokenAt_def requestAuthStep_def completeEnhancedAuth_def bindAuthDevice_def Let_def
  completeTOTP_def completeRadius_def

lemma request_costs [costs_rules]:
  "sends (authCheck env) 1" "sends (accessCheck env) 1" "sends (reportEnv env) 1" "sends (onlineInfo env) 1"
  "sends (checkCode env) 1" "sends (phoneNumber env authID) 1" "sends (authSms env step) 1"
  "sends (completeCustomSMS env) 2" "sends (completeTOTP env) 1" "sends (completeRadius env service) 1"
  "sends (completeEnhancedAuth env step) 1" "sends (bindAuthDevice env step) 1"
  unfolding request_defs by (rule costs_weaken, (rule costs_rules)+, simp)+

lemma completeSMS_costs [costs_rules]: "sends (completeSMS env step) 5"
proof (cases "stSMSMode step")
  case smsModeUnknown
  then have "completeSMS env step = fail (AuthFailed ''unknown SMS authentication mode'')"
    by (simp add: completeSMS_def andThen_def fail_def fun_eq_iff)
  then show ?thesis by (auto intro: costs_weaken costs_basic)
next
  case smsWithoutAuthID
  then show ?thesis unfolding completeSMS_def smsCheckCode_def secondarySMSCheckCodeImpl_def Let_def
    by simp (rule costs_weaken, (rule costs_rules)+, simp)
next
  case smsWithAuthID
  then show ?thesis unfolding completeSMS_def smsCheckCode_def secondarySMSCheckCodeImpl_def Let_def
    by simp (rule costs_weaken, (rule costs_rules)+, simp)
qed

lemma service_costs [costs_rules]: "sends (auth_service env step) 5"
  unfolding auth_service_def Let_def by (rule costs_weaken, (rule costs_rules)+, simp)

lemma chain_costs: "sends (auth_chain env n step) (5 * n)"
proof (induction n arbitrary: step)
  case (Suc n)
  show ?case unfolding auth_chain.simps
    by (rule costs_weaken, (rule costs_rules Suc.IH)+, simp)
qed (simp add: costs_basic)

lemma captcha_costs:
  assumes "\<And>code. sends (process code) 1"
  shows "sends (captcha_loop env process out n g) (4 * n)"
proof (induction n arbitrary: g)
  case 0
  show ?case unfolding captcha_loop.simps by (rule costs_weaken, (rule costs_rules)+, simp)
next
  case (Suc n)
  show ?case unfolding captcha_loop.simps graphCheckCodeFromResponse_def decodeImageSize_def
      marshalGraphCheckCode_def Let_def
    by (rule costs_weaken, (rule costs_rules assms Suc.IH)+, simp)
qed

lemma withGraphCheckCode_costs:
  assumes "\<And>code. sends (process code) 1"
  shows "sends (withGraphCheckCode env process out) 21"
  unfolding withGraphCheckCode_def
  by (rule costs_weaken, (rule costs_andThen assms captcha_costs)+, simp add: maxAttempts_def)

lemma process_costs:
  "sends (pswImpl env user password domain code) 1" "sends (sendSms env phone domain code) 1"
  "sends (smsCheckCodeImpl env sms phone domain code) 1"
  unfolding pswImpl_def sendSms_def smsCheckCodeImpl_def
  by ((rule costs_weaken, (rule costs_rules | simp (no_asm))+)[1])+

lemma callback_costs [costs_rules]:
  "sends (visit_callback env callback) 1" "sends (interactive_callback env kind url path secret) 0"
proof -
  have "sends (\<lambda>s. parsePortalTicketFromRedirect env loc (sBaseHost s) (sBaseScheme s) s) 0" for loc
    by (auto simp: costs_def parsePortalTicketFromRedirect_def andThen_def lifted_def fail_def ret_def Let_def
        split: sum.split)
  note costs_redirect = this
  show "sends (visit_callback env callback) 1"
    unfolding visit_callback_def Let_def
    by (rule costs_weaken, (rule costs_rules costs_redirect | simp (no_asm))+)
  show "sends (interactive_callback env kind url path secret) 0"
    unfolding interactive_callback_def by (rule costs_weaken, (rule costs_rules)+, simp)
qed

lemma method_costs [costs_rules]: "sends (login_with env m info) 42"
proof (cases m)
  case PasswordLogin
  then show ?thesis using costs_weaken [OF withGraphCheckCode_costs [OF process_costs(1)]] by simp
next
  case CASLogin
  show ?thesis unfolding CASLogin login_with.simps loginAuthCas_def interactiveCas_def
    by (rule costs_weaken, (rule costs_rules)+, simp)
next
  case HTTPSOauth2Login
  show ?thesis unfolding HTTPSOauth2Login login_with.simps loginAuthHttpsOauth2_def interactiveHttpsOauth2_def
    by (rule costs_weaken, (rule costs_rules)+, simp)
next
  case SMSLogin
  show ?thesis unfolding SMSLogin login_with.simps loginAuthSmsCheckCode_def
    by (rule costs_weaken, (rule costs_rules withGraphCheckCode_costs process_costs | simp (no_asm))+)
qed



section \<open>What a successful login was told\<close>

text \<open>The reply to the last of these requests named this step.\<close>

definition named_by :: "auth_env \<Rightarrow> auth_request list \<Rightarrow> authStep \<Rightarrow> bool" where
  "named_by env h st \<longleftrightarrow> (\<exists>reply re. aeDo env h = Inr reply \<and> aeStep env (rpBody reply) = Inr re
     \<and> trCode re = 0 \<and> st = authStepFromData (trData re))"

definition names_step :: "auth_env \<Rightarrow> authStep act \<Rightarrow> bool" where
  "names_step env m \<longleftrightarrow> (\<forall>s st s'. m s = (Inr st, s') \<longrightarrow> named_by env (asked s') st)"

named_theorems names_rules \<open>rules for actions whose result the server named\<close>

lemma send_Inr:
  "send_request env q s = (Inr resp, s') \<longleftrightarrow>
     aeDo env (asked s @ [q s]) = Inr resp \<and> s' = s\<lparr>asked := asked s @ [q s]\<rparr>"
  by (auto simp: send_request_def Let_def split: sum.splits)

lemma read_Inr: "read_body strict resp s = (Inr body, s') \<Longrightarrow> body = rpBody resp \<and> s' = s"
  by (auto simp: read_body_def read_all_def split: if_splits option.splits)

lemma names_request [names_rules]:
  "names_step env (andThen (send_request env q) (step_reply env strict name))"
  unfolding names_step_def named_by_def step_reply_def
  by (auto simp: andThen_Inr send_Inr dest!: read_Inr split: if_splits)

lemma names_andThen [names_rules]: "(\<And>x. names_step env (f x)) \<Longrightarrow> names_step env (andThen m f)"
  by (auto simp: names_step_def andThen_Inr)

lemma names_cases [names_rules]:
  "names_step env (fail e)"
  "names_step env x \<Longrightarrow> names_step env y \<Longrightarrow> names_step env (if c then x else y)"
  "names_step env u1 \<Longrightarrow> names_step env u2 \<Longrightarrow> names_step env u3 \<Longrightarrow>
   names_step env (case mode of smsModeUnknown \<Rightarrow> u1 | smsWithoutAuthID \<Rightarrow> u2 | smsWithAuthID \<Rightarrow> u3)"
  by (auto simp: names_step_def split: smsMode.split)

lemma service_names: "names_step env (auth_service env step)"
  unfolding auth_service_def Let_def authCheck_def accessCheck_def completeSMS_def smsCheckCode_def
    secondarySMSCheckCodeImpl_def completeCustomSMS_def customSMSCheckCode_def custom_sms_request_def
    completeTOTP_def completeRadius_def submitTokenAt_def completeEnhancedAuth_def bindAuthDevice_def
    requestAuthStep_def
  by (rule names_rules)+

lemma chain_ends_named:
  assumes "auth_chain env n step s = (Inr (), s')" "stService step \<noteq> []"
  shows "\<exists>st. named_by env (asked s') st \<and> stService st = []"
  using assms
proof (induction n arbitrary: step s)
  case 0
  then show ?case by simp
next
  case (Suc n)
  then obtain st s1 where st: "auth_service env step s = (Inr st, s1)" "auth_chain env n st s1 = (Inr (), s')"
    by (auto simp: andThen_Inr)
  have "named_by env (asked s1) st" using st(1) service_names [of env step] by (simp add: names_step_def)
  show ?case
  proof (cases "stService st = []")
    case True
    then have "s' = s1" using st(2) by (cases n) simp_all
    then show ?thesis using True \<open>named_by env (asked s1) st\<close> by blast
  next
    case False
    then show ?thesis using Suc.IH st(2) by blast
  qed
qed

lemma authConfig_Inr:
  assumes "authConfig env modified needTicket s = (Inr (n, infos), s')"
  obtains q reply re where "aeDo env (asked s @ [q]) = Inr reply" "aeConfig env (rpBody reply) = Inr re"
    "n = (case cfIsLogin re of Some k \<Rightarrow> k | None \<Rightarrow> 0)" "infos = cfAuthServers re"
proof -
  have read: "body = rpBody resp" if "read_all resp s1 = (Inr body, s2)" for resp body s1 s2
    using that by (auto simp: read_all_def split: option.splits)
  obtain q reply body re where *: "aeDo env (asked s @ [q]) = Inr reply" "body = rpBody reply"
    "aeConfig env body = Inr re" "n = (case cfIsLogin re of Some k \<Rightarrow> k | None \<Rightarrow> 0)" "infos = cfAuthServers re"
    using assms unfolding authConfig_def authConfigContext_def Let_def
    by (auto simp: andThen_Inr send_Inr dest!: read split: if_splits)
  then show thesis using that by blast
qed

lemma login_result_Inr:
  assumes "login_result env s = (Inr r, s')"
  obtains q reply re where "asked s' = asked s @ [q]" "aeDo env (asked s @ [q]) = Inr reply"
    "aeReply env (rpBody reply) = Inr re" "crCode re = 0" "resUsername r = crUsername re"
    "(resSID r, resCookies r) = sessionCookies env s'"
proof -
  obtain q reply re where *: "asked s' = asked s @ [q]" "aeDo env (asked s @ [q]) = Inr reply"
    "aeReply env (rpBody reply) = Inr re" "crCode re = 0" "resUsername r = crUsername re"
    "(resSID r, resCookies r) = sessionCookies env s'"
    using assms unfolding login_result_def onlineInfo_def code_reply_ok_def Let_def
    by (auto simp: andThen_Inr send_Inr dest!: read_Inr split: if_splits prod.splits)
  then show thesis by (rule that)
qed



section \<open>Long secrets are encrypted in pieces\<close>

text \<open>The pieces the server takes a ciphertext apart into.\<close>

function blocks :: "nat \<Rightarrow> bytes \<Rightarrow> bytes list" where
  "blocks n xs = (if xs = [] \<or> n = 0 then [] else take n xs # blocks n (drop n xs))"
  by pat_completeness auto
termination
  by (relation "measure (\<lambda>(n, xs). length xs)") auto

declare blocks.simps [simp del]

lemma blocks_append: "length xs = n \<Longrightarrow> 0 < n \<Longrightarrow> blocks n (xs @ ys) = xs # blocks n ys"
  by (subst blocks.simps) auto

lemma encrypt_chunks_undone:
  assumes "\<forall>i m c. enc i m = Inr c \<longrightarrow> length c = n \<and> undo c = m" "0 < most" "0 < n"
  shows "encrypt_chunks enc most acc msg = Inr out \<Longrightarrow>
    \<exists>ct. out = acc @ ct \<and> concat (map undo (blocks n ct)) = msg"
proof (induction "length msg" arbitrary: acc msg rule: less_induct)
  case less
  show ?case
  proof (cases "msg = []")
    case True
    then have "out = acc" using less.prems by (simp add: encrypt_chunks.simps)
    then show ?thesis using True by (simp add: blocks.simps)
  next
    case False
    then obtain c where c: "enc (length acc) (take most msg) = Inr c"
      "encrypt_chunks enc most (acc @ c) (drop most msg) = Inr out"
      using less.prems assms(2) by (subst (asm) encrypt_chunks.simps) (auto split: sum.splits)
    have len: "length c = n" "undo c = take most msg" using assms(1) c(1) by blast+
    obtain ct where "out = (acc @ c) @ ct" "concat (map undo (blocks n ct)) = drop most msg"
      using less.hyps [OF _ c(2)] False assms(2) by auto
    then show ?thesis using len blocks_append [OF len(1) assms(3)] by (intro exI [of _ "c @ ct"]) simp
  qed
qed

lemma encrypt_chunks_succeeds:
  assumes "\<forall>i m. length m \<le> most \<longrightarrow> (\<exists>c. enc i m = Inr c)" "0 < most"
  shows "\<exists>out. encrypt_chunks enc most acc msg = Inr out"
proof (induction "length msg" arbitrary: acc msg rule: less_induct)
  case less
  obtain c where c: "enc (length acc) (take most msg) = Inr c"
    using assms(1) [rule_format, of "take most msg" "length acc"] by auto
  show ?case
  proof (cases "msg = []")
    case True
    then show ?thesis by (simp add: encrypt_chunks.simps)
  next
    case False
    then show ?thesis using less.hyps [of "drop most msg" "acc @ c"] c assms(2)
      by (subst encrypt_chunks.simps) simp
  qed
qed

text \<open>
  Passwords and challenge answers of any length survive the encryption in pieces. With a cipher that
  takes every message of at most the key size less 11 bytes, gives blocks of the key size, and can be
  undone, the encryption succeeds, and taking the ciphertext apart into blocks and undoing each gives the
  message back.
\<close>

lemma long_secret_roundtrip:
  assumes "\<forall>i m c. enc i m = Inr c \<longrightarrow> length c = keySize \<and> undo c = m"
    and "\<forall>i m. length m \<le> keySize - 11 \<longrightarrow> (\<exists>c. enc i m = Inr c)" "11 < keySize"
  shows "\<exists>ct. encryptPKCS1v15Chunks enc keySize msg = Inr ct \<and> concat (map undo (blocks keySize ct)) = msg"
proof -
  have most: "0 < keySize - 11" "0 < keySize" using assms(3) by simp_all
  obtain ct where ct: "encrypt_chunks enc (keySize - 11) [] msg = Inr ct"
    using encrypt_chunks_succeeds [OF assms(2) most(1)] by blast
  then have "concat (map undo (blocks keySize ct)) = msg"
    using encrypt_chunks_undone [OF assms(1) most] by fastforce
  then show ?thesis using ct assms(3) by (simp add: encryptPKCS1v15Chunks_def)
qed

text \<open>A cipher in the manner of the PKCS padding: zeros, a one, the message.\<close>

definition pad_cipher :: "nat \<Rightarrow> nat \<Rightarrow> bytes \<Rightarrow> string + bytes" where
  "pad_cipher k i m =
     (if length m + 11 \<le> k then Inr (replicate (k - length m - 1) 0 @ 1 # m) else Inl ''message too long'')"

definition unpad :: "bytes \<Rightarrow> bytes" where
  "unpad c = tl (dropWhile (\<lambda>b. b = 0) c)"

lemma pad_cipher_ok:
  "\<forall>i m c. pad_cipher 16 i m = Inr c \<longrightarrow> length c = 16 \<and> unpad c = m"
  "\<forall>i m. length m \<le> 16 - 11 \<longrightarrow> (\<exists>c. pad_cipher 16 i m = Inr c)"
proof -
  have z: "dropWhile (\<lambda>b. b = 0) (replicate j 0 @ 1 # m) = 1 # m" for j and m :: bytes
    by (induction j) auto
  show "\<forall>i m c. pad_cipher 16 i m = Inr c \<longrightarrow> length c = 16 \<and> unpad c = m"
    by (auto simp: pad_cipher_def unpad_def z split: if_splits)
qed (simp add: pad_cipher_def)

lemma long_secret_roundtrip_example:
  "\<exists>ct. encryptPKCS1v15Chunks (pad_cipher 16) 16 (ascii_bytes ''password_12345'') = Inr ct
     \<and> concat (map unpad (blocks 16 ct)) = ascii_bytes ''password_12345''"
  using long_secret_roundtrip [OF pad_cipher_ok] by simp


text \<open>The counter is checked before the service name: an eighth step that succeeds and ends the chain is refused.\<close>

lemma eighth_step_refused:
  assumes "stService step \<noteq> []"
  shows "fst (auth_chain env 1 step s) \<noteq> Inr ()"
  using assms by (auto simp: andThen_def fail_def numeral_nat split: sum.splits prod.splits)

section \<open>A login run\<close>

definition demo_auth_reply :: "int \<Rightarrow> auth_reply" where
  "demo_auth_reply c =
     \<lparr>rpStatus = c, rpBody = [], rpReadError = None, rpHeaders = [(''Location'', ''r'')], rpTLS = None\<rparr>"

text \<open>A server that accepts a CAS ticket with its second reply and asks for nothing more.\<close>

definition demo_config :: config_reply where
  "demo_config =
     \<lparr>cfCode = Some 0, cfAuthServers = [\<lparr>aiLoginDomain = ''d'', aiAuthType = ''auth/cas'', aiAuthName = [], aiLoginURL = []\<rparr>],
      cfIsLogin = Some 0, cfCSRF = ''x'', cfSecurityCSRF = [], cfPubKey = [], cfPubKeyExp = [], cfAntiReplayRand = [],
      cfAntiMITM = sample_data\<rparr>"

definition demo_auth_env :: auth_env where
  "demo_auth_env =
     \<lparr>aeDo = (\<lambda>h. Inr (demo_auth_reply (if length h = 2 then 302 else 200))),
      aeCookies = (\<lambda>_ _. [(''sid'', ''abc'')]), aeCode = (\<lambda>_ _. Inl []), aeClick = (\<lambda>_ _ _. Inl []),
      aeExternal = (\<lambda>_ _ _. Inl []), aeTrace = (\<lambda>_. []), aeMillis = (\<lambda>_. 0), aeSeconds = (\<lambda>_. 0),
      aeTOTP = (\<lambda>_ _. Inl []), aeModulus = (\<lambda>_. None), aeKeySize = (\<lambda>_. 0), aeEncrypt = (\<lambda>_ _ _ _ _. Inl []),
      aeImageConfig = (\<lambda>_. Inl []), aeMarshal = (\<lambda>_. []),
      aeParseURL = (\<lambda>_. Inr \<lparr>uScheme = ''https'', uHost = ''vpn'', uPath = ''/portal/shortcut.html'', uQuery = [(''data'', ''t'')]\<rparr>),
      aeEncodeParams = (\<lambda>_. []), aeConfig = (\<lambda>_. Inr demo_config),
      aeStep = (\<lambda>_. Inr \<lparr>trCode = 0, trMessage = [], trData = \<lparr>sdNextService = [], sdNextServiceList = []\<rparr>\<rparr>),
      aeLogin = (\<lambda>_. Inl []), aeReply = (\<lambda>_. Inr \<lparr>crCode = 0, crMessage = [], crUsername = ''user''\<rparr>),
      aePhone = (\<lambda>_. Inl []), aePhoneList = (\<lambda>_. Inl []), aePhoneText = (\<lambda>_. Inl []), aeMitm = (\<lambda>_. Inl []),
      aeTicket = Inr, aeCrypto = sample_crypto\<rparr>"

definition demo_session :: session where
  "demo_session = NewSessionWithScheme demo_auth_env ''vpn'' []"

definition demo_login :: "(auth_error + LoginResult) \<times> session" where
  "demo_login =
     Login demo_auth_env (Some (CASLogin ''d'' ''ST'')) \<lparr>opDeviceID = ''dev'', opCookies = [], opTOTPSecret = []\<rparr> demo_session"

lemma demo_login_ok: "fst demo_login = Inr \<lparr>resUsername = ''user'', resSID = ''abc'', resCookies =
    [\<lparr>ckHost = ''vpn'', ckScheme = ''https'', ckName = ''sid'', ckValue = ''abc''\<rparr>]\<rparr> \<and> length (asked (snd demo_login)) = 6"
  by code_simp


end
