(* ===== verification/EasyConnectClient.thy ===== *)
theory EasyConnectClient
  imports EasyConnectTunnel EasyConnectParse Action
begin

text \<open>
  The EasyConnect client's login and set-up (\<open>client/easyconnect/request.go\<close> and \<open>client.go\<close>): the values
  picked from a reply by regular expressions, the password login with its captcha, the SMS, TOTP and
  certificate steps, the configuration, resource and keep-alive requests, and \<open>Setup\<close> with the change of
  line. The client logs the requests it tries to send. The HTTP client, RSA, certificates, XML, the user and
  the tunnel network are functions of that log. A panic is an error of its own.
\<close>

section \<open>Values in a reply\<close>

text \<open>\<open>FindSubmatch\<close> of the pattern that puts \<open>(.*)\<close> between two tags: the leftmost match, its group as long
  as possible, without a newline.\<close>

fun greedy_group :: "string \<Rightarrow> string \<Rightarrow> string option" where
  "greedy_group close [] = (if close = [] then Some [] else None)"
| "greedy_group close (c # cs) =
     (case (if c = CHR 0x0A then None else greedy_group close cs) of
        Some x \<Rightarrow> Some (c # x)
      | None \<Rightarrow> if has_prefix (c # cs) close then Some [] else None)"

fun find_group :: "string \<Rightarrow> string \<Rightarrow> string \<Rightarrow> string option" where
  "find_group start close [] = (if start = [] then greedy_group close [] else None)"
| "find_group start close (c # cs) =
     (case (if has_prefix (c # cs) start then greedy_group close (drop (length start) (c # cs)) else None) of
        Some x \<Rightarrow> Some x
      | None \<Rightarrow> find_group start close cs)"

definition element_text :: "string \<Rightarrow> string \<Rightarrow> string option" where
  "element_text body tag = find_group (''<'' @ tag @ ''>'') (''</'' @ tag @ ''>'') body"


section \<open>The client\<close>

datatype web_error =
    WebHTTP string
  | WebStatus int
  | WebRead string
  | WebMissing string
  | WebEncrypt string
  | WebChallenge string
  | WebEmptyCaptcha
  | errSMSRequired
  | errTOTPRequired
  | errCertRequired
  | errNotFound
  | WebNotImplemented string
  | WebLoginFailed string
  | WebUnexpected string string
  | WebXML string
  | WebTunnel ec_error
  | WebSetup string
  | WebPanic

record web_request =
  wqMethod :: string
  wqURL :: string
  wqQuery :: "(string \<times> string) list"
  wqHeaders :: "(string \<times> string) list"
  wqForm :: "(string \<times> string) list option"

record web_reply =
  wpStatus :: int
  wpBody :: string
  wpReadError :: "string option"

text \<open>RSA takes the modulus and the exponent as the server sent them and gives an error for what
  \<open>big.Int\<close>, \<open>strconv\<close> or the cipher refuse. The reply to a session update is its message and code.\<close>

record 'e web_env =
  weDo :: "web_request list \<Rightarrow> string + web_reply"
  weCode :: "web_request list \<Rightarrow> string \<Rightarrow> string + string"
  weCaptcha :: "web_request list \<Rightarrow> string \<Rightarrow> string \<Rightarrow> string + string"
  weTOTP :: "web_request list \<Rightarrow> string \<Rightarrow> string + string"
  weEncrypt :: "web_request list \<Rightarrow> string \<Rightarrow> string \<Rightarrow> bytes \<Rightarrow> string + bytes"
  wePEM :: "string \<Rightarrow> bool"
  weReply :: "string \<Rightarrow> string + string \<times> string"
  weXML :: "'e xml_env"
  weNet :: "web_request list \<Rightarrow> ec_env"
  weProbe :: "web_request list \<Rightarrow> string \<Rightarrow> int \<Rightarrow> ping_result"

text \<open>\<open>Client\<close>, with the part the tunnels use and the resource policy as components.\<close>

record web_client =
  wcServer :: string
  wcScheme :: string
  wcUsername :: string
  wcPassword :: string
  wcTOTPSecret :: string
  wcCertificate :: bool
  wcMultiLine :: bool
  wcParse :: bool
  wcUseDomain :: bool
  wcHasDialer :: bool
  wcGraphFile :: string
  wcRootCA :: "string option"
  wcTunnel :: ec_client
  wcPolicy :: ec_policy
  wcLines :: "string list"
  wcKeepAlive :: bool
  wcSent :: "web_request list"

type_synonym 'a web = "(web_client, web_error, 'a) action"

abbreviation twfID :: "web_client \<Rightarrow> string" where
  "twfID s \<equiv> ecTwfID (wcTunnel s)"

definition set_twfID :: "string \<Rightarrow> web_client \<Rightarrow> web_client" where
  "set_twfID t s = s\<lparr>wcTunnel := (wcTunnel s)\<lparr>ecTwfID := t\<rparr>\<rparr>"

record ec_options =
  oServer :: string
  oScheme :: string
  oUsername :: string
  oPassword :: string
  oTOTPSecret :: string
  oCertificate :: bool
  oSessionID :: string
  oMultiLine :: bool
  oParse :: bool
  oUseDomain :: bool
  oHasDialer :: bool
  oGraphFile :: string

definition NewClient :: "ec_options \<Rightarrow> web_client" where
  "NewClient x =
     (let scheme = to_lower (oScheme x)
      in \<lparr>wcServer = oServer x, wcScheme = (if scheme = [] then ''https'' else scheme), wcUsername = oUsername x,
          wcPassword = oPassword x, wcTOTPSecret = oTOTPSecret x, wcCertificate = oCertificate x,
          wcMultiLine = oMultiLine x, wcParse = oParse x, wcUseDomain = oUseDomain x, wcHasDialer = oHasDialer x,
          wcGraphFile = oGraphFile x, wcRootCA = None,
          wcTunnel = \<lparr>ecTwfID = oSessionID x, ecTimeout = easyConnectRawRequestTimeout, ecToken = None, ecIP = [],
            ecIPReverse = [], ecRequestIPConn = None, ecExcluded = [], ecDropped = [], ecEnded = False\<rparr>,
          wcPolicy = \<lparr>tcpTunnelOnly = False, ecIPResources = [], ecDomainResources = [], ecDNSResource = [],
            ecSetCalls = [], ecDNSServer = [], ecDNSServers = []\<rparr>,
          wcLines = [], wcKeepAlive = False, wcSent = []\<rparr>)"

definition serverURL :: "web_client \<Rightarrow> string \<Rightarrow> string" where
  "serverURL s path = wcScheme s @ ''://'' @ wcServer s @ path"

text \<open>\<open>httpClient.Do\<close>, and reading the whole body.\<close>

definition web_send :: "'e web_env \<Rightarrow> (web_client \<Rightarrow> web_request) \<Rightarrow> web_reply web" where
  "web_send env q s =
     (let h = wcSent s @ [q s]; s' = s\<lparr>wcSent := h\<rparr>
      in case weDo env h of Inl e \<Rightarrow> (Inl (WebHTTP e), s') | Inr r \<Rightarrow> (Inr r, s'))"

definition web_read :: "web_reply \<Rightarrow> string web" where
  "web_read r = (case wpReadError r of Some e \<Rightarrow> fail (WebRead e) | None \<Rightarrow> ret (wpBody r))"

definition cookie :: "web_client \<Rightarrow> string \<times> string" where
  "cookie s = (''Cookie'', ''TWFID='' @ twfID s)"

definition windows_agent :: "string \<times> string" where
  "windows_agent = (''User-Agent'', ''EasyConnect_windows'')"

definition post_form ::
  "'e web_env \<Rightarrow> string \<Rightarrow> (string \<times> string) list option \<Rightarrow> string web" where
  "post_form env path form =
     andThen (web_send env (\<lambda>s. \<lparr>wqMethod = ''POST'', wqURL = serverURL s path, wqQuery = [],
       wqHeaders = [cookie s, windows_agent], wqForm = form\<rparr>)) web_read"


section \<open>Logging in\<close>

definition requiredXMLValue :: "string \<Rightarrow> string \<Rightarrow> web_error + string" where
  "requiredXMLValue body tag =
     (case element_text body tag of
        None \<Rightarrow> Inl (WebMissing tag)
      | Some x \<Rightarrow> if x = [] then Inl (WebMissing tag) else Inr x)"

text \<open>The update of the session id after a successful step. An empty element is taken.\<close>

definition update_twfID :: "string \<Rightarrow> web_client \<Rightarrow> web_client" where
  "update_twfID body s = (case element_text body ''TwfID'' of Some t \<Rightarrow> set_twfID t s | None \<Rightarrow> s)"

definition request_captcha :: "'e web_env \<Rightarrow> string web" where
  "request_captcha env =
     andThen (web_send env (\<lambda>s. \<lparr>wqMethod = ''GET'', wqURL = serverURL s ''/por/rand_code.csp?apiversion=1'',
       wqQuery = [], wqHeaders = [cookie s, windows_agent], wqForm = None\<rparr>)) (\<lambda>resp.
     andThen (web_read resp) (\<lambda>image.
     andThen (andThen (ask (\<lambda>s. weCaptcha env (wcSent s) image (wcGraphFile s))) (lifted WebChallenge)) (\<lambda>code.
       if trim_space code = [] then fail WebEmptyCaptcha else ret code)))"

text \<open>What the password reply asks for, in the order of the code's tests.\<close>

definition psw_verdict :: "string \<Rightarrow> web_error option" where
  "psw_verdict body =
     (if has_sub body ''<NextService>auth/sms</NextService>'' \<or> has_sub body ''<NextAuth>2</NextAuth>''
      then Some errSMSRequired
      else if has_sub body ''<NextService>auth/token</NextService>'' \<or> has_sub body ''<NextAuth>7</NextAuth>''
      then Some errTOTPRequired
      else if has_sub body ''<NextAuth>0</NextAuth>'' then Some errCertRequired
      else if \<not> has_sub body ''<NextAuth>-1</NextAuth>'' \<and> has_sub body ''<NextAuth>''
      then Some (WebNotImplemented body)
      else if \<not> has_sub body ''<Result>1</Result>'' then Some (WebLoginFailed body)
      else None)"

definition encrypted_password :: "'e web_env \<Rightarrow> string \<Rightarrow> string \<Rightarrow> string web" where
  "encrypted_password env rsaKey body =
     (let rsaExp = (case element_text body ''RSA_ENCRYPT_EXP'' of Some e \<Rightarrow> e | None \<Rightarrow> ''65537'')
      in andThen (ask (\<lambda>s.
           let password = (case element_text body ''CSRF_RAND_CODE'' of
                             Some csrf \<Rightarrow> wcPassword s @ ''_'' @ csrf
                           | None \<Rightarrow> wcPassword s)
           in weEncrypt env (wcSent s) rsaKey rsaExp (ascii_bytes password))) (\<lambda>r.
         andThen (lifted WebEncrypt r) (\<lambda>c. ret (hex_encode c))))"

definition psw_form :: "string \<Rightarrow> string \<Rightarrow> string \<Rightarrow> string \<Rightarrow> (string \<times> string) list" where
  "psw_form randCode csrfCode name password =
     [(''svpn_rand_code'', randCode), (''mitm'', []), (''svpn_req_randcode'', csrfCode), (''svpn_name'', name),
      (''svpn_password'', password)]"

definition loginAuthAndPsw :: "'e web_env \<Rightarrow> unit web" where
  "loginAuthAndPsw env =
     andThen (web_send env (\<lambda>s. \<lparr>wqMethod = ''GET'', wqURL = serverURL s ''/por/login_auth.csp?apiversion=1'',
       wqQuery = [], wqHeaders = [], wqForm = None\<rparr>)) (\<lambda>resp.
       if wpStatus resp \<noteq> 200 then fail (WebStatus (wpStatus resp))
       else andThen (web_read resp) (\<lambda>body.
         andThen (lifted id (requiredXMLValue body ''TwfID'')) (\<lambda>t.
         andThen (modify (set_twfID t)) (\<lambda>_.
         andThen (lifted id (requiredXMLValue body ''RSA_ENCRYPT_KEY'')) (\<lambda>rsaKey.
         andThen (encrypted_password env rsaKey body) (\<lambda>password.
         andThen (if element_text body ''RndImg'' = Some ''1'' then request_captcha env else ret []) (\<lambda>randCode.
         andThen (ask wcUsername) (\<lambda>name.
         andThen (post_form env ''/por/login_psw.csp?anti_replay=1&encrypt=1&type=cs'' (Some (psw_form randCode
             (case element_text body ''CSRF_RAND_CODE'' of Some csrf \<Rightarrow> csrf | None \<Rightarrow> []) name password))) (\<lambda>body.
           case psw_verdict body of
             Some e \<Rightarrow> fail e
           | None \<Rightarrow> modify (update_twfID body))))))))))"

text \<open>The Chinese texts of the SMS replies, in UTF-8.\<close>

definition utf8 :: "nat list \<Rightarrow> string" where
  "utf8 = map char_of"

definition sms_sent_text :: string where
  "sms_sent_text = utf8 [233, 170, 140, 232, 175, 129, 231, 160, 129, 229, 183, 178, 229, 143, 145, 233, 128, 129,
     229, 136, 176, 230, 130, 168, 231, 154, 132, 230, 137, 139, 230, 156, 186]"

definition sms_enter_text :: string where
  "sms_enter_text = utf8 [232, 175, 183, 232, 190, 147, 229, 133, 165, 233, 170, 140, 232, 175, 129, 231, 160, 129,
     239, 188, 154]"

definition sms_welcome_text :: string where
  "sms_welcome_text = utf8 [230, 172, 162, 232, 191, 142, 232, 174, 191, 233, 151, 174]"

definition sms_accepted :: "string \<Rightarrow> bool" where
  "sms_accepted body \<longleftrightarrow> has_sub body ''Auth sms suc'' \<or> has_sub body sms_welcome_text"

definition loginSMS :: "'e web_env \<Rightarrow> unit web" where
  "loginSMS env =
     andThen (post_form env ''/por/login_sms.csp?apiversion=1'' None) (\<lambda>body.
       if \<not> has_sub body sms_sent_text \<and> \<not> has_sub body sms_enter_text \<and> \<not> has_sub body ''<USER_PHONE>''
       then fail (WebUnexpected ''SMS'' body)
       else andThen (andThen (ask (\<lambda>s. weCode env (wcSent s) ''sms'')) (lifted WebChallenge)) (\<lambda>code.
         andThen (post_form env ''/por/login_sms1.csp?apiversion=1'' (Some [(''svpn_inputsms'', code)])) (\<lambda>body.
           if \<not> sms_accepted body then fail (WebUnexpected ''SMS code'' body)
           else modify (update_twfID body))))"

definition totp_code :: "'e web_env \<Rightarrow> string web" where
  "totp_code env =
     andThen (ask (\<lambda>s. if wcTOTPSecret s = [] then weCode env (wcSent s) ''totp''
                        else weTOTP env (wcSent s) (wcTOTPSecret s))) (lifted WebChallenge)"

definition totp_accepted :: "string \<Rightarrow> bool" where
  "totp_accepted body \<longleftrightarrow> has_sub body ''Totp auth succ''"

definition loginTOTP :: "'e web_env \<Rightarrow> unit web" where
  "loginTOTP env =
     andThen (totp_code env) (\<lambda>code.
     andThen (post_form env ''/por/login_token.csp'' (Some [(''svpn_inputtoken'', code)])) (\<lambda>body.
       if \<not> totp_accepted body then fail (WebUnexpected ''TOTP'' body)
       else andThen (lifted id (requiredXMLValue body ''TwfID'')) (\<lambda>t. modify (set_twfID t))))"

definition cert_accepted :: "string \<Rightarrow> bool" where
  "cert_accepted body \<longleftrightarrow> has_sub body ''<Result>1</Result>'' \<or> has_sub body ''Login successfully''
     \<or> has_sub body ''Auth cert suc''"

definition loginCert :: "'e web_env \<Rightarrow> unit web" where
  "loginCert env =
     andThen (post_form env ''/com/server.crt'' None) (\<lambda>pem.
       if \<not> wePEM env pem then fail (WebUnexpected ''server certificate'' [])
       else andThen (modify (\<lambda>s. s\<lparr>wcRootCA := Some pem\<rparr>)) (\<lambda>_.
         andThen (post_form env ''/por/login_cert.csp?anti_replay=1&encrypt=1&type=cs'' None) (\<lambda>body.
           if \<not> cert_accepted body then fail (WebUnexpected ''certificate'' body)
           else modify (update_twfID body))))"

definition requestTwfID :: "'e web_env \<Rightarrow> unit web" where
  "requestTwfID env =
     andThen (attempt (loginAuthAndPsw env)) (\<lambda>r.
       case r of
         Inr _ \<Rightarrow> ret ()
       | Inl e \<Rightarrow>
           if e = errSMSRequired then loginSMS env
           else if e = errTOTPRequired then loginTOTP env
           else if e = errCertRequired then loginCert env
           else fail e)"

definition ensureSession :: "'e web_env \<Rightarrow> unit web" where
  "ensureSession env s = (if twfID s \<noteq> [] then ret () s else requestTwfID env s)"


section \<open>The other requests\<close>

text \<open>\<open>requestConfig\<close> and \<open>requestResources\<close>.\<close>

definition get_page :: "'e web_env \<Rightarrow> string \<Rightarrow> string web" where
  "get_page env path =
     andThen (web_send env (\<lambda>s. \<lparr>wqMethod = ''GET'', wqURL = serverURL s path, wqQuery = [],
       wqHeaders = [cookie s], wqForm = None\<rparr>)) web_read"

definition requestConfig :: "'e web_env \<Rightarrow> string web" where
  "requestConfig env = get_page env ''/por/conf.csp''"

definition requestResources :: "'e web_env \<Rightarrow> string web" where
  "requestResources env = get_page env ''/por/rclist.csp''"

definition requestUpdateSession :: "'e web_env \<Rightarrow> unit web" where
  "requestUpdateSession env =
     andThen (web_send env (\<lambda>s. \<lparr>wqMethod = ''GET'', wqURL = ''https://'' @ wcServer s @ ''/por/update_session.csp'',
       wqQuery = [(''apiversion'', ''1''), (''twfid'', twfID s)],
       wqHeaders = [cookie s, (''User-Agent'', ''EasyConnect_Linux_Ubuntu'')], wqForm = None\<rparr>)) (\<lambda>resp.
       if wpStatus resp \<noteq> 200 then
         (if wpStatus resp = 404 then fail errNotFound else fail (WebStatus (wpStatus resp)))
       else andThen (web_read resp) (\<lambda>body.
         andThen (lifted WebXML (weReply env body)) (\<lambda>(message, code).
           if message \<noteq> ''success'' \<or> code \<noteq> ''1'' then fail (WebUnexpected message code) else ret ())))"

text \<open>\<open>runSessionKeepAlive\<close> on what its \<open>select\<close> receives: the end of the client or a tick. The result is
  whether it returned.\<close>

datatype keep_alive_event = LifecycleDone | KeepAliveTick

fun runSessionKeepAlive :: "'e web_env \<Rightarrow> keep_alive_event list \<Rightarrow> web_client \<Rightarrow> bool \<times> web_client" where
  "runSessionKeepAlive env [] s = (False, s)"
| "runSessionKeepAlive env (LifecycleDone # es) s = (True, s)"
| "runSessionKeepAlive env (KeepAliveTick # es) s =
     (case requestUpdateSession env s of
        (Inl errNotFound, s') \<Rightarrow> (True, s')
      | (_, s') \<Rightarrow> runSessionKeepAlive env es s')"


section \<open>Setting up\<close>

text \<open>A call of the tunnel part; \<open>None\<close> there is a panic.\<close>

definition tunnel_call :: "(ec_client \<Rightarrow> (ec_error option \<times> ec_client) option) \<Rightarrow> unit web" where
  "tunnel_call f s =
     (case f (wcTunnel s) of
        None \<Rightarrow> (Inl WebPanic, s)
      | Some (Some e, cl) \<Rightarrow> (Inl (WebTunnel e), s\<lparr>wcTunnel := cl\<rparr>)
      | Some (None, cl) \<Rightarrow> (Inr (), s\<lparr>wcTunnel := cl\<rparr>))"

definition parse_lines :: "'e web_env \<Rightarrow> string \<Rightarrow> string option web" where
  "parse_lines env config s =
     (case parseLineListFromConfig (weXML env) config (wcLines s) of
        None \<Rightarrow> (Inl WebPanic, s)
      | Some (err, ls) \<Rightarrow> (Inr err, s\<lparr>wcLines := ls\<rparr>))"

definition best_line :: "'e web_env \<Rightarrow> (string + string) web" where
  "best_line env s =
     (case findBestLine (weProbe env (wcSent s)) (wcLines s) of
        None \<Rightarrow> (Inl WebPanic, s)
      | Some r \<Rightarrow> (Inr r, s))"

definition change_line :: "'e web_env \<Rightarrow> unit web" where
  "change_line env =
     andThen (attempt (requestConfig env)) (\<lambda>r. case r of Inl _ \<Rightarrow> ret () | Inr config \<Rightarrow>
     andThen (parse_lines env config) (\<lambda>err. case err of Some _ \<Rightarrow> ret () | None \<Rightarrow>
     andThen (best_line env) (\<lambda>r. case r of Inl _ \<Rightarrow> ret () | Inr best \<Rightarrow>
     andThen (ask wcServer) (\<lambda>server.
       if server = best then ret ()
       else andThen (modify (\<lambda>s. set_twfID [] (s\<lparr>wcServer := best, wcMultiLine := False\<rparr>)))
              (\<lambda>_. ensureSession env)))))"

definition store_resources :: "'e web_env \<Rightarrow> string \<Rightarrow> unit web" where
  "store_resources env resources s =
     (case parseResources (weXML env) (wcUseDomain s) resources (wcPolicy s) of
        None \<Rightarrow> (Inl WebPanic, s)
      | Some (_, policy) \<Rightarrow> (Inr (), s\<lparr>wcPolicy := policy\<rparr>))"

definition fetch_resources :: "'e web_env \<Rightarrow> unit web" where
  "fetch_resources env =
     andThen (attempt (requestResources env)) (\<lambda>r. case r of Inl _ \<Rightarrow> ret () | Inr text \<Rightarrow> store_resources env text)"

definition establish :: "'e web_env \<Rightarrow> unit web" where
  "establish env =
     andThen (\<lambda>s. tunnel_call (requestToken (weNet env (wcSent s)) (wcServer s)) s) (\<lambda>_.
     andThen (ask wcParse) (\<lambda>parse.
     andThen (if parse then fetch_resources env else ret ()) (\<lambda>_.
     andThen (\<lambda>s. if tcpTunnelOnly (wcPolicy s) then ret () s
                   else tunnel_call (requestIP (wcHasDialer s) (weNet env (wcSent s))) s) (\<lambda>_.
     modify (\<lambda>s. s\<lparr>wcKeepAlive := True\<rparr>)))))"

definition Setup :: "'e web_env \<Rightarrow> unit web" where
  "Setup env s =
     (if \<not> wcHasDialer s then fail (WebSetup ''underlay dialer is required'') s
      else if twfID s = [] \<and> \<not> wcCertificate s \<and> wcUsername s = [] then
        fail (WebSetup ''EasyConnect username is required'') s
      else if twfID s = [] \<and> \<not> wcCertificate s \<and> wcPassword s = [] then
        fail (WebSetup ''EasyConnect password is required'') s
      else andThen (ensureSession env) (\<lambda>_.
           andThen (ask wcMultiLine) (\<lambda>multi.
           andThen (if multi then change_line env else ret ()) (\<lambda>_. establish env))) s)"

definition CanUseTCPTunnel :: "web_client \<Rightarrow> bool" where
  "CanUseTCPTunnel s = tcpTunnelOnly (wcPolicy s)"

definition ec_DNSServer :: "web_client \<Rightarrow> string + string" where
  "ec_DNSServer s =
     (if ecDNSServer (wcPolicy s) = [] then Inl ''DNS server not available'' else Inr (ecDNSServer (wcPolicy s)))"

definition ec_DNSServers :: "web_client \<Rightarrow> string + string list" where
  "ec_DNSServers s =
     (if ecDNSServers (wcPolicy s) = [] then Inl ''DNS servers not available'' else Inr (ecDNSServers (wcPolicy s)))"

section \<open>The regular expressions\<close>

text \<open>The element \<open>tag\<close> with the text \<open>x\<close> stands at position \<open>n\<close>, on one line.\<close>

definition element_at :: "string \<Rightarrow> string \<Rightarrow> nat \<Rightarrow> string \<Rightarrow> bool" where
  "element_at body tag n x \<longleftrightarrow> CHR 0x0A \<notin> set x
     \<and> (\<exists>post. drop n body = (''<'' @ tag @ ''>'') @ x @ (''</'' @ tag @ ''>'') @ post)"

lemma greedy_group_None:
  assumes "close \<noteq> []" "greedy_group close s = None" "CHR 0x0A \<notin> set y"
  shows "s \<noteq> y @ close @ post"
  using assms
proof (induction s arbitrary: y)
  case (Cons c cs)
  show ?case
  proof (cases y)
    case Nil
    then show ?thesis using Cons.prems by (auto simp: has_prefix_def split: option.splits)
  next
    case (Cons d ds)
    then show ?thesis using Cons.prems Cons.IH [of ds] by (auto split: option.splits if_splits)
  qed
qed simp

lemma greedy_group_Some:
  assumes "close \<noteq> []" "greedy_group close s = Some x"
  shows "CHR 0x0A \<notin> set x \<and> (\<exists>post. s = x @ close @ post)
    \<and> (\<forall>y post. CHR 0x0A \<notin> set y \<longrightarrow> s = y @ close @ post \<longrightarrow> length y \<le> length x)"
  using assms(2)
proof (induction s arbitrary: x)
  case Nil
  then show ?case using assms(1) by simp
next
  case (Cons c cs)
  show ?case
  proof (cases "c \<noteq> CHR 0x0A \<and> greedy_group close cs \<noteq> None")
    case True
    then obtain z where z: "greedy_group close cs = Some z" "x = c # z" using Cons.prems by auto
    have "length y \<le> length x" if y: "CHR 0x0A \<notin> set y" "c # cs = y @ close @ post" for y post
    proof (cases y)
      case (Cons d ds)
      then show ?thesis using Cons.IH [OF z(1)] y z(2) by auto
    qed simp
    then show ?thesis using Cons.IH [OF z(1)] z(2) True by auto
  next
    case False
    then have *: "x = []" "has_prefix (c # cs) close"
      using Cons.prems by (auto split: option.splits if_splits)
    have "y = []" if y: "CHR 0x0A \<notin> set y" "c # cs = y @ close @ post" for y post
    proof (cases y)
      case (Cons d ds)
      then have "c \<noteq> CHR 0x0A" "cs = ds @ close @ post" "CHR 0x0A \<notin> set ds" using y by auto
      then show ?thesis using greedy_group_None [OF assms(1), of cs ds post] False by auto
    qed
    then show ?thesis using * by (auto simp: has_prefix_def) (metis append_take_drop_id)
  qed
qed

lemma find_group_Some:
  assumes "start \<noteq> []" "find_group start close s = Some x"
  obtains n post where "drop n s = start @ post" "greedy_group close post = Some x"
    "\<And>m post. m < n \<Longrightarrow> drop m s = start @ post \<Longrightarrow> greedy_group close post = None"
proof -
  have "\<exists>n post. drop n s = start @ post \<and> greedy_group close post = Some x
    \<and> (\<forall>m post. m < n \<longrightarrow> drop m s = start @ post \<longrightarrow> greedy_group close post = None)"
    using assms(2)
  proof (induction s)
    case Nil
    then show ?case using assms(1) by simp
  next
    case (Cons c cs)
    show ?case
    proof (cases "has_prefix (c # cs) start \<and> greedy_group close (drop (length start) (c # cs)) = Some x")
      case True
      then show ?thesis
        by (intro exI [of _ 0] exI [of _ "drop (length start) (c # cs)"]) (auto simp: has_prefix_def, metis append_take_drop_id)
    next
      case False
      have here: "greedy_group close post = None" if "c # cs = start @ post" for post
      proof -
        have p: "has_prefix (c # cs) start" "drop (length start) (c # cs) = post"
          using that by (simp_all add: has_prefix_def)
        then show ?thesis using Cons.prems False unfolding find_group.simps(2) p(2) by (auto split: option.splits)
      qed
      have "find_group start close cs = Some x"
        using Cons.prems False by (auto split: option.splits if_splits)
      then obtain n post where "drop n cs = start @ post" "greedy_group close post = Some x"
        "\<forall>m post. m < n \<longrightarrow> drop m cs = start @ post \<longrightarrow> greedy_group close post = None"
        using Cons.IH by blast
      then show ?thesis using here
        by (intro exI [of _ "Suc n"] exI [of _ post]) (auto simp: drop_Cons split: nat.splits)
    qed
  qed
  then show thesis using that by blast
qed

lemma find_group_None:
  assumes "start \<noteq> []" "find_group start close s = None" "drop n s = start @ post"
  shows "greedy_group close post = None"
  using assms(2,3)
proof (induction s arbitrary: n)
  case Nil
  then show ?case using assms(1) by simp
next
  case (Cons c cs)
  show ?case
  proof (cases n)
    case 0
    then show ?thesis using Cons.prems by (auto simp: has_prefix_def split: option.splits)
  next
    case (Suc m)
    then show ?thesis using Cons.IH [of m] Cons.prems by (auto split: option.splits)
  qed
qed

text \<open>
  Reading an element by regular expression finds the first position of the reply where the element
  stands on one line, and there the longest text: up to the last closing tag of the line. It finds nothing
  only where the element nowhere stands on one line.
\<close>

lemma element_text_exact:
  "(element_text body tag = None \<longrightarrow> (\<forall>n y. \<not> element_at body tag n y))
   \<and> (element_text body tag = Some x \<longrightarrow> (\<exists>n. element_at body tag n x
      \<and> (\<forall>m y. element_at body tag m y \<longrightarrow> n \<le> m \<and> (m = n \<longrightarrow> length y \<le> length x))))"
proof (intro conjI impI)
  let ?start = "''<'' @ tag @ ''>''" and ?close = "''</'' @ tag @ ''>''"
  have at: "\<exists>post. CHR 0x0A \<notin> set y \<and> drop m body = ?start @ y @ ?close @ post" if "element_at body tag m y" for m y
    using that unfolding element_at_def by blast
  show "\<forall>n y. \<not> element_at body tag n y" if missing: "element_text body tag = None"
  proof (intro allI notI)
    fix n y
    assume "element_at body tag n y"
    then obtain post where y: "CHR 0x0A \<notin> set y" "drop n body = ?start @ y @ ?close @ post" using at by blast
    then have "greedy_group ?close (y @ ?close @ post) = None"
      using missing find_group_None [of ?start ?close body n "y @ ?close @ post"] by (simp add: element_text_def)
    then show False using greedy_group_None [of ?close "y @ ?close @ post" y post] y(1) by simp
  qed
  show "\<exists>n. element_at body tag n x \<and> (\<forall>m y. element_at body tag m y \<longrightarrow> n \<le> m \<and> (m = n \<longrightarrow> length y \<le> length x))"
    if found: "element_text body tag = Some x"
  proof -
    obtain n post where n: "drop n body = ?start @ post" "greedy_group ?close post = Some x"
      "\<And>m post. m < n \<Longrightarrow> drop m body = ?start @ post \<Longrightarrow> greedy_group ?close post = None"
      using found find_group_Some [of ?start ?close body x] by (auto simp: element_text_def)
    note g = greedy_group_Some [OF _ n(2), simplified]
    have "n \<le> m \<and> (m = n \<longrightarrow> length y \<le> length x)" if elem: "element_at body tag m y" for m y
    proof -
      obtain post' where y: "CHR 0x0A \<notin> set y" "drop m body = ?start @ y @ ?close @ post'"
        using at [OF elem] by blast
      have "greedy_group ?close (y @ ?close @ post') \<noteq> None"
        using greedy_group_None [of ?close "y @ ?close @ post'" y post'] y(1) by auto
      then have "\<not> m < n" using n(3) [of m "y @ ?close @ post'"] y(2) by auto
      moreover have "length y \<le> length x" if "m = n"
        using that y n(1) g by auto
      ultimately show ?thesis by simp
    qed
    moreover have "element_at body tag n x" using g n(1) by (auto simp: element_at_def)
    ultimately show ?thesis by blast
  qed
qed

text \<open>Two elements on one line are read as one.\<close>

lemma two_elements_read_as_one:
  "element_text ''<TwfID>a</TwfID><TwfID>b</TwfID>'' ''TwfID'' = Some ''a</TwfID><TwfID>b''"
  by code_simp

lemma element_text_exact_example:
  "element_text ''<A><RndImg>1</RndImg></A>'' ''RndImg'' = Some ''1''
   \<and> (\<exists>n. element_at ''<A><RndImg>1</RndImg></A>'' ''RndImg'' n ''1'')
   \<and> \<not> element_at ''<A></A>'' ''TwfID'' 0 ''x''"
proof -
  have a: "element_text ''<A><RndImg>1</RndImg></A>'' ''RndImg'' = Some ''1''" by code_simp
  have b: "element_text ''<A></A>'' ''TwfID'' = None" by code_simp
  show ?thesis using a b element_text_exact [of "''<A><RndImg>1</RndImg></A>''" "''RndImg''" "''1''"]
      element_text_exact [of "''<A></A>''" "''TwfID''" "''x''"] by blast
qed

section \<open>How many requests a set-up sends\<close>

interpretation web: request_log wcSent web_send
  by unfold_locales (auto simp: web_send_def Let_def split: sum.split)

declare web.costs_send [costs_rules]

abbreviation web_sends :: "'a web \<Rightarrow> nat \<Rightarrow> bool" where
  "web_sends \<equiv> costs wcSent"

lemma web_basic_costs [costs_rules]:
  "web_sends (web_read r) 0" "web_sends (modify (set_twfID t)) 0" "web_sends (modify (update_twfID body)) 0"
  "web_sends (encrypted_password env rsaKey body) 0" "web_sends (totp_code env) 0"
  by (auto simp: costs_def web_read_def modify_def set_twfID_def update_twfID_def encrypted_password_def Let_def
      andThen_def ask_def lifted_def totp_code_def fail_def ret_def split: option.split sum.split)

lemma post_costs [costs_rules]: "web_sends (post_form env path form) 1" "web_sends (request_captcha env) 1"
  "web_sends (get_page env path) 1"
  unfolding post_form_def request_captcha_def get_page_def
  by ((rule costs_weaken, (rule costs_rules)+, simp)[1])+

lemma login_step_costs [costs_rules]:
  "web_sends (loginSMS env) 2" "web_sends (loginTOTP env) 1" "web_sends (loginCert env) 2"
  unfolding loginSMS_def loginTOTP_def loginCert_def
  by ((rule costs_weaken, (rule costs_rules | simp (no_asm))+)[1])+

lemma loginAuthAndPsw_costs [costs_rules]: "web_sends (loginAuthAndPsw env) 3"
  unfolding loginAuthAndPsw_def by (rule costs_weaken, (rule costs_rules | simp (no_asm))+)

lemma session_costs [costs_rules]: "web_sends (requestTwfID env) 5" "web_sends (ensureSession env) 5"
proof -
  show 1: "web_sends (requestTwfID env) 5"
    unfolding requestTwfID_def by (rule costs_weaken, (rule costs_rules costs_sum)+, simp)
  show "web_sends (ensureSession env) 5"
    using 1 by (auto simp: costs_def ensureSession_def ret_def)
qed

lemma local_costs [costs_rules]:
  "web_sends (tunnel_call f) 0" "web_sends (parse_lines env config) 0" "web_sends (best_line env) 0"
  "web_sends (store_resources env resources) 0"
  by (auto simp: costs_def tunnel_call_def parse_lines_def best_line_def store_resources_def
      split: option.split prod.split)

lemma change_line_costs [costs_rules]: "web_sends (change_line env) 6"
proof -
  have *: "web_sends (andThen (ask wcServer) (\<lambda>server. if server = best then ret ()
       else andThen (modify (\<lambda>s. set_twfID [] (s\<lparr>wcServer := best, wcMultiLine := False\<rparr>)))
              (\<lambda>_. ensureSession env))) 5" for best
    by (rule costs_weaken, (rule costs_rules | simp (no_asm) add: set_twfID_def)+)
  show ?thesis unfolding change_line_def requestConfig_def
    by (rule costs_weaken, (rule costs_rules costs_sum *)+, simp)
qed

lemma establish_costs [costs_rules]: "web_sends (establish env) 1"
proof -
  have *: "web_sends (\<lambda>s. tunnel_call (requestToken (weNet env (wcSent s)) (wcServer s)) s) 0"
    "web_sends (\<lambda>s. if tcpTunnelOnly (wcPolicy s) then ret () s
       else tunnel_call (requestIP (wcHasDialer s) (weNet env (wcSent s))) s) 0"
    using local_costs(1) by (auto simp: costs_def ret_def)
  have "web_sends (fetch_resources env) 1"
    unfolding fetch_resources_def requestResources_def by (rule costs_weaken, (rule costs_rules costs_sum)+, simp)
  note this [costs_rules]
  show ?thesis unfolding establish_def
    by (rule costs_weaken, (rule costs_rules * | simp (no_asm))+)
qed

lemma Setup_costs: "web_sends (Setup env) 12"
proof -
  have "web_sends (andThen (ensureSession env) (\<lambda>_. andThen (ask wcMultiLine) (\<lambda>multi.
           andThen (if multi then change_line env else ret ()) (\<lambda>_. establish env)))) 12"
    by (rule costs_weaken, (rule costs_rules)+, simp)
  then show ?thesis by (auto simp: costs_def Setup_def fail_def)
qed

section \<open>What a successful login was told\<close>

text \<open>The reply to a request for this path lets the client in.\<close>

definition lets_in :: "string \<Rightarrow> string \<Rightarrow> bool" where
  "lets_in path body \<longleftrightarrow>
     path = ''/por/login_psw.csp?anti_replay=1&encrypt=1&type=cs'' \<and> psw_verdict body = None
   \<or> path = ''/por/login_sms1.csp?apiversion=1'' \<and> sms_accepted body
   \<or> path = ''/por/login_token.csp'' \<and> totp_accepted body
   \<or> path = ''/por/login_cert.csp?anti_replay=1&encrypt=1&type=cs'' \<and> cert_accepted body"

text \<open>The last request, to the server of \<open>s\<close>, was answered with a text that lets the client in, and the
  session id is the one in it, or \<open>t\<close> if it has none.\<close>

definition let_in :: "'e web_env \<Rightarrow> web_client \<Rightarrow> string \<Rightarrow> web_client \<Rightarrow> bool" where
  "let_in env s t s' \<longleftrightarrow> (\<exists>h q reply path. wcSent s' = wcSent s @ h @ [q] \<and> wqURL q = serverURL s path
     \<and> weDo env (wcSent s') = Inr reply \<and> lets_in path (wpBody reply)
     \<and> twfID s' = (case element_text (wpBody reply) ''TwfID'' of Some x \<Rightarrow> x | None \<Rightarrow> t))"

definition same_server :: "web_client \<Rightarrow> web_client \<Rightarrow> bool" where
  "same_server s s' \<longleftrightarrow> wcServer s' = wcServer s \<and> wcScheme s' = wcScheme s"

lemma web_send_Inr:
  "web_send env q s = (Inr resp, s') \<longleftrightarrow>
     weDo env (wcSent s @ [q s]) = Inr resp \<and> s' = s\<lparr>wcSent := wcSent s @ [q s]\<rparr>"
  by (auto simp: web_send_def Let_def split: sum.splits)

lemma web_send_Inl: "web_send env q s = (Inl e, s') \<Longrightarrow> s' = s\<lparr>wcSent := wcSent s @ [q s]\<rparr>"
  by (auto simp: web_send_def Let_def split: sum.splits)

lemma web_read_Inr: "web_read r s = (Inr body, s') \<longleftrightarrow> wpReadError r = None \<and> body = wpBody r \<and> s' = s"
  by (auto simp: web_read_def split: option.split)

lemma post_Inr:
  assumes "post_form env path form s = (Inr body, s')"
  shows "\<exists>q reply. s' = s\<lparr>wcSent := wcSent s @ [q]\<rparr> \<and> wqURL q = serverURL s path
    \<and> weDo env (wcSent s @ [q]) = Inr reply \<and> body = wpBody reply"
  using assms by (auto simp: post_form_def andThen_Inr web_send_Inr web_read_Inr)

lemma twfID_set [simp]: "twfID (set_twfID t s) = t" "wcSent (set_twfID t s) = wcSent s"
  "wcServer (set_twfID t s) = wcServer s" "wcScheme (set_twfID t s) = wcScheme s"
  by (simp_all add: set_twfID_def)

lemma twfID_update [simp]:
  "twfID (update_twfID body s) = (case element_text body ''TwfID'' of Some t \<Rightarrow> t | None \<Rightarrow> twfID s)"
  "wcSent (update_twfID body s) = wcSent s"
  by (simp_all add: update_twfID_def split: option.split)

text \<open>The last request of each step.\<close>

lemma post_lets_in:
  assumes "post_form env path form s1 = (Inr body, s2)" "lets_in path body" "same_server s s1"
    "wcSent s1 = wcSent s @ h" "twfID s1 = t"
  shows "let_in env s t (update_twfID body s2)"
proof -
  obtain q reply where q: "s2 = s1\<lparr>wcSent := wcSent s1 @ [q]\<rparr>" "wqURL q = serverURL s1 path"
    "weDo env (wcSent s1 @ [q]) = Inr reply" "body = wpBody reply"
    using post_Inr [OF assms(1)] by blast
  then show ?thesis unfolding let_in_def
    using assms by (intro exI [of _ h] exI [of _ q] exI [of _ reply] exI [of _ path])
      (auto simp: serverURL_def same_server_def split: option.split)
qed

lemma quiet_actions:
  "totp_code env s = (r, s') \<Longrightarrow> s' = s" "encrypted_password env key body s = (r, s') \<Longrightarrow> s' = s"
  by (auto simp: totp_code_def encrypted_password_def Let_def andThen_def ask_def lifted_def fail_def ret_def
      split: sum.splits)

lemma same_server_sent [simp]:
  "same_server s s" "same_server s (s1\<lparr>wcSent := h\<rparr>) = same_server s s1" "same_server s (set_twfID t s1) = same_server s s1"
  "same_server s (s1\<lparr>wcRootCA := ca\<rparr>) = same_server s s1"
  by (simp_all add: same_server_def)

lemma post_same:
  assumes "post_form env path form s1 = (Inr body, s2)" "same_server s s1" "wcSent s1 = wcSent s @ h"
  shows "same_server s s2 \<and> (\<exists>h. wcSent s2 = wcSent s @ h) \<and> twfID s2 = twfID s1"
  using post_Inr [OF assms(1)] assms(2,3) by auto

lemma sms_lets_in:
  assumes "loginSMS env s1 = (Inr (), s')" "same_server s s1" "wcSent s1 = wcSent s @ h"
  shows "let_in env s (twfID s1) s'"
proof -
  obtain body s2 code s3 body2 s4 where run: "post_form env ''/por/login_sms.csp?apiversion=1'' None s1 = (Inr body, s2)"
    "post_form env ''/por/login_sms1.csp?apiversion=1'' (Some [(''svpn_inputsms'', code)]) s2 = (Inr body2, s4)"
    "sms_accepted body2" "s' = update_twfID body2 s4"
    using assms(1) by (auto simp: loginSMS_def andThen_Inr split: if_splits)
  then show ?thesis
    using post_same [OF run(1) assms(2,3)] post_lets_in [OF run(2)] by (auto simp: lets_in_def)
qed

lemma cert_lets_in:
  assumes "loginCert env s1 = (Inr (), s')" "same_server s s1" "wcSent s1 = wcSent s @ h"
  shows "let_in env s (twfID s1) s'"
proof -
  obtain pem s2 body2 s4 where run: "post_form env ''/com/server.crt'' None s1 = (Inr pem, s2)"
    "post_form env ''/por/login_cert.csp?anti_replay=1&encrypt=1&type=cs'' None (s2\<lparr>wcRootCA := Some pem\<rparr>) = (Inr body2, s4)"
    "cert_accepted body2" "s' = update_twfID body2 s4"
    using assms(1) by (auto simp: loginCert_def andThen_Inr split: if_splits)
  then show ?thesis
    using post_same [OF run(1) assms(2,3)] post_lets_in [OF run(2)] by (auto simp: lets_in_def)
qed

lemma totp_lets_in:
  assumes "loginTOTP env s1 = (Inr (), s')" "same_server s s1" "wcSent s1 = wcSent s @ h"
  shows "let_in env s (twfID s1) s'"
proof -
  obtain code body s4 t where run:
    "post_form env ''/por/login_token.csp'' (Some [(''svpn_inputtoken'', code)]) s1 = (Inr body, s4)"
    "totp_accepted body" "requiredXMLValue body ''TwfID'' = Inr t" "s' = set_twfID t s4"
    using assms(1) by (auto simp: loginTOTP_def andThen_Inr dest!: quiet_actions split: if_splits)
  have "s' = update_twfID body s4"
    using run(3,4) by (auto simp: requiredXMLValue_def update_twfID_def split: option.splits if_splits)
  then show ?thesis
    using run post_lets_in [OF run(1) _ assms(2,3) refl] by (auto simp: lets_in_def)
qed

text \<open>Only the verdict on the password reply asks for another step.\<close>

definition asks :: "web_error \<Rightarrow> bool" where
  "asks e \<longleftrightarrow> e = errSMSRequired \<or> e = errTOTPRequired \<or> e = errCertRequired"

definition never_asks :: "'a web \<Rightarrow> bool" where
  "never_asks m \<longleftrightarrow> (\<forall>s e s'. m s = (Inl e, s') \<longrightarrow> \<not> asks e)"

definition wanted :: "web_error + unit \<Rightarrow> bool" where
  "wanted r \<longleftrightarrow> (case r of Inl e \<Rightarrow> asks e | Inr _ \<Rightarrow> True)"

lemma never_asksD: "never_asks m \<Longrightarrow> m s = (Inl e, s') \<Longrightarrow> \<not> asks e"
  by (auto simp: never_asks_def)

lemma never_asksI: "(\<And>s e s'. m s = (Inl e, s') \<Longrightarrow> \<not> asks e) \<Longrightarrow> never_asks m"
  by (auto simp: never_asks_def)

lemma andThen_wanted:
  assumes "wanted r" "never_asks m"
  shows "andThen m f s = (r, s') \<longleftrightarrow> (\<exists>x s1. m s = (Inr x, s1) \<and> f x s1 = (r, s'))"
  using assms by (cases r) (auto simp: andThen_Inr andThen_Inl wanted_def dest: never_asksD)

lemma never_asks_basic [simp]:
  "never_asks (web_send env q)" "never_asks (web_read resp)" "never_asks (lifted id (requiredXMLValue body tag))"
  "never_asks (modify h)" "never_asks (ask g)" "never_asks (ret x)" "never_asks (encrypted_password env key body)"
  "never_asks (lifted WebChallenge c)" "never_asks (fail WebEmptyCaptcha)"
  by (auto simp: never_asks_def asks_def web_send_def web_read_def requiredXMLValue_def lifted_def modify_def ask_def
      ret_def fail_def encrypted_password_def andThen_def Let_def split: option.splits sum.splits if_splits)

lemma never_asks_then [intro]: "never_asks m \<Longrightarrow> (\<And>x. never_asks (f x)) \<Longrightarrow> never_asks (andThen m f)"
  by (rule never_asksI) (auto simp: andThen_Inl dest: never_asksD)

lemma never_asks_post [simp]: "never_asks (post_form env path form)" "never_asks (request_captcha env)"
  unfolding post_form_def request_captcha_def by (intro never_asks_then; simp)+

lemma status_wanted:
  "wanted r \<Longrightarrow> (if c then fail (WebStatus k) else m) s = (r, s') \<longleftrightarrow> \<not> c \<and> m s = (r, s')"
  by (auto simp: fail_def wanted_def asks_def)

lemma encrypted_Inr:
  "encrypted_password env key body s = (Inr c, s') \<longleftrightarrow> s' = s \<and> fst (encrypted_password env key body s) = Inr c"
  using quiet_actions(2) [of env key body s] by (cases "encrypted_password env key body s") auto

lemma never_asks_if [simp]: "never_asks x \<Longrightarrow> never_asks y \<Longrightarrow> never_asks (if c then x else y)"
  by simp

lemma captcha_same:
  assumes "request_captcha env s1 = (Inr code, s2)"
  shows "\<exists>q. s2 = s1\<lparr>wcSent := wcSent s1 @ [q]\<rparr>"
  using assms by (auto simp: request_captcha_def andThen_Inr web_send_Inr web_read_Inr split: if_splits)

text \<open>The password step: the session id of its first reply, and what became of it.\<close>

lemma psw_step:
  assumes "loginAuthAndPsw env s = (r, s')" "wanted r"
  shows "\<exists>q0 reply0 t h. weDo env (wcSent s @ [q0]) = Inr reply0 \<and> element_text (wpBody reply0) ''TwfID'' = Some t
     \<and> t \<noteq> [] \<and> wcSent s' = wcSent s @ q0 # h \<and> same_server s s'
     \<and> (if r = Inr () then let_in env s t s' else twfID s' = t)"
proof -
  have run: "\<exists>q0 reply0 t randCode s2 form body s3. weDo env (wcSent s @ [q0]) = Inr reply0 \<and>
    requiredXMLValue (wpBody reply0) ''TwfID'' = Inr t \<and>
    (if element_text (wpBody reply0) ''RndImg'' = Some ''1'' then request_captcha env else ret [])
      (set_twfID t (s\<lparr>wcSent := wcSent s @ [q0]\<rparr>)) = (Inr randCode, s2) \<and>
    post_form env ''/por/login_psw.csp?anti_replay=1&encrypt=1&type=cs'' form s2 = (Inr body, s3) \<and>
    (case psw_verdict body of Some e \<Rightarrow> fail e | None \<Rightarrow> modify (update_twfID body)) s3 = (r, s')"
    using assms unfolding loginAuthAndPsw_def
    by (simp add: andThen_wanted status_wanted web_send_Inr web_read_Inr encrypted_Inr split del: if_split) blast
  then obtain q0 reply0 t randCode s2 form body s3 where run: "weDo env (wcSent s @ [q0]) = Inr reply0"
    "requiredXMLValue (wpBody reply0) ''TwfID'' = Inr t"
    "(if element_text (wpBody reply0) ''RndImg'' = Some ''1'' then request_captcha env else ret [])
      (set_twfID t (s\<lparr>wcSent := wcSent s @ [q0]\<rparr>)) = (Inr randCode, s2)"
    "post_form env ''/por/login_psw.csp?anti_replay=1&encrypt=1&type=cs'' form s2 = (Inr body, s3)"
    "(case psw_verdict body of Some e \<Rightarrow> fail e | None \<Rightarrow> modify (update_twfID body)) s3 = (r, s')" by blast
  have t: "element_text (wpBody reply0) ''TwfID'' = Some t" "t \<noteq> []"
    using run(2) by (auto simp: requiredXMLValue_def split: option.splits if_splits)
  obtain h where s2: "wcSent s2 = wcSent s @ q0 # h" "same_server s s2" "twfID s2 = t"
    using run(3) by (auto dest!: captcha_same split: if_splits)
  have s3: "same_server s s3" "\<exists>h. wcSent s3 = wcSent s @ q0 # h" "twfID s3 = t"
    using post_same [OF run(4) s2(2,1)] post_Inr [OF run(4)] s2 by auto
  show ?thesis
  proof (cases "psw_verdict body")
    case None
    then have "let_in env s t (update_twfID body s3)"
      using post_lets_in [OF run(4) _ s2(2,1,3)] by (simp add: lets_in_def)
    moreover have "r = Inr ()" "s' = update_twfID body s3" using run(5) None by (auto simp: modify_def)
    moreover have "same_server s (update_twfID body s3)"
      using s3(1) by (simp add: same_server_def update_twfID_def split: option.split)
    ultimately show ?thesis using run(1) t s3(2) by auto
  next
    case (Some e)
    then have "r = Inl e" "s' = s3" using run(5) by (auto simp: fail_def)
    then show ?thesis using run(1) t s3 by auto
  qed
qed


section \<open>What a set-up leaves behind\<close>

lemma requestToken_ok:
  assumes "requestToken env server cl = Some (None, cl')"
  shows "\<exists>session token. cl' = cl\<lparr>ecToken := Some token\<rparr> \<and> make_token session (ecTwfID cl) = Some token"
  using assms unfolding requestToken_def Let_def
  by (auto simp: bind_eq_Some_conv split: sum.splits prod.splits option.splits if_splits)

lemma requestIP_ok:
  assumes "requestIP has_dialer env cl = Some (None, cl')"
  shows "ecToken cl' = ecToken cl \<and> ecTwfID cl' = ecTwfID cl \<and> length (ecIP cl') = 4 \<and> ecRequestIPConn cl' \<noteq> None"
  using assms unfolding requestIP_def Let_def setRequestIPConn_def
  by (auto split: option.splits sum.splits prod.splits)

lemma tunnel_call_Inr:
  "tunnel_call f s = (Inr (), s') \<longleftrightarrow> (\<exists>cl. f (wcTunnel s) = Some (None, cl) \<and> s' = s\<lparr>wcTunnel := cl\<rparr>)"
  by (auto simp: tunnel_call_def split: option.splits prod.splits)

lemma fetch_keeps_tunnel:
  assumes "fetch_resources env s = (Inr (), s')"
  shows "wcTunnel s' = wcTunnel s"
proof -
  have g: "wcTunnel s1 = wcTunnel s" if "get_page env path s = (r, s1)" for path r s1
    using that by (auto simp: get_page_def andThen_def web_send_def web_read_def Let_def fail_def ret_def
        split: sum.splits option.splits)
  obtain r s1 where run: "get_page env ''/por/rclist.csp'' s = (r, s1)"
    "(case r of Inl _ \<Rightarrow> ret () | Inr text \<Rightarrow> store_resources env text) s1 = (Inr (), s')"
    using assms by (auto simp: fetch_resources_def requestResources_def andThen_Inr)
  have "wcTunnel s' = wcTunnel s1"
    using run(2) by (cases r) (auto simp: store_resources_def split: option.splits prod.splits)
  then show ?thesis using g [OF run(1)] by simp
qed

lemma token_text:
  assumes "make_token session t = Some token"
  shows "16 \<le> length t \<and> (\<exists>sid. length sid = 31 \<and> token = sid @ [0] @ take 16 (ascii_bytes t))"
proof -
  have ok: "\<not> (2 * length session < 31 \<or> length t < 16)"
    using assms make_token_panics_iff [of session t] by auto
  define sid where "sid = take 31 (ascii_bytes (hex_encode session))"
  have "token = take 48 (sid @ [0] @ ascii_bytes t) \<and> length sid = 31"
    using assms by (auto simp: make_token_def Let_def slice_def sid_def split: if_splits)
  then show ?thesis using ok by auto
qed


section \<open>Runs\<close>

definition page :: "string \<Rightarrow> string + web_reply" where
  "page body = Inr \<lparr>wpStatus = 200, wpBody = body, wpReadError = None\<rparr>"

definition first_page :: string where
  "first_page = ''<Auth><TwfID>0123456789abcdef</TwfID><RSA_ENCRYPT_KEY>AB</RSA_ENCRYPT_KEY></Auth>''"

definition no_xml :: "unit xml_env" where
  "no_xml = \<lparr>xRead = (\<lambda>_. Inl ''no document''), xSelect = (\<lambda>_ _. None), xSelectAll = (\<lambda>_ _. []), xAttr = (\<lambda>_ _. None),
     nParseIP = (\<lambda>_. None), nSetError = (\<lambda>_. None)\<rparr>"

text \<open>A server that answers the second request with the given text.\<close>

definition demo_web :: "string \<Rightarrow> unit web_env" where
  "demo_web second =
     \<lparr>weDo = (\<lambda>h. page (if length h = 2 then second else first_page)), weCode = (\<lambda>_ _. Inl []),
      weCaptcha = (\<lambda>_ _ _. Inl []), weTOTP = (\<lambda>_ _. Inl []), weEncrypt = (\<lambda>_ _ _ m. Inr m), wePEM = (\<lambda>_. False),
      weReply = (\<lambda>_. Inl []), weXML = no_xml,
      weNet = (\<lambda>_. (answering_env [0, 0, 0, 0, 10, 0, 0, 7])
        \<lparr>eeAgent := Inr (demo_ec_conn (replicate 8 1), replicate 16 1)\<rparr>),
      weProbe = (\<lambda>_ _ _. new_result None)\<rparr>"

definition demo_web_client :: web_client where
  "demo_web_client = NewClient \<lparr>oServer = ''vpn'', oScheme = [], oUsername = ''u'', oPassword = ''p'', oTOTPSecret = [],
     oCertificate = False, oSessionID = [], oMultiLine = False, oParse = False, oUseDomain = False, oHasDialer = True,
     oGraphFile = []\<rparr>"

lemma demo_setup_ok: "fst (Setup (demo_web ''<Result>1</Result>'') demo_web_client) = Inr ()"
  by code_simp

lemma demo_login_web: "fst (requestTwfID (demo_web ''<Result>1</Result>'') demo_web_client) = Inr ()"
  by code_simp



text \<open>A rejected password leaves the session id of the first reply behind. The next set-up takes it for a
  session: it sends no login request and succeeds.\<close>

lemma rejected_login_taken_for_session:
  "case Setup (demo_web ''<Result>0</Result>'') demo_web_client of (r, s1) \<Rightarrow>
     r = Inl (WebLoginFailed ''<Result>0</Result>'') \<and> length (wcSent s1) = 2
     \<and> (case Setup (demo_web ''<Result>0</Result>'') s1 of (r2, s2) \<Rightarrow> r2 = Inr () \<and> wcSent s2 = wcSent s1)"
  by code_simp

text \<open>An empty session id in the last reply replaces the good one, and the token panics.\<close>

lemma empty_update_panics:
  "fst (Setup (demo_web ''<Result>1</Result><TwfID></TwfID>'') demo_web_client) = Inl WebPanic"
  by code_simp

end
