(* ===== verification/PcapCapture.thy ===== *)
theory PcapCapture
  imports Zctcpip
begin

text \<open>
  The packet capture of the underlay (\<open>underlay/pcap.go\<close>): what a captured connection reads and writes is
  cut into events, the write loop turns each event into a TCP packet of its own with running sequence
  numbers, and appends it to a file in pcap format. The queue keeps the events in order, so the capture is
  the list of all events sent to it. The file is a parameter that may refuse a write. Captured IPv4 packets
  pass the checks of \<open>Zctcpip\<close>, and the file can be read back to the streams.
\<close>

section \<open>Serialising a packet\<close>

record tcp_addr =
  taIP :: ip
  taPort :: int

text \<open>\<open>checksum\<close>: the sum of the 16-bit words, then the carries folded in until none is left.\<close>

fun word_sum :: "u32 \<Rightarrow> bytes \<Rightarrow> u32" where
  "word_sum s (a # b # r) = word_sum (s + ucast (be16 a b)) r"
| "word_sum s [a] = s + push_bit 8 (ucast a)"
| "word_sum s [] = s"

function fold_carries :: "u32 \<Rightarrow> u32" where
  "fold_carries s = (if drop_bit 16 s \<noteq> 0 then fold_carries ((s AND 0xffff) + drop_bit 16 s) else s)"
  by pat_completeness auto
termination
proof (relation "measure unat")
  fix s :: u32
  assume "drop_bit 16 s \<noteq> 0"
  then have "unat (drop_bit 16 s) \<noteq> 0" by (simp add: unat_eq_0)
  then have hi: "0 < unat s div 65536" by (simp add: unat_drop_bit16)
  have "unat ((s AND 0xffff) + drop_bit 16 s) \<le> unat s mod 65536 + unat s div 65536"
    by (simp add: unat_word_ariths unat_and_ffff unat_drop_bit16)
  also have "\<dots> < unat s" using hi div_mult_mod_eq [of "unat s" 65536] by linarith
  finally show "((s AND 0xffff) + drop_bit 16 s, s) \<in> measure unat" by simp
qed simp

declare fold_carries.simps [simp del]

definition pcap_checksum :: "bytes \<Rightarrow> u16" where
  "pcap_checksum b = NOT (ucast (fold_carries (word_sum 0 b)))"

text \<open>\<open>PutUint16\<close> into a buffer at a position.\<close>

definition put_u16 :: "nat \<Rightarrow> u16 \<Rightarrow> bytes \<Rightarrow> bytes" where
  "put_u16 i w b = b[i := hi8 w, Suc i := lo8 w]"

definition writeTCPHeader :: "int \<Rightarrow> int \<Rightarrow> u32 \<Rightarrow> u32 \<Rightarrow> bytes" where
  "writeTCPHeader srcPort dstPort sequ ack =
     bytes16 (word_of_int srcPort) @ bytes16 (word_of_int dstPort) @ bytes32 sequ @ bytes32 ack
       @ [push_bit 4 5, 0x18] @ bytes16 65535 @ [0, 0, 0, 0]"

definition serializeIPv4TCP :: "bytes \<Rightarrow> bytes \<Rightarrow> int \<Rightarrow> int \<Rightarrow> u32 \<Rightarrow> u32 \<Rightarrow> bytes \<Rightarrow> bytes" where
  "serializeIPv4TCP src dst srcPort dstPort sequ ack payload =
     (let total = 20 + 20 + length payload;
          hdr = [0x45, 0] @ bytes16 (word_of_nat total) @ [0, 0, 0, 0, 64, 6, 0, 0] @ src @ dst;
          hdr = put_u16 10 (pcap_checksum hdr) hdr;
          segment = writeTCPHeader srcPort dstPort sequ ack @ payload;
          pseudo = src @ dst @ [0, 6] @ bytes16 (word_of_nat (total - 20)) @ segment
      in hdr @ put_u16 16 (pcap_checksum pseudo) segment)"

definition serializeIPv6TCP :: "bytes \<Rightarrow> bytes \<Rightarrow> int \<Rightarrow> int \<Rightarrow> u32 \<Rightarrow> u32 \<Rightarrow> bytes \<Rightarrow> bytes" where
  "serializeIPv6TCP src dst srcPort dstPort sequ ack payload =
     (let total = 40 + 20 + length payload;
          hdr = [0x60, 0, 0, 0] @ bytes16 (word_of_nat (total - 40)) @ [6, 64] @ src @ dst;
          segment = writeTCPHeader srcPort dstPort sequ ack @ payload;
          pseudo = src @ dst @ bytes32 (word_of_nat (total - 40)) @ [0, 0, 0, 6] @ segment
      in hdr @ put_u16 16 (pcap_checksum pseudo) segment)"

definition serializeTCPPacket :: "tcp_addr \<Rightarrow> tcp_addr \<Rightarrow> u32 \<Rightarrow> u32 \<Rightarrow> bytes \<Rightarrow> string + bytes" where
  "serializeTCPPacket src dst sequ ack payload =
     (let src4 = to4 (taIP src); dst4 = to4 (taIP dst)
      in if src4 \<noteq> [] \<and> dst4 \<noteq> [] then
           Inr (serializeIPv4TCP src4 dst4 (taPort src) (taPort dst) sequ ack payload)
         else
           let src6 = to16 (taIP src); dst6 = to16 (taIP dst)
           in if src6 = [] \<or> dst6 = [] \<or> src4 \<noteq> [] \<or> dst4 \<noteq> [] then
                Inl ''incompatible TCP address families''
              else Inr (serializeIPv6TCP src6 dst6 (taPort src) (taPort dst) sequ ack payload))"


section \<open>Events and the write loop\<close>

datatype captureDirection = captureOutgoing | captureIncoming

record captureEvent =
  ceID :: u32
  ceDirection :: captureDirection
  ceTime :: "int \<times> int"
  ceLocal :: tcp_addr
  ceRemote :: tcp_addr
  cePayload :: bytes

record pcapStreamState =
  sendSeq :: u32
  receiveSeq :: u32

definition new_stream :: "u32 \<Rightarrow> pcapStreamState" where
  "new_stream n = (let base = push_bit 20 n in \<lparr>sendSeq = base + 1, receiveSeq = base + push_bit 19 1\<rparr>)"

definition event_packet :: "captureEvent \<Rightarrow> pcapStreamState \<Rightarrow> (string + bytes) \<times> pcapStreamState" where
  "event_packet e s =
     (let n = word_of_nat (length (cePayload e))
      in case ceDirection e of
           captureOutgoing \<Rightarrow>
             (serializeTCPPacket (ceLocal e) (ceRemote e) (sendSeq s) (receiveSeq s) (cePayload e),
              s\<lparr>sendSeq := sendSeq s + n\<rparr>)
         | captureIncoming \<Rightarrow>
             (serializeTCPPacket (ceRemote e) (ceLocal e) (receiveSeq s) (sendSeq s) (cePayload e),
              s\<lparr>receiveSeq := receiveSeq s + n\<rparr>))"

definition le16 :: "u16 \<Rightarrow> bytes" where "le16 w = rev (bytes16 w)"

definition le32 :: "u32 \<Rightarrow> bytes" where "le32 w = rev (bytes32 w)"

definition pcapLinkTypeRaw :: u32 where "pcapLinkTypeRaw = 101"

definition pcap_header :: bytes where
  "pcap_header = le32 0xa1b2c3d4 @ le16 2 @ le16 4 @ replicate 8 0 @ le32 65535 @ le32 pcapLinkTypeRaw"

text \<open>\<open>writePCAPPacket\<close>: a time in seconds and nanoseconds. The file refuses a write when the function says
  so for all that was to be written.\<close>

definition pcap_record :: "int \<times> int \<Rightarrow> bytes \<Rightarrow> bytes" where
  "pcap_record t packet =
     (let n = word_of_nat (length packet)
      in le32 (word_of_int (fst t)) @ le32 (word_of_int (snd t div 1000)) @ le32 n @ le32 n @ packet)"

definition file_write :: "(bytes \<Rightarrow> string option) \<Rightarrow> bytes \<Rightarrow> bytes \<Rightarrow> string + bytes" where
  "file_write refuse out b = (case refuse (out @ b) of Some e \<Rightarrow> Inl e | None \<Rightarrow> Inr (out @ b))"

record capture_loop =
  clStreams :: "(u32, pcapStreamState) gomap"
  clOut :: bytes
  clError :: "string option"

definition loop_event :: "(bytes \<Rightarrow> string option) \<Rightarrow> captureEvent \<Rightarrow> capture_loop \<Rightarrow> capture_loop" where
  "loop_event refuse e l =
     (if clError l \<noteq> None then l
      else
        let s = (case mget (clStreams l) (ceID e) of Some s \<Rightarrow> s | None \<Rightarrow> new_stream (ceID e));
            (packet, s) = event_packet e s;
            l = l\<lparr>clStreams := mset (ceID e) s (clStreams l)\<rparr>
        in case packet of
             Inl err \<Rightarrow> l\<lparr>clError := Some err\<rparr>
           | Inr p \<Rightarrow>
               (case file_write refuse (clOut l) (pcap_record (ceTime e) p) of
                  Inl err \<Rightarrow> l\<lparr>clError := Some err\<rparr>
                | Inr out \<Rightarrow> l\<lparr>clOut := out\<rparr>))"

definition writeLoop :: "(bytes \<Rightarrow> string option) \<Rightarrow> captureEvent list \<Rightarrow> capture_loop" where
  "writeLoop refuse es =
     fold (loop_event refuse) es \<lparr>clStreams = [], clOut = pcap_header, clError = None\<rparr>"


section \<open>Captured connections\<close>

record pcapCapture =
  pcEvents :: "captureEvent list"
  pcClosed :: bool
  pcNextID :: u32

record pcapConn =
  pnID :: u32
  pnLocal :: tcp_addr
  pnRemote :: tcp_addr

text \<open>\<open>newPCAPCapture\<close> once the file is open: its header may be refused.\<close>

definition newPCAPCapture :: "(bytes \<Rightarrow> string option) \<Rightarrow> string + pcapCapture" where
  "newPCAPCapture refuse =
     (case file_write refuse [] pcap_header of
        Inl e \<Rightarrow> Inl e
      | Inr _ \<Rightarrow> Inr \<lparr>pcEvents = [], pcClosed = False, pcNextID = 0\<rparr>)"

definition Wrap ::
  "tcp_addr option \<Rightarrow> tcp_addr option \<Rightarrow> pcapCapture \<Rightarrow> pcapConn option \<times> pcapCapture" where
  "Wrap local remote c =
     (case (local, remote) of
        (Some l, Some r) \<Rightarrow>
          if taIP l = [] \<or> taIP r = [] \<or> pcClosed c then (None, c)
          else (let n = pcNextID c + 1
                in (Some \<lparr>pnID = n, pnLocal = l, pnRemote = r\<rparr>, c\<lparr>pcNextID := n\<rparr>))
      | _ \<Rightarrow> (None, c))"

definition pcap_enqueue :: "captureEvent \<Rightarrow> pcapCapture \<Rightarrow> bool \<times> pcapCapture" where
  "pcap_enqueue e c = (if pcClosed c then (False, c) else (True, c\<lparr>pcEvents := pcEvents c @ [e]\<rparr>))"

definition maxTCPPayload :: nat where "maxTCPPayload = 60000"

function capturePayload ::
  "pcapConn \<Rightarrow> captureDirection \<Rightarrow> int \<times> int \<Rightarrow> bytes \<Rightarrow> pcapCapture \<Rightarrow> pcapCapture" where
  "capturePayload k dir t payload c =
     (if payload = [] then c
      else
        let chunk = take maxTCPPayload payload;
            (ok, c) = pcap_enqueue \<lparr>ceID = pnID k, ceDirection = dir, ceTime = t, ceLocal = pnLocal k,
              ceRemote = pnRemote k, cePayload = chunk\<rparr> c
        in if ok then capturePayload k dir t (drop maxTCPPayload payload) c else c)"
  by pat_completeness auto
termination
  by (relation "measure (\<lambda>(k, dir, t, p, c). length p)") (auto simp: maxTCPPayload_def)

declare capturePayload.simps [simp del]

text \<open>\<open>Read\<close> and \<open>Write\<close> with the bytes the inner connection moved.\<close>

fun captured_io :: "pcapConn \<Rightarrow> captureDirection \<times> (int \<times> int) \<times> bytes \<Rightarrow> pcapCapture \<Rightarrow> pcapCapture" where
  "captured_io k (dir, t, moved) c = (if 0 < length moved then capturePayload k dir t moved c else c)"

definition pcap_Close :: "pcapCapture \<Rightarrow> pcapCapture" where
  "pcap_Close c = c\<lparr>pcClosed := True\<rparr>"

section \<open>The checksum\<close>

lemma word_sum_eq: "word_sum s b = s + word_of_nat (ref_sum b)"
proof (induction s b rule: word_sum.induct)
  case (1 s a b r)
  have "ucast (be16 a b) = (word_of_nat (unat a * 256 + unat b) :: u32)"
  proof -
    have "unat a * 256 + unat b < 65536" using unat_u16_bound [of "be16 a b"] by (simp add: unat_be16)
    then have "unat (ucast (be16 a b) :: u32) = unat a * 256 + unat b"
      "unat (word_of_nat (unat a * 256 + unat b) :: u32) = unat a * 256 + unat b"
      by (simp_all only: unsigned_ucast_eq unat_be16 take_bit_nat_eq_self_iff unat_of_nat) (simp_all add: take_bit_nat_eq_self)
    then show ?thesis by (simp only: word_unat_eq_iff)
  qed
  then show ?case using 1 by (simp add: add.assoc)
next
  case (2 s a)
  then show ?case using push8_of_nat [of a] by simp
qed simp

lemma oc_norm_small: "n \<le> 65535 \<Longrightarrow> oc_norm n = n"
  by (simp add: oc_norm_def)

lemma unat_fold_carries: "unat (fold_carries s) = oc_norm (unat s)"
proof (induction s rule: fold_carries.induct)
  case (1 s)
  let ?t = "(s AND 0xffff) + drop_bit 16 s"
  have "unat s mod 65536 < 65536" "unat s div 65536 < 65536"
    using unat_u32_bound [of s] by (simp_all add: div_less_iff_less_mult)
  then have t: "unat ?t = unat s mod 65536 + unat s div 65536"
    by (simp add: unat_word_ariths unat_and_ffff unat_drop_bit16)
  show ?case
  proof (cases "drop_bit 16 s = 0")
    case True
    then have "unat s div 65536 = 0" using unat_drop_bit16 [of 16 s] by simp
    then have "unat s \<le> 65535" by simp
    then show ?thesis using True by (subst fold_carries.simps) (simp add: oc_norm_small)
  next
    case False
    then have "unat (drop_bit 16 s) \<noteq> 0" by (simp add: unat_eq_0)
    then have hi: "0 < unat s div 65536" by (simp add: unat_drop_bit16)
    have "unat s = unat ?t + 65535 * (unat s div 65536)" using t div_mult_mod_eq [of "unat s" 65536] by linarith
    then have "oc_norm (unat s) = oc_norm (unat ?t)"
      using oc_norm_add [of "unat ?t" "unat s div 65536"] hi t by simp
    then show ?thesis using False 1 by (subst fold_carries.simps) simp
  qed
qed

lemma unat_not16: "unat (NOT (w :: u16)) = 65535 - unat w"
proof -
  have "NOT w = (- 1) - w" by (simp add: not_eq_complement)
  moreover have "w \<le> - 1" by (rule word_order.extremum)
  ultimately have "unat (NOT w) = unat (- 1 :: u16) - unat w" by (simp only: unat_sub)
  then show ?thesis by (simp add: unsigned_minus_1_eq_mask mask_eq_exp_minus_1)
qed

lemma unat_pcap_checksum: "unat (pcap_checksum b) = 65535 - oc_norm (ref_sum b mod 2 ^ 32)"
proof -
  have s: "unat (fold_carries (word_sum 0 b)) = oc_norm (ref_sum b mod 2 ^ 32)"
    by (simp add: unat_fold_carries word_sum_eq unat_of_nat)
  have u: "unat (ucast (fold_carries (word_sum 0 b)) :: u16) = oc_norm (ref_sum b mod 2 ^ 32)"
    using s oc_norm_le [of "ref_sum b mod 2 ^ 32"] by (simp add: unsigned_ucast_eq take_bit_nat_eq_self)
  show ?thesis unfolding pcap_checksum_def unat_not16 u ..
qed

text \<open>The checksum of a buffer is the one of \<open>Zctcpip\<close> with any start value that makes up the same sum.\<close>

lemma pcap_checksum_eq:
  assumes "unat s + ref_sum b = ref_sum c"
  shows "Checksum s b = (hi8 (pcap_checksum c), lo8 (pcap_checksum c))"
proof -
  have "unat (case_prod be16 (Checksum s b)) = unat (pcap_checksum c)"
    using assms by (simp add: unat_Checksum unat_pcap_checksum)
  then have "case_prod be16 (Checksum s b) = pcap_checksum c" by (simp only: word_unat_eq_iff)
  then show ?thesis by (cases "Checksum s b") (metis case_prod_conv hi8_be16 lo8_be16)
qed


section \<open>Captured packets pass verification\<close>

lemma length_writeTCPHeader [simp]: "length (writeTCPHeader a b c d) = 20"
  by (simp add: writeTCPHeader_def)

lemma ref_sum_zero_field:
  "even i \<Longrightarrow> Suc i < length z \<Longrightarrow> z ! i = 0 \<Longrightarrow> z ! Suc i = 0 \<Longrightarrow> z[i := 0, Suc i := 0] = z"
  by (metis list_update_id)

lemma segment_zero:
  "(writeTCPHeader a b c d @ payload) ! 16 = 0" "(writeTCPHeader a b c d @ payload) ! 17 = 0"
  by (simp_all add: writeTCPHeader_def nth_append bytes16_def bytes32_def)

text \<open>The two parts of a serialised packet.\<close>

definition captured_header :: "bytes \<Rightarrow> bytes \<Rightarrow> nat \<Rightarrow> bytes" where
  "captured_header src dst n =
     (let hdr = [0x45, 0] @ bytes16 (word_of_nat n) @ [0, 0, 0, 0, 64, 6, 0, 0] @ src @ dst
      in put_u16 10 (pcap_checksum hdr) hdr)"

definition captured_segment :: "bytes \<Rightarrow> bytes \<Rightarrow> bytes \<Rightarrow> bytes" where
  "captured_segment src dst segment =
     put_u16 16 (pcap_checksum (src @ dst @ [0, 6] @ bytes16 (word_of_nat (length segment)) @ segment)) segment"

lemma serialize_parts:
  "serializeIPv4TCP src dst sp dp sequ ack payload =
     captured_header src dst (40 + length payload) @ captured_segment src dst (writeTCPHeader sp dp sequ ack @ payload)"
  by (simp add: serializeIPv4TCP_def captured_header_def captured_segment_def Let_def)

lemma pcap_four_bytes: "length x = 4 \<Longrightarrow> \<exists>a b c d. x = [a, b, c, d]"
  by (auto simp: numeral_eq_Suc length_Suc_conv)

lemma captured_header_fields:
  assumes "length src = 4" "length dst = 4" "length seg + 20 = n" "n \<le> 60040" "20 \<le> length seg"
  defines "p \<equiv> captured_header src dst n @ seg"
  shows "IPv4_Verify p = Some (p, None)" "IPv4_Valid p = Some True" "Payload p = Some seg"
    "SourceIP p = Some (to16 src)" "DestinationIP p = Some (to16 dst)" "drop 20 p = seg" "length p = n"
proof -
  define tw :: u16 where "tw = word_of_nat n"
  have tw: "unat tw = n" using assms(4) by (simp add: tw_def unat_word_of_nat_small)
  obtain a b c d e f g h where src: "src = [a, b, c, d]" and dst: "dst = [e, f, g, h]"
    using pcap_four_bytes [OF assms(1)] pcap_four_bytes [OF assms(2)] by blast
  define hdr0 where "hdr0 = [0x45, 0, hi8 tw, lo8 tw, 0, 0, 0, 0, 64, 6, 0, 0, a, b, c, d, e, f, g, h]"
  define ck where "ck = pcap_checksum hdr0"
  have p: "p = [0x45, 0, hi8 tw, lo8 tw, 0, 0, 0, 0, 64, 6, hi8 ck, lo8 ck, a, b, c, d, e, f, g, h] @ seg"
    by (simp add: p_def captured_header_def Let_def ck_def hdr0_def tw_def src dst bytes16_def put_u16_def)
  show l: "length p = n" "drop 20 p = seg" using assms(3) by (simp_all add: p)
  have ok: "ip_header_ok p"
    using assms(3,4) tw l(1) by (simp add: ip_header_ok_def p unat_len16)
  have zero: "take (header_len p) (p[10 := 0, 11 := 0]) = hdr0" by (simp add: p hdr0_def)
  have "Checksum 0 hdr0 = (hi8 ck, lo8 ck)" unfolding ck_def by (rule pcap_checksum_eq) simp
  then show "IPv4_Verify p = Some (p, None)"
    using ok by (subst IPv4_Verify_eq) (simp_all add: zero ip_header_ok_def, simp_all add: p)
  have t: "TotalLen p = Some tw" by (simp add: TotalLen_def be16_at_def idx_def p)
  have h: "HeaderLen p = Some 20" by (simp add: HeaderLen_def idx_def p)
  show "IPv4_Valid p = Some True"
    using assms(3-5) l tw by (simp add: IPv4_Valid_def t h word_le_nat_alt unat_len16)
  show "Payload p = Some seg"
    using l tw by (simp add: Payload_def t h slice_def) (simp add: p)
  show "SourceIP p = Some (to16 src)" "DestinationIP p = Some (to16 dst)"
    by (simp_all add: SourceIP_def DestinationIP_def ip_at_def idx_def p src dst to16_def ipv4_def)
qed

lemma captured_segment_fields:
  assumes "seg0 = writeTCPHeader sp dp sequ ack @ payload"
  shows "length (captured_segment src dst seg0) = 20 + length payload"
    "drop 20 (captured_segment src dst seg0) = payload"
    "SourcePort (captured_segment src dst seg0) = Some (word_of_int sp)"
    "DestinationPort (captured_segment src dst seg0) = Some (word_of_int dp)"
    "be32_at (captured_segment src dst seg0) 4 = Some sequ"
  unfolding assms captured_segment_def
  by (simp_all add: put_u16_def drop_update_cancel SourcePort_def DestinationPort_def be16_at_def be32_at_def idx_def
      writeTCPHeader_def bytes16_def bytes32_def be32_of_halves)

lemma captured_segment_verifies:
  assumes "length src = 4" "length dst = 4" "length payload \<le> maxTCPPayload"
    "seg0 = writeTCPHeader sp dp sequ ack @ payload"
  shows "TCP_Verify (captured_segment src dst seg0) src dst = Some (captured_segment src dst seg0, None)"
proof -
  have len: "length seg0 = 20 + length payload" "length seg0 \<le> 60020"
    using assms(3,4) by (simp_all add: maxTCPPayload_def)
  let ?psum = "Sum src + Sum dst + ucast TCP + word_of_nat (length seg0)"
  define tk where "tk = pcap_checksum (src @ dst @ [0, 6] @ bytes16 (word_of_nat (length seg0)) @ seg0)"
  define n where "n = ref_sum src + ref_sum dst + 6 + length seg0"
  obtain a b c d e f g h where ab: "src = [a, b, c, d]" "dst = [e, f, g, h]"
    using pcap_four_bytes [OF assms(1)] pcap_four_bytes [OF assms(2)] by blast
  have n: "n < 2 ^ 32"
    using ref_sum_four_bound [of src] ref_sum_four_bound [of dst] assms(1,2) len by (simp add: n_def)
  have "?psum = word_of_nat n" by (simp add: Sum_eq n_def TCP_def)
  then have u: "unat ?psum = n" using n by (simp add: unat_word_of_nat_small)
  have sl: "unat (word_of_nat (length seg0) :: u16) = length seg0"
    using len(2) by (intro unat_word_of_nat_small) simp
  have "ref_sum (src @ dst @ [0, 6] @ bytes16 (word_of_nat (length seg0)) @ seg0) = n + ref_sum seg0"
    unfolding ab n_def by (simp add: bytes16_def unat_hi8 unat_lo8 sl)
  then have c: "Checksum ?psum seg0 = (hi8 tk, lo8 tk)"
    unfolding tk_def by (intro pcap_checksum_eq) (simp add: u)
  have z: "seg0[16 := 0, 17 := 0] = seg0"
    using segment_zero [of sp dp sequ ack payload] unfolding assms(4) by (metis list_update_id)
  have "TCP_ResetChecksum seg0 ?psum = Some (captured_segment src dst seg0)"
    using len c by (simp add: TCP_ResetChecksum_def TCP_SetChecksum_def SetChecksum_at_def put_def z
        captured_segment_def put_u16_def tk_def)
  then show ?thesis
    using tcp_checksum_verifies_either_form [OF assms(1,2) _ refl, of seg0] len by simp
qed

text \<open>
  Every captured IPv4 packet is one that this program's own packet library accepts. The header verifies,
  the payload it delimits is a TCP segment that verifies for the two addresses, with the ports given and,
  after its 20 bytes, exactly the bytes captured.
\<close>

lemma captured_packet_verifies:
  assumes "length src = 4" "length dst = 4" "length payload \<le> maxTCPPayload"
  shows "\<exists>seg. let p = serializeIPv4TCP src dst sp dp sequ ack payload in
     IPv4_Verify p = Some (p, None) \<and> IPv4_Valid p = Some True \<and> Payload p = Some seg
     \<and> SourceIP p = Some (to16 src) \<and> DestinationIP p = Some (to16 dst)
     \<and> TCP_Verify seg src dst = Some (seg, None) \<and> drop 20 seg = payload
     \<and> SourcePort seg = Some (word_of_int sp) \<and> DestinationPort seg = Some (word_of_int dp)"
proof -
  let ?seg = "captured_segment src dst (writeTCPHeader sp dp sequ ack @ payload)"
  note seg = captured_segment_fields [OF refl, of src dst sp dp sequ ack payload]
  have "length ?seg + 20 = 40 + length payload" "40 + length payload \<le> 60040" "20 \<le> length ?seg"
    using seg(1) assms(3) by (simp_all add: maxTCPPayload_def)
  note hdr = captured_header_fields [OF assms(1,2) this]
  show ?thesis unfolding serialize_parts Let_def
    using hdr seg captured_segment_verifies [OF assms refl] by blast
qed

lemma captured_packet_verifies_example:
  "\<exists>seg. let p = serializeIPv4TCP [10, 0, 0, 1] [10, 0, 0, 2] 1025 80 7 9 [1, 2, 3] in
     IPv4_Verify p = Some (p, None) \<and> Payload p = Some seg \<and> TCP_Verify seg [10, 0, 0, 1] [10, 0, 0, 2] = Some (seg, None)
     \<and> drop 20 seg = [1, 2, 3]"
  using captured_packet_verifies [of "[10, 0, 0, 1]" "[10, 0, 0, 2]" "[1, 2, 3]" 1025 80 7 9]
  by (auto simp: Let_def maxTCPPayload_def)

section \<open>Reading the file back\<close>

text \<open>A reader of the format: the packets of the records after the file header.\<close>

definition record_length :: "bytes \<Rightarrow> nat" where
  "record_length f = unat (be32 (f ! 11) (f ! 10) (f ! 9) (f ! 8))"

function pcap_packets :: "bytes \<Rightarrow> bytes list" where
  "pcap_packets f =
     (if length f < 16 then []
      else take (record_length f) (drop 16 f) # pcap_packets (drop (16 + record_length f) f))"
  by pat_completeness auto
termination
  by (relation "measure length") auto

declare pcap_packets.simps [simp del]

lemma pcap_packets_record:
  assumes "length p < 2 ^ 32"
  shows "pcap_packets (pcap_record t p @ f) = p # pcap_packets f"
proof -
  define n :: u32 where "n = word_of_nat (length p)"
  have n: "unat n = length p" using assms by (simp add: n_def unat_of_nat)
  define hd16 where "hd16 = le32 (word_of_int (fst t)) @ le32 (word_of_int (snd t div 1000)) @ le32 n @ le32 n"
  have r: "pcap_record t p = hd16 @ p" by (simp add: pcap_record_def hd16_def Let_def n_def)
  have l: "length hd16 = 16" by (simp add: hd16_def le32_def)
  have "record_length (hd16 @ p @ f) = length p"
    unfolding record_length_def hd16_def
    by (simp add: le32_def bytes32_def bytes16_def be32_of_halves n)
  then show ?thesis unfolding r using l by (subst pcap_packets.simps) simp
qed

lemma pcap_packets_concat:
  assumes "length ts = length ps" "\<forall>p \<in> set ps. length p < 2 ^ 32"
  shows "pcap_packets (concat (map2 pcap_record ts ps)) = ps"
  using assms
proof (induction ts ps rule: list_induct2)
  case Nil
  then show ?case by (simp add: pcap_packets.simps)
qed (simp add: pcap_packets_record)

text \<open>The stream one end sent: the payloads of the packets with its address and port as source, and the
  sequence numbers such a stream has to have.\<close>

definition sent_by :: "tcp_addr \<Rightarrow> bytes \<Rightarrow> bool" where
  "sent_by a p \<longleftrightarrow> SourceIP p = Some (to16 (to4 (taIP a))) \<and> be16_at p 20 = Some (word_of_int (taPort a))"

definition stream_of :: "tcp_addr \<Rightarrow> bytes list \<Rightarrow> bytes" where
  "stream_of a ps = concat (map (drop 40) (filter (sent_by a) ps))"

fun running_seqs :: "u32 \<Rightarrow> bytes list \<Rightarrow> u32 option list" where
  "running_seqs s [] = []"
| "running_seqs s (x # xs) = Some s # running_seqs (s + word_of_nat (length x)) xs"

definition seqs_of :: "tcp_addr \<Rightarrow> bytes list \<Rightarrow> u32 option list" where
  "seqs_of a ps = map (\<lambda>p. be32_at p 24) (filter (sent_by a) ps)"

definition payloads_of :: "captureDirection \<Rightarrow> captureEvent list \<Rightarrow> bytes list" where
  "payloads_of dir es = map cePayload (filter (\<lambda>e. ceDirection e = dir) es)"

text \<open>The two ends differ in their IPv4 address or their port.\<close>

definition two_ends :: "tcp_addr \<Rightarrow> tcp_addr \<Rightarrow> bool" where
  "two_ends a b \<longleftrightarrow> length (to4 (taIP a)) = 4 \<and> length (to4 (taIP b)) = 4
     \<and> (to4 (taIP a) \<noteq> to4 (taIP b) \<or> (word_of_int (taPort a) :: u16) \<noteq> word_of_int (taPort b))"

lemma packet_of_end:
  assumes "two_ends a b \<or> two_ends b a" "length x \<le> maxTCPPayload"
  shows "\<exists>p. serializeTCPPacket a b sequ ack x = Inr p \<and> sent_by a p \<and> \<not> sent_by b p \<and> drop 40 p = x
    \<and> be32_at p 24 = Some sequ \<and> length p < 2 ^ 32"
proof -
  let ?src = "to4 (taIP a)" and ?dst = "to4 (taIP b)"
  let ?seg = "captured_segment ?src ?dst (writeTCPHeader (taPort a) (taPort b) sequ ack @ x)"
  define p where "p = captured_header ?src ?dst (40 + length x) @ ?seg"
  have l: "length ?src = 4" "length ?dst = 4" using assms(1) by (auto simp: two_ends_def)
  note seg = captured_segment_fields [OF refl, of ?src ?dst "taPort a" "taPort b" sequ ack x]
  have len: "length ?seg + 20 = 40 + length x" "40 + length x \<le> 60040" "20 \<le> length ?seg"
    using seg(1) assms(2) by (simp_all add: maxTCPPayload_def)
  note hdr = captured_header_fields [OF l len, folded p_def]
  have at: "be16_at p 20 = SourcePort ?seg" "be32_at p 24 = be32_at ?seg 4"
    using hdr(6) len(3) hdr(7) unfolding SourcePort_def
    by (simp_all add: be16_at_def be32_at_def idx_def flip: hdr(6))
  have "to16 ?src = to16 ?dst \<longleftrightarrow> ?src = ?dst" using l by (simp add: to16_def)
  then have "sent_by a p" "\<not> sent_by b p"
    using assms(1) hdr(4) at(1) seg(3) by (auto simp: sent_by_def two_ends_def)
  moreover have "drop 40 p = x" using hdr(6) seg(2) by (metis drop_drop numeral_Bit0)
  moreover have "serializeTCPPacket a b sequ ack x = Inr p"
    using l by (auto simp: serializeTCPPacket_def serialize_parts p_def Let_def)
  ultimately show ?thesis using at(2) seg(5) hdr(7) len(2) by simp
qed

section \<open>The captured streams\<close>

lemma capturePayload_events:
  assumes "\<not> pcClosed c"
  shows "\<exists>es. capturePayload k dir t payload c = c\<lparr>pcEvents := pcEvents c @ es\<rparr>
    \<and> concat (map cePayload es) = payload
    \<and> (\<forall>e \<in> set es. ceID e = pnID k \<and> ceLocal e = pnLocal k \<and> ceRemote e = pnRemote k
         \<and> ceDirection e = dir \<and> length (cePayload e) \<le> maxTCPPayload)"
  using assms
proof (induction k dir t payload c rule: capturePayload.induct)
  case (1 k dir t payload c)
  show ?case
  proof (cases "payload = []")
    case True
    then show ?thesis by (subst capturePayload.simps) (auto intro!: exI [of _ "[]"])
  next
    case False
    define e where "e = \<lparr>ceID = pnID k, ceDirection = dir, ceTime = t, ceLocal = pnLocal k, ceRemote = pnRemote k,
      cePayload = take maxTCPPayload payload\<rparr>"
    define c' where "c' = c\<lparr>pcEvents := pcEvents c @ [e]\<rparr>"
    have q: "pcap_enqueue e c = (True, c')" using 1(2) by (simp add: pcap_enqueue_def c'_def)
    have step: "capturePayload k dir t payload c = capturePayload k dir t (drop maxTCPPayload payload) c'"
      using False q by (subst capturePayload.simps) (simp add: Let_def e_def)
    have "\<not> pcClosed c'" using 1(2) by (simp add: c'_def)
    then obtain es where "capturePayload k dir t (drop maxTCPPayload payload) c' = c'\<lparr>pcEvents := pcEvents c' @ es\<rparr>"
      "concat (map cePayload es) = drop maxTCPPayload payload"
      "\<forall>e \<in> set es. ceID e = pnID k \<and> ceLocal e = pnLocal k \<and> ceRemote e = pnRemote k
         \<and> ceDirection e = dir \<and> length (cePayload e) \<le> maxTCPPayload"
      using 1(1) [OF False refl _ refl] q unfolding e_def by auto
    then show ?thesis unfolding step
      by (intro exI [of _ "e # es"]) (auto simp: c'_def e_def)
  qed
qed

definition events_of :: "pcapConn \<Rightarrow> captureEvent list \<Rightarrow> bool" where
  "events_of k es \<longleftrightarrow> (\<forall>e \<in> set es. ceID e = pnID k \<and> ceLocal e = pnLocal k \<and> ceRemote e = pnRemote k
     \<and> length (cePayload e) \<le> maxTCPPayload)"

text \<open>What the connection moved in one direction.\<close>

definition moved :: "captureDirection \<Rightarrow> (captureDirection \<times> (int \<times> int) \<times> bytes) list \<Rightarrow> bytes" where
  "moved dir io = concat (map (\<lambda>(_, _, x). x) (filter (\<lambda>(d, _). d = dir) io))"

lemma captured_io_events:
  assumes "\<not> pcClosed c"
  shows "\<exists>es. fold (captured_io k) io c = c\<lparr>pcEvents := pcEvents c @ es\<rparr> \<and> events_of k es
    \<and> (\<forall>dir. concat (payloads_of dir es) = moved dir io)"
  using assms
proof (induction io arbitrary: c)
  case Nil
  show ?case by (intro exI [of _ "[]"]) (simp add: events_of_def payloads_of_def moved_def)
next
  case (Cons x io)
  obtain dir t b where x: "x = (dir, t, b)" by (cases x)
  obtain es where es: "captured_io k x c = c\<lparr>pcEvents := pcEvents c @ es\<rparr>" "events_of k es"
    "concat (map cePayload es) = b" "\<forall>e \<in> set es. ceDirection e = dir"
  proof (cases "b = []")
    case True
    then show ?thesis using that [of "[]"] by (simp add: x events_of_def)
  next
    case False
    then show ?thesis
      using capturePayload_events [OF Cons.prems, of k dir t b] that by (auto simp: x events_of_def)
  qed
  have p: "concat (payloads_of d es) = (if d = dir then b else [])" for d
  proof (cases "d = dir")
    case True
    then have "filter (\<lambda>e. ceDirection e = d) es = es" using es(4) by (simp add: filter_id_conv)
    then show ?thesis using es(3) True by (simp add: payloads_of_def)
  next
    case False
    then have "filter (\<lambda>e. ceDirection e = d) es = []" using es(4) by (auto simp: filter_empty_conv)
    then show ?thesis using False by (simp add: payloads_of_def)
  qed
  define c' where "c' = c\<lparr>pcEvents := pcEvents c @ es\<rparr>"
  have "\<not> pcClosed c'" using Cons.prems by (simp add: c'_def)
  then obtain fs where fs: "fold (captured_io k) io c' = c'\<lparr>pcEvents := pcEvents c' @ fs\<rparr>" "events_of k fs"
    "\<forall>dir. concat (payloads_of dir fs) = moved dir io" using Cons.IH by blast
  have "fold (captured_io k) (x # io) c = c\<lparr>pcEvents := pcEvents c @ es @ fs\<rparr>"
    using es(1) fs(1) by (simp add: c'_def)
  moreover have "events_of k (es @ fs)" using es(2) fs(2) by (auto simp: events_of_def)
  moreover have "concat (payloads_of d (es @ fs)) = moved d (x # io)" for d
  proof -
    have "concat (payloads_of d (es @ fs)) = concat (payloads_of d es) @ concat (payloads_of d fs)"
      by (simp add: payloads_of_def)
    then show ?thesis using p [of d] fs(3) by (simp add: moved_def x)
  qed
  ultimately show ?case by blast
qed

text \<open>The stream state the loop has for a connection.\<close>

definition stream_state :: "capture_loop \<Rightarrow> u32 \<Rightarrow> pcapStreamState" where
  "stream_state l n = (case mget (clStreams l) n of Some s \<Rightarrow> s | None \<Rightarrow> new_stream n)"

lemma loop_run:
  assumes "two_ends (pnLocal k) (pnRemote k)" "events_of k es" "clError l = None"
    "s = stream_state l (pnID k)"
  shows "\<exists>ps l'. fold (loop_event (\<lambda>_. None)) es l = l' \<and> clError l' = None
    \<and> clOut l' = clOut l @ concat (map2 pcap_record (map ceTime es) ps) \<and> length ps = length es
    \<and> (\<forall>p \<in> set ps. length p < 2 ^ 32)
    \<and> stream_of (pnLocal k) ps = concat (payloads_of captureOutgoing es)
    \<and> stream_of (pnRemote k) ps = concat (payloads_of captureIncoming es)
    \<and> seqs_of (pnLocal k) ps = running_seqs (sendSeq s) (payloads_of captureOutgoing es)
    \<and> seqs_of (pnRemote k) ps = running_seqs (receiveSeq s) (payloads_of captureIncoming es)"
  using assms(2-4)
proof (induction es arbitrary: l s)
  case Nil
  then show ?case by (intro exI [of _ "[]"]) (simp add: stream_of_def seqs_of_def payloads_of_def)
next
  case (Cons e es)
  have e: "ceID e = pnID k" "ceLocal e = pnLocal k" "ceRemote e = pnRemote k" "length (cePayload e) \<le> maxTCPPayload"
    and es: "events_of k es" using Cons.prems(1) by (auto simp: events_of_def)
  obtain p s' where ps: "event_packet e s = (Inr p, s')" "length p < 2 ^ 32" "drop 40 p = cePayload e"
    "ceDirection e = captureOutgoing \<longrightarrow> sent_by (pnLocal k) p \<and> \<not> sent_by (pnRemote k) p \<and> be32_at p 24 = Some (sendSeq s)
       \<and> s' = s\<lparr>sendSeq := sendSeq s + word_of_nat (length (cePayload e))\<rparr>"
    "ceDirection e = captureIncoming \<longrightarrow> sent_by (pnRemote k) p \<and> \<not> sent_by (pnLocal k) p \<and> be32_at p 24 = Some (receiveSeq s)
       \<and> s' = s\<lparr>receiveSeq := receiveSeq s + word_of_nat (length (cePayload e))\<rparr>"
  proof (cases "ceDirection e")
    case captureOutgoing
    then show ?thesis
      using packet_of_end [of "pnLocal k" "pnRemote k" "cePayload e" "sendSeq s" "receiveSeq s"] assms(1) e that
      by (auto simp: event_packet_def Let_def)
  next
    case captureIncoming
    then show ?thesis
      using packet_of_end [of "pnRemote k" "pnLocal k" "cePayload e" "receiveSeq s" "sendSeq s"] assms(1) e that
      by (auto simp: event_packet_def Let_def)
  qed
  define l1 where "l1 = l\<lparr>clStreams := mset (pnID k) s' (clStreams l), clOut := clOut l @ pcap_record (ceTime e) p\<rparr>"
  have look: "(case mget (clStreams l) (ceID e) of Some s \<Rightarrow> s | None \<Rightarrow> new_stream (ceID e)) = s"
    unfolding e(1) Cons.prems(3) stream_state_def ..
  have step: "loop_event (\<lambda>_. None) e l = l1"
    unfolding loop_event_def look Let_def ps(1) using Cons.prems(2) e(1) by (simp add: file_write_def l1_def)
  have "clError l1 = None" "s' = stream_state l1 (pnID k)"
    using Cons.prems(2) by (simp_all add: l1_def stream_state_def)
  from Cons.IH [OF es this] obtain qs where qs: "clError (fold (loop_event (\<lambda>_. None)) es l1) = None"
    "clOut (fold (loop_event (\<lambda>_. None)) es l1) = clOut l1 @ concat (map2 pcap_record (map ceTime es) qs)"
    "length qs = length es" "\<forall>p \<in> set qs. length p < 2 ^ 32"
    "stream_of (pnLocal k) qs = concat (payloads_of captureOutgoing es)"
    "stream_of (pnRemote k) qs = concat (payloads_of captureIncoming es)"
    "seqs_of (pnLocal k) qs = running_seqs (sendSeq s') (payloads_of captureOutgoing es)"
    "seqs_of (pnRemote k) qs = running_seqs (receiveSeq s') (payloads_of captureIncoming es)" by blast
  show ?case
  proof (intro exI [of _ "p # qs"] exI conjI)
    show "fold (loop_event (\<lambda>_. None)) (e # es) l = fold (loop_event (\<lambda>_. None)) es l1" by (simp add: step)
  qed (use qs ps(2-5) in \<open>cases "ceDirection e"; simp add: l1_def stream_of_def seqs_of_def payloads_of_def\<close>)+
qed

text \<open>
  C39: the capture loses nothing. For one connection between two IPv4 ends, whatever it reads and writes and in
  whatever order, the file begins with the format's header, its records read back as packets, the payloads of
  the packets sent by each end are, put together, exactly the bytes that end sent, and the sequence numbers run
  on by the length of each payload.
\<close>

theorem capture_reads_back:
  assumes "two_ends (pnLocal k) (pnRemote k)" "\<not> pcClosed c" "pcEvents c = []"
    and "pcEvents (fold (captured_io k) io c) = es"
  shows "\<exists>ps xs ys. let l = writeLoop (\<lambda>_. None) es in clError l = None
    \<and> take 24 (clOut l) = pcap_header \<and> pcap_packets (drop 24 (clOut l)) = ps
    \<and> stream_of (pnLocal k) ps = moved captureOutgoing io \<and> stream_of (pnRemote k) ps = moved captureIncoming io
    \<and> seqs_of (pnLocal k) ps = running_seqs (push_bit 20 (pnID k) + 1) xs \<and> concat xs = moved captureOutgoing io
    \<and> seqs_of (pnRemote k) ps = running_seqs (push_bit 20 (pnID k) + 2 ^ 19) ys \<and> concat ys = moved captureIncoming io"
proof -
  obtain fs where fs: "fold (captured_io k) io c = c\<lparr>pcEvents := pcEvents c @ fs\<rparr>" "events_of k fs"
    "\<forall>dir. concat (payloads_of dir fs) = moved dir io" using captured_io_events [OF assms(2)] by blast
  have es: "es = fs" using assms(3,4) fs(1) by simp
  define l0 where "l0 = \<lparr>clStreams = [], clOut = pcap_header, clError = None\<rparr>"
  define s where "s = stream_state l0 (pnID k)"
  have s: "sendSeq s = push_bit 20 (pnID k) + 1" "receiveSeq s = push_bit 20 (pnID k) + 2 ^ 19"
    by (simp_all add: s_def stream_state_def l0_def new_stream_def Let_def push_bit_eq_mult)
  have "clError l0 = None" by (simp add: l0_def)
  from loop_run [OF assms(1) fs(2) this s_def] obtain ps where ps: "clError (writeLoop (\<lambda>_. None) es) = None"
    "clOut (writeLoop (\<lambda>_. None) es) = pcap_header @ concat (map2 pcap_record (map ceTime es) ps)" "length ps = length es"
    "\<forall>p \<in> set ps. length p < 2 ^ 32"
    "stream_of (pnLocal k) ps = concat (payloads_of captureOutgoing es)"
    "stream_of (pnRemote k) ps = concat (payloads_of captureIncoming es)"
    "seqs_of (pnLocal k) ps = running_seqs (sendSeq s) (payloads_of captureOutgoing es)"
    "seqs_of (pnRemote k) ps = running_seqs (receiveSeq s) (payloads_of captureIncoming es)"
    by (auto simp: writeLoop_def es l0_def)
  have len: "length pcap_header = 24" by (simp add: pcap_header_def le32_def le16_def)
  have "pcap_packets (drop 24 (clOut (writeLoop (\<lambda>_. None) es))) = ps"
    using ps(2-4) len pcap_packets_concat [of "map ceTime es" ps] by simp
  then show ?thesis unfolding Let_def
    using ps(1,2,5-8) len fs(3) s es
    by (intro exI [of _ ps] exI [of _ "payloads_of captureOutgoing es"] exI [of _ "payloads_of captureIncoming es"]) simp
qed

definition demo_conn :: pcapConn where
  "demo_conn = \<lparr>pnID = 1, pnLocal = \<lparr>taIP = ipv4 10 0 0 1, taPort = 1025\<rparr>, pnRemote = \<lparr>taIP = ipv4 10 0 0 2, taPort = 443\<rparr>\<rparr>"

definition demo_io :: "(captureDirection \<times> (int \<times> int) \<times> bytes) list" where
  "demo_io = [(captureOutgoing, (1, 0), [1, 2]), (captureIncoming, (2, 0), [3]), (captureOutgoing, (3, 0), [4])]"

theorem capture_reads_back_witness:
  "\<exists>ps. pcap_packets (drop 24 (clOut (writeLoop (\<lambda>_. None)
       (pcEvents (fold (captured_io demo_conn) demo_io \<lparr>pcEvents = [], pcClosed = False, pcNextID = 1\<rparr>))))) = ps
     \<and> stream_of (pnLocal demo_conn) ps = [1, 2, 4] \<and> stream_of (pnRemote demo_conn) ps = [3]"
proof -
  have "two_ends (pnLocal demo_conn) (pnRemote demo_conn)" by code_simp
  then show ?thesis
    using capture_reads_back [OF _ _ _ refl, of demo_conn "\<lparr>pcEvents = [], pcClosed = False, pcNextID = 1\<rparr>" demo_io]
    by (auto simp: Let_def moved_def demo_io_def)
qed

text \<open>A pair of an IPv4 and an IPv6 address cannot be written as a packet, and the loop then writes no event any
  more, whatever the connection it is of.\<close>

lemma mixed_families_end_capture:
  assumes "clError l = None" "(to4 (taIP (ceLocal e)) = []) \<noteq> (to4 (taIP (ceRemote e)) = [])"
  shows "clOut (fold (loop_event refuse) (e # es) l) = clOut l"
proof -
  have stop: "clOut (fold (loop_event refuse) fs m) = clOut m" if "clError m \<noteq> None" for fs m
    using that by (induction fs) (simp_all add: loop_event_def)
  have ser: "\<exists>err. fst (event_packet e s) = Inl err" for s
    using assms(2) by (cases "ceDirection e") (auto simp: event_packet_def Let_def serializeTCPPacket_def)
  define s where "s = (case mget (clStreams l) (ceID e) of Some s \<Rightarrow> s | None \<Rightarrow> new_stream (ceID e))"
  obtain err s' where "event_packet e s = (Inl err, s')" using ser [of s] by (cases "event_packet e s") auto
  then have "clError (loop_event refuse e l) \<noteq> None \<and> clOut (loop_event refuse e l) = clOut l"
    unfolding loop_event_def s_def [symmetric] Let_def using assms(1) by simp
  then show ?thesis using stop by simp
qed

end
