(* ===== verification/Underlay.thy ===== *)
theory Underlay
  imports PcapCapture GoNet
begin

text \<open>
  The dialer below the tunnels (\<open>underlay/dialer.go\<close>): which network interface a connection to the VPN server
  is bound to, so that the client's own TUN interface never carries it, and which address the local DNS server
  has. The interfaces of the system, its default route and the dial itself are functions of the number of dials
  made so far; platform monitors are behind the default route.
\<close>

section \<open>Interfaces\<close>

record net_interface =
  nifUp :: bool
  nifLoopback :: bool
  nifAddrs :: "ip list option"

text \<open>What the dialer asks the system: an interface by name, the default route's interface, the interface a
  probe to an address would leave by (the list of interfaces is walked for its address), and the dial.\<close>

record underlay_env =
  uvInterface :: "nat \<Rightarrow> string \<Rightarrow> net_interface option"
  uvDefault :: "nat \<Rightarrow> string"
  uvProbe :: "nat \<Rightarrow> string \<Rightarrow> ip option"
  uvInterfaces :: "nat \<Rightarrow> (string \<times> ip list option) list option"
  uvDial :: "nat \<Rightarrow> string \<Rightarrow> string \<Rightarrow> string \<Rightarrow> string \<Rightarrow> string + tcp_addr option \<times> tcp_addr option"

text \<open>\<open>Dialer\<close>; \<open>udDials\<close> lists the interface each dial was bound to, the empty name for none.\<close>

record underlay =
  udInterface :: string
  udAuto :: bool
  udExcluded :: "ip list"
  udRequire :: bool
  udCapture :: "pcapCapture option"
  udDNS :: string
  udDials :: "string list"

definition usableInterface :: "underlay_env \<Rightarrow> nat \<Rightarrow> string \<Rightarrow> ip list \<Rightarrow> bool" where
  "usableInterface env t name excluded =
     (if name = [] then False
      else (case uvInterface env t name of
              None \<Rightarrow> False
            | Some i \<Rightarrow>
                if \<not> nifUp i \<or> nifLoopback i then False
                else if excluded = [] then True
                else (case nifAddrs i of
                        None \<Rightarrow> False
                      | Some xs \<Rightarrow> \<not> (\<exists>x \<in> set xs. \<exists>y \<in> set excluded. x \<noteq> [] \<and> ip_equal x y))))"

fun interface_of :: "(string \<times> ip list option) list \<Rightarrow> ip \<Rightarrow> string option" where
  "interface_of [] x = None"
| "interface_of ((name, None) # is) x = interface_of is x"
| "interface_of ((name, Some xs) # is) x =
     (if \<exists>y \<in> set xs. y \<noteq> [] \<and> ip_equal y x then Some name else interface_of is x)"

definition probe_target :: "string \<Rightarrow> string" where
  "probe_target address =
     (case split_host_port address of
        Some (host, port) \<Rightarrow> join_host_port host port
      | None \<Rightarrow> join_host_port address ''443'')"

definition detectInterface :: "underlay_env \<Rightarrow> nat \<Rightarrow> string \<Rightarrow> string" where
  "detectInterface env t address =
     (if usableInterface env t (uvDefault env t) [] then uvDefault env t
      else (case uvProbe env t (probe_target address) of
              None \<Rightarrow> []
            | Some x \<Rightarrow>
                (case uvInterfaces env t of
                   None \<Rightarrow> []
                 | Some is \<Rightarrow>
                     (case interface_of is x of
                        None \<Rightarrow> []
                      | Some name \<Rightarrow> if usableInterface env t name [] then name else []))))"

definition updateInterfaceName :: "string \<Rightarrow> underlay \<Rightarrow> underlay" where
  "updateInterfaceName name d = (if name = [] \<or> name = udInterface d then d else d\<lparr>udInterface := name\<rparr>)"

text \<open>The number of the dial is the time at which the system is asked.\<close>

definition ensureInterface :: "underlay_env \<Rightarrow> string \<Rightarrow> underlay \<Rightarrow> string \<times> underlay" where
  "ensureInterface env address d =
     (if \<not> udAuto d \<or> udInterface d \<noteq> [] then (udInterface d, d)
      else
        let t = length (udDials d);
            name = detectInterface env t address;
            d = (if usableInterface env t name (udExcluded d) then updateInterfaceName name d else d)
        in (udInterface d, d))"

definition refreshInterface :: "underlay_env \<Rightarrow> underlay \<Rightarrow> string \<times> underlay" where
  "refreshInterface env d =
     (if \<not> udAuto d then ([], d)
      else
        let t = length (udDials d); name = uvDefault env t
        in if \<not> usableInterface env t name (udExcluded d) then ([], d)
           else (name, updateInterfaceName name d))"

definition ExcludeIP :: "ip \<Rightarrow> underlay \<Rightarrow> underlay" where
  "ExcludeIP x d = (if x = [] then d else d\<lparr>udExcluded := udExcluded d @ [x], udRequire := True\<rparr>)"


section \<open>Dialling\<close>

datatype underlay_error = NoUsableInterface | DialFailed string | RetryFailed string string string | BadDNSServer | BadDNSPort

text \<open>A connection, and the capture that wraps it, if there is one and it has TCP addresses.\<close>

record under_conn =
  unInterface :: string
  unCapture :: "pcapConn option"

definition wrapCapture ::
  "string \<Rightarrow> tcp_addr option \<times> tcp_addr option \<Rightarrow> underlay \<Rightarrow> under_conn \<times> underlay" where
  "wrapCapture name ends d =
     (case udCapture d of
        None \<Rightarrow> (\<lparr>unInterface = name, unCapture = None\<rparr>, d)
      | Some c \<Rightarrow>
          (let (k, c) = Wrap (fst ends) (snd ends) c
           in (\<lparr>unInterface = name, unCapture = k\<rparr>, d\<lparr>udCapture := Some c\<rparr>)))"

definition dial_on ::
  "underlay_env \<Rightarrow> string \<Rightarrow> string \<Rightarrow> string \<Rightarrow> underlay
     \<Rightarrow> (string + tcp_addr option \<times> tcp_addr option) \<times> underlay" where
  "dial_on env network address name d =
     (uvDial env (length (udDials d)) network address name (udDNS d), d\<lparr>udDials := udDials d @ [name]\<rparr>)"

definition retry_dial ::
  "underlay_env \<Rightarrow> string \<Rightarrow> string \<Rightarrow> string \<Rightarrow> string \<Rightarrow> underlay \<Rightarrow> (underlay_error + under_conn) \<times> underlay" where
  "retry_dial env network address name err d =
     (let (refreshed, d) = refreshInterface env d
      in if refreshed = [] \<or> refreshed = name then (Inl (DialFailed err), d)
         else (case dial_on env network address refreshed d of
                 (Inl e, d) \<Rightarrow> (Inl (RetryFailed refreshed name e), d)
               | (Inr ends, d) \<Rightarrow> (let (c, d) = wrapCapture refreshed ends d in (Inr c, d))))"

definition dial_bound ::
  "underlay_env \<Rightarrow> string \<Rightarrow> string \<Rightarrow> string \<Rightarrow> underlay \<Rightarrow> (underlay_error + under_conn) \<times> underlay" where
  "dial_bound env network address name d =
     (case dial_on env network address name d of
        (Inr ends, d) \<Rightarrow> (let (c, d) = wrapCapture name ends d in (Inr c, d))
      | (Inl err, d) \<Rightarrow> retry_dial env network address name err d)"

definition DialContext ::
  "underlay_env \<Rightarrow> string \<Rightarrow> string \<Rightarrow> underlay \<Rightarrow> (underlay_error + under_conn) \<times> underlay" where
  "DialContext env network address d =
     (let (name, d) = ensureInterface env address d
      in if udAuto d \<and> udRequire d \<and> name = [] then
           (let (name, d) = refreshInterface env d
            in if name = [] then (Inl NoUsableInterface, d) else dial_bound env network address name d)
         else dial_bound env network address name d)"


section \<open>Options and the local DNS server\<close>

definition is_loopback :: "ip \<Rightarrow> bool" where
  "is_loopback x =
     (case to4 x of
        b # _ \<Rightarrow> b = 127
      | [] \<Rightarrow> ip_equal x (replicate 15 0 @ [1]))"

definition isLoopbackAddress :: "string \<Rightarrow> bool" where
  "isLoopbackAddress address =
     (case split_host_port address of
        None \<Rightarrow> False
      | Some (host, _) \<Rightarrow> (let x = parse_ip host in x \<noteq> [] \<and> is_loopback x))"

text \<open>The target and the interface of the resolver's own dials.\<close>

definition resolver_dial :: "string \<Rightarrow> string \<Rightarrow> string \<Rightarrow> string \<times> string" where
  "resolver_dial interfaceName localDNSServer systemDNSServer =
     (let target = (if localDNSServer \<noteq> [] then localDNSServer else systemDNSServer)
      in (target, if isLoopbackAddress target then [] else interfaceName))"

definition normalizeLocalDNSServer :: "string \<Rightarrow> underlay_error + string" where
  "normalizeLocalDNSServer address =
     (if address = [] then Inr []
      else if parse_ip address \<noteq> [] then Inr (join_host_port address ''53'')
      else (case split_host_port address of
              None \<Rightarrow> Inl BadDNSServer
            | Some (host, port) \<Rightarrow>
                if parse_ip host = [] then Inl BadDNSServer
                else (case atoi port of
                        None \<Rightarrow> Inl BadDNSPort
                      | Some n \<Rightarrow> if n < 1 \<or> 65535 < n then Inl BadDNSPort else Inr (join_host_port host port))))"

text \<open>\<open>New\<close>, with the capture opened for the file of the options, if one is named.\<close>

definition new_underlay ::
  "string \<Rightarrow> bool \<Rightarrow> (string + pcapCapture) option \<Rightarrow> string \<Rightarrow> underlay_error + underlay" where
  "new_underlay name auto capture dns =
     (case normalizeLocalDNSServer dns of
        Inl e \<Rightarrow> Inl e
      | Inr server \<Rightarrow>
          (let d = \<lparr>udInterface = name, udAuto = (auto \<and> name = []), udExcluded = [], udRequire = False,
                 udCapture = None, udDNS = server, udDials = []\<rparr>
           in case capture of
                None \<Rightarrow> Inr d
              | Some (Inl e) \<Rightarrow> Inl (DialFailed e)
              | Some (Inr c) \<Rightarrow> Inr (d\<lparr>udCapture := Some c\<rparr>)))"

section \<open>The interface a dial is bound to\<close>

text \<open>The dials of a step, the names they were bound to, and what stays.\<close>

definition dials :: "(underlay \<Rightarrow> string list \<Rightarrow> bool) \<Rightarrow> underlay \<Rightarrow> (underlay_error + under_conn) \<times> underlay \<Rightarrow> bool" where
  "dials P d result \<longleftrightarrow> (\<exists>names. udDials (snd result) = udDials d @ names \<and> P (snd result) names
     \<and> udAuto (snd result) = udAuto d \<and> udExcluded (snd result) = udExcluded d
     \<and> (\<forall>c. fst result = Inr c \<longrightarrow> names \<noteq> [] \<and> unInterface c = last names))"

lemma wrapCapture_keeps:
  assumes "wrapCapture name ends d = (c, d')"
  shows "unInterface c = name \<and> udDials d' = udDials d \<and> udAuto d' = udAuto d \<and> udExcluded d' = udExcluded d"
  using assms by (auto simp: wrapCapture_def split: option.splits prod.splits)

lemma dial_on_keeps:
  assumes "dial_on env network address name d = (r, d')"
  shows "udDials d' = udDials d @ [name] \<and> udAuto d' = udAuto d \<and> udExcluded d' = udExcluded d"
  using assms by (auto simp: dial_on_def)

lemma refresh_usable:
  assumes "refreshInterface env d = (name, d')"
  shows "udDials d' = udDials d \<and> udAuto d' = udAuto d \<and> udExcluded d' = udExcluded d
    \<and> (name = [] \<or> udAuto d \<and> (\<exists>t. usableInterface env t name (udExcluded d)))"
  using assms by (auto simp: refreshInterface_def updateInterfaceName_def Let_def split: if_splits)

lemma ensure_usable:
  assumes "ensureInterface env address d = (name, d')"
  shows "udDials d' = udDials d \<and> udAuto d' = udAuto d \<and> udExcluded d' = udExcluded d \<and> udRequire d' = udRequire d
    \<and> (name = udInterface d \<or> udAuto d \<and> (\<exists>t. usableInterface env t name (udExcluded d)))"
  using assms by (auto simp: ensureInterface_def updateInterfaceName_def Let_def split: if_splits)

lemma retry_dials:
  "dials (\<lambda>d' names. length names \<le> 1 \<and> (\<forall>n \<in> set names. n \<noteq> [] \<and> udAuto d
     \<and> (\<exists>t. usableInterface env t n (udExcluded d)))) d (retry_dial env network address name err d)"
proof -
  obtain refreshed d1 where r: "refreshInterface env d = (refreshed, d1)" by (cases "refreshInterface env d")
  obtain res d2 where o: "dial_on env network address refreshed d1 = (res, d2)"
    by (cases "dial_on env network address refreshed d1")
  note keeps = refresh_usable [OF r] dial_on_keeps [OF o]
  show ?thesis
  proof (cases "refreshed = [] \<or> refreshed = name")
    case True
    then show ?thesis using keeps by (auto simp: dials_def retry_dial_def r)
  next
    case False
    then show ?thesis using keeps
      by (cases res) (auto simp: dials_def retry_dial_def r o dest!: wrapCapture_keeps split: prod.splits)
  qed
qed

lemma bound_dials:
  "dials (\<lambda>d' names. length names \<le> 2 \<and> names \<noteq> [] \<and> hd names = name \<and> (\<forall>n \<in> set (tl names). n \<noteq> [] \<and> udAuto d
     \<and> (\<exists>t. usableInterface env t n (udExcluded d)))) d (dial_bound env network address name d)"
proof -
  obtain res d1 where o: "dial_on env network address name d = (res, d1)"
    by (cases "dial_on env network address name d")
  note keeps = dial_on_keeps [OF o]
  show ?thesis
  proof (cases res)
    case (Inr ends)
    then show ?thesis using keeps
      by (auto simp: dials_def dial_bound_def o dest!: wrapCapture_keeps split: prod.splits)
  next
    case (Inl err)
    then have d: "dial_bound env network address name d = retry_dial env network address name err d1"
      by (simp add: dial_bound_def o)
    obtain names where names: "udDials (snd (retry_dial env network address name err d1)) = udDials d1 @ names"
      "length names \<le> 1" "\<forall>n \<in> set names. n \<noteq> [] \<and> udAuto d1 \<and> (\<exists>t. usableInterface env t n (udExcluded d1))"
      "udAuto (snd (retry_dial env network address name err d1)) = udAuto d1"
      "udExcluded (snd (retry_dial env network address name err d1)) = udExcluded d1"
      "\<forall>c. fst (retry_dial env network address name err d1) = Inr c \<longrightarrow> names \<noteq> [] \<and> unInterface c = last names"
      using retry_dials [of d1 env network address name err] by (auto simp: dials_def)
    show ?thesis unfolding d dials_def using names keeps
      by (intro exI [of _ "name # names"]) auto
  qed
qed


definition demo_under :: underlay_env where
  "demo_under = \<lparr>uvInterface = (\<lambda>_ n. if n = ''eth0'' then Some \<lparr>nifUp = True, nifLoopback = False, nifAddrs = Some [ipv4 10 0 0 9]\<rparr>
       else Some \<lparr>nifUp = True, nifLoopback = False, nifAddrs = Some [ipv4 172 16 0 1]\<rparr>),
     uvDefault = (\<lambda>t. if t = 0 then ''tun0'' else ''eth0''), uvProbe = (\<lambda>_ _. None), uvInterfaces = (\<lambda>_. None),
     uvDial = (\<lambda>_ _ _ n _. if n = ''eth0'' then Inr (None, None) else Inl ''down'')\<rparr>"

definition demo_dialer :: underlay where
  "demo_dialer = ExcludeIP [172, 16, 0, 1] \<lparr>udInterface = ''wlan0'', udAuto = True, udExcluded = [], udRequire = False,
     udCapture = None, udDNS = [], udDials = []\<rparr>"

lemma demo_dial:
  "snd (DialContext demo_under ''tcp'' ''vpn:443'' demo_dialer) = demo_dialer\<lparr>udInterface := ''eth0'', udDials := [''wlan0'', ''eth0'']\<rparr>"
  by code_simp


text \<open>A local DNS server that is accepted is an address with a port in range.\<close>

lemma local_dns_is_address:
  assumes "normalizeLocalDNSServer address = Inr server" "address \<noteq> []"
  shows "\<exists>host port n. server = join_host_port host port \<and> parse_ip host \<noteq> [] \<and> atoi port = Some n
    \<and> 1 \<le> n \<and> n \<le> 65535"
proof (cases "parse_ip address = []")
  case True
  then obtain host port n where *: "server = join_host_port host port" "parse_ip host \<noteq> []" "atoi port = Some n"
    "\<not> n < 1" "\<not> 65535 < n"
    using assms by (auto simp: normalizeLocalDNSServer_def split: option.splits if_splits)
  then have "1 \<le> n" "n \<le> 65535" by simp_all
  then show ?thesis using * by blast
next
  case False
  have "atoi ''53'' = Some 53" by code_simp
  then show ?thesis using False assms by (intro exI [of _ address] exI [of _ "''53''"]) (auto simp: normalizeLocalDNSServer_def)
qed

end
