(* ===== verification/MobileTun.thy ===== *)
theory MobileTun
  imports DnsHijack
begin

text \<open>
  The network stack on Android's TUN device (\<open>stack/mobiletun/stack_android.go\<close>): \<open>Run\<close> feeds packets to the
  native lwIP stack, whose connections are dialled by the dialer, and \<open>Close\<close> takes the stack down while \<open>Run\<close>,
  the UDP handlers and the readers of the UDP flows may be anywhere. Every goroutine is a program counter of
  the state and a step is one access to shared state. The device, lwIP and the DNS message library are
  parameters; lwIP may call a handler at any time.
\<close>

section \<open>The host behind an address\<close>

text \<open>What an incoming connection is dialled with: a fake address stands for its domain and that domain's
  rules, another address for the host whose DNS answer contained it. \<open>dnsHosts\<close> maps the text of an address.\<close>

definition restore_host :: "DomainResource list IPPool \<Rightarrow> (string, string) gomap \<Rightarrow> ip \<Rightarrow> dial_values" where
  "restore_host pool hosts x =
     (case GetDomain pool x of
        Some (domain, resources) \<Rightarrow> no_values\<lparr>vHost := Some domain, vDomain := Some (DomainRules resources)\<rparr>
      | None \<Rightarrow>
          (case mget hosts (ip_string x) of
             Some domain \<Rightarrow> no_values\<lparr>vHost := Some domain\<rparr>
           | None \<Rightarrow> no_values))"

text \<open>\<open>tcpHandler.Handle\<close> up to the relay: the upstream connection.\<close>

definition tcp_handle ::
  "dialer_env \<Rightarrow> dialer \<Rightarrow> DomainResource list IPPool \<Rightarrow> (string, string) gomap \<Rightarrow> string
     \<Rightarrow> dial_error + dial_result" where
  "tcp_handle env d pool hosts target =
     (case split_host_port target of
        None \<Rightarrow> Inl (DInvalidAddress target)
      | Some (host, _) \<Rightarrow>
          (let x = parse_ip host;
               ctx = (if x \<noteq> [] then restore_host pool hosts x else no_values)
           in Inr (DialIPPort env d ctx ''tcp'' target)))"

text \<open>The answers of a DNS query that are addresses teach \<open>dnsHosts\<close> the name of the first question, or, if
  that is empty, their own. An answer is its name and, for an A record, its address.\<close>

type_synonym dns_answer = "string \<times> ip option"

definition query_host :: "(string \<times> nat) list \<Rightarrow> string" where
  "query_host qs = (case qs of [] \<Rightarrow> [] | (name, _) # _ \<Rightarrow> trim_suffix name ''.'')"

fun learn_answers :: "string \<Rightarrow> dns_answer list \<Rightarrow> (string, string) gomap \<Rightarrow> (string, string) gomap" where
  "learn_answers q [] hosts = hosts"
| "learn_answers q ((name, None) # as) hosts = learn_answers q as hosts"
| "learn_answers q ((name, Some x) # as) hosts =
     learn_answers q as (mset (ip_string x) (if q = [] then trim_suffix name ''.'' else q) hosts)"

text \<open>\<open>udpHandler.ReceiveTo\<close> for port 53: the query is answered with fake addresses allowed. \<open>view\<close> reads the
  name and the address of a record of the message library. The result is the packet written back, if any.\<close>

definition receive_dns ::
  "('q, 'rr) dns_lib \<Rightarrow> ('rr \<Rightarrow> dns_answer) \<Rightarrow> (lookup_event list \<times> string option) list \<Rightarrow> bytes
     \<Rightarrow> (string, string) gomap \<Rightarrow> DNSServer \<Rightarrow> (bytes option \<times> (string, string) gomap \<times> DNSServer) option" where
  "receive_dns lib view evs payload hosts d =
     (case dlUnpack lib payload of
        None \<Rightarrow> Some (None, hosts, d)
      | Some (opcode, qs, msg) \<Rightarrow> do {
          (rrs, d) \<leftarrow> handleSingleDNSResolve (dlNewRR lib) True evs opcode qs d;
          Some (dlPack lib msg rrs, learn_answers (query_host qs) (map view rrs) hosts, d)
        })"


section \<open>State\<close>

datatype run_pc = RunIdle | RunRead | RunGot bytes | RunLocked bytes | RunWriting bytes | RunReturn | RunDone
datatype close_pc = CloseIdle | CloseFlows | CloseFile | CloseCheck | CloseOnce | CloseWait | CloseLwip | CloseHeld | CloseDone
datatype flow_pc = FlowNone | FlowReading | FlowReturn | FlowUnregister | FlowDone

text \<open>\<open>closeOnce\<close> lets one \<open>Close\<close> through and makes the others wait for it, so there is one counter for it;
  \<open>runOnce\<close> closes \<open>runDone\<close> once. \<open>msReaders\<close> and \<open>msWriter\<close> are the lock \<open>lwipMu\<close>. A flow is a reference;
  \<open>msWrites\<close> are the handlers that have found their flow and not yet written to it.\<close>

record mstack =
  msDialer :: dialer
  msPool :: "DomainResource list IPPool"
  msHosts :: "(string, string) gomap"
  msClosed :: bool
  msFileClosed :: bool
  msRunStarted :: bool
  msRunDone :: bool
  msRunError :: "string option"
  msReaders :: nat
  msWriter :: bool
  msLwipClosed :: bool
  msRun :: run_pc
  msClose :: close_pc
  msFlows :: "(string, nat) gomap"
  msFlowKey :: "nat \<Rightarrow> string"
  msUpClosed :: "nat \<Rightarrow> bool"
  msReader :: "nat \<Rightarrow> flow_pc"
  msFresh :: nat
  msWrites :: "(nat \<times> bytes) list"
  msSent :: "nat \<Rightarrow> bytes list"
  msBack :: "nat \<Rightarrow> bytes list"

definition new_mstack ::
  "int \<Rightarrow> dialer option \<Rightarrow> DomainResource list IPPool option \<Rightarrow> bool \<Rightarrow> string + mstack" where
  "new_mstack fd d pool dnsServer =
     (case (d, pool) of
        (Some d, Some pool) \<Rightarrow>
          if fd < 0 \<or> \<not> dnsServer then Inl ''invalid mobile TUN dependencies''
          else Inr \<lparr>msDialer = d, msPool = pool, msHosts = [], msClosed = False, msFileClosed = False,
            msRunStarted = False, msRunDone = False, msRunError = None, msReaders = 0, msWriter = False,
            msLwipClosed = False, msRun = RunIdle, msClose = CloseIdle, msFlows = [], msFlowKey = (\<lambda>_. []),
            msUpClosed = (\<lambda>_. False), msReader = (\<lambda>_. FlowNone), msFresh = 0, msWrites = [], msSent = (\<lambda>_. []),
            msBack = (\<lambda>_. [])\<rparr>
      | _ \<Rightarrow> Inl ''invalid mobile TUN dependencies'')"


section \<open>Steps\<close>

text \<open>The output function registered with lwIP: its packets go to the device until the stack is closed.\<close>

definition output_packet :: "(bytes \<Rightarrow> string + nat) \<Rightarrow> bytes \<Rightarrow> mstack \<Rightarrow> string + nat" where
  "output_packet write packet s = (if msClosed s then Inl ''use of closed network connection'' else write packet)"

text \<open>\<open>forwardUDP\<close> up to the end of its critical section, which contains the dial.\<close>

definition flow_key :: "string \<Rightarrow> string \<Rightarrow> string" where
  "flow_key localAddr target = localAddr @ ''->'' @ target"

definition dial_flow :: "dialer_env \<Rightarrow> ip option \<Rightarrow> string \<Rightarrow> mstack \<Rightarrow> dial_error + net_conn" where
  "dial_flow env x target s =
     (let ctx = (case x of Some x \<Rightarrow> restore_host (msPool s) (msHosts s) x | None \<Rightarrow> no_values)
      in fst (DialIPPort env (msDialer s) ctx ''udp'' target))"

definition open_flow :: "string \<Rightarrow> bytes \<Rightarrow> mstack \<Rightarrow> mstack" where
  "open_flow key payload s =
     (let f = msFresh s
      in s\<lparr>msFlows := mset key f (msFlows s), msFlowKey := (msFlowKey s)(f := key),
           msReader := (msReader s)(f := FlowReading), msFresh := Suc f,
           msWrites := msWrites s @ [(f, payload)]\<rparr>)"

definition forward_udp :: "dialer_env \<Rightarrow> string \<Rightarrow> ip option \<Rightarrow> string \<Rightarrow> bytes \<Rightarrow> mstack \<Rightarrow> mstack" where
  "forward_udp env localAddr x target payload s =
     (let key = flow_key localAddr target
      in case mget (msFlows s) key of
           Some f \<Rightarrow> s\<lparr>msWrites := msWrites s @ [(f, payload)]\<rparr>
         | None \<Rightarrow> (case dial_flow env x target s of Inl _ \<Rightarrow> s | Inr _ \<Rightarrow> open_flow key payload s))"

text \<open>The first thing \<open>Close\<close> does under \<open>udpMu\<close>, and the last a flow's reader does.\<close>

definition close_flows :: "mstack \<Rightarrow> mstack" where
  "close_flows s = s\<lparr>msUpClosed := (\<lambda>f. msUpClosed s f \<or> f \<in> snd ` set (msFlows s)), msFlows := []\<rparr>"

definition unregister_flow :: "nat \<Rightarrow> mstack \<Rightarrow> mstack" where
  "unregister_flow f s =
     (if mget (msFlows s) (msFlowKey s f) = Some f then s\<lparr>msFlows := mdel (msFlowKey s f) (msFlows s)\<rparr> else s)"

text \<open>Who moves, and what the world contributes: a packet or an error of the device, the dial of a new flow, a
  datagram of an upstream and whether lwIP took it, the answers of a DNS query and the resolver's fake addresses
  after it.\<close>

datatype tun_event =
    DevicePacket bytes
  | DeviceError string
  | RunMoves
  | CloseMoves
  | Forward dialer_env string "ip option" string bytes
  | FlowWrites nat
  | FlowReads nat bytes bool
  | FlowEnds nat
  | FlowMoves nat
  | Answers string "dns_answer list" "DomainResource list IPPool"

fun is_run :: "tun_event \<Rightarrow> bool" where
  "is_run (DevicePacket _) = True"
| "is_run (DeviceError _) = True"
| "is_run RunMoves = True"
| "is_run _ = False"

inductive tun_step :: "tun_event \<Rightarrow> mstack \<Rightarrow> mstack \<Rightarrow> bool" where
  run_start: "msRun s = RunIdle \<Longrightarrow>
    tun_step RunMoves s (s\<lparr>msRunStarted := True, msRun := RunRead\<rparr>)"
| run_packet: "msRun s = RunRead \<Longrightarrow> \<not> msFileClosed s \<Longrightarrow>
    tun_step (DevicePacket p) s (s\<lparr>msRun := (if p = [] then RunRead else RunGot p)\<rparr>)"
| run_woken: "msRun s = RunRead \<Longrightarrow> msFileClosed s \<Longrightarrow>
    tun_step RunMoves s (s\<lparr>msRun := RunReturn\<rparr>)"
| run_error: "msRun s = RunRead \<Longrightarrow> \<not> msFileClosed s \<Longrightarrow>
    tun_step (DeviceError e) s
      (s\<lparr>msRun := RunReturn, msRunError := (if msClosed s then None else Some (''read Android TUN: '' @ e))\<rparr>)"
| run_lock: "msRun s = RunGot p \<Longrightarrow> \<not> msWriter s \<Longrightarrow>
    tun_step RunMoves s (s\<lparr>msReaders := Suc (msReaders s), msRun := RunLocked p\<rparr>)"
| run_check: "msRun s = RunLocked p \<Longrightarrow>
    tun_step RunMoves s
      (if msClosed s then s\<lparr>msReaders := msReaders s - 1, msRun := RunReturn\<rparr> else s\<lparr>msRun := RunWriting p\<rparr>)"
| run_written: "msRun s = RunWriting p \<Longrightarrow>
    tun_step RunMoves s (s\<lparr>msReaders := msReaders s - 1, msRun := RunRead\<rparr>)"
| run_return: "msRun s = RunReturn \<Longrightarrow>
    tun_step RunMoves s (s\<lparr>msRunDone := True, msRun := RunDone\<rparr>)"
| close_start: "msClose s = CloseIdle \<Longrightarrow>
    tun_step CloseMoves s (s\<lparr>msClosed := True, msClose := CloseFlows\<rparr>)"
| close_upstreams: "msClose s = CloseFlows \<Longrightarrow>
    tun_step CloseMoves s ((close_flows s)\<lparr>msClose := CloseFile\<rparr>)"
| close_file: "msClose s = CloseFile \<Longrightarrow>
    tun_step CloseMoves s (s\<lparr>msFileClosed := True, msClose := CloseCheck\<rparr>)"
| close_check: "msClose s = CloseCheck \<Longrightarrow>
    tun_step CloseMoves s (s\<lparr>msClose := (if msRunStarted s then CloseWait else CloseOnce)\<rparr>)"
| close_once: "msClose s = CloseOnce \<Longrightarrow>
    tun_step CloseMoves s (s\<lparr>msRunDone := True, msClose := CloseLwip\<rparr>)"
| close_wait: "msClose s = CloseWait \<Longrightarrow> msRunDone s \<Longrightarrow>
    tun_step CloseMoves s (s\<lparr>msClose := CloseLwip\<rparr>)"
| close_lock: "msClose s = CloseLwip \<Longrightarrow> msReaders s = 0 \<Longrightarrow> \<not> msWriter s \<Longrightarrow>
    tun_step CloseMoves s (s\<lparr>msWriter := True, msClose := CloseHeld\<rparr>)"
| close_lwip: "msClose s = CloseHeld \<Longrightarrow>
    tun_step CloseMoves s (s\<lparr>msLwipClosed := True, msWriter := False, msClose := CloseDone\<rparr>)"
| forward: "tun_step (Forward env localAddr x target payload) s (forward_udp env localAddr x target payload s)"
| flow_writes: "i < length (msWrites s) \<Longrightarrow> msWrites s ! i = (f, payload) \<Longrightarrow>
    tun_step (FlowWrites i) s
      (s\<lparr>msWrites := take i (msWrites s) @ drop (Suc i) (msWrites s),
         msSent := (if msUpClosed s f then msSent s else (msSent s)(f := msSent s f @ [payload]))\<rparr>)"
| flow_reads: "msReader s f = FlowReading \<Longrightarrow> \<not> msUpClosed s f \<Longrightarrow>
    tun_step (FlowReads f payload ok) s
      (if ok then s\<lparr>msBack := (msBack s)(f := msBack s f @ [payload])\<rparr>
       else s\<lparr>msReader := (msReader s)(f := FlowReturn)\<rparr>)"
| flow_ends: "msReader s f = FlowReading \<Longrightarrow>
    tun_step (FlowEnds f) s (s\<lparr>msReader := (msReader s)(f := FlowReturn)\<rparr>)"
| flow_closes: "msReader s f = FlowReturn \<Longrightarrow>
    tun_step (FlowMoves f) s
      (s\<lparr>msUpClosed := (msUpClosed s)(f := True), msReader := (msReader s)(f := FlowUnregister)\<rparr>)"
| flow_unregisters: "msReader s f = FlowUnregister \<Longrightarrow>
    tun_step (FlowMoves f) s ((unregister_flow f s)\<lparr>msReader := (msReader s)(f := FlowDone)\<rparr>)"
| answers: "tun_step (Answers q as pool) s (s\<lparr>msHosts := learn_answers q as (msHosts s), msPool := pool\<rparr>)"

inductive_cases tun_stepE: "tun_step e s t"

inductive tun_reachable :: "mstack \<Rightarrow> bool" where
  start: "new_mstack fd d pool dnsServer = Inr s \<Longrightarrow> tun_reachable s"
| more_steps: "tun_reachable s \<Longrightarrow> tun_step e s t \<Longrightarrow> tun_reachable t"



section \<open>Closing the stack\<close>

lemmas tun_frame = forward_udp_def open_flow_def close_flows_def unregister_flow_def Let_def

lemma forward_udp_frame [simp]:
  "msClosed (forward_udp env l x tg p s) = msClosed s" "msFileClosed (forward_udp env l x tg p s) = msFileClosed s"
  "msRunStarted (forward_udp env l x tg p s) = msRunStarted s" "msRunDone (forward_udp env l x tg p s) = msRunDone s"
  "msReaders (forward_udp env l x tg p s) = msReaders s" "msWriter (forward_udp env l x tg p s) = msWriter s"
  "msLwipClosed (forward_udp env l x tg p s) = msLwipClosed s" "msRun (forward_udp env l x tg p s) = msRun s"
  "msClose (forward_udp env l x tg p s) = msClose s"
  by (auto simp: tun_frame split: option.splits sum.splits)

lemma flows_frame [simp]:
  "msClosed (close_flows s) = msClosed s" "msFileClosed (close_flows s) = msFileClosed s"
  "msRunStarted (close_flows s) = msRunStarted s" "msRunDone (close_flows s) = msRunDone s"
  "msReaders (close_flows s) = msReaders s" "msWriter (close_flows s) = msWriter s"
  "msLwipClosed (close_flows s) = msLwipClosed s" "msRun (close_flows s) = msRun s"
  "msReader (close_flows s) = msReader s" "msFresh (close_flows s) = msFresh s" "msFlowKey (close_flows s) = msFlowKey s"
  "msFlows (close_flows s) = []"
  "msUpClosed (close_flows s) f \<longleftrightarrow> msUpClosed s f \<or> f \<in> snd ` set (msFlows s)"
  by (simp_all add: tun_frame)

lemma unregister_frame [simp]:
  "msClosed (unregister_flow f s) = msClosed s" "msFileClosed (unregister_flow f s) = msFileClosed s"
  "msRunStarted (unregister_flow f s) = msRunStarted s" "msRunDone (unregister_flow f s) = msRunDone s"
  "msReaders (unregister_flow f s) = msReaders s" "msWriter (unregister_flow f s) = msWriter s"
  "msLwipClosed (unregister_flow f s) = msLwipClosed s" "msRun (unregister_flow f s) = msRun s"
  "msClose (unregister_flow f s) = msClose s" "msUpClosed (unregister_flow f s) = msUpClosed s"
  "msReader (unregister_flow f s) = msReader s" "msFresh (unregister_flow f s) = msFresh s"
  "msFlowKey (unregister_flow f s) = msFlowKey s"
  by (simp_all add: tun_frame)

text \<open>The lock, the progress of \<open>Close\<close> and the progress of \<open>Run\<close> say the same about what is closed.\<close>

fun holds_lock :: "run_pc \<Rightarrow> bool" where
  "holds_lock (RunLocked _) = True"
| "holds_lock (RunWriting _) = True"
| "holds_lock _ = False"

fun writing :: "run_pc \<Rightarrow> bool" where
  "writing (RunWriting _) = True"
| "writing _ = False"

definition lock_inv :: "mstack \<Rightarrow> bool" where
  [inv_defs]: "lock_inv s \<longleftrightarrow>
     msReaders s = (if holds_lock (msRun s) then 1 else 0)
     \<and> (msWriter s \<longleftrightarrow> msClose s = CloseHeld)
     \<and> (msLwipClosed s \<longleftrightarrow> msClose s = CloseDone)
     \<and> (msClosed s \<longleftrightarrow> msClose s \<noteq> CloseIdle)
     \<and> (msFileClosed s \<longleftrightarrow> msClose s \<notin> {CloseIdle, CloseFlows, CloseFile})
     \<and> (msClose s \<in> {CloseHeld, CloseDone} \<longrightarrow> \<not> writing (msRun s))
     \<and> (msRunStarted s \<longleftrightarrow> msRun s \<noteq> RunIdle)
     \<and> (msClose s = CloseWait \<longrightarrow> msRun s \<noteq> RunIdle)
     \<and> (msRun s = RunDone \<longrightarrow> msRunDone s)"

lemma new_mstack_SomeD:
  "new_mstack fd d pool dns = Inr s \<Longrightarrow>
     msRun s = RunIdle \<and> msClose s = CloseIdle \<and> msFlows s = [] \<and> msReaders s = 0 \<and> \<not> msWriter s
     \<and> \<not> msLwipClosed s \<and> \<not> msClosed s \<and> \<not> msFileClosed s \<and> \<not> msRunStarted s \<and> msFresh s = 0
     \<and> msReader s = (\<lambda>_. FlowNone) \<and> msUpClosed s = (\<lambda>_. False)"
  by (auto simp: new_mstack_def split: option.splits if_splits)

lemma lock_inv_new: "new_mstack fd d pool dns = Inr s \<Longrightarrow> lock_inv s"
  by (drule new_mstack_SomeD) (simp add: lock_inv_def)

lemma writing_holds_lock: "writing r \<Longrightarrow> holds_lock r"
  by (cases r) simp_all

lemma lock_inv_step: "tun_step e s t \<Longrightarrow> lock_inv s \<Longrightarrow> lock_inv t"
  by (induction rule: tun_step.induct) (auto simp: lock_inv_def dest: writing_holds_lock split: if_splits)

lemma reachable_lock_inv: "tun_reachable s \<Longrightarrow> lock_inv s"
  by (induction rule: tun_reachable.induct) (blast intro: lock_inv_new lock_inv_step)+


text \<open>C8: Closing the stack never takes lwIP away from under a packet: whatever the goroutines do and in
  whichever order, while \<open>Run\<close> is inside a write to lwIP, lwIP is not closed and \<open>Close\<close> does not hold the lock
  under which it closes it.\<close>

theorem lwip_outlives_its_packets:
  assumes "tun_reachable s" "msRun s = RunWriting p"
  shows "\<not> msLwipClosed s \<and> \<not> msWriter s"
  using reachable_lock_inv [OF assms(1)] assms(2) by (auto simp: lock_inv_def)

text \<open>How many steps \<open>Run\<close> and \<open>Close\<close> still take once the device is closed.\<close>

fun run_rank :: "run_pc \<Rightarrow> nat" where
  "run_rank RunIdle = 3"
| "run_rank (RunGot _) = 3"
| "run_rank (RunWriting _) = 3"
| "run_rank (RunLocked _) = 2"
| "run_rank RunRead = 2"
| "run_rank RunReturn = 1"
| "run_rank RunDone = 0"

fun close_rank :: "close_pc \<Rightarrow> nat" where
  "close_rank CloseDone = 0"
| "close_rank CloseHeld = 1"
| "close_rank CloseLwip = 2"
| "close_rank CloseWait = 3"
| "close_rank CloseOnce = 3"
| "close_rank CloseCheck = 4"
| "close_rank _ = 5"

definition shut_rank :: "mstack \<Rightarrow> nat" where
  "shut_rank s = run_rank (msRun s) + close_rank (msClose s)"

fun shuts :: "tun_event \<Rightarrow> bool" where
  "shuts CloseMoves = True"
| "shuts e = is_run e"

lemma shut_step:
  assumes "tun_step e s t" "lock_inv s" "msFileClosed s"
  shows "msFileClosed t \<and> (if shuts e then shut_rank t < shut_rank s else shut_rank t = shut_rank s)"
  using assms by (induction rule: tun_step.induct) (auto simp: lock_inv_def shut_rank_def tun_frame split: if_splits option.splits sum.splits)

inductive tun_path :: "tun_event list \<Rightarrow> mstack \<Rightarrow> mstack \<Rightarrow> bool" where
  stop: "tun_path [] s s"
| go: "tun_step e s t \<Longrightarrow> tun_path es t u \<Longrightarrow> tun_path (e # es) s u"

lemma shut_path:
  assumes "tun_path es s t" "lock_inv s" "msFileClosed s"
  shows "lock_inv t \<and> msFileClosed t \<and> length (filter shuts es) + shut_rank t \<le> shut_rank s"
  using assms
proof (induction rule: tun_path.induct)
  case (go e s t es u)
  then show ?case using shut_step [OF go.hyps(1)] lock_inv_step [OF go.hyps(1)] by (fastforce split: if_splits)
qed simp

text \<open>\<open>Close\<close> is blocked when neither it nor a started \<open>Run\<close> can move.\<close>

definition blocked :: "mstack \<Rightarrow> bool" where
  "blocked s \<longleftrightarrow> (\<nexists>t. tun_step CloseMoves s t) \<and> (msRun s = RunIdle \<or> (\<nexists>t. tun_step RunMoves s t))"

lemma blocked_only_at_end:
  assumes "lock_inv s" "msFileClosed s" "blocked s"
  shows "msClose s = CloseDone"
proof (rule ccontr)
  assume nd: "msClose s \<noteq> CloseDone"
  have run: "msRun s = RunIdle \<or> msRun s = RunDone \<or> (\<exists>p. msRun s = RunGot p) \<and> msWriter s"
    using assms(2,3) unfolding blocked_def by (cases "msRun s") (blast intro: tun_step.intros)+
  have "\<exists>t. tun_step CloseMoves s t"
  proof (cases "msClose s = CloseLwip")
    case True
    then have "msReaders s = 0" "\<not> msWriter s" using assms(1) run by (auto simp: lock_inv_def)
    with True show ?thesis using close_lock [of s] by blast
  next
    case False
    then show ?thesis using nd assms(1,2) run by (cases "msClose s") (auto simp: lock_inv_def intro: tun_step.intros)
  qed
  with assms(3) show False by (simp add: blocked_def)
qed


text \<open>C9: Closing the stack ends. Once the device is closed, in every interleaving with the other goroutines
  \<open>Run\<close> and \<open>Close\<close> together take at most seven more steps, and they can only come to a halt with \<open>Close\<close>
  finished and lwIP closed.\<close>

theorem mobile_stack_close_ends:
  assumes "tun_reachable s" "msFileClosed s" "tun_path es s t"
  shows "length (filter shuts es) \<le> 7 \<and> (blocked t \<longrightarrow> msClose t = CloseDone \<and> msLwipClosed t)"
proof -
  note inv = reachable_lock_inv [OF assms(1)]
  have t: "lock_inv t" "msFileClosed t" "length (filter shuts es) + shut_rank t \<le> shut_rank s"
    using shut_path [OF assms(3) inv assms(2)] by auto
  have "close_rank (msClose s) \<le> 4"
    using inv assms(2) by (cases "msClose s") (auto simp: lock_inv_def)
  moreover have "run_rank (msRun s) \<le> 3"
    by (cases "msRun s") simp_all
  ultimately have "length (filter shuts es) \<le> 7"
    using t(3) by (simp add: shut_rank_def)
  then show ?thesis
    using blocked_only_at_end [OF t(1,2)] t(1) by (auto simp: lock_inv_def)
qed


section \<open>UDP flows\<close>

text \<open>A flow in the table is the one of its key, and its reader still runs; a reader past its closing has
  closed its upstream.\<close>

definition flow_inv :: "mstack \<Rightarrow> bool" where
  [inv_defs]: "flow_inv s \<longleftrightarrow>
     (\<forall>k f. mget (msFlows s) k = Some f \<longrightarrow>
        f < msFresh s \<and> msFlowKey s f = k \<and> msReader s f \<in> {FlowReading, FlowReturn, FlowUnregister})
     \<and> map_ok (msFlows s)
     \<and> (\<forall>f < msFresh s. msReader s f \<noteq> FlowNone)
     \<and> (\<forall>f \<ge> msFresh s. msReader s f = FlowNone \<and> \<not> msUpClosed s f)
     \<and> (\<forall>f. msReader s f \<in> {FlowUnregister, FlowDone} \<longrightarrow> msUpClosed s f)"

lemma flow_inv_new: "new_mstack fd d pool dns = Inr s \<Longrightarrow> flow_inv s"
  by (drule new_mstack_SomeD) (simp add: flow_inv_def)

lemma flow_invD:
  assumes "flow_inv s"
  shows "mget (msFlows s) k = Some f \<Longrightarrow> f < msFresh s \<and> msFlowKey s f = k \<and> msReader s f \<in> {FlowReading, FlowReturn, FlowUnregister}"
    "map_ok (msFlows s)" "f < msFresh s \<Longrightarrow> msReader s f \<noteq> FlowNone"
    "msFresh s \<le> f \<Longrightarrow> msReader s f = FlowNone \<and> \<not> msUpClosed s f"
    "msReader s f \<in> {FlowUnregister, FlowDone} \<Longrightarrow> msUpClosed s f"
  using assms unfolding flow_inv_def by blast+

lemma flow_invI:
  assumes "\<And>k f. mget (msFlows s) k = Some f \<Longrightarrow>
      f < msFresh s \<and> msFlowKey s f = k \<and> msReader s f \<in> {FlowReading, FlowReturn, FlowUnregister}"
    "map_ok (msFlows s)" "\<And>f. f < msFresh s \<Longrightarrow> msReader s f \<noteq> FlowNone"
    "\<And>f. msFresh s \<le> f \<Longrightarrow> msReader s f = FlowNone \<and> \<not> msUpClosed s f"
    "\<And>f. msReader s f \<in> {FlowUnregister, FlowDone} \<Longrightarrow> msUpClosed s f"
  shows "flow_inv s"
  using assms unfolding flow_inv_def by blast

lemma flow_inv_open:
  assumes "flow_inv s"
  shows "flow_inv (open_flow key p s)"
proof (rule flow_invI, goal_cases)
  case (1 k f)
  then show ?case
    using flow_invD(1) [OF assms, of k f] by (simp add: open_flow_def Let_def split: if_splits)
next
  case (3 f)
  then show ?case using flow_invD(3) [OF assms, of f] by (auto simp: open_flow_def Let_def less_Suc_eq)
next
  case (4 f)
  then show ?case using flow_invD(4) [OF assms, of f] by (auto simp: open_flow_def Let_def)
next
  case (5 f)
  then show ?case using flow_invD(5) [OF assms, of f] by (auto simp: open_flow_def Let_def split: if_splits)
qed (use flow_invD(2) [OF assms] in \<open>simp add: open_flow_def Let_def\<close>)

lemma flow_inv_same:
  assumes "flow_inv s" "msFlows t = msFlows s" "msFlowKey t = msFlowKey s" "msReader t = msReader s"
    "msFresh t = msFresh s" "msUpClosed t = msUpClosed s"
  shows "flow_inv t"
  using assms unfolding flow_inv_def by simp

lemma flow_inv_forward:
  assumes "flow_inv s"
  shows "flow_inv (forward_udp env l x tg p s)"
proof (cases "mget (msFlows s) (flow_key l tg)")
  case None
  then show ?thesis
    using assms flow_inv_open [OF assms] by (simp add: forward_udp_def split: sum.split)
next
  case (Some f)
  then show ?thesis by (intro flow_inv_same [OF assms]) (simp_all add: forward_udp_def)
qed

lemma flow_inv_close:
  assumes "flow_inv s"
  shows "flow_inv ((close_flows s)\<lparr>msClose := c\<rparr>)"
proof (rule flow_invI, goal_cases)
  case (4 f)
  have "f \<notin> snd ` set (msFlows s)" if "msFresh s \<le> f"
    using flow_invD(1) [OF assms, of _ f] that map_ok_in_iff [OF flow_invD(2) [OF assms]] by fastforce
  with 4 show ?case using flow_invD(4) [OF assms, of f] by simp
qed (use flow_invD [OF assms] in \<open>simp_all\<close>)

lemma flow_inv_reader:
  assumes "flow_inv s" "msReader s f \<in> {FlowReading, FlowReturn}" "r \<in> {FlowReturn, FlowUnregister}"
    "r = FlowUnregister \<longrightarrow> u f" "\<And>g. g \<noteq> f \<Longrightarrow> u g = msUpClosed s g"
  shows "flow_inv (s\<lparr>msUpClosed := u, msReader := (msReader s)(f := r)\<rparr>)"
proof (rule flow_invI, goal_cases)
  case (1 k g)
  then show ?case using flow_invD(1) [OF assms(1), of k g] assms(3) by auto
next
  case 2
  then show ?case using flow_invD(2) [OF assms(1)] by simp
next
  case (3 g)
  then show ?case using flow_invD(3) [OF assms(1), of g] assms(3) by auto
next
  case (4 g)
  then show ?case using flow_invD(4) [OF assms(1), of g] assms(2) assms(5) [of g] by (cases "g = f") auto
next
  case (5 g)
  then show ?case using flow_invD(5) [OF assms(1), of g] assms(3,4) assms(5) [of g] by (cases "g = f") auto
qed

lemma flow_inv_unregister:
  assumes "flow_inv s" "msReader s f = FlowUnregister"
  shows "flow_inv ((unregister_flow f s)\<lparr>msReader := (msReader s)(f := FlowDone)\<rparr>)"
proof (rule flow_invI, goal_cases)
  case (1 k g)
  then show ?case using flow_invD(1) [OF assms(1), of k g] by (cases "g = f") (auto simp: unregister_flow_def split: if_splits)
next
  case 2
  then show ?case using flow_invD(2) [OF assms(1)] by (simp add: unregister_flow_def)
next
  case (3 g)
  then show ?case using flow_invD(3) [OF assms(1), of g] by simp
next
  case (4 g)
  then show ?case using flow_invD(4) [OF assms(1), of g] assms(2) by auto
next
  case (5 g)
  then show ?case using flow_invD(5) [OF assms(1), of g] assms(2) by (cases "g = f") (auto dest: flow_invD(5) [OF assms(1), of f])
qed

lemma flow_inv_step: "tun_step e s t \<Longrightarrow> flow_inv s \<Longrightarrow> flow_inv t"
proof (induction rule: tun_step.induct)
  case (flow_reads s f payload ok)
  then show ?case
    using flow_inv_reader [of s f FlowReturn "msUpClosed s"] by (auto intro: flow_inv_same [of s])
next
  case (flow_ends s f)
  then show ?case using flow_inv_reader [of s f FlowReturn "msUpClosed s"] by simp
next
  case (flow_closes s f)
  then show ?case by (intro flow_inv_reader) auto
next
  case (close_upstreams s)
  then show ?case by (intro flow_inv_close)
next
  case (flow_unregisters s f)
  then show ?case by (intro flow_inv_unregister)
next
  case (forward env l x tg p s)
  then show ?case by (intro flow_inv_forward)
qed (auto elim: flow_inv_same)

lemma reachable_flow_inv: "tun_reachable s \<Longrightarrow> flow_inv s"
  by (induction rule: tun_reachable.induct) (blast intro: flow_inv_new flow_inv_step)+

text \<open>C10: No UDP flow is lost. An open upstream connection has a reader that will close it, and when the reader of
  a flow has ended, its upstream connection is closed and the table does not name it.\<close>

theorem udp_flows_are_cleaned_up:
  assumes "tun_reachable s" "f < msFresh s"
  shows "(if msReader s f = FlowDone then msUpClosed s f \<and> f \<notin> snd ` set (msFlows s)
          else msUpClosed s f \<or> msReader s f = FlowReading \<or> msReader s f = FlowReturn)"
proof -
  note inv = reachable_flow_inv [OF assms(1)]
  have "f \<notin> snd ` set (msFlows s)" if "msReader s f = FlowDone"
    using that flow_invD(1) [OF inv, of _ f] map_ok_in_iff [OF flow_invD(2) [OF inv]] by fastforce
  then show ?thesis
    using flow_invD(3,5) [OF inv, of f] assms(2) by (cases "msReader s f") auto
qed


text \<open>\<open>forwardUDP\<close> does not ask whether the stack is closed: a handler that comes late opens a flow that \<open>Close\<close>
  no longer closes. Only the end of its upstream (at the latest the idle timeout) does.\<close>

lemma late_datagram_opens_a_flow:
  assumes "tun_reachable s" "msClose s = CloseDone" "mget (msFlows s) (flow_key l tg) = None"
    "dial_flow env x tg s = Inr c"
  shows "\<exists>t. tun_reachable t \<and> msClose t = CloseDone \<and> mget (msFlows t) (flow_key l tg) = Some (msFresh s)
           \<and> \<not> msUpClosed t (msFresh s) \<and> msReader t (msFresh s) = FlowReading"
proof -
  let ?t = "forward_udp env l x tg p s"
  have t: "?t = open_flow (flow_key l tg) p s"
    using assms(3,4) by (simp add: forward_udp_def)
  have "tun_reachable ?t"
    by (rule more_steps [OF assms(1) forward])
  moreover have "\<not> msUpClosed s (msFresh s)"
    using flow_invD(4) [OF reachable_flow_inv [OF assms(1)]] by simp
  ultimately show ?thesis
    using assms(2) by (intro exI [of _ ?t]) (simp add: t open_flow_def Let_def)
qed


section \<open>The name of a connection\<close>

lemma learn_answers_keeps:
  "mget hosts a = Some q \<Longrightarrow> q \<noteq> [] \<Longrightarrow> mget (learn_answers q as hosts) a = Some q"
  by (induction q as hosts rule: learn_answers.induct) simp_all

lemma learn_answers_host:
  "(name, Some x) \<in> set as \<Longrightarrow> q \<noteq> [] \<Longrightarrow> mget (learn_answers q as hosts) (ip_string x) = Some q"
  by (induction q as hosts rule: learn_answers.induct) (auto intro: learn_answers_keeps)

text \<open>A connection is dialled by the name it was looked up with: a connection to an address that a DNS
  reply named, and that is no fake address, is dialled exactly as the dialer dials with the queried host as the
  host to resolve.\<close>

lemma connection_keeps_queried_name:
  assumes "receive_dns lib view evs payload hosts dns = Some (reply, hosts', dns')"
    "dlUnpack lib payload = Some (opcode, (name, qtype) # qs, msg)" "trim_suffix name ''.'' = q" "q \<noteq> []"
    "handleSingleDNSResolve (dlNewRR lib) True evs opcode ((name, qtype) # qs) dns = Some (rrs, dns')"
    "rr \<in> set rrs" "view rr = (owner, Some x)" "x \<noteq> []" "GetDomain pool x = None"
    "split_host_port target = Some (host, port)" "parse_ip host = x"
  shows "tcp_handle env d pool hosts' target = Inr (DialIPPort env d (no_values\<lparr>vHost := Some q\<rparr>) ''tcp'' target)"
proof -
  have "hosts' = learn_answers q (map view rrs) hosts"
    using assms(1,2,3,5) by (simp add: receive_dns_def query_host_def)
  moreover have "(owner, Some x) \<in> set (map view rrs)"
    using assms(6,7) by (metis image_eqI list.set_map)
  ultimately have "mget hosts' (ip_string x) = Some q"
    using learn_answers_host assms(4) by simp
  then show ?thesis
    using assms(8-11) by (simp add: tcp_handle_def restore_host_def)
qed


section \<open>Runs\<close>

lemma some_mstack:
  obtains s where "tun_reachable s" "msRun s = RunIdle" "msClose s = CloseIdle" "\<not> msFileClosed s" "\<not> msWriter s"
    "msReaders s = 0" "\<not> msClosed s" "msFresh s = 0" "msFlows s = []" "msDialer s = NewDialer None False []"
    "msHosts s = []" "msPool s = \<lparr>domainToIP = [], ipToDomain = [], minIP = 1, maxIP = 9, currentIP = 3\<rparr>"
proof -
  let ?p = "\<lparr>domainToIP = [], ipToDomain = [], minIP = 1, maxIP = 9, currentIP = 3\<rparr>"
  obtain s where "new_mstack 5 (Some (NewDialer None False [])) (Some ?p) True = Inr s"
    by (simp add: new_mstack_def)
  note n = this
  show thesis
    by (rule that [OF tun_reachable.start [OF n]]) (use n in \<open>auto simp: new_mstack_def\<close>)
qed

theorem lwip_outlives_its_packets_witness:
  "\<exists>s. tun_reachable s \<and> msRun s = RunWriting [0x45] \<and> \<not> msLwipClosed s \<and> \<not> msWriter s"
proof -
  obtain s where s: "tun_reachable s" "msRun s = RunIdle" "\<not> msFileClosed s" "\<not> msWriter s" "\<not> msClosed s"
    using some_mstack by metis
  have 1: "tun_reachable (s\<lparr>msRunStarted := True, msRun := RunRead\<rparr>)" (is "tun_reachable ?a")
    by (rule more_steps [OF s(1) run_start]) (rule s)
  have 2: "tun_reachable (?a\<lparr>msRun := RunGot [0x45]\<rparr>)" (is "tun_reachable ?b")
    using more_steps [OF 1 run_packet [of ?a "[0x45]"]] s by simp
  have 3: "tun_reachable (?b\<lparr>msReaders := Suc (msReaders ?b), msRun := RunLocked [0x45]\<rparr>)" (is "tun_reachable ?c")
    using more_steps [OF 2 run_lock [of ?b "[0x45]"]] s by simp
  have 4: "tun_reachable (?c\<lparr>msRun := RunWriting [0x45]\<rparr>)" (is "tun_reachable ?d")
    using more_steps [OF 3 run_check [of ?c "[0x45]"]] s by simp
  have "msRun ?d = RunWriting [0x45]" by simp
  then show ?thesis using lwip_outlives_its_packets [OF 4] 4 by blast
qed

lemma closing_run:
  obtains s where "tun_reachable s" "msFileClosed s" "msClose s = CloseCheck" "msRun s = RunIdle" "\<not> msRunStarted s"
    "msReaders s = 0" "\<not> msWriter s"
proof -
  obtain s where s: "tun_reachable s" "msClose s = CloseIdle" "msRun s = RunIdle" "\<not> msWriter s" "msReaders s = 0"
    using some_mstack by metis
  have 1: "tun_reachable (s\<lparr>msClosed := True, msClose := CloseFlows\<rparr>)" (is "tun_reachable ?a")
    by (rule more_steps [OF s(1) close_start]) (rule s)
  have 2: "tun_reachable ((close_flows ?a)\<lparr>msClose := CloseFile\<rparr>)" (is "tun_reachable ?b")
    by (rule more_steps [OF 1 close_upstreams]) simp
  have 3: "tun_reachable (?b\<lparr>msFileClosed := True, msClose := CloseCheck\<rparr>)" (is "tun_reachable ?c")
    by (rule more_steps [OF 2 close_file]) simp
  have "\<not> msRunStarted ?c" using reachable_lock_inv [OF 3] s by (simp add: lock_inv_def)
  then show thesis using that [OF 3] s by simp
qed

theorem mobile_stack_close_ends_witness:
  "\<exists>s t. tun_path [CloseMoves, CloseMoves, CloseMoves, CloseMoves] s t
     \<and> length (filter shuts [CloseMoves, CloseMoves, CloseMoves, CloseMoves]) \<le> 7
     \<and> (if blocked t then msClose t = CloseDone \<and> msLwipClosed t else True)"
proof -
  obtain s where s: "tun_reachable s" "msFileClosed s" "msClose s = CloseCheck" "\<not> msRunStarted s" "msReaders s = 0" "\<not> msWriter s"
    using closing_run by metis
  have 1: "tun_step CloseMoves s (s\<lparr>msClose := CloseOnce\<rparr>)" (is "tun_step _ _ ?a")
    using close_check [of s] s by simp
  have 2: "tun_step CloseMoves ?a (?a\<lparr>msRunDone := True, msClose := CloseLwip\<rparr>)" (is "tun_step _ _ ?b")
    by (rule close_once) simp
  have 3: "tun_step CloseMoves ?b (?b\<lparr>msWriter := True, msClose := CloseHeld\<rparr>)" (is "tun_step _ _ ?c")
    by (rule close_lock) (use s in simp_all)
  have 4: "tun_step CloseMoves ?c (?c\<lparr>msLwipClosed := True, msWriter := False, msClose := CloseDone\<rparr>)" (is "tun_step _ _ ?d")
    by (rule close_lwip) simp
  have "tun_path [CloseMoves, CloseMoves, CloseMoves, CloseMoves] s ?d"
    by (rule go [OF 1 go [OF 2 go [OF 3 go [OF 4 stop]]]])
  then show ?thesis using mobile_stack_close_ends [OF s(1,2)] by (metis (full_types))
qed


theorem udp_flows_are_cleaned_up_witness:
  "\<exists>s. tun_reachable s \<and> msReader s 0 = FlowDone \<and> msUpClosed s 0 \<and> 0 \<notin> snd ` set (msFlows s)"
proof -
  obtain s where s: "tun_reachable s" "msFresh s = 0" "msFlows s = []" "msDialer s = NewDialer None False []"
    using some_mstack by metis
  have "route_ip_port (NewDialer None False []) no_values ''udp'' ''9.9.9.9:99'' = Inr (CallDirect ''udp'' ''9.9.9.9:99'')"
    by code_simp
  then have d: "fst (DialIPPort proxy_env (NewDialer None False []) no_values ''udp'' ''9.9.9.9:99'') = Inr proxy_conn"
    by (simp add: DialIPPort_def dialDirectWithoutProxy_def) (simp add: proxy_env_def)
  have f: "forward_udp proxy_env ''l'' None ''9.9.9.9:99'' [1] s = open_flow (flow_key ''l'' ''9.9.9.9:99'') [1] s"
    by (simp add: forward_udp_def dial_flow_def s d)
  have 1: "tun_reachable (open_flow (flow_key ''l'' ''9.9.9.9:99'') [1] s)" (is "tun_reachable ?a")
    using more_steps [OF s(1) forward [of proxy_env "''l''" None "''9.9.9.9:99''" "[1]"]] by (simp only: f)
  have r: "msReader ?a 0 = FlowReading" "msFresh ?a = 1"
    by (simp_all add: open_flow_def s)
  have 2: "tun_reachable (?a\<lparr>msReader := (msReader ?a)(0 := FlowReturn)\<rparr>)" (is "tun_reachable ?b")
    by (rule more_steps [OF 1 flow_ends]) (rule r)
  have 3: "tun_reachable (?b\<lparr>msUpClosed := (msUpClosed ?b)(0 := True), msReader := (msReader ?b)(0 := FlowUnregister)\<rparr>)"
    (is "tun_reachable ?c") by (rule more_steps [OF 2 flow_closes]) simp
  have 4: "tun_reachable ((unregister_flow 0 ?c)\<lparr>msReader := (msReader ?c)(0 := FlowDone)\<rparr>)" (is "tun_reachable ?d")
    by (rule more_steps [OF 3 flow_unregisters]) simp
  have "0 < msFresh ?d" "msReader ?d 0 = FlowDone" by (simp_all add: r)
  then show ?thesis using udp_flows_are_cleaned_up [OF 4] 4 by (metis (full_types))
qed

lemma resolve_cached:
  "getDNSCache (normalizeHostname host) r = Some x \<Longrightarrow> \<exists>c. Resolve evs e host ctx r = Some (c, Inr x, r)"
  by (simp add: Resolve_def Let_def)

definition sample_dns :: "(string, ip) dns_lib" where
  "sample_dns = \<lparr>dlUnpack = (\<lambda>_. Some (0, [(''h.'', 1)], [])), dlPack = (\<lambda>_ _. Some [0]), dlNewRR = (\<lambda>_. Some [10, 0, 0, 7])\<rparr>"

lemma connection_keeps_queried_name_example:
  "\<exists>hosts'. tcp_handle proxy_env (NewDialer None False []) (rPool sample_resolver) hosts' ''10.0.0.7:80''
     = Inr (DialIPPort proxy_env (NewDialer None False []) (no_values\<lparr>vHost := Some ''h''\<rparr>) ''tcp'' ''10.0.0.7:80'')"
proof -
  let ?d = "\<lparr>dnResolver = sample_resolver\<lparr>rCache := [(''h'', ipv4 10 0 0 7)]\<rparr>, dnLocalDNS = []\<rparr>"
  let ?view = "\<lambda>rr. (''h.'', Some (ipv4 10 0 0 7))"
  have n: "question_name ''h.'' = ''h''" "normalizeHostname (normalizeHostname ''h'') = ''h''" "to4 (ipv4 10 0 0 7) \<noteq> []"
    by code_simp+
  have "getDNSCache (normalizeHostname ''h'') (dnResolver ?d) = Some (ipv4 10 0 0 7)"
    by (simp add: getDNSCache_def n mget_def)
  note cached = resolve_cached [OF this]
  obtain c where "Resolve [] None ''h'' \<lparr>rcFakeIP = True, rcDomainRules = None, rcResolveHost = None\<rparr> (dnResolver ?d)
      = Some (c, Inr (ipv4 10 0 0 7), dnResolver ?d)"
    using cached by blast
  then have h: "handleSingleDNSResolve (dlNewRR sample_dns) True [] 0 [(''h.'', 1)] ?d = Some ([[10, 0, 0, 7]], ?d)"
    by (simp add: handleSingleDNSResolve_def resolve_question_def n TypeA_def TypeAAAA_def) (simp add: sample_dns_def)
  have e: "trim_suffix ''h.'' ''.'' = ''h''" "split_host_port ''10.0.0.7:80'' = Some (''10.0.0.7'', ''80'')"
    "parse_ip ''10.0.0.7'' = ipv4 10 0 0 7" "GetDomain (rPool sample_resolver) (ipv4 10 0 0 7) = None" "ipv4 10 0 0 7 \<noteq> []"
  proof -
    show "trim_suffix ''h.'' ''.'' = ''h''" by code_simp
    show "split_host_port ''10.0.0.7:80'' = Some (''10.0.0.7'', ''80'')" by code_simp
    show "parse_ip ''10.0.0.7'' = ipv4 10 0 0 7" by code_simp
    show "GetDomain (rPool sample_resolver) (ipv4 10 0 0 7) = None"
      by (simp add: GetDomain_def sample_resolver_def split: option.split)
    show "ipv4 10 0 0 7 \<noteq> []" by code_simp
  qed
  have u: "dlUnpack sample_dns [] = Some (0, [(''h.'', 1)], [])" by (simp add: sample_dns_def)
  have r: "receive_dns sample_dns ?view [] [] [] ?d
      = Some (Some [0], learn_answers ''h'' (map ?view [[10, 0, 0, 7]]) [], ?d)"
    using h e(1) by (simp add: receive_dns_def u query_host_def) (simp add: sample_dns_def)
  have "tcp_handle proxy_env (NewDialer None False []) (rPool sample_resolver) (learn_answers ''h'' (map ?view [[10, 0, 0, 7]]) [])
      ''10.0.0.7:80'' = Inr (DialIPPort proxy_env (NewDialer None False []) (no_values\<lparr>vHost := Some ''h''\<rparr>) ''tcp'' ''10.0.0.7:80'')"
    by (rule connection_keeps_queried_name [OF r u e(1) _ h _ refl e(5,4,2,3)]) simp_all
  then show ?thesis by blast
qed

end
