(* ===== verification/MobileSession.thy ===== *)
theory MobileSession
  imports AtrustAuth MobileTun
begin

text \<open>
  The session of the Android binding (\<open>mobile/mobile_android.go\<close>): its configuration, the policy engine built
  from the server's policy and the user's, the error paths of a login, and the life of the one active session
  under the calls of the application. What \<open>Setup\<close> of a client answers and what the client then knows are
  parameters, as are JSON, certificates, listeners and the network stacks. Every call of the binding is one
  step; \<open>StartStack\<close>, which blocks while its stack runs, is two.
\<close>

section \<open>Configuration\<close>

record mobile_config =
  mcProtocol :: string
  mcServer :: string
  mcServerScheme :: string
  mcPort :: int
  mcUsername :: string
  mcPassword :: string
  mcTOTPSecret :: string
  mcTwfID :: string
  mcCertificateBase64 :: string
  mcCertificatePassword :: string
  mcAuthType :: string
  mcLoginDomain :: string
  mcPhone :: string
  mcClientData :: string
  mcSocksBind :: string
  mcSocksUser :: string
  mcSocksPassword :: string
  mcHTTPBind :: string
  mcRemoteDNS :: string
  mcSecondaryDNS :: string
  mcProxyAll :: bool
  mcDisableConfig :: bool
  mcDisableRemoteDNS :: bool
  mcSkipDomainResource :: bool
  mcDialDirectProxy :: string
  mcDisableKeepAlive :: bool
  mcKeepAliveURL :: string
  mcTCPTunnelOnly :: bool
  mcDNSTTL :: int
  mcUpdateBestNodesInterval :: int
  mcSessionRefreshInterval :: int
  mcCustomDNS :: "(string, string) gomap"
  mcCustomProxyDomains :: "string list"

text \<open>\<open>parseConfig\<close> after JSON decoding: defaults, then the checks.\<close>

definition server_scheme :: "string \<Rightarrow> string" where
  "server_scheme scheme = (let s = to_lower (trim_space scheme) in if s = [] then ''https'' else s)"

definition with_defaults :: "mobile_config \<Rightarrow> mobile_config" where
  "with_defaults c =
     c\<lparr>mcPort := (if mcPort c = 0 then 443 else mcPort c),
       mcRemoteDNS := (if mcRemoteDNS c = [] then ''auto'' else mcRemoteDNS c),
       mcDNSTTL := (if mcDNSTTL c \<le> 0 then 3600 else mcDNSTTL c),
       mcUpdateBestNodesInterval := (if mcUpdateBestNodesInterval c < 0 then 300 else mcUpdateBestNodesInterval c),
       mcSessionRefreshInterval := (if mcSessionRefreshInterval c < 0 then 1800 else mcSessionRefreshInterval c)\<rparr>"

definition parseConfig :: "(string \<Rightarrow> string + mobile_config) \<Rightarrow> string \<Rightarrow> string + mobile_config" where
  "parseConfig decode value =
     (case decode value of
        Inl e \<Rightarrow> Inl e
      | Inr c \<Rightarrow>
          (let c = (if mcProtocol c = [] then c\<lparr>mcProtocol := ''atrust''\<rparr> else c)
           in if mcServer c = [] then Inl ''server is required''
              else (let c = c\<lparr>mcServerScheme := server_scheme (mcServerScheme c)\<rparr>
                in if mcServerScheme c \<noteq> ''https'' \<and> mcServerScheme c \<noteq> ''http'' then Inl ''unsupported server scheme''
                   else if mcServerScheme c = ''http'' \<and> mcCertificateBase64 c \<noteq> [] then
                     Inl ''EasyConnect client certificates require HTTPS''
                   else (let c = with_defaults c
                     in if to_lower (mcProtocol c) = ''easyconnect'' \<and> mcTwfID c = [] \<and> mcCertificateBase64 c = []
                          \<and> trim_space (mcUsername c) = [] then
                          Inl ''EasyConnect username is required when TwfID is empty''
                        else if to_lower (mcProtocol c) = ''easyconnect'' \<and> mcTwfID c = [] \<and> mcCertificateBase64 c = []
                          \<and> mcPassword c = [] then
                          Inl ''EasyConnect password is required when TwfID is empty''
                        else Inr c))))"


section \<open>The result of a call\<close>

record mobile_result =
  mrOK :: bool
  mrErrorCode :: string
  mrErrorMessage :: string
  mrAddress :: string
  mrPrefixLength :: int
  mrMTU :: int
  mrRoutes :: "string list"
  mrDNSServers :: "string list"
  mrSocksAddress :: string
  mrHTTPAddress :: string
  mrClientData :: string
  mrDomainResources :: "string list"

definition ok_result :: mobile_result where
  "ok_result = \<lparr>mrOK = True, mrErrorCode = [], mrErrorMessage = [], mrAddress = [], mrPrefixLength = 0, mrMTU = 0,
     mrRoutes = [], mrDNSServers = [], mrSocksAddress = [], mrHTTPAddress = [], mrClientData = [],
     mrDomainResources = []\<rparr>"

definition failure :: "string \<Rightarrow> string \<Rightarrow> mobile_result" where
  "failure code err = ok_result\<lparr>mrOK := False, mrErrorCode := code, mrErrorMessage := err\<rparr>"

text \<open>What a client that is set up knows: its address, the routed prefixes, its DNS servers, its rules. An error
  of a getter whose error the code ignores is its zero value; \<open>vwDomains\<close> carries the error flag, because one of
  the two readers asks for it. Maps may be nil.\<close>

record client_view =
  vwIP :: "string + ip"
  vwPrefixes :: "string list option"
  vwContains :: "(ip \<Rightarrow> bool) option"
  vwDNSServers :: "string list"
  vwDNSServer :: string
  vwDomains :: "bool \<times> (string, DomainResource list) gomap option"
  vwIPResources :: "IPResource list option"
  vwDNSResource :: "(string, ip list) gomap option"
  vwTCPTunnel :: bool

definition negotiatedResult :: "client_view \<Rightarrow> string + mobile_result" where
  "negotiatedResult v =
     (case vwIP v of
        Inl e \<Rightarrow> Inl e
      | Inr x \<Rightarrow>
          Inr (ok_result\<lparr>mrAddress := ip_string x, mrPrefixLength := 32, mrMTU := 1400,
            mrRoutes := (case vwPrefixes v of Some ps \<Rightarrow> ps | None \<Rightarrow> []),
            mrDNSServers := vwDNSServers v,
            mrDomainResources :=
              (case vwDomains v of (False, Some m) \<Rightarrow> map fst m | _ \<Rightarrow> [])\<rparr>))"

definition custom_domains :: "mobile_config \<Rightarrow> string list" where
  "custom_domains c = filter (\<lambda>d. d \<noteq> []) (map (\<lambda>d. trim_space (to_lower d)) (mcCustomProxyDomains c))"

definition session_result :: "mobile_config \<Rightarrow> mobile_result \<Rightarrow> mobile_result" where
  "session_result c r =
     r\<lparr>mrDomainResources := (if mcSkipDomainResource c then [] else mrDomainResources r) @ custom_domains c\<rparr>"


section \<open>The policy engine\<close>

definition any_rule :: DomainResource where
  "any_rule = \<lparr>PortMin = 1, PortMax = 65535, ResProtocol = ''all'', AppID = [], NodeGroupID = [],
     EnableTCPPrefL3 = False, AddrPretend = False\<rparr>"

definition add_custom :: "string list \<Rightarrow> (string, DomainResource list) gomap \<Rightarrow> (string, DomainResource list) gomap" where
  "add_custom ds m =
     foldl (\<lambda>m d. mset d ((case mget m d of None \<Rightarrow> [] | Some rs \<Rightarrow> rs) @ [any_rule]) m) m ds"

text \<open>The rules of the policy; when the server's map is used it is the client's own map that grows.\<close>

definition policy_domains :: "mobile_config \<Rightarrow> client_view \<Rightarrow> (string, DomainResource list) gomap option" where
  "policy_domains c v =
     (let m = (if mcSkipDomainResource c then None else snd (vwDomains v));
          m = (if m = None \<and> mcCustomProxyDomains c \<noteq> [] then Some [] else m)
      in map_option (add_custom (custom_domains c)) m)"

definition client_domains_after :: "mobile_config \<Rightarrow> client_view \<Rightarrow> (string, DomainResource list) gomap option" where
  "client_domains_after c v =
     (if mcSkipDomainResource c then snd (vwDomains v)
      else map_option (add_custom (custom_domains c)) (snd (vwDomains v)))"

definition remote_dns :: "mobile_config \<Rightarrow> client_view \<Rightarrow> string" where
  "remote_dns c v =
     (if mcRemoteDNS c = ''auto'' then (case vwDNSServers v of s # _ \<Rightarrow> s | [] \<Rightarrow> vwDNSServer v)
      else mcRemoteDNS c)"

definition use_remote_dns :: "mobile_config \<Rightarrow> client_view \<Rightarrow> bool" where
  "use_remote_dns c v \<longleftrightarrow> \<not> mcDisableRemoteDNS c \<and> \<not> mcTCPTunnelOnly c \<and> remote_dns c v \<noteq> []"

text \<open>The secondary server, and, when it is one of the policy's, that it is asked through the tunnel too.\<close>

definition secondary_dns :: "mobile_config \<Rightarrow> client_view \<Rightarrow> string \<times> string" where
  "secondary_dns c v =
     (if mcSecondaryDNS c = [] \<or> mcSecondaryDNS c = ''auto'' then
        (case (if use_remote_dns c v then find (\<lambda>s. s \<noteq> [] \<and> s \<noteq> remote_dns c v) (vwDNSServers v) else None) of
           Some s \<Rightarrow> (s, s)
         | None \<Rightarrow> (''114.114.114.114'', []))
      else (mcSecondaryDNS c, []))"

definition policy_suffix :: "string \<Rightarrow> string option" where
  "policy_suffix server =
     (let labels = split_on (CHR ''.'') (trim_suffix (to_lower server) ''.'')
      in if 3 \<le> length labels then Some (join_with ''.'' (tl labels)) else None)"

text \<open>\<open>NewResolver\<close> (\<open>resolve/resolver.go\<close>). The range of fake addresses parses, so the code does
  not end the process here.\<close>

definition NewResolver ::
  "(string, DomainResource list) gomap option \<Rightarrow> (string, ip list) gomap option \<Rightarrow> bool \<Rightarrow> resolver" where
  "NewResolver doms dnsResource useRemote =
     \<lparr>rIndex = newDomainResourceIndex (case doms of None \<Rightarrow> [] | Some m \<Rightarrow> m) empty_node, rDnsResource = dnsResource,
      rCursors = [], rUseRemote = useRemote, rExternal = False, rSecondary = True, rSources = [], rHistory = None,
      rPreferred = None, rPolicySuffix = [], rCache = [], rPool = the (NewIPPool ''198.18.0.0/16''), rUseTCP = False,
      rTimer = False\<rparr>"

lemma fake_range_parses: "NewIPPool ''198.18.0.0/16'' \<noteq> (None :: DomainResource list IPPool option)"
  by (simp add: NewIPPool_default)

text \<open>The host application's callback answers lists of addresses in JSON; what does not parse is dropped.\<close>

definition parse_addresses :: "string list \<Rightarrow> ip list" where
  "parse_addresses addresses = filter (\<lambda>x. x \<noteq> []) (map parse_ip addresses)"

definition history_lookup :: "(string \<Rightarrow> string list option) \<Rightarrow> string \<Rightarrow> ip list" where
  "history_lookup f host = (case f host of None \<Rightarrow> [] | Some addresses \<Rightarrow> parse_addresses addresses)"

definition external_lookup :: "(string \<Rightarrow> string + string list) \<Rightarrow> string \<Rightarrow> string + ip list" where
  "external_lookup f host =
     (case f host of
        Inl e \<Rightarrow> Inl e
      | Inr addresses \<Rightarrow>
          (let ips = parse_addresses addresses
           in if ips = [] then Inl ''Android system DNS returned no IPv4 address'' else Inr ips))"

definition set_custom_dns :: "(string, string) gomap \<Rightarrow> resolver \<Rightarrow> resolver" where
  "set_custom_dns m r =
     foldl (\<lambda>r (domain, address). if parse_ip address = [] then r else SetPermanentDNS domain (parse_ip address) r) r m"

definition policy_resolver ::
  "mobile_config \<Rightarrow> client_view \<Rightarrow> (string \<Rightarrow> string list option) option \<Rightarrow> resolver" where
  "policy_resolver c v callback =
     (let r = NewResolver (policy_domains c v) (vwDNSResource v) (use_remote_dns c v);
          r = (case policy_suffix (mcServer c) of Some s \<Rightarrow> SetPolicyDomainSuffix s r | None \<Rightarrow> r);
          r = (if snd (secondary_dns c v) \<noteq> [] then AddLookupSource ''policy-secondary'' True r else r);
          r = (case callback of Some f \<Rightarrow> r\<lparr>rExternal := True, rHistory := Some (history_lookup f)\<rparr> | None \<Rightarrow> r);
          r = (case vwContains v of Some f \<Rightarrow> r\<lparr>rPreferred := Some f\<rparr> | None \<Rightarrow> r)
      in set_custom_dns (mcCustomDNS c) r)"

definition policy_dns_server :: "mobile_config \<Rightarrow> client_view \<Rightarrow> resolver \<Rightarrow> DNSServer" where
  "policy_dns_server c v r = NewDnsServer r [remote_dns c v, fst (secondary_dns c v)]"

definition policy_dialer :: "mobile_config \<Rightarrow> client_view \<Rightarrow> dialer" where
  "policy_dialer c v = NewDialer (vwIPResources v) (mcProxyAll c) (mcDialDirectProxy c)"

definition keeps_alive :: "mobile_config \<Rightarrow> client_view \<Rightarrow> bool" where
  "keeps_alive c v \<longleftrightarrow> \<not> mcDisableKeepAlive c \<and> (mcKeepAliveURL c \<noteq> [] \<or> use_remote_dns c v)"


section \<open>Sessions and what they own\<close>

text \<open>What a session opens and has to close: the keep-alive loop, the proxy listeners, the TUN stack, the
  resolver, the gVisor stack, the client and the underlay dialer. Listeners and TUN stacks have numbers of their
  own, the rest that of the session.\<close>

datatype owned =
    OwnKeepAlive nat
  | OwnServer nat
  | OwnTun nat
  | OwnResolver nat
  | OwnStack nat
  | OwnClient nat
  | OwnUnderlay nat

record mob_session =
  ssClient :: bool
  ssUnderlay :: bool
  ssGvisor :: bool
  ssResolver :: "resolver option"
  ssDialer :: "dialer option"
  ssServers :: "nat list"
  ssTun :: "nat option"
  ssKeepAlive :: bool
  ssClosed :: bool

text \<open>The binding's variables and, beside them, what is open, what has been closed and in which order, and how
  often the host was told that the session expired. \<open>apRunning\<close> are the calls of \<open>StartStack\<close> still running.\<close>

record app_state =
  apSessions :: "nat \<Rightarrow> mob_session"
  apFresh :: nat
  apActive :: "nat option"
  apDNS :: "(string \<Rightarrow> string list option) option"
  apNotify :: bool
  apOpen :: "owned list"
  apLog :: "owned list"
  apExpired :: nat
  apRunning :: "(nat \<times> nat) list"

definition no_session :: mob_session where
  "no_session = \<lparr>ssClient = False, ssUnderlay = True, ssGvisor = False, ssResolver = None, ssDialer = None,
     ssServers = [], ssTun = None, ssKeepAlive = False, ssClosed = False\<rparr>"

definition fresh_app :: app_state where
  "fresh_app = \<lparr>apSessions = (\<lambda>_. no_session), apFresh = 0, apActive = None, apDNS = None, apNotify = False,
     apOpen = [], apLog = [], apExpired = 0, apRunning = []\<rparr>"

definition opens :: "owned \<Rightarrow> app_state \<Rightarrow> app_state" where
  "opens r a = a\<lparr>apOpen := r # apOpen a\<rparr>"

definition closes :: "owned \<Rightarrow> app_state \<Rightarrow> app_state" where
  "closes r a = a\<lparr>apOpen := removeAll r (apOpen a), apLog := apLog a @ [r]\<rparr>"

definition on_session :: "nat \<Rightarrow> (mob_session \<Rightarrow> mob_session) \<Rightarrow> app_state \<Rightarrow> app_state" where
  "on_session n f a = a\<lparr>apSessions := (apSessions a)(n := f (apSessions a n))\<rparr>"

text \<open>\<open>stopProxy\<close> and \<open>close\<close>. The order of the list is the order of the calls.\<close>

definition stopProxy :: "nat \<Rightarrow> app_state \<Rightarrow> app_state" where
  "stopProxy n a =
     fold closes (map OwnServer (ssServers (apSessions a n))) (on_session n (\<lambda>s. s\<lparr>ssServers := []\<rparr>) a)"

definition owns :: "nat \<Rightarrow> mob_session \<Rightarrow> owned list" where
  "owns n s =
     (if ssKeepAlive s then [OwnKeepAlive n] else []) @ map OwnServer (ssServers s)
     @ (case ssTun s of Some t \<Rightarrow> [OwnTun t] | None \<Rightarrow> [])
     @ (if ssResolver s \<noteq> None then [OwnResolver n] else [])
     @ (if ssGvisor s then [OwnStack n] else [])
     @ (if ssClient s then [OwnClient n] else [])
     @ (if ssUnderlay s then [OwnUnderlay n] else [])"

definition close_session :: "nat \<Rightarrow> app_state \<Rightarrow> app_state" where
  "close_session n a =
     (let s = apSessions a n
      in if ssClosed s then a
         else fold closes (owns n s)
           (on_session n (\<lambda>s. s\<lparr>ssClosed := True, ssTun := None, ssKeepAlive := False, ssServers := []\<rparr>) a))"


section \<open>Creating a session\<close>

text \<open>What the world answers while a session is created: errors of the underlay dialer, of the certificate, of
  the client's \<open>Setup\<close> (and whether it says that the saved session is invalid), of the network stack; the new
  client data and what the client knows.\<close>

record world =
  wdUnderlay :: "string option"
  wdCertificate :: "string \<Rightarrow> string \<Rightarrow> string option"
  wdSetup :: "string option"
  wdInvalid :: bool
  wdClientData :: string
  wdView :: client_view
  wdNewStack :: "string option"

definition auth_type :: "string \<Rightarrow> string" where
  "auth_type t = (if t \<noteq> [] \<and> \<not> has_prefix t ''auth/'' then ''auth/'' @ t else t)"

text \<open>The client of the protocol: why there is none, before it is made; or that it is made.\<close>

definition client_refused :: "mobile_config \<Rightarrow> world \<Rightarrow> string option" where
  "client_refused c w =
     (if to_lower (mcProtocol c) = ''easyconnect'' then
        (if mcCertificateBase64 c \<noteq> [] then wdCertificate w (mcCertificateBase64 c) (mcCertificatePassword c) else None)
      else if to_lower (mcProtocol c) = ''atrust'' then
        (case NewLoginMethod \<lparr>loAuthType = auth_type (mcAuthType c), loUsername = mcUsername c,
                 loPassword = mcPassword c, loPhone = mcPhone c, loDomain = mcLoginDomain c, loGraphCodeFile = [],
                 loCASTicket = [], loOAuth2Code = []\<rparr> of
           Inl e \<Rightarrow> Some e
         | Inr _ \<Rightarrow> None)
      else Some (''unsupported protocol '' @ mcProtocol c))"

definition setup_client :: "mobile_config \<Rightarrow> world \<Rightarrow> nat \<Rightarrow> app_state \<Rightarrow> string option \<times> app_state" where
  "setup_client c w n a =
     (case client_refused c w of
        Some e \<Rightarrow> (Some e, closes (OwnUnderlay n) a)
      | None \<Rightarrow>
          (let a = opens (OwnClient n) a
           in case wdSetup w of
                Some e \<Rightarrow>
                  (let a = (if to_lower (mcProtocol c) = ''atrust'' \<and> wdInvalid w \<and> apNotify a
                            then a\<lparr>apExpired := Suc (apExpired a)\<rparr> else a)
                   in (Some e, closes (OwnUnderlay n) (closes (OwnClient n) a)))
              | None \<Rightarrow> (None, on_session n (\<lambda>s. s\<lparr>ssClient := True\<rparr>) a)))"

definition setupPolicy :: "mobile_config \<Rightarrow> world \<Rightarrow> nat \<Rightarrow> app_state \<Rightarrow> string option \<times> app_state" where
  "setupPolicy c w n a =
     (if mcTCPTunnelOnly c \<and> \<not> vwTCPTunnel (wdView w) then
        (Some ''TCP tunnel is unavailable for this protocol/server'', a)
      else if \<not> mcTCPTunnelOnly c \<and> wdNewStack w \<noteq> None then (wdNewStack w, a)
      else (let a = (if mcTCPTunnelOnly c then a else opens (OwnStack n) (on_session n (\<lambda>s. s\<lparr>ssGvisor := True\<rparr>) a));
                r = policy_resolver c (wdView w) (apDNS a);
                a = opens (OwnResolver n) (on_session n (\<lambda>s. s\<lparr>ssResolver := Some r\<rparr>) a);
                a = on_session n (\<lambda>s. s\<lparr>ssDialer := Some (policy_dialer c (wdView w))\<rparr>) a
            in (None,
                if keeps_alive c (wdView w)
                then opens (OwnKeepAlive n) (on_session n (\<lambda>s. s\<lparr>ssKeepAlive := True\<rparr>) a) else a)))"

definition createSession ::
  "mobile_config \<Rightarrow> world \<Rightarrow> app_state \<Rightarrow> (string + nat \<times> mobile_result) \<times> app_state" where
  "createSession c w a =
     (case wdUnderlay w of
        Some e \<Rightarrow> (Inl e, a)
      | None \<Rightarrow>
          (let n = apFresh a;
               a = opens (OwnUnderlay n) (on_session n (\<lambda>_. no_session) (a\<lparr>apFresh := Suc n\<rparr>))
           in case setup_client c w n a of
                (Some e, a) \<Rightarrow> (Inl e, a)
              | (None, a) \<Rightarrow>
                  (case negotiatedResult (wdView w) of
                     Inl e \<Rightarrow> (Inl e, close_session n a)
                   | Inr r \<Rightarrow>
                       (case setupPolicy c w n a of
                          (Some e, a) \<Rightarrow> (Inl (''setup mobile policy engine: '' @ e), close_session n a)
                        | (None, a) \<Rightarrow>
                            (Inr (n, (session_result c r)\<lparr>mrClientData :=
                               (if to_lower (mcProtocol c) = ''atrust'' then wdClientData w else [])\<rparr>), a)))))"


section \<open>The calls of the application\<close>

definition start_server :: "string option \<Rightarrow> nat \<Rightarrow> app_state \<Rightarrow> string option \<times> app_state" where
  "start_server err n a =
     (case err of
        Some e \<Rightarrow> (Some e, a)
      | None \<Rightarrow>
          (let k = apFresh a
           in (None, opens (OwnServer k)
                 (on_session n (\<lambda>s. s\<lparr>ssServers := ssServers s @ [k]\<rparr>) (a\<lparr>apFresh := Suc k\<rparr>)))))"

text \<open>\<open>startProxy\<close>; \<open>socksErr\<close> and \<open>httpErr\<close> are the errors of listening on the two addresses.\<close>

definition startProxy ::
  "mobile_config \<Rightarrow> string option \<Rightarrow> string option \<Rightarrow> nat \<Rightarrow> mobile_result \<Rightarrow> app_state
     \<Rightarrow> (string + mobile_result) \<times> app_state" where
  "startProxy c socksErr httpErr n r a =
     (let s = apSessions a n
      in if ssServers s \<noteq> [] then (Inl ''proxy frontend already started'', a)
         else if ssDialer s = None \<or> ssResolver s = None then (Inl ''policy engine is not ready'', a)
         else (case (if mcSocksBind c \<noteq> [] then start_server socksErr n a else (None, a)) of
             (Some e, a) \<Rightarrow> (Inl e, a)
           | (None, a) \<Rightarrow>
               (let r = (if mcSocksBind c \<noteq> [] then r\<lparr>mrSocksAddress := mcSocksBind c\<rparr> else r)
                in case (if mcHTTPBind c \<noteq> [] then start_server httpErr n a else (None, a)) of
                     (Some e, a) \<Rightarrow> (Inl e, a)
                   | (None, a) \<Rightarrow>
                       (Inr (if mcHTTPBind c \<noteq> [] then r\<lparr>mrHTTPAddress := mcHTTPBind c\<rparr> else r), a))))"

definition Stop :: "app_state \<Rightarrow> app_state" where
  "Stop a = (case apActive a of None \<Rightarrow> a | Some n \<Rightarrow> close_session n (a\<lparr>apActive := None\<rparr>))"

definition set_active :: "nat \<Rightarrow> app_state \<Rightarrow> app_state" where
  "set_active n a = a\<lparr>apActive := Some n\<rparr>"

definition replaceSession :: "nat \<Rightarrow> app_state \<Rightarrow> app_state" where
  "replaceSession n a = set_active n (Stop a)"

definition Prepare ::
  "(string \<Rightarrow> string + mobile_config) \<Rightarrow> string \<Rightarrow> world \<Rightarrow> app_state \<Rightarrow> mobile_result \<times> app_state" where
  "Prepare decode json w a =
     (case parseConfig decode json of
        Inl e \<Rightarrow> (failure ''invalid_config'' e, a)
      | Inr c \<Rightarrow>
          (case createSession c w a of
             (Inl e, a) \<Rightarrow> (failure ''login_failed'' e, a)
           | (Inr (n, r), a) \<Rightarrow> (r, replaceSession n a)))"

definition StartProxy ::
  "(string \<Rightarrow> string + mobile_config) \<Rightarrow> string \<Rightarrow> world \<Rightarrow> string option \<Rightarrow> string option \<Rightarrow> app_state
     \<Rightarrow> mobile_result \<times> app_state" where
  "StartProxy decode json w socksErr httpErr a =
     (case parseConfig decode json of
        Inl e \<Rightarrow> (failure ''invalid_config'' e, a)
      | Inr c \<Rightarrow>
          if mcSocksBind c = [] \<and> mcHTTPBind c = [] then
            (failure ''invalid_config'' ''at least one proxy listener is required'', a)
          else (case createSession c w a of
              (Inl e, a) \<Rightarrow> (failure ''login_failed'' e, a)
            | (Inr (n, r), a) \<Rightarrow>
                (case startProxy c socksErr httpErr n r a of
                   (Inl e, a) \<Rightarrow> (failure ''proxy_start_failed'' e, close_session n a)
                 | (Inr r, a) \<Rightarrow> (r, replaceSession n a))))"

definition StartProxyFrontend ::
  "(string \<Rightarrow> string + mobile_config) \<Rightarrow> string \<Rightarrow> string option \<Rightarrow> string option \<Rightarrow> app_state
     \<Rightarrow> mobile_result \<times> app_state" where
  "StartProxyFrontend decode json socksErr httpErr a =
     (case parseConfig decode json of
        Inl e \<Rightarrow> (failure ''invalid_config'' e, a)
      | Inr c \<Rightarrow>
          (case apActive a of
             None \<Rightarrow> (failure ''no_active_session'' ''no active session'', a)
           | Some n \<Rightarrow>
               (case startProxy c socksErr httpErr n ok_result a of
                  (Inl e, a) \<Rightarrow> (failure ''proxy_start_failed'' e, a)
                | (Inr r, a) \<Rightarrow> (r, a))))"

definition StopProxyFrontend :: "app_state \<Rightarrow> app_state" where
  "StopProxyFrontend a = (case apActive a of None \<Rightarrow> a | Some n \<Rightarrow> stopProxy n a)"

text \<open>\<open>StartStack\<close> until its stack runs (then there is no result yet), and from the end of \<open>Run\<close>.\<close>

definition StartStack :: "string option \<Rightarrow> app_state \<Rightarrow> mobile_result option \<times> app_state" where
  "StartStack newErr a =
     (case apActive a of
        None \<Rightarrow> (Some (failure ''no_active_session'' ''no active session''), a)
      | Some n \<Rightarrow>
          (let s = apSessions a n
           in if \<not> ssClient s then (Some (failure ''no_active_session'' ''no active session''), a)
              else if ssDialer s = None \<or> ssResolver s = None then
                (Some (failure ''policy_not_ready'' ''policy engine is not ready''), a)
              else (case newErr of
                  Some e \<Rightarrow> (Some (failure ''tun_start_failed'' e), a)
                | None \<Rightarrow>
                    (let t = apFresh a; a = opens (OwnTun t) (a\<lparr>apFresh := Suc t\<rparr>)
                     in if ssClosed s then
                          (Some (failure ''session_closed'' ''session closed while starting TUN''), closes (OwnTun t) a)
                        else (None, (on_session n (\<lambda>s. s\<lparr>ssTun := Some t\<rparr>) a)\<lparr>apRunning := (n, t) # apRunning a\<rparr>)))))"

definition stack_ends :: "nat \<Rightarrow> nat \<Rightarrow> string option \<Rightarrow> app_state \<Rightarrow> mobile_result option \<times> app_state" where
  "stack_ends n t err a =
     (if (n, t) \<in> set (apRunning a) then
        (let a = a\<lparr>apRunning := removeAll (n, t) (apRunning a)\<rparr>;
             a = (if ssTun (apSessions a n) = Some t then on_session n (\<lambda>s. s\<lparr>ssTun := None\<rparr>) a else a)
         in (Some (case err of Some e \<Rightarrow> failure ''tun_stopped'' e | None \<Rightarrow> ok_result), a))
      else (None, a))"

definition StopStack :: "app_state \<Rightarrow> app_state" where
  "StopStack a =
     (case apActive a of
        None \<Rightarrow> a
      | Some n \<Rightarrow>
          (case ssTun (apSessions a n) of
             None \<Rightarrow> a
           | Some t \<Rightarrow> closes (OwnTun t) (on_session n (\<lambda>s. s\<lparr>ssTun := None\<rparr>) a)))"

definition ClearFakeDNS :: "app_state \<Rightarrow> mobile_result \<times> app_state" where
  "ClearFakeDNS a =
     (case apActive a of
        None \<Rightarrow> (failure ''no_active_session'' ''no active FakeDNS pool'', a)
      | Some n \<Rightarrow>
          (case ssResolver (apSessions a n) of
             None \<Rightarrow> (failure ''no_active_session'' ''no active FakeDNS pool'', a)
           | Some r \<Rightarrow> (ok_result, on_session n (\<lambda>s. s\<lparr>ssResolver := Some (r\<lparr>rPool := Clear (rPool r)\<rparr>)\<rparr>) a)))"

text \<open>The configuration \<open>Login\<close> prepares; \<open>scan\<close> reads the port.\<close>

definition login_config :: "(string \<Rightarrow> int option) \<Rightarrow> mobile_config \<Rightarrow> string \<Rightarrow> string \<Rightarrow> string \<Rightarrow> mobile_config" where
  "login_config scan zero server username password =
     (let (host, port) =
        (case split_host_port server of
           None \<Rightarrow> (server, 443)
         | Some (h, p) \<Rightarrow> (h, case scan p of Some n \<Rightarrow> n | None \<Rightarrow> 443))
      in zero\<lparr>mcProtocol := ''easyconnect'', mcServer := host, mcPort := port, mcUsername := username,
          mcPassword := password\<rparr>)"

datatype api_call =
    CallPrepare string world
  | CallStartProxy string world "string option" "string option"
  | CallStartProxyFrontend string "string option" "string option"
  | CallStopProxyFrontend
  | CallStartStack "string option"
  | StackEnds nat nat "string option"
  | CallStopStack
  | CallStop
  | CallClearFakeDNS
  | CallSetDNS "(string \<Rightarrow> string list option) option"
  | CallSetSession bool

fun api_step :: "(string \<Rightarrow> string + mobile_config) \<Rightarrow> api_call \<Rightarrow> app_state \<Rightarrow> app_state" where
  "api_step decode (CallPrepare json w) a = snd (Prepare decode json w a)"
| "api_step decode (CallStartProxy json w e1 e2) a = snd (StartProxy decode json w e1 e2 a)"
| "api_step decode (CallStartProxyFrontend json e1 e2) a = snd (StartProxyFrontend decode json e1 e2 a)"
| "api_step decode CallStopProxyFrontend a = StopProxyFrontend a"
| "api_step decode (CallStartStack e) a = snd (StartStack e a)"
| "api_step decode (StackEnds n t e) a = snd (stack_ends n t e a)"
| "api_step decode CallStopStack a = StopStack a"
| "api_step decode CallStop a = Stop a"
| "api_step decode CallClearFakeDNS a = snd (ClearFakeDNS a)"
| "api_step decode (CallSetDNS f) a = a\<lparr>apDNS := f\<rparr>"
| "api_step decode (CallSetSession b) a = a\<lparr>apNotify := b\<rparr>"

definition run_api :: "(string \<Rightarrow> string + mobile_config) \<Rightarrow> api_call list \<Rightarrow> app_state \<Rightarrow> app_state" where
  "run_api decode cs a = foldl (\<lambda>a call. api_step decode call a) a cs"


section \<open>Other calls\<close>

text \<open>\<open>FetchAuthMethodsWithScheme\<close>; \<open>fetch\<close> asks the server.\<close>

definition FetchAuthMethodsWithScheme ::
  "(string \<Rightarrow> int \<Rightarrow> string \<Rightarrow> string + AuthInfo list) \<Rightarrow> string \<Rightarrow> int \<Rightarrow> string \<Rightarrow> mobile_result \<times> AuthInfo list" where
  "FetchAuthMethodsWithScheme fetch server port scheme =
     (if trim_space server = [] then (failure ''invalid_config'' ''server is required'', [])
      else (let port = (if port = 0 then 443 else port); scheme = server_scheme scheme
        in if scheme \<noteq> ''https'' \<and> scheme \<noteq> ''http'' then (failure ''invalid_config'' ''unsupported server scheme'', [])
           else (case fetch server port scheme of
               Inl e \<Rightarrow> (failure ''auth_discovery_failed'' e, [])
             | Inr methods \<Rightarrow> (ok_result, methods))))"

text \<open>A challenge for the host application: the callback blocks for the user's answer, an empty one cancels.\<close>

definition callback_request ::
  "(string \<Rightarrow> 'p \<Rightarrow> string + string) \<Rightarrow> (string \<Rightarrow> string + 'r) \<Rightarrow> (string \<Rightarrow> string) \<Rightarrow> string \<Rightarrow> 'p \<Rightarrow> string + 'r" where
  "callback_request encode decode onChallenge kind payload =
     (case encode kind payload of
        Inl e \<Rightarrow> Inl e
      | Inr request \<Rightarrow>
          (let value = onChallenge request
           in if value = [] then Inl ''authentication challenge cancelled'' else decode value))"

text \<open>\<open>ResourceSnapshot\<close>: the view of the active session's policy, the domains in the order of their names.\<close>

record snapshot =
  snVirtualIP :: string
  snDNSServers :: "string list"
  snIPResources :: "(string \<times> string \<times> IPResource) list"
  snDomainResources :: "(string \<times> DomainResource) list"
  snDNSResources :: "(string, string list) gomap"

definition domain_rows :: "(string, DomainResource list) gomap \<Rightarrow> (string \<times> DomainResource) list" where
  "domain_rows m =
     concat (map (\<lambda>d. map (\<lambda>r. (d, r)) (case mget m d of Some rs \<Rightarrow> rs | None \<Rightarrow> [])) (sort (map fst m)))"

definition resource_snapshot :: "client_view \<Rightarrow> snapshot" where
  "resource_snapshot v =
     \<lparr>snVirtualIP = (case vwIP v of Inr x \<Rightarrow> ip_string x | Inl _ \<Rightarrow> []),
      snDNSServers = vwDNSServers v,
      snIPResources = (case vwIPResources v of Some rs \<Rightarrow> map (\<lambda>r. (ip_string (IPMin r), ip_string (IPMax r), r)) rs | None \<Rightarrow> []),
      snDomainResources = (case vwDomains v of (False, Some m) \<Rightarrow> domain_rows m | _ \<Rightarrow> []),
      snDNSResources = (case vwDNSResource v of
          Some m \<Rightarrow> map (\<lambda>(d, ips). (d, map ip_string ips)) (filter (\<lambda>(d, ips). ips \<noteq> []) m)
        | None \<Rightarrow> [])\<rparr>"

definition ResourceSnapshot ::
  "(snapshot \<Rightarrow> string + string) \<Rightarrow> (nat \<Rightarrow> client_view) \<Rightarrow> app_state \<Rightarrow> mobile_result + string" where
  "ResourceSnapshot encode view a =
     (case apActive a of
        None \<Rightarrow> Inl (failure ''no_active_session'' ''no active session'')
      | Some n \<Rightarrow>
          if \<not> ssClient (apSessions a n) then Inl (failure ''no_active_session'' ''no active session'')
          else (case encode (resource_snapshot (view n)) of
              Inl e \<Rightarrow> Inl (failure ''snapshot_failed'' e)
            | Inr s \<Rightarrow> Inr s))"

definition FakeDNSSnapshot ::
  "((string, string) gomap \<Rightarrow> string + string) \<Rightarrow> app_state \<Rightarrow> mobile_result + string" where
  "FakeDNSSnapshot encode a =
     (case apActive a of
        None \<Rightarrow> Inl (failure ''no_active_session'' ''no active FakeDNS pool'')
      | Some n \<Rightarrow>
          (case ssResolver (apSessions a n) of
             None \<Rightarrow> Inl (failure ''no_active_session'' ''no active FakeDNS pool'')
           | Some r \<Rightarrow>
               (case encode (Snapshot (rPool r)) of
                  Inl e \<Rightarrow> Inl (failure ''snapshot_failed'' e)
                | Inr s \<Rightarrow> Inr s)))"

text \<open>The rows of the snapshot are the rules of the policy, and do not depend on the order of the map.\<close>

lemma domain_rows_set:
  assumes "map_ok m"
  shows "(d, r) \<in> set (domain_rows m) \<longleftrightarrow> (\<exists>rs. (d, rs) \<in> set m \<and> r \<in> set rs)"
  using map_ok_in_iff [OF assms] by (force simp: domain_rows_def mkeys_def split: option.splits)

end
