(* ===== verification/MobileLifecycle.thy ===== *)
theory MobileLifecycle
  imports MobileSession
begin

text \<open>
  The life of a session of the Android binding: the invariant that every call of the application keeps, and what
  follows from it for what is open and what is closed; and that the domains the user lists go through the VPN.
\<close>

section \<open>What is open belongs to the active session\<close>

fun owned_id :: "owned \<Rightarrow> nat" where
  "owned_id (OwnKeepAlive n) = n"
| "owned_id (OwnServer n) = n"
| "owned_id (OwnTun n) = n"
| "owned_id (OwnResolver n) = n"
| "owned_id (OwnStack n) = n"
| "owned_id (OwnClient n) = n"
| "owned_id (OwnUnderlay n) = n"

fun is_tun :: "owned \<Rightarrow> bool" where
  "is_tun (OwnTun _) = True"
| "is_tun _ = False"

named_theorems app_simps \<open>what the primitive operations on sessions do\<close>

lemma opens_sel [app_simps]:
  "apSessions (opens r a) = apSessions a" "apFresh (opens r a) = apFresh a" "apActive (opens r a) = apActive a"
  "apOpen (opens r a) = r # apOpen a" "apLog (opens r a) = apLog a" "apDNS (opens r a) = apDNS a"
  "apRunning (opens r a) = apRunning a"
  by (simp_all add: opens_def)

lemma closes_sel [app_simps]:
  "apSessions (closes r a) = apSessions a" "apFresh (closes r a) = apFresh a" "apActive (closes r a) = apActive a"
  "apOpen (closes r a) = removeAll r (apOpen a)" "apLog (closes r a) = apLog a @ [r]" "apDNS (closes r a) = apDNS a"
  "apRunning (closes r a) = apRunning a"
  by (simp_all add: closes_def)

lemma on_session_sel [app_simps]:
  "apSessions (on_session n f a) = (apSessions a)(n := f (apSessions a n))" "apFresh (on_session n f a) = apFresh a"
  "apActive (on_session n f a) = apActive a" "apOpen (on_session n f a) = apOpen a" "apLog (on_session n f a) = apLog a"
  "apDNS (on_session n f a) = apDNS a" "apRunning (on_session n f a) = apRunning a"
  by (simp_all add: on_session_def)

lemma fold_closes_sel [app_simps]:
  "apSessions (fold closes rs a) = apSessions a" "apFresh (fold closes rs a) = apFresh a"
  "apActive (fold closes rs a) = apActive a" "apLog (fold closes rs a) = apLog a @ rs"
  "apOpen (fold closes rs a) = filter (\<lambda>r. r \<notin> set rs) (apOpen a)"
  by (induction rs arbitrary: a) (auto simp: app_simps removeAll_filter_not_eq intro!: filter_cong)

text \<open>The numbers in use; what is open, apart from TUN stacks, is what the active session owns, and the active
  session is not closed; nothing closed is open or closed twice.\<close>

definition app_inv :: "app_state \<Rightarrow> bool" where
  [inv_defs]: "app_inv a \<longleftrightarrow>
     (\<forall>r \<in> set (apOpen a) \<union> set (apLog a). owned_id r < apFresh a)
     \<and> (case apActive a of
          None \<Rightarrow> \<forall>r \<in> set (apOpen a). is_tun r
        | Some n \<Rightarrow> \<not> ssClosed (apSessions a n) \<and> n < apFresh a
            \<and> (\<forall>r \<in> set (apOpen a). \<not> is_tun r \<longrightarrow> r \<in> set (owns n (apSessions a n)))
            \<and> (\<forall>r \<in> set (owns n (apSessions a n)). r \<in> set (apOpen a)) \<and> distinct (owns n (apSessions a n)))
     \<and> distinct (apLog a) \<and> set (apLog a) \<inter> set (apOpen a) = {}"

lemma app_invD:
  assumes "app_inv a"
  shows "r \<in> set (apOpen a) \<or> r \<in> set (apLog a) \<Longrightarrow> owned_id r < apFresh a"
    "apActive a = None \<Longrightarrow> r \<in> set (apOpen a) \<Longrightarrow> is_tun r"
    "apActive a = Some n \<Longrightarrow> \<not> ssClosed (apSessions a n) \<and> n < apFresh a"
    "apActive a = Some n \<Longrightarrow> r \<in> set (apOpen a) \<Longrightarrow> \<not> is_tun r \<Longrightarrow> r \<in> set (owns n (apSessions a n))"
    "apActive a = Some n \<Longrightarrow> r \<in> set (owns n (apSessions a n)) \<Longrightarrow> r \<in> set (apOpen a)"
    "apActive a = Some n \<Longrightarrow> distinct (owns n (apSessions a n))"
    "distinct (apLog a)" "r \<in> set (apLog a) \<Longrightarrow> r \<notin> set (apOpen a)"
proof -
  note i = assms [unfolded app_inv_def]
  show "r \<in> set (apOpen a) \<or> r \<in> set (apLog a) \<Longrightarrow> owned_id r < apFresh a" using i by blast
  show "apActive a = None \<Longrightarrow> r \<in> set (apOpen a) \<Longrightarrow> is_tun r" using i by simp
  show "apActive a = Some n \<Longrightarrow> \<not> ssClosed (apSessions a n) \<and> n < apFresh a" using i by simp
  show "apActive a = Some n \<Longrightarrow> r \<in> set (apOpen a) \<Longrightarrow> \<not> is_tun r \<Longrightarrow> r \<in> set (owns n (apSessions a n))" using i by simp
  show "apActive a = Some n \<Longrightarrow> r \<in> set (owns n (apSessions a n)) \<Longrightarrow> r \<in> set (apOpen a)" using i by simp
  show "apActive a = Some n \<Longrightarrow> distinct (owns n (apSessions a n))" using i by simp
  show "distinct (apLog a)" "r \<in> set (apLog a) \<Longrightarrow> r \<notin> set (apOpen a)" using i by blast+
qed

lemma app_invI:
  assumes "\<And>r. r \<in> set (apOpen a) \<or> r \<in> set (apLog a) \<Longrightarrow> owned_id r < apFresh a"
    "\<And>r. apActive a = None \<Longrightarrow> r \<in> set (apOpen a) \<Longrightarrow> is_tun r"
    "\<And>n. apActive a = Some n \<Longrightarrow> \<not> ssClosed (apSessions a n) \<and> n < apFresh a \<and> distinct (owns n (apSessions a n))"
    "\<And>n r. apActive a = Some n \<Longrightarrow> r \<in> set (apOpen a) \<Longrightarrow> \<not> is_tun r \<Longrightarrow> r \<in> set (owns n (apSessions a n))"
    "\<And>n r. apActive a = Some n \<Longrightarrow> r \<in> set (owns n (apSessions a n)) \<Longrightarrow> r \<in> set (apOpen a)"
    "distinct (apLog a)" "\<And>r. r \<in> set (apLog a) \<Longrightarrow> r \<notin> set (apOpen a)"
  shows "app_inv a"
proof (cases "apActive a")
  case None
  then show ?thesis using assms(1,2,6,7) unfolding app_inv_def by (auto simp: disjoint_iff)
next
  case (Some n)
  then show ?thesis using assms(1,3-7) unfolding app_inv_def by (auto simp: disjoint_iff)
qed

lemma close_session_sel:
  assumes "\<not> ssClosed (apSessions a n)"
  shows "apFresh (close_session n a) = apFresh a" "apActive (close_session n a) = apActive a"
    "apOpen (close_session n a) = filter (\<lambda>r. r \<notin> set (owns n (apSessions a n))) (apOpen a)"
    "apLog (close_session n a) = apLog a @ owns n (apSessions a n)"
    "m \<noteq> n \<Longrightarrow> apSessions (close_session n a) m = apSessions a m"
    "ssClosed (apSessions (close_session n a) n)"
  using assms by (simp_all add: close_session_def app_simps Let_def)

lemma Stop_inv:
  assumes "app_inv a"
  shows "app_inv (Stop a) \<and> apActive (Stop a) = None"
proof (cases "apActive a")
  case None
  then show ?thesis using assms by (simp add: Stop_def)
next
  case (Some n)
  let ?a = "a\<lparr>apActive := None\<rparr>"
  have nc: "\<not> ssClosed (apSessions ?a n)" using app_invD(3) [OF assms Some] by simp
  note sel = close_session_sel [OF nc, simplified]
  have "app_inv (close_session n ?a)"
  proof (rule app_invI, goal_cases)
    case (1 r)
    then show ?case using app_invD(1) [OF assms] app_invD(5) [OF assms Some] by (auto simp: sel)
  next
    case (2 r)
    then show ?case using app_invD(4) [OF assms Some] by (auto simp: sel)
  next
    case 6
    then show ?case
      using app_invD(7) [OF assms] app_invD(6) [OF assms Some] app_invD(5) [OF assms Some] app_invD(8) [OF assms]
      by (auto simp: sel)
  next
    case (7 r)
    then show ?case using app_invD(8) [OF assms] by (auto simp: sel)
  qed (simp_all add: sel)
  then show ?thesis using Some by (simp add: Stop_def sel)
qed

text \<open>What one session owns has the numbers of the session, its listeners and its TUN stack.\<close>

lemma owns_base [simp]:
  "owns n no_session = [OwnUnderlay n]"
  by (simp add: owns_def no_session_def)

text \<open>The creation of a session: on failure everything it opened is closed again, on success the new session owns
  exactly what was opened. A session that is \<open>equipped\<close> may have listeners too.\<close>

definition equipped :: "app_state \<Rightarrow> nat \<Rightarrow> app_state \<Rightarrow> bool" where
  "equipped a n b \<longleftrightarrow>
     apFresh a \<le> n \<and> n < apFresh b \<and> apActive b = apActive a \<and> apLog b = apLog a
     \<and> (\<forall>m. m \<noteq> n \<longrightarrow> apSessions b m = apSessions a m) \<and> \<not> ssClosed (apSessions b n)
     \<and> distinct (owns n (apSessions b n))
     \<and> (\<forall>r \<in> set (owns n (apSessions b n)). apFresh a \<le> owned_id r \<and> owned_id r < apFresh b \<and> \<not> is_tun r)
     \<and> (\<exists>rs. apOpen b = rs @ apOpen a \<and> set rs = set (owns n (apSessions b n)))"

definition created :: "app_state \<Rightarrow> nat \<Rightarrow> app_state \<Rightarrow> bool" where
  "created a n b \<longleftrightarrow>
     apFresh b = Suc (apFresh a) \<and> n = apFresh a \<and> apActive b = apActive a \<and> apLog b = apLog a
     \<and> (\<forall>m. m \<noteq> n \<longrightarrow> apSessions b m = apSessions a m) \<and> \<not> ssClosed (apSessions b n) \<and> ssServers (apSessions b n) = []
     \<and> ssTun (apSessions b n) = None
     \<and> (\<exists>rs. apOpen b = rs @ apOpen a \<and> set rs = set (owns n (apSessions b n)))"

definition undone :: "app_state \<Rightarrow> app_state \<Rightarrow> bool" where
  "undone a b \<longleftrightarrow>
     apFresh a \<le> apFresh b \<and> apActive b = apActive a \<and> apOpen b = apOpen a
     \<and> (\<forall>m < apFresh a. apSessions b m = apSessions a m)
     \<and> (\<exists>rs. apLog b = apLog a @ rs \<and> distinct rs \<and> (\<forall>r \<in> set rs. apFresh a \<le> owned_id r \<and> owned_id r < apFresh b))"

lemma owns_ids:
  assumes "ssServers s = []" "ssTun s = None"
  shows "r \<in> set (owns n s) \<Longrightarrow> owned_id r = n" "r \<in> set (owns n s) \<Longrightarrow> \<not> is_tun r" "distinct (owns n s)"
  using assms by (auto simp: owns_def)

lemma filter_out_new:
  assumes "\<And>r. r \<in> set xs \<Longrightarrow> owned_id r < n" "\<And>r. r \<in> set ys \<Longrightarrow> n \<le> owned_id r" "set rs \<subseteq> set ys"
  shows "filter (\<lambda>r. r \<notin> set ys) (rs @ xs) = xs"
proof -
  have "filter (\<lambda>r. r \<notin> set ys) rs = []" using assms(3) by (auto simp: filter_empty_conv)
  moreover have "filter (\<lambda>r. r \<notin> set ys) xs = xs" using assms(1,2) by (intro filter_True) force
  ultimately show ?thesis by simp
qed

lemma created_equipped:
  assumes "created a n b"
  shows "equipped a n b"
proof -
  have "ssServers (apSessions b n) = []" "ssTun (apSessions b n) = None" using assms by (auto simp: created_def)
  from owns_ids [OF this] show ?thesis using assms unfolding created_def equipped_def by auto
qed

lemma equippedE:
  assumes "equipped a n b"
  obtains rs where "apOpen b = rs @ apOpen a" "set rs = set (owns n (apSessions b n))"
    "apFresh a \<le> n" "n < apFresh b" "apActive b = apActive a" "apLog b = apLog a"
    "\<And>m. m \<noteq> n \<Longrightarrow> apSessions b m = apSessions a m" "\<not> ssClosed (apSessions b n)" "distinct (owns n (apSessions b n))"
    "\<And>r. r \<in> set (owns n (apSessions b n)) \<Longrightarrow> apFresh a \<le> owned_id r \<and> owned_id r < apFresh b \<and> \<not> is_tun r"
  using assms unfolding equipped_def by blast

lemma close_equipped:
  assumes "equipped a n b" "app_inv a"
  shows "undone a (close_session n b)"
proof -
  obtain rs where e: "apOpen b = rs @ apOpen a" "set rs = set (owns n (apSessions b n))"
    "apFresh a \<le> n" "n < apFresh b" "apActive b = apActive a" "apLog b = apLog a"
    "\<And>m. m \<noteq> n \<Longrightarrow> apSessions b m = apSessions a m" "\<not> ssClosed (apSessions b n)" "distinct (owns n (apSessions b n))"
    "\<And>r. r \<in> set (owns n (apSessions b n)) \<Longrightarrow> apFresh a \<le> owned_id r \<and> owned_id r < apFresh b \<and> \<not> is_tun r"
    using equippedE [OF assms(1)] by metis
  note sel = close_session_sel [OF e(8)]
  have "apOpen (close_session n b) = apOpen a"
    unfolding sel e(1)
    by (rule filter_out_new [where n = "apFresh a"]) (use app_invD(1) [OF assms(2)] e(2,10) in auto)
  moreover have "\<forall>m < apFresh a. apSessions (close_session n b) m = apSessions a m"
    using sel(5) e(3,7) by auto
  ultimately show ?thesis
    unfolding undone_def using e sel by (auto intro!: exI [of _ "owns n (apSessions b n)"])
qed

lemmas close_created = close_equipped [OF created_equipped]

lemma created_start:
  "created a (apFresh a) (opens (OwnUnderlay (apFresh a)) (on_session (apFresh a) (\<lambda>_. no_session) (a\<lparr>apFresh := Suc (apFresh a)\<rparr>)))"
  by (auto simp: created_def app_simps owns_def no_session_def intro!: exI [of _ "[OwnUnderlay (apFresh a)]"])

lemma created_add:
  assumes "created a n b" "\<And>s. ssServers (f s) = ssServers s" "\<And>s. ssTun (f s) = ssTun s"
    "\<And>s. ssClosed (f s) = ssClosed s" "\<And>s. set (owns n (f s)) = insert r (set (owns n s))"
  shows "created a n (opens r (on_session n f b))"
  using assms unfolding created_def by (fastforce simp: app_simps intro: exI [of _ "r # _"])

lemma created_keep:
  assumes "created a n b" "\<And>s. ssServers (f s) = ssServers s" "\<And>s. ssTun (f s) = ssTun s"
    "\<And>s. ssClosed (f s) = ssClosed s" "\<And>s. set (owns n (f s)) = set (owns n s)"
  shows "created a n (on_session n f b)"
  using assms unfolding created_def by (fastforce simp: app_simps)

lemma undone_closed:
  assumes "app_inv a" "apOpen b = rs @ apOpen a" "set rs = set ls" "apLog b = apLog a" "apFresh b = Suc (apFresh a)"
    "apActive b = apActive a" "\<And>m. m < apFresh a \<Longrightarrow> apSessions b m = apSessions a m"
    "distinct ls" "\<And>r. r \<in> set ls \<Longrightarrow> owned_id r = apFresh a"
  shows "undone a (fold closes ls b)"
proof -
  have "filter (\<lambda>r. r \<notin> set ls) (rs @ apOpen a) = apOpen a"
    by (rule filter_out_new [where n = "apFresh a"]) (use app_invD(1) [OF assms(1)] assms(3,9) in auto)
  then show ?thesis
    unfolding undone_def using assms by (auto simp: app_simps intro!: exI [of _ ls])
qed

lemma setup_client_outcome:
  assumes "app_inv a"
  defines "n \<equiv> apFresh a"
  defines "b \<equiv> opens (OwnUnderlay n) (on_session n (\<lambda>_. no_session) (a\<lparr>apFresh := Suc n\<rparr>))"
  shows "case setup_client c w n b of (Some e, b') \<Rightarrow> undone a b' | (None, b') \<Rightarrow> created a n b'"
proof -
  have sel: "apOpen b = OwnUnderlay n # apOpen a" "apLog b = apLog a" "apFresh b = Suc n" "apActive b = apActive a"
    "\<And>m. m < apFresh a \<Longrightarrow> apSessions b m = apSessions a m"
    by (simp_all add: b_def n_def app_simps)
  have u1: "undone a (closes (OwnUnderlay n) b)"
    using undone_closed [OF assms(1), of b "[OwnUnderlay n]" "[OwnUnderlay n]"] sel by (simp add: n_def)
  have two: "r \<in> set [OwnClient n, OwnUnderlay n] \<Longrightarrow> owned_id r = apFresh a" for r by (auto simp: n_def)
  have u2: "undone a (closes (OwnUnderlay n) (closes (OwnClient n) (opens (OwnClient n) b)))"
    using undone_closed [OF assms(1), of "opens (OwnClient n) b" "[OwnClient n, OwnUnderlay n]" "[OwnClient n, OwnUnderlay n]",
        OF _ refl _ _ _ _ _ two] sel by (simp add: n_def app_simps)
  have u3: "undone a (closes (OwnUnderlay n) (closes (OwnClient n) ((opens (OwnClient n) b)\<lparr>apExpired := x\<rparr>)))" for x
    using undone_closed [OF assms(1), of "(opens (OwnClient n) b)\<lparr>apExpired := x\<rparr>" "[OwnClient n, OwnUnderlay n]" "[OwnClient n, OwnUnderlay n]",
        OF _ refl _ _ _ _ _ two] sel by (simp add: n_def app_simps)
  have c: "created a n (opens (OwnClient n) (on_session n (\<lambda>s. s\<lparr>ssClient := True\<rparr>) b))"
    unfolding b_def n_def by (rule created_add [OF created_start]) (auto simp: owns_def)
  have sw: "opens (OwnClient n) (on_session n f x) = on_session n f (opens (OwnClient n) x)" for f x
    by (simp add: opens_def on_session_def)
  show ?thesis
    using u1 u2 u3 c unfolding setup_client_def sw
    by (auto simp: Let_def split: option.splits)
qed

lemma setupPolicy_outcome:
  assumes "created a n b"
  shows "created a n (snd (setupPolicy c w n b))"
proof -
  have k: "created a n (on_session n (\<lambda>s. s\<lparr>ssDialer := d\<rparr>) x)" if "created a n x" for x d
    by (rule created_keep [OF that]) (auto simp: owns_def)
  have r: "created a n (opens (OwnResolver n) (on_session n (\<lambda>s. s\<lparr>ssResolver := Some q\<rparr>) x))" if "created a n x" for x q
    by (rule created_add [OF that]) (auto simp: owns_def)
  have g: "created a n (opens (OwnStack n) (on_session n (\<lambda>s. s\<lparr>ssGvisor := True\<rparr>) x))" if "created a n x" for x
    by (rule created_add [OF that]) (auto simp: owns_def)
  have l: "created a n (opens (OwnKeepAlive n) (on_session n (\<lambda>s. s\<lparr>ssKeepAlive := True\<rparr>) x))" if "created a n x" for x
    by (rule created_add [OF that]) (auto simp: owns_def)
  show ?thesis
    using assms by (simp add: setupPolicy_def Let_def k r g l)
qed

lemma createSession_outcome:
  assumes "app_inv a"
  shows "case createSession c w a of (Inl e, b) \<Rightarrow> undone a b | (Inr (n, r), b) \<Rightarrow> created a n b"
proof (cases "wdUnderlay w")
  case (Some e)
  then show ?thesis by (simp add: createSession_def undone_def)
next
  case None
  let ?n = "apFresh a"
  let ?b = "opens (OwnUnderlay ?n) (on_session ?n (\<lambda>_. no_session) (a\<lparr>apFresh := Suc ?n\<rparr>))"
  show ?thesis
  proof (cases "setup_client c w ?n ?b")
    case (Pair res b)
    show ?thesis
    proof (cases res)
      case (Some e)
      then show ?thesis
        using setup_client_outcome [OF assms, of c w] Pair None by (simp add: createSession_def Let_def)
    next
      case res: None
      have b: "created a ?n b" using setup_client_outcome [OF assms, of c w] Pair res by simp
      have p: "created a ?n (snd (setupPolicy c w ?n b))" by (rule setupPolicy_outcome [OF b])
      have cs: "createSession c w a = (case negotiatedResult (wdView w) of
                     Inl e \<Rightarrow> (Inl e, close_session ?n b)
                   | Inr r \<Rightarrow>
                       (case setupPolicy c w ?n b of
                          (Some e, a) \<Rightarrow> (Inl (''setup mobile policy engine: '' @ e), close_session ?n a)
                        | (None, a) \<Rightarrow>
                            (Inr (?n, (session_result c r)\<lparr>mrClientData :=
                               (if to_lower (mcProtocol c) = ''atrust'' then wdClientData w else [])\<rparr>), a)))"
        using Pair res None by (simp add: createSession_def Let_def)
      obtain pr pb where pp: "setupPolicy c w ?n b = (pr, pb)" by (cases "setupPolicy c w ?n b")
      show ?thesis
        unfolding cs pp using close_created [OF b assms] close_created [OF p assms] p pp
        by (auto split: sum.splits option.splits)
    qed
  qed
qed

lemma undone_inv:
  assumes "undone a b" "app_inv a"
  shows "app_inv b"
proof -
  obtain rs where u: "apFresh a \<le> apFresh b" "apActive b = apActive a" "apOpen b = apOpen a"
    "\<And>m. m < apFresh a \<Longrightarrow> apSessions b m = apSessions a m" "apLog b = apLog a @ rs" "distinct rs"
    "\<And>r. r \<in> set rs \<Longrightarrow> apFresh a \<le> owned_id r \<and> owned_id r < apFresh b"
    using assms(1) unfolding undone_def by blast
  note i = app_invD [OF assms(2)]
  have act: "apSessions b n = apSessions a n" if "apActive a = Some n" for n
    using u(4) i(3) [OF that] by simp
  show ?thesis
  proof (rule app_invI, goal_cases)
    case (1 r)
    then show ?case using i(1) [of r] u(1,3,5,7) by force
  next
    case (2 r)
    then show ?case using i(2) [of r] u(2,3) by simp
  next
    case (3 n)
    then show ?case using i(3,6) [of n] act [of n] u(1,2) by simp
  next
    case (4 n r)
    then show ?case using i(4) [of n r] act [of n] u(2,3) by simp
  next
    case (5 n r)
    then show ?case using i(5) [of n r] act [of n] u(2,3) by simp
  next
    case 6
    have "set (apLog a) \<inter> set rs = {}" using i(1) u(7) by force
    then show ?case using i(7) u(5,6) by simp
  next
    case (7 r)
    then show ?case using i(1,8) [of r] u(3,5,7) by force
  qed
qed

text \<open>Stopping the old session leaves the new one as it is.\<close>

lemma Stop_equipped:
  assumes "equipped a n b" "app_inv a"
  shows "equipped (Stop a) n (Stop b)"
proof (cases "apActive a")
  case None
  then show ?thesis using assms(1) by (simp add: Stop_def equipped_def)
next
  case (Some m)
  obtain rs where e: "apOpen b = rs @ apOpen a" "set rs = set (owns n (apSessions b n))"
    "apFresh a \<le> n" "n < apFresh b" "apActive b = apActive a" "apLog b = apLog a"
    "\<And>m. m \<noteq> n \<Longrightarrow> apSessions b m = apSessions a m" "\<not> ssClosed (apSessions b n)" "distinct (owns n (apSessions b n))"
    "\<And>r. r \<in> set (owns n (apSessions b n)) \<Longrightarrow> apFresh a \<le> owned_id r \<and> owned_id r < apFresh b \<and> \<not> is_tun r"
    using equippedE [OF assms(1)] by metis
  note i = app_invD [OF assms(2)]
  have mn: "m \<noteq> n" "\<not> ssClosed (apSessions a m)" using i(3) [OF Some] e(3) by auto
  have sm: "apSessions b m = apSessions a m" by (rule e(7) [OF mn(1)])
  let ?A = "a\<lparr>apActive := None\<rparr>" and ?B = "b\<lparr>apActive := None\<rparr>"
  have cA: "\<not> ssClosed (apSessions ?A m)" and cB: "\<not> ssClosed (apSessions ?B m)" using mn sm by simp_all
  note A = close_session_sel [OF cA, simplified] and B = close_session_sel [OF cB, simplified]
  have st: "Stop a = close_session m ?A" "Stop b = close_session m ?B" using Some e(5) by (simp_all add: Stop_def)
  have "filter (\<lambda>r. r \<notin> set (owns m (apSessions a m))) rs = rs"
  proof (rule filter_True, rule ballI)
    fix r assume "r \<in> set rs"
    then have "apFresh a \<le> owned_id r" using e(2,10) by blast
    then show "r \<notin> set (owns m (apSessions a m))" using i(5) [OF Some, of r] i(1) [of r] by auto
  qed
  then have op: "apOpen (Stop b) = rs @ apOpen (Stop a)"
    by (simp add: st A B e(1) sm)
  have se: "apSessions (Stop b) k = (if k = n then apSessions b n else apSessions (Stop a) k)" for k
  proof (cases "k = m")
    case True
    then show ?thesis using mn sm by (simp add: st close_session_def Let_def app_simps)
  next
    case False
    then show ?thesis using e(7) by (simp add: st A(5) B(5))
  qed
  have rest: "apFresh (Stop a) = apFresh a" "apFresh (Stop b) = apFresh b" "apActive (Stop b) = apActive (Stop a)"
    "apLog (Stop b) = apLog (Stop a)"
    by (simp_all add: st A B sm e(6))
  show ?thesis
    unfolding equipped_def rest op using e(2-4,8-10) by (auto simp: se)
qed

lemma equipped_active_inv:
  assumes "equipped a n b" "app_inv a" "apActive a = None"
  shows "app_inv (set_active n b)"
proof -
  obtain rs where e: "apOpen b = rs @ apOpen a" "set rs = set (owns n (apSessions b n))"
    "apFresh a \<le> n" "n < apFresh b" "apActive b = apActive a" "apLog b = apLog a"
    "\<And>m. m \<noteq> n \<Longrightarrow> apSessions b m = apSessions a m" "\<not> ssClosed (apSessions b n)" "distinct (owns n (apSessions b n))"
    "\<And>r. r \<in> set (owns n (apSessions b n)) \<Longrightarrow> apFresh a \<le> owned_id r \<and> owned_id r < apFresh b \<and> \<not> is_tun r"
    using equippedE [OF assms(1)] by metis
  note i = app_invD [OF assms(2)]
  show ?thesis
  proof (rule app_invI, goal_cases)
    case (1 r)
    then show ?case using i(1) [of r] e(1-4,6) e(10) [of r] by (auto simp: set_active_def)
  next
    case (3 m)
    then show ?case using e(4,8,9) by (simp add: set_active_def)
  next
    case (4 m r)
    then show ?case using i(2) [OF assms(3), of r] e(1,2) by (auto simp: set_active_def)
  next
    case (5 m r)
    then show ?case using e(1,2) by (auto simp: set_active_def)
  next
    case (7 r)
    then show ?case using i(1,8) [of r] e(1,2,6) e(10) [of r] by (auto simp: set_active_def)
  qed (use e(6) i(7) in \<open>simp_all add: set_active_def\<close>)
qed

lemma replace_inv:
  assumes "equipped a n b" "app_inv a"
  shows "app_inv (replaceSession n b)"
  unfolding replaceSession_def
  using equipped_active_inv [OF Stop_equipped [OF assms]] Stop_inv [OF assms(2)] by simp


section \<open>Every call keeps the invariant\<close>

lemma owns_server:
  "set (owns n (s\<lparr>ssServers := ssServers s @ [k]\<rparr>)) = insert (OwnServer k) (set (owns n s))"
  "distinct (owns n (s\<lparr>ssServers := ssServers s @ [k]\<rparr>)) \<longleftrightarrow> distinct (owns n s) \<and> OwnServer k \<notin> set (owns n s)"
  by (auto simp: owns_def distinct_map split: option.split)

lemma start_server_equipped:
  assumes "equipped a n b" "apFresh a \<le> apFresh b"
  shows "equipped a n (snd (start_server err n b)) \<and> apFresh a \<le> apFresh (snd (start_server err n b))"
proof (cases err)
  case (Some e)
  then show ?thesis using assms by (simp add: start_server_def)
next
  case None
  obtain rs where e: "apOpen b = rs @ apOpen a" "set rs = set (owns n (apSessions b n))"
    "apFresh a \<le> n" "n < apFresh b" "apActive b = apActive a" "apLog b = apLog a"
    "\<And>m. m \<noteq> n \<Longrightarrow> apSessions b m = apSessions a m" "\<not> ssClosed (apSessions b n)" "distinct (owns n (apSessions b n))"
    "\<And>r. r \<in> set (owns n (apSessions b n)) \<Longrightarrow> apFresh a \<le> owned_id r \<and> owned_id r < apFresh b \<and> \<not> is_tun r"
    using equippedE [OF assms(1)] by metis
  let ?k = "apFresh b"
  let ?c = "snd (start_server err n b)"
  have s: "apSessions ?c n = (apSessions b n)\<lparr>ssServers := ssServers (apSessions b n) @ [?k]\<rparr>"
    "\<And>m. m \<noteq> n \<Longrightarrow> apSessions ?c m = apSessions b m" "apFresh ?c = Suc ?k" "apActive ?c = apActive b"
    "apLog ?c = apLog b" "apOpen ?c = OwnServer ?k # apOpen b"
    using None by (simp_all add: start_server_def Let_def app_simps)
  have new: "OwnServer ?k \<notin> set (owns n (apSessions b n))" using e(10) [of "OwnServer ?k"] by auto
  have "equipped a n ?c"
    unfolding equipped_def s(3-6) using e assms(2) new
    by (auto simp: s(1,2) owns_server less_Suc_eq intro!: exI [of _ "OwnServer ?k # rs"])
  then show ?thesis using assms(2) s(3) by simp
qed

lemma startProxy_equipped:
  assumes "equipped a n b" "apFresh a \<le> apFresh b"
  shows "equipped a n (snd (startProxy c e1 e2 n r b))"
proof -
  note s1 = start_server_equipped [OF assms, of e1]
  note s2 = start_server_equipped [OF assms, of e2]
  note s3 = start_server_equipped [OF conjunct1 [OF s1] conjunct2 [OF s1], of e2]
  show ?thesis
    using assms(1) s1 s2 s3 unfolding startProxy_def Let_def
    by (cases "start_server e1 n b") (auto split: option.splits prod.splits)
qed

lemma start_server_inv:
  assumes "app_inv a" "apActive a = Some n"
  shows "app_inv (snd (start_server err n a)) \<and> apActive (snd (start_server err n a)) = Some n"
proof (cases err)
  case (Some e)
  then show ?thesis using assms by (simp add: start_server_def)
next
  case None
  note i = app_invD [OF assms(1)]
  let ?k = "apFresh a"
  let ?c = "snd (start_server err n a)"
  have s: "apSessions ?c n = (apSessions a n)\<lparr>ssServers := ssServers (apSessions a n) @ [?k]\<rparr>"
    "apFresh ?c = Suc ?k" "apActive ?c = apActive a" "apLog ?c = apLog a" "apOpen ?c = OwnServer ?k # apOpen a"
    using None by (simp_all add: start_server_def Let_def app_simps)
  have new: "OwnServer ?k \<notin> set (owns n (apSessions a n))" using i(5) [OF assms(2)] i(1) by fastforce
  have "app_inv ?c"
  proof (rule app_invI, goal_cases)
    case (1 r)
    then show ?case using i(1) [of r] by (auto simp: s less_Suc_eq)
  next
    case (3 m)
    then have "m = n" using assms(2) by (simp add: s)
    then show ?case using i(3,6) [OF assms(2)] new by (simp add: s owns_server)
  next
    case (4 m r)
    then have "m = n" using assms(2) by (simp add: s)
    with 4(2-) show ?case unfolding \<open>m = n\<close> using i(4) [OF assms(2), of r] by (auto simp: s owns_server)
  next
    case (5 m r)
    then have "m = n" using assms(2) by (simp add: s)
    with 5(2-) show ?case unfolding \<open>m = n\<close> using i(5) [OF assms(2), of r] by (auto simp: s owns_server)
  next
    case (7 r)
    then show ?case using i(1,8) [of r] by (auto simp: s)
  qed (use assms(2) i(7) in \<open>simp_all add: s\<close>)
  then show ?thesis using assms(2) s(3) by simp
qed

lemma startProxy_inv:
  assumes "app_inv a" "apActive a = Some n"
  shows "app_inv (snd (startProxy c e1 e2 n r a))"
proof -
  note s1 = start_server_inv [OF assms, of e1]
  note s2 = start_server_inv [OF assms, of e2]
  note s3 = start_server_inv [OF conjunct1 [OF s1] conjunct2 [OF s1], of e2]
  show ?thesis
    using assms(1) s1 s2 s3 unfolding startProxy_def Let_def
    by (cases "start_server e1 n a") (auto split: option.splits prod.splits)
qed

lemma Prepare_inv:
  assumes "app_inv a"
  shows "app_inv (snd (Prepare decode json w a))"
proof (cases "parseConfig decode json")
  case (Inl e)
  then show ?thesis using assms by (simp add: Prepare_def)
next
  case (Inr c)
  then show ?thesis
    using createSession_outcome [OF assms, of c w] undone_inv [OF _ assms] replace_inv [OF created_equipped assms]
    by (auto simp: Prepare_def split: sum.splits prod.splits)
qed

lemma created_fresh: "created a n b \<Longrightarrow> apFresh a \<le> apFresh b"
  by (simp add: created_def)

lemma StartProxy_inv:
  assumes "app_inv a"
  shows "app_inv (snd (StartProxy decode json w e1 e2 a))"
proof (cases "parseConfig decode json")
  case (Inl e)
  then show ?thesis using assms by (simp add: StartProxy_def)
next
  case (Inr c)
  show ?thesis
  proof (cases "createSession c w a")
    case (Pair res b)
    show ?thesis
    proof (cases res)
      case Inl': (Inl e)
      then show ?thesis
        using createSession_outcome [OF assms, of c w] undone_inv [OF _ assms] assms Pair Inr by (simp add: StartProxy_def)
    next
      case Inr': (Inr nr)
      obtain n r where nr: "nr = (n, r)" by (cases nr)
      have b: "created a n b" using createSession_outcome [OF assms, of c w] Pair Inr' nr by simp
      have e: "equipped a n (snd (startProxy c e1 e2 n r b))"
        by (rule startProxy_equipped [OF created_equipped [OF b] created_fresh [OF b]])
      obtain pr pb where pp: "startProxy c e1 e2 n r b = (pr, pb)" by (cases "startProxy c e1 e2 n r b")
      show ?thesis
        using assms e pp Inr Pair Inr' nr undone_inv [OF close_equipped [OF e assms] assms] replace_inv [OF e assms]
        by (auto simp: StartProxy_def split: sum.splits)
    qed
  qed
qed

lemma owns_without_servers:
  "set (owns n (s\<lparr>ssServers := []\<rparr>)) = {r \<in> set (owns n s). r \<notin> set (map OwnServer (ssServers s))}"
  "distinct (owns n s) \<Longrightarrow> distinct (owns n (s\<lparr>ssServers := []\<rparr>)) \<and> distinct (ssServers s)"
  by (auto simp: owns_def distinct_map split: option.split)

lemma stopProxy_inv:
  assumes "app_inv a" "apActive a = Some n"
  shows "app_inv (stopProxy n a)"
proof -
  note i = app_invD [OF assms(1)]
  let ?rs = "map OwnServer (ssServers (apSessions a n))"
  let ?c = "stopProxy n a"
  have s: "apSessions ?c n = (apSessions a n)\<lparr>ssServers := []\<rparr>" "apFresh ?c = apFresh a" "apActive ?c = apActive a"
    "apLog ?c = apLog a @ ?rs" "apOpen ?c = filter (\<lambda>r. r \<notin> set ?rs) (apOpen a)"
    by (simp_all add: stopProxy_def app_simps)
  have sub: "set ?rs \<subseteq> set (owns n (apSessions a n))" by (auto simp: owns_def)
  have d: "distinct ?rs"
    using owns_without_servers(2) [OF i(6) [OF assms(2)]] by (simp add: distinct_map inj_on_def)
  show ?thesis
  proof (rule app_invI, goal_cases)
    case (1 r)
    then show ?case using i(1) [of r] i(5) [OF assms(2), of r] sub by (auto simp: s)
  next
    case (3 m)
    then have "m = n" using assms(2) by (simp add: s)
    then show ?case using i(3,6) [OF assms(2)] owns_without_servers(2) by (simp add: s)
  next
    case (4 m r)
    then have "m = n" using assms(2) by (simp add: s)
    with 4(2-) show ?case unfolding \<open>m = n\<close> using i(4) [OF assms(2), of r] by (auto simp: s owns_without_servers(1))
  next
    case (5 m r)
    then have "m = n" using assms(2) by (simp add: s)
    with 5(2-) show ?case unfolding \<open>m = n\<close> using i(5) [OF assms(2), of r] by (auto simp: s owns_without_servers(1))
  next
    case 6
    have "set (apLog a) \<inter> set ?rs = {}" using i(8) i(5) [OF assms(2)] sub by blast
    then show ?case using i(7) d by (auto simp: s)
  next
    case (7 r)
    then show ?case using i(8) [of r] by (auto simp: s)
  qed (use assms(2) in \<open>simp_all add: s\<close>)
qed

lemma owns_tun:
  "set (owns n (s\<lparr>ssTun := x\<rparr>)) = {r \<in> set (owns n s). \<not> is_tun r} \<union> (case x of Some t \<Rightarrow> {OwnTun t} | None \<Rightarrow> {})"
  "distinct (owns n s) \<Longrightarrow> distinct (owns n (s\<lparr>ssTun := x\<rparr>))"
  by (auto simp: owns_def distinct_map split: option.splits if_splits)

text \<open>A session other than the active one may change in any way, and of the active one the TUN stack.\<close>

lemma tun_change_inv:
  assumes "app_inv a" "apFresh a \<le> apFresh b" "apActive b = apActive a"
    "\<And>n. apActive a = Some n \<Longrightarrow> \<exists>x. apSessions b n = (apSessions a n)\<lparr>ssTun := x\<rparr> \<and> (\<forall>t. x = Some t \<longrightarrow> OwnTun t \<in> set (apOpen b))"
    "\<And>r. r \<in> set (apOpen b) \<Longrightarrow> owned_id r < apFresh b \<and> r \<notin> set (apLog b) \<and> (is_tun r \<or> r \<in> set (apOpen a))"
    "\<And>r. r \<in> set (apOpen a) \<Longrightarrow> \<not> is_tun r \<Longrightarrow> r \<in> set (apOpen b)"
    "distinct (apLog b)" "\<And>r. r \<in> set (apLog b) \<Longrightarrow> owned_id r < apFresh b"
  shows "app_inv b"
proof -
  note i = app_invD [OF assms(1)]
  show ?thesis
  proof (rule app_invI, goal_cases)
    case (1 r)
    then show ?case using assms(5,8) by blast
  next
    case (2 r)
    then show ?case using assms(3) assms(5) [of r] i(2) [of r] by auto
  next
    case (3 n)
    then show ?case
      using assms(2,3) assms(4) [of n] i(3) [of n] i(6) [of n] owns_tun(2) [of n "apSessions a n"] by force
  next
    case (4 n r)
    then show ?case
      using assms(3) assms(4) [of n] assms(5) [of r] i(4) [of n r] by (auto simp: owns_tun(1))
  next
    case (5 n r)
    then show ?case
      using assms(3) assms(4) [of n] assms(6) [of r] i(5) [of n r] by (auto simp: owns_tun(1) split: option.splits)
  next
    case 6
    then show ?case by (rule assms(7))
  next
    case (7 r)
    then show ?case using assms(5) by blast
  qed
qed

lemma app_inv_same:
  assumes "app_inv a" "apOpen b = apOpen a" "apLog b = apLog a" "apFresh b = apFresh a" "apActive b = apActive a"
    "\<And>n. owns n (apSessions b n) = owns n (apSessions a n)" "\<And>n. ssClosed (apSessions b n) = ssClosed (apSessions a n)"
  shows "app_inv b"
  using assms unfolding app_inv_def by (cases "apActive a") simp_all

lemma StartStack_inv:
  assumes "app_inv a"
  shows "app_inv (snd (StartStack e a))"
proof (cases "apActive a")
  case None
  then show ?thesis using assms by (simp add: StartStack_def)
next
  case (Some n)
  note i = app_invD [OF assms]
  let ?t = "apFresh a"
  have "app_inv ((on_session n (\<lambda>s. s\<lparr>ssTun := Some ?t\<rparr>) (opens (OwnTun ?t) (a\<lparr>apFresh := Suc ?t\<rparr>)))\<lparr>apRunning := x\<rparr>)" for x
  proof (rule tun_change_inv [OF assms], goal_cases)
    case (4 r)
    then show ?case using i(1,8) [of r] i(1) [of "OwnTun ?t"] by (auto simp: app_simps less_Suc_eq)
  next
    case (7 r)
    then show ?case using i(1) [of r] by (auto simp: app_simps)
  qed (use i(7) Some in \<open>auto simp: app_simps\<close>)
  then show ?thesis
    using assms Some i(3) [OF Some] by (auto simp: StartStack_def Let_def app_simps opens_def on_session_def split: option.split)
qed

lemma stack_ends_inv:
  assumes "app_inv a"
  shows "app_inv (snd (stack_ends n t e a))"
proof -
  note i = app_invD [OF assms]
  have "app_inv (on_session n (\<lambda>s. s\<lparr>ssTun := None\<rparr>) (a\<lparr>apRunning := x\<rparr>))" for x
  proof (rule tun_change_inv [OF assms], goal_cases)
    case (3 m)
    show ?case
    proof (cases "m = n")
      case True
      then show ?thesis by (intro exI [of _ None]) (simp add: app_simps)
    next
      case False
      then show ?thesis
        using i(5) [OF 3] by (intro exI [of _ "ssTun (apSessions a m)"]) (simp add: app_simps owns_def)
    qed
  qed (use i(1,7,8) in \<open>auto simp: app_simps\<close>)
  moreover have "app_inv (a\<lparr>apRunning := x\<rparr>)" for x
    by (rule app_inv_same [OF assms]) simp_all
  ultimately show ?thesis
    using assms by (simp add: stack_ends_def Let_def)
qed

lemma StopStack_inv:
  assumes "app_inv a"
  shows "app_inv (StopStack a)"
proof -
  note i = app_invD [OF assms]
  have "app_inv (closes (OwnTun t) (on_session n (\<lambda>s. s\<lparr>ssTun := None\<rparr>) a))"
    if n: "apActive a = Some n" and t: "ssTun (apSessions a n) = Some t" for n t
  proof -
    have o: "OwnTun t \<in> set (apOpen a)" using i(5) [OF n] t by (simp add: owns_def)
    show ?thesis
    proof (rule tun_change_inv [OF assms], goal_cases)
      case (4 r)
      then show ?case using i(1,8) [of r] by (auto simp: app_simps)
    next
      case (7 r)
      then show ?case using i(1) [of r] i(1) [OF disjI1, OF o] by (auto simp: app_simps)
    qed (use i(7) i(8) o n in \<open>auto simp: app_simps\<close>)
  qed
  then show ?thesis using assms by (auto simp: StopStack_def split: option.split)
qed

lemma ClearFakeDNS_inv:
  assumes "app_inv a"
  shows "app_inv (snd (ClearFakeDNS a))"
proof -
  have "app_inv (on_session n (\<lambda>s. s\<lparr>ssResolver := Some q\<rparr>) a)" if "ssResolver (apSessions a n) = Some r" for n q r
    by (rule app_inv_same [OF assms]) (use that in \<open>auto simp: app_simps owns_def\<close>)
  then show ?thesis using assms unfolding ClearFakeDNS_def by (simp split: option.split)
qed

lemma StartProxyFrontend_inv:
  assumes "app_inv a"
  shows "app_inv (snd (StartProxyFrontend decode json e1 e2 a))"
proof -
  have "app_inv (snd (case startProxy c e1 e2 n r a of (Inl e, a) \<Rightarrow> (failure ''proxy_start_failed'' e, a) | (Inr r, a) \<Rightarrow> (r, a)))"
    if "apActive a = Some n" for c n r
    using startProxy_inv [OF assms that, of c e1 e2 r] by (cases "startProxy c e1 e2 n r a") (simp split: sum.split)
  then show ?thesis using assms unfolding StartProxyFrontend_def by (simp split: sum.split option.split)
qed

lemma api_step_inv:
  assumes "app_inv a"
  shows "app_inv (api_step decode c a)"
proof (cases c)
  case CallStop
  then show ?thesis using Stop_inv [OF assms] by simp
next
  case CallStopProxyFrontend
  then show ?thesis using assms stopProxy_inv [OF assms] by (simp add: StopProxyFrontend_def split: option.split)
next
  case (CallSetDNS f)
  then show ?thesis by (simp add: app_inv_same [OF assms])
next
  case (CallSetSession f)
  then show ?thesis by (simp add: app_inv_same [OF assms])
qed (simp_all add: assms Prepare_inv StartProxy_inv StartProxyFrontend_inv StartStack_inv stack_ends_inv StopStack_inv
      ClearFakeDNS_inv)

interpretation app: keeps_inv "\<lambda>c a. Some (api_step decode c a)" app_inv
  by unfold_locales (auto intro: api_step_inv)

lemma app_inv_fresh: "app_inv fresh_app"
  by (simp add: app_inv_def fresh_app_def)

lemma run_api_ops: "run_ops (\<lambda>c a. Some (api_step decode c a)) cs a = Some (run_api decode cs a)"
  by (induction cs arbitrary: a) (simp_all add: run_api_def)

lemma run_api_inv: "app_inv (run_api decode cs fresh_app)"
  by (rule app.run_keeps [OF app_inv_fresh run_api_ops])


section \<open>Properties of the session\<close>


text \<open>Nothing is closed twice, and nothing that was closed is open.\<close>

lemma nothing_is_closed_twice:
  "distinct (apLog (run_api decode cs fresh_app))
     \<and> set (apLog (run_api decode cs fresh_app)) \<inter> set (apOpen (run_api decode cs fresh_app)) = {}"
  using app_invD(7,8) [OF run_api_inv] by blast

lemma session_result_ok [simp]: "mrOK (session_result c r) = mrOK r"
  by (simp add: session_result_def)

lemma negotiated_ok: "negotiatedResult v = Inr r \<Longrightarrow> mrOK r"
  by (auto simp: negotiatedResult_def ok_result_def split: sum.splits)

lemma created_result_ok: "createSession c w a = (Inr (n, r), b) \<Longrightarrow> mrOK r"
  by (auto simp: createSession_def Let_def dest!: negotiated_ok split: option.splits sum.splits prod.splits)

lemma startProxy_result_ok: "startProxy c e1 e2 n r a = (Inr r', b) \<Longrightarrow> mrOK r' = mrOK r"
  by (auto simp: startProxy_def Let_def split: option.splits prod.splits if_splits)


text \<open>The frontend call is not so careful: a listener that was opened before the other one failed stays open, and
  the call cannot be repeated.\<close>

lemma failed_frontend_keeps_listener:
  assumes "ssServers (apSessions a n) = []" "ssDialer (apSessions a n) = Some d" "ssResolver (apSessions a n) = Some q"
    "mcSocksBind c \<noteq> []" "mcHTTPBind c \<noteq> []"
  shows "\<exists>b. startProxy c None (Some e) n r a = (Inl e, b) \<and> OwnServer (apFresh a) \<in> set (apOpen b)
    \<and> startProxy c e1 e2 n r b = (Inl ''proxy frontend already started'', b)"
  using assms by (simp add: startProxy_def start_server_def Let_def app_simps)

text \<open>A TUN stack whose \<open>Run\<close> returned by itself is forgotten without being closed; stopping the session does not
  close it either.\<close>

lemma ended_stack_is_not_closed:
  assumes "app_inv a" "apActive a = Some n" "(n, t) \<in> set (apRunning a)" "ssTun (apSessions a n) = Some t"
  shows "OwnTun t \<in> set (apOpen (Stop (snd (stack_ends n t err a))))"
proof -
  have o: "OwnTun t \<in> set (apOpen a)" using app_invD(5) [OF assms(1,2)] assms(4) by (simp add: owns_def)
  have "\<not> ssClosed (apSessions a n)" using app_invD(3) [OF assms(1,2)] by simp
  then show ?thesis
    using assms o by (auto simp: stack_ends_def Let_def Stop_def close_session_def app_simps owns_def)
qed

text \<open>\<open>replaceSession\<close> stops the old session and sets the new one in two critical sections. When two calls run at
  the same time, the one that sets first is overwritten: its session is neither active nor closed.\<close>

lemma concurrent_replacement_loses_session:
  assumes "m \<noteq> n" "\<not> ssClosed (apSessions (Stop (Stop a)) m)"
  shows "apActive (set_active n (set_active m (Stop (Stop a)))) = Some n
    \<and> \<not> ssClosed (apSessions (set_active n (set_active m (Stop (Stop a)))) m)"
  using assms by (simp add: set_active_def)


section \<open>Domains the user wants in the VPN\<close>

lemma add_custom_keeps:
  "mget m d = Some rs \<Longrightarrow> any_rule \<in> set rs \<Longrightarrow> \<exists>rs. mget (add_custom ds m) d = Some rs \<and> any_rule \<in> set rs"
proof (induction ds arbitrary: m rs)
  case Nil
  then show ?case by (simp add: add_custom_def)
next
  case (Cons e ds)
  let ?m = "mset e ((case mget m e of None \<Rightarrow> [] | Some rs \<Rightarrow> rs) @ [any_rule]) m"
  obtain rs' where "mget ?m d = Some rs'" "any_rule \<in> set rs'"
    using Cons.prems by (cases "e = d") auto
  from Cons.IH [OF this] show ?case by (simp add: add_custom_def)
qed

lemma add_custom_has: "d \<in> set ds \<Longrightarrow> \<exists>rs. mget (add_custom ds m) d = Some rs \<and> any_rule \<in> set rs"
proof (induction ds arbitrary: m)
  case (Cons e ds)
  let ?m = "mset e ((case mget m e of None \<Rightarrow> [] | Some rs \<Rightarrow> rs) @ [any_rule]) m"
  have u: "add_custom (e # ds) m = add_custom ds ?m" by (simp add: add_custom_def)
  show ?case
  proof (cases "d = e")
    case True
    then have "mget ?m d = Some ((case mget m e of None \<Rightarrow> [] | Some rs \<Rightarrow> rs) @ [any_rule])" by simp
    from add_custom_keeps [OF this] show ?thesis unfolding u by simp
  next
    case False
    then show ?thesis using Cons unfolding u by simp
  qed
qed simp

lemma set_custom_dns_index [simp]: "rIndex (set_custom_dns m r) = rIndex r"
  unfolding set_custom_dns_def by (induction m arbitrary: r) (auto simp: SetPermanentDNS_def)

lemma policy_index:
  "rIndex (policy_resolver c v cb)
     = newDomainResourceIndex (case policy_domains c v of None \<Rightarrow> [] | Some m \<Rightarrow> m) empty_node"
  by (simp add: policy_resolver_def Let_def NewResolver_def SetPolicyDomainSuffix_def AddLookupSource_def
      split: option.split)

lemma covered_domain_is_found:
  assumes "(d, rs) \<in> set m" "covers_host (index_name d) host"
  shows "\<exists>dom all. domain_match (newDomainResourceIndex m empty_node) host = Some (dom, all) \<and> set rs \<subseteq> set all"
proof -
  let ?name = "index_name d" and ?k = "length host - length (index_name d)"
  have k: "drop ?k host = ?name" "?k < length host" "?name \<noteq> []"
    using assms(2) length_greater_0_conv [of ?name] by (auto simp: covers_host_def has_suffix_def simp del: length_greater_0_conv)
  have "(d, rs) \<in> set (filter (\<lambda>(d, rs). index_name d = ?name) m)" using assms(1) by simp
  then obtain e where e: "filed m ?name = Some e" "set rs \<subseteq> set (dreRules e)"
    unfolding filed_def by (cases "filter (\<lambda>(d, rs). index_name d = ?name) m") force+
  have "e \<in> set (covering m host)"
    unfolding covering_def using k assms(2) e(1) by (auto intro!: bexI [of _ ?k])
  then show ?thesis
    unfolding domain_match_def Let_def using e(2) walk_covering [of m host]
    by (cases "walk (newDomainResourceIndex m empty_node) (rev host)") auto
qed



section \<open>Runs\<close>

definition demo_config :: mobile_config where
  "demo_config = \<lparr>mcProtocol = [], mcServer = ''v.z.cn'', mcServerScheme = [], mcPort = 0, mcUsername = ''u'',
     mcPassword = ''p'', mcTOTPSecret = [], mcTwfID = [], mcCertificateBase64 = [], mcCertificatePassword = [],
     mcAuthType = [], mcLoginDomain = [], mcPhone = [], mcClientData = [], mcSocksBind = '':1'', mcSocksUser = [],
     mcSocksPassword = [], mcHTTPBind = '':2'', mcRemoteDNS = [], mcSecondaryDNS = [], mcProxyAll = False,
     mcDisableConfig = False, mcDisableRemoteDNS = False, mcSkipDomainResource = False, mcDialDirectProxy = [],
     mcDisableKeepAlive = False, mcKeepAliveURL = [], mcTCPTunnelOnly = False, mcDNSTTL = 0,
     mcUpdateBestNodesInterval = 0, mcSessionRefreshInterval = 0, mcCustomDNS = [], mcCustomProxyDomains = ['' Lib.cn '']\<rparr>"

definition demo_world :: world where
  "demo_world = \<lparr>wdUnderlay = None, wdCertificate = (\<lambda>_ _. None), wdSetup = None, wdInvalid = False,
     wdClientData = [], wdView = \<lparr>vwIP = Inr (ipv4 10 0 0 9), vwPrefixes = None, vwContains = None,
       vwDNSServers = [''10.0.0.1''], vwDNSServer = [], vwDomains = (False, None), vwIPResources = Some [],
       vwDNSResource = None, vwTCPTunnel = True\<rparr>, wdNewStack = None\<rparr>"

definition demo_decode :: "string \<Rightarrow> string + mobile_config" where
  "demo_decode _ = Inr demo_config"

lemma demo_parsed: "\<exists>c. parseConfig demo_decode j = Inr c \<and> to_lower (mcProtocol c) = ''atrust'' \<and> mcAuthType c = []
    \<and> mcUsername c = ''u'' \<and> mcPassword c = ''p'' \<and> mcSocksBind c = '':1'' \<and> mcHTTPBind c = '':2'' \<and> \<not> mcTCPTunnelOnly c"
  by (simp add: parseConfig_def demo_decode_def demo_config_def server_scheme_def with_defaults_def Let_def)
    (simp add: trim_space_def to_lower_def lower_char_def upper_chars_def lower_chars_def)

lemma demo_login: "NewLoginMethod \<lparr>loAuthType = auth_type [], loUsername = ''u'', loPassword = ''p'', loPhone = ph, loDomain = d,
    loGraphCodeFile = [], loCASTicket = [], loOAuth2Code = []\<rparr> = Inr (Some (PasswordLogin ''u'' ''p'' d []))"
  by (simp add: NewLoginMethod_def auth_type_def)


lemma createSession_refused:
  "client_refused c w = None \<Longrightarrow> wdUnderlay w = None \<Longrightarrow> wdSetup w = Some e \<Longrightarrow> fst (createSession c w a) = Inl e"
  by (simp add: createSession_def setup_client_def Let_def)



end
